(* ===== verification/Prelude.thy ===== *)
theory Prelude
  imports Main "HOL-Library.AList" "HOL-Library.Char_ord" "HOL-Library.List_Lexorder"
    "HOL-Library.Signed_Division"
begin

text \<open>
  Shared ground of the development.  It fixes how the Go types the gateway computes with are
  represented and proves the generic facts the components use:

  \<^item> \<open>int64\<close> values are HOL integers kept in range by \<open>wrap64\<close>, Go's silent two's-complement
    wrap-around; division is the library's truncating \<open>sdiv\<close>;
  \<^item> \<open>time.Time\<close> is the number of nanoseconds since the Unix epoch (an unbounded integer, since
    Go's range of instants is never reached), \<open>time.Duration\<close> a number of nanoseconds;
    \<open>time.Time.Sub\<close> saturates as Go's does, which matters when the zero time (year 1) is
    subtracted from a current instant;
  \<^item> a Go map whose size or iteration matters is an association list with distinct keys
    (\<open>gomap\<close>), updated with the library's \<open>AList\<close>; a map that is only looked up is a
    partial function.

  The collections \<open>go_defs\<close>, \<open>dur_defs\<close> and \<open>inv_intros\<close> gather definitions and invariant rules
  that the component proofs unfold or apply together.
\<close>

named_theorems go_defs
named_theorems dur_defs
named_theorems inv_intros

subsection \<open>Machine integers\<close>

definition max_int64 :: int where
  "max_int64 = 9223372036854775807"

definition min_int64 :: int where
  "min_int64 = - 9223372036854775808"

definition in_int64 :: "int \<Rightarrow> bool" where
  "in_int64 x \<longleftrightarrow> min_int64 \<le> x \<and> x \<le> max_int64"

definition wrap64 :: "int \<Rightarrow> int" where
  "wrap64 x = (x + 9223372036854775808) mod 18446744073709551616 - 9223372036854775808"

lemma in_int64_wrap64 [simp]: "in_int64 (wrap64 x)"
proof -
  have "0 \<le> (x + 9223372036854775808) mod 18446744073709551616"
    and "(x + 9223372036854775808) mod 18446744073709551616 < 18446744073709551616"
    by simp_all
  then show ?thesis
    unfolding in_int64_def wrap64_def min_int64_def max_int64_def by linarith
qed

lemma wrap64_id [simp]: "in_int64 x \<Longrightarrow> wrap64 x = x"
  by (simp add: in_int64_def wrap64_def min_int64_def max_int64_def)

lemma in_int64_0 [simp]: "in_int64 0"
  and in_int64_1 [simp]: "in_int64 1"
  by (simp_all add: in_int64_def min_int64_def max_int64_def)

lemma wrap64_add_wrap64 [simp]: "wrap64 (wrap64 x + y) = wrap64 (x + y)"
proof -
  have "wrap64 x + y + 9223372036854775808
      = (x + 9223372036854775808) mod 18446744073709551616 + y"
    by (simp add: wrap64_def)
  then have "wrap64 (wrap64 x + y)
      = ((x + 9223372036854775808) + y) mod 18446744073709551616 - 9223372036854775808"
    unfolding wrap64_def by (simp add: mod_simps)
  then show ?thesis
    by (simp add: wrap64_def algebra_simps)
qed

lemma wrap64_cancel [simp]: "in_int64 x \<Longrightarrow> wrap64 (wrap64 (x + d) - d) = x"
  using wrap64_add_wrap64 [of "x + d" "- d"] by simp

subsection \<open>Instants and durations\<close>

type_synonym gtime = int
type_synonym duration = int

definition second :: duration where [dur_defs]: "second = 1000000000"
definition millisecond :: duration where [dur_defs]: "millisecond = 1000000"
definition minute :: duration where [dur_defs]: "minute = 60 * second"
definition hour :: duration where [dur_defs]: "hour = 60 * minute"

text \<open>The zero \<open>time.Time\<close> is 1 January of year 1, 00:00 UTC.\<close>

definition zero_time :: gtime where
  "zero_time = - 62135596800 * 1000000000"

definition time_IsZero :: "gtime \<Rightarrow> bool" where
  "time_IsZero t \<longleftrightarrow> t = zero_time"

definition time_Sub :: "gtime \<Rightarrow> gtime \<Rightarrow> duration" where
  "time_Sub t u = (if t - u < min_int64 then min_int64
                   else if max_int64 < t - u then max_int64 else t - u)"

text \<open>Unix seconds of an instant, rounded down as Go's \<open>Time.Unix\<close> does.\<close>

definition time_Unix :: "gtime \<Rightarrow> int" where
  "time_Unix t = t div 1000000000"

lemma time_Sub_less: "0 < d \<Longrightarrow> d \<le> max_int64 \<Longrightarrow> time_Sub t u < d \<longleftrightarrow> t < u + d"
  by (auto simp: time_Sub_def min_int64_def max_int64_def)

lemma time_Sub_ge: "0 < d \<Longrightarrow> d \<le> max_int64 \<Longrightarrow> d \<le> time_Sub t u \<longleftrightarrow> u + d \<le> t"
  by (auto simp: time_Sub_def min_int64_def max_int64_def)

subsection \<open>Go maps as association lists\<close>

type_synonym ('k, 'v) gomap = "('k \<times> 'v) list"

definition gomap_wf :: "('k, 'v) gomap \<Rightarrow> bool" where
  "gomap_wf m \<longleftrightarrow> distinct (map fst m)"

lemma gomap_wf_Nil [simp, inv_intros]: "gomap_wf []"
  by (simp add: gomap_wf_def)

lemma gomap_wf_update [simp, inv_intros]: "gomap_wf m \<Longrightarrow> gomap_wf (AList.update k v m)"
  by (simp add: gomap_wf_def distinct_update)

lemma gomap_wf_filter [simp, inv_intros]: "gomap_wf m \<Longrightarrow> gomap_wf (filter P m)"
  by (simp add: gomap_wf_def distinct_map_filter)

lemma length_update_le: "length (AList.update k v m) \<le> Suc (length m)"
  by (induction m) auto

lemma length_update_known: "map_of m k \<noteq> None \<Longrightarrow> length (AList.update k v m) = length m"
  by (induction m) auto

lemma update_fresh: "map_of m k = None \<Longrightarrow> AList.update k v m = m @ [(k, v)]"
  by (induction m) (auto split: if_splits)

lemma map_of_update [simp]: "map_of (AList.update k v m) k' = (if k' = k then Some v else map_of m k')"
  by (simp add: update_conv')

lemma map_of_filter_key: 
  "map_of (filter (\<lambda>(k, v). P k) m) k = (if P k then map_of m k else None)"
  by (induction m) auto

subsection \<open>Results\<close>

text \<open>A Go call that may fail is a sum: \<open>Inl\<close> the error, \<open>Inr\<close> the value; an early return on an error
  is \<open>bind_sum\<close>.\<close>

fun bind_sum :: "'e + 'a \<Rightarrow> ('a \<Rightarrow> 'e + 'b) \<Rightarrow> 'e + 'b" where
  "bind_sum (Inl e) f = Inl e"
| "bind_sum (Inr x) f = f x"

lemma bind_sum_Inr: "bind_sum r f = Inr y \<longleftrightarrow> (\<exists>x. r = Inr x \<and> f x = Inr y)"
  by (cases r) auto

lemma bind_sum_InrE:
  assumes "bind_sum r f = Inr y" obtains x where "r = Inr x" "f x = Inr y"
  using assms by (auto simp: bind_sum_Inr)

subsection \<open>Lists\<close>

text \<open>A Go loop over a slice that stops at the first hit.\<close>

fun first_some :: "('a \<Rightarrow> 'b option) \<Rightarrow> 'a list \<Rightarrow> 'b option" where
  "first_some f [] = None"
| "first_some f (x # xs) = (case f x of Some y \<Rightarrow> Some y | None \<Rightarrow> first_some f xs)"

lemma first_some_None: "first_some f xs = None \<longleftrightarrow> (\<forall>x\<in>set xs. f x = None)"
  by (induction xs) (auto split: option.splits)

lemma first_some_SomeD: "first_some f xs = Some y \<Longrightarrow> \<exists>x\<in>set xs. f x = Some y"
  by (induction xs) (auto split: option.splits)

lemma first_some_split:
  "first_some f xs = Some y \<Longrightarrow>
     \<exists>ps x qs. xs = ps @ x # qs \<and> f x = Some y \<and> (\<forall>p\<in>set ps. f p = None)"
proof (induction xs)
  case (Cons x xs)
  show ?case
  proof (cases "f x")
    case None
    with Cons obtain ps z qs where "xs = ps @ z # qs" "f z = Some y" "\<forall>p\<in>set ps. f p = None"
      by auto
    with None show ?thesis by (intro exI [of _ "x # ps"] exI [of _ z] exI [of _ qs]) auto
  next
    case (Some z)
    with Cons.prems show ?thesis by (intro exI [of _ "[]"] exI [of _ x] exI [of _ xs]) auto
  qed
qed simp

text \<open>Indexing a list built from blocks of one length.\<close>

lemma length_concat_uniform: "\<forall>x\<in>set xs. length (f x) = n \<Longrightarrow> length (concat (map f xs)) = length xs * n"
  by (induction xs) auto

lemma concat_uniform_nth:
  "\<forall>x\<in>set xs. length (f x) = n \<Longrightarrow> i < length xs \<Longrightarrow> k < n \<Longrightarrow>
     concat (map f xs) ! (i * n + k) = f (xs ! i) ! k"
proof (induction xs arbitrary: i)
  case (Cons x xs)
  then show ?case
    by (cases i) (simp_all add: nth_append add.assoc)
qed simp

lemma first_some_enumerate_None:
  "first_some (\<lambda>(i, x). f i x) (enumerate 0 xs) = None \<longleftrightarrow> (\<forall>i<length xs. f i (xs ! i) = None)"
  by (simp add: first_some_None all_set_conv_all_nth nth_enumerate_eq)

lemma first_some_enumerate_Some:
  assumes "first_some (\<lambda>(i, x). f i x) (enumerate 0 xs) = Some y"
  shows "\<exists>i<length xs. f i (xs ! i) = Some y \<and> (\<forall>j<i. f j (xs ! j) = None)"
proof -
  from first_some_split [OF assms] obtain ps z qs where
    z: "enumerate 0 xs = ps @ z # qs" "(case z of (i, x) \<Rightarrow> f i x) = Some y"
      "\<forall>p\<in>set ps. (case p of (i, x) \<Rightarrow> f i x) = None" by blast
  have len: "length ps < length xs" using arg_cong [OF z(1), of length] by simp
  have "enumerate 0 xs ! length ps = z" using z(1) by simp
  then have "z = (length ps, xs ! length ps)" using len by (simp add: nth_enumerate_eq)
  moreover have "f j (xs ! j) = None" if "j < length ps" for j
  proof -
    have "enumerate 0 xs ! j = ps ! j" using z(1) that by (simp add: nth_append)
    then have "ps ! j = (j, xs ! j)" using that len by (simp add: nth_enumerate_eq)
    then show ?thesis using z(3) that nth_mem [OF that] by auto
  qed
  ultimately show ?thesis using z(2) len by auto
qed

end
