(* ===== verification/GoStrings.thy ===== *)
theory GoStrings
  imports Prelude
begin

text \<open>
  The parts of Go's string library the gateway relies on.  A Go string is a sequence of bytes, so
  it is a \<open>string\<close> (a list of 8-bit characters).  Modelled here: decimal printing and parsing
  (\<open>strconv.Itoa\<close>, \<open>strconv.Atoi\<close>), \<open>strings.Cut\<close>, \<open>strings.Join\<close>, \<open>strings.TrimSpace\<close>, ASCII case
  folding, UTF-8 decoding of one rune, and \<open>path.Match\<close> with its chunk scanner, character
  classes, escapes and \<open>ErrBadPattern\<close>.  The lemmas show that printing is injective and parses
  back, and which names a star pattern and a literal pattern match.
\<close>

subsection \<open>Decimal numbers\<close>

definition digit_char :: "nat \<Rightarrow> char" where
  "digit_char n = char_of (48 + n)"

definition is_digit :: "char \<Rightarrow> bool" where
  "is_digit c \<longleftrightarrow> 48 \<le> (of_char c :: nat) \<and> (of_char c :: nat) \<le> 57"

definition digit_val :: "char \<Rightarrow> nat" where
  "digit_val c = of_char c - 48"

fun itoa_nat :: "nat \<Rightarrow> string" where
  "itoa_nat n = (if n < 10 then [digit_char n] else itoa_nat (n div 10) @ [digit_char (n mod 10)])"

declare itoa_nat.simps [simp del]

definition itoa :: "int \<Rightarrow> string" where
  "itoa i = (if i < 0 then CHR ''-'' # itoa_nat (nat (- i)) else itoa_nat (nat i))"

definition digits_val :: "string \<Rightarrow> nat" where
  "digits_val s = foldl (\<lambda>a c. 10 * a + digit_val c) 0 s"

text \<open>
  \<open>strconv.Atoi\<close>: an optional sign, at least one digit, digits only, and a value that fits in
  64 bits; anything else is an error.
\<close>

definition atoi :: "string \<Rightarrow> int option" where
  "atoi s =
     (let neg = (case s of c # _ \<Rightarrow> c = CHR ''-'' | [] \<Rightarrow> False);
          ds = (case s of c # cs \<Rightarrow> if c = CHR ''-'' \<or> c = CHR ''+'' then cs else s | [] \<Rightarrow> []);
          v = (if neg then - int (digits_val ds) else int (digits_val ds))
      in if ds = [] \<or> \<not> list_all is_digit ds \<or> \<not> in_int64 v then None else Some v)"

subsection \<open>Cutting, joining, trimming\<close>

text \<open>\<open>strings.Cut\<close> with a one-byte separator: \<open>None\<close> when the separator does not occur.\<close>

fun strings_Cut :: "char \<Rightarrow> string \<Rightarrow> (string \<times> string) option" where
  "strings_Cut c [] = None"
| "strings_Cut c (x # xs) =
     (if x = c then Some ([], xs)
      else case strings_Cut c xs of None \<Rightarrow> None | Some (a, b) \<Rightarrow> Some (x # a, b))"

fun strings_Join :: "string \<Rightarrow> string list \<Rightarrow> string" where
  "strings_Join sep [] = []"
| "strings_Join sep [x] = x"
| "strings_Join sep (x # y # ys) = x @ sep @ strings_Join sep (y # ys)"

text \<open>The UTF-8 encodings of the runes \<open>unicode.IsSpace\<close> accepts.\<close>

definition space_encodings :: "string list" where
  "space_encodings = map (map char_of)
     ([[9], [10], [11], [12], [13], [32], [194, 133], [194, 160], [225, 154, 128],
       [226, 128, 168], [226, 128, 169], [226, 128, 175], [226, 129, 159], [227, 128, 128]]
      @ map (\<lambda>b. [226, 128, b]) [128..<139] :: nat list list)"

fun strip_prefix :: "string \<Rightarrow> string \<Rightarrow> string option" where
  "strip_prefix [] s = Some s"
| "strip_prefix (p # ps) [] = None"
| "strip_prefix (p # ps) (c # cs) = (if p = c then strip_prefix ps cs else None)"

definition strip_any :: "string list \<Rightarrow> string \<Rightarrow> string option" where
  "strip_any ps s = first_some (\<lambda>p. if p = [] then None else strip_prefix p s) ps"

lemma strip_prefix_length: "strip_prefix p s = Some t \<Longrightarrow> length s = length p + length t"
  by (induction p s rule: strip_prefix.induct) (auto split: if_splits)

lemma strip_any_shorter: "strip_any ps s = Some t \<Longrightarrow> length t < length s"
  by (auto simp: strip_any_def dest!: first_some_SomeD strip_prefix_length split: if_splits)

function trim_start :: "string list \<Rightarrow> string \<Rightarrow> string" where
  "trim_start ps s = (case strip_any ps s of None \<Rightarrow> s | Some t \<Rightarrow> trim_start ps t)"
  by pat_completeness auto
termination
  by (relation "measure (\<lambda>(ps, s). length s)") (auto dest: strip_any_shorter)

declare trim_start.simps [simp del]

lemma trim_start_none: "strip_any ps s = None \<Longrightarrow> trim_start ps s = s"
  by (subst trim_start.simps) simp

definition strings_TrimSpace :: "string \<Rightarrow> string" where
  "strings_TrimSpace s =
     rev (trim_start (map rev space_encodings) (rev (trim_start space_encodings s)))"

definition ascii_lower :: "char \<Rightarrow> char" where
  "ascii_lower c = (let n = (of_char c :: nat) in if 65 \<le> n \<and> n \<le> 90 then char_of (n + 32) else c)"

text \<open>
  \<open>strings.EqualFold\<close> against a lower-case ASCII word without \<open>k\<close> and \<open>s\<close> (the two ASCII letters
  with a non-ASCII fold partner), the only way the gateway uses it.
\<close>

definition equalFold_ascii :: "string \<Rightarrow> string \<Rightarrow> bool" where
  "equalFold_ascii s w \<longleftrightarrow> map ascii_lower s = w"

subsection \<open>UTF-8\<close>

definition rune_error :: nat where
  "rune_error = 65533"

definition cont_byte :: "nat \<Rightarrow> nat \<Rightarrow> nat \<Rightarrow> bool" where
  "cont_byte lo hi b \<longleftrightarrow> lo \<le> b \<and> b \<le> hi"

text \<open>\<open>utf8.DecodeRuneInString\<close>: the rune and its width; an invalid byte is \<open>(RuneError, 1)\<close>.\<close>

definition decode_rune :: "string \<Rightarrow> nat \<times> nat" where
  "decode_rune s =
    (case map of_char s of
       [] \<Rightarrow> (rune_error, 0)
     | b0 # bs \<Rightarrow>
        if b0 < 128 then (b0, 1)
        else if 194 \<le> b0 \<and> b0 \<le> 223 then
          (case bs of b1 # _ \<Rightarrow>
             if cont_byte 128 191 b1 then ((b0 - 192) * 64 + (b1 - 128), 2) else (rune_error, 1)
           | [] \<Rightarrow> (rune_error, 1))
        else if 224 \<le> b0 \<and> b0 \<le> 239 then
          (case bs of b1 # b2 # _ \<Rightarrow>
             if cont_byte (if b0 = 224 then 160 else 128) (if b0 = 237 then 159 else 191) b1
                \<and> cont_byte 128 191 b2
             then ((b0 - 224) * 4096 + (b1 - 128) * 64 + (b2 - 128), 3) else (rune_error, 1)
           | _ \<Rightarrow> (rune_error, 1))
        else if 240 \<le> b0 \<and> b0 \<le> 244 then
          (case bs of b1 # b2 # b3 # _ \<Rightarrow>
             if cont_byte (if b0 = 240 then 144 else 128) (if b0 = 244 then 143 else 191) b1
                \<and> cont_byte 128 191 b2 \<and> cont_byte 128 191 b3
             then ((b0 - 240) * 262144 + (b1 - 128) * 4096 + (b2 - 128) * 64 + (b3 - 128), 4)
             else (rune_error, 1)
           | _ \<Rightarrow> (rune_error, 1))
        else (rune_error, 1))"

lemma decode_rune_width: "s \<noteq> [] \<Longrightarrow> 0 < snd (decode_rune s)"
  by (cases s) (auto simp: decode_rune_def split: list.splits)

lemma decode_rune_drop:
  "decode_rune s = (r, n) \<Longrightarrow> s \<noteq> [] \<Longrightarrow> length (drop n s) < length s"
  using decode_rune_width [of s] by simp

text \<open>Ranging over a string: the runes in order.\<close>

function runes :: "string \<Rightarrow> nat list" where
  "runes s = (if s = [] then [] else
     (let (r, n) = decode_rune s in r # runes (drop n s)))"
  by pat_completeness auto
termination
  by (relation "measure length") (auto dest: decode_rune_drop [OF sym])

declare runes.simps [simp del]

subsection \<open>path.Match\<close>

fun scanChunk_len :: "bool \<Rightarrow> string \<Rightarrow> nat" where
  "scanChunk_len inrange [] = 0"
| "scanChunk_len inrange (c # cs) =
     (if c = CHR 0x5C then
        (case cs of [] \<Rightarrow> 1 | _ # cs' \<Rightarrow> 2 + scanChunk_len inrange cs')
      else if c = CHR ''['' then 1 + scanChunk_len True cs
      else if c = CHR '']'' then 1 + scanChunk_len False cs
      else if c = CHR ''*'' \<and> \<not> inrange then 0
      else 1 + scanChunk_len inrange cs)"

definition scanChunk :: "string \<Rightarrow> bool \<times> string \<times> string" where
  "scanChunk pat =
     (let p = dropWhile (\<lambda>c. c = CHR ''*'') pat;
          n = scanChunk_len False p
      in (p \<noteq> pat, take n p, drop n p))"

text \<open>\<open>getEsc\<close>: one possibly escaped rune of a class, \<open>None\<close> for \<open>ErrBadPattern\<close>.\<close>

definition getEsc :: "string \<Rightarrow> (nat \<times> string) option" where
  "getEsc chunk =
     (case chunk of
        [] \<Rightarrow> None
      | c # cs \<Rightarrow>
          if c = CHR ''-'' \<or> c = CHR '']'' then None
          else let body = (if c = CHR 0x5C then cs else chunk)
               in if body = [] then None
                  else let (r, n) = decode_rune body; rest = drop n body
                       in if (r = rune_error \<and> n = 1) \<or> rest = [] then None else Some (r, rest))"

lemma getEsc_shorter: "getEsc chunk = Some (r, rest) \<Longrightarrow> length rest < length chunk \<and> rest \<noteq> []"
proof (cases chunk)
  case (Cons c cs)
  define body where "body = (if c = CHR 0x5C then cs else chunk)"
  obtain r' n where d: "decode_rune body = (r', n)" by fastforce
  assume "getEsc chunk = Some (r, rest)"
  with Cons d have "body \<noteq> []" "rest = drop n body" "rest \<noteq> []"
    unfolding getEsc_def body_def [symmetric] by (auto simp: Let_def body_def split: if_splits)
  moreover have "length body \<le> length chunk" by (simp add: body_def Cons)
  ultimately show ?thesis using decode_rune_drop [OF d] by simp
qed (simp add: getEsc_def)

text \<open>The loop over the ranges of a class: \<open>None\<close> for a bad pattern, else whether \<open>r\<close> is in one.\<close>

function class_ranges :: "nat \<Rightarrow> string \<Rightarrow> bool \<Rightarrow> bool \<Rightarrow> (bool \<times> string) option" where
  "class_ranges r chunk seen matched =
     (if seen \<and> chunk \<noteq> [] \<and> hd chunk = CHR '']'' then Some (matched, tl chunk)
      else case getEsc chunk of
        None \<Rightarrow> None
      | Some (lo, c1) \<Rightarrow>
          if hd c1 = CHR ''-'' then
            (case getEsc (tl c1) of
               None \<Rightarrow> None
             | Some (hi, c2) \<Rightarrow> class_ranges r c2 True (matched \<or> (lo \<le> r \<and> r \<le> hi)))
          else class_ranges r c1 True (matched \<or> (lo \<le> r \<and> r \<le> lo)))"
  by pat_completeness auto
termination
proof (relation "measure (\<lambda>(r, chunk, seen, m). length chunk)", goal_cases)
  case (2 r chunk seen matched x lo c1 y hi c2)
  then have "length c2 < length (tl c1)" "length c1 < length chunk"
    using getEsc_shorter [of "tl c1" hi c2] getEsc_shorter [of chunk lo c1] by auto
  then show ?case by simp
next
  case (3 r chunk seen matched x lo c1)
  then show ?case using getEsc_shorter [of chunk lo c1] by simp
qed simp

declare class_ranges.simps [simp del]

lemma class_ranges_shorter:
  "class_ranges r chunk seen m = Some (b, rest) \<Longrightarrow> length rest < length chunk"
proof (induction r chunk seen m rule: class_ranges.induct)
  case (1 r chunk seen matched)
  show ?case
  proof (cases "seen \<and> chunk \<noteq> [] \<and> hd chunk = CHR '']''")
    case True
    with "1.prems" show ?thesis by (auto simp: class_ranges.simps [of r chunk])
  next
    case False
    with "1.prems" obtain lo c1 where g: "getEsc chunk = Some (lo, c1)"
      by (auto simp: class_ranges.simps [of r chunk] split: option.splits)
    then have c1: "length c1 < length chunk" using getEsc_shorter by blast
    show ?thesis
    proof (cases "hd c1 = CHR ''-''")
      case True
      with "1.prems" False g obtain hi c2 where h: "getEsc (tl c1) = Some (hi, c2)"
        and r: "class_ranges r c2 True (matched \<or> (lo \<le> r \<and> r \<le> hi)) = Some (b, rest)"
        by (auto simp: class_ranges.simps [of r chunk] split: option.splits)
      from "1.IH"(1) [OF False g refl True h refl r] have "length rest < length c2" .
      with c1 getEsc_shorter [OF h] show ?thesis by (simp, linarith)
    next
      case nd: False
      with "1.prems" False g have "class_ranges r c1 True (matched \<or> (lo \<le> r \<and> r \<le> lo)) = Some (b, rest)"
        by (auto simp: class_ranges.simps [of r chunk] split: option.splits)
      from "1.IH"(2) [OF False g refl nd this] c1 show ?thesis by simp
    qed
  qed
qed

datatype match_res = MBad | MFail | MOk string

text \<open>
  \<open>matchChunk\<close>: after the match has failed the loop only checks that the chunk is well formed.
\<close>

function matchChunk :: "bool \<Rightarrow> string \<Rightarrow> string \<Rightarrow> match_res" where
  "matchChunk failed0 chunk s =
     (case chunk of
        [] \<Rightarrow> if failed0 then MFail else MOk s
      | c # cs \<Rightarrow>
          let failed = (failed0 \<or> s = []) in
          if c = CHR ''['' then
            let (r, n) = (if failed then (0, 0) else decode_rune s);
                neg = (case cs of x # _ \<Rightarrow> x = CHR ''^'' | [] \<Rightarrow> False);
                body = (if neg then tl cs else cs)
            in (case class_ranges r body False False of
                  None \<Rightarrow> MBad
                | Some (m, rest) \<Rightarrow> matchChunk (failed \<or> m = neg) rest (drop n s))
          else if c = CHR ''?'' then
            matchChunk (failed \<or> hd s = CHR ''/'') cs
              (if failed then s else drop (snd (decode_rune s)) s)
          else if c = CHR 0x5C then
            (case cs of
               [] \<Rightarrow> MBad
             | d # ds \<Rightarrow> matchChunk (failed \<or> d \<noteq> hd s) ds (if failed then s else tl s))
          else matchChunk (failed \<or> c \<noteq> hd s) cs (if failed then s else tl s))"
  by pat_completeness auto
termination
  by (relation "measure (\<lambda>(f, chunk, s). length chunk)")
    (auto dest!: class_ranges_shorter split: list.splits if_splits)

declare matchChunk.simps [simp del]

text \<open>The search for a place after a star where the chunk matches; a star never crosses a slash.\<close>

fun star_search :: "string \<Rightarrow> bool \<Rightarrow> string \<Rightarrow> match_res" where
  "star_search chunk last_chunk [] = MFail"
| "star_search chunk last_chunk (c # cs) =
     (if c = CHR ''/'' then MFail
      else case matchChunk False chunk cs of
             MOk t \<Rightarrow> if last_chunk \<and> t \<noteq> [] then star_search chunk last_chunk cs else MOk t
           | MBad \<Rightarrow> MBad
           | MFail \<Rightarrow> star_search chunk last_chunk cs)"

lemma scanChunk_len_pos: "p \<noteq> [] \<Longrightarrow> hd p \<noteq> CHR ''*'' \<Longrightarrow> 0 < scanChunk_len False p"
  by (cases p) (auto split: list.splits)

lemma scanChunk_rest_less:
  assumes "scanChunk pat = (star, chunk, rest)" and "pat \<noteq> []"
  shows "length rest < length pat"
proof -
  let ?p = "dropWhile (\<lambda>c. c = CHR ''*'') pat"
  have rest: "rest = drop (scanChunk_len False ?p) ?p"
    using assms(1) by (auto simp: scanChunk_def Let_def)
  show ?thesis
  proof (cases "?p = pat")
    case True
    then have "hd pat \<noteq> CHR ''*''"
      using hd_dropWhile [of "\<lambda>c. c = CHR ''*''" pat] assms(2) by simp
    then have "0 < scanChunk_len False pat" using assms(2) scanChunk_len_pos by blast
    with rest True assms(2) show ?thesis by simp
  next
    case False
    with assms(2) have "hd pat = CHR ''*''"
      by (cases pat) (auto split: if_splits)
    with assms(2) have "length ?p < length pat"
      by (cases pat) (auto simp: le_imp_less_Suc length_dropWhile_le)
    with rest show ?thesis by simp
  qed
qed

function pattern_ok :: "string \<Rightarrow> bool" where
  "pattern_ok pat =
     (if pat = [] then True
      else let (star, chunk, rest) = scanChunk pat
           in matchChunk False chunk [] \<noteq> MBad \<and> pattern_ok rest)"
  by pat_completeness auto
termination
  by (relation "measure length") (auto dest: scanChunk_rest_less [OF sym])

function path_Match :: "string \<Rightarrow> string \<Rightarrow> bool option" where
  "path_Match pat name =
     (if pat = [] then Some (name = [])
      else let (star, chunk, rest) = scanChunk pat in
        if star \<and> chunk = [] then Some (CHR ''/'' \<notin> set name)
        else let stop = (if pattern_ok rest then Some False else None);
                 retry = (if \<not> star then stop
                          else case star_search chunk (rest = []) name of
                                 MOk t \<Rightarrow> path_Match rest t
                               | MBad \<Rightarrow> None
                               | MFail \<Rightarrow> stop)
             in case matchChunk False chunk name of
                  MBad \<Rightarrow> None
                | MFail \<Rightarrow> retry
                | MOk t \<Rightarrow> if t = [] \<or> rest \<noteq> [] then path_Match rest t else retry)"
  by pat_completeness auto
termination
  by (relation "measure (\<lambda>(p, n). length p)") (auto dest: scanChunk_rest_less [OF sym])

declare pattern_ok.simps [simp del]
declare path_Match.simps [simp del]

subsection \<open>Decimal printing is injective and parses back\<close>

lemma of_char_digit [simp]: "n < 10 \<Longrightarrow> (of_char (digit_char n) :: nat) = 48 + n"
  by (simp add: digit_char_def of_char_of)

lemma digit_val_digit_char [simp]: "n < 10 \<Longrightarrow> digit_val (digit_char n) = n"
  by (simp add: digit_val_def)

lemma is_digit_digit_char [simp]: "n < 10 \<Longrightarrow> is_digit (digit_char n)"
  by (simp add: is_digit_def)

lemma itoa_nat_digits: "list_all is_digit (itoa_nat n)"
proof (induction n rule: itoa_nat.induct)
  case (1 n)
  then show ?case by (subst itoa_nat.simps) (auto simp: list_all_append)
qed

lemma itoa_nat_nonempty [simp]: "itoa_nat n \<noteq> []"
  by (subst itoa_nat.simps) simp

lemma digits_val_snoc: "digits_val (s @ [c]) = 10 * digits_val s + digit_val c"
  by (simp add: digits_val_def)

lemma digits_val_itoa_nat [simp]: "digits_val (itoa_nat n) = n"
proof (induction n rule: itoa_nat.induct)
  case (1 n)
  show ?case
  proof (cases "n < 10")
    case True
    then show ?thesis by (subst itoa_nat.simps) (simp add: digits_val_def)
  next
    case False
    with 1 show ?thesis by (subst itoa_nat.simps) (simp add: digits_val_snoc)
  qed
qed

lemma itoa_nat_inj: "itoa_nat m = itoa_nat n \<longleftrightarrow> m = n"
  using digits_val_itoa_nat by metis

lemma digit_not_special:
  assumes "list_all is_digit s" shows "CHR '':'' \<notin> set s" "CHR ''-'' \<notin> set s" "CHR ''+'' \<notin> set s"
  using assms by (auto simp: list_all_iff is_digit_def)

lemma atoi_itoa:
  assumes "in_int64 i" shows "atoi (itoa i) = Some i"
proof -
  obtain c cs where c: "itoa_nat (nat \<bar>i\<bar>) = c # cs"
    by (cases "itoa_nat (nat \<bar>i\<bar>)") auto
  have d: "list_all is_digit (c # cs)" using itoa_nat_digits [of "nat \<bar>i\<bar>"] c by simp
  have v: "digits_val (c # cs) = nat \<bar>i\<bar>" using digits_val_itoa_nat [of "nat \<bar>i\<bar>"] c by simp
  have nc: "c \<noteq> CHR ''-''" "c \<noteq> CHR ''+''" using digit_not_special [OF d] by auto
  show ?thesis
  proof (cases "i < 0")
    case True
    then have "itoa i = CHR ''-'' # c # cs" using c by (simp add: itoa_def)
    with True d v assms show ?thesis by (simp add: atoi_def)
  next
    case False
    then have "itoa i = c # cs" using c by (simp add: itoa_def)
    with False d v nc assms show ?thesis by (simp add: atoi_def)
  qed
qed

lemma split_at_char:
  assumes "xs @ c # ys = xs' @ c # ys'" and "c \<notin> set xs" and "c \<notin> set xs'"
  shows "xs = xs' \<and> ys = ys'"
  using assms
proof (induction xs arbitrary: xs')
  case Nil then show ?case by (cases xs') auto
next
  case (Cons x xs) then show ?case by (cases xs') auto
qed

lemma length_prefix_inj:
  assumes "itoa_nat (length a) @ CHR '':'' # a @ x = itoa_nat (length b) @ CHR '':'' # b @ y"
  shows "a = b \<and> x = y"
proof -
  have "itoa_nat (length a) = itoa_nat (length b) \<and> a @ x = b @ y"
    using split_at_char [OF assms] digit_not_special(1) [OF itoa_nat_digits] by blast
  then show ?thesis by (auto simp: itoa_nat_inj)
qed

lemma strings_Cut_Some: "strings_Cut c s = Some (a, b) \<longleftrightarrow> s = a @ c # b \<and> c \<notin> set a"
proof (induction s arbitrary: a)
  case (Cons x xs)
  show ?case
  proof (cases a)
    case Nil
    then show ?thesis by (auto split: option.splits)
  next
    case a: (Cons y ys)
    show ?thesis using Cons.IH [of ys] by (cases "strings_Cut c xs") (auto simp: a)
  qed
qed simp

lemma strings_Cut_None: "strings_Cut c s = None \<longleftrightarrow> c \<notin> set s"
  by (induction s) (auto split: option.splits)

subsection \<open>What patterns match\<close>

definition glob_meta :: "char \<Rightarrow> bool" where
  "glob_meta c \<longleftrightarrow> c = CHR ''*'' \<or> c = CHR ''?'' \<or> c = CHR ''['' \<or> c = CHR 0x5C"

lemma scanChunk_len_literal:
  "\<forall>c\<in>set p. \<not> glob_meta c \<Longrightarrow> scanChunk_len False p = length p"
  by (induction p) (auto simp: glob_meta_def)

lemma scanChunk_literal:
  assumes "\<forall>c\<in>set p. \<not> glob_meta c" shows "scanChunk p = (False, p, [])"
proof -
  have "dropWhile (\<lambda>c. c = CHR ''*'') p = p"
    using assms by (cases p) (auto simp: glob_meta_def)
  then show ?thesis using scanChunk_len_literal [OF assms] by (simp add: scanChunk_def)
qed

lemma matchChunk_literal_failed: "\<forall>c\<in>set p. \<not> glob_meta c \<Longrightarrow> matchChunk True p s = MFail"
  by (induction p arbitrary: s) (auto simp: matchChunk.simps [of True] glob_meta_def)

lemma matchChunk_literal:
  "\<forall>c\<in>set p. \<not> glob_meta c \<Longrightarrow>
     matchChunk False p s = (if take (length p) s = p then MOk (drop (length p) s) else MFail)"
proof (induction p arbitrary: s)
  case Nil
  show ?case by (simp add: matchChunk.simps)
next
  case (Cons c p)
  then have ng: "c \<noteq> CHR ''['' \<and> c \<noteq> CHR ''?'' \<and> c \<noteq> CHR 0x5C" and p: "\<forall>c\<in>set p. \<not> glob_meta c"
    by (auto simp: glob_meta_def)
  show ?case
  proof (cases s)
    case Nil
    then show ?thesis
      by (simp add: matchChunk.simps [of False "c # p"] ng matchChunk_literal_failed [OF p])
  next
    case (Cons a t)
    show ?thesis
      by (cases "a = c") (simp_all add: Cons matchChunk.simps [of False "c # p"] ng Cons.IH [OF p]
          matchChunk_literal_failed [OF p])
  qed
qed

lemma path_Match_literal:
  assumes "\<forall>c\<in>set p. \<not> glob_meta c"
  shows "path_Match p name = Some (name = p)"
proof (cases "p = []")
  case False
  have e: "path_Match [] t = Some (t = [])" "pattern_ok []" for t
    by (simp_all add: path_Match.simps pattern_ok.simps)
  show ?thesis
    using False by (subst path_Match.simps)
      (auto simp: scanChunk_literal [OF assms] matchChunk_literal [OF assms] e
        intro: nth_equalityI)
qed (simp add: path_Match.simps)

lemma path_Match_star: "path_Match ''*'' name = Some (CHR ''/'' \<notin> set name)"
  by (subst path_Match.simps) (simp add: scanChunk_def)

end
