(* ===== verification/Calendar.thy ===== *)
theory Calendar
  imports GoStrings
begin

text \<open>
  The proleptic Gregorian calendar in UTC, as Go's \<open>time\<close> package computes it: the civil date of
  a day number, the day number of a civil date (with Go's normalisation of a month outside 1..12),
  and the zero-padded formatting of the date fields.  The lemmas give the round trip between day
  numbers and dates and the ranges of the fields.
\<close>

definition is_leap :: "int \<Rightarrow> bool" where
  "is_leap y \<longleftrightarrow> y mod 4 = 0 \<and> (y mod 100 \<noteq> 0 \<or> y mod 400 = 0)"

text \<open>Days from 1 January of year 1 to 1 January of year \<open>y\<close>.\<close>

definition days_before_year :: "int \<Rightarrow> int" where
  "days_before_year y = 365 * (y - 1) + (y - 1) div 4 - (y - 1) div 100 + (y - 1) div 400"

definition month_lengths :: "bool \<Rightarrow> int list" where
  "month_lengths leap = [31, if leap then 29 else 28, 31, 30, 31, 30, 31, 31, 30, 31, 30, 31]"

text \<open>The year and the zero-based day of the year of a day number counted from 1 January of year 1.\<close>

definition split_year :: "int \<Rightarrow> int \<times> int" where
  "split_year n =
     (let a = n div 146097; r1 = n mod 146097;
          b = min 3 (r1 div 36524); r2 = r1 - 36524 * b;
          c = r2 div 1461; r3 = r2 - 1461 * c;
          e = min 3 (r3 div 365)
      in (400 * a + 100 * b + 4 * c + e + 1, r3 - 365 * e))"

text \<open>The one-based month and day of a zero-based day of the year.\<close>

fun split_months :: "int \<Rightarrow> int list \<Rightarrow> int \<Rightarrow> int \<times> int" where
  "split_months m [] d = (m, d + 1)"
| "split_months m (l # ls) d = (if d < l then (m, d + 1) else split_months (m + 1) ls (d - l))"

definition unix_epoch_day :: int where
  "unix_epoch_day = 719162"

text \<open>The civil date of a day counted from 1 January 1970.\<close>

definition civil :: "int \<Rightarrow> int \<times> int \<times> int" where
  "civil day =
     (let (y, yd) = split_year (day + unix_epoch_day);
          (m, d) = split_months 1 (month_lengths (is_leap y)) yd
      in (y, m, d))"

text \<open>\<open>time.Date\<close> for whole days: a month outside 1..12 moves the year.\<close>

definition date_days :: "int \<Rightarrow> int \<Rightarrow> int \<Rightarrow> int" where
  "date_days y m d =
     (let y' = y + (m - 1) div 12; m' = (m - 1) mod 12
      in days_before_year y' + sum_list (take (nat m') (month_lengths (is_leap y'))) + (d - 1)
         - unix_epoch_day)"

text \<open>\<open>appendInt\<close> of the time package: the sign, then at least \<open>w\<close> digits.\<close>

definition pad_int :: "nat \<Rightarrow> int \<Rightarrow> string" where
  "pad_int w i = (let ds = itoa_nat (nat \<bar>i\<bar>)
                  in (if i < 0 then ''-'' else '''') @ replicate (w - length ds) CHR ''0'' @ ds)"

subsection \<open>Round trip\<close>

lemma days_before_year_split:
  assumes "0 \<le> b" "b \<le> 3" "0 \<le> c" "c \<le> 24" "0 \<le> e" "e \<le> 3"
  shows "days_before_year (400 * a + 100 * b + 4 * c + e + 1)
         = 146097 * a + 36524 * b + 1461 * c + 365 * e"
proof -
  let ?y = "400 * a + 100 * b + 4 * c + e"
  have "?y div 4 = 100 * a + 25 * b + c"
    by (rule int_div_pos_eq [where r = e]) (use assms in simp_all)
  moreover have "?y div 100 = 4 * a + b"
    by (rule int_div_pos_eq [where r = "4 * c + e"]) (use assms in simp_all)
  moreover have "?y div 400 = a"
    by (rule int_div_pos_eq [where r = "100 * b + 4 * c + e"]) (use assms in simp_all)
  ultimately show ?thesis by (simp add: days_before_year_def)
qed

lemma clamped_quotient:
  fixes k x :: int
  assumes "0 < k" "0 \<le> x" "x \<le> 4 * k"
  defines "q \<equiv> min 3 (x div k)"
  shows "0 \<le> q" "q \<le> 3" "0 \<le> x - k * q" "q < 3 \<Longrightarrow> x - k * q < k" "x - k * q \<le> k"
proof -
  have d: "0 \<le> x div k" using assms by (simp add: pos_imp_zdiv_nonneg_iff)
  have m: "x - k * (x div k) = x mod k" by (simp add: minus_mult_div_eq_mod)
  have mk: "0 \<le> x mod k" "x mod k < k" using assms by simp_all
  show "0 \<le> q" "q \<le> 3" using d by (simp_all add: q_def)
  have "0 \<le> x - k * q \<and> (q < 3 \<longrightarrow> x - k * q < k) \<and> x - k * q \<le> k"
  proof (cases "3 \<le> x div k")
    case True
    then have "k * 3 \<le> k * (x div k)" using assms by (intro mult_left_mono) simp_all
    then have "k * 3 \<le> x" using m mk by linarith
    moreover have "q = 3" using True by (simp add: q_def)
    ultimately show ?thesis using assms(3) by simp
  next
    case False
    then have "q = x div k" by (simp add: q_def)
    with m mk show ?thesis by simp
  qed
  then show "0 \<le> x - k * q" "q < 3 \<Longrightarrow> x - k * q < k" "x - k * q \<le> k" by simp_all
qed

lemma split_year_parts:
  assumes "split_year n = (y, yd)"
  obtains a b c e where "0 \<le> b" "b \<le> 3" "0 \<le> c" "c \<le> 24" "0 \<le> e" "e \<le> 3"
    "y = 400 * a + 100 * b + 4 * c + e + 1"
    "n = 146097 * a + 36524 * b + 1461 * c + 365 * e + yd"
    "0 \<le> yd" "e < 3 \<longrightarrow> yd < 365" "yd < 366" "c = 24 \<longrightarrow> b < 3 \<longrightarrow> yd < 365"
proof -
  define a r1 where "a = n div 146097" and "r1 = n mod 146097"
  define b where "b = min 3 (r1 div 36524)"
  define r2 where "r2 = r1 - 36524 * b"
  define c where "c = r2 div 1461"
  define r3 where "r3 = r2 - 1461 * c"
  define e where "e = min 3 (r3 div 365)"
  have n: "n = 146097 * a + r1" and r1: "0 \<le> r1" "r1 < 146097"
    by (simp_all add: a_def r1_def)
  have b: "0 \<le> b" "b \<le> 3" "0 \<le> r2" "b < 3 \<Longrightarrow> r2 < 36524" "r2 < 36525"
    using clamped_quotient [of 36524 r1, folded b_def, folded r2_def] r1 by simp_all
  have c: "0 \<le> c" "c \<le> 24" "0 \<le> r3" "r3 < 1461" "r2 = 1461 * c + r3"
  proof -
    have m: "r3 = r2 mod 1461" unfolding r3_def c_def by (simp add: minus_mult_div_eq_mod)
    show r: "r2 = 1461 * c + r3" unfolding r3_def by simp
    show r3: "0 \<le> r3" "r3 < 1461" unfolding m by simp_all
    show "0 \<le> c" "c \<le> 24" using r r3 b(3,5) by linarith+
  qed
  have e: "0 \<le> e" "e \<le> 3" "0 \<le> r3 - 365 * e" "e < 3 \<Longrightarrow> r3 - 365 * e < 365" "r3 - 365 * e < 366"
    using clamped_quotient [of 365 r3, folded e_def] c(3,4) by simp_all
  have "split_year n = (400 * a + 100 * b + 4 * c + e + 1, r3 - 365 * e)"
    unfolding split_year_def Let_def a_def r1_def b_def r2_def c_def r3_def e_def by (rule refl)
  with assms have y: "y = 400 * a + 100 * b + 4 * c + e + 1" and yd: "yd = r3 - 365 * e"
    by simp_all
  have l: "yd < 365" if "c = 24" "b < 3"
  proof (cases "e < 3")
    case True then show ?thesis using e yd by simp
  next
    case False
    then have "e = 3" using e(2) by simp
    then show ?thesis using that b(4) c(5) yd by simp
  qed
  show thesis
  proof (rule that [of b c e a])
    show "n = 146097 * a + 36524 * b + 1461 * c + 365 * e + yd"
      using n r2_def c(5) yd by linarith
    show "e < 3 \<longrightarrow> yd < 365" "yd < 366" "0 \<le> yd" using e yd by simp_all
    show "c = 24 \<longrightarrow> b < 3 \<longrightarrow> yd < 365" using l by simp
  qed fact+
qed

lemma split_year_days: "split_year n = (y, yd) \<Longrightarrow> days_before_year y + yd = n"
  by (erule split_year_parts) (simp add: days_before_year_split)

lemma split_year_range:
  assumes "split_year n = (y, yd)"
  shows "0 \<le> yd" and "yd < (if is_leap y then 366 else 365)"
proof -
  obtain a b c e where p: "0 \<le> b" "b \<le> 3" "0 \<le> c" "c \<le> 24" "0 \<le> e" "e \<le> 3"
    "y = 400 * a + 100 * b + 4 * c + e + 1"
    "n = 146097 * a + 36524 * b + 1461 * c + 365 * e + yd" "0 \<le> yd" "e < 3 \<longrightarrow> yd < 365" "yd < 366"
    "c = 24 \<longrightarrow> b < 3 \<longrightarrow> yd < 365"
    by (rule split_year_parts [OF assms]) blast
  show "0 \<le> yd" by fact
  show "yd < (if is_leap y then 366 else 365)"
  proof (cases "yd < 365")
    case False
    then have e: "e = 3" and bc: "c \<noteq> 24 \<or> b = 3" using p by force+
    have y: "y = 4 * (100 * a + 25 * b + c + 1)" using p(7) e by simp
    have "y mod 100 \<noteq> 0 \<or> y mod 400 = 0"
    proof (cases "c = 24")
      case True
      then have "y = 400 * (a + 1)" using bc y by simp
      then show ?thesis by simp
    next
      case False
      have "y mod 100 = 4 * (c + 1)"
        using y False p(3,4) by (intro int_mod_pos_eq [where q = "4 * a + b"]) simp_all
      then show ?thesis using p(3) by simp
    qed
    with y have "is_leap y" by (simp add: is_leap_def)
    with p(11) show ?thesis by simp
  qed simp
qed

lemma split_months_sound:
  "0 \<le> d \<Longrightarrow> d < sum_list ls \<Longrightarrow> split_months m ls d = (mo, da) \<Longrightarrow>
     \<exists>i < length ls. mo = m + int i \<and> 1 \<le> da \<and> da \<le> ls ! i \<and> d = sum_list (take i ls) + (da - 1)"
proof (induction ls arbitrary: m d)
  case (Cons l ls)
  show ?case
  proof (cases "d < l")
    case True
    with Cons.prems show ?thesis by (intro exI [of _ 0]) auto
  next
    case False
    with Cons.prems have "split_months (m + 1) ls (d - l) = (mo, da)" "0 \<le> d - l" "d - l < sum_list ls"
      by auto
    from Cons.IH [OF this(2,3,1)] obtain i where "i < length ls" "mo = m + 1 + int i"
      "1 \<le> da" "da \<le> ls ! i" "d - l = sum_list (take i ls) + (da - 1)" by blast
    then show ?thesis by (intro exI [of _ "Suc i"]) auto
  qed
qed simp

lemma month_lengths_sum: "sum_list (month_lengths leap) = (if leap then 366 else 365)"
  by (simp add: month_lengths_def)

lemma length_month_lengths [simp]: "length (month_lengths leap) = 12"
  by (simp add: month_lengths_def)

lemma civil_date_days:
  assumes "civil day = (y, m, d)"
  shows "date_days y m d = day" and "1 \<le> m" "m \<le> 12" and "1 \<le> d"
    and "d \<le> month_lengths (is_leap y) ! nat (m - 1)"
proof -
  obtain yd where s: "split_year (day + unix_epoch_day) = (y, yd)"
    and sm: "split_months 1 (month_lengths (is_leap y)) yd = (m, d)"
    using assms by (auto simp: civil_def split: prod.splits)
  note r = split_year_range [OF s]
  have "yd < sum_list (month_lengths (is_leap y))" using r(2) by (simp only: month_lengths_sum)
  from split_months_sound [OF r(1) this sm] obtain i where i: "i < 12" "m = 1 + int i"
    "1 \<le> d" "d \<le> month_lengths (is_leap y) ! i"
    "yd = sum_list (take i (month_lengths (is_leap y))) + (d - 1)" by auto
  have m: "(m - 1) div 12 = 0" "(m - 1) mod 12 = int i" using i by simp_all
  show "date_days y m d = day"
    unfolding date_days_def Let_def m
    using split_year_days [OF s] i(5) by simp
  show "1 \<le> m" "m \<le> 12" "1 \<le> d" "d \<le> month_lengths (is_leap y) ! nat (m - 1)" using i by simp_all
qed

lemma leap_indicator:
  assumes "R \<longrightarrow> Q" and "Q \<longrightarrow> P"
  shows "(if P then 1 else 0) - (if Q then 1 else 0) + (if R then 1 else (0::int))
      = (if P \<and> (\<not> Q \<or> R) then 1 else 0)"
  using assms by (cases P; cases Q; cases R) simp_all

lemma days_before_year_Suc:
  "days_before_year (y + 1) = days_before_year y + (if is_leap y then 366 else 365)"
proof -
  have d: "x div k - (x - 1) div k = (if x mod k = 0 then 1 else 0)" if "0 < k" for x k :: int
  proof -
    have x: "x = k * (x div k) + x mod k" by simp
    show ?thesis
    proof (cases "x mod k = 0")
      case True
      then have "x - 1 = k * (x div k - 1) + (k - 1)" using x by (simp add: algebra_simps)
      then have "(x - 1) div k = x div k - 1" by (rule int_div_pos_eq) (use that in simp_all)
      with True show ?thesis by simp
    next
      case False
      then have "0 < x mod k" using pos_mod_sign [OF that, of x] by simp
      moreover have "x - 1 = k * (x div k) + (x mod k - 1)" using x by simp
      ultimately have "(x - 1) div k = x div k"
        using pos_mod_bound [OF that, of x]
        by (intro int_div_pos_eq [where r = "x mod k - 1"]) linarith+
      with False show ?thesis by simp
    qed
  qed
  have "400 dvd y \<Longrightarrow> 100 dvd y" "100 dvd y \<Longrightarrow> 4 dvd y"
    by (auto elim: dvd_trans [rotated])
  then have h: "y mod 400 = 0 \<Longrightarrow> y mod 100 = 0" "y mod 100 = 0 \<Longrightarrow> y mod 4 = 0"
    by (simp_all only: mod_eq_0_iff_dvd)
  have i: "(if y mod 4 = 0 then 1 else 0) - (if y mod 100 = 0 then 1 else 0)
      + (if y mod 400 = 0 then 1 else (0::int)) = (if is_leap y then 1 else 0)"
    unfolding is_leap_def by (rule leap_indicator) (rule impI, erule h)+
  have e: "days_before_year (y + 1) = 365 * y + y div 4 - y div 100 + y div 400"
    unfolding days_before_year_def by simp
  have "(365 * y + a - b + c) - (365 * (y - 1) + a' - b' + c')
      = 365 + ((a - a') - (b - b') + (c - c'))" for a b c a' b' c' :: int
    by simp
  then have "days_before_year (y + 1) - days_before_year y
      = 365 + ((y div 4 - (y - 1) div 4) - (y div 100 - (y - 1) div 100)
          + (y div 400 - (y - 1) div 400))"
    unfolding e unfolding days_before_year_def [of y] .
  also have "\<dots> = 365 + (if is_leap y then 1 else 0)"
    using d [of 4 y] d [of 100 y] d [of 400 y] i by (simp only: zero_less_numeral simp_thms)
  finally show ?thesis by (simp split: if_splits)
qed

lemma days_before_year_mono: "y < y' \<Longrightarrow> days_before_year y + 365 \<le> days_before_year y'"
proof (induction "nat (y' - y)" arbitrary: y' rule: less_induct)
  case less
  have s: "days_before_year y' = days_before_year (y' - 1) + (if is_leap (y' - 1) then 366 else 365)"
    using days_before_year_Suc [of "y' - 1"] by simp
  show ?case
  proof (cases "y = y' - 1")
    case False
    with less.prems have "days_before_year y + 365 \<le> days_before_year (y' - 1)"
      by (intro less.hyps) auto
    with s show ?thesis by (simp split: if_splits)
  qed (simp add: s)
qed

lemma split_year_unique:
  assumes "days_before_year y \<le> n" and "n < days_before_year (y + 1)"
  shows "split_year n = (y, n - days_before_year y)"
proof -
  obtain z zd where s: "split_year n = (z, zd)" by fastforce
  note z = split_year_days [OF s] split_year_range [OF s]
  have zb: "days_before_year z \<le> n" "n < days_before_year (z + 1)"
    using z by (auto simp: days_before_year_Suc split: if_splits)
  have "\<not> z < y" "\<not> y < z"
    using days_before_year_mono [of "z + 1" y] days_before_year_mono [of "y + 1" z] assms zb
    by (cases "z + 1 = y"; cases "y + 1 = z"; force)+
  then have "z = y" by simp
  with s z(1) show ?thesis by simp
qed

lemma split_months_complete:
  "i < length ls \<Longrightarrow> \<forall>l\<in>set ls. 0 < l \<Longrightarrow> 1 \<le> da \<Longrightarrow> da \<le> ls ! i \<Longrightarrow>
     split_months m ls (sum_list (take i ls) + (da - 1)) = (m + int i, da)"
proof (induction ls arbitrary: i m)
  case (Cons l ls)
  show ?case
  proof (cases i)
    case 0
    with Cons.prems show ?thesis by simp
  next
    case (Suc j)
    have "0 \<le> sum_list (take j ls)"
      using Cons.prems(2) by (intro sum_list_nonneg) (auto dest: in_set_takeD intro: less_imp_le)
    then show ?thesis
      using Suc Cons.prems Cons.IH [of j "m + 1"] by (auto simp: algebra_simps)
  qed
qed simp

lemma month_lengths_pos: "l \<in> set (month_lengths leap) \<Longrightarrow> 28 \<le> l \<and> l \<le> 31"
  by (auto simp: month_lengths_def split: if_splits)

lemma sum_take_le: "\<forall>l\<in>set ls. (0::int) \<le> l \<Longrightarrow> sum_list (take i ls) \<le> sum_list ls"
  using sum_list_nonneg [of "drop i ls"] append_take_drop_id [of i ls]
  by (metis add.right_neutral add_left_mono in_set_dropD sum_list_append)

lemma civil_of_date:
  assumes "1 \<le> m" "m \<le> 12" "1 \<le> d" "d \<le> month_lengths (is_leap y) ! nat (m - 1)"
  shows "civil (date_days y m d) = (y, m, d)"
proof -
  let ?ls = "month_lengths (is_leap y)" and ?i = "nat (m - 1)"
  let ?yd = "sum_list (take ?i ?ls) + (d - 1)"
  have i: "?i < 12" "int ?i = m - 1" "(m - 1) div 12 = 0" "(m - 1) mod 12 = m - 1"
    using assms by simp_all
  have pos: "\<forall>l\<in>set ?ls. 0 < l" using month_lengths_pos by force
  have "sum_list (take ?i ?ls) + ?ls ! ?i = sum_list (take (Suc ?i) ?ls)"
    using i by (simp add: take_Suc_conv_app_nth)
  also have "\<dots> \<le> sum_list ?ls" using pos by (intro sum_take_le) force
  finally have "?yd < sum_list ?ls" using assms(4) by simp
  then have u: "?yd < (if is_leap y then 366 else 365)" by (simp only: month_lengths_sum)
  have "0 \<le> sum_list (take ?i ?ls)"
    using pos by (intro sum_list_nonneg) (auto dest: in_set_takeD intro: less_imp_le)
  then have l: "0 \<le> ?yd" using assms(3) by simp
  have dd: "date_days y m d + unix_epoch_day = days_before_year y + ?yd"
    unfolding date_days_def Let_def i(3,4) by simp
  have "split_year (days_before_year y + ?yd) = (y, ?yd)"
    using split_year_unique [of y "days_before_year y + ?yd"] u l
    by (simp add: days_before_year_Suc)
  moreover have "split_months 1 ?ls ?yd = (m, d)"
    using split_months_complete [of ?i ?ls d 1] pos assms(3,4) i by simp
  ultimately show ?thesis unfolding civil_def dd by simp
qed

lemma date_days_next_month:
  assumes "1 \<le> m" "m \<le> 12"
  shows "date_days y (m + 1) 1 = date_days y m (month_lengths (is_leap y) ! nat (m - 1)) + 1"
proof -
  have m1: "(m - 1) div 12 = 0" "(m - 1) mod 12 = m - 1" using assms by simp_all
  have t: "sum_list (take (nat m) ls) = sum_list (take (nat (m - 1)) ls) + ls ! nat (m - 1)"
    if "length ls = 12" for ls :: "int list"
  proof -
    have "nat m = Suc (nat (m - 1))" using assms by simp
    then show ?thesis using that assms by (simp add: take_Suc_conv_app_nth)
  qed
  show ?thesis
  proof (cases "m = 12")
    case True
    have "days_before_year (y + 1) = days_before_year y + sum_list (month_lengths (is_leap y))"
      by (simp only: days_before_year_Suc month_lengths_sum)
    also have "sum_list (month_lengths (is_leap y)) = sum_list (take (nat 12) (month_lengths (is_leap y)))"
      by simp
    finally show ?thesis
      unfolding date_days_def Let_def m1 using True t [of "month_lengths (is_leap y)"] by simp
  next
    case False
    then have m2: "(m + 1 - 1) div 12 = 0" "(m + 1 - 1) mod 12 = m" using assms by simp_all
    show ?thesis unfolding date_days_def Let_def m1 m2 using t [of "month_lengths (is_leap y)"] by simp
  qed
qed

subsection \<open>Padded fields are injective\<close>

lemma digits_val_replicate0: "digits_val (replicate n CHR ''0'' @ s) = digits_val s"
proof -
  have "foldl (\<lambda>a c. 10 * a + digit_val c) 0 (replicate n CHR ''0'') = 0"
    by (induction n) (simp_all add: digit_val_def)
  then show ?thesis by (simp add: digits_val_def)
qed

lemma digits_val_pad_int: "0 \<le> i \<Longrightarrow> digits_val (pad_int w i) = nat i"
  by (simp add: pad_int_def Let_def digits_val_replicate0)

lemma pad_int_inj: "0 \<le> i \<Longrightarrow> 0 \<le> j \<Longrightarrow> pad_int w i = pad_int w j \<longleftrightarrow> i = j"
  by (metis digits_val_pad_int nat_eq_iff2 nat_0_le)

lemma length_itoa_nat_le2: "n < 100 \<Longrightarrow> length (itoa_nat n) \<le> 2"
proof -
  assume "n < 100"
  then have "n div 10 < 10" by simp
  then show ?thesis by (simp add: itoa_nat.simps [of n] itoa_nat.simps [of "n div 10"])
qed

lemma length_pad2: "0 \<le> i \<Longrightarrow> i < 100 \<Longrightarrow> length (pad_int 2 i) = 2"
  using length_itoa_nat_le2 [of "nat \<bar>i\<bar>"] by (simp add: pad_int_def Let_def)

lemma pad_int_digits: "0 \<le> i \<Longrightarrow> list_all is_digit (pad_int w i)"
  using itoa_nat_digits [of "nat i"]
  by (auto simp: pad_int_def Let_def list_all_iff is_digit_def)

end
