(* ===== verification/Windows.thy ===== *)
theory Windows
  imports Calendar
begin

text \<open>
  Rate-limit windows (\<open>limits.go\<close>): the UTC bucket an instant falls in, the end of its window, the
  \<open>Retry-After\<close> value, the counter keys built from scope, metric, window and bucket, and the stepping
  back over past buckets for the usage history.  The lemmas show that two instants share a bucket
  exactly when they share a window, that waiting \<open>Retry-After\<close> seconds reaches the next window, and
  that distinct counters never share a key.
\<close>

subsection \<open>Windows, metrics and lifetimes\<close>

datatype window = WHour | WMin | WDay | WMonth

fun window_str :: "window \<Rightarrow> string" where
  "window_str WHour = ''hour''"
| "window_str WMin = ''min''"
| "window_str WDay = ''day''"
| "window_str WMonth = ''month''"

definition metricReq :: string where "metricReq = ''req''"
definition metricTokIn :: string where "metricTokIn = ''tokin''"
definition metricTokOut :: string where "metricTokOut = ''tokout''"
definition metricCost :: string where "metricCost = ''cost''"
definition metricRej :: string where "metricRej = ''rej''"
definition metricProvTimeout :: string where "metricProvTimeout = ''timeout''"
definition metricFover :: string where "metricFover = ''fover''"
definition metricR402 :: string where "metricR402 = ''r402''"
definition metricChit :: string where "metricChit = ''chit''"
definition metricCsave :: string where "metricCsave = ''csave''"
definition metricCmiss :: string where "metricCmiss = ''cmiss''"
definition metricProvAttempt :: string where "metricProvAttempt = ''attempt''"
definition metricProvFail :: string where "metricProvFail = ''fail''"

lemmas metric_defs = metricReq_def metricTokIn_def metricTokOut_def metricCost_def metricRej_def
  metricProvTimeout_def metricFover_def metricR402_def metricChit_def metricCsave_def
  metricCmiss_def metricProvAttempt_def metricProvFail_def

definition kindUserModel :: string where "kindUserModel = ''umodel''"
definition kindTargetCaller :: string where "kindTargetCaller = ''tcaller''"
definition kindProvider :: string where "kindProvider = ''prov''"
definition kindProviderModel :: string where "kindProviderModel = ''provmodel''"
definition kindModel :: string where "kindModel = ''model''"
definition totalScopeKind :: string where "totalScopeKind = ''total''"
definition totalScopeID :: string where "totalScopeID = ''all''"

definition minWindowTTL :: duration where [dur_defs]: "minWindowTTL = 2 * minute"
definition hourWindowTTL :: duration where [dur_defs]: "hourWindowTTL = 48 * hour"
definition dayWindowTTL :: duration where [dur_defs]: "dayWindowTTL = 35 * 24 * hour"
definition monthWindowTTL :: duration where [dur_defs]: "monthWindowTTL = 400 * 24 * hour"

record enforceTTLSet =
  et_min :: duration
  et_hour :: duration
  et_day :: duration
  et_month :: duration

definition enforceTTLsFor :: enforceTTLSet where
  "enforceTTLsFor = \<lparr>et_min = minWindowTTL, et_hour = 2 * hour, et_day = 25 * hour,
                     et_month = 32 * 24 * hour\<rparr>"

subsection \<open>Buckets\<close>

definition day_ns :: int where [dur_defs]: "day_ns = 24 * hour"

text \<open>The UTC clock fields of an instant.\<close>

definition utc_date :: "gtime \<Rightarrow> int \<times> int \<times> int" where
  "utc_date t = civil (t div day_ns)"

definition utc_hour :: "gtime \<Rightarrow> int" where
  "utc_hour t = (t mod day_ns) div hour"

definition utc_minute :: "gtime \<Rightarrow> int" where
  "utc_minute t = (t mod hour) div minute"

fun bucketFor :: "gtime \<Rightarrow> window \<Rightarrow> string" where
  "bucketFor t WHour = (let (y, m, d) = utc_date t in
     pad_int 4 y @ pad_int 2 m @ pad_int 2 d @ pad_int 2 (utc_hour t))"
| "bucketFor t WMin = (let (y, m, d) = utc_date t in
     pad_int 4 y @ pad_int 2 m @ pad_int 2 d @ pad_int 2 (utc_hour t) @ pad_int 2 (utc_minute t))"
| "bucketFor t WDay = (let (y, m, d) = utc_date t in pad_int 4 y @ pad_int 2 m @ pad_int 2 d)"
| "bucketFor t WMonth = (let (y, m, d) = utc_date t in pad_int 4 y @ pad_int 2 m)"

record windowBuckets =
  wb_min :: string
  wb_hour :: string
  wb_day :: string
  wb_month :: string

definition bucketsFor :: "gtime \<Rightarrow> windowBuckets" where
  "bucketsFor t = \<lparr>wb_min = bucketFor t WMin, wb_hour = bucketFor t WHour,
                   wb_day = bucketFor t WDay, wb_month = bucketFor t WMonth\<rparr>"

definition windowKeyForBucket :: "string \<Rightarrow> string \<Rightarrow> string \<Rightarrow> window \<Rightarrow> string \<Rightarrow> string" where
  "windowKeyForBucket kind sid metric w bucket =
     strings_Join '':'' [''llmgw'', kind, sid, metric, window_str w, bucket]"

definition windowKey :: "string \<Rightarrow> string \<Rightarrow> string \<Rightarrow> window \<Rightarrow> gtime \<Rightarrow> string" where
  "windowKey kind sid metric w t = windowKeyForBucket kind sid metric w (bucketFor t w)"

definition lastSeenKey :: "string \<Rightarrow> string \<Rightarrow> string" where
  "lastSeenKey kind sid = ''llmgw:seen:'' @ kind @ '':'' @ sid"

definition userModelScopeID :: "string \<Rightarrow> string \<Rightarrow> string" where
  "userModelScopeID user canonical = itoa (int (length user)) @ '':'' @ user @ canonical"

definition targetCallerScopeID :: "string \<Rightarrow> string \<Rightarrow> string \<Rightarrow> string" where
  "targetCallerScopeID targetKind target caller = targetKind @ ''/'' @ target @ ''/'' @ caller"

definition providerModelScopeID :: "string \<Rightarrow> string \<Rightarrow> string" where
  "providerModelScopeID provider model = provider @ ''/'' @ model"

definition latencyDurationMetric :: "nat \<Rightarrow> string" where
  "latencyDurationMetric idx = ''ld'' @ pad_int 2 (int idx)"

definition latencyTTFBMetric :: "nat \<Rightarrow> string" where
  "latencyTTFBMetric idx = ''lt'' @ pad_int 2 (int idx)"

subsection \<open>Window ends\<close>

text \<open>\<open>time.Date\<close> in UTC, with zero seconds, and \<open>Time.AddDate\<close>.\<close>

definition time_Date :: "int \<Rightarrow> int \<Rightarrow> int \<Rightarrow> int \<Rightarrow> int \<Rightarrow> gtime" where
  "time_Date y m d h mi = date_days y m d * day_ns + h * hour + mi * minute"

definition time_AddDate :: "gtime \<Rightarrow> int \<Rightarrow> int \<Rightarrow> int \<Rightarrow> gtime" where
  "time_AddDate t yy mm dd =
     (let (y, m, d) = utc_date t in date_days (y + yy) (m + mm) (d + dd) * day_ns + t mod day_ns)"

fun windowEnd :: "gtime \<Rightarrow> window \<Rightarrow> gtime" where
  "windowEnd t WHour = (let (y, m, d) = utc_date t in time_Date y m d (utc_hour t) 0 + hour)"
| "windowEnd t WMin =
     (let (y, m, d) = utc_date t in time_Date y m d (utc_hour t) (utc_minute t) + minute)"
| "windowEnd t WDay = (let (y, m, d) = utc_date t in time_AddDate (time_Date y m d 0 0) 0 0 1)"
| "windowEnd t WMonth = (let (y, m, d) = utc_date t in time_AddDate (time_Date y m 1 0 0) 0 1 0)"

text \<open>
  The code rounds \<open>Duration.Seconds()\<close> up in \<open>float64\<close>.  A window is at most 31 days, below
  \<open>2 ^ 22\<close> seconds, where neighbouring floats are less than half a nanosecond apart, so the floating
  ceiling is the exact one.
\<close>

definition retryAfterSeconds :: "gtime \<Rightarrow> window \<Rightarrow> int" where
  "retryAfterSeconds t w = - ((- time_Sub (windowEnd t w) t) div second)"

subsection \<open>Stepping back over history buckets\<close>

fun historyStepBack :: "gtime \<Rightarrow> window \<Rightarrow> int \<Rightarrow> gtime option" where
  "historyStepBack now WHour i = Some (now - i * hour)"
| "historyStepBack now WDay i = Some (time_AddDate now 0 0 (- i))"
| "historyStepBack now WMonth i =
     (let (y, m, d) = utc_date now in Some (time_AddDate (time_Date y m 1 0 0) 0 (- i) 0))"
| "historyStepBack now WMin i = None"

text \<open>
  Keys and bucket labels of a history read, oldest first; \<open>None\<close> is the panic on the minute window.
\<close>

definition historyBucketKeysAt ::
  "string \<Rightarrow> string \<Rightarrow> string \<Rightarrow> window \<Rightarrow> gtime \<Rightarrow> nat \<Rightarrow> int \<Rightarrow> (string list \<times> string list) option" where
  "historyBucketKeysAt kind sid metric w now span offset =
     (case (if 0 < offset then historyStepBack now w offset else Some now) of
        None \<Rightarrow> None
      | Some base \<Rightarrow>
          (case those (map (\<lambda>i. historyStepBack base w (int span - 1 - int i)) [0..<span]) of
             None \<Rightarrow> None
           | Some ts \<Rightarrow> Some (map (\<lambda>t. windowKey kind sid metric w t) ts,
                             map (\<lambda>t. bucketFor t w) ts)))"

definition historyBucketKeys ::
  "string \<Rightarrow> string \<Rightarrow> string \<Rightarrow> window \<Rightarrow> gtime \<Rightarrow> nat \<Rightarrow> (string list \<times> string list) option" where
  "historyBucketKeys kind sid metric w now span = historyBucketKeysAt kind sid metric w now span 0"

lemma dur_pos: "0 < second" "0 < minute" "0 < hour" "0 < day_ns"
  by (simp_all add: dur_defs)

lemma day_hour: "day_ns = hour * 24" and hour_minute: "hour = minute * 60"
  by (simp_all add: dur_defs)

lemma utc_date_days: "utc_date t = (y, m, d) \<Longrightarrow> date_days y m d = t div day_ns"
  by (simp add: utc_date_def civil_date_days(1))

lemma mod_mult_div: "0 < (k::int) \<Longrightarrow> 0 \<le> n \<Longrightarrow> (x mod (k * n)) div k = (x div k) mod n"
  by (simp add: zmod_zmult2_eq)

lemma utc_hour_eq: "utc_hour t = (t div hour) mod 24"
  unfolding utc_hour_def day_hour using dur_pos by (intro mod_mult_div) simp_all

lemma utc_minute_eq: "utc_minute t = (t div minute) mod 60"
  unfolding utc_minute_def hour_minute using dur_pos by (intro mod_mult_div) simp_all

lemma utc_hour_range: "0 \<le> utc_hour t" "utc_hour t < 24"
  by (simp_all add: utc_hour_eq)

lemma utc_minute_range: "0 \<le> utc_minute t" "utc_minute t < 60"
  by (simp_all add: utc_minute_eq)

lemma day_div: "t div day_ns = (t div hour) div 24"
  unfolding day_hour using dur_pos by (simp add: zdiv_zmult2_eq)

lemma hour_div: "t div hour = (t div minute) div 60"
  unfolding hour_minute using dur_pos by (simp add: zdiv_zmult2_eq)

lemma recombine: "x div k * (c * k) + x mod k * c = x * (c::int)"
proof -
  have "x div k * (c * k) + x mod k * c = (x div k * k + x mod k) * c"
    by (simp only: distrib_left distrib_right ac_simps)
  then show ?thesis by simp
qed

lemma start_of_hour: "utc_date t = (y, m, d) \<Longrightarrow> time_Date y m d (utc_hour t) 0 = (t div hour) * hour"
proof -
  assume u: "utc_date t = (y, m, d)"
  have "time_Date y m d (utc_hour t) 0
      = (t div hour) div 24 * (hour * 24) + (t div hour) mod 24 * hour"
    unfolding time_Date_def utc_date_days [OF u] day_div utc_hour_eq unfolding day_hour by simp
  then show ?thesis by (simp only: recombine)
qed

lemma start_of_minute:
  assumes "utc_date t = (y, m, d)"
  shows "time_Date y m d (utc_hour t) (utc_minute t) = (t div minute) * minute"
proof -
  have "time_Date y m d (utc_hour t) (utc_minute t)
      = time_Date y m d (utc_hour t) 0 + utc_minute t * minute"
    by (simp add: time_Date_def)
  also have "\<dots> = (t div minute) div 60 * (minute * 60) + (t div minute) mod 60 * minute"
    unfolding start_of_hour [OF assms] hour_div utc_minute_eq unfolding hour_minute ..
  finally show ?thesis by (simp only: recombine)
qed

lemma utc_date_midnight: "utc_date (D * day_ns) = civil D" "D * day_ns mod day_ns = 0"
  using dur_pos(4) by (simp_all add: utc_date_def)

lemma time_Date_midnight: "time_Date y m d 0 0 = date_days y m d * day_ns"
  by (simp add: time_Date_def)

lemma date_days_day: "date_days y m (d + k) = date_days y m d + k"
  by (simp add: date_days_def Let_def)

lemma civil_first: "civil D = (y, m, d) \<Longrightarrow> civil (date_days y m 1) = (y, m, 1)"
  using civil_date_days [of D y m d] month_lengths_pos [OF nth_mem, of "nat (m - 1)" "is_leap y"]
  by (intro civil_of_date) auto

lemma windowEnd_hour: "windowEnd t WHour = (t div hour + 1) * hour"
  by (cases "utc_date t") (simp add: start_of_hour algebra_simps)

lemma windowEnd_min: "windowEnd t WMin = (t div minute + 1) * minute"
  by (cases "utc_date t") (simp add: start_of_minute algebra_simps)

lemma windowEnd_day: "windowEnd t WDay = (t div day_ns + 1) * day_ns"
proof -
  obtain y m d where u: "utc_date t = (y, m, d)" by (cases "utc_date t") auto
  have c: "civil (t div day_ns) = (y, m, d)" using u by (simp add: utc_date_def)
  have "windowEnd t WDay = date_days y m (d + 1) * day_ns"
    by (simp add: u time_Date_midnight utc_date_days [OF u] time_AddDate_def utc_date_midnight c)
  then show ?thesis by (simp add: date_days_day utc_date_days [OF u])
qed

lemma windowEnd_month:
  assumes "utc_date t = (y, m, d)"
  shows "windowEnd t WMonth = date_days y (m + 1) 1 * day_ns"
proof -
  have c: "civil (t div day_ns) = (y, m, d)" using assms by (simp add: utc_date_def)
  show ?thesis
    by (simp add: assms time_Date_midnight time_AddDate_def utc_date_midnight civil_first [OF c])
qed

declare windowEnd.simps [simp del]

lemma month_bounds:
  assumes "utc_date t = (y, m, d)"
  shows "date_days y m 1 \<le> t div day_ns" and "t div day_ns < date_days y (m + 1) 1"
    and "date_days y (m + 1) 1 \<le> date_days y m 1 + 31"
proof -
  note c = civil_date_days [of "t div day_ns" y m d] utc_date_days [OF assms]
  have cv: "civil (t div day_ns) = (y, m, d)" using assms by (simp add: utc_date_def)
  let ?l = "month_lengths (is_leap y) ! nat (m - 1)"
  have l: "?l \<le> 31" using c(2,3) [OF cv] month_lengths_pos [OF nth_mem, of "nat (m - 1)" "is_leap y"] by auto
  have nx: "date_days y (m + 1) 1 = date_days y m 1 + ?l"
    using date_days_next_month [of m y] c(2,3) [OF cv] date_days_day [of y m 1 "?l - 1"] by simp
  have dd: "t div day_ns = date_days y m 1 + (d - 1)"
    using c(6) date_days_day [of y m 1 "d - 1"] by simp
  show "date_days y m 1 \<le> t div day_ns" "t div day_ns < date_days y (m + 1) 1"
    "date_days y (m + 1) 1 \<le> date_days y m 1 + 31"
    using dd nx l c(4,5) [OF cv] by simp_all
qed

text \<open>The nominal length of a window, a month being at most 31 days.\<close>

fun window_len :: "window \<Rightarrow> duration" where
  "window_len WHour = hour"
| "window_len WMin = minute"
| "window_len WDay = day_ns"
| "window_len WMonth = 31 * day_ns"

lemma next_multiple:
  assumes "0 < (k::int)" shows "t < (t div k + 1) * k" and "(t div k + 1) * k \<le> t + k"
proof -
  have t: "t = t div k * k + t mod k" by simp
  have m: "0 \<le> t mod k" "t mod k < k" using assms by simp_all
  have e: "(t div k + 1) * k = t div k * k + k" by (simp add: distrib_right)
  show "t < (t div k + 1) * k" "(t div k + 1) * k \<le> t + k"
    unfolding e using t m by linarith+
qed

lemma windowEnd_bounds: "t < windowEnd t w" "windowEnd t w \<le> t + window_len w"
proof -
  have "t < windowEnd t w \<and> windowEnd t w \<le> t + window_len w"
  proof (cases w)
    case WMonth
    obtain y m d where u: "utc_date t = (y, m, d)" by (cases "utc_date t") auto
    note b = month_bounds [OF u]
    have "(t div day_ns + 1) * day_ns \<le> date_days y (m + 1) 1 * day_ns"
      using b(2) dur_pos(4) by (intro mult_right_mono) simp_all
    moreover have "date_days y (m + 1) 1 * day_ns \<le> (t div day_ns + 31) * day_ns"
      using b(1,3) dur_pos(4) by (intro mult_right_mono) simp_all
    moreover have "t div day_ns * day_ns \<le> t" using dur_pos(4) by (simp add: minus_mod_eq_div_mult [symmetric])
    ultimately show ?thesis
      using next_multiple(1) [OF dur_pos(4), of t] WMonth windowEnd_month [OF u]
      by (simp add: distrib_right)
  qed (use next_multiple [OF dur_pos(2), of t] next_multiple [OF dur_pos(3), of t]
      next_multiple [OF dur_pos(4), of t] in
      \<open>simp_all only: windowEnd_hour windowEnd_min windowEnd_day window_len.simps simp_thms\<close>)
  then show "t < windowEnd t w" "windowEnd t w \<le> t + window_len w" by simp_all
qed

subsection \<open>Retry-After\<close>

lemma window_len_le: "window_len w \<le> max_int64"
  by (cases w) (simp_all add: dur_defs max_int64_def)

lemma window_remaining: "time_Sub (windowEnd t w) t = windowEnd t w - t"
  using windowEnd_bounds [of t w] window_len_le [of w]
  by (simp add: time_Sub_def min_int64_def)

lemma ceil_seconds: "x \<le> - ((- x) div second) * second" "(- ((- x) div second) - 1) * second < x"
proof -
  have m: "(- x) = (- x) div second * second + (- x) mod second" by simp
  moreover have "0 \<le> (- x) mod second" "(- x) mod second < second" using dur_pos(1) by simp_all
  moreover have "(- ((- x) div second) - 1) * second = - ((- x) div second * second) - second"
    "- ((- x) div second) * second = - ((- x) div second * second)"
    by (simp_all add: left_diff_distrib)
  ultimately show "x \<le> - ((- x) div second) * second" "(- ((- x) div second) - 1) * second < x"
    by linarith+
qed

theorem retryAfter_reaches_window_end:
  "1 \<le> retryAfterSeconds t w \<and> windowEnd t w \<le> t + retryAfterSeconds t w * second
   \<and> t + (retryAfterSeconds t w - 1) * second < windowEnd t w"
proof -
  note c = ceil_seconds [of "windowEnd t w - t"]
  have r: "retryAfterSeconds t w = - ((- (windowEnd t w - t)) div second)"
    by (simp only: retryAfterSeconds_def window_remaining)
  have "windowEnd t w - t \<le> retryAfterSeconds t w * second"
    "(retryAfterSeconds t w - 1) * second < windowEnd t w - t"
    using c unfolding r by simp_all
  moreover have "1 \<le> retryAfterSeconds t w"
  proof (rule ccontr)
    assume "\<not> 1 \<le> retryAfterSeconds t w"
    then have "retryAfterSeconds t w * second \<le> 0"
      using dur_pos(1) by (simp add: mult_le_0_iff)
    with calculation(1) windowEnd_bounds(1) [of t w] show False by simp
  qed
  ultimately show ?thesis by linarith
qed

subsection \<open>Buckets and windows\<close>

lemma split_year_pos: "0 \<le> n \<Longrightarrow> split_year n = (y, yd) \<Longrightarrow> 1 \<le> y"
proof (rule ccontr)
  assume n: "0 \<le> n" and s: "split_year n = (y, yd)" and "\<not> 1 \<le> y"
  then have "days_before_year (y + 1) \<le> days_before_year 1"
    using days_before_year_mono [of "y + 1" 1] by (cases "y + 1 = 1") auto
  moreover have "n < days_before_year (y + 1)"
    using split_year_days [OF s] split_year_range [OF s]
    by (auto simp: days_before_year_Suc split: if_splits)
  ultimately show False using n by (simp add: days_before_year_def)
qed

lemma utc_year_pos: "0 \<le> t \<Longrightarrow> utc_date t = (y, m, d) \<Longrightarrow> 1 \<le> y"
proof -
  assume t: "0 \<le> t" and u: "utc_date t = (y, m, d)"
  have "0 \<le> t div day_ns + unix_epoch_day"
    using t dur_pos(4) by (simp add: unix_epoch_day_def pos_imp_zdiv_nonneg_iff add_nonneg_nonneg)
  then show "1 \<le> y"
    using u split_year_pos by (auto simp: utc_date_def civil_def split: prod.splits)
qed

lemma utc_fields:
  assumes "utc_date t = (y, m, d)"
  shows "0 \<le> m" "m < 100" "0 \<le> d" "d < 100"
proof -
  have c: "civil (t div day_ns) = (y, m, d)" using assms by (simp add: utc_date_def)
  note r = civil_date_days [OF c]
  show "0 \<le> m" "m < 100" "0 \<le> d" using r(2-4) by simp_all
  have "nat (m - 1) < length (month_lengths (is_leap y))" using r(2,3) by simp
  from month_lengths_pos [OF nth_mem [OF this]] show "d < 100" using r(5) by simp
qed

lemma append_pad2_iff:
  assumes "0 \<le> i" "i < 100" "0 \<le> j" "j < 100"
  shows "xs @ pad_int 2 i = ys @ pad_int 2 j \<longleftrightarrow> xs = ys \<and> i = j"
proof -
  have "length (pad_int 2 i) = length (pad_int 2 j)" using assms by (simp add: length_pad2)
  then have "xs @ pad_int 2 i = ys @ pad_int 2 j \<longleftrightarrow> xs = ys \<and> pad_int 2 i = pad_int 2 j"
    by simp
  then show ?thesis using assms by (simp add: pad_int_inj)
qed

lemma bucket_fields:
  assumes t: "0 \<le> t" "utc_date t = (y, m, d)" and u: "0 \<le> u" "utc_date u = (y', m', d')"
  shows "bucketFor t WMonth = bucketFor u WMonth \<longleftrightarrow> y = y' \<and> m = m'"
    and "bucketFor t WDay = bucketFor u WDay \<longleftrightarrow> y = y' \<and> m = m' \<and> d = d'"
    and "bucketFor t WHour = bucketFor u WHour \<longleftrightarrow>
           y = y' \<and> m = m' \<and> d = d' \<and> utc_hour t = utc_hour u"
    and "bucketFor t WMin = bucketFor u WMin \<longleftrightarrow>
           y = y' \<and> m = m' \<and> d = d' \<and> utc_hour t = utc_hour u \<and> utc_minute t = utc_minute u"
proof -
  note f = utc_fields [OF t(2)] utc_fields [OF u(2)]
  have yy: "0 \<le> y" "0 \<le> y'" using utc_year_pos [OF t] utc_year_pos [OF u] by simp_all
  have lt: "(x::int) < 100" if "x < 24 \<or> x < 60" for x using that by auto
  have h: "0 \<le> utc_hour t" "utc_hour t < 100" "0 \<le> utc_hour u" "utc_hour u < 100"
    "0 \<le> utc_minute t" "utc_minute t < 100" "0 \<le> utc_minute u" "utc_minute u < 100"
    using utc_hour_range utc_minute_range lt by blast+
  have M: "pad_int 4 y @ pad_int 2 m = pad_int 4 y' @ pad_int 2 m' \<longleftrightarrow> y = y' \<and> m = m'"
    by (simp only: append_pad2_iff [OF f(1,2,5,6)] pad_int_inj [OF yy])
  have D: "(pad_int 4 y @ pad_int 2 m) @ pad_int 2 d = (pad_int 4 y' @ pad_int 2 m') @ pad_int 2 d'
      \<longleftrightarrow> y = y' \<and> m = m' \<and> d = d'"
    by (simp only: append_pad2_iff [OF f(3,4,7,8)] M conj_assoc)
  have H: "((pad_int 4 y @ pad_int 2 m) @ pad_int 2 d) @ pad_int 2 (utc_hour t)
      = ((pad_int 4 y' @ pad_int 2 m') @ pad_int 2 d') @ pad_int 2 (utc_hour u)
      \<longleftrightarrow> y = y' \<and> m = m' \<and> d = d' \<and> utc_hour t = utc_hour u"
    by (simp only: append_pad2_iff [OF h(1-4)] D conj_assoc)
  have "(((pad_int 4 y @ pad_int 2 m) @ pad_int 2 d) @ pad_int 2 (utc_hour t)) @ pad_int 2 (utc_minute t)
      = (((pad_int 4 y' @ pad_int 2 m') @ pad_int 2 d') @ pad_int 2 (utc_hour u)) @ pad_int 2 (utc_minute u)
      \<longleftrightarrow> y = y' \<and> m = m' \<and> d = d' \<and> utc_hour t = utc_hour u \<and> utc_minute t = utc_minute u"
    by (simp only: append_pad2_iff [OF h(5-8)] H conj_assoc)
  with M D H show "bucketFor t WMonth = bucketFor u WMonth \<longleftrightarrow> y = y' \<and> m = m'"
    "bucketFor t WDay = bucketFor u WDay \<longleftrightarrow> y = y' \<and> m = m' \<and> d = d'"
    "bucketFor t WHour = bucketFor u WHour \<longleftrightarrow> y = y' \<and> m = m' \<and> d = d' \<and> utc_hour t = utc_hour u"
    "bucketFor t WMin = bucketFor u WMin \<longleftrightarrow>
       y = y' \<and> m = m' \<and> d = d' \<and> utc_hour t = utc_hour u \<and> utc_minute t = utc_minute u"
    by (simp_all add: t(2) u(2))
qed

lemma same_day: "utc_date t = (y, m, d) \<Longrightarrow> utc_date u = (y', m', d') \<Longrightarrow>
    y = y' \<and> m = m' \<and> d = d' \<longleftrightarrow> t div day_ns = u div day_ns"
  using utc_date_days [of t y m d] utc_date_days [of u y' m' d'] by (auto simp: utc_date_def)

lemma month_from_end:
  assumes "utc_date t = (y, m, d)"
  shows "civil (date_days y (m + 1) 1 - 1) = (y, m, month_lengths (is_leap y) ! nat (m - 1))"
proof -
  have c: "civil (t div day_ns) = (y, m, d)" using assms by (simp add: utc_date_def)
  note r = civil_date_days [OF c]
  show ?thesis
    unfolding date_days_next_month [OF r(2,3)]
    using civil_of_date [OF r(2,3), of "month_lengths (is_leap y) ! nat (m - 1)" y] r(4,5) by simp
qed

lemma div_split: "(x::int) div k = y div k \<and> x mod k = y mod k \<longleftrightarrow> x = y"
  by (metis div_mult_mod_eq)

lemma cancel_window: "0 < (k::int) \<Longrightarrow> (a + 1) * k = (b + 1) * k \<longleftrightarrow> a = b"
  by simp

lemma bucket_eq_iff:
  assumes "0 \<le> t" and "0 \<le> u"
  shows "bucketFor t w = bucketFor u w \<longleftrightarrow> windowEnd t w = windowEnd u w"
proof -
  obtain y m d where t: "utc_date t = (y, m, d)" by (cases "utc_date t") auto
  obtain y' m' d' where u: "utc_date u = (y', m', d')" by (cases "utc_date u") auto
  note b = bucket_fields [OF assms(1) t assms(2) u] and sd = same_day [OF t u]
  show ?thesis
  proof (cases w)
    case WHour
    have "y = y' \<and> m = m' \<and> d = d' \<and> utc_hour t = utc_hour u \<longleftrightarrow> t div hour = u div hour"
      using sd div_split [of "t div hour" 24 "u div hour"] unfolding utc_hour_eq day_div by blast
    then show ?thesis unfolding WHour b(3) windowEnd_hour cancel_window [OF dur_pos(3)] .
  next
    case WMin
    have "y = y' \<and> m = m' \<and> d = d' \<and> utc_hour t = utc_hour u \<and> utc_minute t = utc_minute u
        \<longleftrightarrow> t div hour = u div hour \<and> utc_minute t = utc_minute u"
      using sd div_split [of "t div hour" 24 "u div hour"] unfolding utc_hour_eq day_div by blast
    also have "\<dots> \<longleftrightarrow> t div minute = u div minute"
      using div_split [of "t div minute" 60 "u div minute"] unfolding utc_minute_eq hour_div .
    finally show ?thesis unfolding WMin b(4) windowEnd_min cancel_window [OF dur_pos(2)] .
  next
    case WDay
    show ?thesis unfolding WDay b(2) windowEnd_day cancel_window [OF dur_pos(4)] by (rule sd)
  next
    case WMonth
    have e: "y = y' \<and> m = m'" if "date_days y (m + 1) 1 = date_days y' (m' + 1) 1"
      using month_from_end [OF t] month_from_end [OF u] unfolding that by simp
    have "date_days y (m + 1) 1 * day_ns = date_days y' (m' + 1) 1 * day_ns
        \<longleftrightarrow> date_days y (m + 1) 1 = date_days y' (m' + 1) 1"
      using dur_pos(4) by simp
    then show ?thesis
      unfolding WMonth b(1) windowEnd_month [OF t] windowEnd_month [OF u]
      using e by blast
  qed
qed

theorem bucket_identifies_window:
  assumes "0 \<le> t" and "0 \<le> u"
  shows "bucketFor t w = bucketFor u w \<longleftrightarrow> windowEnd t w = windowEnd u w"
  using assms by (rule bucket_eq_iff)

theorem bucket_identifies_window_witness:
  "bucketFor 0 WMonth = bucketFor (20 * day_ns) WMonth \<longleftrightarrow>
     windowEnd 0 WMonth = windowEnd (20 * day_ns) WMonth"
  using bucket_identifies_window [of 0 "20 * day_ns" WMonth] dur_pos by simp

subsection \<open>Keys\<close>

lemma split_last_char:
  assumes "xs @ c # ys = xs' @ c # ys'" and "c \<notin> set ys" and "c \<notin> set ys'"
  shows "xs = xs' \<and> ys = ys'"
proof -
  have "rev ys @ c # rev xs = rev ys' @ c # rev xs'"
    using assms(1) [THEN arg_cong [where f = rev]] by simp
  from split_at_char [OF this] assms(2,3) show ?thesis by simp
qed

lemma window_str_inj: "window_str w = window_str w' \<longleftrightarrow> w = w'"
  by (cases w; cases w') simp_all

lemma window_str_no_colon: "CHR '':'' \<notin> set (window_str w)"
  by (cases w) simp_all

lemma bucketFor_no_colon:
  assumes "0 \<le> t" shows "CHR '':'' \<notin> set (bucketFor t w)"
proof -
  obtain y m d where u: "utc_date t = (y, m, d)" by (cases "utc_date t") auto
  have "0 \<le> y" using utc_year_pos [OF assms u] by simp
  with utc_fields [OF u] utc_hour_range [of t] utc_minute_range [of t]
  have "list_all is_digit (bucketFor t w)"
    by (cases w) (simp_all add: u pad_int_digits)
  then show ?thesis by (rule digit_not_special)
qed

lemma windowKeyForBucket_eq:
  "windowKeyForBucket kind sid metric w bucket =
     ''llmgw'' @ CHR '':'' # kind @ CHR '':'' # sid @ CHR '':'' # metric @ CHR '':'' # window_str w
       @ CHR '':'' # bucket"
  by (simp add: windowKeyForBucket_def)

lemma windowKeyForBucket_inj:
  assumes eq: "windowKeyForBucket k i m w b = windowKeyForBucket k' i' m' w' b'"
    and nc: "CHR '':'' \<notin> set k" "CHR '':'' \<notin> set k'" "CHR '':'' \<notin> set m" "CHR '':'' \<notin> set m'"
      "CHR '':'' \<notin> set b" "CHR '':'' \<notin> set b'"
  shows "k = k' \<and> i = i' \<and> m = m' \<and> w = w' \<and> b = b'"
proof -
  let ?c = "CHR '':''"
  have "k @ ?c # (i @ ?c # m @ ?c # window_str w @ ?c # b)
      = k' @ ?c # (i' @ ?c # m' @ ?c # window_str w' @ ?c # b')"
    using eq by (simp add: windowKeyForBucket_eq)
  from split_at_char [OF this nc(1,2)]
  have k: "k = k'" and r: "(i @ ?c # m @ ?c # window_str w) @ ?c # b
      = (i' @ ?c # m' @ ?c # window_str w') @ ?c # b'" by simp_all
  from split_last_char [OF r nc(5,6)]
  have b: "b = b'" and r: "(i @ ?c # m) @ ?c # window_str w = (i' @ ?c # m') @ ?c # window_str w'"
    by simp_all
  from split_last_char [OF r window_str_no_colon window_str_no_colon]
  have w: "w = w'" and r: "i @ ?c # m = i' @ ?c # m'" by (simp_all add: window_str_inj)
  from split_last_char [OF r nc(3,4)] k b w show ?thesis by simp
qed

text \<open>The window and the bucket can be read back from any key.\<close>

lemma windowKeyForBucket_window:
  assumes eq: "windowKeyForBucket k i m w b = windowKeyForBucket k' i' m' w' b'"
    and nc: "CHR '':'' \<notin> set b" "CHR '':'' \<notin> set b'"
  shows "w = w' \<and> b = b'"
proof -
  let ?c = "CHR '':''"
  have r: "(k @ ?c # i @ ?c # m @ ?c # window_str w) @ ?c # b
      = (k' @ ?c # i' @ ?c # m' @ ?c # window_str w') @ ?c # b'"
    using eq by (simp add: windowKeyForBucket_eq)
  from split_last_char [OF r nc]
  have b: "b = b'" and r: "(k @ ?c # i @ ?c # m) @ ?c # window_str w
      = (k' @ ?c # i' @ ?c # m') @ ?c # window_str w'" by simp_all
  from split_last_char [OF r window_str_no_colon window_str_no_colon] b
  show ?thesis by (simp add: window_str_inj)
qed

lemma windowKey_window:
  assumes "windowKey k i m w t = windowKey k' i' m' w' t'" and "0 \<le> t" and "0 \<le> t'"
  shows "w = w' \<and> windowEnd t w = windowEnd t' w'"
  using assms bucket_eq_iff [of t t' w] bucketFor_no_colon [of t w] bucketFor_no_colon [of t' w']
    windowKeyForBucket_window [of k i m w "bucketFor t w" k' i' m' w' "bucketFor t' w'"]
  by (auto simp: windowKey_def)

text \<open>C25: Two window keys are equal only if scope kind, scope id, metric, window and bucket all
  agree, so no two counters share a key, even for ids that contain the separator.\<close>

theorem windowKey_names_one_counter:
  assumes "windowKey k i m w t = windowKey k' i' m' w' t'"
    and "CHR '':'' \<notin> set k" "CHR '':'' \<notin> set k'" "CHR '':'' \<notin> set m" "CHR '':'' \<notin> set m'"
    and "0 \<le> t" "0 \<le> t'"
  shows "k = k' \<and> i = i' \<and> m = m' \<and> w = w' \<and> bucketFor t w = bucketFor t' w"
  using windowKeyForBucket_inj [of k i m w "bucketFor t w" k' i' m' w' "bucketFor t' w'"]
    bucketFor_no_colon [OF assms(6), of w] bucketFor_no_colon [OF assms(7), of w'] assms(1-5)
  by (auto simp: windowKey_def)

theorem windowKey_names_one_counter_witness:
  "windowKey ''user'' ''a:b'' metricReq WDay 0 = windowKey ''user'' ''a:b'' metricReq WDay 5
   \<and> bucketFor 0 WDay = bucketFor 5 WDay"
proof -
  have e: "utc_date 5 = utc_date 0" by (simp add: utc_date_def dur_defs)
  have "windowKey ''user'' ''a:b'' metricReq WDay 0 = windowKey ''user'' ''a:b'' metricReq WDay 5"
    by (simp add: windowKey_def e)
  with windowKey_names_one_counter [OF this] show ?thesis by (simp add: metricReq_def)
qed

theorem userModelScopeID_splits:
  "userModelScopeID u c = userModelScopeID u' c' \<longleftrightarrow> u = u' \<and> c = c'"
  using length_prefix_inj [of u c u' c'] by (auto simp: userModelScopeID_def itoa_def)

subsection \<open>History\<close>

lemma date_days_normal: "date_days y m 1 = date_days (y + (m - 1) div 12) ((m - 1) mod 12 + 1) 1"
proof -
  have "((m - 1) mod 12 + 1 - 1) div 12 = 0" "((m - 1) mod 12 + 1 - 1) mod 12 = (m - 1) mod 12"
    by simp_all
  then show ?thesis by (simp only: date_days_def Let_def) simp
qed

lemma civil_first_any: "\<exists>y' m'. civil (date_days y m 1) = (y', m', 1) \<and> 1 \<le> m' \<and> m' \<le> 12
    \<and> (\<forall>k. date_days y' (m' + k) 1 = date_days y (m + k) 1)"
proof -
  let ?y = "y + (m - 1) div 12" and ?m = "(m - 1) mod 12 + 1"
  have m: "1 \<le> ?m" "?m \<le> 12" using pos_mod_bound [of 12 "m - 1"] by simp_all
  have i: "nat (?m - 1) < length (month_lengths (is_leap ?y))" using m by simp
  from month_lengths_pos [OF nth_mem [OF i]]
  have "civil (date_days ?y ?m 1) = (?y, ?m, 1)" using m by (intro civil_of_date) auto
  moreover have "date_days ?y (?m + k) 1 = date_days y (m + k) 1" for k
  proof -
    have q: "(12 * q + z) div 12 = q + z div 12" "(12 * q + z) mod 12 = z mod 12" for q z :: int
      by simp_all
    have "m - 1 = 12 * ((m - 1) div 12) + (m - 1) mod 12" by simp
    then have e: "m + k - 1 = 12 * ((m - 1) div 12) + (?m + k - 1)" by linarith
    have "(m + k - 1) div 12 = (m - 1) div 12 + (?m + k - 1) div 12"
      "(m + k - 1) mod 12 = (?m + k - 1) mod 12"
      by (subst e, rule q)+
    then show ?thesis by (simp only: date_days_def Let_def add.assoc)
  qed
  ultimately show ?thesis using m date_days_normal [of y m] by (intro exI [of _ ?y] exI [of _ ?m]) simp
qed

lemma windowEnd_first: "windowEnd (date_days y m 1 * day_ns) WMonth = date_days y (m + 1) 1 * day_ns"
proof -
  obtain y' m' where c: "civil (date_days y m 1) = (y', m', 1)"
    and k: "date_days y' (m' + k) 1 = date_days y (m + k) 1" for k
    using civil_first_any [of y m] by blast
  have "utc_date (date_days y m 1 * day_ns) = (y', m', 1)" by (simp add: utc_date_midnight c)
  then show ?thesis using windowEnd_month k [of 1] by simp
qed

lemma historyStepBack_month:
  "utc_date now = (y, m, d) \<Longrightarrow> historyStepBack now WMonth i = Some (date_days y (m - i) 1 * day_ns)"
  by (simp add: time_Date_midnight time_AddDate_def utc_date_midnight utc_date_def civil_first)

lemma historyStepBack_day:
  "historyStepBack now WDay i = Some ((now div day_ns - i) * day_ns + now mod day_ns)"
proof -
  obtain y m d where u: "utc_date now = (y, m, d)" by (cases "utc_date now") auto
  have "date_days y m (d - i) = now div day_ns - i"
    using utc_date_days [OF u] date_days_day [of y m d "- i"] by simp
  then show ?thesis by (simp add: time_AddDate_def u)
qed

theorem history_buckets_adjacent:
  assumes "historyStepBack now w (i + 1) = Some a" and "historyStepBack now w i = Some b"
  shows "windowEnd (windowEnd a w) w = windowEnd b w"
proof (cases w)
  case WHour
  have "(b - hour) div hour = b div hour - 1"
    using div_add_self2 [of hour "b - hour"] dur_pos(3) by simp
  moreover have "a = b - hour" using assms WHour by (simp add: algebra_simps)
  ultimately have "windowEnd a w = b div hour * hour" by (simp add: WHour windowEnd_hour)
  then show ?thesis using dur_pos(3) by (simp add: WHour windowEnd_hour)
next
  case WDay
  have ab: "a = (now div day_ns - (i + 1)) * day_ns + now mod day_ns"
    "b = (now div day_ns - i) * day_ns + now mod day_ns"
    using assms unfolding WDay historyStepBack_day by simp_all
  have "a div day_ns = now div day_ns - (i + 1)" "b div day_ns = now div day_ns - i"
    unfolding ab using dur_pos(4) by simp_all
  then show ?thesis using dur_pos(4) by (simp add: WDay windowEnd_day)
next
  case WMonth
  obtain y m d where u: "utc_date now = (y, m, d)" by (cases "utc_date now") auto
  have "a = date_days y (m - (i + 1)) 1 * day_ns" "b = date_days y (m - i) 1 * day_ns"
    using assms unfolding WMonth historyStepBack_month [OF u] by simp_all
  then show ?thesis unfolding WMonth by (simp only: windowEnd_first) (simp add: algebra_simps)
next
  case WMin
  with assms show ?thesis by simp
qed

theorem history_buckets_adjacent_witness:
  "\<exists>a b. historyStepBack 0 WMonth 2 = Some a \<and> historyStepBack 0 WMonth 1 = Some b
     \<and> windowEnd (windowEnd a WMonth) WMonth = windowEnd b WMonth"
proof -
  obtain y m d where u: "utc_date 0 = (y, m, d)" by (cases "utc_date 0") auto
  have a: "historyStepBack 0 WMonth (1 + 1) = Some (date_days y (m - 2) 1 * day_ns)"
    and b: "historyStepBack 0 WMonth 1 = Some (date_days y (m - 1) 1 * day_ns)"
    using historyStepBack_month [OF u] by simp_all
  show ?thesis using history_buckets_adjacent [OF a b] a b by simp
qed

end
