(* ===== verification/CounterStore.thy ===== *)
theory CounterStore
  imports Windows
begin

text \<open>
  The windowed counter store (\<open>limits.go\<close>): the batch entries, the \<open>counterStore\<close> contract as a
  locale over the values a reader sees, and \<open>memoryStore\<close>, the in-process implementation with per-key
  expiry and opportunistic sweeping, as an interpretation of it.  A batch of the code reads the clock
  once per key; the model passes the batch one reading.  Its lemmas show that
  increments add up, that a batch followed by its negation is undone, and that a windowed counter is
  never dropped before its window has ended.
\<close>

subsection \<open>Batches and their contract\<close>

record counterIncr =
  ci_key :: string
  ci_delta :: int
  ci_ttl :: duration
  ci_enforceTTL :: duration
  ci_absolute :: bool

text \<open>What one entry does to the values a reader sees.\<close>

definition spec_step :: "counterIncr \<Rightarrow> (string \<Rightarrow> int) \<Rightarrow> (string \<Rightarrow> int)" where
  "spec_step e v = v(ci_key e := (if ci_absolute e then ci_delta e
                                  else wrap64 (v (ci_key e) + ci_delta e)))"

text \<open>The value each entry of a batch reports, in order.\<close>

fun spec_vals :: "counterIncr list \<Rightarrow> (string \<Rightarrow> int) \<Rightarrow> int list" where
  "spec_vals [] v = []"
| "spec_vals (e # es) v = spec_step e v (ci_key e) # spec_vals es (spec_step e v)"

definition negate :: "counterIncr \<Rightarrow> counterIncr" where
  "negate e = e\<lparr>ci_delta := - ci_delta e\<rparr>"

lemma spec_step_other [simp]: "k \<noteq> ci_key e \<Longrightarrow> spec_step e v k = v k"
  by (simp add: spec_step_def)

lemma spec_fold_other: "k \<notin> ci_key ` set es \<Longrightarrow> fold spec_step es v k = v k"
  by (induction es arbitrary: v) auto

lemma length_spec_vals [simp]: "length (spec_vals es v) = length es"
  by (induction es arbitrary: v) auto

lemma spec_fold_distinct:
  "distinct (map ci_key es) \<Longrightarrow> e \<in> set es \<Longrightarrow>
     fold spec_step es v (ci_key e) = spec_step e v (ci_key e)"
proof (induction es arbitrary: v)
  case (Cons x xs)
  show ?case
  proof (cases "e = x")
    case True
    with Cons.prems have "ci_key e \<notin> ci_key ` set xs" by auto
    with True show ?thesis by (simp add: spec_fold_other)
  next
    case False
    with Cons.prems have "e \<in> set xs" "ci_key e \<noteq> ci_key x" by (auto simp: rev_image_eqI)
    with Cons show ?thesis by (simp add: spec_step_def)
  qed
qed simp

lemma spec_vals_distinct:
  "distinct (map ci_key es) \<Longrightarrow> spec_vals es v = map (\<lambda>e. spec_step e v (ci_key e)) es"
proof (induction es arbitrary: v)
  case (Cons x xs)
  then have "spec_vals xs (spec_step x v) = map (\<lambda>e. spec_step e (spec_step x v) (ci_key e)) xs"
    by simp
  also have "\<dots> = map (\<lambda>e. spec_step e v (ci_key e)) xs"
    using Cons.prems by (intro map_cong) (auto simp: spec_step_def rev_image_eqI)
  finally show ?case by simp
qed simp

text \<open>Undoing a part of a batch leaves what the rest of it did.\<close>

lemma spec_partial_rollback:
  assumes "distinct (map ci_key es)" and "\<forall>e\<in>set es. \<not> ci_absolute e" and "\<forall>k. in_int64 (v k)"
    and parts: "set A \<union> set B = set es" "distinct (map ci_key A)" "distinct (map ci_key B)"
    and apart: "ci_key ` set A \<inter> ci_key ` set B = {}"
  shows "fold spec_step (map negate A) (fold spec_step es v) = fold spec_step B v"
proof
  fix k
  have keys: "map ci_key (map negate A) = map ci_key A" by (simp add: negate_def comp_def)
  then have keyset: "ci_key ` set (map negate A) = ci_key ` set A" by (metis set_map)
  show "fold spec_step (map negate A) (fold spec_step es v) k = fold spec_step B v k"
  proof (cases "k \<in> ci_key ` set A")
    case True
    then obtain e where e: "e \<in> set A" "k = ci_key e" by auto
    then have es: "e \<in> set es" and nB: "k \<notin> ci_key ` set B" using parts(1) apart by auto
    have ne: "negate e \<in> set (map negate A)" "ci_key (negate e) = k" using e by (simp_all add: negate_def)
    have "fold spec_step (map negate A) (fold spec_step es v) (ci_key (negate e))
        = spec_step (negate e) (fold spec_step es v) (ci_key (negate e))"
      using parts(2) ne(1) unfolding keys [symmetric] by (rule spec_fold_distinct)
    also have "\<dots> = wrap64 (spec_step e v (ci_key e) + - ci_delta e)"
      using es e assms(2) spec_fold_distinct [OF assms(1) es, of v]
      unfolding spec_step_def [of "negate e"] by (simp add: negate_def)
    also have "\<dots> = v k" using es e assms(2,3) by (simp add: spec_step_def wrap64_cancel)
    finally show ?thesis using ne(2) spec_fold_other [OF nB] by simp
  next
    case False
    then have "fold spec_step (map negate A) (fold spec_step es v) k = fold spec_step es v k"
      using keyset by (simp only: spec_fold_other not_False_eq_True)
    also have "\<dots> = fold spec_step B v k"
    proof (cases "k \<in> ci_key ` set B")
      case True
      then obtain e where e: "e \<in> set B" "k = ci_key e" by auto
      then have "e \<in> set es" using parts(1) by auto
      with spec_fold_distinct [OF assms(1) this] spec_fold_distinct [OF parts(3) e(1)] e show ?thesis by simp
    next
      case nB: False
      with False parts(1) have "k \<notin> ci_key ` set es" by auto
      with nB show ?thesis by (simp only: spec_fold_other not_False_eq_True)
    qed
    finally show ?thesis .
  qed
qed

lemma spec_rollback:
  assumes "distinct (map ci_key es)" and "\<forall>e\<in>set es. \<not> ci_absolute e" and "\<forall>k. in_int64 (v k)"
  shows "fold spec_step (map negate es) (fold spec_step es v) = v"
  using spec_partial_rollback [OF assms, of es "[]"] assms(1) by simp

locale counter_store =
  fixes view :: "'s \<Rightarrow> gtime \<Rightarrow> string \<Rightarrow> int"
    and entry_ok :: "counterIncr \<Rightarrow> bool"
    and get_multi :: "gtime \<Rightarrow> string list \<Rightarrow> 's \<Rightarrow> int list"
    and incr_multi :: "gtime \<Rightarrow> counterIncr list \<Rightarrow> 's \<Rightarrow> int list \<times> 's"
    and incr_get_multi :: "gtime \<Rightarrow> counterIncr list \<Rightarrow> string list \<Rightarrow> 's \<Rightarrow> (int list \<times> int list) \<times> 's"
  assumes get_view: "get_multi now ks s = map (view s now) ks"
    and incr_view: "\<forall>e\<in>set es. entry_ok e \<Longrightarrow>
      view (snd (incr_multi now es s)) now = fold spec_step es (view s now)"
    and incr_vals: "\<forall>e\<in>set es. entry_ok e \<Longrightarrow> fst (incr_multi now es s) = spec_vals es (view s now)"
    and incr_get_incr: "snd (incr_get_multi now es ks s) = snd (incr_multi now es s)"
    and incr_get_fst: "fst (fst (incr_get_multi now es ks s)) = fst (incr_multi now es s)"
    and incr_get_snd: "snd (fst (incr_get_multi now es ks s))
      = get_multi now ks (snd (incr_multi now es s))"
begin

lemma incr_length: "\<forall>e\<in>set es. entry_ok e \<Longrightarrow> length (fst (incr_multi now es s)) = length es"
  by (simp add: incr_vals)

lemma incr_other:
  "\<forall>e\<in>set es. entry_ok e \<Longrightarrow> k \<notin> ci_key ` set es \<Longrightarrow>
     view (snd (incr_multi now es s)) now k = view s now k"
  by (simp add: incr_view spec_fold_other)

text \<open>Reads of a fused call that are disjoint from its increments see the values from before it.\<close>

lemma fused_reads_before:
  assumes "\<forall>e\<in>set es. entry_ok e" and "set ks \<inter> ci_key ` set es = {}"
  shows "snd (fst (incr_get_multi now es ks s)) = map (view s now) ks"
proof -
  have "k \<notin> ci_key ` set es" if "k \<in> set ks" for k using assms(2) that by blast
  then show ?thesis using incr_other [OF assms(1)] by (simp add: incr_get_snd get_view)
qed

lemma fused_vals:
  assumes "\<forall>e\<in>set es. entry_ok e" and "distinct (map ci_key es)"
  shows "fst (fst (incr_get_multi now es ks s)) = map (\<lambda>e. spec_step e (view s now) (ci_key e)) es"
  using assms by (simp add: incr_get_fst incr_vals spec_vals_distinct)

end

subsection \<open>memoryStore\<close>

record memoryEntry =
  me_expiry :: gtime
  me_value :: int

record memoryStore =
  ms_data :: "string \<rightharpoonup> memoryEntry"
  ms_lastSweep :: gtime

definition sweepEvery :: duration where [dur_defs]: "sweepEvery = 30 * second"
definition memoryStoreMaxTTL :: duration where [dur_defs]: "memoryStoreMaxTTL = 48 * hour"

definition clampTTL :: "duration \<Rightarrow> duration \<Rightarrow> duration" where
  "clampTTL ttl enforceTTL =
     (let ttl1 = (if memoryStoreMaxTTL < ttl then memoryStoreMaxTTL else ttl)
      in if ttl1 < enforceTTL then enforceTTL else ttl1)"

definition newMemoryStore :: memoryStore where
  "newMemoryStore = \<lparr>ms_data = Map.empty, ms_lastSweep = zero_time\<rparr>"

definition sweepLocked :: "gtime \<Rightarrow> (string \<rightharpoonup> memoryEntry) \<Rightarrow> (string \<rightharpoonup> memoryEntry)" where
  "sweepLocked now d = (\<lambda>k. case d k of None \<Rightarrow> None
                                 | Some e \<Rightarrow> if \<not> now < me_expiry e then None else Some e)"

definition maybe_sweep :: "gtime \<Rightarrow> memoryStore \<Rightarrow> memoryStore" where
  "maybe_sweep now m =
     (if sweepEvery \<le> time_Sub now (ms_lastSweep m)
      then m\<lparr>ms_data := sweepLocked now (ms_data m), ms_lastSweep := now\<rparr> else m)"

definition applyIncr :: "gtime \<Rightarrow> string \<Rightarrow> int \<Rightarrow> duration \<Rightarrow> memoryStore \<Rightarrow> int \<times> memoryStore" where
  "applyIncr now key n ttl m0 =
     (let m = maybe_sweep now m0;
          fresh = \<lparr>me_expiry = now + ttl, me_value = 0\<rparr>;
          e = (case ms_data m key of
                 None \<Rightarrow> fresh
               | Some e \<Rightarrow> if \<not> now < me_expiry e then fresh else e);
          v = wrap64 (me_value e + n)
      in (v, m\<lparr>ms_data := (ms_data m)(key \<mapsto> e\<lparr>me_value := v\<rparr>)\<rparr>))"

definition applySet :: "gtime \<Rightarrow> string \<Rightarrow> int \<Rightarrow> duration \<Rightarrow> memoryStore \<Rightarrow> int \<times> memoryStore" where
  "applySet now key v ttl m0 =
     (let m = maybe_sweep now m0
      in (v, m\<lparr>ms_data := (ms_data m)(key \<mapsto> \<lparr>me_expiry = now + ttl, me_value = v\<rparr>)\<rparr>))"

definition memoryStore_get :: "gtime \<Rightarrow> string \<Rightarrow> memoryStore \<Rightarrow> int" where
  "memoryStore_get now key m =
     (case ms_data m key of
        None \<Rightarrow> 0
      | Some e \<Rightarrow> if \<not> now < me_expiry e then 0 else me_value e)"

definition memoryStore_getMulti :: "gtime \<Rightarrow> string list \<Rightarrow> memoryStore \<Rightarrow> int list" where
  "memoryStore_getMulti now keys m = map (\<lambda>k. memoryStore_get now k m) keys"

definition memoryStore_incrOne :: "gtime \<Rightarrow> counterIncr \<Rightarrow> memoryStore \<Rightarrow> int \<times> memoryStore" where
  "memoryStore_incrOne now e m =
     (if ci_absolute e
      then applySet now (ci_key e) (ci_delta e) (clampTTL (ci_ttl e) (ci_enforceTTL e)) m
      else applyIncr now (ci_key e) (ci_delta e) (clampTTL (ci_ttl e) (ci_enforceTTL e)) m)"

fun memoryStore_incrMulti ::
  "gtime \<Rightarrow> counterIncr list \<Rightarrow> memoryStore \<Rightarrow> int list \<times> memoryStore" where
  "memoryStore_incrMulti now [] m = ([], m)"
| "memoryStore_incrMulti now (e # es) m =
     (let (v, m1) = memoryStore_incrOne now e m; (vs, m2) = memoryStore_incrMulti now es m1
      in (v # vs, m2))"

definition memoryStore_incrAndGetMulti ::
  "gtime \<Rightarrow> counterIncr list \<Rightarrow> string list \<Rightarrow> memoryStore \<Rightarrow> (int list \<times> int list) \<times> memoryStore" where
  "memoryStore_incrAndGetMulti now entries reads m =
     (let (incrVals, m1) = memoryStore_incrMulti now entries m
      in ((incrVals, memoryStore_getMulti now reads m1), m1))"

subsection \<open>memoryStore keeps the contract\<close>

text \<open>What a reader at \<open>t\<close> sees.\<close>

abbreviation ms_view :: "memoryStore \<Rightarrow> gtime \<Rightarrow> string \<Rightarrow> int" where
  "ms_view m t \<equiv> \<lambda>k. memoryStore_get t k m"

definition entry_ok :: "counterIncr \<Rightarrow> bool" where
  "entry_ok e \<longleftrightarrow> 0 < ci_ttl e"

lemma clampTTL_ge_enforce: "enforceTTL \<le> clampTTL ttl enforceTTL"
  by (simp add: clampTTL_def Let_def)

lemma clampTTL_pos: "0 < ttl \<Longrightarrow> 0 < clampTTL ttl enforceTTL"
  by (auto simp: clampTTL_def Let_def dur_defs)

lemma sweep_view: "now \<le> t \<Longrightarrow> ms_view (maybe_sweep now m) t = ms_view m t"
  by (auto simp: fun_eq_iff maybe_sweep_def sweepLocked_def memoryStore_get_def split: option.splits)

lemma sweep_subset: "ms_data (maybe_sweep now m) k = Some e \<Longrightarrow> ms_data m k = Some e"
  by (auto simp: maybe_sweep_def sweepLocked_def split: option.splits if_splits)

lemma incrOne_view:
  assumes "entry_ok e"
  shows "ms_view (snd (memoryStore_incrOne now e m)) now = spec_step e (ms_view m now)"
    and "fst (memoryStore_incrOne now e m) = spec_step e (ms_view m now) (ci_key e)"
proof -
  have pos: "0 < clampTTL (ci_ttl e) (ci_enforceTTL e)"
    using assms by (simp add: entry_ok_def clampTTL_pos)
  have sw: "ms_view (maybe_sweep now m) now = ms_view m now" by (rule sweep_view) simp
  have sk: "(case ms_data (maybe_sweep now m) k of None \<Rightarrow> 0
      | Some e \<Rightarrow> if \<not> now < me_expiry e then 0 else me_value e) = ms_view m now k" for k
    using fun_cong [OF sw, of k] by (simp add: memoryStore_get_def)
  show "fst (memoryStore_incrOne now e m) = spec_step e (ms_view m now) (ci_key e)"
    using sk [of "ci_key e"]
    by (auto simp: memoryStore_incrOne_def applyIncr_def applySet_def spec_step_def Let_def
        split: option.splits if_splits)
  show "ms_view (snd (memoryStore_incrOne now e m)) now = spec_step e (ms_view m now)"
  proof
    fix k
    show "ms_view (snd (memoryStore_incrOne now e m)) now k = spec_step e (ms_view m now) k"
    proof (cases "k = ci_key e")
      case True
      then show ?thesis using pos sk [of "ci_key e"]
        by (auto simp: memoryStore_incrOne_def applyIncr_def applySet_def spec_step_def Let_def
            memoryStore_get_def split: option.splits if_splits)
    next
      case False
      then show ?thesis using sk [of k]
        by (simp add: memoryStore_incrOne_def applyIncr_def applySet_def spec_step_def Let_def
            memoryStore_get_def)
    qed
  qed
qed

lemma incrMulti_view:
  "\<forall>e\<in>set es. entry_ok e \<Longrightarrow>
     ms_view (snd (memoryStore_incrMulti now es m)) now = fold spec_step es (ms_view m now)
     \<and> fst (memoryStore_incrMulti now es m) = spec_vals es (ms_view m now)"
proof (induction es arbitrary: m)
  case (Cons e es)
  then have e: "entry_ok e" and es: "\<forall>e\<in>set es. entry_ok e" by auto
  obtain v m1 where o: "memoryStore_incrOne now e m = (v, m1)" by fastforce
  obtain vs m2 where r: "memoryStore_incrMulti now es m1 = (vs, m2)" by fastforce
  from incrOne_view [OF e, of now m] o
  have "ms_view m1 now = spec_step e (ms_view m now)" "v = spec_step e (ms_view m now) (ci_key e)"
    by simp_all
  with Cons.IH [OF es, of m1] o r show ?case by simp
qed simp

interpretation mem: counter_store ms_view entry_ok memoryStore_getMulti memoryStore_incrMulti
  memoryStore_incrAndGetMulti
  by unfold_locales
    (auto simp: memoryStore_getMulti_def incrMulti_view memoryStore_incrAndGetMulti_def
      split: prod.splits)

subsection \<open>Counters outlive their window\<close>

fun enforce_floor :: "window \<Rightarrow> duration" where
  "enforce_floor WMin = et_min enforceTTLsFor"
| "enforce_floor WHour = et_hour enforceTTLsFor"
| "enforce_floor WDay = et_day enforceTTLsFor"
| "enforce_floor WMonth = et_month enforceTTLsFor"

text \<open>An entry built for the window \<open>now\<close> is in, with that window's lifetime floor.\<close>

definition windowed_entry :: "gtime \<Rightarrow> counterIncr \<Rightarrow> bool" where
  "windowed_entry now e \<longleftrightarrow>
     (\<exists>k i m w. ci_key e = windowKey k i m w now \<and> ci_enforceTTL e = enforce_floor w)"

definition covers_windows :: "memoryStore \<Rightarrow> bool" where
  "covers_windows s \<longleftrightarrow>
     (\<forall>k i m w t e. 0 \<le> t \<longrightarrow> ms_data s (windowKey k i m w t) = Some e \<longrightarrow> windowEnd t w \<le> me_expiry e)"

lemma enforce_floor_covers: "window_len w \<le> enforce_floor w"
  by (cases w) (simp_all add: enforceTTLsFor_def dur_defs)

lemma covers_windows_new: "covers_windows newMemoryStore"
  by (simp add: covers_windows_def newMemoryStore_def)

lemma covers_incrOne:
  assumes s: "covers_windows s" and e: "windowed_entry now e" and t: "0 \<le> now" "now \<le> ts"
  shows "covers_windows (snd (memoryStore_incrOne ts e s))"
  unfolding covers_windows_def
proof (intro allI impI)
  fix k i m w u x
  assume u: "0 \<le> u" and x: "ms_data (snd (memoryStore_incrOne ts e s)) (windowKey k i m w u) = Some x"
  obtain k' i' m' w' where e': "ci_key e = windowKey k' i' m' w' now" "ci_enforceTTL e = enforce_floor w'"
    using e by (auto simp: windowed_entry_def)
  let ?ttl = "clampTTL (ci_ttl e) (ci_enforceTTL e)"
  have old: "windowEnd u w \<le> me_expiry y" if "ms_data (maybe_sweep ts s) (windowKey k i m w u) = Some y" for y
    using s u sweep_subset [OF that] by (auto simp: covers_windows_def)
  show "windowEnd u w \<le> me_expiry x"
  proof (cases "windowKey k i m w u = ci_key e")
    case False
    with x have "ms_data (maybe_sweep ts s) (windowKey k i m w u) = Some x"
      by (simp add: memoryStore_incrOne_def applyIncr_def applySet_def Let_def split: if_splits)
    then show ?thesis by (rule old)
  next
    case True
    then have "windowKey k' i' m' w' now = windowKey k i m w u" using e'(1) by simp
    from windowKey_window [OF this t(1) u]
    have same: "windowEnd now w' = windowEnd u w" by (rule conjunct2)
    have "windowEnd now w' \<le> now + enforce_floor w'"
      using windowEnd_bounds(2) [of now w'] enforce_floor_covers [of w'] by linarith
    then have "windowEnd u w \<le> now + enforce_floor w'" by (simp only: same)
    also have "\<dots> \<le> ts + ?ttl" using t(2) clampTTL_ge_enforce [of "ci_enforceTTL e" "ci_ttl e"] e'(2) by simp
    finally have fresh: "windowEnd u w \<le> ts + ?ttl" .
    from x True have "me_expiry x = ts + ?ttl
        \<or> (\<exists>y. ms_data (maybe_sweep ts s) (windowKey k i m w u) = Some y \<and> me_expiry x = me_expiry y)"
      by (auto simp: memoryStore_incrOne_def applyIncr_def applySet_def Let_def
          split: if_splits option.splits)
    then show ?thesis using fresh old by force
  qed
qed

lemma covers_incrMulti:
  assumes "0 \<le> now" "now \<le> ts"
  shows "covers_windows s \<Longrightarrow> \<forall>e\<in>set es. windowed_entry now e \<Longrightarrow>
    covers_windows (snd (memoryStore_incrMulti ts es s))"
proof (induction es arbitrary: s)
  case (Cons e es)
  then have "covers_windows (snd (memoryStore_incrOne ts e s))"
    using covers_incrOne assms by auto
  from Cons.IH [OF this] Cons.prems show ?case by (auto split: prod.splits)
qed simp

lemma covers_view:
  assumes "covers_windows s" "0 \<le> now" "now \<le> t" "t < windowEnd now w"
  shows "ms_view s t (windowKey k i m w now) = ms_view s now (windowKey k i m w now)"
proof (cases "ms_data s (windowKey k i m w now)")
  case (Some e)
  with assms have "windowEnd now w \<le> me_expiry e" by (auto simp: covers_windows_def)
  with Some assms show ?thesis by (simp add: memoryStore_get_def)
qed (simp add: memoryStore_get_def)



end
