(* ===== verification/Gates.thy ===== *)
theory Gates
  imports Windows
begin

text \<open>
  The in-process gates that keep per-replica memory and log volume bounded: \<open>lastSeenGate\<close> and
  \<open>rejectionCounter\<close> (limits.go), \<open>authFailureTracker\<close> and \<open>logGate\<close> (auth.go).  Each is a record
  of the Go struct's fields without its mutex: the methods hold the lock from start to end, so one
  call is one step.  A nil Go map reads as the empty map; only \<open>lastSeenGate\<close> tells the two apart.

  Two of them share a two-generation map that rotates when a new key meets a full current
  generation; the locale \<open>two_generations\<close> states that contract and derives the memory bound
  once.
\<close>

subsection \<open>Two-generation maps\<close>

definition rotate_put :: "nat \<Rightarrow> 'k \<Rightarrow> 'v \<Rightarrow> ('k, 'v) gomap \<times> ('k, 'v) gomap \<Rightarrow>
    ('k, 'v) gomap \<times> ('k, 'v) gomap" where
  "rotate_put cap k v = (\<lambda>(cur, prev).
     if map_of cur k = None \<and> cap \<le> length cur then (AList.update k v [], cur)
     else (AList.update k v cur, prev))"

definition gens_ok :: "nat \<Rightarrow> ('k, 'v) gomap \<times> ('k, 'v) gomap \<Rightarrow> bool" where
  "gens_ok cap = (\<lambda>(cur, prev). gomap_wf cur \<and> gomap_wf prev \<and> length cur \<le> cap \<and> length prev \<le> cap)"

lemma gens_ok_rotate_put [inv_intros]:
  assumes "gens_ok cap g" and "0 < cap"
  shows "gens_ok cap (rotate_put cap k v g)"
proof -
  obtain cur prev where g: "g = (cur, prev)" by fastforce
  show ?thesis
  proof (cases "map_of cur k")
    case None
    with assms g show ?thesis
      by (auto simp: gens_ok_def rotate_put_def update_fresh gomap_wf_def map_of_eq_None_iff)
  next
    case (Some w)
    with assms g show ?thesis
      by (auto simp: gens_ok_def rotate_put_def length_update_known)
  qed
qed

locale two_generations =
  fixes cur :: "'s \<Rightarrow> ('k, 'v) gomap" and prev :: "'s \<Rightarrow> ('k, 'v) gomap"
    and cap :: nat and step :: "'i \<Rightarrow> 's \<Rightarrow> 's" and key :: "'i \<Rightarrow> 'k"
  assumes cap_pos: "0 < cap"
    and step_puts: "\<exists>v. (cur (step i s), prev (step i s)) = rotate_put cap (key i) v (cur s, prev s)"
begin

lemma step_ok: "gens_ok cap (cur s, prev s) \<Longrightarrow> gens_ok cap (cur (step i s), prev (step i s))"
  using step_puts [of i s] gens_ok_rotate_put cap_pos by metis

lemma run_ok: "gens_ok cap (cur s, prev s) \<Longrightarrow>
    gens_ok cap (cur (fold step is s), prev (fold step is s))"
  by (induction "is" arbitrary: s) (simp_all add: step_ok)

lemma run_bounded:
  assumes "gens_ok cap (cur s, prev s)"
  shows "length (cur (fold step is s)) + length (prev (fold step is s)) \<le> 2 * cap"
  using run_ok [OF assms, of "is"] by (auto simp: gens_ok_def)

text \<open>The key just touched is in the current generation, and a key of the current generation
  survives the next step in one of the two.\<close>

lemma touched: "map_of (cur (step i s)) (key i) \<noteq> None"
  using step_puts [of i s] by (auto simp: rotate_put_def split: if_splits)

lemma survives_one:
  "map_of (cur s) k \<noteq> None \<Longrightarrow>
     map_of (cur (step i s)) k \<noteq> None \<or> map_of (prev (step i s)) k \<noteq> None"
  using step_puts [of i s] by (auto simp: rotate_put_def split: if_splits)

end

subsection \<open>rejectionCounter\<close>

record rejectionScope =
  rs_kind :: string
  rs_id :: string

record rejectionCounter =
  rc_current :: "(rejectionScope, int) gomap"
  rc_previous :: "(rejectionScope, int) gomap"

record rejectionSnapshot =
  rj_kind :: string
  rj_id :: string
  rj_count :: int

definition rejectionCounterMapCap :: nat where "rejectionCounterMapCap = 2000"

definition map_count :: "('k, int) gomap \<Rightarrow> 'k \<Rightarrow> int" where
  "map_count m k = (case map_of m k of Some n \<Rightarrow> n | None \<Rightarrow> 0)"

definition rejectionCounter_increment :: "string \<times> string \<Rightarrow> rejectionCounter \<Rightarrow> rejectionCounter" where
  "rejectionCounter_increment = (\<lambda>(kind, id) c.
     let key = \<lparr>rs_kind = kind, rs_id = id\<rparr>;
         c1 = (if map_of (rc_current c) key = None \<and> rejectionCounterMapCap \<le> length (rc_current c)
               then \<lparr>rc_current = [], rc_previous = rc_current c\<rparr> else c)
     in c1\<lparr>rc_current := AList.update key (wrap64 (map_count (rc_current c1) key + 1)) (rc_current c1)\<rparr>)"

definition rejectionCounter_snapshot :: "rejectionCounter \<Rightarrow> rejectionSnapshot list" where
  "rejectionCounter_snapshot c =
     map (\<lambda>(s, n). \<lparr>rj_kind = rs_kind s, rj_id = rs_id s, rj_count = n\<rparr>) (rc_current c)"

definition pruneUserScopes :: "(string \<Rightarrow> bool) \<Rightarrow> rejectionCounter \<Rightarrow> rejectionCounter" where
  "pruneUserScopes keep c =
     (let kept = filter (\<lambda>(s, n). \<not> (rs_kind s = ''user'' \<and> \<not> keep (rs_id s)))
      in \<lparr>rc_current = kept (rc_current c), rc_previous = kept (rc_previous c)\<rparr>)"

interpretation rej: two_generations rc_current rc_previous rejectionCounterMapCap
  rejectionCounter_increment "\<lambda>(kind, id). \<lparr>rs_kind = kind, rs_id = id\<rparr>"
proof unfold_locales
  fix i :: "string \<times> string" and s :: rejectionCounter
  obtain kind id where i: "i = (kind, id)" by fastforce
  show "\<exists>v. (rc_current (rejectionCounter_increment i s), rc_previous (rejectionCounter_increment i s))
      = rotate_put rejectionCounterMapCap (case i of (kind, id) \<Rightarrow> \<lparr>rs_kind = kind, rs_id = id\<rparr>) v
          (rc_current s, rc_previous s)"
    by (auto simp: i rejectionCounter_increment_def rotate_put_def Let_def)
qed (simp add: rejectionCounterMapCap_def)

lemma prune_ok: "gens_ok cap (rc_current c, rc_previous c) \<Longrightarrow>
    gens_ok cap (rc_current (pruneUserScopes keep c), rc_previous (pruneUserScopes keep c))"
  unfolding gens_ok_def pruneUserScopes_def Let_def
  by (auto intro: order_trans [OF length_filter_le])

datatype rejectionOp = RIncrement string string | RPrune "string \<Rightarrow> bool"

fun rejection_step :: "rejectionOp \<Rightarrow> rejectionCounter \<Rightarrow> rejectionCounter" where
  "rejection_step (RIncrement kind sid) c = rejectionCounter_increment (kind, sid) c"
| "rejection_step (RPrune keep) c = pruneUserScopes keep c"

definition rejection_zero :: rejectionCounter where
  "rejection_zero = \<lparr>rc_current = [], rc_previous = []\<rparr>"

lemma rejection_run_ok:
  "gens_ok rejectionCounterMapCap (rc_current c, rc_previous c) \<Longrightarrow>
   gens_ok rejectionCounterMapCap (rc_current (fold rejection_step os c), rc_previous (fold rejection_step os c))"
proof (induction os arbitrary: c)
  case (Cons oo os)
  have "gens_ok rejectionCounterMapCap (rc_current (rejection_step oo c), rc_previous (rejection_step oo c))"
    using Cons.prems by (cases oo) (simp_all add: rej.step_ok prune_ok)
  from Cons.IH [OF this] show ?case by simp
qed simp

theorem rejectionCounter_bounded:
  "length (rc_current (fold rejection_step os rejection_zero))
     + length (rc_previous (fold rejection_step os rejection_zero)) \<le> 2 * rejectionCounterMapCap
   \<and> length (rejectionCounter_snapshot (fold rejection_step os rejection_zero)) \<le> rejectionCounterMapCap"
proof -
  have "gens_ok rejectionCounterMapCap (rc_current rejection_zero, rc_previous rejection_zero)"
    by (simp add: gens_ok_def rejection_zero_def)
  from rejection_run_ok [OF this, of os] show ?thesis
    by (auto simp: gens_ok_def rejectionCounter_snapshot_def)
qed

text \<open>Counts: an increment adds one to its own series and, unless it rotates, touches no other.\<close>

lemma increment_counts:
  assumes "map_of (rc_current c) \<lparr>rs_kind = kind, rs_id = sid\<rparr> \<noteq> None
      \<or> length (rc_current c) < rejectionCounterMapCap"
  shows "map_count (rc_current (rejectionCounter_increment (kind, sid) c)) s
    = (if s = \<lparr>rs_kind = kind, rs_id = sid\<rparr> then wrap64 (map_count (rc_current c) s + 1)
       else map_count (rc_current c) s)"
  using assms by (auto simp: rejectionCounter_increment_def map_count_def Let_def)

subsection \<open>authFailureTracker\<close>

record authFailureEntry =
  af_expiry :: gtime
  af_count :: int

record authFailureTracker =
  ft_current :: "(string, authFailureEntry) gomap"
  ft_previous :: "(string, authFailureEntry) gomap"

definition authFailureWindow :: duration where [dur_defs]: "authFailureWindow = minute"
definition authFailureLimit :: int where "authFailureLimit = 20"
definition authFailureMapCap :: nat where "authFailureMapCap = 50000"

definition newAuthFailureTracker :: authFailureTracker where
  "newAuthFailureTracker = \<lparr>ft_current = [], ft_previous = []\<rparr>"

definition live_entry :: "gtime \<Rightarrow> authFailureEntry option \<Rightarrow> int option" where
  "live_entry now e = (case e of
     Some e \<Rightarrow> if now < af_expiry e then Some (af_count e) else None | None \<Rightarrow> None)"

definition authFailureTracker_get :: "gtime \<Rightarrow> string \<Rightarrow> authFailureTracker \<Rightarrow> int" where
  "authFailureTracker_get now ip t =
     (case live_entry now (map_of (ft_current t) ip) of
        Some n \<Rightarrow> n
      | None \<Rightarrow> (case live_entry now (map_of (ft_previous t) ip) of Some n \<Rightarrow> n | None \<Rightarrow> 0))"

definition authFailureTracker_increment ::
    "gtime \<times> string \<Rightarrow> authFailureTracker \<Rightarrow> int \<times> authFailureTracker" where
  "authFailureTracker_increment = (\<lambda>(now, ip) t.
     case map_of (ft_current t) ip of
       Some e \<Rightarrow>
         if now < af_expiry e then
           (let n = wrap64 (af_count e + 1)
            in (n, t\<lparr>ft_current := AList.update ip (e\<lparr>af_count := n\<rparr>) (ft_current t)\<rparr>))
         else (1, t\<lparr>ft_current := AList.update ip
                      \<lparr>af_expiry = now + authFailureWindow, af_count = 1\<rparr> (ft_current t)\<rparr>)
     | None \<Rightarrow>
         let t1 = (if authFailureMapCap \<le> length (ft_current t)
                   then \<lparr>ft_current = [], ft_previous = ft_current t\<rparr> else t)
         in (1, t1\<lparr>ft_current := AList.update ip
                      \<lparr>af_expiry = now + authFailureWindow, af_count = 1\<rparr> (ft_current t1)\<rparr>))"

definition authThrottled :: "gtime \<Rightarrow> string \<Rightarrow> authFailureTracker \<Rightarrow> bool" where
  "authThrottled now ip t \<longleftrightarrow> authFailureLimit \<le> authFailureTracker_get now ip t"

interpretation fail: two_generations ft_current ft_previous authFailureMapCap
  "\<lambda>i t. snd (authFailureTracker_increment i t)" snd
proof unfold_locales
  fix i :: "gtime \<times> string" and s :: authFailureTracker
  obtain now ip where i: "i = (now, ip)" by fastforce
  show "\<exists>v. (ft_current (snd (authFailureTracker_increment i s)), ft_previous (snd (authFailureTracker_increment i s)))
      = rotate_put authFailureMapCap (snd i) v (ft_current s, ft_previous s)"
    by (auto simp: i authFailureTracker_increment_def rotate_put_def Let_def split: option.splits)
qed (simp add: authFailureMapCap_def)

theorem authFailureTracker_bounded:
  "length (ft_current (fold (\<lambda>i t. snd (authFailureTracker_increment i t)) is newAuthFailureTracker))
   + length (ft_previous (fold (\<lambda>i t. snd (authFailureTracker_increment i t)) is newAuthFailureTracker))
     \<le> 2 * authFailureMapCap"
  by (rule fail.run_bounded) (simp add: gens_ok_def newAuthFailureTracker_def)

text \<open>Failures of one source within one window: the counter holds exactly their number, as long as
  the tracker has seen no more events than one generation holds.\<close>

abbreviation record_failures :: "(gtime \<times> string) list \<Rightarrow> authFailureTracker" where
  "record_failures evs \<equiv> fold (\<lambda>i t. snd (authFailureTracker_increment i t)) evs newAuthFailureTracker"

lemma record_failures_length: "length (ft_current (record_failures evs)) \<le> length evs"
proof (induction evs rule: rev_induct)
  case (snoc e evs)
  let ?t = "record_failures evs"
  have "length (ft_current (snd (authFailureTracker_increment e ?t))) \<le> Suc (length (ft_current ?t))"
    using length_update_le [of "snd e" _ "ft_current ?t"]
    by (cases e) (auto simp: authFailureTracker_increment_def Let_def split: option.splits)
  with snoc show ?case by simp
qed (simp add: newAuthFailureTracker_def)

lemma record_failures_entry:
  assumes "\<forall>(t, x)\<in>set evs. x = ip \<longrightarrow> a \<le> t \<and> t < a + authFailureWindow"
    and "length evs \<le> authFailureMapCap"
  shows "case map_of (ft_current (record_failures evs)) ip of
      None \<Rightarrow> ip \<notin> snd ` set evs
    | Some e \<Rightarrow> a + authFailureWindow \<le> af_expiry e \<and> af_count e = int (count_list (map snd evs) ip)"
  using assms
proof (induction evs rule: rev_induct)
  case (snoc e evs)
  let ?t = "record_failures evs"
  obtain now x where e: "e = (now, x)" by fastforce
  have room: "length (ft_current ?t) < authFailureMapCap"
    using record_failures_length [of evs] snoc.prems(2) by simp
  have small: "in_int64 (int (count_list (map snd evs) ip) + 1)"
    using snoc.prems(2) count_le_length [of "map snd evs" ip]
    by (simp add: in_int64_def max_int64_def min_int64_def authFailureMapCap_def)
  from snoc.IH snoc.prems have ih: "case map_of (ft_current ?t) ip of
      None \<Rightarrow> ip \<notin> snd ` set evs
    | Some e \<Rightarrow> a + authFailureWindow \<le> af_expiry e \<and> af_count e = int (count_list (map snd evs) ip)"
    by auto
  show ?case
  proof (cases "x = ip")
    case True
    with snoc.prems e have "a \<le> now" "now < a + authFailureWindow" by auto
    with ih True e room small show ?thesis
      by (auto simp: authFailureTracker_increment_def Let_def count_list_0_iff image_iff split: option.splits)
  next
    case False
    with ih e room show ?thesis
      by (auto simp: authFailureTracker_increment_def Let_def split: option.splits)
  qed
qed (simp add: newAuthFailureTracker_def)

theorem throttle_counts_failures:
  assumes "\<forall>(t, x)\<in>set evs. x = ip \<longrightarrow> a \<le> t \<and> t < a + authFailureWindow"
    and "length evs \<le> authFailureMapCap" and "now < a + authFailureWindow"
  shows "authThrottled now ip (record_failures evs) \<longleftrightarrow> 20 \<le> count_list (map snd evs) ip"
proof -
  have prev: "ft_previous (record_failures evs) = []" if "length evs \<le> authFailureMapCap" for evs
    using that
  proof (induction evs rule: rev_induct)
    case (snoc e evs)
    with record_failures_length [of evs] show ?case
      by (cases e) (auto simp: authFailureTracker_increment_def Let_def split: option.splits)
  qed (simp add: newAuthFailureTracker_def)
  from record_failures_entry [OF assms(1,2)] prev [OF assms(2)] assms(3)
  show ?thesis
    by (auto simp: authThrottled_def authFailureTracker_get_def live_entry_def authFailureLimit_def
        count_list_0_iff image_iff split: option.splits)
qed

lemma count_list_replicate: "count_list (replicate n x) y = (if x = y then n else 0)"
  by (induction n) auto

theorem throttle_counts_failures_witness:
  "authThrottled 5 ''10.0.0.1'' (record_failures (replicate 20 (3, ''10.0.0.1'')))
   \<and> \<not> authThrottled 5 ''10.0.0.2'' (record_failures (replicate 20 (3, ''10.0.0.1'')))"
  using throttle_counts_failures [of "replicate 20 (3, ''10.0.0.1'')" "''10.0.0.1''" 0 5]
    throttle_counts_failures [of "replicate 20 (3, ''10.0.0.1'')" "''10.0.0.2''" 0 5]
  by (simp add: dur_defs authFailureMapCap_def count_list_replicate)

subsection \<open>logGate\<close>

record logGate =
  gate_lastLogAt :: gtime
  gate_suppressed :: int

definition authFailureLogEvery :: duration where [dur_defs]: "authFailureLogEvery = 30 * second"

definition shouldLog :: "gtime \<Rightarrow> logGate \<Rightarrow> (bool \<times> int) \<times> logGate" where
  "shouldLog now g =
     (if \<not> time_IsZero (gate_lastLogAt g) \<and> time_Sub now (gate_lastLogAt g) < authFailureLogEvery
      then ((False, 0), g\<lparr>gate_suppressed := wrap64 (gate_suppressed g + 1)\<rparr>)
      else ((True, gate_suppressed g), \<lparr>gate_lastLogAt = now, gate_suppressed = 0\<rparr>))"

definition logGate_zero :: logGate where
  "logGate_zero = \<lparr>gate_lastLogAt = zero_time, gate_suppressed = 0\<rparr>"

fun log_run :: "gtime list \<Rightarrow> logGate \<Rightarrow> (gtime \<times> int) list \<times> logGate" where
  "log_run [] g = ([], g)"
| "log_run (now # ts) g =
     (let ((log, n), g1) = shouldLog now g; (out, g2) = log_run ts g1
      in (if log then (now, n) # out else out, g2))"

lemma log_run_accounts:
  "0 \<le> gate_suppressed g \<Longrightarrow> gate_suppressed g + int (length ts) \<le> max_int64 \<Longrightarrow>
   log_run ts g = (out, g') \<Longrightarrow>
     int (length out) + sum_list (map snd out) + gate_suppressed g' = gate_suppressed g + int (length ts)"
proof (induction ts arbitrary: g out g')
  case (Cons now ts)
  obtain log n g1 where s: "shouldLog now g = ((log, n), g1)" by (metis surj_pair)
  obtain out1 g2 where r: "log_run ts g1 = (out1, g2)" by fastforce
  from s Cons.prems have g1: "gate_suppressed g1 = (if log then 0 else gate_suppressed g + 1)"
    "n = (if log then gate_suppressed g else 0)"
    by (auto simp: shouldLog_def in_int64_def min_int64_def split: if_splits)
  then have "0 \<le> gate_suppressed g1" "gate_suppressed g1 + int (length ts) \<le> max_int64"
    using Cons.prems by (auto split: if_splits)
  from Cons.IH [OF this r] g1 Cons.prems s r show ?case by (auto split: if_splits)
qed simp

definition spaced :: "duration \<Rightarrow> gtime list \<Rightarrow> bool" where
  "spaced d xs \<longleftrightarrow> (\<forall>i. Suc i < length xs \<longrightarrow> xs ! i + d \<le> xs ! Suc i)"

lemma spaced_Cons: "spaced d (x # xs) \<longleftrightarrow> spaced d xs \<and> (xs \<noteq> [] \<longrightarrow> x + d \<le> hd xs)"
  unfolding spaced_def by (cases xs) (auto simp: nth_Cons split: nat.splits)

lemma log_run_spaced:
  "zero_time < gate_lastLogAt g \<Longrightarrow> \<forall>t\<in>set ts. zero_time < t \<Longrightarrow> log_run ts g = (out, g') \<Longrightarrow>
     spaced authFailureLogEvery (gate_lastLogAt g # map fst out)"
proof (induction ts arbitrary: g out g')
  case (Cons now ts)
  obtain log n g1 where s: "shouldLog now g = ((log, n), g1)" by (metis surj_pair)
  obtain out1 g2 where r: "log_run ts g1 = (out1, g2)" by fastforce
  have lim: "(0::int) < authFailureLogEvery" "authFailureLogEvery \<le> max_int64"
    by (simp_all add: dur_defs max_int64_def)
  from s Cons.prems have g1: "gate_lastLogAt g1 = (if log then now else gate_lastLogAt g)"
    "log \<longrightarrow> gate_lastLogAt g + authFailureLogEvery \<le> now"
    using time_Sub_less [OF lim, of now "gate_lastLogAt g"]
    by (auto simp: shouldLog_def time_IsZero_def split: if_splits)
  moreover have "spaced authFailureLogEvery (gate_lastLogAt g1 # map fst out1)"
    using Cons.IH [OF _ _ r] Cons.prems g1 by (auto split: if_splits)
  ultimately show ?case using Cons.prems s r by (auto simp: spaced_Cons split: if_splits)
qed (simp add: spaced_def)

theorem logGate_lossless_and_spaced:
  assumes "log_run ts logGate_zero = (out, g)" and "\<forall>t\<in>set ts. zero_time < t"
    and "int (length ts) \<le> max_int64"
  shows "int (length out) + sum_list (map snd out) + gate_suppressed g = int (length ts)
    \<and> spaced authFailureLogEvery (map fst out)"
proof
  show "int (length out) + sum_list (map snd out) + gate_suppressed g = int (length ts)"
    using log_run_accounts [OF _ _ assms(1)] assms(3) by (simp add: logGate_zero_def)
  show "spaced authFailureLogEvery (map fst out)"
  proof (cases ts)
    case (Cons now rest)
    obtain out1 g1 where r: "log_run rest \<lparr>gate_lastLogAt = now, gate_suppressed = 0\<rparr> = (out1, g1)"
      by fastforce
    with assms(1) Cons have "out = (now, 0) # out1"
      by (auto simp: logGate_zero_def shouldLog_def time_IsZero_def)
    with log_run_spaced [OF _ _ r] assms(2) Cons show ?thesis by simp
  qed (use assms(1) in \<open>simp add: spaced_def\<close>)
qed

theorem logGate_lossless_and_spaced_witness:
  "log_run [0, 5, 10, 30000000000] logGate_zero
     = ([(0, 0), (30000000000, 2)], \<lparr>gate_lastLogAt = 30000000000, gate_suppressed = 0\<rparr>)
   \<and> spaced authFailureLogEvery [0, 30000000000]"
proof -
  have r: "log_run [0, 5, 10, 30000000000] logGate_zero
     = ([(0, 0), (30000000000, 2)], \<lparr>gate_lastLogAt = 30000000000, gate_suppressed = 0\<rparr>)"
    by code_simp
  from logGate_lossless_and_spaced [OF r] show ?thesis
    using r by (simp add: zero_time_def max_int64_def)
qed

subsection \<open>lastSeenGate\<close>

record lastSeenGate =
  ls_current :: "(string, int) gomap option"
  ls_previous :: "(string, int) gomap"
  ls_lastRotate :: gtime
  ls_capacity :: nat

definition lastSeenGateThrottle :: duration where [dur_defs]: "lastSeenGateThrottle = 60 * second"
definition lastSeenGateMapCapBase :: nat where "lastSeenGateMapCapBase = 4096"
definition lastSeenGateMapCapMax :: nat where "lastSeenGateMapCapMax = 65536"

definition lastSeenGate_zero :: lastSeenGate where
  "lastSeenGate_zero = \<lparr>ls_current = None, ls_previous = [], ls_lastRotate = zero_time, ls_capacity = 0\<rparr>"

definition gate_key :: "string \<Rightarrow> string \<Rightarrow> string" where
  "gate_key kind sid = kind @ [CHR 0x00] @ sid"

abbreviation ls_cur :: "lastSeenGate \<Rightarrow> (string, int) gomap" where
  "ls_cur g \<equiv> case ls_current g of Some m \<Rightarrow> m | None \<Rightarrow> []"

definition due :: "string \<Rightarrow> string \<Rightarrow> gtime \<Rightarrow> lastSeenGate \<Rightarrow> bool \<times> lastSeenGate" where
  "due kind sid now g0 =
     (let key = gate_key kind sid; nowUnix = time_Unix now;
          g = (case ls_current g0 of
                 None \<Rightarrow> g0\<lparr>ls_current := Some [], ls_capacity := lastSeenGateMapCapBase\<rparr> | Some _ \<Rightarrow> g0);
          throttle = lastSeenGateThrottle div second;
          write = (\<lambda>g. (True, g\<lparr>ls_current := Some (AList.update key nowUnix (ls_cur g))\<rparr>))
      in case map_of (ls_cur g) key of
           Some lst \<Rightarrow> if nowUnix - lst < throttle then (False, g) else write g
         | None \<Rightarrow>
           (case map_of (ls_previous g) key of
              Some lst \<Rightarrow>
                if nowUnix - lst < throttle
                then (False, g\<lparr>ls_current := Some (AList.update key lst (ls_cur g))\<rparr>)
                else write g
            | None \<Rightarrow>
                if ls_capacity g \<le> length (ls_cur g) then
                  if ls_capacity g < lastSeenGateMapCapMax \<and> \<not> time_IsZero (ls_lastRotate g)
                     \<and> time_Sub now (ls_lastRotate g) < lastSeenGateThrottle
                  then write (g\<lparr>ls_capacity := min (ls_capacity g * 2) lastSeenGateMapCapMax\<rparr>)
                  else write (g\<lparr>ls_previous := ls_cur g, ls_current := Some [], ls_lastRotate := now\<rparr>)
                else write g))"

text \<open>What the gate remembers: the Unix second of a scope's last write.\<close>

definition last_write :: "lastSeenGate \<Rightarrow> string \<Rightarrow> int option" where
  "last_write g k = (case map_of (ls_cur g) k of Some v \<Rightarrow> Some v | None \<Rightarrow> map_of (ls_previous g) k)"

definition write_due :: "int \<Rightarrow> int option \<Rightarrow> bool" where
  "write_due nowUnix lst = (case lst of None \<Rightarrow> True | Some l \<Rightarrow> 60 \<le> nowUnix - l)"

lemma throttle_seconds: "lastSeenGateThrottle div second = 60"
  by (simp add: dur_defs)

lemma due_result: "fst (due kind sid now g) = write_due (time_Unix now) (last_write g (gate_key kind sid))"
  by (auto simp: due_def Let_def throttle_seconds last_write_def write_due_def split: option.splits)

definition gate_ok :: "lastSeenGate \<Rightarrow> bool" where
  "gate_ok g \<longleftrightarrow> (case ls_current g of None \<Rightarrow> True | Some _ \<Rightarrow>
     lastSeenGateMapCapBase \<le> ls_capacity g \<and> ls_capacity g \<le> lastSeenGateMapCapMax)"

lemma gate_ok_zero [inv_intros]: "gate_ok lastSeenGate_zero"
  by (simp add: gate_ok_def lastSeenGate_zero_def)

lemma gate_ok_due [inv_intros]: "gate_ok g \<Longrightarrow> gate_ok (snd (due kind sid now g))"
  by (auto simp: due_def gate_ok_def Let_def lastSeenGateMapCapBase_def lastSeenGateMapCapMax_def
      split: option.splits)

lemma due_current: "ls_current (snd (due kind sid now g)) \<noteq> None"
  by (auto simp: due_def Let_def split: option.splits)

lemma due_moves:
  assumes "ls_current g = Some m" and "g' = snd (due kind sid now g)"
  shows "g' = g \<or> (\<exists>v. g' = g\<lparr>ls_current := Some (AList.update (gate_key kind sid) v m)\<rparr>)
    \<or> (ls_capacity g \<le> length m \<and>
        ((\<exists>v c. g' = g\<lparr>ls_capacity := c, ls_current := Some (AList.update (gate_key kind sid) v m)\<rparr>)
         \<or> (\<exists>v. g' = g\<lparr>ls_previous := m, ls_lastRotate := now, ls_current := Some [(gate_key kind sid, v)]\<rparr>)))"
proof -
  have "g' = snd (due kind sid now g)" by (rule assms(2))
  then show ?thesis
    unfolding due_def Let_def assms(1) option.case
    by (cases "map_of m (gate_key kind sid)"; cases "map_of (ls_previous g) (gate_key kind sid)")
      (auto simp: assms(1) split: if_splits)
qed

lemma due_keeps_current:
  assumes "map_of (ls_cur g) k = Some v" "k \<noteq> gate_key kind sid" "g' = snd (due kind sid now g)"
  shows "map_of (ls_cur g') k = Some v \<or> (map_of (ls_previous g') k = Some v \<and> length (ls_cur g') \<le> 1
      \<and> map_of (ls_cur g') k = None)"
proof -
  from assms(1) obtain m where m: "ls_current g = Some m" by (cases "ls_current g") auto
  from due_moves [OF m assms(3)] assms(1,2) m show ?thesis by (elim disjE conjE exE) simp_all
qed

lemma due_keeps_previous:
  assumes "map_of (ls_previous g) k = Some v" "map_of (ls_cur g) k = None" "k \<noteq> gate_key kind sid"
    "length (ls_cur g) < ls_capacity g" "ls_current g \<noteq> None" "g' = snd (due kind sid now g)"
  shows "map_of (ls_previous g') k = Some v \<and> map_of (ls_cur g') k = None
    \<and> length (ls_cur g') \<le> Suc (length (ls_cur g))"
proof -
  from assms(5) obtain m where m: "ls_current g = Some m" by auto
  from due_moves [OF m assms(6)] assms(1-4) m show ?thesis
    by (elim disjE conjE exE) (simp_all add: length_update_le)
qed

abbreviation due_run :: "(string \<times> string \<times> gtime) list \<Rightarrow> lastSeenGate \<Rightarrow> lastSeenGate" where
  "due_run calls g \<equiv> fold (\<lambda>(kind, sid, t) g. snd (due kind sid t g)) calls g"

lemma due_run_remembers:
  assumes "gate_ok g" and "map_of (ls_cur g) k = Some v"
    and "\<forall>(kind, sid, t)\<in>set calls. gate_key kind sid \<noteq> k" and "length calls \<le> lastSeenGateMapCapBase"
  shows "gate_ok (due_run calls g) \<and> (map_of (ls_cur (due_run calls g)) k = Some v
    \<or> (map_of (ls_previous (due_run calls g)) k = Some v \<and> map_of (ls_cur (due_run calls g)) k = None
       \<and> length (ls_cur (due_run calls g)) \<le> length calls \<and> ls_current (due_run calls g) \<noteq> None))"
  using assms(3,4)
proof (induction calls rule: rev_induct)
  case (snoc c calls)
  obtain kind sid t where c: "c = (kind, sid, t)" by (cases c) auto
  let ?g = "due_run calls g" and ?g' = "snd (due kind sid t (due_run calls g))"
  from snoc c have ih: "gate_ok ?g" "map_of (ls_cur ?g) k = Some v
    \<or> (map_of (ls_previous ?g) k = Some v \<and> map_of (ls_cur ?g) k = None
       \<and> length (ls_cur ?g) \<le> length calls \<and> ls_current ?g \<noteq> None)" and k: "k \<noteq> gate_key kind sid"
    by auto
  have ok: "gate_ok ?g'" using ih(1) by (rule gate_ok_due)
  note some = due_current [of kind sid t ?g]
  from ih(2) show ?case
  proof
    assume "map_of (ls_cur ?g) k = Some v"
    from due_keeps_current [OF this k refl, of t] ok some c show ?thesis by auto
  next
    assume p: "map_of (ls_previous ?g) k = Some v \<and> map_of (ls_cur ?g) k = None
       \<and> length (ls_cur ?g) \<le> length calls \<and> ls_current ?g \<noteq> None"
    then have "length (ls_cur ?g) < ls_capacity ?g"
      using ih(1) snoc.prems(2) by (auto simp: gate_ok_def split: option.splits)
    from due_keeps_previous [OF _ _ k this _ refl, of v t] p ok some c show ?thesis by auto
  qed
qed (use assms in simp)

theorem lastSeen_throttled:
  assumes "gate_ok g" and "due kind sid t0 g = (True, g')" and "time_Unix t1 - time_Unix t0 < 60"
    and "\<forall>(kind', sid', t)\<in>set calls. gate_key kind' sid' \<noteq> gate_key kind sid"
    and "length calls \<le> lastSeenGateMapCapBase"
  shows "\<not> fst (due kind sid t1 (due_run calls g'))"
proof -
  have cur: "map_of (ls_cur g') (gate_key kind sid) = Some (time_Unix t0)"
    using assms(2) by (auto simp: due_def Let_def split: option.splits if_splits)
  have "gate_ok g'" using gate_ok_due [OF assms(1), of kind sid t0] assms(2) by simp
  from due_run_remembers [OF this cur assms(4,5)]
  have "last_write (due_run calls g') (gate_key kind sid) = Some (time_Unix t0)"
    by (auto simp: last_write_def)
  with assms(3) show ?thesis by (simp add: due_result write_due_def)
qed

theorem lastSeen_throttled_witness:
  "\<not> fst (due ''user'' ''ann'' 59000000000 (due_run [(''group'', ''g'', 7)] (snd (due ''user'' ''ann'' 0 lastSeenGate_zero))))"
proof -
  have d: "due ''user'' ''ann'' 0 lastSeenGate_zero = (True, snd (due ''user'' ''ann'' 0 lastSeenGate_zero))"
    by (simp add: prod_eq_iff due_result write_due_def last_write_def lastSeenGate_zero_def)
  show ?thesis
    by (rule lastSeen_throttled [OF gate_ok_zero d])
      (simp_all add: time_Unix_def gate_key_def lastSeenGateMapCapBase_def)
qed

text \<open>Looking up scopes of the previous generation moves them into the current one without any
  check of the capacity, so the current generation can outgrow it.\<close>

lemma due_carry:
  assumes "map_of (ls_previous g) (gate_key kind sid) = Some v" "map_of (ls_cur g) (gate_key kind sid) = None"
    "time_Unix now - v < 60" "ls_current g \<noteq> None"
  shows "due kind sid now g = (False, g\<lparr>ls_current := Some (AList.update (gate_key kind sid) v (ls_cur g))\<rparr>)"
  using assms by (auto simp: due_def Let_def throttle_seconds)

theorem lastSeen_carry_ignores_capacity:
  assumes "distinct (map (gate_key kind) sids)" and "ls_current g \<noteq> None"
    and "\<forall>s\<in>set sids. map_of (ls_cur g) (gate_key kind s) = None"
    and "\<forall>s\<in>set sids. \<exists>v. map_of (ls_previous g) (gate_key kind s) = Some v \<and> time_Unix now - v < 60"
  shows "length (ls_cur (due_run (map (\<lambda>s. (kind, s, now)) sids) g)) = length (ls_cur g) + length sids"
  using assms
proof (induction sids arbitrary: g)
  case (Cons s sids)
  then obtain v where v: "map_of (ls_previous g) (gate_key kind s) = Some v" "time_Unix now - v < 60"
    and fresh: "map_of (ls_cur g) (gate_key kind s) = None" by auto
  let ?g = "g\<lparr>ls_current := Some (AList.update (gate_key kind s) v (ls_cur g))\<rparr>"
  have d: "due kind s now g = (False, ?g)" using due_carry v fresh Cons.prems(2) by blast
  have "length (ls_cur (due_run (map (\<lambda>s. (kind, s, now)) sids) ?g)) = length (ls_cur ?g) + length sids"
    using Cons.prems by (intro Cons.IH) (auto simp: image_iff)
  with d fresh show ?case by (simp add: update_fresh)
qed simp

theorem lastSeen_carry_ignores_capacity_witness:
  "length (ls_cur (due_run [(''user'', ''a'', 0), (''user'', ''b'', 0)]
     \<lparr>ls_current = Some [(gate_key ''user'' ''c'', 0)],
      ls_previous = [(gate_key ''user'' ''a'', 0), (gate_key ''user'' ''b'', 0)],
      ls_lastRotate = 0, ls_capacity = 1\<rparr>)) = 3"
  using lastSeen_carry_ignores_capacity [of "''user''" "[''a'', ''b'']"
     "\<lparr>ls_current = Some [(gate_key ''user'' ''c'', 0)],
      ls_previous = [(gate_key ''user'' ''a'', 0), (gate_key ''user'' ''b'', 0)],
      ls_lastRotate = 0, ls_capacity = 1\<rparr>" 0]
  by (simp add: gate_key_def time_Unix_def)

end
