(* ===== verification/Floats.thy ===== *)
theory Floats
  imports Prelude Complex_Main
begin

text \<open>
  The IEEE double arithmetic the money conversions use: a finite double is the rational it denotes
  (the two zeros are not told apart), \<open>fl\<close> rounds to the nearest double, ties to even, and
  overflows to an infinity.  \<open>usdToMicros\<close> (limits.go) multiplies by a million, rounds half away
  from zero and converts to \<open>int64\<close>; the conversion of a value outside the range is
  implementation-defined in Go and is taken to be \<open>math.MinInt64\<close>, what amd64 produces.
\<close>

datatype float64 = NaN | PInf | NInf | Fin rat

fun bitlen :: "nat \<Rightarrow> nat" where
  "bitlen n = (if n = 0 then 0 else Suc (bitlen (n div 2)))"

declare bitlen.simps [simp del]

definition pow2 :: "int \<Rightarrow> rat" where
  "pow2 e = (if 0 \<le> e then 2 ^ nat e else 1 / 2 ^ nat (- e))"

definition round_half_even :: "rat \<Rightarrow> int" where
  "round_half_even q =
     (let f = floor q; r = q - of_int f
      in if r < 1 / 2 then f else if 1 / 2 < r then f + 1 else if even f then f else f + 1)"

text \<open>The exponent of the last mantissa bit of a positive value: 53 significant bits, at least
  the subnormal exponent.\<close>

definition ulp_exp :: "rat \<Rightarrow> int" where
  "ulp_exp q =
     (let (n, d) = quotient_of q;
          e = int (bitlen (nat n)) - int (bitlen (nat d)) - 53
      in max (if q < 2 ^ 53 * pow2 e then e else e + 1) (- 1074))"

definition fl :: "rat \<Rightarrow> float64" where
  "fl q =
     (if q = 0 then Fin 0
      else let e = ulp_exp \<bar>q\<bar>; v = of_int (round_half_even (\<bar>q\<bar> / pow2 e)) * pow2 e
           in if 2 ^ 1024 \<le> v then (if 0 < q then PInf else NInf)
              else Fin (if 0 < q then v else - v))"

fun fmul :: "float64 \<Rightarrow> float64 \<Rightarrow> float64" where
  "fmul NaN y = NaN"
| "fmul x NaN = NaN"
| "fmul (Fin x) (Fin y) = fl (x * y)"
| "fmul PInf (Fin y) = (if y = 0 then NaN else if 0 < y then PInf else NInf)"
| "fmul NInf (Fin y) = (if y = 0 then NaN else if 0 < y then NInf else PInf)"
| "fmul (Fin x) PInf = (if x = 0 then NaN else if 0 < x then PInf else NInf)"
| "fmul (Fin x) NInf = (if x = 0 then NaN else if 0 < x then NInf else PInf)"
| "fmul PInf PInf = PInf" | "fmul PInf NInf = NInf" | "fmul NInf PInf = NInf" | "fmul NInf NInf = PInf"

definition round_away :: "rat \<Rightarrow> int" where
  "round_away q = (if q < 0 then - floor (- q + 1 / 2) else floor (q + 1 / 2))"

fun math_Round :: "float64 \<Rightarrow> float64" where
  "math_Round (Fin q) = Fin (of_int (round_away q))"
| "math_Round x = x"

fun float_to_int64 :: "float64 \<Rightarrow> int" where
  "float_to_int64 (Fin q) =
     (let t = (if q < 0 then - floor (- q) else floor q) in if in_int64 t then t else min_int64)"
| "float_to_int64 _ = min_int64"

fun float_less :: "float64 \<Rightarrow> float64 \<Rightarrow> bool" where
  "float_less (Fin x) (Fin y) = (x < y)"
| "float_less NInf (Fin y) = True"
| "float_less NInf PInf = True"
| "float_less (Fin x) PInf = True"
| "float_less _ _ = False"

definition math_IsNaN :: "float64 \<Rightarrow> bool" where "math_IsNaN x \<longleftrightarrow> x = NaN"
definition math_IsInf :: "float64 \<Rightarrow> bool" where "math_IsInf x \<longleftrightarrow> x = PInf \<or> x = NInf"

definition usdToMicroFactor :: rat where "usdToMicroFactor = 1000000"

definition usdToMicros :: "float64 \<Rightarrow> int" where
  "usdToMicros usd = float_to_int64 (math_Round (fmul usd (Fin usdToMicroFactor)))"

subsection \<open>Rounding error\<close>

lemma bitlen_less: "n < 2 ^ bitlen n"
proof (induction n rule: bitlen.induct)
  case (1 n)
  then show ?case by (cases "n = 0") (auto simp: bitlen.simps [of n])
qed

lemma bitlen_ge: "0 < n \<Longrightarrow> 2 ^ bitlen n \<le> 2 * n"
proof (induction n rule: bitlen.induct)
  case (1 n)
  show ?case
  proof (cases "n div 2 = 0")
    case True
    with 1(2) have "n = 1" by auto
    then show ?thesis by (simp add: bitlen.simps)
  next
    case False
    with 1 have "2 ^ bitlen (n div 2) \<le> 2 * (n div 2)" by auto
    with 1(2) show ?thesis by (auto simp: bitlen.simps [of n])
  qed
qed

lemma pow2_pos [simp]: "0 < pow2 e"
  by (simp add: pow2_def)

lemma pow2_diff: "pow2 (int a - int b) = 2 ^ a / 2 ^ b"
proof (cases "b \<le> a")
  case True
  then have "nat (int a - int b) = a - b" by simp
  with True show ?thesis by (simp add: pow2_def power_diff)
next
  case False
  then have "nat (- (int a - int b)) = b - a" by simp
  with False show ?thesis by (simp add: pow2_def power_diff)
qed

lemma pow2_succ: "pow2 (e + 1) = 2 * pow2 e"
proof -
  obtain a b where e: "e = int a - int b" by (metis int_diff_cases)
  have "e + 1 = int (Suc a) - int b" using e by simp
  then have "pow2 (e + 1) = 2 ^ Suc a / 2 ^ b" by (simp only: pow2_diff)
  then show ?thesis using pow2_diff [of a b] e by simp
qed

lemma round_half_even_error: "\<bar>of_int (round_half_even q) - q\<bar> \<le> 1 / 2"
proof -
  have "of_int \<lfloor>q\<rfloor> \<le> q" "q < of_int \<lfloor>q\<rfloor> + 1" by linarith+
  then show ?thesis by (auto simp: round_half_even_def Let_def abs_le_iff)
qed

lemma ulp_exp_lower:
  assumes "0 < q" and "1 / 2 ^ 1000 \<le> q"
  shows "2 ^ 52 * pow2 (ulp_exp q) \<le> q"
proof -
  obtain n d where nd: "quotient_of q = (n, d)" by fastforce
  have d: "0 < d" using nd by (rule quotient_of_denom_pos)
  have q: "q = of_int n / of_int d" using nd by (rule quotient_of_div)
  have n: "0 < n" using assms(1) d q by (simp add: zero_less_divide_iff)
  let ?a = "bitlen (nat n)" and ?b = "bitlen (nat d)"
  let ?e = "int ?a - int ?b - 53"
  have "(of_nat (2 ^ ?a) :: rat) \<le> of_nat (2 * nat n)" using bitlen_ge [of "nat n"] n by (simp only: of_nat_le_iff zero_less_nat_eq)
  then have a: "2 ^ ?a \<le> 2 * (of_int n :: rat)" using n by simp
  have "(of_nat (nat d) :: rat) < of_nat (2 ^ ?b)" using bitlen_less [of "nat d"] by (simp only: of_nat_less_iff)
  then have b: "(of_int d :: rat) < 2 ^ ?b" using d by simp
  have "(2 ^ ?a / 2 ^ ?b :: rat) \<le> 2 * of_int n / of_int d"
    using a b d n by (intro frac_le) auto
  then have ab: "pow2 (int ?a - int ?b) \<le> 2 * q" using pow2_diff q by simp
  have e53: "2 ^ 53 * pow2 ?e = pow2 (int ?a - int ?b)"
    using pow2_diff [of ?a "?b + 53"] pow2_diff [of ?a ?b] by (simp add: algebra_simps power_add)
  have low: "2 ^ 52 * pow2 (if q < 2 ^ 53 * pow2 ?e then ?e else ?e + 1) \<le> q"
    using ab e53 pow2_succ [of ?e] by (auto simp: not_less)
  have "2 ^ 52 * pow2 (- 1074) \<le> (1 / 2 ^ 1000 :: rat)"
    using pow2_diff [of 0 1074] by (simp add: field_simps flip: power_add)
  then have sub: "2 ^ 52 * pow2 (- 1074) \<le> q" using assms(2) by linarith
  show ?thesis using low sub nd by (auto simp: ulp_exp_def max_def Let_def)
qed

lemma fl_pos:
  assumes "1 / 2 ^ 1000 \<le> q" and "q \<le> 2 ^ 1000"
  obtains v where "fl q = Fin v" and "\<bar>v - q\<bar> \<le> q / 2 ^ 53"
proof -
  have q: "0 < q" using assms(1) by (rule less_le_trans [rotated]) simp
  let ?e = "ulp_exp q" let ?v = "of_int (round_half_even (q / pow2 ?e)) * pow2 ?e"
  have "\<bar>of_int (round_half_even (q / pow2 ?e)) - q / pow2 ?e\<bar> * pow2 ?e \<le> 1 / 2 * pow2 ?e"
    by (intro mult_right_mono round_half_even_error less_imp_le pow2_pos)
  also have "\<bar>of_int (round_half_even (q / pow2 ?e)) - q / pow2 ?e\<bar> * pow2 ?e = \<bar>?v - q\<bar>"
  proof -
    have "\<bar>of_int (round_half_even (q / pow2 ?e)) - q / pow2 ?e\<bar> * pow2 ?e
        = \<bar>(of_int (round_half_even (q / pow2 ?e)) - q / pow2 ?e) * pow2 ?e\<bar>"
      using abs_of_pos [OF pow2_pos [of ?e]] by (simp add: abs_mult)
    also have "(of_int (round_half_even (q / pow2 ?e)) - q / pow2 ?e) * pow2 ?e = ?v - q"
      using less_imp_neq [OF pow2_pos [of ?e]] by (simp add: left_diff_distrib)
    finally show ?thesis .
  qed
  finally have err: "\<bar>?v - q\<bar> \<le> pow2 ?e / 2" by simp
  have e2: "pow2 ?e / 2 \<le> q / 2 ^ 53" using ulp_exp_lower [OF q assms(1)] by simp
  have "?v \<le> q + q / 2 ^ 53" using err e2 by linarith
  also have "\<dots> \<le> 2 * q" using q by simp
  also have "\<dots> \<le> 2 ^ 1001" using assms(2) by simp
  also have "\<dots> < (2 ^ 1024 :: rat)" by (rule power_strict_increasing) simp_all
  finally have "?v < 2 ^ 1024" .
  with q have "fl q = Fin ?v" by (simp add: fl_def Let_def)
  then show ?thesis using that err e2 by fastforce
qed

lemma round_away_near:
  assumes "\<bar>q - of_int k\<bar> < 1 / 2" and "0 \<le> k"
  shows "round_away q = k"
proof (cases "q < 0")
  case True
  with assms have "k = 0" "- 1 / 2 < q" by (auto simp: abs_less_iff) 
  with True show ?thesis by (simp add: round_away_def floor_eq_iff)
next
  case False
  have "q - of_int k < 1 / 2" "- (q - of_int k) < 1 / 2" using assms(1) by (simp_all only: abs_less_iff)
  then have "of_int k \<le> q + 1 / 2" "q + 1 / 2 < of_int k + 1" by linarith+
  with False show ?thesis by (simp add: round_away_def floor_eq_iff)
qed

lemma whole_micros_exact:
  assumes "0 \<le> k" and "k < 2 ^ 50"
  shows "usdToMicros (fl (of_int k / 1000000)) = k"
proof (cases "k = 0")
  case True
  have "\<lfloor>1 / 2 :: rat\<rfloor> = 0" by (simp add: floor_eq_iff)
  with True show ?thesis by (simp add: usdToMicros_def fl_def round_away_def)
next
  case False
  let ?q = "of_int k / 1000000 :: rat"
  have k: "(1 :: rat) \<le> of_int k" "(of_int k :: rat) < 2 ^ 50"
    using assms False of_int_less_iff [of k "2 ^ 50", where 'a = rat] by simp_all
  have tiny: "(1 / 2 ^ 1000 :: rat) \<le> 1 / 2 ^ 20" by (intro divide_left_mono power_increasing) simp_all
  have huge: "(2 ^ 50 :: rat) \<le> 2 ^ 1000 / 2 ^ 20" by (simp add: field_simps flip: power_add)
  have "1 / 2 ^ 1000 \<le> ?q" "?q \<le> 2 ^ 1000" using tiny huge k by simp_all
  then obtain x where x: "fl ?q = Fin x" "\<bar>x - ?q\<bar> \<le> ?q / 2 ^ 53" by (rule fl_pos)
  have "x - ?q \<le> ?q / 2 ^ 53" "- (x - ?q) \<le> ?q / 2 ^ 53" using x(2) by (simp_all only: abs_le_iff)
  then have x1: "x * 1000000 - of_int k \<le> of_int k / 2 ^ 53" "of_int k - x * 1000000 \<le> of_int k / 2 ^ 53"
    by (simp_all add: field_simps)
  have "1 / 2 ^ 1000 \<le> x * 1000000" "x * 1000000 \<le> 2 ^ 1000"
    using tiny huge k x1 by simp_all
  then obtain y where y: "fl (x * 1000000) = Fin y" "\<bar>y - x * 1000000\<bar> \<le> x * 1000000 / 2 ^ 53" by (rule fl_pos)
  have "y - x * 1000000 \<le> x * 1000000 / 2 ^ 53" "- (y - x * 1000000) \<le> x * 1000000 / 2 ^ 53"
    using y(2) by (simp_all only: abs_le_iff)
  then have "y - of_int k < 1 / 2" "- (y - of_int k) < 1 / 2" using x1 k by simp_all
  then have "\<bar>y - of_int k\<bar> < 1 / 2" by (simp only: abs_less_iff)
  then have "round_away y = k" using assms(1) by (rule round_away_near)
  moreover have "in_int64 k" using assms by (simp add: in_int64_def min_int64_def max_int64_def)
  ultimately show ?thesis using x(1) y(1) assms(1) by (simp add: usdToMicros_def usdToMicroFactor_def)
qed

theorem usdToMicros_exact:
  assumes "0 \<le> k" and "k < 2 ^ 50"
  shows "usdToMicros (fl (of_int k / 1000000)) = k"
  using assms by (rule whole_micros_exact)

theorem usdToMicros_exact_witness: "usdToMicros (fl (2500000 / 1000000)) = 2500000"
  using usdToMicros_exact [of 2500000] by simp

subsection \<open>LimitsConfig\<close>

record LimitsConfig =
  RequestsPerMinute :: int
  RequestsPerDay :: int
  TokensPerDay :: int
  TokensPerMonth :: int
  CostPerDayUSD :: float64
  CostPerMonthUSD :: float64

datatype limitsError = NegativeCount string int | CostNotFinite string float64 | NegativeCost string float64

definition check_count :: "string \<times> int \<Rightarrow> limitsError option" where
  "check_count = (\<lambda>(name, v). if v < 0 then Some (NegativeCount name v) else None)"

definition check_cost :: "string \<times> float64 \<Rightarrow> limitsError option" where
  "check_cost = (\<lambda>(name, v).
     if math_IsNaN v \<or> math_IsInf v then Some (CostNotFinite name v)
     else if float_less v (Fin 0) then Some (NegativeCost name v) else None)"

definition LimitsConfig_validate :: "LimitsConfig option \<Rightarrow> limitsError option" where
  "LimitsConfig_validate lc = (case lc of None \<Rightarrow> None | Some lc \<Rightarrow>
     (case first_some check_count
        [(''requestsPerMinute'', RequestsPerMinute lc), (''requestsPerDay'', RequestsPerDay lc),
         (''tokensPerDay'', TokensPerDay lc), (''tokensPerMonth'', TokensPerMonth lc)] of
        Some err \<Rightarrow> Some err
      | None \<Rightarrow> first_some check_cost
          [(''costPerDayUSD'', CostPerDayUSD lc), (''costPerMonthUSD'', CostPerMonthUSD lc)]))"

definition no_limits :: LimitsConfig where
  "no_limits = \<lparr>RequestsPerMinute = 0, RequestsPerDay = 0, TokensPerDay = 0, TokensPerMonth = 0,
     CostPerDayUSD = Fin 0, CostPerMonthUSD = Fin 0\<rparr>"

lemma validate_ok_iff:
  "LimitsConfig_validate (Some lc) = None \<longleftrightarrow>
     0 \<le> RequestsPerMinute lc \<and> 0 \<le> RequestsPerDay lc \<and> 0 \<le> TokensPerDay lc \<and> 0 \<le> TokensPerMonth lc
     \<and> (\<exists>d. CostPerDayUSD lc = Fin d \<and> 0 \<le> d) \<and> (\<exists>m. CostPerMonthUSD lc = Fin m \<and> 0 \<le> m)"
  by (cases "CostPerDayUSD lc"; cases "CostPerMonthUSD lc")
    (auto simp: LimitsConfig_validate_def check_count_def check_cost_def math_IsNaN_def math_IsInf_def
      split: option.splits)

text \<open>A finite budget from ten trillion dollars on passes validation and then converts to the
  smallest \<open>int64\<close>, which the limiter reads as no budget at all.\<close>

lemma usdToMicros_huge:
  assumes "10 ^ 13 \<le> d" and "d \<le> 2 ^ 900"
  shows "usdToMicros (Fin d) = min_int64"
proof -
  have tiny: "(1 / 2 ^ 1000 :: rat) \<le> 1" by (simp add: divide_le_eq_1)
  have huge: "(2 ^ 900 * 1000000 :: rat) \<le> 2 ^ 1000" by (simp flip: power_add)
  have "1 / 2 ^ 1000 \<le> d * 1000000" "d * 1000000 \<le> 2 ^ 1000" using assms tiny huge by simp_all
  then obtain y where y: "fl (d * 1000000) = Fin y" "\<bar>y - d * 1000000\<bar> \<le> d * 1000000 / 2 ^ 53" by (rule fl_pos)
  have "- (y - d * 1000000) \<le> d * 1000000 / 2 ^ 53" using y(2) by (simp only: abs_le_iff)
  then have big: "9999999999999999999 - 1000000 \<le> y" using assms(1) by simp
  then have "9999999999999999999 - 1000000 \<le> round_away y" by (simp add: round_away_def le_floor_iff)
  then have "\<not> in_int64 (round_away y)" "\<not> round_away y < 0" by (simp_all add: in_int64_def max_int64_def)
  then show ?thesis using y(1) by (simp add: usdToMicros_def usdToMicroFactor_def)
qed

theorem huge_budget_is_disabled:
  assumes "10 ^ 13 \<le> d" and "d \<le> 2 ^ 900"
  shows "LimitsConfig_validate (Some (no_limits\<lparr>CostPerDayUSD := Fin d\<rparr>)) = None
   \<and> usdToMicros (Fin d) = min_int64"
proof
  have "0 \<le> d" using assms(1) by (rule order_trans [rotated]) simp
  then show "LimitsConfig_validate (Some (no_limits\<lparr>CostPerDayUSD := Fin d\<rparr>)) = None"
    by (simp add: validate_ok_iff no_limits_def)
  show "usdToMicros (Fin d) = min_int64" using assms by (rule usdToMicros_huge)
qed

theorem huge_budget_is_disabled_witness: "usdToMicros (Fin (10 ^ 13)) \<le> 0"
proof -
  have "(10 ^ 13 :: rat) \<le> 2 ^ 44" by simp
  also have "\<dots> \<le> 2 ^ 900" by (rule power_increasing) simp_all
  finally show ?thesis using huge_budget_is_disabled [of "10 ^ 13"] by (simp add: min_int64_def)
qed

end
