(* ===== verification/Limiter.thy ===== *)
theory Limiter
  imports CounterStore Gates Floats
begin

text \<open>
  The limiter (limits.go): admission control over the user, group, model and total scopes.

  \<open>limiter\<close> holds the Go struct's state.  A configured backend is a parameter: its operations
  (\<open>counterStoreOps\<close>) over an abstract state, each of which may fail with an error; \<open>None\<close> is the nil
  store, where the in-process \<open>memoryStore\<close> serves every call.  A failing backend opens a five-second
  latch, and the fail-open/fail-closed policy decides what a caller sees.  \<open>spawn\<close> is modelled by the
  list of batches waiting in a goroutine; a background batch runs as a step of its own.

  Clock readings are arguments: \<open>now\<close> is the limiter's own reading, \<open>ts\<close> the reading of the store
  call (\<open>ts2\<close> of the second one).  A violation message is kept as the arguments of its format.
\<close>

subsection \<open>Data\<close>

record limitScope =
  sc_limits :: "LimitsConfig option"
  sc_kind :: string
  sc_id :: string

datatype eventKind = EvRateLimit | EvBudget | EvStoreDown

datatype violationMessage =
    StoreUnavailable
  | ExceededLimit string string string int
  | ExceededBudget string string string

record limitViolation =
  lv_message :: violationMessage
  lv_kind :: eventKind
  lv_retryAfter :: int
  lv_storeDown :: bool

record 's counterStoreOps =
  op_getMulti :: "gtime \<Rightarrow> string list \<Rightarrow> 's \<Rightarrow> (string + int list) \<times> 's"
  op_incrMulti :: "gtime \<Rightarrow> counterIncr list \<Rightarrow> 's \<Rightarrow> (string + int list) \<times> 's"
  op_incrAndGetMulti :: "gtime \<Rightarrow> counterIncr list \<Rightarrow> string list \<Rightarrow> 's \<Rightarrow> (string + int list \<times> int list) \<times> 's"

record 's limiter =
  lim_lastStoreFailure :: gtime
  lim_lastLogAt :: gtime
  lim_store :: "('s counterStoreOps \<times> 's) option"
  lim_lastSeen :: lastSeenGate
  lim_fallback :: memoryStore
  lim_spawned :: "counterIncr list list"
  lim_rejections :: rejectionCounter
  lim_lastErrMsg :: string
  lim_failOpen :: bool
  lim_statsAdmin :: bool
  lim_statsUserModel :: bool
  lim_statsLatency :: bool
  lim_log :: "string list"

definition storeErrorLogEvery :: duration where [dur_defs]: "storeErrorLogEvery = 30 * second"
definition storeDownLatchFor :: duration where [dur_defs]: "storeDownLatchFor = 5 * second"
definition rejectionScopeStoreDown :: string where "rejectionScopeStoreDown = ''store_down''"
definition providerAttemptSpawnCap :: nat where "providerAttemptSpawnCap = 64"
definition checkAndCountKeysPerScope :: nat where "checkAndCountKeysPerScope = 3"

definition newLimiter :: "('s counterStoreOps \<times> 's) option \<Rightarrow> bool \<Rightarrow> 's limiter" where
  "newLimiter store failOpen =
     \<lparr>lim_lastStoreFailure = zero_time, lim_lastLogAt = zero_time, lim_store = store,
      lim_lastSeen = lastSeenGate_zero, lim_fallback = newMemoryStore, lim_spawned = [],
      lim_rejections = rejection_zero, lim_lastErrMsg = [], lim_failOpen = failOpen,
      lim_statsAdmin = False, lim_statsUserModel = False, lim_statsLatency = False, lim_log = []\<rparr>"

subsection \<open>Store access: the latch and the failure policy\<close>

definition log_limited :: "gtime \<Rightarrow> string \<Rightarrow> 's limiter \<Rightarrow> 's limiter" where
  "log_limited now msg l =
     (if storeErrorLogEvery \<le> time_Sub now (lim_lastLogAt l)
      then l\<lparr>lim_lastLogAt := now, lim_log := lim_log l @ [msg]\<rparr> else l)"

definition logSpawnDrop :: "gtime \<Rightarrow> 's limiter \<Rightarrow> 's limiter" where
  "logSpawnDrop now = log_limited now ''limit telemetry write dropped''"

definition logStoreError :: "gtime \<Rightarrow> string \<Rightarrow> 's limiter \<Rightarrow> 's limiter" where
  "logStoreError now err = log_limited now (''limit store error: '' @ err)"

definition storeLatched :: "gtime \<Rightarrow> 's limiter \<Rightarrow> bool" where
  "storeLatched now l \<longleftrightarrow> \<not> time_IsZero (lim_lastStoreFailure l)
     \<and> time_Sub now (lim_lastStoreFailure l) < storeDownLatchFor"

definition configuredStoreDown :: "gtime \<Rightarrow> 's limiter \<Rightarrow> bool" where
  "configuredStoreDown now l \<longleftrightarrow> lim_store l \<noteq> None \<and> storeLatched now l"

definition recordStoreFailure :: "gtime \<Rightarrow> string \<Rightarrow> 's limiter \<Rightarrow> 's limiter" where
  "recordStoreFailure now err l =
     (logStoreError now err l)\<lparr>lim_lastStoreFailure := now, lim_lastErrMsg := err\<rparr>"

definition redisStatus :: "'s limiter \<Rightarrow> bool \<times> string \<times> gtime" where
  "redisStatus l = (lim_store l \<noteq> None, lim_lastErrMsg l, lim_lastStoreFailure l)"

text \<open>The three store calls have one shape, the failure policy of each one too.\<close>

definition failPolicy :: "(memoryStore \<Rightarrow> 'v \<times> memoryStore) \<Rightarrow> 's limiter \<Rightarrow> 'v option \<times> 's limiter" where
  "failPolicy fb l =
     (if \<not> lim_failOpen l then (None, l)
      else let (v, m) = fb (lim_fallback l) in (Some v, l\<lparr>lim_fallback := m\<rparr>))"

definition store_call :: "gtime \<Rightarrow> ('s counterStoreOps \<Rightarrow> 's \<Rightarrow> (string + 'v) \<times> 's) \<Rightarrow>
    (memoryStore \<Rightarrow> 'v \<times> memoryStore) \<Rightarrow> 's limiter \<Rightarrow> 'v option \<times> 's limiter" where
  "store_call ts call fb l =
     (case lim_store l of
        None \<Rightarrow> let (v, m) = fb (lim_fallback l) in (Some v, l\<lparr>lim_fallback := m\<rparr>)
      | Some (ops, s) \<Rightarrow>
          if storeLatched ts l then failPolicy fb l
          else (case call ops s of
                  (Inr v, s') \<Rightarrow> (Some v, l\<lparr>lim_store := Some (ops, s')\<rparr>)
                | (Inl err, s') \<Rightarrow> failPolicy fb (recordStoreFailure ts err (l\<lparr>lim_store := Some (ops, s')\<rparr>))))"

definition storeGetMulti :: "gtime \<Rightarrow> string list \<Rightarrow> 's limiter \<Rightarrow> int list option \<times> 's limiter" where
  "storeGetMulti ts keys =
     store_call ts (\<lambda>ops. op_getMulti ops ts keys) (\<lambda>m. (memoryStore_getMulti ts keys m, m))"

definition storeIncrMulti :: "gtime \<Rightarrow> counterIncr list \<Rightarrow> 's limiter \<Rightarrow> int list option \<times> 's limiter" where
  "storeIncrMulti ts entries =
     store_call ts (\<lambda>ops. op_incrMulti ops ts entries) (memoryStore_incrMulti ts entries)"

definition storeIncrAndGetMulti ::
    "gtime \<Rightarrow> counterIncr list \<Rightarrow> string list \<Rightarrow> 's limiter \<Rightarrow> (int list \<times> int list) option \<times> 's limiter" where
  "storeIncrAndGetMulti ts entries reads =
     store_call ts (\<lambda>ops. op_incrAndGetMulti ops ts entries reads)
       (memoryStore_incrAndGetMulti ts entries reads)"

definition countAsync :: "gtime \<Rightarrow> counterIncr list \<Rightarrow> 's limiter \<Rightarrow> 's limiter" where
  "countAsync now entries l =
     (if entries = [] then l
      else if length (lim_spawned l) < providerAttemptSpawnCap
      then l\<lparr>lim_spawned := lim_spawned l @ [entries]\<rparr>
      else logSpawnDrop now l)"

text \<open>A spawned goroutine runs its batch and gives its token back, in any order.\<close>

definition runSpawned :: "gtime \<Rightarrow> nat \<Rightarrow> 's limiter \<Rightarrow> 's limiter" where
  "runSpawned ts i l =
     (if i < length (lim_spawned l)
      then snd (storeIncrMulti ts (lim_spawned l ! i)
                  (l\<lparr>lim_spawned := take i (lim_spawned l) @ drop (Suc i) (lim_spawned l)\<rparr>))
      else l)"

subsection \<open>Admission\<close>

definition storeDownViolation :: limitViolation where
  "storeDownViolation = \<lparr>lv_message = StoreUnavailable, lv_kind = EvStoreDown, lv_retryAfter = 0, lv_storeDown = True\<rparr>"

record budgetProbe =
  bp_name :: string
  bp_window :: window
  bp_scopeIdx :: nat
  bp_limit :: int
  bp_keyStart :: nat
  bp_tokens :: bool

definition probe_keys :: "limitScope \<Rightarrow> gtime \<Rightarrow> window \<Rightarrow> bool \<Rightarrow> string list" where
  "probe_keys sc now w tokens =
     (if tokens then [windowKey (sc_kind sc) (sc_id sc) metricTokIn w now, windowKey (sc_kind sc) (sc_id sc) metricTokOut w now]
      else [windowKey (sc_kind sc) (sc_id sc) metricCost w now])"

definition add_probe :: "nat \<Rightarrow> limitScope \<Rightarrow> gtime \<Rightarrow> string \<times> window \<times> int \<times> bool \<Rightarrow>
    budgetProbe list \<times> string list \<Rightarrow> budgetProbe list \<times> string list" where
  "add_probe i sc now = (\<lambda>(name, w, limit, tokens) (probes, reads).
     if limit \<le> 0 then (probes, reads)
     else (probes @ [\<lparr>bp_name = name, bp_window = w, bp_scopeIdx = i, bp_limit = limit,
                       bp_keyStart = length reads, bp_tokens = tokens\<rparr>],
           reads @ probe_keys sc now w tokens))"

definition budget_specs :: "LimitsConfig \<Rightarrow> (string \<times> window \<times> int \<times> bool) list" where
  "budget_specs lims =
     [(''tokens-per-day'', WDay, TokensPerDay lims, True),
      (''tokens-per-month'', WMonth, TokensPerMonth lims, True),
      (''cost-per-day'', WDay, usdToMicros (CostPerDayUSD lims), False),
      (''cost-per-month'', WMonth, usdToMicros (CostPerMonthUSD lims), False)]"

definition scope_specs :: "limitScope \<Rightarrow> (string \<times> window \<times> int \<times> bool) list" where
  "scope_specs sc = (case sc_limits sc of None \<Rightarrow> [] | Some lims \<Rightarrow> budget_specs lims)"

definition buildBudgetProbes :: "limitScope list \<Rightarrow> gtime \<Rightarrow> budgetProbe list \<times> string list" where
  "buildBudgetProbes scopes now =
     fold (\<lambda>(i, sc). fold (add_probe i sc now) (scope_specs sc)) (enumerate 0 scopes) ([], [])"

definition requestLimitViolation ::
    "limitScope \<Rightarrow> string \<Rightarrow> int \<Rightarrow> int \<Rightarrow> window \<Rightarrow> gtime \<Rightarrow> limitViolation option" where
  "requestLimitViolation sc name limit count w now =
     (if limit \<le> 0 \<or> count \<le> limit then None
      else Some \<lparr>lv_message = ExceededLimit (sc_kind sc) (sc_id sc) name limit, lv_kind = EvRateLimit,
                 lv_retryAfter = retryAfterSeconds now w, lv_storeDown = False\<rparr>)"

definition scope_entries :: "windowBuckets \<Rightarrow> enforceTTLSet \<Rightarrow> limitScope \<Rightarrow> counterIncr list" where
  "scope_entries wb et sc =
     [\<lparr>ci_key = windowKeyForBucket (sc_kind sc) (sc_id sc) metricReq WMin (wb_min wb), ci_delta = 1,
       ci_ttl = minWindowTTL, ci_enforceTTL = et_min et, ci_absolute = False\<rparr>,
      \<lparr>ci_key = windowKeyForBucket (sc_kind sc) (sc_id sc) metricReq WDay (wb_day wb), ci_delta = 1,
       ci_ttl = dayWindowTTL, ci_enforceTTL = et_day et, ci_absolute = False\<rparr>,
      \<lparr>ci_key = windowKeyForBucket (sc_kind sc) (sc_id sc) metricReq WHour (wb_hour wb), ci_delta = 1,
       ci_ttl = hourWindowTTL, ci_enforceTTL = et_hour et, ci_absolute = False\<rparr>]"

definition admission_entries :: "windowBuckets \<Rightarrow> enforceTTLSet \<Rightarrow> limitScope list \<Rightarrow> counterIncr list" where
  "admission_entries wb et scopes = concat (map (scope_entries wb et) scopes)"

definition probe_violation :: "limitScope \<Rightarrow> gtime \<Rightarrow> int list \<Rightarrow> nat \<Rightarrow> budgetProbe \<Rightarrow> limitViolation option" where
  "probe_violation sc now readVals i p =
     (if bp_scopeIdx p \<noteq> i then None
      else let used = readVals ! bp_keyStart p;
               used = (if bp_tokens p then wrap64 (used + readVals ! (bp_keyStart p + 1)) else used)
           in if used < bp_limit p then None
              else Some \<lparr>lv_message = ExceededBudget (sc_kind sc) (sc_id sc) (bp_name p), lv_kind = EvBudget,
                         lv_retryAfter = retryAfterSeconds now (bp_window p), lv_storeDown = False\<rparr>)"

definition scope_violation :: "budgetProbe list \<Rightarrow> int list \<Rightarrow> int list \<Rightarrow> gtime \<Rightarrow> nat \<Rightarrow> limitScope \<Rightarrow> limitViolation option" where
  "scope_violation probes incrVals readVals now i sc =
     (case sc_limits sc of
        None \<Rightarrow> None
      | Some lims \<Rightarrow>
          (case requestLimitViolation sc ''requests-per-minute'' (RequestsPerMinute lims)
                  (incrVals ! (i * checkAndCountKeysPerScope)) WMin now of
             Some v \<Rightarrow> Some v
           | None \<Rightarrow>
              (case requestLimitViolation sc ''requests-per-day'' (RequestsPerDay lims)
                      (incrVals ! (i * checkAndCountKeysPerScope + 1)) WDay now of
                 Some v \<Rightarrow> Some v
               | None \<Rightarrow> first_some (probe_violation sc now readVals i) probes)))"

definition rejectionCounterIncr :: "string \<Rightarrow> string \<Rightarrow> window \<Rightarrow> string \<Rightarrow> duration \<Rightarrow> counterIncr" where
  "rejectionCounterIncr kind sid w bucket enforceTTL =
     \<lparr>ci_key = windowKeyForBucket kind sid metricRej w bucket, ci_delta = 1,
      ci_ttl = (if w = WHour then hourWindowTTL else dayWindowTTL), ci_enforceTTL = enforceTTL, ci_absolute = False\<rparr>"

definition is_total_scope :: "limitScope \<Rightarrow> bool" where
  "is_total_scope sc \<longleftrightarrow> sc_kind sc = totalScopeKind \<and> sc_id sc = totalScopeID"

definition rejection_entries :: "bool \<Rightarrow> limitScope \<Rightarrow> bool \<Rightarrow> windowBuckets \<Rightarrow> enforceTTLSet \<Rightarrow> counterIncr list" where
  "rejection_entries statsAdmin violated totalPresent wb et =
     [rejectionCounterIncr (sc_kind violated) (sc_id violated) WDay (wb_day wb) (et_day et)]
     @ (if totalPresent then [rejectionCounterIncr totalScopeKind totalScopeID WDay (wb_day wb) (et_day et)] else [])
     @ (if statsAdmin
        then [rejectionCounterIncr (sc_kind violated) (sc_id violated) WHour (wb_hour wb) (et_hour et)]
             @ (if totalPresent then [rejectionCounterIncr totalScopeKind totalScopeID WHour (wb_hour wb) (et_hour et)] else [])
        else [])"

text \<open>The compensation batch: every scope but the violated one has its three increments undone.\<close>

definition other_scopes :: "nat \<Rightarrow> limitScope list \<Rightarrow> (nat \<times> limitScope) list" where
  "other_scopes violatedIdx scopes = filter (\<lambda>(i, sc). i \<noteq> violatedIdx) (enumerate 0 scopes)"

definition settle_batch :: "bool \<Rightarrow> counterIncr list \<Rightarrow> nat \<Rightarrow> limitScope list \<Rightarrow> windowBuckets \<Rightarrow> enforceTTLSet \<Rightarrow> counterIncr list" where
  "settle_batch statsAdmin entries violatedIdx scopes wb et =
     concat (map (\<lambda>(i, sc). map (\<lambda>k.
        let e = entries ! (i * checkAndCountKeysPerScope + k)
        in \<lparr>ci_key = ci_key e, ci_delta = - ci_delta e, ci_ttl = ci_ttl e, ci_enforceTTL = ci_enforceTTL e,
            ci_absolute = False\<rparr>) [0..<checkAndCountKeysPerScope]) (other_scopes violatedIdx scopes))
     @ rejection_entries statsAdmin (scopes ! violatedIdx)
         (\<exists>(i, sc)\<in>set (other_scopes violatedIdx scopes). is_total_scope sc) wb et"

definition settleRejection :: "gtime \<Rightarrow> counterIncr list \<Rightarrow> nat \<Rightarrow> limitScope list \<Rightarrow> windowBuckets \<Rightarrow> enforceTTLSet \<Rightarrow>
    's limiter \<Rightarrow> 's limiter" where
  "settleRejection ts entries violatedIdx scopes wb et l =
     (case storeIncrMulti ts (settle_batch (lim_statsAdmin l) entries violatedIdx scopes wb et) l of
        (Some _, l') \<Rightarrow> l'
      | (None, l') \<Rightarrow> l'\<lparr>lim_log := lim_log l' @ [''limits: rollback/rejection-accounting batch failed after a rejection'']\<rparr>)"

definition checkAndCount :: "gtime \<Rightarrow> gtime \<Rightarrow> gtime \<Rightarrow> limitScope list \<Rightarrow> 's limiter \<Rightarrow>
    limitViolation option \<times> 's limiter" where
  "checkAndCount now ts ts2 scopes l =
     (let wb = bucketsFor now; et = enforceTTLsFor;
          entries = admission_entries wb et scopes;
          (probes, reads) = buildBudgetProbes scopes now;
          (res, l1) = storeIncrAndGetMulti ts entries reads l;
          down = (Some storeDownViolation,
                  l1\<lparr>lim_rejections := rejectionCounter_increment (rejectionScopeStoreDown, rejectionScopeStoreDown) (lim_rejections l1)\<rparr>)
      in case res of
           None \<Rightarrow> down
         | Some (incrVals, readVals) \<Rightarrow>
             if length incrVals \<noteq> length entries \<or> length readVals \<noteq> length reads then down
             else (case first_some (\<lambda>(i, sc). map_option (\<lambda>v. (i, sc, v)) (scope_violation probes incrVals readVals now i sc))
                          (enumerate 0 scopes) of
                     None \<Rightarrow> (None, l1)
                   | Some (i, sc, v) \<Rightarrow>
                       (Some v, settleRejection ts2 entries i scopes wb et
                          (l1\<lparr>lim_rejections := rejectionCounter_increment (sc_kind sc, sc_id sc) (lim_rejections l1)\<rparr>))))"

definition lastSeenEntries :: "limitScope list \<Rightarrow> gtime \<Rightarrow> 's limiter \<Rightarrow> counterIncr list \<times> 's limiter" where
  "lastSeenEntries scopes now l =
     (if \<not> lim_statsAdmin l then ([], l)
      else fold (\<lambda>sc (out, l).
        if sc_kind sc \<noteq> ''user'' \<and> sc_kind sc \<noteq> ''group'' then (out, l)
        else let (d, g) = due (sc_kind sc) (sc_id sc) now (lim_lastSeen l); l' = l\<lparr>lim_lastSeen := g\<rparr>
             in if \<not> d then (out, l')
                else (out @ [\<lparr>ci_key = lastSeenKey (sc_kind sc) (sc_id sc), ci_delta = time_Unix now,
                               ci_ttl = monthWindowTTL, ci_enforceTTL = 0, ci_absolute = True\<rparr>], l'))
        scopes ([], l))"

definition recordLastSeen :: "gtime \<Rightarrow> limitScope list \<Rightarrow> gtime \<Rightarrow> 's limiter \<Rightarrow> 's limiter" where
  "recordLastSeen clock scopes now l = (let (es, l') = lastSeenEntries scopes now l in countAsync clock es l')"

definition maxModelScopeIDLen :: nat where "maxModelScopeIDLen = 256"

definition withModelScope :: "limitScope list \<Rightarrow> string \<Rightarrow> limitScope list" where
  "withModelScope scopes canonical =
     (if canonical = [] \<or> last canonical = CHR ''/'' then scopes
      else if maxModelScopeIDLen < length canonical then scopes
      else if \<exists>c\<in>set canonical. c < CHR 0x20 \<or> c = CHR 0x7f then scopes
      else scopes @ [\<lparr>sc_limits = None, sc_kind = kindModel, sc_id = canonical\<rparr>])"

definition scopesHaveCostBudget :: "limitScope list \<Rightarrow> bool" where
  "scopesHaveCostBudget scopes \<longleftrightarrow>
     (\<exists>sc\<in>set scopes. case sc_limits sc of None \<Rightarrow> False
        | Some lims \<Rightarrow> 0 < usdToMicros (CostPerDayUSD lims) \<or> 0 < usdToMicros (CostPerMonthUSD lims))"

subsection \<open>Budget probes\<close>

definition probe_ok :: "limitScope list \<Rightarrow> gtime \<Rightarrow> string list \<Rightarrow> budgetProbe \<Rightarrow> bool" where
  "probe_ok scopes now reads p \<longleftrightarrow>
     bp_scopeIdx p < length scopes
     \<and> (bp_name p, bp_window p, bp_limit p, bp_tokens p) \<in> set (scope_specs (scopes ! bp_scopeIdx p))
     \<and> 0 < bp_limit p
     \<and> (\<exists>pre post. reads = pre @ probe_keys (scopes ! bp_scopeIdx p) now (bp_window p) (bp_tokens p) @ post
          \<and> length pre = bp_keyStart p)"

definition probe_items :: "limitScope list \<Rightarrow> (nat \<times> limitScope \<times> string \<times> window \<times> int \<times> bool) list" where
  "probe_items scopes = concat (map (\<lambda>(i, sc). map (\<lambda>sp. (i, sc, sp)) (scope_specs sc)) (enumerate 0 scopes))"

lemma fold_concat_map_pair:
  "fold (\<lambda>(i, sc). fold (g i sc) (h sc)) xs a
     = fold (\<lambda>(i, sc, sp). g i sc sp) (concat (map (\<lambda>(i, sc). map (\<lambda>sp. (i, sc, sp)) (h sc)) xs)) a"
proof (induction xs arbitrary: a)
  case (Cons x xs)
  obtain i sc where x: "x = (i, sc)" by fastforce
  have "fold (\<lambda>(i, sc, sp). g i sc sp) (map (\<lambda>sp. (i, sc, sp)) ys) b = fold (g i sc) ys b" for ys b
    by (induction ys arbitrary: b) auto
  with Cons x show ?case by simp
qed simp

lemma buildBudgetProbes_items:
  "buildBudgetProbes scopes now = fold (\<lambda>(i, sc, sp). add_probe i sc now sp) (probe_items scopes) ([], [])"
  unfolding buildBudgetProbes_def probe_items_def by (rule fold_concat_map_pair)

lemma probe_items_iff:
  "(i, sc, sp) \<in> set (probe_items scopes) \<longleftrightarrow> i < length scopes \<and> sc = scopes ! i \<and> sp \<in> set (scope_specs sc)"
proof
  assume "(i, sc, sp) \<in> set (probe_items scopes)"
  then show "i < length scopes \<and> sc = scopes ! i \<and> sp \<in> set (scope_specs sc)"
    by (auto simp: probe_items_def in_set_enumerate_eq)
next
  assume a: "i < length scopes \<and> sc = scopes ! i \<and> sp \<in> set (scope_specs sc)"
  then have "(i, sc) \<in> set (enumerate 0 scopes)" by (simp add: in_set_enumerate_eq)
  with a show "(i, sc, sp) \<in> set (probe_items scopes)" by (force simp: probe_items_def)
qed

lemma probe_ok_append: "probe_ok scopes now rs p \<Longrightarrow> probe_ok scopes now (rs @ ks) p"
  unfolding probe_ok_def by (metis append.assoc)

definition budget_metrics :: "string set" where
  "budget_metrics = {metricTokIn, metricTokOut, metricCost}"

definition read_key :: "limitScope list \<Rightarrow> gtime \<Rightarrow> string \<Rightarrow> bool" where
  "read_key scopes now k \<longleftrightarrow>
     (\<exists>sc\<in>set scopes. \<exists>m\<in>budget_metrics. \<exists>w. k = windowKey (sc_kind sc) (sc_id sc) m w now)"

definition probed :: "budgetProbe list \<Rightarrow> nat \<times> limitScope \<times> string \<times> window \<times> int \<times> bool \<Rightarrow> bool" where
  "probed ps = (\<lambda>(i, sc, name, w, limit, tok). 0 < limit \<longrightarrow>
     (\<exists>p\<in>set ps. bp_scopeIdx p = i \<and> bp_name p = name \<and> bp_window p = w \<and> bp_limit p = limit \<and> bp_tokens p = tok))"

lemma probes_of_items:
  assumes "\<forall>x\<in>set items. x \<in> set (probe_items scopes)"
    and "fold (\<lambda>(i, sc, sp). add_probe i sc now sp) items ([], []) = (ps, rs)"
  shows "(\<forall>p\<in>set ps. probe_ok scopes now rs p)
    \<and> (\<forall>x\<in>set items. probed ps x)
    \<and> (\<forall>k\<in>set rs. read_key scopes now k)"
  using assms
proof (induction items arbitrary: ps rs rule: rev_induct)
  case (snoc x items)
  obtain i sc name w limit tok where x: "x = (i, sc, name, w, limit, tok)" by (cases x) auto
  obtain ps1 rs1 where r: "fold (\<lambda>(i, sc, sp). add_probe i sc now sp) items ([], []) = (ps1, rs1)" by fastforce
  from snoc.prems x have i: "i < length scopes" "sc = scopes ! i" "(name, w, limit, tok) \<in> set (scope_specs sc)"
    by (auto simp: probe_items_iff)
  from snoc.IH [OF _ r] snoc.prems(1)
  have ih: "\<forall>p\<in>set ps1. probe_ok scopes now rs1 p"
    "\<forall>x\<in>set items. probed ps1 x"
    "\<forall>k\<in>set rs1. read_key scopes now k"
    by auto
  show ?case
  proof (cases "limit \<le> 0")
    case True
    with snoc.prems(2) r x have "ps = ps1" "rs = rs1" by (auto simp: add_probe_def)
    with ih x True show ?thesis by (simp add: probed_def)
  next
    case False
    let ?p = "\<lparr>bp_name = name, bp_window = w, bp_scopeIdx = i, bp_limit = limit, bp_keyStart = length rs1, bp_tokens = tok\<rparr>"
    from False snoc.prems(2) r x have e: "ps = ps1 @ [?p]" "rs = rs1 @ probe_keys sc now w tok"
      by (auto simp: add_probe_def)
    have "\<exists>pre post. rs = pre @ probe_keys sc now w tok @ post \<and> length pre = length rs1"
      unfolding e(2) by (rule exI [of _ rs1], rule exI [of _ "[]"]) simp
    then have "probe_ok scopes now rs ?p"
      unfolding probe_ok_def using i False by auto
    moreover have "\<forall>p\<in>set ps1. probe_ok scopes now rs p" using ih(1) e(2) probe_ok_append by blast
    moreover have "\<forall>k\<in>set (probe_keys sc now w tok). read_key scopes now k"
      using i nth_mem [OF i(1)] by (auto simp: probe_keys_def read_key_def budget_metrics_def)
    moreover have "probed ps x" using e(1) by (simp add: probed_def x)
    moreover have "\<forall>y\<in>set items. probed ps y"
      using ih(2) e(1) by (auto simp: probed_def)
    ultimately show ?thesis using ih(3) by (simp add: e ball_Un)
  qed
qed simp

lemma buildBudgetProbes_sound:
  assumes "buildBudgetProbes scopes now = (ps, rs)"
  shows "\<forall>p\<in>set ps. probe_ok scopes now rs p" and "\<forall>k\<in>set rs. read_key scopes now k"
  using probes_of_items [of "probe_items scopes" scopes now ps rs] assms buildBudgetProbes_items by auto

lemma buildBudgetProbes_complete:
  assumes "buildBudgetProbes scopes now = (ps, rs)" and "i < length scopes"
    and "(name, w, limit, tok) \<in> set (scope_specs (scopes ! i))" and "0 < limit"
  obtains p where "p \<in> set ps" and "bp_scopeIdx p = i" and "bp_window p = w" and "bp_limit p = limit" and "bp_tokens p = tok"
proof -
  have "(i, scopes ! i, name, w, limit, tok) \<in> set (probe_items scopes)"
    using assms(2,3) by (simp add: probe_items_iff)
  with probes_of_items [of "probe_items scopes" scopes now ps rs] assms(1,4) buildBudgetProbes_items
  have "probed ps (i, scopes ! i, name, w, limit, tok)" by auto
  with assms(4) that show ?thesis by (auto simp: probed_def)
qed

subsection \<open>The admission decision\<close>

text \<open>What a caller may expect: a scope has room when, with this request counted, neither request
  limit is exceeded and no token or cost budget is already used up.\<close>

definition request_room :: "(string \<Rightarrow> int) \<Rightarrow> gtime \<Rightarrow> limitScope \<Rightarrow> window \<Rightarrow> int \<Rightarrow> bool" where
  "request_room V now sc w limit \<longleftrightarrow>
     limit \<le> 0 \<or> wrap64 (V (windowKey (sc_kind sc) (sc_id sc) metricReq w now) + 1) \<le> limit"

definition budget_room :: "(string \<Rightarrow> int) \<Rightarrow> gtime \<Rightarrow> limitScope \<Rightarrow> window \<Rightarrow> int \<Rightarrow> bool \<Rightarrow> bool" where
  "budget_room V now sc w limit tokens \<longleftrightarrow> limit \<le> 0 \<or>
     (if tokens then wrap64 (V (windowKey (sc_kind sc) (sc_id sc) metricTokIn w now)
                             + V (windowKey (sc_kind sc) (sc_id sc) metricTokOut w now))
      else V (windowKey (sc_kind sc) (sc_id sc) metricCost w now)) < limit"

definition scope_within :: "(string \<Rightarrow> int) \<Rightarrow> gtime \<Rightarrow> limitScope \<Rightarrow> bool" where
  "scope_within V now sc \<longleftrightarrow> (case sc_limits sc of None \<Rightarrow> True | Some lims \<Rightarrow>
     request_room V now sc WMin (RequestsPerMinute lims)
     \<and> request_room V now sc WDay (RequestsPerDay lims)
     \<and> budget_room V now sc WDay (TokensPerDay lims) True
     \<and> budget_room V now sc WMonth (TokensPerMonth lims) True
     \<and> budget_room V now sc WDay (usdToMicros (CostPerDayUSD lims)) False
     \<and> budget_room V now sc WMonth (usdToMicros (CostPerMonthUSD lims)) False)"

definition scopes_ok :: "limitScope list \<Rightarrow> bool" where
  "scopes_ok scopes \<longleftrightarrow> distinct (map (\<lambda>sc. (sc_kind sc, sc_id sc)) scopes)
     \<and> (\<forall>sc\<in>set scopes. CHR '':'' \<notin> set (sc_kind sc))"

lemmas metric_defs = metricReq_def metricTokIn_def metricTokOut_def metricCost_def metricRej_def

lemma scope_entries_eq:
  "scope_entries (bucketsFor now) et sc =
     map (\<lambda>(w, ttl, en). \<lparr>ci_key = windowKey (sc_kind sc) (sc_id sc) metricReq w now, ci_delta = 1, ci_ttl = ttl,
            ci_enforceTTL = en, ci_absolute = False\<rparr>)
       [(WMin, minWindowTTL, et_min et), (WDay, dayWindowTTL, et_day et), (WHour, hourWindowTTL, et_hour et)]"
  unfolding scope_entries_def bucketsFor_def windowKey_def by simp

lemma scope_entry:
  assumes "e \<in> set (scope_entries (bucketsFor now) et sc)"
  obtains w where "ci_key e = windowKey (sc_kind sc) (sc_id sc) metricReq w now" and "ci_delta e = 1"
    and "\<not> ci_absolute e" and "0 < ci_ttl e"
proof -
  from assms obtain w ttl en where
    w: "(w, ttl, en) \<in> set [(WMin, minWindowTTL, et_min et), (WDay, dayWindowTTL, et_day et), (WHour, hourWindowTTL, et_hour et)]"
    and e: "e = \<lparr>ci_key = windowKey (sc_kind sc) (sc_id sc) metricReq w now, ci_delta = 1, ci_ttl = ttl,
            ci_enforceTTL = en, ci_absolute = False\<rparr>"
    unfolding scope_entries_eq set_map by fast
  have "0 < ttl" using w by (auto simp: dur_defs)
  with e that show ?thesis by simp
qed

lemma admission_entry:
  assumes "e \<in> set (admission_entries (bucketsFor now) et scopes)"
  obtains sc w where "sc \<in> set scopes" and "e \<in> set (scope_entries (bucketsFor now) et sc)"
    and "ci_key e = windowKey (sc_kind sc) (sc_id sc) metricReq w now" and "ci_delta e = 1"
    and "\<not> ci_absolute e" and "0 < ci_ttl e"
proof -
  from assms obtain sc where sc: "sc \<in> set scopes" "e \<in> set (scope_entries (bucketsFor now) et sc)"
    by (auto simp: admission_entries_def)
  from sc(2) show ?thesis by (rule scope_entry) (use that sc in blast)
qed

lemma admission_entries_ok:
  "\<forall>e\<in>set (admission_entries (bucketsFor now) et scopes). entry_ok e"
  by (auto simp: entry_ok_def elim!: admission_entry)

lemma windowKey_inj:
  assumes "windowKey k i m w t = windowKey k' i' m' w' t" and "0 \<le> t"
    and "CHR '':'' \<notin> set k" "CHR '':'' \<notin> set k'" "CHR '':'' \<notin> set m" "CHR '':'' \<notin> set m'"
  shows "k = k' \<and> i = i' \<and> m = m' \<and> w = w'"
  using windowKeyForBucket_inj [of k i m w "bucketFor t w" k' i' m' w' "bucketFor t w'"] assms
    bucketFor_no_colon [OF assms(2)] by (auto simp: windowKey_def)

lemma scope_entries_keys:
  "map ci_key (scope_entries (bucketsFor now) et sc)
     = map (\<lambda>w. windowKey (sc_kind sc) (sc_id sc) metricReq w now) [WMin, WDay, WHour]"
  unfolding scope_entries_eq by simp

lemma admission_keys_distinct:
  assumes "scopes_ok scopes" and "0 \<le> now"
  shows "distinct (map ci_key (admission_entries (bucketsFor now) et scopes))"
  using assms(1)
proof (induction scopes)
  case (Cons sc scopes)
  have colon: "CHR '':'' \<notin> set metricReq" by (simp add: metric_defs)
  from Cons.prems have sc: "CHR '':'' \<notin> set (sc_kind sc)"
    and rest: "\<forall>s\<in>set scopes. CHR '':'' \<notin> set (sc_kind s) \<and> (sc_kind s, sc_id s) \<noteq> (sc_kind sc, sc_id sc)"
    by (auto simp: scopes_ok_def rev_image_eqI)
  have "inj_on (\<lambda>w. windowKey (sc_kind sc) (sc_id sc) metricReq w now) {WMin, WDay, WHour}"
    using windowKey_inj [OF _ assms(2) sc sc colon colon] by (meson inj_onI)
  then have "distinct (map ci_key (scope_entries (bucketsFor now) et sc))"
    by (simp add: scope_entries_keys distinct_map del: list.map)
  moreover have "ci_key ` set (scope_entries (bucketsFor now) et sc)
      \<inter> ci_key ` set (admission_entries (bucketsFor now) et scopes) = {}"
  proof -
    have "windowKey (sc_kind s) (sc_id s) metricReq w now \<noteq> windowKey (sc_kind sc) (sc_id sc) metricReq w' now"
      if "s \<in> set scopes" for s w w'
      using windowKey_inj [OF _ assms(2) _ sc colon colon, of "sc_kind s" "sc_id s" w "sc_id sc" w'] rest that by auto
    then have "ci_key a \<noteq> ci_key b" if "a \<in> set (scope_entries (bucketsFor now) et sc)"
      "b \<in> set (admission_entries (bucketsFor now) et scopes)" for a b
      using that by (metis scope_entry admission_entry)
    then show ?thesis by blast
  qed
  moreover have "scopes_ok scopes" using Cons.prems by (simp add: scopes_ok_def)
  ultimately show ?case using Cons.IH by (simp add: admission_entries_def)
qed (simp add: admission_entries_def)

lemma reads_apart:
  assumes "scopes_ok scopes" and "0 \<le> now" and "buildBudgetProbes scopes now = (ps, rs)"
  shows "set rs \<inter> ci_key ` set (admission_entries (bucketsFor now) et scopes) = {}"
proof -
  have False if k: "k \<in> set rs" and e: "e \<in> set (admission_entries (bucketsFor now) et scopes)" "k = ci_key e" for k e
  proof -
    from buildBudgetProbes_sound(2) [OF assms(3)] k
    obtain sc m w where sc: "sc \<in> set scopes" "m \<in> budget_metrics" "k = windowKey (sc_kind sc) (sc_id sc) m w now"
      by (auto simp: read_key_def)
    from e obtain sc' w' where sc': "sc' \<in> set scopes" "k = windowKey (sc_kind sc') (sc_id sc') metricReq w' now"
      by (auto elim!: admission_entry)
    have "CHR '':'' \<notin> set m" "CHR '':'' \<notin> set metricReq" "m \<noteq> metricReq"
      using sc(2) by (auto simp: budget_metrics_def metric_defs)
    with windowKey_inj [of "sc_kind sc" "sc_id sc" m w now "sc_kind sc'" "sc_id sc'" metricReq w']
      sc sc' assms(1,2) show False by (auto simp: scopes_ok_def)
  qed
  then show ?thesis by blast
qed

lemma entries_nth:
  assumes "i < length scopes" and "k < checkAndCountKeysPerScope"
  shows "admission_entries wb et scopes ! (i * checkAndCountKeysPerScope + k) = scope_entries wb et (scopes ! i) ! k"
  unfolding admission_entries_def using assms
  by (intro concat_uniform_nth) (auto simp: scope_entries_def checkAndCountKeysPerScope_def)

lemma entries_length: "length (admission_entries wb et scopes) = length scopes * 3"
  unfolding admission_entries_def by (rule length_concat_uniform) (simp add: scope_entries_def)

lemma probe_violation_None:
  assumes "probe_ok scopes now rs p"
  shows "probe_violation sc now (map V rs) i p = None \<longleftrightarrow>
    bp_scopeIdx p \<noteq> i \<or> budget_room V now (scopes ! bp_scopeIdx p) (bp_window p) (bp_limit p) (bp_tokens p)"
  using assms
  by (auto simp: probe_ok_def probe_violation_def budget_room_def probe_keys_def nth_append Let_def split: if_splits)

lemma probes_room:
  assumes "buildBudgetProbes scopes now = (ps, rs)" and i: "i < length scopes"
  shows "first_some (probe_violation sc now (map V rs) i) ps = None \<longleftrightarrow>
    (\<forall>(name, w, limit, tok)\<in>set (scope_specs (scopes ! i)). budget_room V now (scopes ! i) w limit tok)"
proof
  note ok = buildBudgetProbes_sound(1) [OF assms(1)]
  assume none: "first_some (probe_violation sc now (map V rs) i) ps = None"
  show "\<forall>(name, w, limit, tok)\<in>set (scope_specs (scopes ! i)). budget_room V now (scopes ! i) w limit tok"
  proof clarify
    fix name w limit tok assume s: "(name, w, limit, tok) \<in> set (scope_specs (scopes ! i))"
    show "budget_room V now (scopes ! i) w limit tok"
    proof (cases "0 < limit")
      case True
      from buildBudgetProbes_complete [OF assms s True] obtain p where
        p: "p \<in> set ps" "bp_scopeIdx p = i" "bp_window p = w" "bp_limit p = limit" "bp_tokens p = tok" .
      with none ok have "probe_violation sc now (map V rs) i p = None" by (simp add: first_some_None)
      with probe_violation_None [of scopes now rs p] ok p show ?thesis by auto
    qed (simp add: budget_room_def)
  qed
next
  note ok = buildBudgetProbes_sound(1) [OF assms(1)]
  assume room: "\<forall>(name, w, limit, tok)\<in>set (scope_specs (scopes ! i)). budget_room V now (scopes ! i) w limit tok"
  have "probe_violation sc now (map V rs) i p = None" if "p \<in> set ps" for p
  proof (cases "bp_scopeIdx p = i")
    case True
    with ok that have "(bp_name p, bp_window p, bp_limit p, bp_tokens p) \<in> set (scope_specs (scopes ! i))"
      by (auto simp: probe_ok_def)
    with room have "budget_room V now (scopes ! i) (bp_window p) (bp_limit p) (bp_tokens p)" by auto
    with probe_violation_None [of scopes now rs p] ok that True show ?thesis by auto
  next
    case False
    then show ?thesis by (simp add: probe_violation_def)
  qed
  then show "first_some (probe_violation sc now (map V rs) i) ps = None" by (simp add: first_some_None)
qed

lemma scope_violation_None:
  assumes ps: "buildBudgetProbes scopes now = (ps, rs)" and i: "i < length scopes"
    and es: "es = admission_entries (bucketsFor now) et scopes"
  shows "scope_violation ps (map (\<lambda>e. spec_step e V (ci_key e)) es) (map V rs) now i (scopes ! i) = None
    \<longleftrightarrow> scope_within V now (scopes ! i)"
proof -
  have idx: "i * 3 < length es" "i * 3 + 1 < length es" using i es entries_length by (auto simp: mult.commute)
  have e0: "es ! (i * 3) = scope_entries (bucketsFor now) et (scopes ! i) ! 0"
    "es ! (i * 3 + 1) = scope_entries (bucketsFor now) et (scopes ! i) ! 1"
    using entries_nth [OF i, of 0] entries_nth [OF i, of 1] es by (simp_all add: checkAndCountKeysPerScope_def)
  have vals: "map (\<lambda>e. spec_step e V (ci_key e)) es ! (i * 3)
      = wrap64 (V (windowKey (sc_kind (scopes ! i)) (sc_id (scopes ! i)) metricReq WMin now) + 1)"
    "map (\<lambda>e. spec_step e V (ci_key e)) es ! (i * 3 + 1)
      = wrap64 (V (windowKey (sc_kind (scopes ! i)) (sc_id (scopes ! i)) metricReq WDay now) + 1)"
    using idx e0 by (simp_all add: scope_entries_eq spec_step_def)
  show ?thesis
    unfolding scope_violation_def checkAndCountKeysPerScope_def vals
    by (cases "sc_limits (scopes ! i)")
      (auto simp: probes_room [OF ps i] scope_within_def requestLimitViolation_def request_room_def
        scope_specs_def budget_specs_def split: option.splits)
qed

subsection \<open>The effect of a decision\<close>

text \<open>The in-process store serves a call when no backend is configured, or when the backend is
  latched down and the policy is to fail open.\<close>

definition served_by_fallback :: "gtime \<Rightarrow> 's limiter \<Rightarrow> bool" where
  "served_by_fallback ts l \<longleftrightarrow> lim_store l = None \<or> (storeLatched ts l \<and> lim_failOpen l)"

lemma store_call_fallback:
  "served_by_fallback ts l \<Longrightarrow> store_call ts call fb l
     = (Some (fst (fb (lim_fallback l))), l\<lparr>lim_fallback := snd (fb (lim_fallback l))\<rparr>)"
  by (auto simp: served_by_fallback_def store_call_def failPolicy_def split: prod.splits option.splits)

lemma served_fields [simp]:
  "served_by_fallback ts (l\<lparr>lim_fallback := m\<rparr>) = served_by_fallback ts l"
  "served_by_fallback ts (l\<lparr>lim_rejections := r\<rparr>) = served_by_fallback ts l"
  by (simp_all add: served_by_fallback_def storeLatched_def)

definition decide :: "limitScope list \<Rightarrow> gtime \<Rightarrow> (string \<Rightarrow> int) \<Rightarrow> (nat \<times> limitScope \<times> limitViolation) option" where
  "decide scopes now V =
     (let (ps, rs) = buildBudgetProbes scopes now; es = admission_entries (bucketsFor now) enforceTTLsFor scopes
      in first_some (\<lambda>(i, sc). map_option (\<lambda>v. (i, sc, v))
           (scope_violation ps (map (\<lambda>e. spec_step e V (ci_key e)) es) (map V rs) now i sc)) (enumerate 0 scopes))"

lemma decide_None: "decide scopes now V = None \<longleftrightarrow> (\<forall>sc\<in>set scopes. scope_within V now sc)"
proof -
  obtain ps rs where b: "buildBudgetProbes scopes now = (ps, rs)" by fastforce
  show ?thesis
    by (simp add: decide_def b first_some_enumerate_None scope_violation_None [OF b _ refl] all_set_conv_all_nth)
qed

lemma decide_Some:
  assumes "decide scopes now V = Some (i, sc, v)"
  shows "i < length scopes \<and> sc = scopes ! i \<and> \<not> scope_within V now sc \<and> (\<forall>j<i. scope_within V now (scopes ! j))"
proof -
  obtain ps rs where b: "buildBudgetProbes scopes now = (ps, rs)" by fastforce
  from assms obtain j where j: "j < length scopes" "j = i" "sc = scopes ! i"
    "scope_violation ps (map (\<lambda>e. spec_step e V (ci_key e)) (admission_entries (bucketsFor now) enforceTTLsFor scopes))
       (map V rs) now i sc \<noteq> None"
    and before: "\<forall>j<i. scope_violation ps (map (\<lambda>e. spec_step e V (ci_key e)) (admission_entries (bucketsFor now) enforceTTLsFor scopes))
       (map V rs) now j (scopes ! j) = None"
    by (auto simp: decide_def b dest!: first_some_enumerate_Some)
  show ?thesis using j before scope_violation_None [OF b _ refl, where et = enforceTTLsFor and V = V] by (auto dest: less_trans)
qed

lemma decide_not_down: "decide scopes now V = Some (i, sc, v) \<Longrightarrow> \<not> lv_storeDown v"
  by (auto simp: decide_def scope_violation_def requestLimitViolation_def probe_violation_def Let_def
      split: prod.splits option.splits if_splits dest!: first_some_SomeD)

lemma checkAndCount_fallback:
  fixes l :: "'s limiter"
  assumes "served_by_fallback ts l" and "scopes_ok scopes" and "0 \<le> now"
    and "es = admission_entries (bucketsFor now) enforceTTLsFor scopes"
    and "m1 = snd (memoryStore_incrMulti ts es (lim_fallback l))"
  shows "checkAndCount now ts ts2 scopes l =
    (case decide scopes now (ms_view (lim_fallback l) ts) of
       None \<Rightarrow> (None, l\<lparr>lim_fallback := m1\<rparr>)
     | Some (i, sc, v) \<Rightarrow> (Some v, settleRejection ts2 es i scopes (bucketsFor now) enforceTTLsFor
          (l\<lparr>lim_fallback := m1, lim_rejections := rejectionCounter_increment (sc_kind sc, sc_id sc) (lim_rejections l)\<rparr>)))"
proof -
  obtain ps rs where b: "buildBudgetProbes scopes now = (ps, rs)" by fastforce
  let ?V = "ms_view (lim_fallback l) ts"
  have ok: "\<forall>e\<in>set es. entry_ok e" using assms(4) admission_entries_ok by blast
  have d: "distinct (map ci_key es)" using assms admission_keys_distinct by blast
  have "set rs \<inter> ci_key ` set es = {}" using reads_apart [OF assms(2,3) b] assms(4) by blast
  from mem.fused_reads_before [OF ok this, of ts "lim_fallback l"] mem.fused_vals [OF ok d, of ts rs "lim_fallback l"]
    mem.incr_get_incr [of ts es rs "lim_fallback l"]
  have call: "memoryStore_incrAndGetMulti ts es rs (lim_fallback l)
      = ((map (\<lambda>e. spec_step e ?V (ci_key e)) es, map ?V rs), m1)"
    using assms(5) by (simp add: prod_eq_iff)
  show ?thesis
    unfolding checkAndCount_def Let_def decide_def b storeIncrAndGetMulti_def assms(4)
      store_call_fallback [OF assms(1)] call [unfolded assms(4)] prod.case fst_conv snd_conv option.case
    by (simp cong: option.case_cong)
qed

text \<open>The compensation batch, as the negated entries of the other scopes.\<close>

lemma other_scopes_snd:
  assumes "v < length scopes"
  shows "map snd (other_scopes v scopes) = take v scopes @ drop (Suc v) scopes"
proof -
  have s: "scopes = take v scopes @ scopes ! v # drop (Suc v) scopes" using assms by (rule id_take_nth_drop)
  have "enumerate 0 scopes
      = enumerate 0 (take v scopes) @ (v, scopes ! v) # enumerate (Suc v) (drop (Suc v) scopes)"
    using assms by (subst s) (simp add: enumerate_append_eq)
  moreover have "filter (\<lambda>(i, sc). i \<noteq> v) (enumerate 0 (take v scopes)) = enumerate 0 (take v scopes)"
    by (auto simp: filter_id_conv in_set_enumerate_eq)
  moreover have "filter (\<lambda>(i, sc). i \<noteq> v) (enumerate (Suc v) (drop (Suc v) scopes)) = enumerate (Suc v) (drop (Suc v) scopes)"
    by (auto simp: filter_id_conv in_set_enumerate_eq)
  ultimately show ?thesis by (simp add: other_scopes_def)
qed

definition rejection_batch :: "bool \<Rightarrow> limitScope list \<Rightarrow> nat \<Rightarrow> gtime \<Rightarrow> counterIncr list" where
  "rejection_batch statsAdmin scopes v now =
     rejection_entries statsAdmin (scopes ! v) (\<exists>sc\<in>set (take v scopes @ drop (Suc v) scopes). is_total_scope sc)
       (bucketsFor now) enforceTTLsFor"

lemma settle_batch_eq:
  assumes "v < length scopes" and "es = admission_entries (bucketsFor now) enforceTTLsFor scopes"
  shows "settle_batch statsAdmin es v scopes (bucketsFor now) enforceTTLsFor
    = map negate (admission_entries (bucketsFor now) enforceTTLsFor (take v scopes @ drop (Suc v) scopes))
      @ rejection_batch statsAdmin scopes v now"
proof -
  let ?f = "\<lambda>e. \<lparr>ci_key = ci_key e, ci_delta = - ci_delta e, ci_ttl = ci_ttl e, ci_enforceTTL = ci_enforceTTL e,
            ci_absolute = False\<rparr>"
  have neg: "map ?f (scope_entries (bucketsFor now) enforceTTLsFor sc) = map negate (scope_entries (bucketsFor now) enforceTTLsFor sc)" for sc
    by (auto simp: negate_def elim!: scope_entry)
  have block: "map (\<lambda>k. let e = es ! (i * checkAndCountKeysPerScope + k) in ?f e) [0..<checkAndCountKeysPerScope]
      = map negate (scope_entries (bucketsFor now) enforceTTLsFor sc)" if "(i, sc) \<in> set (other_scopes v scopes)" for i sc
  proof -
    have i: "i < length scopes" "sc = scopes ! i" using that by (auto simp: other_scopes_def in_set_enumerate_eq)
    have "map (\<lambda>k. let e = es ! (i * checkAndCountKeysPerScope + k) in ?f e) [0..<checkAndCountKeysPerScope]
        = map (\<lambda>k. ?f (scope_entries (bucketsFor now) enforceTTLsFor sc ! k)) [0..<checkAndCountKeysPerScope]"
      using entries_nth [OF i(1)] i(2) assms(2) by (intro map_cong) (simp_all add: Let_def)
    also have "\<dots> = map ?f (scope_entries (bucketsFor now) enforceTTLsFor sc)"
      by (simp add: scope_entries_def checkAndCountKeysPerScope_def upt_rec)
    finally show ?thesis by (simp only: neg)
  qed
  have "concat (map (\<lambda>(i, sc). map (\<lambda>k. let e = es ! (i * checkAndCountKeysPerScope + k) in ?f e) [0..<checkAndCountKeysPerScope])
          (other_scopes v scopes))
      = concat (map (\<lambda>(i, sc). map negate (scope_entries (bucketsFor now) enforceTTLsFor sc)) (other_scopes v scopes))"
    using block by (intro arg_cong [where f = concat] map_cong) auto
  also have "\<dots> = map negate (admission_entries (bucketsFor now) enforceTTLsFor (map snd (other_scopes v scopes)))"
    by (simp add: admission_entries_def map_concat comp_def case_prod_unfold)
  also have "map snd (other_scopes v scopes) = take v scopes @ drop (Suc v) scopes" by (rule other_scopes_snd [OF assms(1)])
  finally have comp: "concat (map (\<lambda>(i, sc). map (\<lambda>k. let e = es ! (i * checkAndCountKeysPerScope + k) in ?f e) [0..<checkAndCountKeysPerScope])
          (other_scopes v scopes))
      = map negate (admission_entries (bucketsFor now) enforceTTLsFor (take v scopes @ drop (Suc v) scopes))" .
  have "(\<exists>(i, sc)\<in>set (other_scopes v scopes). is_total_scope sc) = (\<exists>sc\<in>set (map snd (other_scopes v scopes)). is_total_scope sc)"
    by (simp add: case_prod_unfold)
  then have tot: "(\<exists>(i, sc)\<in>set (other_scopes v scopes). is_total_scope sc) = (\<exists>sc\<in>set (take v scopes @ drop (Suc v) scopes). is_total_scope sc)"
    by (simp only: other_scopes_snd [OF assms(1)])
  show ?thesis unfolding settle_batch_def rejection_batch_def comp tot ..
qed

lemma rejection_batch_ok: "\<forall>e\<in>set (rejection_batch st scopes v now). entry_ok e"
  by (auto simp: rejection_batch_def rejection_entries_def rejectionCounterIncr_def entry_ok_def dur_defs)

lemma settleRejection_fallback:
  assumes "served_by_fallback ts l"
  shows "settleRejection ts es v scopes wb et l
    = l\<lparr>lim_fallback := snd (memoryStore_incrMulti ts (settle_batch (lim_statsAdmin l) es v scopes wb et) (lim_fallback l))\<rparr>"
  by (simp add: settleRejection_def storeIncrMulti_def store_call_fallback [OF assms])

lemma rollback_view:
  assumes "scopes_ok scopes" and "0 \<le> now" and "v < length scopes" and "\<forall>k. in_int64 (V k)"
  shows "fold spec_step (map negate (admission_entries (bucketsFor now) et (take v scopes @ drop (Suc v) scopes)))
      (fold spec_step (admission_entries (bucketsFor now) et scopes) V)
    = fold spec_step (scope_entries (bucketsFor now) et (scopes ! v)) V"
proof (rule spec_partial_rollback)
  let ?es = "\<lambda>scs. admission_entries (bucketsFor now) et scs"
  have s: "?es scopes = ?es (take v scopes) @ scope_entries (bucketsFor now) et (scopes ! v) @ ?es (drop (Suc v) scopes)"
    using id_take_nth_drop [OF assms(3)] by (metis admission_entries_def concat.simps(2) concat_append list.simps(9) map_append)
  have o: "?es (take v scopes @ drop (Suc v) scopes) = ?es (take v scopes) @ ?es (drop (Suc v) scopes)"
    by (simp add: admission_entries_def)
  show d: "distinct (map ci_key (?es scopes))" using assms(1,2) by (rule admission_keys_distinct)
  show "\<forall>e\<in>set (?es scopes). \<not> ci_absolute e" by (auto elim!: admission_entry)
  show "\<forall>k. in_int64 (V k)" by (rule assms(4))
  show "set (?es (take v scopes @ drop (Suc v) scopes)) \<union> set (scope_entries (bucketsFor now) et (scopes ! v)) = set (?es scopes)"
    using s o by auto
  show "distinct (map ci_key (?es (take v scopes @ drop (Suc v) scopes)))"
    "distinct (map ci_key (scope_entries (bucketsFor now) et (scopes ! v)))"
    "ci_key ` set (?es (take v scopes @ drop (Suc v) scopes)) \<inter> ci_key ` set (scope_entries (bucketsFor now) et (scopes ! v)) = {}"
    using d s o by auto
qed

lemma negate_ok: "\<forall>e\<in>set es. entry_ok e \<Longrightarrow> \<forall>e\<in>set (map negate es). entry_ok e"
  by (auto simp: negate_def entry_ok_def)

lemma admission_decision:
  assumes "served_by_fallback ts l" and "scopes_ok scopes" and "0 \<le> now"
  shows "fst (checkAndCount now ts ts2 scopes l) = None
    \<longleftrightarrow> (\<forall>sc\<in>set scopes. scope_within (ms_view (lim_fallback l) ts) now sc)"
  unfolding checkAndCount_fallback [OF assms refl refl] decide_None [symmetric]
  by (auto split: option.splits)


theorem checkAndCount_admitted_effect:
  assumes "served_by_fallback ts l" and "scopes_ok scopes" and "0 \<le> now"
    and "checkAndCount now ts ts2 scopes l = (None, l')"
  shows "ms_view (lim_fallback l') ts = (\<lambda>k.
      if \<exists>sc\<in>set scopes. \<exists>w\<in>{WMin, WDay, WHour}. k = windowKey (sc_kind sc) (sc_id sc) metricReq w now
      then wrap64 (ms_view (lim_fallback l) ts k + 1) else ms_view (lim_fallback l) ts k)
    \<and> l' = l\<lparr>lim_fallback := lim_fallback l'\<rparr>"
proof -
  let ?es = "admission_entries (bucketsFor now) enforceTTLsFor scopes"
  from checkAndCount_fallback [OF assms(1-3) refl refl, of ts2] assms(4)
  have l': "l' = l\<lparr>lim_fallback := snd (memoryStore_incrMulti ts ?es (lim_fallback l))\<rparr>"
    by (auto split: option.splits prod.splits)
  then have v: "ms_view (lim_fallback l') ts = fold spec_step ?es (ms_view (lim_fallback l) ts)"
    using mem.incr_view [OF admission_entries_ok] by simp
  have keys: "k \<in> ci_key ` set ?es \<longleftrightarrow>
      (\<exists>sc\<in>set scopes. \<exists>w\<in>{WMin, WDay, WHour}. k = windowKey (sc_kind sc) (sc_id sc) metricReq w now)" for k
    unfolding admission_entries_def scope_entries_eq by (simp add: image_UN)
  have "ms_view (lim_fallback l') ts k = (if k \<in> ci_key ` set ?es then wrap64 (ms_view (lim_fallback l) ts k + 1)
      else ms_view (lim_fallback l) ts k)" for k
  proof (cases "k \<in> ci_key ` set ?es")
    case True
    then obtain e where e: "e \<in> set ?es" "k = ci_key e" by auto
    then have "ci_delta e = 1" "\<not> ci_absolute e" by (auto elim!: admission_entry)
    with e spec_fold_distinct [OF admission_keys_distinct [OF assms(2,3)] e(1), of "ms_view (lim_fallback l) ts"]
      fun_cong [OF v, of k]
    show ?thesis by (simp add: spec_step_def)
  next
    case False
    with fun_cong [OF v, of k] show ?thesis by (simp add: spec_fold_other)
  qed
  then show ?thesis using l' unfolding keys by (auto simp: fun_eq_iff)
qed


subsection \<open>Store failures\<close>

lemma latched_iff:
  assumes "lim_lastStoreFailure l = ts" and "zero_time < ts"
  shows "storeLatched t l \<longleftrightarrow> t < ts + storeDownLatchFor"
proof -
  have "(0::int) < storeDownLatchFor" "storeDownLatchFor \<le> max_int64" by (simp_all add: dur_defs max_int64_def)
  from time_Sub_less [OF this, of t ts] assms show ?thesis by (simp add: storeLatched_def time_IsZero_def)
qed

lemma failPolicy_fields [simp]:
  "lim_store (snd (failPolicy fb l)) = lim_store l"
  "lim_lastStoreFailure (snd (failPolicy fb l)) = lim_lastStoreFailure l"
  "lim_lastErrMsg (snd (failPolicy fb l)) = lim_lastErrMsg l"
  "lim_failOpen (snd (failPolicy fb l)) = lim_failOpen l"
  "lim_rejections (snd (failPolicy fb l)) = lim_rejections l"
  by (auto simp: failPolicy_def split: prod.splits)

lemma recordStoreFailure_fields [simp]:
  "lim_store (recordStoreFailure ts err l) = lim_store l"
  "lim_lastStoreFailure (recordStoreFailure ts err l) = ts"
  "lim_lastErrMsg (recordStoreFailure ts err l) = err"
  "lim_failOpen (recordStoreFailure ts err l) = lim_failOpen l"
  "lim_fallback (recordStoreFailure ts err l) = lim_fallback l"
  "lim_rejections (recordStoreFailure ts err l) = lim_rejections l"
  by (simp_all add: recordStoreFailure_def logStoreError_def log_limited_def)

lemma store_call_latched:
  assumes "lim_store l = Some (ops, s)" and "storeLatched t l"
  shows "lim_store (snd (store_call t call fb l)) = Some (ops, s)
    \<and> fst (store_call t call fb l) = (if lim_failOpen l then Some (fst (fb (lim_fallback l))) else None)"
  using assms by (auto simp: store_call_def failPolicy_def split: prod.splits)

lemma store_call_failed:
  assumes "lim_store l = Some (ops, s)" and "\<not> storeLatched ts l" and "call ops s = (Inl err, s')"
  shows "store_call ts call fb l = failPolicy fb (recordStoreFailure ts err (l\<lparr>lim_store := Some (ops, s')\<rparr>))"
  using assms by (simp add: store_call_def)

theorem failed_call_opens_latch:
  assumes "lim_store l = Some (ops, s)" and "\<not> storeLatched ts l"
    and "op_incrMulti ops ts es s = (Inl err, s')" and "zero_time < ts"
    and l': "l' = snd (storeIncrMulti ts es l)"
  shows "redisStatus l' = (True, err, ts)
    \<and> (\<forall>t. configuredStoreDown t l' \<longleftrightarrow> t < ts + storeDownLatchFor)
    \<and> (\<forall>t es2. t < ts + storeDownLatchFor \<longrightarrow> lim_store (snd (storeIncrMulti t es2 l')) = Some (ops, s'))"
proof -
  have e: "l' = snd (failPolicy (memoryStore_incrMulti ts es) (recordStoreFailure ts err (l\<lparr>lim_store := Some (ops, s')\<rparr>)))"
    unfolding l' storeIncrMulti_def
    by (subst store_call_failed [where ops = ops and s = s and err = err and s' = s']) (use assms in simp_all)
  then have f: "lim_store l' = Some (ops, s')" "lim_lastStoreFailure l' = ts" "lim_lastErrMsg l' = err" by simp_all
  have "lim_store (snd (storeIncrMulti t es2 l')) = Some (ops, s')" if "t < ts + storeDownLatchFor" for t es2
    using store_call_latched [OF f(1), THEN conjunct1] latched_iff [OF f(2) assms(4)] that
    unfolding storeIncrMulti_def by blast
  then show ?thesis
    using latched_iff [OF f(2) assms(4)] f by (simp add: redisStatus_def configuredStoreDown_def)
qed

definition broken_store :: "unit counterStoreOps" where
  "broken_store = \<lparr>op_getMulti = (\<lambda>t ks s. (Inl ''down'', s)), op_incrMulti = (\<lambda>t es s. (Inl ''down'', s)),
     op_incrAndGetMulti = (\<lambda>t es ks s. (Inl ''down'', s))\<rparr>"

theorem failed_call_opens_latch_witness:
  "redisStatus (snd (storeIncrMulti 7 [] (newLimiter (Some (broken_store, ())) True))) = (True, ''down'', 7)"
  using failed_call_opens_latch [of "newLimiter (Some (broken_store, ())) True" broken_store "()" 7 "[]" "''down''" "()"]
  by (simp add: newLimiter_def broken_store_def storeLatched_def time_IsZero_def zero_time_def)

text \<open>C20: With a configured store that is latched down or fails the admission batch and the
  fail-closed policy, checkAndCount refuses the request with the store-down violation,
  leaves the in-process counters alone and counts the rejection under the store_down scope.\<close>

theorem fail_closed_refuses:
  assumes "lim_store l = Some (ops, s)" and "\<not> lim_failOpen l"
    and "storeLatched ts l \<or> (\<exists>err s'. op_incrAndGetMulti ops ts (admission_entries (bucketsFor now) enforceTTLsFor scopes)
           (snd (buildBudgetProbes scopes now)) s = (Inl err, s'))"
  shows "fst (checkAndCount now ts ts2 scopes l) = Some storeDownViolation
    \<and> lim_fallback (snd (checkAndCount now ts ts2 scopes l)) = lim_fallback l
    \<and> lim_rejections (snd (checkAndCount now ts ts2 scopes l))
        = rejectionCounter_increment (rejectionScopeStoreDown, rejectionScopeStoreDown) (lim_rejections l)"
proof -
  obtain ps rs where b: "buildBudgetProbes scopes now = (ps, rs)" by fastforce
  let ?es = "admission_entries (bucketsFor now) enforceTTLsFor scopes"
  obtain l1 where call: "storeIncrAndGetMulti ts ?es rs l = (None, l1)" and l1: "lim_fallback l1 = lim_fallback l"
    "lim_rejections l1 = lim_rejections l"
    using assms b by (cases "storeLatched ts l") (auto simp: storeIncrAndGetMulti_def store_call_def failPolicy_def)
  then show ?thesis by (simp add: checkAndCount_def b Let_def)
qed

theorem fail_closed_refuses_witness:
  "fst (checkAndCount 7 7 7 [] (newLimiter (Some (broken_store, ())) False)) = Some storeDownViolation"
  using fail_closed_refuses [of "newLimiter (Some (broken_store, ())) False" broken_store "()" 7 7 "[]"]
  by (simp add: newLimiter_def broken_store_def)

subsection \<open>Witnesses for admission\<close>

definition ann_scope :: limitScope where
  "ann_scope = \<lparr>sc_limits = Some (no_limits\<lparr>RequestsPerMinute := 2\<rparr>), sc_kind = ''user'', sc_id = ''ann''\<rparr>"

definition busy_limiter :: "int \<Rightarrow> unit limiter" where
  "busy_limiter n = (newLimiter None False)\<lparr>lim_fallback :=
     \<lparr>ms_data = [windowKey ''user'' ''ann'' metricReq WMin 0 \<mapsto> \<lparr>me_expiry = 60000000000, me_value = n\<rparr>], ms_lastSweep = 0\<rparr>\<rparr>"

lemma usdToMicros_zero: "usdToMicros (Fin 0) = 0"
proof -
  have "\<lfloor>1 / 2 :: rat\<rfloor> = 0" by (simp add: floor_eq_iff)
  then show ?thesis by (simp add: usdToMicros_def fl_def round_away_def)
qed

lemma ann_ok: "scopes_ok [ann_scope]" "served_by_fallback ts (busy_limiter n)"
  by (simp_all add: scopes_ok_def ann_scope_def served_by_fallback_def busy_limiter_def newLimiter_def)

lemma ann_within: "scope_within (ms_view (lim_fallback (busy_limiter n)) 0) 0 ann_scope \<longleftrightarrow> wrap64 (n + 1) \<le> 2"
  by (simp add: scope_within_def ann_scope_def no_limits_def request_room_def budget_room_def usdToMicros_zero
      busy_limiter_def memoryStore_get_def)


lemma ann_admitted: "decide [ann_scope] 0 (ms_view (lim_fallback (busy_limiter 1)) 0) = None"
  by (simp add: decide_None ann_within wrap64_def)

theorem checkAndCount_admitted_effect_witness:
  "memoryStore_get 0 (windowKey ''user'' ''ann'' metricReq WMin 0)
     (lim_fallback (snd (checkAndCount 0 0 0 [ann_scope] (busy_limiter 1)))) = 2"
proof -
  obtain l' where r: "checkAndCount 0 0 0 [ann_scope] (busy_limiter 1) = (None, l')"
    using checkAndCount_fallback [OF ann_ok(2) [of 0 1] ann_ok(1) _ refl refl, where now = 0 and ?ts2.0 = 0] ann_admitted by auto
  have v: "ms_view (lim_fallback (busy_limiter 1)) 0 (windowKey ''user'' ''ann'' metricReq WMin 0) = 1"
    by (simp add: busy_limiter_def memoryStore_get_def)
  note eff = checkAndCount_admitted_effect [OF ann_ok(2,1) order_refl r, THEN conjunct1]
  have "ms_view (lim_fallback l') 0 (windowKey ''user'' ''ann'' metricReq WMin 0) = wrap64 (1 + 1)"
    using fun_cong [OF eff, of "windowKey ''user'' ''ann'' metricReq WMin 0"] v by (simp add: ann_scope_def)
  with r show ?thesis by (simp add: wrap64_def)
qed


end
