(* ===== verification/GoDuration.thy ===== *)
theory GoDuration
  imports GoStrings Floats
begin

text \<open>
  \<open>time.ParseDuration\<close> of Go's standard library, which the configuration code calls on every duration
  option: signed sums of decimal numbers with units, with the overflow tests of the original on its
  unsigned accumulators.  A parse error is \<open>None\<close>.
\<close>

definition two63 :: int where "two63 = 9223372036854775808"

definition is_num_char :: "char \<Rightarrow> bool" where
  "is_num_char c \<longleftrightarrow> c = CHR ''.'' \<or> is_digit c"

fun leadingInt :: "int \<Rightarrow> string \<Rightarrow> (int \<times> string) option" where
  "leadingInt x [] = Some (x, [])"
| "leadingInt x (c # s) =
     (if \<not> is_digit c then Some (x, c # s)
      else if two63 div 10 < x then None
      else let y = x * 10 + int (digit_val c) in if two63 < y then None else leadingInt y s)"

fun leadingFraction :: "int \<Rightarrow> int \<Rightarrow> bool \<Rightarrow> string \<Rightarrow> int \<times> int \<times> string" where
  "leadingFraction x scale ovf [] = (x, scale, [])"
| "leadingFraction x scale ovf (c # s) =
     (if \<not> is_digit c then (x, scale, c # s)
      else if ovf then leadingFraction x scale True s
      else if (two63 - 1) div 10 < x then leadingFraction x scale True s
      else let y = x * 10 + int (digit_val c)
           in if two63 < y then leadingFraction x scale True s
              else leadingFraction y (scale * 10) False s)"

definition unit_of :: "string \<Rightarrow> int option" where
  "unit_of u =
     (if u = ''ns'' then Some 1
      else if u = ''us'' \<or> u = [CHR 0xC2, CHR 0xB5, CHR ''s''] \<or> u = [CHR 0xCE, CHR 0xBC, CHR ''s''] then Some 1000
      else if u = ''ms'' then Some 1000000
      else if u = ''s'' then Some 1000000000
      else if u = ''m'' then Some 60000000000
      else if u = ''h'' then Some 3600000000000
      else None)"

definition fraction_ns :: "int \<Rightarrow> int \<Rightarrow> int \<Rightarrow> int" where
  "fraction_ns f scale unit =
     (case fmul (fl (of_int f)) (fl (of_int unit / of_int scale)) of Fin q \<Rightarrow> floor q | _ \<Rightarrow> 0)"

definition duration_fraction :: "string \<Rightarrow> int \<times> int \<times> string \<times> bool" where
  "duration_fraction s =
     (if s \<noteq> [] \<and> hd s = CHR ''.''
      then (let (f, scale, s3) = leadingFraction 0 1 False (tl s) in (f, scale, s3, length s3 \<noteq> length (tl s)))
      else (0, 1, s, False))"

definition duration_value :: "int \<Rightarrow> int \<Rightarrow> int \<Rightarrow> string \<Rightarrow> int option" where
  "duration_value v f scale u =
     (case unit_of u of None \<Rightarrow> None | Some unit \<Rightarrow>
        if two63 div unit < v then None
        else let v1 = v * unit; v2 = (if 0 < f then v1 + fraction_ns f scale unit else v1)
             in if two63 < v2 then None else Some v2)"

definition duration_item :: "string \<Rightarrow> (int \<times> string) option" where
  "duration_item s =
     (if s = [] \<or> \<not> is_num_char (hd s) then None
      else (case leadingInt 0 s of None \<Rightarrow> None | Some (v, s1) \<Rightarrow>
          (case duration_fraction s1 of (f, scale, s2, post) \<Rightarrow>
             if length s1 = length s \<and> \<not> post then None
             else if takeWhile (\<lambda>c. \<not> is_num_char c) s2 = [] then None
             else (case duration_value v f scale (takeWhile (\<lambda>c. \<not> is_num_char c) s2) of None \<Rightarrow> None
                   | Some v2 \<Rightarrow> Some (v2, dropWhile (\<lambda>c. \<not> is_num_char c) s2)))))"

lemma leadingInt_length: "leadingInt x s = Some (v, s') \<Longrightarrow> length s' \<le> length s"
  by (induction x s rule: leadingInt.induct) (fastforce split: if_splits simp: Let_def)+

lemma leadingFraction_length: "leadingFraction x scale b s = (v, sc, s') \<Longrightarrow> length s' \<le> length s"
  by (induction x scale b s rule: leadingFraction.induct) (fastforce split: if_splits simp: Let_def)+

lemma dropWhile_shorter: "takeWhile P s \<noteq> [] \<Longrightarrow> length (dropWhile P s) < length s"
  by (cases s) (auto simp: length_dropWhile_le le_imp_less_Suc split: if_splits)

lemma duration_fraction_length: "duration_fraction s = (f, scale, s', post) \<Longrightarrow> length s' \<le> length s"
  by (auto simp: duration_fraction_def split: if_splits prod.splits dest!: leadingFraction_length)

lemma duration_item_shorter:
  assumes "duration_item s = Some (v, rest)" shows "length rest < length s"
proof -
  from assms obtain w s1 f scale s2 post where l: "leadingInt 0 s = Some (w, s1)"
    and f: "duration_fraction s1 = (f, scale, s2, post)"
    and r: "takeWhile (\<lambda>c. \<not> is_num_char c) s2 \<noteq> []" "rest = dropWhile (\<lambda>c. \<not> is_num_char c) s2"
    by (auto simp: duration_item_def split: if_splits option.splits prod.splits)
  from dropWhile_shorter [OF r(1)] duration_fraction_length [OF f] leadingInt_length [OF l] r(2)
  show ?thesis by simp
qed

function duration_items :: "int \<Rightarrow> string \<Rightarrow> int option" where
  "duration_items d s =
     (if s = [] then Some d
      else (case duration_item s of None \<Rightarrow> None
            | Some (v, rest) \<Rightarrow> if two63 < d + v then None else duration_items (d + v) rest))"
  by auto
termination by (relation "measure (\<lambda>(d, s). length s)") (auto dest: duration_item_shorter)

declare duration_items.simps [simp del]

definition time_ParseDuration :: "string \<Rightarrow> duration option" where
  "time_ParseDuration s =
     (let neg = (s \<noteq> [] \<and> hd s = CHR ''-'');
          s1 = (if s \<noteq> [] \<and> (hd s = CHR ''-'' \<or> hd s = CHR ''+'') then tl s else s)
      in if s1 = ''0'' then Some 0
         else if s1 = [] then None
         else (case duration_items 0 s1 of None \<Rightarrow> None
               | Some d \<Rightarrow> if neg then Some (- d) else if two63 - 1 < d then None else Some d))"

lemma parse_250ms: "time_ParseDuration ''250ms'' = Some (250 * millisecond)"
  by code_simp

end
