(* ===== verification/Retry.thy ===== *)
theory Retry
  imports GoDuration
begin

text \<open>
  Upstream outcomes and the retry policy (retry.go; \<open>matchesSentinel\<close> and \<open>isDeadlineExceeded\<close> of
  limits.go).  An error is a tree: sentinels and the typed errors of the gateway, wrapped by
  \<open>fmt.Errorf\<close> with \<open>%w\<close>; \<open>errors.Is\<close> walks the tree, a type assertion looks at its root only.

  \<open>retryPolicy.do\<close> runs over an environment that stands for what it calls: the upstream call, the
  wait on the context, the random source and the context's error.  Its result comes with the trace
  of recorded attempts and of waits.
\<close>

datatype sentinel = Canceled | DeadlineExceeded | RequestBuildFailed | ProviderTimeout | ErrUpstream

datatype go_error =
    Sentinel sentinel
  | ProviderHTTPError int
  | TranslateError string bool
  | ResponseTranslationError go_error
  | OtherError string
  | Wrap "go_error list"

fun errors_Is :: "sentinel \<Rightarrow> go_error \<Rightarrow> bool" where
  "errors_Is s (Sentinel t) \<longleftrightarrow> s = t"
| "errors_Is s (Wrap es) \<longleftrightarrow> (\<exists>e\<in>set es. errors_Is s e)"
| "errors_Is s _ \<longleftrightarrow> False"

record httpResponse =
  rsp_status :: int
  rsp_retryAfter :: string

type_synonym outcome = "httpResponse option \<times> go_error option"

definition matchesSentinel :: "go_error option \<Rightarrow> sentinel \<Rightarrow> bool" where
  "matchesSentinel err s \<longleftrightarrow> (case err of Some e \<Rightarrow> errors_Is s e | None \<Rightarrow> False)"

definition isDeadlineExceeded :: "go_error option \<Rightarrow> bool" where
  "isDeadlineExceeded err \<longleftrightarrow> matchesSentinel err DeadlineExceeded"

definition isTransient :: "httpResponse option \<Rightarrow> go_error option \<Rightarrow> bool" where
  "isTransient resp err \<longleftrightarrow> (case err of
     Some e \<Rightarrow> if errors_Is RequestBuildFailed e then False
               else \<not> errors_Is Canceled e \<and> \<not> errors_Is DeadlineExceeded e
   | None \<Rightarrow> (case resp of None \<Rightarrow> False | Some r \<Rightarrow> rsp_status r = 429 \<or> 500 \<le> rsp_status r))"

subsection \<open>Policy\<close>

definition defaultRetryAttempts :: int where "defaultRetryAttempts = 1"
definition defaultRetryBackoff :: string where "defaultRetryBackoff = ''250ms''"
definition maxRetryAttempts :: int where "maxRetryAttempts = 3"
definition maxRetryWait :: duration where [dur_defs]: "maxRetryWait = 2 * second"
definition maxRetryAfterWait :: duration where [dur_defs]: "maxRetryAfterWait = 30 * second"

record RetryConfig =
  RetryBackoff :: string
  RetryAttempts :: int
  RetryEnabled :: bool

record retryPolicy =
  rp_backoff :: duration
  rp_attempts :: int
  rp_enabled :: bool

datatype retryError = AttemptsOutOfRange int | BackoffUnparsable string | BackoffNotPositive string

definition totalTries :: "retryPolicy option \<Rightarrow> int" where
  "totalTries p = (case p of None \<Rightarrow> 1 | Some p \<Rightarrow>
     if \<not> rp_enabled p then 1 else (if rp_attempts p < 1 then 1 else rp_attempts p) + 1)"

definition newRetryPolicy :: "RetryConfig \<Rightarrow> retryError + retryPolicy" where
  "newRetryPolicy rc =
     (if \<not> RetryEnabled rc then Inr \<lparr>rp_backoff = 0, rp_attempts = 0, rp_enabled = False\<rparr>
      else let attempts = (if RetryAttempts rc = 0 then defaultRetryAttempts else RetryAttempts rc)
           in if attempts < 1 \<or> maxRetryAttempts < attempts then Inl (AttemptsOutOfRange attempts)
              else let backoffStr = (if RetryBackoff rc = [] then defaultRetryBackoff else RetryBackoff rc)
                   in (case time_ParseDuration backoffStr of
                         None \<Rightarrow> Inl (BackoffUnparsable backoffStr)
                       | Some backoff \<Rightarrow>
                           if backoff \<le> 0 then Inl (BackoffNotPositive backoffStr)
                           else Inr \<lparr>rp_backoff = backoff, rp_attempts = attempts, rp_enabled = True\<rparr>))"

definition retryAfterWait :: "httpResponse option \<Rightarrow> duration option" where
  "retryAfterWait resp = (case resp of None \<Rightarrow> None | Some r \<Rightarrow>
     if rsp_status r = 429 \<and> rsp_retryAfter r \<noteq> []
     then (case atoi (rsp_retryAfter r) of
             Some secs \<Rightarrow> if 0 \<le> secs
                          then let raWait = wrap64 (secs * second)
                               in Some (if maxRetryAfterWait < raWait then maxRetryAfterWait else raWait)
                          else None
           | None \<Rightarrow> None)
     else None)"

definition waitBefore :: "retryPolicy \<Rightarrow> nat \<Rightarrow> httpResponse option \<Rightarrow> duration \<times> bool" where
  "waitBefore p attempt resp =
     (case retryAfterWait resp of
        Some w \<Rightarrow> (w, True)
      | None \<Rightarrow>
          if maxRetryWait \<le> rp_backoff p then (maxRetryWait, False)
          else let wait = wrap64 (rp_backoff p * wrap64 (2 ^ (attempt - 1)))
               in (if maxRetryWait < wait then maxRetryWait else wait, False))"

record 's retryEnv =
  rv_call :: "'s \<Rightarrow> outcome \<times> 's"
  rv_Int63n :: "int \<Rightarrow> 's \<Rightarrow> int \<times> 's"
  rv_waitFn :: "duration \<Rightarrow> 's \<Rightarrow> bool \<times> 's"
  rv_ctxErr :: "'s \<Rightarrow> go_error option"

definition retryJitterFn :: "'s retryEnv \<Rightarrow> duration \<Rightarrow> 's \<Rightarrow> duration \<times> 's" where
  "retryJitterFn env d st =
     (if d \<le> 0 then (d, st)
      else let half = d div 2; (r, st1) = rv_Int63n env (d - half + 1) st in (half + r, st1))"

record 's retryRun =
  rr_result :: outcome
  rr_recorded :: "outcome list"
  rr_waits :: "duration list"
  rr_state :: 's

definition retry_wait :: "'s retryEnv \<Rightarrow> retryPolicy \<Rightarrow> nat \<Rightarrow> httpResponse option \<Rightarrow> 's \<Rightarrow> duration \<times> bool \<times> 's" where
  "retry_wait env p attempt resp st1 =
     (let (wait0, fromRetryAfter) = waitBefore p attempt resp;
          (wait, st2) = (if fromRetryAfter then (wait0, st1) else retryJitterFn env wait0 st1);
          (go, st3) = rv_waitFn env wait st2
      in (wait, go, st3))"

fun retry_loop :: "'s retryEnv \<Rightarrow> retryPolicy option \<Rightarrow> nat \<Rightarrow> nat \<Rightarrow> 's \<Rightarrow> 's retryRun" where
  "retry_loop env p 0 attempt st =
     (case rv_call env st of (res, st1) \<Rightarrow>
        \<lparr>rr_result = res, rr_recorded = [res], rr_waits = [], rr_state = st1\<rparr>)"
| "retry_loop env p (Suc left) attempt st =
     (case rv_call env st of ((resp, err), st1) \<Rightarrow>
        if \<not> isTransient resp err
        then \<lparr>rr_result = (resp, err), rr_recorded = [(resp, err)], rr_waits = [], rr_state = st1\<rparr>
        else (case retry_wait env (the p) attempt resp st1 of (wait, go, st3) \<Rightarrow>
               if \<not> go
               then \<lparr>rr_result = (case rv_ctxErr env st3 of Some e \<Rightarrow> (None, Some e) | None \<Rightarrow> (resp, err)),
                     rr_recorded = [(resp, err)], rr_waits = [wait], rr_state = st3\<rparr>
               else let r = retry_loop env p left (Suc attempt) st3
                    in r\<lparr>rr_recorded := (resp, err) # rr_recorded r, rr_waits := wait # rr_waits r\<rparr>))"

definition retryPolicy_do :: "'s retryEnv \<Rightarrow> retryPolicy option \<Rightarrow> 's \<Rightarrow> 's retryRun" where
  "retryPolicy_do env p st = retry_loop env p (nat (totalTries p) - 1) 1 st"

subsection \<open>Properties\<close>

lemma newRetryPolicy_ok:
  assumes "newRetryPolicy rc = Inr p"
  shows "1 \<le> totalTries (Some p) \<and> totalTries (Some p) \<le> 4 \<and> (rp_enabled p \<longrightarrow> 0 < rp_backoff p)"
  using assms
  by (auto simp: newRetryPolicy_def totalTries_def maxRetryAttempts_def Let_def
      split: if_splits option.splits)

lemma retry_loop_cases:
  obtains (final) res st1 where "rv_call env st = (res, st1)" and "left = 0 \<or> \<not> isTransient (fst res) (snd res)"
      and "retry_loop env p left attempt st = \<lparr>rr_result = res, rr_recorded = [res], rr_waits = [], rr_state = st1\<rparr>"
  | (stopped) res wait st3 where "retry_loop env p left attempt st
        = \<lparr>rr_result = (case rv_ctxErr env st3 of Some e \<Rightarrow> (None, Some e) | None \<Rightarrow> res),
           rr_recorded = [res], rr_waits = [wait], rr_state = st3\<rparr>"
  | (again) res wait st3 n r where "isTransient (fst res) (snd res)" and "left = Suc n"
      and "r = retry_loop env p n (Suc attempt) st3"
      and "retry_loop env p left attempt st = r\<lparr>rr_recorded := res # rr_recorded r, rr_waits := wait # rr_waits r\<rparr>"
proof -
  obtain resp err st1 where c: "rv_call env st = ((resp, err), st1)" by (metis prod.exhaust)
  show thesis
  proof (cases "left = 0 \<or> \<not> isTransient resp err")
    case True
    then show ?thesis using c by (cases left) (auto intro!: final)
  next
    case False
    then obtain n where n: "left = Suc n" and t: "isTransient resp err" by (cases left) auto
    obtain wait go st3 where w: "retry_wait env (the p) attempt resp st1 = (wait, go, st3)" by (metis prod.exhaust)
    show ?thesis
    proof (cases go)
      case True
      show ?thesis by (rule again [of "(resp, err)" n _ st3 wait]) (use c n t w True in \<open>simp_all add: Let_def\<close>)
    next
      case F: False
      have "retry_loop env p left attempt st
        = \<lparr>rr_result = (case rv_ctxErr env st3 of Some e \<Rightarrow> (None, Some e) | None \<Rightarrow> (resp, err)),
           rr_recorded = [(resp, err)], rr_waits = [wait], rr_state = st3\<rparr>" using c n t w F by simp
      then show ?thesis by (rule stopped)
    qed
  qed
qed

lemma retry_loop_length:
  "rr_recorded (retry_loop env p left attempt st) \<noteq> []
   \<and> length (rr_recorded (retry_loop env p left attempt st)) \<le> Suc left"
proof (induction left arbitrary: attempt st)
  case 0
  show ?case by (cases rule: retry_loop_cases [of env st 0 p attempt]) simp_all
next
  case (Suc left)
  show ?case by (cases rule: retry_loop_cases [of env st "Suc left" p attempt]) (use Suc.IH in simp_all)
qed

lemma retry_loop_transient:
  "\<forall>(resp, err)\<in>set (butlast (rr_recorded (retry_loop env p left attempt st))). isTransient resp err"
proof (induction left arbitrary: attempt st)
  case 0
  show ?case by (cases rule: retry_loop_cases [of env st 0 p attempt]) simp_all
next
  case (Suc left)
  show ?case
    by (cases rule: retry_loop_cases [of env st "Suc left" p attempt])
      (use Suc.IH retry_loop_length [of env p left] in \<open>auto simp: case_prod_unfold\<close>)
qed

lemma retry_loop_result:
  "rr_result (retry_loop env p left attempt st) = last (rr_recorded (retry_loop env p left attempt st))
   \<or> (\<exists>e st'. rr_result (retry_loop env p left attempt st) = (None, Some e) \<and> rv_ctxErr env st' = Some e)"
proof (induction left arbitrary: attempt st)
  case 0
  show ?case by (cases rule: retry_loop_cases [of env st 0 p attempt]) (auto split: option.splits)
next
  case (Suc left)
  show ?case
    by (cases rule: retry_loop_cases [of env st "Suc left" p attempt])
      (use Suc.IH retry_loop_length [of env p left] in \<open>auto split: option.splits\<close>)
qed

text \<open>C35: With a policy built by newRetryPolicy the retry loop makes at least one and at most
  totalTries, that is four, upstream calls, retries only transient outcomes, and returns the
  last outcome or the error of a cancelled context.\<close>

theorem retry_do_correct:
  assumes "newRetryPolicy rc = Inr p"
  shows "1 \<le> length (rr_recorded (retryPolicy_do env (Some p) st))
    \<and> length (rr_recorded (retryPolicy_do env (Some p) st)) \<le> nat (totalTries (Some p))
    \<and> totalTries (Some p) \<le> 4
    \<and> (\<forall>(resp, err)\<in>set (butlast (rr_recorded (retryPolicy_do env (Some p) st))). isTransient resp err)
    \<and> (rr_result (retryPolicy_do env (Some p) st) = last (rr_recorded (retryPolicy_do env (Some p) st))
       \<or> (\<exists>e st'. rr_result (retryPolicy_do env (Some p) st) = (None, Some e) \<and> rv_ctxErr env st' = Some e))"
proof -
  let ?n = "nat (totalTries (Some p)) - 1"
  have t: "1 \<le> totalTries (Some p)" "totalTries (Some p) \<le> 4" using newRetryPolicy_ok [OF assms] by simp_all
  have "1 \<le> length (rr_recorded (retry_loop env (Some p) ?n 1 st))"
    using retry_loop_length [of env "Some p" ?n 1 st] by (cases "rr_recorded (retry_loop env (Some p) ?n 1 st)") auto
  moreover have "length (rr_recorded (retry_loop env (Some p) ?n 1 st)) \<le> nat (totalTries (Some p))"
    using retry_loop_length [of env "Some p" ?n 1 st] t by linarith
  ultimately show ?thesis
    unfolding retryPolicy_do_def using t retry_loop_transient [of env "Some p" ?n 1 st] retry_loop_result [of env "Some p" ?n 1 st] by blast
qed

definition flaky_env :: "nat retryEnv" where
  "flaky_env = \<lparr>rv_call = (\<lambda>n. ((Some \<lparr>rsp_status = (if n < 1 then 503 else 200), rsp_retryAfter = []\<rparr>, None), Suc n)),
     rv_Int63n = (\<lambda>k n. (0, n)), rv_waitFn = (\<lambda>d n. (True, n)), rv_ctxErr = (\<lambda>n. None)\<rparr>"

theorem retry_do_correct_witness:
  "length (rr_recorded (retryPolicy_do flaky_env (Some \<lparr>rp_backoff = 250000000, rp_attempts = 1, rp_enabled = True\<rparr>) 0)) \<le> 2"
proof -
  have "newRetryPolicy \<lparr>RetryBackoff = [], RetryAttempts = 0, RetryEnabled = True\<rparr>
      = Inr \<lparr>rp_backoff = 250000000, rp_attempts = 1, rp_enabled = True\<rparr>"
    by (simp add: newRetryPolicy_def defaultRetryAttempts_def maxRetryAttempts_def defaultRetryBackoff_def
        parse_250ms dur_defs Let_def)
  from retry_do_correct [OF this, of flaky_env 0] show ?thesis by (simp add: totalTries_def)
qed

text \<open>Waits: the ladder stays between the base backoff and two seconds.\<close>

lemma backoff_ladder:
  assumes "0 < b" and "b < maxRetryWait" and "attempt \<le> 4"
  shows "wrap64 (b * wrap64 (2 ^ (attempt - 1))) = b * 2 ^ (attempt - 1)"
proof -
  have le: "(2::int) ^ (attempt - 1) \<le> 2 ^ 3" using assms(3) by (intro power_increasing) auto
  have ge: "(1::int) \<le> 2 ^ (attempt - 1)" by simp
  have "b * 2 ^ (attempt - 1) \<le> maxRetryWait * 2 ^ 3" using assms le by (intro mult_mono) auto
  moreover have "0 \<le> b * 2 ^ (attempt - 1)" using assms(1) by simp
  ultimately have "in_int64 (b * 2 ^ (attempt - 1))" by (simp add: in_int64_def min_int64_def max_int64_def dur_defs)
  moreover have "in_int64 (2 ^ (attempt - 1))"
    using order_trans [OF _ ge, of min_int64] order_trans [OF le, of max_int64]
    by (simp add: in_int64_def min_int64_def max_int64_def)
  ultimately show ?thesis by simp
qed

theorem waitBefore_bounds:
  assumes "newRetryPolicy rc = Inr p" and "rp_enabled p" and "1 \<le> attempt" and "attempt \<le> 4"
    and "waitBefore p attempt resp = (wait, fromRetryAfter)"
  shows "wait \<le> maxRetryAfterWait
    \<and> (\<not> fromRetryAfter \<longrightarrow> wait = min maxRetryWait (rp_backoff p * 2 ^ (attempt - 1)) \<and> 0 < wait)"
proof -
  have b: "0 < rp_backoff p" using newRetryPolicy_ok [OF assms(1)] assms(2) by simp
  have one: "(1::int) \<le> 2 ^ (attempt - 1)" by simp
  show ?thesis
  proof (cases "retryAfterWait resp")
    case (Some w)
    then have "w \<le> maxRetryAfterWait"
      by (auto simp: retryAfterWait_def Let_def split: option.splits if_splits)
    with Some assms(5) show ?thesis by (simp add: waitBefore_def)
  next
    case None
    show ?thesis
    proof (cases "maxRetryWait \<le> rp_backoff p")
      case True
      have "rp_backoff p * 1 \<le> rp_backoff p * 2 ^ (attempt - 1)" using b one by (intro mult_left_mono) auto
      then have "maxRetryWait \<le> rp_backoff p * 2 ^ (attempt - 1)" using True by linarith
      moreover have "wait = maxRetryWait" using True None assms(5) by (simp add: waitBefore_def)
      moreover have "0 < maxRetryWait" "maxRetryWait \<le> maxRetryAfterWait" by (simp_all add: dur_defs)
      ultimately show ?thesis by (simp only: min_absorb1) simp
    next
      case False
      then have e: "wrap64 (rp_backoff p * wrap64 (2 ^ (attempt - 1))) = rp_backoff p * 2 ^ (attempt - 1)"
        using backoff_ladder [OF b _ assms(4)] by simp
      have "wait = min maxRetryWait (rp_backoff p * 2 ^ (attempt - 1))"
        using False None assms(5) unfolding waitBefore_def Let_def e by (auto simp: min_def)
      moreover have "0 < rp_backoff p * 2 ^ (attempt - 1)" using b by simp
      moreover have "0 < maxRetryWait" "maxRetryWait \<le> maxRetryAfterWait" by (simp_all add: dur_defs)
      ultimately show ?thesis by (simp add: min_def)
    qed
  qed
qed

theorem waitBefore_bounds_witness:
  "fst (waitBefore \<lparr>rp_backoff = 250000000, rp_attempts = 1, rp_enabled = True\<rparr> 2 None) = 500000000"
proof -
  have p: "newRetryPolicy \<lparr>RetryBackoff = [], RetryAttempts = 0, RetryEnabled = True\<rparr>
      = Inr \<lparr>rp_backoff = 250000000, rp_attempts = 1, rp_enabled = True\<rparr>"
    by (simp add: newRetryPolicy_def defaultRetryAttempts_def maxRetryAttempts_def defaultRetryBackoff_def
        parse_250ms dur_defs Let_def)
  have w: "waitBefore \<lparr>rp_backoff = 250000000, rp_attempts = 1, rp_enabled = True\<rparr> 2 None
      = (fst (waitBefore \<lparr>rp_backoff = 250000000, rp_attempts = 1, rp_enabled = True\<rparr> 2 None), False)"
    by (simp add: waitBefore_def retryAfterWait_def prod_eq_iff dur_defs Let_def)
  from waitBefore_bounds [OF p _ _ _ w] show ?thesis by (simp add: dur_defs)
qed

text \<open>A Retry-After of more seconds than fit a duration wraps around before it is clamped.\<close>

theorem retryAfter_wraps:
  "waitBefore p attempt (Some \<lparr>rsp_status = 429, rsp_retryAfter = ''9223372037''\<rparr>) = (- 9223372036709551616, True)"
proof -
  have "atoi ''9223372037'' = Some 9223372037" 
    by (simp add: atoi_def digits_val_def is_digit_def digit_val_def in_int64_def min_int64_def max_int64_def)
  moreover have "wrap64 (9223372037 * second) = - 9223372036709551616"
    unfolding wrap64_def second_def by simp
  moreover have "\<not> maxRetryAfterWait < - 9223372036709551616" by (simp add: dur_defs)
  ultimately show ?thesis by (simp add: waitBefore_def retryAfterWait_def)
qed

end
