(* ===== verification/Concurrency.thy ===== *)
theory Concurrency
  imports Retry
begin

text \<open>
  The concurrency learner (concurrency.go): per provider the requests in flight and a learned limit,
  halved when the provider signals overload and grown by one after four successes.  The closure that
  \<open>begin\<close> returns decrements at most once (\<open>sync.Once\<close>); it is a handle with a done flag.  The
  \<open>RateLimit-Policy\<close> response header is an optional string.
\<close>

definition successesPerRegrow :: int where "successesPerRegrow = 4"
definition learnedCeiling :: int where "learnedCeiling = 64"

definition concurrencyPolicyValue :: "int \<Rightarrow> string" where
  "concurrencyPolicyValue n =
     [CHR 0x22] @ ''concurrency'' @ [CHR 0x22] @ '';q='' @ itoa n @ '';qu='' @ [CHR 0x22] @ ''concurrent-requests'' @ [CHR 0x22]"

record providerConcurrency =
  pc_inFlight :: int
  pc_learned :: int
  pc_successes :: int

record concurrencyLearner =
  cl_byProvider :: "string \<rightharpoonup> providerConcurrency"
  cl_explicit :: int

definition newConcurrencyLearner :: "int \<Rightarrow> concurrencyLearner" where
  "newConcurrencyLearner explicit = \<lparr>cl_byProvider = Map.empty, cl_explicit = explicit\<rparr>"

definition learner_state :: "concurrencyLearner \<Rightarrow> string \<Rightarrow> providerConcurrency" where
  "learner_state c p = (case cl_byProvider c p of
     Some s \<Rightarrow> s | None \<Rightarrow> \<lparr>pc_inFlight = 0, pc_learned = 0, pc_successes = 0\<rparr>)"

abbreviation put_state :: "string \<Rightarrow> providerConcurrency \<Rightarrow> concurrencyLearner \<Rightarrow> concurrencyLearner" where
  "put_state p s c \<equiv> c\<lparr>cl_byProvider := (cl_byProvider c)(p \<mapsto> s)\<rparr>"

definition concurrency_begin :: "string \<Rightarrow> concurrencyLearner \<Rightarrow> concurrencyLearner" where
  "concurrency_begin p c = (let s = learner_state c p in put_state p (s\<lparr>pc_inFlight := pc_inFlight s + 1\<rparr>) c)"

definition concurrency_end :: "string \<Rightarrow> bool \<Rightarrow> concurrencyLearner \<Rightarrow> bool \<times> concurrencyLearner" where
  "concurrency_end p fired c =
     (if fired then (True, c)
      else let s = learner_state c p in (True, put_state p (s\<lparr>pc_inFlight := pc_inFlight s - 1\<rparr>) c))"

definition outcome_class :: "httpResponse option \<Rightarrow> go_error option \<Rightarrow> bool \<times> bool" where
  "outcome_class resp err =
     (case resp of
        Some r \<Rightarrow> (rsp_status r = 429 \<or> rsp_status r = 503 \<or> rsp_status r = 504, rsp_status r < 400)
      | None \<Rightarrow> (err \<noteq> None \<and> isDeadlineExceeded err, False))"

definition on_overload :: "providerConcurrency \<Rightarrow> providerConcurrency" where
  "on_overload s =
     (let nxt = pc_inFlight s sdiv 2;
          nxt = (if nxt < 1 then 1 else nxt);
          nxt = (if nxt > learnedCeiling - 1 then learnedCeiling - 1 else nxt)
      in s\<lparr>pc_successes := 0, pc_learned := (if pc_learned s = 0 \<or> nxt < pc_learned s then nxt else pc_learned s)\<rparr>)"

definition on_success :: "providerConcurrency \<Rightarrow> providerConcurrency" where
  "on_success s =
     (if pc_learned s = 0 then s
      else if pc_successes s + 1 < successesPerRegrow then s\<lparr>pc_successes := pc_successes s + 1\<rparr>
      else s\<lparr>pc_successes := 0, pc_learned := (if pc_learned s + 1 \<ge> learnedCeiling then 0 else pc_learned s + 1)\<rparr>)"

definition concurrency_observe :: "string \<Rightarrow> httpResponse option \<Rightarrow> go_error option \<Rightarrow> concurrencyLearner \<Rightarrow> concurrencyLearner" where
  "concurrency_observe p resp err c =
     (let (overload, success) = outcome_class resp err
      in if \<not> overload \<and> \<not> success then c
         else let s = learner_state c p in put_state p (if overload then on_overload s else on_success s) c)"

definition concurrency_limit :: "concurrencyLearner \<Rightarrow> string \<Rightarrow> int" where
  "concurrency_limit c p =
     (let learned = (case cl_byProvider c p of Some s \<Rightarrow> pc_learned s | None \<Rightarrow> 0)
      in if cl_explicit c > 0 \<and> (learned = 0 \<or> cl_explicit c < learned) then cl_explicit c else learned)"

definition setConcurrencyHeader :: "int \<Rightarrow> string option \<Rightarrow> string option" where
  "setConcurrencyHeader n h = (if n > 0 then Some (concurrencyPolicyValue n) else None)"

subsection \<open>Runs\<close>

datatype concurrencyEvent = Begin string | End string bool | Observe string "httpResponse option" "go_error option"

fun concurrency_step :: "concurrencyEvent \<Rightarrow> concurrencyLearner \<Rightarrow> concurrencyLearner" where
  "concurrency_step (Begin p) c = concurrency_begin p c"
| "concurrency_step (End p fired) c = snd (concurrency_end p fired c)"
| "concurrency_step (Observe p resp err) c = concurrency_observe p resp err c"

definition pc_ok :: "providerConcurrency \<Rightarrow> bool" where
  "pc_ok s \<longleftrightarrow> 0 \<le> pc_learned s \<and> pc_learned s < learnedCeiling \<and> 0 \<le> pc_successes s \<and> pc_successes s < successesPerRegrow"

definition learner_ok :: "concurrencyLearner \<Rightarrow> bool" where
  "learner_ok c \<longleftrightarrow> (\<forall>s\<in>ran (cl_byProvider c). pc_ok s)"

lemma learner_state_ok: "learner_ok c \<Longrightarrow> pc_ok (learner_state c p)"
  by (auto simp: learner_ok_def learner_state_def pc_ok_def learnedCeiling_def successesPerRegrow_def
      split: option.splits intro: ranI)

lemma pc_ok_steps [inv_intros]:
  "pc_ok s \<Longrightarrow> pc_ok (on_overload s)" "pc_ok s \<Longrightarrow> pc_ok (on_success s)" "pc_ok s \<Longrightarrow> pc_ok (s\<lparr>pc_inFlight := n\<rparr>)"
  by (auto simp: pc_ok_def on_overload_def on_success_def learnedCeiling_def successesPerRegrow_def Let_def)

lemma put_state_ok: "learner_ok c \<Longrightarrow> pc_ok s \<Longrightarrow> learner_ok (put_state p s c)"
  by (auto simp: learner_ok_def ran_def)

lemma concurrency_step_ok: "learner_ok c \<Longrightarrow> learner_ok (concurrency_step e c) \<and> cl_explicit (concurrency_step e c) = cl_explicit c"
  by (cases e)
    (auto simp: concurrency_begin_def concurrency_end_def concurrency_observe_def Let_def
      intro!: put_state_ok pc_ok_steps learner_state_ok split: prod.splits)

lemma concurrency_run_ok:
  "learner_ok c \<Longrightarrow> learner_ok (fold concurrency_step es c) \<and> cl_explicit (fold concurrency_step es c) = cl_explicit c"
  by (induction es arbitrary: c) (simp_all add: concurrency_step_ok)

theorem concurrency_limit_sound:
  assumes "c = fold concurrency_step es (newConcurrencyLearner explicit)" and "0 \<le> explicit"
  shows "0 \<le> concurrency_limit c p
    \<and> (0 < explicit \<longrightarrow> 1 \<le> concurrency_limit c p \<and> concurrency_limit c p \<le> explicit)
    \<and> (explicit = 0 \<longrightarrow> concurrency_limit c p \<le> 63)
    \<and> setConcurrencyHeader (concurrency_limit c p) h
        = (if concurrency_limit c p = 0 then None else Some (concurrencyPolicyValue (concurrency_limit c p)))"
proof -
  have "learner_ok (newConcurrencyLearner explicit)" by (simp add: learner_ok_def newConcurrencyLearner_def)
  from concurrency_run_ok [OF this, of es] assms(1)
  have ok: "learner_ok c" and ex: "cl_explicit c = explicit" by (simp_all add: newConcurrencyLearner_def)
  from learner_state_ok [OF ok, of p] have "0 \<le> pc_learned (learner_state c p)" "pc_learned (learner_state c p) \<le> 63"
    by (auto simp: pc_ok_def learnedCeiling_def)
  moreover have "concurrency_limit c p = (if explicit > 0 \<and> (pc_learned (learner_state c p) = 0 \<or> explicit < pc_learned (learner_state c p))
      then explicit else pc_learned (learner_state c p))"
    by (auto simp: concurrency_limit_def learner_state_def ex split: option.splits)
  ultimately show ?thesis using assms(2) by (auto simp: setConcurrencyHeader_def)
qed

theorem concurrency_limit_sound_witness:
  "concurrency_limit (fold concurrency_step [Begin ''a'', Begin ''a'', Observe ''a'' (Some \<lparr>rsp_status = 429, rsp_retryAfter = []\<rparr>) None]
     (newConcurrencyLearner 8)) ''a'' \<le> 8"
  using concurrency_limit_sound [OF refl, of 8
      "[Begin ''a'', Begin ''a'', Observe ''a'' (Some \<lparr>rsp_status = 429, rsp_retryAfter = []\<rparr>) None]" "''a''"]
  by simp

end
