(* ===== verification/Accounting.thy ===== *)
theory Accounting
  imports Limiter Retry
begin

text \<open>
  What the limiter records after a request and what the dashboards read back (limits.go): usage and
  cost per scope, latency histograms, cache and pricing counters, target and provider counters, and
  the reads of current usage, history and span totals.

  Every batch is a list of \<open>countSpec\<close>s, one per \<open>counterIncr\<close> literal of the code; \<open>entry\<close> turns a
  spec into the literal with the window's bucket, lifetime and enforcement lifetime.  Key injectivity
  is then a fact about specs, and what a batch adds to a counter is the sum of its specs' deltas.
\<close>

subsection \<open>Entries\<close>

record countSpec =
  cs_kind :: string
  cs_id :: string
  cs_metric :: string
  cs_window :: window
  cs_delta :: int

fun bucket_of :: "windowBuckets \<Rightarrow> window \<Rightarrow> string" where
  "bucket_of wb WMin = wb_min wb" | "bucket_of wb WHour = wb_hour wb"
| "bucket_of wb WDay = wb_day wb" | "bucket_of wb WMonth = wb_month wb"

fun ttl_of :: "window \<Rightarrow> duration" where
  "ttl_of WMin = minWindowTTL" | "ttl_of WHour = hourWindowTTL"
| "ttl_of WDay = dayWindowTTL" | "ttl_of WMonth = monthWindowTTL"

fun enforce_of :: "enforceTTLSet \<Rightarrow> window \<Rightarrow> duration" where
  "enforce_of et WMin = et_min et" | "enforce_of et WHour = et_hour et"
| "enforce_of et WDay = et_day et" | "enforce_of et WMonth = et_month et"

definition entry :: "windowBuckets \<Rightarrow> enforceTTLSet \<Rightarrow> countSpec \<Rightarrow> counterIncr" where
  "entry wb et s = \<lparr>ci_key = windowKeyForBucket (cs_kind s) (cs_id s) (cs_metric s) (cs_window s) (bucket_of wb (cs_window s)),
     ci_delta = cs_delta s, ci_ttl = ttl_of (cs_window s), ci_enforceTTL = enforce_of et (cs_window s), ci_absolute = False\<rparr>"

abbreviation entries_at :: "gtime \<Rightarrow> countSpec list \<Rightarrow> counterIncr list" where
  "entries_at now \<equiv> map (entry (bucketsFor now) enforceTTLsFor)"

definition specs :: "string \<Rightarrow> string \<Rightarrow> string \<Rightarrow> int \<Rightarrow> window list \<Rightarrow> countSpec list" where
  "specs kind sid metric delta ws =
     map (\<lambda>w. \<lparr>cs_kind = kind, cs_id = sid, cs_metric = metric, cs_window = w, cs_delta = delta\<rparr>) ws"

subsection \<open>Latency buckets\<close>

record latencySample =
  lat_duration :: duration
  lat_ttfb :: duration
  lat_hasTTFB :: bool
  lat_streaming :: bool

fun fadd :: "float64 \<Rightarrow> float64 \<Rightarrow> float64" where
  "fadd (Fin x) (Fin y) = fl (x + y)"
| "fadd x y = (if x = NaN \<or> y = NaN then NaN
     else case x of Fin _ \<Rightarrow> y | _ \<Rightarrow> (case y of Fin _ \<Rightarrow> x | _ \<Rightarrow> if x = y then x else NaN))"

definition time_Seconds :: "duration \<Rightarrow> float64" where
  "time_Seconds d = fadd (fl (of_int (d sdiv second))) (fl (of_int (d smod second) / 1000000000))"

definition latencyBucketBounds :: "float64 list" where
  "latencyBucketBounds = map fl [1 / 10, 1 / 4, 1 / 2, 1, 2, 5, 10, 15, 30, 60, 120, 300, 600]"

definition latencyBucketIndex :: "duration \<Rightarrow> nat \<times> bool" where
  "latencyBucketIndex d =
     (let v = time_Seconds d; i = length (takeWhile (\<lambda>bound. \<not> (float_less v bound \<or> v = bound)) latencyBucketBounds)
      in (i, i = length latencyBucketBounds))"

definition latency_specs :: "string \<Rightarrow> string \<Rightarrow> latencySample \<Rightarrow> countSpec list" where
  "latency_specs kind sid lat =
     specs kind sid (latencyDurationMetric (fst (latencyBucketIndex (lat_duration lat)))) 1 [WHour, WDay]
     @ (if lat_hasTTFB lat
        then specs kind sid (latencyTTFBMetric (fst (latencyBucketIndex (lat_ttfb lat)))) 1 [WHour, WDay] else [])"

definition latencyCounterEntries :: "string \<Rightarrow> string \<Rightarrow> latencySample \<Rightarrow> windowBuckets \<Rightarrow> enforceTTLSet \<Rightarrow> counterIncr list" where
  "latencyCounterEntries kind sid lat wb et = map (entry wb et) (latency_specs kind sid lat)"

subsection \<open>accountWith\<close>

record usage =
  us_prompt :: int
  us_completion :: int
  us_estimated :: bool

record accountExtras =
  ax_provider :: string
  ax_failoverFrom :: string
  ax_lat :: latencySample
  ax_hasLat :: bool
  ax_cacheMiss :: bool
  ax_noModelHistograms :: bool

definition usage_total :: "usage \<Rightarrow> int" where
  "usage_total u = wrap64 (us_prompt u + us_completion u)"

definition maxUsageTokensPerRequest :: int where "maxUsageTokensPerRequest = 2 ^ 30"
definition maxCostMicrosPerRequest :: int where "maxCostMicrosPerRequest = 2 ^ 40"

text \<open>The two sanity filters: an implausible value is dropped, then a negative one.\<close>

definition drop_over :: "int \<Rightarrow> int \<Rightarrow> int" where
  "drop_over limit n = (if limit < n then 0 else n)"

definition drop_negative :: "int \<Rightarrow> int" where
  "drop_negative n = (if n < 0 then 0 else n)"

definition plausible :: "usage \<Rightarrow> int \<Rightarrow> (int \<times> int \<times> int) \<times> string list" where
  "plausible u costMicros =
     (let over = maxUsageTokensPerRequest < us_prompt u \<or> maxUsageTokensPerRequest < us_completion u
                 \<or> maxCostMicrosPerRequest < costMicros;
          p1 = drop_over maxUsageTokensPerRequest (us_prompt u);
          c1 = drop_over maxUsageTokensPerRequest (us_completion u);
          m1 = drop_over maxCostMicrosPerRequest costMicros;
          neg = p1 < 0 \<or> c1 < 0 \<or> m1 < 0
      in ((drop_negative p1, drop_negative c1, drop_negative m1),
          (if over then [''limits: dropping implausible usage reported by an upstream''] else [])
          @ (if neg then [''limits: dropping negative usage reported by an upstream''] else [])))"

definition usage_specs :: "string \<Rightarrow> string \<Rightarrow> window list \<Rightarrow> int \<times> int \<times> int \<Rightarrow> countSpec list" where
  "usage_specs kind sid ws = (\<lambda>(prompt, completion, costMicros).
     (if prompt \<noteq> 0 then specs kind sid metricTokIn prompt ws else [])
     @ (if completion \<noteq> 0 then specs kind sid metricTokOut completion ws else [])
     @ (if costMicros \<noteq> 0 then specs kind sid metricCost costMicros ws else []))"

definition scope_account_specs :: "int \<times> int \<times> int \<Rightarrow> limitScope \<Rightarrow> countSpec list" where
  "scope_account_specs n sc =
     (if sc_kind sc = kindModel then specs (sc_kind sc) (sc_id sc) metricReq 1 [WHour, WDay, WMonth] else [])
     @ usage_specs (sc_kind sc) (sc_id sc) [WHour, WDay, WMonth] n"

definition last_of_kind :: "string \<Rightarrow> limitScope list \<Rightarrow> string option" where
  "last_of_kind kind scopes =
     (case filter (\<lambda>sc. sc_kind sc = kind) scopes of [] \<Rightarrow> None | ms \<Rightarrow> Some (sc_id (last ms)))"

definition account_specs :: "limitScope list \<Rightarrow> int \<times> int \<times> int \<Rightarrow> accountExtras \<Rightarrow> 's limiter \<Rightarrow> countSpec list" where
  "account_specs scopes n x l =
     (let users = filter (\<lambda>sc. sc_kind sc = ''user'') scopes; model = last_of_kind kindModel scopes in
      concat (map (scope_account_specs n) scopes)
      @ (if lim_statsUserModel l \<and> length users = 1 \<and> model \<noteq> None \<and> \<not> ax_noModelHistograms x
         then let sid = userModelScopeID (sc_id (last users)) (the model)
              in specs kindUserModel sid metricReq 1 [WDay, WMonth] @ usage_specs kindUserModel sid [WDay, WMonth] n
         else [])
      @ (if ax_failoverFrom x \<noteq> [] \<and> lim_statsAdmin l
         then specs kindProvider (ax_failoverFrom x) metricFover 1 [WHour, WDay] else [])
      @ (if ax_hasLat x \<and> lim_statsLatency l
         then (if ax_provider x \<noteq> [] then latency_specs kindProvider (ax_provider x) (ax_lat x) else [])
              @ (if model \<noteq> None \<and> \<not> ax_noModelHistograms x then latency_specs kindModel (the model) (ax_lat x) else [])
         else [])
      @ (if ax_cacheMiss x \<and> lim_statsAdmin l
         then specs totalScopeKind totalScopeID metricCmiss 1 [WHour, WDay]
              @ (if model \<noteq> None then specs kindModel (the model) metricCmiss 1 [WDay] else [])
         else []))"

definition accountWith :: "gtime \<Rightarrow> gtime \<Rightarrow> limitScope list \<Rightarrow> usage \<Rightarrow> int \<Rightarrow> accountExtras \<Rightarrow> 's limiter \<Rightarrow> 's limiter" where
  "accountWith now ts scopes u costMicros x l =
     (let (n, msgs) = plausible u costMicros;
          l1 = l\<lparr>lim_log := lim_log l @ msgs\<rparr>;
          entries = entries_at now (account_specs scopes n x l1)
      in if entries = [] then l1 else snd (storeIncrMulti ts entries l1))"

subsection \<open>Telemetry counters\<close>

definition cache_hit_specs :: "string \<Rightarrow> int \<Rightarrow> countSpec list" where
  "cache_hit_specs canonical savedMicros =
     specs totalScopeKind totalScopeID metricChit 1 [WHour, WDay]
     @ (if savedMicros \<noteq> 0 then specs totalScopeKind totalScopeID metricCsave savedMicros [WHour, WDay] else [])
     @ (if canonical \<noteq> []
        then specs kindModel canonical metricChit 1 [WDay]
             @ (if savedMicros \<noteq> 0 then specs kindModel canonical metricCsave savedMicros [WDay] else [])
        else [])"

definition recordCacheHit :: "gtime \<Rightarrow> string \<Rightarrow> int \<Rightarrow> 's limiter \<Rightarrow> 's limiter" where
  "recordCacheHit now canonical savedMicros l =
     (if \<not> lim_statsAdmin l then l else countAsync now (entries_at now (cache_hit_specs canonical savedMicros)) l)"

definition recordUnpriced402 :: "gtime \<Rightarrow> string \<Rightarrow> 's limiter \<Rightarrow> 's limiter" where
  "recordUnpriced402 now canonical l =
     (if \<not> lim_statsAdmin l then l
      else countAsync now (entries_at now
        (specs totalScopeKind totalScopeID metricR402 1 [WHour, WDay]
         @ (if canonical \<noteq> [] then specs kindModel canonical metricR402 1 [WHour, WDay] else []))) l)"

definition target_specs :: "bool \<Rightarrow> string \<Rightarrow> limitScope \<Rightarrow> countSpec list" where
  "target_specs statsAdmin caller sc =
     specs (sc_kind sc) (sc_id sc) metricReq 1 [WMin, WHour, WDay, WMonth]
     @ (if caller \<noteq> [] \<and> statsAdmin
        then specs kindTargetCaller (targetCallerScopeID (sc_kind sc) (sc_id sc) caller) metricReq 1 [WDay, WMonth] else [])"

definition countTargetRequestsBy :: "gtime \<Rightarrow> gtime \<Rightarrow> string \<Rightarrow> limitScope list \<Rightarrow> 's limiter \<Rightarrow> 's limiter" where
  "countTargetRequestsBy now ts caller scopes l =
     (if scopes = [] then l
      else snd (storeIncrMulti ts (entries_at now (concat (map (target_specs (lim_statsAdmin l) caller) scopes))) l))"

definition countTargetRequestBy :: "gtime \<Rightarrow> gtime \<Rightarrow> string \<Rightarrow> string \<Rightarrow> string \<Rightarrow> 's limiter \<Rightarrow> 's limiter" where
  "countTargetRequestBy now ts caller kind sid =
     countTargetRequestsBy now ts caller [\<lparr>sc_limits = None, sc_kind = kind, sc_id = sid\<rparr>]"

definition attempt_specs :: "bool \<Rightarrow> string \<Rightarrow> string \<Rightarrow> bool \<Rightarrow> bool \<Rightarrow> countSpec list" where
  "attempt_specs statsAdmin provider model fail timeout =
     (let sid = providerModelScopeID provider model in
      specs kindProvider provider metricProvAttempt 1 [WMin, WDay]
      @ (if fail then specs kindProvider provider metricProvFail 1 [WMin, WDay] else [])
      @ (if model \<noteq> []
         then specs kindProviderModel sid metricProvAttempt 1 [WDay]
              @ (if fail then specs kindProviderModel sid metricProvFail 1 [WDay] else [])
         else [])
      @ (if statsAdmin
         then specs kindProvider provider metricProvAttempt 1 [WHour]
              @ (if fail then specs kindProvider provider metricProvFail 1 [WHour] else [])
              @ (if model \<noteq> []
                 then specs kindProviderModel sid metricProvAttempt 1 [WHour]
                      @ (if fail then specs kindProviderModel sid metricProvFail 1 [WHour] else [])
                 else [])
              @ (if timeout then specs kindProvider provider metricProvTimeout 1 [WHour, WDay] else [])
         else []))"

definition recordProviderAttempt :: "gtime \<Rightarrow> string \<Rightarrow> string \<Rightarrow> httpResponse option \<Rightarrow> go_error option \<Rightarrow> 's limiter \<Rightarrow> 's limiter" where
  "recordProviderAttempt now provider model resp err l =
     (if provider = [] then l
      else let fail = isTransient resp err \<or> isDeadlineExceeded err;
               timeout = matchesSentinel err ProviderTimeout \<or> isDeadlineExceeded err
           in countAsync now (entries_at now (attempt_specs (lim_statsAdmin l) provider model fail timeout)) l)"

subsection \<open>Reads\<close>

record targetCounters =
  tc_requestsPerMinute :: int
  tc_requestsPerDay :: int
  tc_requestsPerMonth :: int

definition targetUsageKeys :: "string \<Rightarrow> string \<Rightarrow> gtime \<Rightarrow> string list" where
  "targetUsageKeys kind sid now = map (\<lambda>w. windowKey kind sid metricReq w now) [WMin, WDay, WMonth]"

definition slice :: "nat \<Rightarrow> nat \<Rightarrow> 'a list \<Rightarrow> 'a list" where
  "slice start n xs = take n (drop start xs)"

definition targetUsage :: "gtime \<Rightarrow> gtime \<Rightarrow> limitScope list \<Rightarrow> 's limiter \<Rightarrow> targetCounters list \<times> 's limiter" where
  "targetUsage now ts scopes l =
     (let zero = map (\<lambda>_. \<lparr>tc_requestsPerMinute = 0, tc_requestsPerDay = 0, tc_requestsPerMonth = 0\<rparr>) scopes in
      if scopes = [] then (zero, l)
      else let allKeys = concat (map (\<lambda>sc. targetUsageKeys (sc_kind sc) (sc_id sc) now) scopes);
               (res, l1) = storeGetMulti ts allKeys l
           in case res of
                None \<Rightarrow> (zero, l1)
              | Some vals \<Rightarrow>
                  if length vals \<noteq> length allKeys \<or> configuredStoreDown ts l1 then (zero, l1)
                  else (map (\<lambda>i. let v = slice (i * 3) 3 vals
                               in \<lparr>tc_requestsPerMinute = v ! 0, tc_requestsPerDay = v ! 1, tc_requestsPerMonth = v ! 2\<rparr>)
                          [0..<length scopes], l1))"

record providerCounters =
  pr_attemptsMinute :: int
  pr_failuresMinute :: int
  pr_attemptsDay :: int
  pr_failuresDay :: int
  pr_storeDown :: bool

definition providerCounterKeys :: "string \<Rightarrow> string \<Rightarrow> gtime \<Rightarrow> string list" where
  "providerCounterKeys kind sid now =
     (if kind = kindProviderModel
      then [windowKey kind sid metricProvAttempt WDay now, windowKey kind sid metricProvFail WDay now]
      else [windowKey kind sid metricProvAttempt WMin now, windowKey kind sid metricProvFail WMin now,
            windowKey kind sid metricProvAttempt WDay now, windowKey kind sid metricProvFail WDay now])"

fun provider_rows :: "limitScope list \<Rightarrow> int list \<Rightarrow> providerCounters list" where
  "provider_rows [] vals = []"
| "provider_rows (sc # scopes) vals =
     (if sc_kind sc = kindProviderModel
      then \<lparr>pr_attemptsMinute = 0, pr_failuresMinute = 0, pr_attemptsDay = vals ! 0, pr_failuresDay = vals ! 1,
            pr_storeDown = False\<rparr> # provider_rows scopes (drop 2 vals)
      else \<lparr>pr_attemptsMinute = vals ! 0, pr_failuresMinute = vals ! 1, pr_attemptsDay = vals ! 2,
            pr_failuresDay = vals ! 3, pr_storeDown = False\<rparr> # provider_rows scopes (drop 4 vals))"

definition providerUsage :: "gtime \<Rightarrow> gtime \<Rightarrow> limitScope list \<Rightarrow> 's limiter \<Rightarrow> providerCounters list \<times> 's limiter" where
  "providerUsage now ts scopes l =
     (if scopes = [] then ([], l)
      else let allKeys = concat (map (\<lambda>sc. providerCounterKeys (sc_kind sc) (sc_id sc) now) scopes);
               down = map (\<lambda>_. \<lparr>pr_attemptsMinute = 0, pr_failuresMinute = 0, pr_attemptsDay = 0, pr_failuresDay = 0,
                                pr_storeDown = True\<rparr>) scopes;
               (res, l1) = storeGetMulti ts allKeys l
           in case res of
                None \<Rightarrow> (down, l1)
              | Some vals \<Rightarrow>
                  if length vals \<noteq> length allKeys \<or> configuredStoreDown ts l1 then (down, l1)
                  else (provider_rows scopes vals, l1))"

record scopeUsage =
  su_kind :: string
  su_id :: string
  su_requestsPerMinute :: int
  su_requestsPerDay :: int
  su_tokensInPerDay :: int
  su_tokensInPerMonth :: int
  su_tokensOutPerDay :: int
  su_tokensOutPerMonth :: int
  su_costPerDayMicros :: int
  su_costPerMonthMicros :: int
  su_rejectionsPerDay :: int
  su_lastSeen :: int
  su_storeDown :: bool

definition usageKeysPerScope :: nat where "usageKeysPerScope = 10"

definition usageWindowKeys :: "gtime \<Rightarrow> limitScope \<Rightarrow> string list" where
  "usageWindowKeys now sc =
     map (\<lambda>(m, w). windowKey (sc_kind sc) (sc_id sc) m w now)
       [(metricReq, WMin), (metricReq, WDay), (metricTokIn, WDay), (metricTokIn, WMonth), (metricTokOut, WDay),
        (metricTokOut, WMonth), (metricCost, WDay), (metricCost, WMonth), (metricRej, WDay)]
     @ [lastSeenKey (sc_kind sc) (sc_id sc)]"

definition usage_row :: "limitScope \<Rightarrow> bool \<Rightarrow> int list \<Rightarrow> scopeUsage" where
  "usage_row sc down v =
     \<lparr>su_kind = sc_kind sc, su_id = sc_id sc, su_requestsPerMinute = v ! 0, su_requestsPerDay = v ! 1,
      su_tokensInPerDay = v ! 2, su_tokensInPerMonth = v ! 3, su_tokensOutPerDay = v ! 4, su_tokensOutPerMonth = v ! 5,
      su_costPerDayMicros = v ! 6, su_costPerMonthMicros = v ! 7, su_rejectionsPerDay = v ! 8, su_lastSeen = v ! 9,
      su_storeDown = down\<rparr>"

definition currentUsage :: "gtime \<Rightarrow> gtime \<Rightarrow> limitScope list \<Rightarrow> 's limiter \<Rightarrow> scopeUsage list \<times> 's limiter" where
  "currentUsage now ts scopes l =
     (if scopes = [] then ([], l)
      else let allKeys = concat (map (usageWindowKeys now) scopes);
               down = map (\<lambda>sc. usage_row sc True (replicate 10 0)) scopes;
               (res, l1) = storeGetMulti ts allKeys l
           in case res of
                None \<Rightarrow> (down, l1)
              | Some vals \<Rightarrow>
                  if length vals \<noteq> length allKeys \<or> configuredStoreDown ts l1 then (down, l1)
                  else (map (\<lambda>(i, sc). usage_row sc False (slice (i * usageKeysPerScope) usageKeysPerScope vals))
                          (enumerate 0 scopes), l1))"

record historyPoint =
  hp_bucket :: string
  hp_value :: int

text \<open>A read returns \<open>None\<close> when the store cannot answer; the outer option is the panic on the
  minute window.\<close>

definition limiter_history :: "gtime \<Rightarrow> string \<Rightarrow> string \<Rightarrow> string \<Rightarrow> window \<Rightarrow> gtime \<Rightarrow> nat \<Rightarrow> 's limiter \<Rightarrow>
    (historyPoint list option \<times> 's limiter) option" where
  "limiter_history ts kind sid metric w now spn l =
     (case historyBucketKeys kind sid metric w now spn of
        None \<Rightarrow> None
      | Some (keys, buckets) \<Rightarrow>
          Some (case storeGetMulti ts keys l of
                  (None, l1) \<Rightarrow> (None, l1)
                | (Some vals, l1) \<Rightarrow>
                    if length vals \<noteq> length keys \<or> configuredStoreDown ts l1 then (None, l1)
                    else (Some (map (\<lambda>i. \<lparr>hp_bucket = buckets ! i, hp_value = vals ! i\<rparr>) [0..<spn]), l1)))"

function chunk_loop :: "gtime \<Rightarrow> nat \<Rightarrow> string list \<Rightarrow> int list \<Rightarrow> 's limiter \<Rightarrow> int list option \<times> 's limiter" where
  "chunk_loop ts chunkSize keys out l =
     (if keys = [] \<or> chunkSize = 0 then (Some out, l)
      else let n = min chunkSize (length keys); (res, l1) = storeGetMulti ts (take n keys) l
           in case res of
                None \<Rightarrow> (None, l1)
              | Some vals \<Rightarrow>
                  if length vals \<noteq> n \<or> configuredStoreDown ts l1 then (None, l1)
                  else chunk_loop ts chunkSize (drop n keys) (out @ vals) l1)"
  by auto
termination by (relation "measure (\<lambda>(ts, c, keys, out, l). length keys)") auto

declare chunk_loop.simps [simp del]

definition chunkedGetMulti :: "gtime \<Rightarrow> string list \<Rightarrow> int \<Rightarrow> 's limiter \<Rightarrow> int list option \<times> 's limiter" where
  "chunkedGetMulti ts keys chunkSize l =
     chunk_loop ts (if chunkSize < 1 then length keys else nat chunkSize) keys [] l"

definition usageModelsChunkKeys :: nat where "usageModelsChunkKeys = 1600"

definition span_keys :: "string \<Rightarrow> string list \<Rightarrow> window \<Rightarrow> gtime \<Rightarrow> nat \<Rightarrow> int \<Rightarrow> string list \<Rightarrow> string list option" where
  "span_keys kind metrics w now spn offset ids =
     map_option concat (those (concat (map (\<lambda>sid. map (\<lambda>metric.
        map_option fst (historyBucketKeysAt kind sid metric w now spn offset)) metrics) ids)))"

definition span_sum :: "nat \<Rightarrow> nat \<Rightarrow> int list \<Rightarrow> nat \<Rightarrow> nat \<Rightarrow> int" where
  "span_sum nmetrics spn vals i m =
     foldl (\<lambda>sum v. wrap64 (sum + v)) 0 (slice (i * (nmetrics * spn) + m * spn) spn vals)"

function span_loop :: "gtime \<Rightarrow> string \<Rightarrow> string list \<Rightarrow> window \<Rightarrow> gtime \<Rightarrow> nat \<Rightarrow> int \<Rightarrow> nat \<Rightarrow> string list \<Rightarrow> int list list \<Rightarrow>
    's limiter \<Rightarrow> (int list list option \<times> 's limiter) option" where
  "span_loop ts kind metrics w now spn offset perChunk remaining out l =
     (if remaining = [] \<or> perChunk = 0 then Some (Some out, l)
      else let n = min perChunk (length remaining); chunk = take n remaining
           in case span_keys kind metrics w now spn offset chunk of
                None \<Rightarrow> None
              | Some allKeys \<Rightarrow>
                  (case chunkedGetMulti ts allKeys (int usageModelsChunkKeys) l of
                     (None, l1) \<Rightarrow> Some (None, l1)
                   | (Some vals, l1) \<Rightarrow>
                       if length vals \<noteq> length allKeys then Some (None, l1)
                       else span_loop ts kind metrics w now spn offset perChunk (drop n remaining)
                              (map (\<lambda>(m, row). row @ map (\<lambda>i. span_sum (length metrics) spn vals i m) [0..<n]) (enumerate 0 out)) l1))"
  by auto
termination by (relation "measure (\<lambda>(ts, kind, metrics, w, now, spn, offset, pc, rem, out, l). length rem)") auto

declare span_loop.simps [simp del]

definition spanTotalsMulti :: "gtime \<Rightarrow> string \<Rightarrow> string list \<Rightarrow> string list \<Rightarrow> window \<Rightarrow> gtime \<Rightarrow> nat \<Rightarrow> int \<Rightarrow> 's limiter \<Rightarrow>
    (int list list option \<times> 's limiter) option" where
  "spanTotalsMulti ts kind ids metrics w now spn offset l =
     (if ids = [] \<or> metrics = [] \<or> spn < 1 then Some (Some (map (\<lambda>_. []) metrics), l)
      else let perChunk = usageModelsChunkKeys div (spn * length metrics);
               perChunk = (if perChunk < 1 then 1 else perChunk)
           in span_loop ts kind metrics w now spn offset perChunk ids (map (\<lambda>_. []) metrics) l)"

subsection \<open>What a batch adds\<close>

text \<open>For increments, the value of a counter after a batch is its value before plus the deltas of the
  entries with its key.\<close>

lemma spec_fold_sum:
  "\<forall>e\<in>set es. \<not> ci_absolute e \<Longrightarrow> in_int64 (V k) \<Longrightarrow>
     fold spec_step es V k = wrap64 (V k + sum_list (map ci_delta (filter (\<lambda>e. ci_key e = k) es)))"
proof (induction es arbitrary: V)
  case (Cons e es)
  have v: "spec_step e V k = (if ci_key e = k then wrap64 (V k + ci_delta e) else V k)"
    using Cons.prems by (auto simp: spec_step_def)
  then have "in_int64 (spec_step e V k)" using Cons.prems by simp
  with Cons have "fold spec_step es (spec_step e V) k
      = wrap64 (spec_step e V k + sum_list (map ci_delta (filter (\<lambda>e. ci_key e = k) es)))" by simp
  then show ?case by (simp add: v add.assoc)
qed simp

definition spec_sum :: "string \<Rightarrow> string \<Rightarrow> string \<Rightarrow> window \<Rightarrow> countSpec list \<Rightarrow> int" where
  "spec_sum kind sid metric w ss = sum_list (map cs_delta
     (filter (\<lambda>s. cs_kind s = kind \<and> cs_id s = sid \<and> cs_metric s = metric \<and> cs_window s = w) ss))"

definition spec_ok :: "countSpec \<Rightarrow> bool" where
  "spec_ok s \<longleftrightarrow> CHR '':'' \<notin> set (cs_kind s) \<and> CHR '':'' \<notin> set (cs_metric s)"

lemma spec_sum_simps [simp]:
  "spec_sum K I M W [] = 0"
  "spec_sum K I M W (xs @ ys) = spec_sum K I M W xs + spec_sum K I M W ys"
  by (simp_all add: spec_sum_def)

lemma spec_sum_specs:
  "distinct ws \<Longrightarrow> spec_sum K I M W (specs k i m d ws) = (if k = K \<and> i = I \<and> m = M \<and> W \<in> set ws then d else 0)"
  by (induction ws) (auto simp: spec_sum_def specs_def)

lemma spec_ok_specs: "spec_ok s" if "s \<in> set (specs k i m d ws)" "CHR '':'' \<notin> set k" "CHR '':'' \<notin> set m"
  using that by (auto simp: specs_def spec_ok_def)

lemma entry_at: "entry (bucketsFor now) enforceTTLsFor s = \<lparr>ci_key = windowKey (cs_kind s) (cs_id s) (cs_metric s) (cs_window s) now,
    ci_delta = cs_delta s, ci_ttl = ttl_of (cs_window s), ci_enforceTTL = enforce_floor (cs_window s), ci_absolute = False\<rparr>"
  by (cases "cs_window s") (simp_all add: entry_def bucketsFor_def windowKey_def)

lemma ttl_of_pos: "0 < ttl_of w"
  by (cases w) (simp_all add: dur_defs)

lemma entries_at_ok: "\<forall>e\<in>set (entries_at now ss). entry_ok e" "\<forall>e\<in>set (entries_at now ss). \<not> ci_absolute e"
  by (auto simp: entry_at entry_ok_def ttl_of_pos)

lemma entries_at_windowed: "\<forall>e\<in>set (entries_at now ss). windowed_entry now e"
  by (auto simp: entry_at windowed_entry_def)

lemma spec_sum_entries:
  assumes "\<forall>s\<in>set ss. spec_ok s" and "0 \<le> now" and "CHR '':'' \<notin> set K" "CHR '':'' \<notin> set M"
  shows "sum_list (map ci_delta (filter (\<lambda>e. ci_key e = windowKey K I M W now) (entries_at now ss))) = spec_sum K I M W ss"
  using assms(1)
proof (induction ss)
  case (Cons s ss)
  then have s: "CHR '':'' \<notin> set (cs_kind s)" "CHR '':'' \<notin> set (cs_metric s)" by (auto simp: spec_ok_def)
  have "windowKey (cs_kind s) (cs_id s) (cs_metric s) (cs_window s) now = windowKey K I M W now
      \<longleftrightarrow> cs_kind s = K \<and> cs_id s = I \<and> cs_metric s = M \<and> cs_window s = W"
    using windowKey_inj [OF _ assms(2) s(1) assms(3) s(2) assms(4)] by auto
  with Cons show ?case by (auto simp: spec_sum_def entry_at)
qed (simp add: spec_sum_def)

lemma batch_adds:
  assumes "served_by_fallback ts l" and "\<forall>k. in_int64 (ms_view (lim_fallback l) ts k)"
    and "\<forall>s\<in>set ss. spec_ok s" and "0 \<le> now" and "CHR '':'' \<notin> set K" "CHR '':'' \<notin> set M"
  shows "ms_view (lim_fallback (snd (storeIncrMulti ts (entries_at now ss) l))) ts (windowKey K I M W now)
    = wrap64 (ms_view (lim_fallback l) ts (windowKey K I M W now) + spec_sum K I M W ss)"
proof -
  have "ms_view (lim_fallback (snd (storeIncrMulti ts (entries_at now ss) l))) ts
      = fold spec_step (entries_at now ss) (ms_view (lim_fallback l) ts)"
    using mem.incr_view [OF entries_at_ok(1)] by (simp add: storeIncrMulti_def store_call_fallback [OF assms(1)])
  from fun_cong [OF this, of "windowKey K I M W now"] show ?thesis
    using spec_fold_sum [OF entries_at_ok(2), of "ms_view (lim_fallback l) ts" "windowKey K I M W now" now ss]
      spec_sum_entries [OF assms(3-6), of I W] assms(2) by simp
qed

subsection \<open>Accounted usage\<close>

lemma latency_metric_ok:
  "CHR '':'' \<notin> set (latencyDurationMetric i)" "CHR '':'' \<notin> set (latencyTTFBMetric i)"
  "latencyDurationMetric i \<notin> budget_metrics" "latencyTTFBMetric i \<notin> budget_metrics"
  using pad_int_digits [of "int i" 2]
  by (auto simp: latencyDurationMetric_def latencyTTFBMetric_def budget_metrics_def metric_defs list_all_iff is_digit_def)

lemma latency_specs_sum: "M \<in> budget_metrics \<Longrightarrow> spec_sum K I M W (latency_specs k i lat) = 0"
  using latency_metric_ok(3,4) by (auto simp: latency_specs_def spec_sum_specs)

lemma usage_specs_sum:
  "distinct ws \<Longrightarrow> spec_sum K I metricTokIn W (usage_specs k i ws (p, q, m)) = (if k = K \<and> i = I \<and> W \<in> set ws then p else 0)"
  "distinct ws \<Longrightarrow> spec_sum K I metricTokOut W (usage_specs k i ws (p, q, m)) = (if k = K \<and> i = I \<and> W \<in> set ws then q else 0)"
  "distinct ws \<Longrightarrow> spec_sum K I metricCost W (usage_specs k i ws (p, q, m)) = (if k = K \<and> i = I \<and> W \<in> set ws then m else 0)"
  by (auto simp: usage_specs_def spec_sum_specs metric_defs)

definition metric_amount :: "string \<Rightarrow> int \<times> int \<times> int \<Rightarrow> int" where
  "metric_amount M = (\<lambda>(p, q, m). if M = metricTokIn then p else if M = metricTokOut then q else m)"

lemma usage_specs_amount:
  assumes "M \<in> budget_metrics" and "distinct ws"
  shows "spec_sum K I M W (usage_specs k i ws n) = (if k = K \<and> i = I \<and> W \<in> set ws then metric_amount M n else 0)"
proof -
  obtain p q m where n: "n = (p, q, m)" by (cases n) auto
  have "metricTokIn \<noteq> metricTokOut" "metricTokIn \<noteq> metricCost" "metricTokOut \<noteq> metricCost" by (simp_all add: metric_defs)
  with assms(1) usage_specs_sum [OF assms(2), of K I W k i p q m] n show ?thesis
    by (auto simp: budget_metrics_def metric_amount_def)
qed

lemma scopes_sum:
  assumes "M \<in> budget_metrics" and "W \<in> {WHour, WDay, WMonth}"
  shows "distinct (map (\<lambda>sc. (sc_kind sc, sc_id sc)) scopes) \<Longrightarrow> spec_sum K I M W (concat (map (scope_account_specs n) scopes))
    = (if (K, I) \<in> (\<lambda>sc. (sc_kind sc, sc_id sc)) ` set scopes then metric_amount M n else 0)"
proof (induction scopes)
  case (Cons sc scopes)
  have "metricReq \<noteq> M" using assms(1) by (auto simp: budget_metrics_def metric_defs)
  then have "spec_sum K I M W (scope_account_specs n sc) = (if sc_kind sc = K \<and> sc_id sc = I then metric_amount M n else 0)"
    using assms by (auto simp: scope_account_specs_def spec_sum_specs usage_specs_amount)
  with Cons show ?case by (auto simp: rev_image_eqI)
qed simp

lemmas kind_defs = kindUserModel_def kindProvider_def kindModel_def totalScopeKind_def kindProviderModel_def kindTargetCaller_def

lemmas extra_metric_defs = metricFover_def metricCmiss_def metricChit_def metricCsave_def metricR402_def

lemma account_specs_sum:
  assumes "M \<in> budget_metrics" and "W \<in> {WHour, WDay, WMonth}" and "scopes_ok scopes" and "K \<noteq> kindUserModel"
  shows "spec_sum K I M W (account_specs scopes n x l)
    = (if (K, I) \<in> (\<lambda>sc. (sc_kind sc, sc_id sc)) ` set scopes then metric_amount M n else 0)"
proof -
  have ne: "metricReq \<noteq> M" "metricFover \<noteq> M" "metricCmiss \<noteq> M"
    using assms(1) by (auto simp: budget_metrics_def metric_defs extra_metric_defs)
  have d: "distinct (map (\<lambda>sc. (sc_kind sc, sc_id sc)) scopes)" using assms(3) by (simp add: scopes_ok_def)
  show ?thesis
    unfolding account_specs_def Let_def
    using ne assms(4)
    by (simp add: scopes_sum [OF assms(1,2) d] spec_sum_specs usage_specs_amount [OF assms(1)] latency_specs_sum [OF assms(1)])
qed

lemma account_specs_ok:
  assumes "scopes_ok scopes" and "s \<in> set (account_specs scopes n x l)"
  shows "spec_ok s"
proof -
  have k: "CHR '':'' \<notin> set (sc_kind sc)" if "sc \<in> set scopes" for sc using assms(1) that by (simp add: scopes_ok_def)
  have u: "spec_ok s" if "s \<in> set (usage_specs kd sid ws n)" "CHR '':'' \<notin> set kd" for kd sid ws
    using that by (cases n) (auto simp: usage_specs_def metric_defs split: if_splits intro: spec_ok_specs)
  have lt: "spec_ok s" if "s \<in> set (latency_specs kd sid lat)" "CHR '':'' \<notin> set kd" for kd sid lat
    using that latency_metric_ok(1,2) by (auto simp: latency_specs_def split: if_splits intro: spec_ok_specs)
  have sp: "spec_ok s" if "s \<in> set (specs kd sid m d ws)" "CHR '':'' \<notin> set kd" "m \<in> {metricReq, metricFover, metricCmiss}" for kd sid m d ws
    using that by (auto simp: metric_defs extra_metric_defs intro: spec_ok_specs)
  have c: "CHR '':'' \<notin> set kindUserModel" "CHR '':'' \<notin> set kindProvider" "CHR '':'' \<notin> set kindModel" "CHR '':'' \<notin> set totalScopeKind"
    by (simp_all add: kind_defs)
  show ?thesis
    using assms(2) k c unfolding account_specs_def Let_def scope_account_specs_def
    by (auto split: if_splits intro: u lt sp)
qed

lemma accounted_usage:
  assumes "served_by_fallback ts l" and "\<forall>k. in_int64 (ms_view (lim_fallback l) ts k)"
    and "scopes_ok scopes" and "0 \<le> now" and "sc \<in> set scopes" and "sc_kind sc \<noteq> kindUserModel"
    and "W \<in> {WHour, WDay, WMonth}" and "M \<in> budget_metrics"
  shows "memoryStore_get ts (windowKey (sc_kind sc) (sc_id sc) M W now) (lim_fallback (accountWith now ts scopes u costMicros x l))
    = wrap64 (memoryStore_get ts (windowKey (sc_kind sc) (sc_id sc) M W now) (lim_fallback l)
              + metric_amount M (fst (plausible u costMicros)))"
proof -
  obtain n msgs where p: "plausible u costMicros = (n, msgs)" by fastforce
  let ?l = "l\<lparr>lim_log := lim_log l @ msgs\<rparr>"
  have s: "served_by_fallback ts ?l" using assms(1) by (simp add: served_by_fallback_def storeLatched_def)
  let ?ss = "account_specs scopes n x ?l"
  have colon: "CHR '':'' \<notin> set (sc_kind sc)" "CHR '':'' \<notin> set M"
    using assms(3,5,8) by (auto simp: scopes_ok_def budget_metrics_def metric_defs)
  have sum: "spec_sum (sc_kind sc) (sc_id sc) M W ?ss = metric_amount M n"
    using account_specs_sum [OF assms(8,7,3,6), of "sc_id sc" n x ?l] assms(5) by (simp add: rev_image_eqI)
  have ok: "\<forall>s\<in>set ?ss. spec_ok s" using account_specs_ok [OF assms(3)] by blast
  have add: "ms_view (lim_fallback (snd (storeIncrMulti ts (entries_at now ?ss) ?l))) ts (windowKey (sc_kind sc) (sc_id sc) M W now)
    = wrap64 (ms_view (lim_fallback ?l) ts (windowKey (sc_kind sc) (sc_id sc) M W now) + metric_amount M n)"
    using batch_adds [OF s _ ok assms(4) colon] assms(2) sum by simp
  show ?thesis
  proof (cases "?ss = []")
    case True
    with sum have "metric_amount M n = 0" by simp
    with True p assms(2) show ?thesis by (simp add: accountWith_def)
  next
    case False
    with p add show ?thesis by (simp add: accountWith_def Let_def)
  qed
qed


definition ann_extras :: accountExtras where
  "ann_extras = \<lparr>ax_provider = [], ax_failoverFrom = [],
     ax_lat = \<lparr>lat_duration = 0, lat_ttfb = 0, lat_hasTTFB = False, lat_streaming = False\<rparr>,
     ax_hasLat = False, ax_cacheMiss = False, ax_noModelHistograms = False\<rparr>"


subsection \<open>Chunked reads\<close>

lemma storeGetMulti_plain:
  "lim_store l = None \<Longrightarrow> storeGetMulti ts keys l = (Some (map (ms_view (lim_fallback l) ts) keys), l)"
  by (simp add: storeGetMulti_def store_call_def memoryStore_getMulti_def)

lemma chunk_loop_plain:
  "lim_store l = None \<Longrightarrow> 0 < c \<or> keys = [] \<Longrightarrow>
     chunk_loop ts c keys out l = (Some (out @ map (ms_view (lim_fallback l) ts) keys), l)"
proof (induction "length keys" arbitrary: keys out rule: less_induct)
  case less
  show ?case
  proof (cases "keys = []")
    case False
    let ?n = "min c (length keys)"
    have "length (drop ?n keys) < length keys" using False less.prems by simp
    from less.hyps [OF this less.prems(1)] less.prems(2) False
    have ih: "chunk_loop ts c (drop ?n keys) (out @ map (ms_view (lim_fallback l) ts) (take ?n keys)) l
        = (Some ((out @ map (ms_view (lim_fallback l) ts) (take ?n keys)) @ map (ms_view (lim_fallback l) ts) (drop ?n keys)), l)"
      by simp
    have "configuredStoreDown ts l = False" using less.prems(1) by (simp add: configuredStoreDown_def)
    then show ?thesis
      using False less.prems ih
      by (subst chunk_loop.simps) (simp add: storeGetMulti_plain Let_def flip: map_append)
  qed (subst chunk_loop.simps, simp)
qed

lemma chunkedGetMulti_plain:
  "lim_store l = None \<Longrightarrow> chunkedGetMulti ts keys c l = (Some (map (ms_view (lim_fallback l) ts) keys), l)"
  unfolding chunkedGetMulti_def by (subst chunk_loop_plain) auto

lemma slice_concat:
  "\<forall>x\<in>set xs. length (f x) = n \<Longrightarrow> i < length xs \<Longrightarrow> slice (i * n) n (concat (map f xs)) = f (xs ! i)"
proof (induction xs arbitrary: i)
  case (Cons x xs)
  then show ?case by (cases i) (simp_all add: slice_def)
qed simp

lemma slice_slice: "a + n \<le> N \<Longrightarrow> slice (b + a) n xs = slice a n (slice b N xs)"
  by (simp add: slice_def drop_take min_def add.commute)

lemma slice_map: "slice a n (map f xs) = map f (slice a n xs)"
  by (simp add: slice_def take_map drop_map)

definition history_keys :: "string \<Rightarrow> window \<Rightarrow> gtime \<Rightarrow> nat \<Rightarrow> int \<Rightarrow> string \<Rightarrow> string \<Rightarrow> string list" where
  "history_keys kind w now spn offset metric sid = fst (the (historyBucketKeysAt kind sid metric w now spn offset))"

lemma historyStepBack_total: "w \<noteq> WMin \<Longrightarrow> \<exists>t. historyStepBack now w i = Some t"
  by (cases w) (auto split: prod.splits)

lemma those_total: "\<forall>x\<in>set xs. f x \<noteq> None \<Longrightarrow> those (map f xs) = Some (map (the \<circ> f) xs)"
  by (induction xs) auto

lemma historyBucketKeysAt_total:
  assumes "w \<noteq> WMin"
  shows "historyBucketKeysAt kind sid metric w now spn offset \<noteq> None
    \<and> length (history_keys kind w now spn offset metric sid) = spn"
proof -
  obtain base where b: "(if 0 < offset then historyStepBack now w offset else Some now) = Some base"
    using historyStepBack_total [OF assms, of now offset] by (cases "0 < offset") auto
  have "those (map (\<lambda>i. historyStepBack base w (int spn - 1 - int i)) [0..<spn])
      = Some (map (the \<circ> (\<lambda>i. historyStepBack base w (int spn - 1 - int i))) [0..<spn])"
    using historyStepBack_total [OF assms] by (intro those_total) simp
  with b show ?thesis by (simp add: historyBucketKeysAt_def history_keys_def)
qed

lemma span_keys_total:
  assumes "w \<noteq> WMin"
  shows "span_keys kind metrics w now spn offset ids
    = Some (concat (map (\<lambda>sid. concat (map (\<lambda>metric. history_keys kind w now spn offset metric sid) metrics)) ids))"
proof -
  let ?h = "\<lambda>sid metric. map_option fst (historyBucketKeysAt kind sid metric w now spn offset)"
  have h: "?h sid metric = Some (history_keys kind w now spn offset metric sid)" for sid metric
    using historyBucketKeysAt_total [OF assms, of kind sid metric now spn offset] by (auto simp: history_keys_def)
  have some: "those (map Some xs) = Some xs" for xs :: "string list list" by (induction xs) auto
  have "concat (map (\<lambda>sid. map (?h sid) metrics) ids)
      = map Some (concat (map (\<lambda>sid. map (\<lambda>metric. history_keys kind w now spn offset metric sid) metrics) ids))"
    by (simp add: h map_concat comp_def)
  then have "span_keys kind metrics w now spn offset ids
      = Some (concat (concat (map (\<lambda>sid. map (\<lambda>metric. history_keys kind w now spn offset metric sid) metrics) ids)))"
    unfolding span_keys_def by (simp only: some option.map)
  also have "concat (concat (map (\<lambda>sid. map (\<lambda>metric. history_keys kind w now spn offset metric sid) metrics) ids))
      = concat (map (\<lambda>sid. concat (map (\<lambda>metric. history_keys kind w now spn offset metric sid) metrics)) ids)"
    by (induction ids) simp_all
  finally show ?thesis .
qed

text \<open>What the chunked reading computes: per metric and id the sum over the id's history keys.\<close>

definition span_total :: "'s limiter \<Rightarrow> gtime \<Rightarrow> string list \<Rightarrow> int" where
  "span_total l ts keys = foldl (\<lambda>sum v. wrap64 (sum + v)) 0 (map (ms_view (lim_fallback l) ts) keys)"

lemma span_sum_eq:
  assumes w: "w \<noteq> WMin" and i: "i < length ids" and m: "m < length metrics"
    and keys: "span_keys kind metrics w now spn offset ids = Some allKeys"
  shows "span_sum (length metrics) spn (map (ms_view (lim_fallback l) ts) allKeys) i m
    = span_total l ts (history_keys kind w now spn offset (metrics ! m) (ids ! i))"
proof -
  let ?h = "history_keys kind w now spn offset"
  let ?row = "\<lambda>sid. concat (map (\<lambda>metric. ?h metric sid) metrics)" and ?N = "length metrics * spn"
  have len: "length (?h metric sid) = spn" for metric sid using historyBucketKeysAt_total [OF w] by blast
  have all: "allKeys = concat (map ?row ids)" using keys span_keys_total [OF w] by simp
  have row: "length (?row sid) = ?N" for sid by (rule length_concat_uniform) (simp add: len)
  have "Suc m * spn \<le> ?N" using m by (intro mult_le_mono1) simp
  then have fit: "m * spn + spn \<le> ?N" by simp
  have "slice (i * ?N + m * spn) spn allKeys = slice (m * spn) spn (slice (i * ?N) ?N allKeys)"
    by (rule slice_slice [OF fit])
  also have "slice (i * ?N) ?N allKeys = ?row (ids ! i)" unfolding all by (rule slice_concat [OF _ i]) (simp add: row)
  also have "slice (m * spn) spn (?row (ids ! i)) = ?h (metrics ! m) (ids ! i)"
    by (rule slice_concat [OF _ m]) (simp add: len)
  finally show ?thesis by (simp add: span_sum_def span_total_def slice_map)
qed

lemma span_loop_plain:
  assumes w: "w \<noteq> WMin" and plain: "lim_store l = None" and pc: "0 < perChunk"
  shows "length out = length metrics \<Longrightarrow> span_loop ts kind metrics w now spn offset perChunk ids out l
    = Some (Some (map (\<lambda>(m, row). row @ map (\<lambda>sid. span_total l ts (history_keys kind w now spn offset (metrics ! m) sid)) ids)
        (enumerate 0 out)), l)"
proof (induction "length ids" arbitrary: ids out rule: less_induct)
  case less
  let ?g = "\<lambda>m sid. span_total l ts (history_keys kind w now spn offset (metrics ! m) sid)"
  show ?case
  proof (cases "ids = []")
    case True
    then show ?thesis by (subst span_loop.simps) (simp add: case_prod_unfold)
  next
    case False
    let ?n = "min perChunk (length ids)"
    let ?chunk = "take ?n ids"
    obtain allKeys where k: "span_keys kind metrics w now spn offset ?chunk = Some allKeys" using span_keys_total [OF w] by blast
    let ?vals = "map (ms_view (lim_fallback l) ts) allKeys"
    let ?out = "map (\<lambda>(m, row). row @ map (\<lambda>i. span_sum (length metrics) spn ?vals i m) [0..<?n]) (enumerate 0 out)"
    have sums: "map (\<lambda>i. span_sum (length metrics) spn ?vals i m) [0..<?n] = map (?g m) ?chunk" if "m < length metrics" for m
      using span_sum_eq [OF w _ that k] by (intro nth_equalityI) simp_all
    have step: "span_loop ts kind metrics w now spn offset perChunk ids out l
        = span_loop ts kind metrics w now spn offset perChunk (drop ?n ids) ?out l"
      using False pc by (subst span_loop.simps) (simp add: k chunkedGetMulti_plain [OF plain] Let_def)
    have "length (drop ?n ids) < length ids" using False pc by simp
    from less.hyps [OF this, of ?out] less.prems
    have ih: "span_loop ts kind metrics w now spn offset perChunk (drop ?n ids) ?out l
        = Some (Some (map (\<lambda>(m, row). row @ map (?g m) (drop ?n ids)) (enumerate 0 ?out)), l)" by simp
    have "map (\<lambda>(m, row). row @ map (?g m) (drop ?n ids)) (enumerate 0 ?out) = map (\<lambda>(m, row). row @ map (?g m) ids) (enumerate 0 out)"
    proof (rule nth_equalityI)
      fix m assume "m < length (map (\<lambda>(m, row). row @ map (?g m) (drop ?n ids)) (enumerate 0 ?out))"
      then have m: "m < length out" "m < length metrics" using less.prems by simp_all
      have "map (?g m) ids = map (?g m) ?chunk @ map (?g m) (drop ?n ids)" by (metis append_take_drop_id map_append)
      then show "map (\<lambda>(m, row). row @ map (?g m) (drop ?n ids)) (enumerate 0 ?out) ! m
          = map (\<lambda>(m, row). row @ map (?g m) ids) (enumerate 0 out) ! m"
        using m sums [OF m(2)] by (simp add: nth_enumerate_eq)
    qed simp
    then show ?thesis using step ih by simp
  qed
qed

theorem spanTotals_are_history_sums:
  assumes "lim_store l = None" and "w \<noteq> WMin" and "1 \<le> spn" and "ids \<noteq> []"
  shows "spanTotalsMulti ts kind ids metrics w now spn offset l
    = Some (Some (map (\<lambda>metric. map (\<lambda>sid. span_total l ts (history_keys kind w now spn offset metric sid)) ids) metrics), l)"
proof (cases "metrics = []")
  case True
  then show ?thesis by (simp add: spanTotalsMulti_def)
next
  case False
  let ?pc = "usageModelsChunkKeys div (spn * length metrics)"
  have "0 < (if ?pc < 1 then 1 else ?pc)" by simp
  from span_loop_plain [OF assms(2,1) this, of "map (\<lambda>_. []) metrics" metrics ts kind now spn offset ids]
  have "spanTotalsMulti ts kind ids metrics w now spn offset l
      = Some (Some (map (\<lambda>(m, row). row @ map (\<lambda>sid. span_total l ts (history_keys kind w now spn offset (metrics ! m) sid)) ids)
          (enumerate 0 (map (\<lambda>_. []) metrics))), l)"
    using False assms(3,4) by (simp add: spanTotalsMulti_def Let_def)
  also have "map (\<lambda>(m, row). row @ map (\<lambda>sid. span_total l ts (history_keys kind w now spn offset (metrics ! m) sid)) ids)
          (enumerate 0 (map (\<lambda>_. []) metrics))
      = map (\<lambda>metric. map (\<lambda>sid. span_total l ts (history_keys kind w now spn offset metric sid)) ids) metrics"
    by (rule nth_equalityI) (simp_all add: nth_enumerate_eq)
  finally show ?thesis .
qed

theorem spanTotals_are_history_sums_witness:
  "spanTotalsMulti 0 kindModel [''a'', ''b''] [metricReq] WDay 0 2 0 (newLimiter None False :: unit limiter)
    = Some (Some [[span_total (newLimiter None False :: unit limiter) 0 (history_keys kindModel WDay 0 2 0 metricReq ''a''),
                   span_total (newLimiter None False :: unit limiter) 0 (history_keys kindModel WDay 0 2 0 metricReq ''b'')]],
            newLimiter None False)"
  using spanTotals_are_history_sums [of "newLimiter None False :: unit limiter" WDay 2 "[''a'', ''b'']" 0 kindModel "[metricReq]" 0 0]
  by (simp add: newLimiter_def)

end
