(* ===== verification/Pricing.thy ===== *)
theory Pricing
  imports Accounting
begin

text \<open>
  Pricing and cost (pricing.go, modelmeta.go, \<open>unifiedCostMicros\<close> of routes_unified.go): saturating
  64-bit arithmetic, the layered price lookup, and what billing charges.

  The generated LiteLLM table (\<open>builtinModelMetaTable\<close>) is data produced by a build step and is the
  argument \<open>table\<close> of the definitions that read it.  A Go map that is only looked up is a partial
  function; the configuration maps that are validated in key order are association lists.
\<close>

subsection \<open>Saturating arithmetic\<close>

definition clamp64 :: "int \<Rightarrow> int" where
  "clamp64 x = (if max_int64 < x then max_int64 else if x < min_int64 then min_int64 else x)"

definition saturatingMulInt64 :: "int \<Rightarrow> int \<Rightarrow> int" where
  "saturatingMulInt64 a b =
     (if a = 0 \<or> b = 0 then 0
      else let p = wrap64 (a * b)
           in if wrap64 (p sdiv b) \<noteq> a
              then if (0 < a) = (0 < b) then max_int64 else min_int64
              else p)"

definition saturatingAddInt64 :: "int \<Rightarrow> int \<Rightarrow> int" where
  "saturatingAddInt64 a b =
     (let sum = wrap64 (a + b)
      in if 0 < b \<and> sum < a then max_int64 else if b < 0 \<and> a < sum then min_int64 else sum)"

definition roundedDivInt64 :: "int \<Rightarrow> int \<Rightarrow> int" where
  "roundedDivInt64 tot denom =
     (let q = tot sdiv denom; r = tot smod denom; r = (if r < 0 then wrap64 (- r) else r)
      in if denom \<le> wrap64 (r * 2) then (if 0 \<le> tot then wrap64 (q + 1) else wrap64 (q - 1)) else q)"

subsection \<open>Prices\<close>

record ModelPricing =
  InputPerM :: float64
  OutputPerM :: float64

record ModelMetaConfig =
  mm_ContextTokens :: int
  mm_InputCost :: int
  mm_OutputCost :: int
  mm_Free :: bool

record builtinModelMeta =
  bm_ContextTokens :: int
  bm_InputCost :: int
  bm_OutputCost :: int

datatype priceSource = PriceOverride | PriceBuiltin | PriceLitellm | PriceFree | PriceUnpriced

definition tokensPerMillion :: rat where "tokensPerMillion = 1000000"

definition usd :: "rat \<Rightarrow> rat \<Rightarrow> ModelPricing" where
  "usd i j = \<lparr>InputPerM = fl i, OutputPerM = fl j\<rparr>"

definition builtinPricing :: "string \<rightharpoonup> ModelPricing" where
  "builtinPricing = map_of
     [(''gpt-5'', usd (125 / 100) 10), (''gpt-5-mini'', usd (25 / 100) 2), (''gpt-4o'', usd (25 / 10) 10),
      (''o3'', usd 2 8), (''claude-opus-4-5'', usd 5 25), (''claude-sonnet-4-5'', usd 3 15),
      (''claude-haiku-4-5'', usd 1 5), (''gemini-2.5-pro'', usd (125 / 100) 10),
      (''gemini-2.5-flash'', usd (3 / 10) (25 / 10)), (''grok-4'', usd 3 15)]"

definition microUSDPerMTokToUSD :: "int \<Rightarrow> float64" where
  "microUSDPerMTokToUSD micro = (case fl (of_int micro) of Fin q \<Rightarrow> fl (q / 1000000) | x \<Rightarrow> x)"

definition no_price :: ModelPricing where "no_price = \<lparr>InputPerM = Fin 0, OutputPerM = Fin 0\<rparr>"

definition lookupPricingSource ::
    "(string \<rightharpoonup> builtinModelMeta) \<Rightarrow> string \<Rightarrow> (string \<rightharpoonup> ModelPricing option) \<Rightarrow> (ModelPricing \<times> priceSource) option" where
  "lookupPricingSource table model overrides =
     (case overrides model of
        Some (Some p) \<Rightarrow> Some (p, PriceOverride)
      | _ \<Rightarrow>
        (case builtinPricing model of
           Some p \<Rightarrow> Some (p, PriceBuiltin)
         | None \<Rightarrow>
           (case table model of
              Some m \<Rightarrow>
                if 0 < bm_InputCost m \<or> 0 < bm_OutputCost m
                then Some (\<lparr>InputPerM = microUSDPerMTokToUSD (bm_InputCost m),
                            OutputPerM = microUSDPerMTokToUSD (bm_OutputCost m)\<rparr>, PriceLitellm)
                else None
            | None \<Rightarrow> None)))"

definition lookupPricing :: "(string \<rightharpoonup> builtinModelMeta) \<Rightarrow> string \<Rightarrow> (string \<rightharpoonup> ModelPricing option) \<Rightarrow> ModelPricing option" where
  "lookupPricing table model overrides = map_option fst (lookupPricingSource table model overrides)"

definition modelMetaFree :: "string \<Rightarrow> string \<Rightarrow> (string \<rightharpoonup> ModelMetaConfig option) \<Rightarrow> bool" where
  "modelMetaFree canonical bare meta =
     (case meta canonical of
        Some (Some m) \<Rightarrow> mm_Free m
      | _ \<Rightarrow> (case meta bare of Some (Some m) \<Rightarrow> mm_Free m | _ \<Rightarrow> False))"

definition priceKnown :: "(string \<rightharpoonup> builtinModelMeta) \<Rightarrow> string \<Rightarrow> string \<Rightarrow> (string \<rightharpoonup> ModelPricing option) \<Rightarrow>
    (string \<rightharpoonup> ModelMetaConfig option) \<Rightarrow> bool" where
  "priceKnown table canonical bare overrides meta \<longleftrightarrow>
     lookupPricing table canonical overrides \<noteq> None \<or> lookupPricing table bare overrides \<noteq> None
     \<or> modelMetaFree canonical bare meta"

definition billingPriceSource :: "(string \<rightharpoonup> builtinModelMeta) \<Rightarrow> string \<Rightarrow> string \<Rightarrow> (string \<rightharpoonup> ModelPricing option) \<Rightarrow>
    (string \<rightharpoonup> ModelMetaConfig option) \<Rightarrow> priceSource \<times> ModelPricing" where
  "billingPriceSource table canonical bare overrides meta =
     (if modelMetaFree canonical bare meta then (PriceFree, no_price)
      else case lookupPricingSource table canonical overrides of
             Some (p, src) \<Rightarrow> (src, p)
           | None \<Rightarrow> (case lookupPricingSource table bare overrides of
                        Some (p, src) \<Rightarrow> (src, p) | None \<Rightarrow> (PriceUnpriced, no_price)))"

definition rate_micros :: "float64 \<Rightarrow> int" where
  "rate_micros perM = float_to_int64 (math_Round (fmul perM (Fin tokensPerMillion)))"

definition computeCostMicros :: "ModelPricing \<Rightarrow> usage \<Rightarrow> int" where
  "computeCostMicros price u =
     (let inputMicrosPerM = rate_micros (InputPerM price); outputMicrosPerM = rate_micros (OutputPerM price);
          inputCost = saturatingMulInt64 (us_prompt u) inputMicrosPerM;
          outputCost = saturatingMulInt64 (us_completion u) outputMicrosPerM
      in roundedDivInt64 (saturatingAddInt64 inputCost outputCost) 1000000)"

subsection \<open>Warnings about unknown models\<close>

definition unknownModelWarnCap :: nat where "unknownModelWarnCap = 128"

datatype pricingWarning = UnknownModel string | WarnCapReached

record warnState =
  ws_warnedModels :: "string list"
  ws_capNotified :: bool
  ws_warnings :: "pricingWarning list"

definition warnUnknownModelFor :: "string \<Rightarrow> warnState \<Rightarrow> warnState" where
  "warnUnknownModelFor model w =
     (if model \<in> set (ws_warnedModels w) then w
      else if unknownModelWarnCap \<le> length (ws_warnedModels w)
      then (if ws_capNotified w then w
            else w\<lparr>ws_capNotified := True, ws_warnings := ws_warnings w @ [WarnCapReached]\<rparr>)
      else w\<lparr>ws_warnedModels := ws_warnedModels w @ [model], ws_warnings := ws_warnings w @ [UnknownModel model]\<rparr>)"

definition costMicrosKnownFor :: "(string \<rightharpoonup> builtinModelMeta) \<Rightarrow> string \<Rightarrow> usage \<Rightarrow> (string \<rightharpoonup> ModelPricing option) \<Rightarrow>
    warnState \<Rightarrow> (int \<times> bool) \<times> warnState" where
  "costMicrosKnownFor table model u overrides w =
     (case lookupPricing table model overrides of
        None \<Rightarrow> ((0, False), warnUnknownModelFor model w)
      | Some price \<Rightarrow> ((computeCostMicros price u, True), w))"

definition unifiedCostMicros :: "(string \<rightharpoonup> builtinModelMeta) \<Rightarrow> string \<Rightarrow> string \<Rightarrow> usage \<Rightarrow> (string \<rightharpoonup> ModelPricing option) \<Rightarrow>
    (string \<rightharpoonup> ModelMetaConfig option) \<Rightarrow> warnState \<Rightarrow> int \<times> warnState" where
  "unifiedCostMicros table canonical bare u overrides meta w =
     (if modelMetaFree canonical bare meta then (0, w)
      else if lookupPricing table canonical overrides \<noteq> None
      then (let ((cost, _), w') = costMicrosKnownFor table canonical u overrides w in (cost, w'))
      else (let ((cost, _), w') = costMicrosKnownFor table bare u overrides w in (cost, w')))"

subsection \<open>Validation and display metadata\<close>

datatype pricingError = PricingNil string | PricingNotFinite string string | PricingNegative string string

definition check_price :: "string \<times> ModelPricing option \<Rightarrow> pricingError option" where
  "check_price = (\<lambda>(k, p). case p of
     None \<Rightarrow> Some (PricingNil k)
   | Some p \<Rightarrow> first_some (\<lambda>(name, v).
       if math_IsNaN v \<or> math_IsInf v then Some (PricingNotFinite k name)
       else if float_less v (Fin 0) then Some (PricingNegative k name) else None)
       [(''inputPerM'', InputPerM p), (''outputPerM'', OutputPerM p)])"

definition validatePricing :: "(string, ModelPricing option) gomap \<Rightarrow> pricingError + (string, ModelPricing option) gomap" where
  "validatePricing raw =
     (case first_some check_price (map (\<lambda>k. (k, the (map_of raw k))) (sort (map fst raw))) of
        Some e \<Rightarrow> Inl e | None \<Rightarrow> Inr raw)"

datatype metaError = MetaNil string | MetaContextNegative string | MetaCostNegative string | MetaFreeContradiction string

definition check_meta :: "string \<times> ModelMetaConfig option \<Rightarrow> metaError option" where
  "check_meta = (\<lambda>(k, v). case v of
     None \<Rightarrow> Some (MetaNil k)
   | Some v \<Rightarrow>
       if mm_ContextTokens v < 0 then Some (MetaContextNegative k)
       else if mm_InputCost v < 0 \<or> mm_OutputCost v < 0 then Some (MetaCostNegative k)
       else if mm_Free v \<and> (mm_InputCost v \<noteq> 0 \<or> mm_OutputCost v \<noteq> 0) then Some (MetaFreeContradiction k)
       else None)"

definition validateModelMeta :: "(string, ModelMetaConfig option) gomap \<Rightarrow> metaError + (string, ModelMetaConfig option) gomap" where
  "validateModelMeta raw =
     (case first_some check_meta (map (\<lambda>k. (k, the (map_of raw k))) (sort (map fst raw))) of
        Some e \<Rightarrow> Inl e | None \<Rightarrow> Inr raw)"

record resolvedModelMeta =
  rm_ContextTokens :: int
  rm_InputCost :: int
  rm_OutputCost :: int
  rm_ContextKnown :: bool
  rm_CostKnown :: bool

definition freeTierSuffix :: string where "freeTierSuffix = '':free''"

definition strings_HasSuffix :: "string \<Rightarrow> string \<Rightarrow> bool" where
  "strings_HasSuffix s suffix \<longleftrightarrow> length suffix \<le> length s \<and> drop (length s - length suffix) s = suffix"

definition lookupModelMetaConfig :: "string \<Rightarrow> string \<Rightarrow> (string \<rightharpoonup> ModelMetaConfig option) \<Rightarrow> ModelMetaConfig option" where
  "lookupModelMetaConfig provider model cfg =
     (case cfg (provider @ ''/'' @ model) of
        Some (Some v) \<Rightarrow> Some v
      | _ \<Rightarrow> (case cfg model of Some (Some v) \<Rightarrow> Some v | _ \<Rightarrow> None))"

definition resolveModelMeta :: "(string \<rightharpoonup> builtinModelMeta) \<Rightarrow> string \<Rightarrow> string \<Rightarrow> (string \<rightharpoonup> ModelMetaConfig option) \<Rightarrow> int \<Rightarrow> bool \<Rightarrow>
    resolvedModelMeta" where
  "resolveModelMeta table provider model cfg discoveredContext discoveredKnown =
     (let override = lookupModelMetaConfig provider model cfg; builtin = table model;
          (ctx, ctxKnown) =
            (if (case override of Some v \<Rightarrow> 0 < mm_ContextTokens v | None \<Rightarrow> False) then (mm_ContextTokens (the override), True)
             else if discoveredKnown \<and> 0 < discoveredContext then (discoveredContext, True)
             else if (case builtin of Some b \<Rightarrow> 0 < bm_ContextTokens b | None \<Rightarrow> False) then (bm_ContextTokens (the builtin), True)
             else (0, False));
          (inCost, outCost, costKnown) =
            (if (case override of Some v \<Rightarrow> mm_Free v | None \<Rightarrow> False) then (0, 0, True)
             else if (case override of Some v \<Rightarrow> 0 < mm_InputCost v \<or> 0 < mm_OutputCost v | None \<Rightarrow> False)
             then (mm_InputCost (the override), mm_OutputCost (the override), True)
             else if strings_HasSuffix model freeTierSuffix then (0, 0, True)
             else if (case builtin of Some b \<Rightarrow> 0 < bm_InputCost b \<or> 0 < bm_OutputCost b | None \<Rightarrow> False)
             then (bm_InputCost (the builtin), bm_OutputCost (the builtin), True)
             else (0, 0, False))
      in \<lparr>rm_ContextTokens = ctx, rm_InputCost = inCost, rm_OutputCost = outCost, rm_ContextKnown = ctxKnown, rm_CostKnown = costKnown\<rparr>)"

definition resolveAliasModelMeta :: "(string \<rightharpoonup> builtinModelMeta) \<Rightarrow> string \<Rightarrow> string \<Rightarrow> string \<Rightarrow> (string \<rightharpoonup> ModelMetaConfig option) \<Rightarrow>
    int \<Rightarrow> bool \<Rightarrow> resolvedModelMeta" where
  "resolveAliasModelMeta table alias targetProvider targetModel cfg discoveredContext discoveredKnown =
     (let out = resolveModelMeta table targetProvider targetModel cfg discoveredContext discoveredKnown
      in case cfg alias of
           Some (Some v) \<Rightarrow>
             let out1 = (if 0 < mm_ContextTokens v then out\<lparr>rm_ContextTokens := mm_ContextTokens v, rm_ContextKnown := True\<rparr> else out)
             in if mm_Free v then out1\<lparr>rm_InputCost := 0, rm_OutputCost := 0, rm_CostKnown := True\<rparr>
                else if 0 < mm_InputCost v \<or> 0 < mm_OutputCost v
                then out1\<lparr>rm_InputCost := mm_InputCost v, rm_OutputCost := mm_OutputCost v, rm_CostKnown := True\<rparr>
                else out1
         | _ \<Rightarrow> out)"

subsection \<open>Properties\<close>

lemma wrap64_cong: "\<exists>k. wrap64 x = x + k * 18446744073709551616"
proof -
  have "(x + 9223372036854775808) mod 18446744073709551616
      = x + 9223372036854775808 - (x + 9223372036854775808) div 18446744073709551616 * 18446744073709551616"
    by (simp add: minus_div_mult_eq_mod)
  then show ?thesis unfolding wrap64_def by (intro exI [of _ "- ((x + 9223372036854775808) div 18446744073709551616)"]) simp
qed

lemma abs_smod_less: "b \<noteq> 0 \<Longrightarrow> \<bar>(x::int) smod b\<bar> < \<bar>b\<bar>"
proof -
  assume b: "b \<noteq> 0"
  have "x smod b = sgn x * (\<bar>x\<bar> mod \<bar>b\<bar>)" by (rule smod_int_alt_def)
  moreover have "0 \<le> \<bar>x\<bar> mod \<bar>b\<bar>" "\<bar>x\<bar> mod \<bar>b\<bar> < \<bar>b\<bar>" using b by simp_all
  ultimately show ?thesis using b by (auto simp: abs_mult sgn_if)
qed

lemma abs_sdiv_le: "\<bar>(x::int) sdiv b\<bar> * \<bar>b\<bar> \<le> \<bar>x\<bar>"
proof -
  have nonneg: "0 \<le> \<bar>x\<bar> div \<bar>b\<bar>" by (cases "b = 0") (auto simp: pos_imp_zdiv_nonneg_iff)
  have "\<bar>x sdiv b\<bar> * \<bar>b\<bar> \<le> (\<bar>x\<bar> div \<bar>b\<bar>) * \<bar>b\<bar>"
    unfolding signed_divide_int_def abs_mult using nonneg
    by (intro mult_right_mono) (auto simp: abs_mult sgn_if)
  also have "\<dots> = \<bar>x\<bar> - \<bar>x\<bar> mod \<bar>b\<bar>" by (simp only: minus_mod_eq_div_mult)
  also have "\<dots> \<le> \<bar>x\<bar>" by (cases "b = 0") simp_all
  finally show ?thesis .
qed

lemma in_int64I: "0 \<le> x \<Longrightarrow> x \<le> max_int64 \<Longrightarrow> in_int64 x"
  by (simp add: in_int64_def min_int64_def)

lemma in_int64_abs: "in_int64 x \<Longrightarrow> \<bar>x\<bar> \<le> 9223372036854775808"
  by (auto simp: in_int64_def min_int64_def max_int64_def)

lemma multiple_small: "\<bar>k * 18446744073709551616\<bar> < 9223372036854775808 \<Longrightarrow> k = (0::int)"
  by (cases k rule: int_cases2) auto

lemma mul_check_exact:
  assumes "in_int64 a" "in_int64 b" "b \<noteq> 0" "wrap64 (wrap64 (a * b) sdiv b) = a" "\<not> in_int64 (a * b)"
  shows "a = min_int64 \<and> b = - 1"
proof -
  let ?p = "wrap64 (a * b)"
  obtain k where k: "?p = a * b + k * 18446744073709551616" using wrap64_cong by blast
  have q: "\<bar>?p sdiv b\<bar> * \<bar>b\<bar> \<le> 9223372036854775808"
    using abs_sdiv_le [of ?p b] in_int64_abs [of ?p] by simp
  show ?thesis
  proof (cases "in_int64 (?p sdiv b)")
    case True
    with assms(4) have "?p sdiv b = a" by simp
    then have "?p smod b = k * 18446744073709551616" using k sdiv_mult_smod_eq [of ?p b] by simp
    moreover have "\<bar>?p smod b\<bar> < \<bar>b\<bar>" using abs_smod_less [OF assms(3)] .
    ultimately have "k = 0" using in_int64_abs [OF assms(2)] by (intro multiple_small) simp
    with k in_int64_wrap64 [of "a * b"] assms(5) show ?thesis by simp
  next
    case False
    have b1: "1 \<le> \<bar>b\<bar>" using assms(3) by simp
    then have "\<bar>?p sdiv b\<bar> * 1 \<le> \<bar>?p sdiv b\<bar> * \<bar>b\<bar>" by (intro mult_left_mono) auto
    then have "\<bar>?p sdiv b\<bar> \<le> 9223372036854775808" using q by linarith
    with False have e: "?p sdiv b = 9223372036854775808"
      unfolding in_int64_def min_int64_def max_int64_def by linarith
    with q have "\<bar>b\<bar> = 1" using b1 by simp
    moreover have "b \<noteq> 1"
    proof
      assume "b = 1"
      with e have "?p = 9223372036854775808" by (simp add: signed_divide_int_def sgn_if split: if_splits)
      with in_int64_wrap64 [of "a * b"] show False by (simp add: in_int64_def max_int64_def)
    qed
    ultimately have "b = - 1" by (auto simp: abs_if split: if_splits)
    moreover have "a = min_int64" using assms(4) unfolding e by (simp add: wrap64_def min_int64_def)
    ultimately show ?thesis by simp
  qed
qed

lemma sdiv_mult_self: "b \<noteq> 0 \<Longrightarrow> (a * b) sdiv b = (a::int)"
  using sdiv_mult_smod_eq [of "a * b" b] by (simp add: smod_int_alt_def abs_mult)

theorem saturatingMul_clamps_iff:
  assumes "in_int64 a" and "in_int64 b"
  shows "saturatingMulInt64 a b = clamp64 (a * b) \<longleftrightarrow> \<not> (a = min_int64 \<and> b = - 1)"
proof (cases "a = 0 \<or> b = 0")
  case True
  then show ?thesis by (auto simp: saturatingMulInt64_def clamp64_def min_int64_def max_int64_def)
next
  case nz: False
  show ?thesis
  proof (cases "in_int64 (a * b)")
    case True
    then have "saturatingMulInt64 a b = a * b" using nz assms(1) by (simp add: saturatingMulInt64_def sdiv_mult_self)
    moreover have "clamp64 (a * b) = a * b" using True by (auto simp: clamp64_def in_int64_def)
    moreover have "\<not> (a = min_int64 \<and> b = - 1)" using True by (auto simp: in_int64_def min_int64_def max_int64_def)
    ultimately show ?thesis by simp
  next
    case out: False
    show ?thesis
    proof (cases "a = min_int64 \<and> b = - 1")
      case True
      then have "saturatingMulInt64 a b \<noteq> clamp64 (a * b)"
        by (simp add: saturatingMulInt64_def min_int64_def max_int64_def clamp64_def wrap64_def signed_divide_int_def)
      with True show ?thesis by simp
    next
      case False
      then have "wrap64 (wrap64 (a * b) sdiv b) \<noteq> a" using mul_check_exact [OF assms _ _ out] nz by blast
      then have s: "saturatingMulInt64 a b = (if (0 < a) = (0 < b) then max_int64 else min_int64)"
        using nz by (simp add: saturatingMulInt64_def)
      have sign: "(0 < a) = (0 < b) \<longleftrightarrow> 0 < a * b" using nz by (auto simp: zero_less_mult_iff)
      have "clamp64 (a * b) = (if 0 < a * b then max_int64 else min_int64)"
        using out by (auto simp: clamp64_def in_int64_def min_int64_def max_int64_def)
      with s sign False show ?thesis by simp
    qed
  qed
qed

theorem saturatingMul_clamps_iff_witness:
  "saturatingMulInt64 max_int64 max_int64 = max_int64 \<and> saturatingMulInt64 min_int64 (- 1) \<noteq> clamp64 (min_int64 * - 1)"
proof -
  have "in_int64 max_int64" "in_int64 min_int64" "in_int64 (- 1)" by (simp_all add: in_int64_def min_int64_def max_int64_def)
  with saturatingMul_clamps_iff [of max_int64 max_int64] saturatingMul_clamps_iff [of min_int64 "- 1"]
  show ?thesis by (simp add: clamp64_def max_int64_def min_int64_def)
qed

text \<open>In the range of real usage and prices nothing saturates and the cost is the rounded quotient.\<close>

lemma saturatingMul_small: "in_int64 a \<Longrightarrow> in_int64 (a * b) \<Longrightarrow> saturatingMulInt64 a b = a * b"
  by (cases "a = 0 \<or> b = 0") (auto simp: saturatingMulInt64_def sdiv_mult_self)

lemma roundedDiv_nonneg:
  assumes "0 \<le> t" and "t \<le> max_int64 - 1000000"
  shows "roundedDivInt64 t 1000000 = (2 * t + 1000000) div 2000000"
proof -
  have q: "t sdiv 1000000 = t div 1000000" "t smod 1000000 = t mod 1000000"
    using assms(1) by (cases "t = 0"; simp add: signed_divide_int_def smod_int_alt_def)+
  define d r where "d = t div 1000000" and "r = t mod 1000000"
  have t: "t = d * 1000000 + r" and r: "0 \<le> r" "r < 1000000" unfolding d_def r_def by simp_all
  have d: "0 \<le> d" "d + 1 \<le> max_int64" using assms t r unfolding d_def by (simp_all add: max_int64_def pos_imp_zdiv_nonneg_iff)
  have w: "wrap64 (r * 2) = r * 2" "wrap64 (d + 1) = d + 1"
    using r d by (simp_all add: in_int64_def min_int64_def max_int64_def)
  have "(2 * t + 1000000) div 2000000 = (if 1000000 \<le> r * 2 then d + 1 else d)"
  proof (cases "1000000 \<le> r * 2")
    case True
    have "2 * t + 1000000 = (d + 1) * 2000000 + (r * 2 - 1000000)" unfolding t by simp
    moreover have "0 \<le> r * 2 - 1000000" "r * 2 - 1000000 < 2000000" using True r by simp_all
    ultimately have "(2 * t + 1000000) div 2000000 = d + 1"
      by (intro int_div_pos_eq [of _ _ _ "r * 2 - 1000000"]) (simp_all add: mult.commute)
    with True show ?thesis by simp
  next
    case False
    have "2 * t + 1000000 = d * 2000000 + (r * 2 + 1000000)" unfolding t by simp
    then have "(2 * t + 1000000) div 2000000 = d"
      using False r by (intro int_div_pos_eq [of _ _ _ "r * 2 + 1000000"]) (simp_all add: mult.commute)
    with False show ?thesis by simp
  qed
  then show ?thesis using assms(1) r(1) by (simp add: roundedDivInt64_def q w d_def [symmetric] r_def [symmetric])
qed

lemma rate_micros_exact: "0 \<le> k \<Longrightarrow> k < 2 ^ 50 \<Longrightarrow> rate_micros (fl (of_int k / 1000000)) = k"
  using whole_micros_exact [of k] by (simp add: rate_micros_def usdToMicros_def usdToMicroFactor_def tokensPerMillion_def)

lemma computeCost_of_rates:
  assumes "0 \<le> us_prompt u" "us_prompt u \<le> 2 ^ 30" "0 \<le> us_completion u" "us_completion u \<le> 2 ^ 30"
    and "0 \<le> rate_micros (InputPerM price)" "rate_micros (InputPerM price) \<le> 2 ^ 31"
    and "0 \<le> rate_micros (OutputPerM price)" "rate_micros (OutputPerM price) \<le> 2 ^ 31"
  shows "computeCostMicros price u
    = (2 * (us_prompt u * rate_micros (InputPerM price) + us_completion u * rate_micros (OutputPerM price)) + 1000000) div 2000000"
proof -
  let ?a = "us_prompt u * rate_micros (InputPerM price)" and ?b = "us_completion u * rate_micros (OutputPerM price)"
  have "?a \<le> 2 ^ 30 * 2 ^ 31" "?b \<le> 2 ^ 30 * 2 ^ 31" using assms by (intro mult_mono; simp)+
  then have le: "?a \<le> 2305843009213693952" "?b \<le> 2305843009213693952" by simp_all
  have ge: "0 \<le> ?a" "0 \<le> ?b" using assms by simp_all
  have i: "in_int64 ?a" "in_int64 ?b" "in_int64 (?a + ?b)" "in_int64 (us_prompt u)" "in_int64 (us_completion u)"
    using in_int64I [OF ge(1)] in_int64I [OF ge(2)] in_int64I [OF add_nonneg_nonneg [OF ge]] le
      in_int64I [OF assms(1)] in_int64I [OF assms(3)] assms(2,4) by (simp_all add: max_int64_def)
  have "saturatingAddInt64 ?a ?b = ?a + ?b" using i ge by (simp add: saturatingAddInt64_def)
  moreover have "?a + ?b \<le> max_int64 - 1000000" "0 \<le> ?a + ?b" using le ge by (simp_all add: max_int64_def)
  ultimately show ?thesis using i roundedDiv_nonneg [of "?a + ?b"]
    by (simp add: computeCostMicros_def saturatingMul_small Let_def)
qed

text \<open>C39: For token counts up to 2^30 and prices of whole micro-dollars up to 2147 dollars per
  million tokens, the billed cost is the exact product sum divided by a million and rounded
  to the nearest micro-dollar, half up, in spite of the two floating-point roundings.\<close>

theorem computeCost_rounds:
  assumes "0 \<le> us_prompt u" "us_prompt u \<le> 2 ^ 30" "0 \<le> us_completion u" "us_completion u \<le> 2 ^ 30"
    and "0 \<le> i" "i \<le> 2 ^ 31" "0 \<le> j" "j \<le> 2 ^ 31"
  shows "computeCostMicros \<lparr>InputPerM = fl (of_int i / 1000000), OutputPerM = fl (of_int j / 1000000)\<rparr> u
    = (2 * (us_prompt u * i + us_completion u * j) + 1000000) div 2000000"
  using assms computeCost_of_rates [of u "\<lparr>InputPerM = fl (of_int i / 1000000), OutputPerM = fl (of_int j / 1000000)\<rparr>"]
  by (simp add: rate_micros_exact)

theorem computeCost_rounds_witness:
  "computeCostMicros \<lparr>InputPerM = fl (2500000 / 1000000), OutputPerM = fl (10000001 / 1000000)\<rparr>
     \<lparr>us_prompt = 1000, us_completion = 5, us_estimated = False\<rparr> = 2550"
  using computeCost_rounds [of "\<lparr>us_prompt = 1000, us_completion = 5, us_estimated = False\<rparr>" 2500000 10000001] by simp

text \<open>Billing and the reported price source never disagree.\<close>

theorem billing_agrees_with_reported_source:
  assumes "billingPriceSource table canonical bare overrides meta = (src, price)"
  shows "fst (unifiedCostMicros table canonical bare u overrides meta w)
      = (if src = PriceFree \<or> src = PriceUnpriced then 0 else computeCostMicros price u)
    \<and> (priceKnown table canonical bare overrides meta \<longleftrightarrow> src \<noteq> PriceUnpriced)
    \<and> (src \<noteq> PriceUnpriced \<longrightarrow> snd (unifiedCostMicros table canonical bare u overrides meta w) = w)"
proof -
  have src: "s \<noteq> PriceFree \<and> s \<noteq> PriceUnpriced" if "lookupPricingSource table m overrides = Some (p, s)" for m p s
    using that by (auto simp: lookupPricingSource_def split: option.splits if_splits)
  show ?thesis
    using assms src
    by (auto simp: billingPriceSource_def unifiedCostMicros_def costMicrosKnownFor_def priceKnown_def lookupPricing_def
        split: if_splits option.splits)
qed

theorem billing_agrees_with_reported_source_witness:
  "fst (unifiedCostMicros Map.empty ''p/gpt-5'' ''gpt-5'' \<lparr>us_prompt = 3, us_completion = 4, us_estimated = False\<rparr> Map.empty Map.empty
       \<lparr>ws_warnedModels = [], ws_capNotified = False, ws_warnings = []\<rparr>)
     = computeCostMicros (usd (125 / 100) 10) \<lparr>us_prompt = 3, us_completion = 4, us_estimated = False\<rparr>"
  using billing_agrees_with_reported_source [of Map.empty "''p/gpt-5''" "''gpt-5''" Map.empty Map.empty PriceBuiltin "usd (125 / 100) 10"
      "\<lparr>us_prompt = 3, us_completion = 4, us_estimated = False\<rparr>" "\<lparr>ws_warnedModels = [], ws_capNotified = False, ws_warnings = []\<rparr>"]
  by (simp add: billingPriceSource_def modelMetaFree_def lookupPricingSource_def builtinPricing_def)

end
