(* ===== verification/Breakers.thy ===== *)
theory Breakers
  imports Retry
begin

text \<open>
  The two circuit breakers of the gateway: the discovery breaker of a provider
  (\<open>providerState\<close>, registry.go) and the request breaker (\<open>requestHealthTracker\<close>, failover.go).

  Both are instances of the locale \<open>circuit_breaker\<close>: a state that is stepped by timed events, an
  instant up to which calls may be refused, and a bound on how far an event may push that instant
  into the future.  The locale proves recovery once: whatever happened up to an instant, from the
  bound after it on the breaker lets a call through.  The request breaker also refines a two-state
  reference machine, per provider.

  Mutexes are not modelled: every method holds its lock from start to end.
\<close>

subsection \<open>The shared contract\<close>

locale circuit_breaker =
  fixes step :: "'e \<Rightarrow> 's \<Rightarrow> 's" and time_of :: "'e \<Rightarrow> gtime"
    and wf :: "'s \<Rightarrow> bool" and until :: "'s \<Rightarrow> gtime" and admits :: "gtime \<Rightarrow> 's \<Rightarrow> bool"
    and max_open :: duration
  assumes wf_step: "wf s \<Longrightarrow> wf (step e s)"
    and until_step: "wf s \<Longrightarrow> until (step e s) \<le> max (until s) (time_of e + max_open)"
    and admits_from: "wf s \<Longrightarrow> until s \<le> t \<Longrightarrow> admits t s"
begin

lemma wf_run: "wf s \<Longrightarrow> wf (fold step es s)"
  by (induction es arbitrary: s) (simp_all add: wf_step)

lemma until_run:
  "wf s \<Longrightarrow> \<forall>e\<in>set es. time_of e \<le> T \<Longrightarrow> until s \<le> T + max_open \<Longrightarrow>
     until (fold step es s) \<le> T + max_open"
proof (induction es arbitrary: s)
  case (Cons e es)
  have "until (step e s) \<le> max (until s) (time_of e + max_open)" using Cons.prems(1) by (rule until_step)
  then have "until (step e s) \<le> T + max_open" using Cons.prems by (auto simp: le_max_iff_disj)
  with Cons wf_step show ?case by simp
qed simp

lemma recovers:
  assumes "wf s" and "\<forall>e\<in>set es. time_of e \<le> T" and "until s \<le> T + max_open" and "T + max_open \<le> t"
  shows "admits t (fold step es s)"
  using admits_from [OF wf_run [OF assms(1)]] until_run [OF assms(1,2,3)] assms(4) by simp

end

subsection \<open>The discovery breaker\<close>

definition defaultDiscoveryInterval :: duration where [dur_defs]: "defaultDiscoveryInterval = hour"
definition defaultBreakerFailureThreshold :: int where "defaultBreakerFailureThreshold = 3"
definition maxBreakerFailureThreshold :: int where "maxBreakerFailureThreshold = 100"
definition defaultBreakerOpenDuration :: duration where [dur_defs]: "defaultBreakerOpenDuration = minute"
definition defaultBreakerMaxOpenDuration :: duration where [dur_defs]: "defaultBreakerMaxOpenDuration = 6 * hour"
definition maxBreakerOpenDuration :: duration where [dur_defs]: "maxBreakerOpenDuration = 24 * hour"

datatype breakerState = breakerClosed | breakerOpen | breakerHalfOpen

fun breakerState_String :: "breakerState \<Rightarrow> string" where
  "breakerState_String breakerOpen = ''open''"
| "breakerState_String breakerHalfOpen = ''half-open''"
| "breakerState_String breakerClosed = ''closed''"

definition errEmptyDiscovery :: go_error where
  "errEmptyDiscovery = OtherError ''llmgateway: discovery returned no models, keeping the previous set''"

record providerState =
  st_lastRefresh :: gtime
  st_openUntil :: gtime
  st_explicit :: "string set"
  st_discovered :: "string set"
  st_discoveredContext :: "string \<rightharpoonup> int"
  st_lastErr :: "go_error option"
  st_interval :: duration
  st_consecutiveFailures :: int
  st_backoff :: duration
  st_breakerThreshold :: int
  st_breakerOpenBase :: duration
  st_breakerOpenMax :: duration
  st_health :: breakerState
  st_discoveryEnabled :: bool
  st_inFlight :: bool

definition hasModel :: "providerState \<Rightarrow> string \<Rightarrow> bool" where
  "hasModel st mid \<longleftrightarrow> mid \<in> st_explicit st \<or> mid \<in> st_discovered st"

definition knownIDsLocked :: "providerState \<Rightarrow> string list" where
  "knownIDsLocked st = sorted_list_of_set (st_explicit st \<union> st_discovered st)"

definition knownIDs :: "providerState \<Rightarrow> string list" where
  "knownIDs st = knownIDsLocked st"

definition contextFor :: "providerState \<Rightarrow> string \<Rightarrow> int option" where
  "contextFor st mid = st_discoveredContext st mid"

definition setDiscoveredContext :: "(string \<rightharpoonup> int) \<Rightarrow> providerState \<Rightarrow> providerState" where
  "setDiscoveredContext m st = st\<lparr>st_discoveredContext := m\<rparr>"

definition tryBeginRefresh :: "gtime \<Rightarrow> providerState \<Rightarrow> bool \<times> providerState" where
  "tryBeginRefresh now st =
     (if st_inFlight st then (False, st)
      else if time_Sub now (st_lastRefresh st) < st_interval st then (False, st)
      else if st_health st = breakerOpen \<and> now < st_openUntil st then (False, st)
      else let st1 = (if st_health st = breakerOpen then st\<lparr>st_health := breakerHalfOpen\<rparr> else st)
           in (True, st1\<lparr>st_inFlight := True\<rparr>))"

definition tryBeginWarmFillRetry :: "gtime \<Rightarrow> providerState \<Rightarrow> bool \<times> providerState" where
  "tryBeginWarmFillRetry sinceWarmFill st =
     (if st_inFlight st then (False, st)
      else if sinceWarmFill < st_lastRefresh st then (False, st)
      else (True, st\<lparr>st_inFlight := True\<rparr>))"

definition closeBreakerLocked :: "providerState \<Rightarrow> providerState" where
  "closeBreakerLocked st =
     st\<lparr>st_health := breakerClosed, st_consecutiveFailures := 0, st_backoff := 0, st_openUntil := zero_time\<rparr>"

definition next_pause :: "bool \<Rightarrow> providerState \<Rightarrow> duration" where
  "next_pause escalate st =
     (let b = (if escalate \<and> 0 < st_backoff st then wrap64 (st_backoff st * 2) else st_breakerOpenBase st)
      in if st_breakerOpenMax st < b then st_breakerOpenMax st else b)"

definition openBreakerLocked :: "gtime \<Rightarrow> bool \<Rightarrow> providerState \<Rightarrow> providerState" where
  "openBreakerLocked now escalate st =
     st\<lparr>st_backoff := next_pause escalate st, st_health := breakerOpen, st_openUntil := now + next_pause escalate st\<rparr>"

definition recordHealthLocked :: "gtime \<Rightarrow> go_error option \<Rightarrow> providerState \<Rightarrow> providerState" where
  "recordHealthLocked now err st =
     (if matchesSentinel err Canceled
      then (if st_health st = breakerHalfOpen then st\<lparr>st_health := breakerOpen\<rparr> else st)
      else if st_health st = breakerHalfOpen
           then (if err \<noteq> None then openBreakerLocked now True st else closeBreakerLocked st)
      else if err = None then closeBreakerLocked st
      else if st_breakerThreshold st \<le> 0 then st
      else let st1 = st\<lparr>st_consecutiveFailures := wrap64 (st_consecutiveFailures st + 1)\<rparr>
           in if st_breakerThreshold st1 \<le> st_consecutiveFailures st1 then openBreakerLocked now False st1 else st1)"

definition finishRefresh :: "gtime \<Rightarrow> string list \<Rightarrow> go_error option \<Rightarrow> providerState \<Rightarrow> providerState" where
  "finishRefresh now ids err st =
     (let st1 = st\<lparr>st_inFlight := False, st_lastRefresh := now\<rparr>;
          err1 = (if err = None \<and> ids = [] \<and> st_discovered st1 \<noteq> {} then Some errEmptyDiscovery else err);
          st2 = (if err1 \<noteq> None then st1\<lparr>st_lastErr := err1\<rparr>
                 else st1\<lparr>st_lastErr := None, st_discovered := set ids\<rparr>)
      in recordHealthLocked now err1 st2)"

definition providerState_discoveryHealthy :: "providerState \<Rightarrow> bool" where
  "providerState_discoveryHealthy st \<longleftrightarrow> st_health st \<noteq> breakerOpen"

record stateSnapshot =
  sn_models :: "string list"
  sn_lastRefresh :: gtime
  sn_lastErr :: "go_error option"
  sn_health :: breakerState
  sn_openUntil :: gtime

definition providerState_snapshot :: "providerState \<Rightarrow> stateSnapshot" where
  "providerState_snapshot st =
     (let floor = st_lastRefresh st + st_interval st;
          effectiveOpenUntil = (if st_health st = breakerOpen \<and> st_openUntil st < floor then floor else st_openUntil st)
      in \<lparr>sn_models = knownIDsLocked st, sn_lastRefresh = st_lastRefresh st, sn_lastErr = st_lastErr st,
          sn_health = st_health st, sn_openUntil = effectiveOpenUntil\<rparr>)"

subsection \<open>Breaker configuration\<close>

record BreakerConfig =
  bc_FailureThreshold :: int
  bc_OpenDuration :: string
  bc_MaxOpenDuration :: string

record breakerConfig =
  failureThreshold :: int
  openBase :: duration
  openMax :: duration

datatype breakerError =
    ThresholdOutOfRange int
  | OpenUnparsable string | OpenNotPositive string
  | MaxOpenUnparsable string | MaxOpenNotPositive string | MaxOpenTooLong string
  | MaxBelowBase duration duration

definition parse_open :: "string \<Rightarrow> breakerError + duration" where
  "parse_open s =
     (if s = [] then Inr defaultBreakerOpenDuration
      else (case time_ParseDuration s of
              None \<Rightarrow> Inl (OpenUnparsable s)
            | Some d \<Rightarrow> if d \<le> 0 then Inl (OpenNotPositive s) else Inr d))"

definition parse_max_open :: "string \<Rightarrow> breakerError + duration" where
  "parse_max_open s =
     (if s = [] then Inr defaultBreakerMaxOpenDuration
      else (case time_ParseDuration s of
              None \<Rightarrow> Inl (MaxOpenUnparsable s)
            | Some d \<Rightarrow> if d \<le> 0 then Inl (MaxOpenNotPositive s)
                        else if maxBreakerOpenDuration < d then Inl (MaxOpenTooLong s) else Inr d))"

definition validateBreakerConfig :: "BreakerConfig \<Rightarrow> breakerError + breakerConfig" where
  "validateBreakerConfig bc =
     (let threshold = (if bc_FailureThreshold bc = 0 then defaultBreakerFailureThreshold else bc_FailureThreshold bc)
      in if threshold < 1 \<or> maxBreakerFailureThreshold < threshold then Inl (ThresholdOutOfRange threshold)
         else (case parse_open (bc_OpenDuration bc) of
                 Inl e \<Rightarrow> Inl e
               | Inr ob \<Rightarrow>
                   (case parse_max_open (bc_MaxOpenDuration bc) of
                      Inl e \<Rightarrow> Inl e
                    | Inr om \<Rightarrow> if om < ob then Inl (MaxBelowBase om ob)
                                else Inr \<lparr>failureThreshold = threshold, openBase = ob, openMax = om\<rparr>)))"

definition new_providerState :: "breakerConfig \<Rightarrow> string list \<Rightarrow> bool \<Rightarrow> duration \<Rightarrow> providerState" where
  "new_providerState bc models discovery interval =
     \<lparr>st_lastRefresh = zero_time, st_openUntil = zero_time, st_explicit = set models, st_discovered = {},
      st_discoveredContext = Map.empty, st_lastErr = None, st_interval = interval,
      st_consecutiveFailures = 0, st_backoff = 0, st_breakerThreshold = failureThreshold bc,
      st_breakerOpenBase = openBase bc, st_breakerOpenMax = openMax bc, st_health = breakerClosed,
      st_discoveryEnabled = discovery, st_inFlight = False\<rparr>"

subsection \<open>The request breaker\<close>

definition requestBreakerFailureThreshold :: int where "requestBreakerFailureThreshold = 3"
definition requestBreakerOpenDuration :: duration where [dur_defs]: "requestBreakerOpenDuration = 30 * second"
definition requestBreakerMaxOpenDuration :: duration where [dur_defs]: "requestBreakerMaxOpenDuration = 5 * minute"

record requestHealthState =
  rh_openUntil :: gtime
  rh_backoff :: duration
  rh_consecutiveFailures :: int
  rh_open :: bool

definition requestHealthState_zero :: requestHealthState where
  "requestHealthState_zero = \<lparr>rh_openUntil = zero_time, rh_backoff = 0, rh_consecutiveFailures = 0, rh_open = False\<rparr>"

type_synonym requestHealthTracker = "string \<rightharpoonup> requestHealthState"

definition newRequestHealthTracker :: requestHealthTracker where
  "newRequestHealthTracker = Map.empty"

definition stateFor :: "requestHealthTracker \<Rightarrow> string \<Rightarrow> requestHealthState \<times> requestHealthTracker" where
  "stateFor t provider =
     (case t provider of
        Some st \<Rightarrow> (st, t)
      | None \<Rightarrow> (requestHealthState_zero, t(provider \<mapsto> requestHealthState_zero)))"

definition record_failure :: "gtime \<Rightarrow> requestHealthState \<Rightarrow> requestHealthState" where
  "record_failure now st =
     (if rh_open st \<and> now < rh_openUntil st then st
      else if rh_open st
      then let b = (if rh_backoff st \<le> 0 then requestBreakerOpenDuration else wrap64 (rh_backoff st * 2));
               b = (if requestBreakerMaxOpenDuration < b then requestBreakerMaxOpenDuration else b)
           in st\<lparr>rh_backoff := b, rh_openUntil := now + b\<rparr>
      else let st1 = st\<lparr>rh_consecutiveFailures := wrap64 (rh_consecutiveFailures st + 1)\<rparr>
           in if requestBreakerFailureThreshold \<le> rh_consecutiveFailures st1
              then st1\<lparr>rh_open := True, rh_backoff := requestBreakerOpenDuration,
                       rh_openUntil := now + requestBreakerOpenDuration\<rparr>
              else st1)"

definition record_state :: "gtime \<times> bool \<Rightarrow> requestHealthState \<Rightarrow> requestHealthState" where
  "record_state = (\<lambda>(now, success) st.
     if success then st\<lparr>rh_open := False, rh_consecutiveFailures := 0, rh_backoff := 0, rh_openUntil := zero_time\<rparr>
     else record_failure now st)"

text \<open>A nil tracker is \<open>None\<close>: recording on it is a no-op and everything counts as healthy.\<close>

definition tracker_record :: "gtime \<Rightarrow> string \<Rightarrow> bool \<Rightarrow> requestHealthTracker option \<Rightarrow> requestHealthTracker option" where
  "tracker_record now provider success tr =
     (case tr of None \<Rightarrow> None | Some t \<Rightarrow>
        if provider = [] then Some t
        else (case stateFor t provider of (st, t1) \<Rightarrow> Some (t1(provider \<mapsto> record_state (now, success) st))))"

definition tracker_healthy :: "gtime \<Rightarrow> string \<Rightarrow> requestHealthTracker option \<Rightarrow> bool \<times> requestHealthTracker option" where
  "tracker_healthy now provider tr =
     (case tr of None \<Rightarrow> (True, None) | Some t \<Rightarrow>
        if provider = [] then (True, Some t)
        else (case stateFor t provider of (st, t1) \<Rightarrow>
               ((if \<not> rh_open st then True else \<not> now < rh_openUntil st), Some t1)))"


subsection \<open>The request breaker recovers\<close>

definition rh_wf :: "requestHealthState \<Rightarrow> bool" where
  "rh_wf st \<longleftrightarrow>
     (if rh_open st then requestBreakerOpenDuration \<le> rh_backoff st \<and> rh_backoff st \<le> requestBreakerMaxOpenDuration
      else rh_backoff st = 0 \<and> rh_openUntil st = zero_time
           \<and> 0 \<le> rh_consecutiveFailures st \<and> rh_consecutiveFailures st < requestBreakerFailureThreshold)"

lemma rh_wf_zero [simp, inv_intros]: "rh_wf requestHealthState_zero"
  by (simp add: rh_wf_def requestHealthState_zero_def requestBreakerFailureThreshold_def)

lemma wrap64_double_pause:
  "requestBreakerOpenDuration \<le> b \<Longrightarrow> b \<le> requestBreakerMaxOpenDuration \<Longrightarrow> wrap64 (b * 2) = b * 2"
  by (simp add: in_int64_def min_int64_def max_int64_def dur_defs)

lemma wrap64_next_failure: "0 \<le> n \<Longrightarrow> n < requestBreakerFailureThreshold \<Longrightarrow> wrap64 (n + 1) = n + 1"
  by (simp add: in_int64_def min_int64_def max_int64_def requestBreakerFailureThreshold_def)

lemma record_failure_cases:
  assumes "rh_wf st"
  obtains (waiting) "rh_open st" "now < rh_openUntil st" "record_failure now st = st"
  | (escalate) b where "rh_open st" "\<not> now < rh_openUntil st"
      "b = min (2 * rh_backoff st) requestBreakerMaxOpenDuration"
      "record_failure now st = st\<lparr>rh_backoff := b, rh_openUntil := now + b\<rparr>"
  | (count) "\<not> rh_open st" "rh_consecutiveFailures st + 1 < requestBreakerFailureThreshold"
      "record_failure now st = st\<lparr>rh_consecutiveFailures := rh_consecutiveFailures st + 1\<rparr>"
  | (trip) "\<not> rh_open st" "requestBreakerFailureThreshold \<le> rh_consecutiveFailures st + 1"
      "record_failure now st = st\<lparr>rh_consecutiveFailures := rh_consecutiveFailures st + 1, rh_open := True,
         rh_backoff := requestBreakerOpenDuration, rh_openUntil := now + requestBreakerOpenDuration\<rparr>"
proof (cases "rh_open st")
  case True
  show thesis
  proof (cases "now < rh_openUntil st")
    case True
    with \<open>rh_open st\<close> show thesis by (intro waiting) (simp_all add: record_failure_def)
  next
    case False
    have b: "requestBreakerOpenDuration \<le> rh_backoff st" "rh_backoff st \<le> requestBreakerMaxOpenDuration"
      using assms True by (simp_all add: rh_wf_def)
    have "\<not> rh_backoff st \<le> 0" using b(1) by (simp add: dur_defs)
    with True False wrap64_double_pause [OF b] show thesis
      by (intro escalate [OF _ _ refl]) (simp_all add: record_failure_def Let_def min_def mult.commute)
  qed
next
  case False
  then have "wrap64 (rh_consecutiveFailures st + 1) = rh_consecutiveFailures st + 1"
    using assms by (intro wrap64_next_failure) (simp_all add: rh_wf_def)
  with False show thesis
    by (cases "requestBreakerFailureThreshold \<le> rh_consecutiveFailures st + 1")
      (auto intro: count trip simp: record_failure_def Let_def)
qed

lemma rh_wf_record_failure [inv_intros]:
  assumes "rh_wf st" shows "rh_wf (record_failure now st)"
  using assms by (cases rule: record_failure_cases [OF assms, of now]) (auto simp: rh_wf_def dur_defs)

lemma rh_wf_record [inv_intros]: "rh_wf st \<Longrightarrow> rh_wf (record_state e st)"
  by (cases e) (simp add: record_state_def rh_wf_record_failure,
      simp add: rh_wf_def requestBreakerFailureThreshold_def)

lemma record_failure_until:
  assumes "rh_wf st"
  shows "rh_openUntil (record_failure now st) \<le> max (rh_openUntil st) (now + requestBreakerMaxOpenDuration)"
  by (rule record_failure_cases [OF assms, of now]) (auto simp: dur_defs)

interpretation req: circuit_breaker record_state fst rh_wf "\<lambda>st. max zero_time (rh_openUntil st)"
  "\<lambda>now st. if \<not> rh_open st then True else \<not> now < rh_openUntil st" requestBreakerMaxOpenDuration
proof
  fix e st assume wf: "rh_wf st"
  show "rh_wf (record_state e st)" using wf by (rule rh_wf_record)
  show "max zero_time (rh_openUntil (record_state e st))
      \<le> max (max zero_time (rh_openUntil st)) (fst e + requestBreakerMaxOpenDuration)"
    using record_failure_until [OF wf, of "fst e"] by (cases e) (auto simp: record_state_def)
qed auto


subsection \<open>Refinement of a reference machine\<close>

text \<open>
  The reference machine is closed with a count of failures, or open with an instant and a pause.
  It has no nil pointers, no lazily created entries and no separate half-open flag.
\<close>

datatype circuit = Closed nat | Open gtime duration

fun circuit_fail :: "nat \<Rightarrow> duration \<Rightarrow> duration \<Rightarrow> gtime \<Rightarrow> circuit \<Rightarrow> circuit" where
  "circuit_fail k base cap now (Closed n) = (if Suc n < k then Closed (Suc n) else Open (now + base) base)"
| "circuit_fail k base cap now (Open u p) =
     (if now < u then Open u p else Open (now + min (2 * p) cap) (min (2 * p) cap))"

definition circuit_step :: "gtime \<times> bool \<Rightarrow> circuit \<Rightarrow> circuit" where
  "circuit_step = (\<lambda>(now, success) c.
     if success then Closed 0 else circuit_fail 3 (30 * second) (5 * minute) now c)"

fun circuit_admits :: "gtime \<Rightarrow> circuit \<Rightarrow> bool" where
  "circuit_admits now (Closed n) \<longleftrightarrow> True"
| "circuit_admits now (Open u p) \<longleftrightarrow> u \<le> now"

definition circuit_of :: "requestHealthState \<Rightarrow> circuit" where
  "circuit_of st = (if rh_open st then Open (rh_openUntil st) (rh_backoff st) else Closed (nat (rh_consecutiveFailures st)))"

lemma circuit_of_failure:
  assumes "rh_wf st"
  shows "circuit_of (record_failure now st) = circuit_fail 3 (30 * second) (5 * minute) now (circuit_of st)"
  using assms
proof (cases rule: record_failure_cases [where now = now])
  case count
  with assms show ?thesis by (simp add: circuit_of_def rh_wf_def requestBreakerFailureThreshold_def nat_add_distrib)
next
  case trip
  with assms show ?thesis
    by (simp add: circuit_of_def rh_wf_def requestBreakerFailureThreshold_def requestBreakerOpenDuration_def)
qed (simp_all add: circuit_of_def requestBreakerMaxOpenDuration_def)

lemma circuit_of_step: "rh_wf st \<Longrightarrow> circuit_of (record_state e st) = circuit_step e (circuit_of st)"
  by (cases e) (auto simp: record_state_def circuit_step_def circuit_of_failure, simp add: circuit_of_def)

lemma circuit_of_run: "rh_wf st \<Longrightarrow> circuit_of (fold record_state es st) = fold circuit_step es (circuit_of st)"
  by (induction es arbitrary: st) (simp_all add: circuit_of_step rh_wf_record)

text \<open>The tracker: one reference machine per provider, all starting closed.\<close>

definition tracker_state :: "requestHealthTracker \<Rightarrow> string \<Rightarrow> requestHealthState" where
  "tracker_state t provider = (case t provider of Some st \<Rightarrow> st | None \<Rightarrow> requestHealthState_zero)"

lemma tracker_state_stateFor: "fst (stateFor t p) = tracker_state t p" "tracker_state (snd (stateFor t p)) q = tracker_state t q"
  by (auto simp: stateFor_def tracker_state_def split: option.splits)

lemma tracker_record_state:
  "q \<noteq> [] \<Longrightarrow> \<exists>t'. tracker_record now p success (Some t) = Some t'
     \<and> tracker_state t' q = (if p = q then record_state (now, success) (tracker_state t q) else tracker_state t q)"
  using tracker_state_stateFor [of t p]
  by (auto simp: tracker_record_def tracker_state_def split: prod.splits)

fun record_all :: "(gtime \<times> string \<times> bool) list \<Rightarrow> requestHealthTracker option \<Rightarrow> requestHealthTracker option" where
  "record_all [] tr = tr"
| "record_all ((now, provider, success) # es) tr = record_all es (tracker_record now provider success tr)"

definition own_events :: "string \<Rightarrow> (gtime \<times> string \<times> bool) list \<Rightarrow> (gtime \<times> bool) list" where
  "own_events p es = map (\<lambda>(now, _, success). (now, success)) (filter (\<lambda>(_, q, _). q = p) es)"

lemma record_all_state:
  "p \<noteq> [] \<Longrightarrow> \<exists>t'. record_all es (Some t) = Some t' \<and> tracker_state t' p = fold record_state (own_events p es) (tracker_state t p)"
proof (induction es arbitrary: t)
  case (Cons e es)
  obtain now q success where e: "e = (now, q, success)" by (cases e) auto
  from tracker_record_state [OF Cons.prems, of now q success t] obtain t1
    where t1: "tracker_record now q success (Some t) = Some t1"
      "tracker_state t1 p = (if q = p then record_state (now, success) (tracker_state t p) else tracker_state t p)"
    by blast
  from Cons.IH [OF Cons.prems, of t1] t1 show ?case by (auto simp: e own_events_def)
qed (simp add: own_events_def)

lemma record_all_from_new:
  assumes "p \<noteq> []"
  obtains t where "record_all es (Some newRequestHealthTracker) = Some t"
    and "tracker_state t p = fold record_state (own_events p es) requestHealthState_zero"
  using record_all_state [OF assms, of es newRequestHealthTracker] that
  by (auto simp: newRequestHealthTracker_def tracker_state_def [of Map.empty])

lemma tracker_healthy_state:
  "p \<noteq> [] \<Longrightarrow> fst (tracker_healthy now p (Some t))
     = (if \<not> rh_open (tracker_state t p) then True else \<not> now < rh_openUntil (tracker_state t p))"
  using tracker_state_stateFor(1) [of t p] by (auto simp: tracker_healthy_def split: prod.splits)

text \<open>C33: Over any history of recorded outcomes of any providers, the health the tracker reports
  for a provider is that of a reference circuit breaker run on that provider's own outcomes:
  closed until three failures in a row, then open for thirty seconds, doubling up to five
  minutes on each failure after the pause, closed again by a success.\<close>

theorem request_breaker_refines:
  assumes "provider \<noteq> []"
  shows "fst (tracker_healthy now provider (record_all es (Some newRequestHealthTracker)))
    \<longleftrightarrow> circuit_admits now (fold circuit_step (own_events provider es) (Closed 0))"
proof -
  obtain t where t: "record_all es (Some newRequestHealthTracker) = Some t"
    and st: "tracker_state t provider = fold record_state (own_events provider es) requestHealthState_zero"
    using record_all_from_new [OF assms] by metis
  have z: "circuit_of requestHealthState_zero = Closed 0" by (simp add: circuit_of_def requestHealthState_zero_def)
  have "fst (tracker_healthy now provider (Some t)) \<longleftrightarrow> circuit_admits now (circuit_of (tracker_state t provider))"
    using tracker_healthy_state [OF assms, of now t] by (auto simp: circuit_of_def)
  then show ?thesis by (simp add: t st circuit_of_run z)
qed

theorem request_breaker_refines_witness:
  "\<not> fst (tracker_healthy (40 * second) ''openai''
       (record_all [(10 * second, ''openai'', False), (11 * second, ''other'', True), (12 * second, ''openai'', False),
                    (13 * second, ''openai'', False)] (Some newRequestHealthTracker)))"
  using request_breaker_refines [of "''openai''" "40 * second"
      "[(10 * second, ''openai'', False), (11 * second, ''other'', True), (12 * second, ''openai'', False),
        (13 * second, ''openai'', False)]"]
  by (simp add: own_events_def circuit_step_def second_def)

theorem request_breaker_recovers:
  assumes "\<forall>(ts, p, success)\<in>set es. ts \<le> T" and "zero_time \<le> T" and "T + 5 * minute \<le> now"
  shows "fst (tracker_healthy now provider (record_all es (Some newRequestHealthTracker)))"
proof (cases "provider = []")
  case True
  have "\<exists>t. record_all es (Some t0) = Some t" for t0
    by (induction es arbitrary: t0) (auto simp: tracker_record_def split: prod.splits)
  then show ?thesis using True by (auto simp: tracker_healthy_def split: option.splits)
next
  case False
  obtain t where t: "record_all es (Some newRequestHealthTracker) = Some t"
    and st: "tracker_state t provider = fold record_state (own_events provider es) requestHealthState_zero"
    using record_all_from_new [OF False] by metis
  have "max zero_time (rh_openUntil requestHealthState_zero) \<le> T + requestBreakerMaxOpenDuration"
    using assms(2) by (simp add: requestHealthState_zero_def dur_defs)
  moreover have "\<forall>e\<in>set (own_events provider es). fst e \<le> T" using assms(1) by (auto simp: own_events_def)
  moreover have "T + requestBreakerMaxOpenDuration \<le> now" using assms(3) by (simp add: dur_defs)
  ultimately show ?thesis
    using req.recovers [OF rh_wf_zero] tracker_healthy_state [OF False] by (simp add: t st)
qed

theorem request_breaker_recovers_witness:
  "fst (tracker_healthy (400 * second) ''openai''
       (record_all [(10 * second, ''openai'', False), (12 * second, ''openai'', False), (13 * second, ''openai'', False)]
          (Some newRequestHealthTracker)))"
  by (rule request_breaker_recovers [of _ "13 * second"]) (simp_all add: dur_defs zero_time_def)


subsection \<open>The discovery breaker recovers\<close>

datatype refreshEvent =
    Begin gtime
  | BeginWarmFillRetry gtime gtime
  | Finish gtime "string list" "go_error option"

fun refresh_step :: "refreshEvent \<Rightarrow> providerState \<Rightarrow> providerState" where
  "refresh_step (Begin now) st = snd (tryBeginRefresh now st)"
| "refresh_step (BeginWarmFillRetry now since) st = snd (tryBeginWarmFillRetry since st)"
| "refresh_step (Finish now ids err) st = finishRefresh now ids err st"

fun refresh_time :: "refreshEvent \<Rightarrow> gtime" where
  "refresh_time (Begin now) = now"
| "refresh_time (BeginWarmFillRetry now since) = now"
| "refresh_time (Finish now ids err) = now"

definition st_wf :: "duration \<Rightarrow> duration \<Rightarrow> providerState \<Rightarrow> bool" where
  "st_wf i m st \<longleftrightarrow> st_interval st = i \<and> 0 < i \<and> i \<le> max_int64 \<and> st_breakerOpenMax st = m
     \<and> m \<le> maxBreakerOpenDuration \<and> 0 < st_breakerOpenBase st \<and> 0 \<le> st_backoff st \<and> st_backoff st \<le> m"

lemma next_pause_bounds:
  assumes "st_wf i m st"
  shows "0 \<le> next_pause escalate st" and "next_pause escalate st \<le> m"
proof -
  have "st_breakerOpenMax st = m" "0 \<le> m" "wrap64 (st_backoff st * 2) = st_backoff st * 2"
    using assms by (simp_all add: st_wf_def in_int64_def min_int64_def max_int64_def dur_defs)
  with assms show "0 \<le> next_pause escalate st" "next_pause escalate st \<le> m"
    by (simp_all add: next_pause_def Let_def st_wf_def)
qed

lemma st_wf_open: "st_wf i m st \<Longrightarrow> st_wf i m (openBreakerLocked now escalate st)"
  using next_pause_bounds [of i m st escalate] by (simp add: openBreakerLocked_def st_wf_def)

lemma st_wf_record: "st_wf i m st \<Longrightarrow> st_wf i m (recordHealthLocked now err st)"
  using st_wf_open [of i m st now True] st_wf_open [of i m "st\<lparr>st_consecutiveFailures := wrap64 (st_consecutiveFailures st + 1)\<rparr>" now False]
  by (simp add: recordHealthLocked_def Let_def) (auto simp: st_wf_def closeBreakerLocked_def)

lemma st_wf_step [inv_intros]: "st_wf i m st \<Longrightarrow> st_wf i m (refresh_step e st)"
proof (cases e)
  case (Finish now ids err)
  assume "st_wf i m st"
  then have "st_wf i m (st\<lparr>st_inFlight := False, st_lastRefresh := now, st_lastErr := x\<rparr>)"
    "st_wf i m (st\<lparr>st_inFlight := False, st_lastRefresh := now, st_lastErr := x, st_discovered := d\<rparr>)" for x d
    by (simp_all add: st_wf_def)
  with Finish show ?thesis by (simp add: finishRefresh_def Let_def st_wf_record)
qed (auto simp: st_wf_def tryBeginRefresh_def tryBeginWarmFillRetry_def Let_def)

lemma openUntil_record:
  assumes "st_wf i m st"
  shows "st_openUntil (recordHealthLocked now err st) \<le> max (max zero_time (st_openUntil st)) (now + m)"
proof -
  let ?st1 = "st\<lparr>st_consecutiveFailures := wrap64 (st_consecutiveFailures st + 1)\<rparr>"
  have "st_wf i m ?st1" using assms by (simp add: st_wf_def)
  then have "next_pause False ?st1 \<le> m" "next_pause True st \<le> m"
    using next_pause_bounds(2) assms by blast+
  then show ?thesis by (simp add: recordHealthLocked_def openBreakerLocked_def closeBreakerLocked_def Let_def le_max_iff_disj)
qed

lemma lastRefresh_record [simp]: "st_lastRefresh (recordHealthLocked now err st) = st_lastRefresh st"
  by (simp add: recordHealthLocked_def openBreakerLocked_def closeBreakerLocked_def Let_def)

lemma finishRefresh_until:
  assumes "st_wf i m st"
  shows "st_openUntil (finishRefresh now ids err st) \<le> max (max zero_time (st_openUntil st)) (now + m)"
    and "st_lastRefresh (finishRefresh now ids err st) = now"
proof -
  let ?a = "\<lambda>x. st\<lparr>st_inFlight := False, st_lastRefresh := now, st_lastErr := x\<rparr>"
  have "st_wf i m (?a x)" "st_wf i m ((?a x)\<lparr>st_discovered := d\<rparr>)" for x d
    using assms by (simp_all add: st_wf_def)
  from openUntil_record [OF this(1), of now] openUntil_record [OF this(2), of now]
  show "st_openUntil (finishRefresh now ids err st) \<le> max (max zero_time (st_openUntil st)) (now + m)"
    by (simp add: finishRefresh_def Let_def)
  show "st_lastRefresh (finishRefresh now ids err st) = now"
    by (simp add: finishRefresh_def Let_def)
qed

definition st_until :: "providerState \<Rightarrow> gtime" where
  "st_until st = max (max zero_time (st_openUntil st)) (st_lastRefresh st + st_interval st)"

lemma tryBeginRefresh_iff:
  assumes "st_wf i m st"
  shows "fst (tryBeginRefresh now st) \<longleftrightarrow> \<not> st_inFlight st \<and> st_lastRefresh st + st_interval st \<le> now
    \<and> (st_health st = breakerOpen \<longrightarrow> st_openUntil st \<le> now)"
proof -
  have "time_Sub now (st_lastRefresh st) < st_interval st \<longleftrightarrow> now < st_lastRefresh st + st_interval st"
    using assms by (intro time_Sub_less) (simp_all add: st_wf_def)
  then show ?thesis by (auto simp: tryBeginRefresh_def Let_def)
qed

interpretation disc: circuit_breaker refresh_step refresh_time "st_wf i m" st_until
  "\<lambda>now st. st_inFlight st \<or> fst (tryBeginRefresh now st)" "max i m" for i m
proof
  fix e st assume wf: "st_wf i m st"
  show "st_wf i m (refresh_step e st)" using wf by (rule st_wf_step)
  show "st_until (refresh_step e st) \<le> max (st_until st) (refresh_time e + max i m)"
  proof (cases e)
    case (Finish now ids err)
    have "st_interval (refresh_step e st) = i" using st_wf_step [OF wf, of e] by (simp add: st_wf_def)
    with Finish finishRefresh_until [OF wf, of now ids err] show ?thesis
      by (auto simp: st_until_def le_max_iff_disj)
  qed (auto simp: st_until_def tryBeginRefresh_def tryBeginWarmFillRetry_def Let_def)
  fix t assume "st_until st \<le> t"
  then show "st_inFlight st \<or> fst (tryBeginRefresh t st)"
    using tryBeginRefresh_iff [OF wf, of t] by (auto simp: st_until_def)
qed

subsection \<open>Properties of the discovery breaker\<close>

lemma parse_open_pos: "parse_open s = Inr d \<Longrightarrow> 0 < d"
  by (auto simp: parse_open_def dur_defs split: if_splits option.splits)

lemma parse_max_open_bounds: "parse_max_open s = Inr d \<Longrightarrow> 0 < d \<and> d \<le> maxBreakerOpenDuration"
  by (auto simp: parse_max_open_def dur_defs split: if_splits option.splits)

lemma validated_breaker:
  assumes "validateBreakerConfig bc = Inr c"
  shows "1 \<le> failureThreshold c \<and> failureThreshold c \<le> 100 \<and> 0 < openBase c
    \<and> openBase c \<le> openMax c \<and> openMax c \<le> 24 * hour"
proof -
  from assms obtain ob om where p: "parse_open (bc_OpenDuration bc) = Inr ob" "parse_max_open (bc_MaxOpenDuration bc) = Inr om"
    and c: "openBase c = ob" "openMax c = om" "ob \<le> om" and thr: "1 \<le> failureThreshold c" "failureThreshold c \<le> 100"
    by (auto simp: validateBreakerConfig_def Let_def maxBreakerFailureThreshold_def split: if_splits sum.splits)
  from parse_open_pos [OF p(1)] parse_max_open_bounds [OF p(2)] c thr show ?thesis by (simp add: maxBreakerOpenDuration_def)
qed

theorem discovery_breaker_recovers:
  assumes "validateBreakerConfig bc = Inr c" and "0 < interval" "interval \<le> max_int64"
    and "\<forall>e\<in>set es. refresh_time e \<le> T" and "zero_time \<le> T" and "T + max interval (24 * hour) \<le> now"
    and "\<not> st_inFlight (fold refresh_step es (new_providerState c models discovery interval))"
  shows "fst (tryBeginRefresh now (fold refresh_step es (new_providerState c models discovery interval)))"
proof -
  let ?s0 = "new_providerState c models discovery interval"
  note c = validated_breaker [OF assms(1)]
  have wf: "st_wf interval (openMax c) ?s0"
    using assms(2,3) c by (simp add: st_wf_def new_providerState_def maxBreakerOpenDuration_def)
  have "st_until ?s0 \<le> T + max interval (openMax c)"
    using assms(2,5) by (auto simp: st_until_def new_providerState_def)
  moreover have "T + max interval (openMax c) \<le> now" using assms(6) c by auto
  ultimately show ?thesis using disc.recovers [OF wf assms(4)] assms(7) by blast
qed

theorem discovery_breaker_recovers_witness:
  "fst (tryBeginRefresh (90000 * second)
     (fold refresh_step [Begin 1000, Finish 2000 [] (Some (Sentinel ErrUpstream))]
        (new_providerState \<lparr>failureThreshold = 1, openBase = minute, openMax = 6 * hour\<rparr> [] True hour)))"
proof (rule discovery_breaker_recovers [of "\<lparr>bc_FailureThreshold = 1, bc_OpenDuration = [], bc_MaxOpenDuration = []\<rparr>" _ _ _ 2000])
  show "validateBreakerConfig \<lparr>bc_FailureThreshold = 1, bc_OpenDuration = [], bc_MaxOpenDuration = []\<rparr>
      = Inr \<lparr>failureThreshold = 1, openBase = minute, openMax = 6 * hour\<rparr>"
    by (simp add: validateBreakerConfig_def parse_open_def parse_max_open_def maxBreakerFailureThreshold_def dur_defs)
  show "\<not> st_inFlight (fold refresh_step [Begin 1000, Finish 2000 [] (Some (Sentinel ErrUpstream))]
        (new_providerState \<lparr>failureThreshold = 1, openBase = minute, openMax = 6 * hour\<rparr> [] True hour))"
    by (simp add: finishRefresh_def recordHealthLocked_def openBreakerLocked_def Let_def)
qed (simp_all add: dur_defs zero_time_def max_int64_def)

text \<open>What the snapshot reports as the end of an open period is exact.\<close>

lemma snapshot_reports_reopening:
  assumes "validateBreakerConfig bc = Inr c" and "0 < interval" "interval \<le> max_int64"
    and "st = fold refresh_step es (new_providerState c models discovery interval)"
    and "sn_health (providerState_snapshot st) = breakerOpen" and "\<not> st_inFlight st"
  shows "fst (tryBeginRefresh now st) \<longleftrightarrow> sn_openUntil (providerState_snapshot st) \<le> now"
proof -
  have "st_wf interval (openMax c) (new_providerState c models discovery interval)"
    using assms(2,3) validated_breaker [OF assms(1)] by (simp add: st_wf_def new_providerState_def maxBreakerOpenDuration_def)
  then have "st_wf interval (openMax c) st" unfolding assms(4) by (rule disc.wf_run)
  from tryBeginRefresh_iff [OF this, of now] assms(5,6) show ?thesis
    by (auto simp: providerState_snapshot_def Let_def)
qed

end
