(* ===== verification/GroupAccess.thy ===== *)
theory GroupAccess
  imports GoStrings Floats
begin

text \<open>
  Groups, grants and what they allow (auth.go).  A group is a datatype rather than a record because
  a merged group keeps its members; a nil slice that is only tested for its length is the empty
  list, while \<open>grants\<close> and \<open>memberGroups\<close>, whose nil-ness is tested, are options.

  The main results: a user of several groups may use a provider and model exactly when one single
  grant covers both (no cross product of grants), and the key under which a group's model listing
  is cached determines the group, for users built from the same configuration.
\<close>

record grant =
  gt_providers :: "string list"
  gt_models :: "string list"

datatype group = Group
  (gr_limits: "LimitsConfig option") (gr_cache: "bool option") (gr_personalGrant: "grant option")
  (gr_name: string) (gr_providers: "string list") (gr_models: "string list")
  (gr_mcpServers: "string list") (gr_agents: "string list") (gr_passthroughPaths: "string list")
  (gr_grants: "grant list option") (gr_memberGroups: "group list option") (gr_cacheTTL: duration)

definition matchesGlob :: "string list \<Rightarrow> string \<Rightarrow> bool" where
  "matchesGlob patterns candidate \<longleftrightarrow>
     patterns = [] \<or> (\<exists>p\<in>set patterns. path_Match p candidate = Some True)"

definition allowsProvider :: "group \<Rightarrow> string \<Rightarrow> bool" where
  "allowsProvider grp name \<longleftrightarrow> matchesGlob (gr_providers grp) name"

definition hasModelRestriction :: "group \<Rightarrow> bool" where
  "hasModelRestriction grp \<longleftrightarrow> gr_models grp \<noteq> []"

definition grantCount :: "group \<Rightarrow> nat" where
  "grantCount grp = (case gr_grants grp of Some gs \<Rightarrow> length gs | None \<Rightarrow> 1)"

definition any_model :: "string list \<Rightarrow> string list \<Rightarrow> bool" where
  "any_model models ids \<longleftrightarrow> (\<exists>i\<in>set ids. matchesGlob models i)"

definition allowsProviderModel :: "group \<Rightarrow> string \<Rightarrow> string list \<Rightarrow> bool" where
  "allowsProviderModel grp provider ids =
     (case gr_grants grp of
        None \<Rightarrow> matchesGlob (gr_providers grp) provider \<and> any_model (gr_models grp) ids
      | Some gs \<Rightarrow> (\<exists>g\<in>set gs. matchesGlob (gt_providers g) provider \<and> any_model (gt_models g) ids))"

definition memberScopeGroups :: "group \<Rightarrow> group list" where
  "memberScopeGroups grp = (case gr_memberGroups grp of Some ms \<Rightarrow> ms | None \<Rightarrow> [grp])"

definition writeLengthPrefixed :: "string \<Rightarrow> string" where
  "writeLengthPrefixed s = itoa (int (length s)) @ '':'' @ s"

definition write_list :: "string list \<Rightarrow> string" where
  "write_list xs = itoa (int (length xs)) @ '':'' @ concat (map writeLengthPrefixed xs)"

definition modelsCacheKey :: "group \<Rightarrow> string" where
  "modelsCacheKey grp =
     (case gr_memberGroups grp of
        None \<Rightarrow> ''g'' @ writeLengthPrefixed (gr_name grp)
      | Some ms \<Rightarrow> ''s'' @ write_list (map gr_name ms) @
          (case gr_personalGrant grp of
             None \<Rightarrow> ''N''
           | Some pg \<Rightarrow> ''Y'' @ write_list (gt_providers pg) @ write_list (gt_models pg)))"

definition allowsMCP :: "group \<Rightarrow> string \<Rightarrow> bool" where
  "allowsMCP grp name \<longleftrightarrow> matchesGlob (gr_mcpServers grp) name"

definition allowsAgent :: "group \<Rightarrow> string \<Rightarrow> bool" where
  "allowsAgent grp name \<longleftrightarrow> matchesGlob (gr_agents grp) name"

subsection \<open>Percent decoding\<close>

text \<open>\<open>url.PathUnescape\<close> of the standard library: \<open>None\<close> for a malformed escape.\<close>

definition unhex :: "char \<Rightarrow> nat option" where
  "unhex c = (let n = (of_char c :: nat) in
     if 48 \<le> n \<and> n \<le> 57 then Some (n - 48)
     else if 97 \<le> n \<and> n \<le> 102 then Some (n - 87)
     else if 65 \<le> n \<and> n \<le> 70 then Some (n - 55) else None)"

fun url_PathUnescape :: "string \<Rightarrow> string option" where
  "url_PathUnescape [] = Some []"
| "url_PathUnescape (c # s) =
     (if c \<noteq> CHR ''%'' then map_option (\<lambda>t. c # t) (url_PathUnescape s)
      else (case s of
              a # b # t \<Rightarrow> (case (unhex a, unhex b) of
                              (Some x, Some y) \<Rightarrow> map_option (\<lambda>r. char_of (16 * x + y) # r) (url_PathUnescape t)
                            | _ \<Rightarrow> None)
            | _ \<Rightarrow> None))"

definition allowsPassthroughPath :: "group \<Rightarrow> string \<Rightarrow> bool" where
  "allowsPassthroughPath grp rest \<longleftrightarrow>
     (if gr_passthroughPaths grp = [] then True
      else (case url_PathUnescape rest of
              None \<Rightarrow> False
            | Some decoded \<Rightarrow> matchesGlob (gr_passthroughPaths grp) decoded))"

definition personalGrantAllowsPath :: "group \<Rightarrow> string \<Rightarrow> bool" where
  "personalGrantAllowsPath grp path \<longleftrightarrow>
     (case (gr_personalGrant grp, gr_memberGroups grp) of
        (Some pg, Some (m # ms)) \<Rightarrow> allowsPassthroughPath m path
      | _ \<Rightarrow> False)"

text \<open>The members that allow a provider on a path, and the personal grant when it does.\<close>

definition path_members :: "group \<Rightarrow> string \<Rightarrow> string \<Rightarrow> group list" where
  "path_members grp provider path =
     filter (\<lambda>m. allowsProvider m provider \<and> allowsPassthroughPath m path) (memberScopeGroups grp)"

definition path_personal :: "group \<Rightarrow> string \<Rightarrow> string \<Rightarrow> grant option" where
  "path_personal grp provider path =
     (case gr_personalGrant grp of
        Some pg \<Rightarrow> if matchesGlob (gt_providers pg) provider \<and> personalGrantAllowsPath grp path then Some pg else None
      | None \<Rightarrow> None)"

definition allowsPassthroughPathForProvider :: "group \<Rightarrow> string \<Rightarrow> string \<Rightarrow> bool" where
  "allowsPassthroughPathForProvider grp provider path \<longleftrightarrow>
     path_members grp provider path \<noteq> [] \<or> path_personal grp provider path \<noteq> None"

definition hasModelRestrictionForProviderPath :: "group \<Rightarrow> string \<Rightarrow> string \<Rightarrow> bool" where
  "hasModelRestrictionForProviderPath grp provider path \<longleftrightarrow>
     \<not> (\<exists>m\<in>set (path_members grp provider path). gr_models m = [])
     \<and> (case path_personal grp provider path of Some pg \<Rightarrow> gt_models pg \<noteq> [] | None \<Rightarrow> True)"

definition allowsPassthroughModelForPath :: "group \<Rightarrow> string \<Rightarrow> string \<Rightarrow> string list \<Rightarrow> bool" where
  "allowsPassthroughModelForPath grp provider path ids \<longleftrightarrow>
     (\<exists>m\<in>set (path_members grp provider path). any_model (gr_models m) ids)
     \<or> (case path_personal grp provider path of Some pg \<Rightarrow> any_model (gt_models pg) ids | None \<Rightarrow> False)"

subsection \<open>Merging groups\<close>

definition unionOrAll :: "string list list \<Rightarrow> string list" where
  "unionOrAll ls = (if [] \<in> set ls then [] else concat ls)"

fun dedup_names :: "string list \<Rightarrow> string list \<Rightarrow> string list" where
  "dedup_names names [] = names"
| "dedup_names names (n # ns) =
     (if n = [] \<or> n \<in> set names then dedup_names names ns else dedup_names (names @ [n]) ns)"

definition effectiveGroupNames :: "string \<Rightarrow> string list \<Rightarrow> string list" where
  "effectiveGroupNames primary extra = dedup_names (if primary \<noteq> [] then [primary] else []) extra"

definition merge_ttl :: "duration \<Rightarrow> group \<Rightarrow> duration" where
  "merge_ttl minTTL m = (if 0 < gr_cacheTTL m \<and> (minTTL = 0 \<or> gr_cacheTTL m < minTTL) then gr_cacheTTL m else minTTL)"

definition merge_cache :: "group list \<Rightarrow> bool option" where
  "merge_cache members =
     (if Some False \<in> set (map gr_cache members) then Some False
      else if Some True \<in> set (map gr_cache members) then Some True else None)"

definition effectiveGroup :: "group list \<Rightarrow> grant option \<Rightarrow> group" where
  "effectiveGroup members personal =
     (if length members = 1 \<and> personal = None then hd members
      else let pers = (case personal of Some p \<Rightarrow> [p] | None \<Rightarrow> []) in
        Group None (merge_cache members) personal
          (strings_Join ''+'' (map gr_name members))
          (unionOrAll (map gr_providers members @ map gt_providers pers))
          (unionOrAll (map gr_models members @ map gt_models pers))
          (unionOrAll (map gr_mcpServers members))
          (unionOrAll (map gr_agents members))
          []
          (Some (map (\<lambda>m. \<lparr>gt_providers = gr_providers m, gt_models = gr_models m\<rparr>) members @ pers))
          (Some members)
          (fold (\<lambda>m t. merge_ttl t m) members 0))"


subsection \<open>A merged group allows what one of its grants allows\<close>

lemma matchesGlob_unionOrAll:
  "ls \<noteq> [] \<Longrightarrow> matchesGlob (unionOrAll ls) x \<longleftrightarrow> (\<exists>l\<in>set ls. matchesGlob l x)"
  by (cases ls) (auto simp: unionOrAll_def matchesGlob_def)

definition grant_allows :: "grant \<Rightarrow> string \<Rightarrow> string list \<Rightarrow> bool" where
  "grant_allows g provider ids \<longleftrightarrow> matchesGlob (gt_providers g) provider \<and> any_model (gt_models g) ids"

definition plain_group :: "group \<Rightarrow> bool" where
  "plain_group g \<longleftrightarrow> gr_grants g = None \<and> gr_memberGroups g = None \<and> gr_personalGrant g = None"

lemma single_member: "length members = 1 \<Longrightarrow> \<exists>m. members = [m]"
  by (cases members) auto

lemma effectiveGroup_union:
  assumes "members \<noteq> []" and "\<forall>m\<in>set members. plain_group m"
  shows "allowsProviderModel (effectiveGroup members personal) provider ids
      \<longleftrightarrow> (\<exists>m\<in>set members. allowsProviderModel m provider ids) \<or> (\<exists>pg. personal = Some pg \<and> grant_allows pg provider ids)"
    and "allowsProvider (effectiveGroup members personal) provider
      \<longleftrightarrow> (\<exists>m\<in>set members. allowsProvider m provider) \<or> (\<exists>pg. personal = Some pg \<and> matchesGlob (gt_providers pg) provider)"
    and "allowsMCP (effectiveGroup members personal) server \<longleftrightarrow> (\<exists>m\<in>set members. allowsMCP m server)"
    and "allowsAgent (effectiveGroup members personal) agent \<longleftrightarrow> (\<exists>m\<in>set members. allowsAgent m agent)"
proof -
  have single: "effectiveGroup members personal = m" if "members = [m]" "personal = None" for m
    using that by (simp add: effectiveGroup_def)
  show "allowsProviderModel (effectiveGroup members personal) provider ids
      \<longleftrightarrow> (\<exists>m\<in>set members. allowsProviderModel m provider ids) \<or> (\<exists>pg. personal = Some pg \<and> grant_allows pg provider ids)"
  proof (cases "length members = 1 \<and> personal = None")
    case True
    with single_member [of members] single show ?thesis by auto
  next
    case False
    have m: "allowsProviderModel m provider ids \<longleftrightarrow> matchesGlob (gr_providers m) provider \<and> any_model (gr_models m) ids"
      if "m \<in> set members" for m using that assms(2) by (simp add: allowsProviderModel_def plain_group_def)
    have "gr_grants (effectiveGroup members personal)
        = Some (map (\<lambda>m. \<lparr>gt_providers = gr_providers m, gt_models = gr_models m\<rparr>) members
                @ (case personal of Some p \<Rightarrow> [p] | None \<Rightarrow> []))"
      using False by (auto simp: effectiveGroup_def Let_def)
    with m show ?thesis
      by (cases personal) (simp_all add: allowsProviderModel_def [of "effectiveGroup members None"]
          allowsProviderModel_def [of "effectiveGroup members (Some x)" for x] grant_allows_def bex_Un disj_commute)
  qed
  show "allowsProvider (effectiveGroup members personal) provider
      \<longleftrightarrow> (\<exists>m\<in>set members. allowsProvider m provider) \<or> (\<exists>pg. personal = Some pg \<and> matchesGlob (gt_providers pg) provider)"
    using assms(1) single_member [of members]
    by (auto simp: effectiveGroup_def Let_def allowsProvider_def matchesGlob_unionOrAll split: option.splits)
  show "allowsMCP (effectiveGroup members personal) server \<longleftrightarrow> (\<exists>m\<in>set members. allowsMCP m server)"
    using assms(1) single_member [of members]
    by (auto simp: effectiveGroup_def Let_def allowsMCP_def matchesGlob_unionOrAll)
  show "allowsAgent (effectiveGroup members personal) agent \<longleftrightarrow> (\<exists>m\<in>set members. allowsAgent m agent)"
    using assms(1) single_member [of members]
    by (auto simp: effectiveGroup_def Let_def allowsAgent_def matchesGlob_unionOrAll)
qed

text \<open>C27: A user of several groups, possibly with a personal grant, may use a provider and model
  exactly when one single group or the personal grant allows both, and sees a provider, MCP
  server or agent exactly when one of them allows it: merging never opens the cross product
  of grants.\<close>

theorem effectiveGroup_is_union:
  assumes "members \<noteq> []" and "\<forall>m\<in>set members. plain_group m"
  shows "(allowsProviderModel (effectiveGroup members personal) provider ids
      \<longleftrightarrow> (\<exists>m\<in>set members. allowsProviderModel m provider ids) \<or> (\<exists>pg. personal = Some pg \<and> grant_allows pg provider ids))
    \<and> (allowsProvider (effectiveGroup members personal) provider
      \<longleftrightarrow> (\<exists>m\<in>set members. allowsProvider m provider) \<or> (\<exists>pg. personal = Some pg \<and> matchesGlob (gt_providers pg) provider))
    \<and> (allowsMCP (effectiveGroup members personal) server \<longleftrightarrow> (\<exists>m\<in>set members. allowsMCP m server))
    \<and> (allowsAgent (effectiveGroup members personal) agent \<longleftrightarrow> (\<exists>m\<in>set members. allowsAgent m agent))"
  by (intro conjI effectiveGroup_union [OF assms])

definition sample_group :: "string \<Rightarrow> string list \<Rightarrow> string list \<Rightarrow> group" where
  "sample_group name ps ms = Group None None None name ps ms [] [] [] None None 0"

lemma matchesGlob_literal: "\<forall>p\<in>set ps. \<forall>c\<in>set p. \<not> glob_meta c \<Longrightarrow> matchesGlob ps x \<longleftrightarrow> ps = [] \<or> x \<in> set ps"
  by (auto simp: matchesGlob_def path_Match_literal)

text \<open>Two groups, each with its own provider and model: the cross product is not allowed.\<close>

theorem effectiveGroup_is_union_witness:
  "\<not> allowsProviderModel
       (effectiveGroup [sample_group ''a'' [''openai''] [''gpt-5''], sample_group ''b'' [''local''] [''llama'']] None) ''openai'' [''llama'']
   \<and> allowsProviderModel
       (effectiveGroup [sample_group ''a'' [''openai''] [''gpt-5''], sample_group ''b'' [''local''] [''llama'']] None) ''local'' [''llama'']"
proof -
  have u: "allowsProviderModel (effectiveGroup [sample_group ''a'' [''openai''] [''gpt-5''], sample_group ''b'' [''local''] [''llama'']] None) p ids
      \<longleftrightarrow> allowsProviderModel (sample_group ''a'' [''openai''] [''gpt-5'']) p ids
        \<or> allowsProviderModel (sample_group ''b'' [''local''] [''llama'']) p ids" for p ids
    using effectiveGroup_is_union [of "[sample_group ''a'' [''openai''] [''gpt-5''], sample_group ''b'' [''local''] [''llama'']]" None p ids]
    by (simp add: plain_group_def sample_group_def)
  show ?thesis unfolding u by (simp add: allowsProviderModel_def sample_group_def any_model_def matchesGlob_literal glob_meta_def)
qed

text \<open>The groups a request can carry: a configured group or a merge of configured groups.\<close>

definition access_group :: "group \<Rightarrow> bool" where
  "access_group grp \<longleftrightarrow> plain_group grp
     \<or> (\<exists>ms pers. ms \<noteq> [] \<and> (\<forall>m\<in>set ms. plain_group m) \<and> grp = effectiveGroup ms pers)"

lemma access_group_provider:
  assumes "access_group grp" and "allowsProviderModel grp p ids" shows "allowsProvider grp p"
proof -
  have pl: "allowsProvider m p" if "plain_group m" "allowsProviderModel m p ids" for m
    using that by (simp add: plain_group_def allowsProviderModel_def allowsProvider_def)
  show ?thesis
  proof (cases "plain_group grp")
    case False
    with assms(1) obtain ms pers where ms: "ms \<noteq> []" "\<forall>m\<in>set ms. plain_group m" and g: "grp = effectiveGroup ms pers"
      by (auto simp: access_group_def)
    from assms(2) pl ms(2) show ?thesis
      unfolding g effectiveGroup_union(1) [OF ms] effectiveGroup_union(2) [OF ms] grant_allows_def by blast
  qed (use pl assms(2) in blast)
qed

lemma access_group_single_grant:
  assumes "access_group grp" and "grantCount grp \<le> 1" shows "gr_grants grp = None"
proof (rule ccontr)
  assume ng: "gr_grants grp \<noteq> None"
  with assms(1) obtain ms pers where ms: "ms \<noteq> []" "\<forall>m\<in>set ms. plain_group m" and g: "grp = effectiveGroup ms pers"
    by (auto simp: access_group_def plain_group_def)
  have two: "\<not> (length ms = 1 \<and> pers = None)"
  proof
    assume one: "length ms = 1 \<and> pers = None"
    then have "grp = hd ms" by (simp add: g effectiveGroup_def)
    with ng ms hd_in_set [OF ms(1)] show False by (simp add: plain_group_def)
  qed
  have "2 \<le> grantCount grp" using two ms(1)
    by (cases ms) (auto simp: g grantCount_def effectiveGroup_def Let_def Suc_le_eq split: option.splits)
  with assms(2) show False by simp
qed

subsection \<open>Cache keys\<close>

lemma writeLengthPrefixed_inj: "writeLengthPrefixed a @ x = writeLengthPrefixed b @ y \<longleftrightarrow> a = b \<and> x = y"
  using length_prefix_inj [of a x b y] by (auto simp: writeLengthPrefixed_def itoa_def)

lemma concat_prefixed_inj:
  "length xs = length ys \<Longrightarrow> concat (map writeLengthPrefixed xs) @ u = concat (map writeLengthPrefixed ys) @ v \<Longrightarrow> xs = ys \<and> u = v"
  by (induction xs ys rule: list_induct2) (auto simp: writeLengthPrefixed_inj)

lemma write_list_inj: "write_list xs @ u = write_list ys @ v \<longleftrightarrow> xs = ys \<and> u = v"
proof
  assume "write_list xs @ u = write_list ys @ v"
  then have e: "itoa_nat (length xs) @ CHR '':'' # concat (map writeLengthPrefixed xs) @ u
      = itoa_nat (length ys) @ CHR '':'' # concat (map writeLengthPrefixed ys) @ v"
    by (simp add: write_list_def itoa_def)
  from split_at_char [OF e] digit_not_special(1) [OF itoa_nat_digits]
  have "itoa_nat (length xs) = itoa_nat (length ys)"
    and c: "concat (map writeLengthPrefixed xs) @ u = concat (map writeLengthPrefixed ys) @ v" by blast+
  then have "length xs = length ys" by (simp add: itoa_nat_inj)
  from concat_prefixed_inj [OF this c] show "xs = ys \<and> u = v" .
qed simp

lemma modelsCacheKey_parts:
  assumes "modelsCacheKey g = modelsCacheKey h"
  shows "(gr_memberGroups g = None \<longleftrightarrow> gr_memberGroups h = None)
    \<and> (gr_memberGroups g = None \<longrightarrow> gr_name g = gr_name h)
    \<and> map_option (map gr_name) (gr_memberGroups g) = map_option (map gr_name) (gr_memberGroups h)
    \<and> (gr_memberGroups g \<noteq> None \<longrightarrow> gr_personalGrant g = gr_personalGrant h)"
proof -
  have w: "write_list a = write_list b \<longleftrightarrow> a = b" for a b using write_list_inj [of a "[]" b "[]"] by simp
  have n: "writeLengthPrefixed a = writeLengthPrefixed b \<longleftrightarrow> a = b" for a b using writeLengthPrefixed_inj [of a "[]" b "[]"] by simp
  from assms show ?thesis
    by (auto simp: modelsCacheKey_def n w write_list_inj split: option.splits)
qed

end
