(* ===== verification/AuthStore.thy ===== *)
theory AuthStore
  imports GroupAccess GoDuration Limiter
begin

text \<open>
  The store of users (auth.go, users_file.go, secrets.go, \<open>groupCacheTTL\<close> of cache.go and the limit
  scopes of routes_unified.go): building it from the configuration, replacing the users of the users
  file, and identifying a request.

  The hash of an API key (SHA-256) is the argument \<open>hash\<close>, an arbitrary function to a type of
  digests; what follows holds for every such function.  The process environment and the file system
  are the arguments \<open>getenv\<close> and \<open>readFile\<close>.  Go maps are association lists with distinct keys.
  Whether an entry came from the inline users or from the file, which the code reads off pointer
  identity, is the field \<open>ae_source\<close>.
\<close>

subsection \<open>Secrets\<close>

datatype secretError = EnvUnset string | FileUnreadable string | FileEmpty string

definition resolveSecret :: "(string \<Rightarrow> string) \<Rightarrow> (string \<rightharpoonup> string) \<Rightarrow> string \<Rightarrow> secretError + string" where
  "resolveSecret getenv readFile v =
     (if v = [] then Inr []
      else case strip_prefix ''env:'' v of
        Some name \<Rightarrow> if getenv name = [] then Inl (EnvUnset name) else Inr (getenv name)
      | None \<Rightarrow>
          (case strip_prefix ''file:'' v of
             Some path \<Rightarrow>
               (case readFile path of
                  None \<Rightarrow> Inl (FileUnreadable path)
                | Some b \<Rightarrow> if strings_TrimSpace b = [] then Inl (FileEmpty path) else Inr (strings_TrimSpace b))
           | None \<Rightarrow> Inr v))"

subsection \<open>Configuration\<close>

record GroupConfig =
  gc_Limits :: "LimitsConfig option"
  gc_Providers :: "string list"
  gc_Models :: "string list"
  gc_Cache :: "bool option"
  gc_CacheTTL :: string
  gc_MCPServers :: "string list"
  gc_Agents :: "string list"
  gc_PassthroughPaths :: "string list"

record UserConfig =
  uc_Limits :: "LimitsConfig option"
  uc_Name :: string
  uc_Group :: string
  uc_Groups :: "string list"
  uc_APIKey :: string
  uc_Providers :: "string list"
  uc_Models :: "string list"
  uc_Admin :: bool

datatype authError =
    GroupNil string
  | GroupLimits string limitsError
  | GroupCacheUnconfigured string
  | GroupTTLUnconfigured string | GroupTTLUnparsable string string | GroupTTLNotPositive string string
  | UserNil | UserNameEmpty | UserWithoutGroup string | UserUnknownGroup string string
  | UserModelsWithoutProviders string
  | UserLimits string limitsError
  | UserSecret string secretError
  | UserKeyEmpty string
  | DuplicateUserName string
  | DuplicateAPIKey string

definition groupCacheTTL :: "string \<Rightarrow> string \<Rightarrow> bool \<Rightarrow> authError + duration" where
  "groupCacheTTL name raw cacheEnabled =
     (if raw = [] then Inr 0
      else if \<not> cacheEnabled then Inl (GroupTTLUnconfigured name)
      else case time_ParseDuration raw of
        None \<Rightarrow> Inl (GroupTTLUnparsable name raw)
      | Some ttl \<Rightarrow> if ttl \<le> 0 then Inl (GroupTTLNotPositive name raw) else Inr ttl)"

subsection \<open>Users and entries\<close>

record user =
  us_limits :: "LimitsConfig option"
  us_name :: string
  us_groupName :: string
  us_groupNames :: "string list"
  us_admin :: bool

datatype userSource = FromInline | FromFile

record 'd authEntry =
  ae_user :: user
  ae_group :: group
  ae_digest :: 'd
  ae_source :: userSource

record 'd authStore =
  as_groups :: "(string, group) gomap"
  as_byDigest :: "('d, 'd authEntry) gomap"
  as_inline :: "('d, 'd authEntry) gomap"
  as_failures :: authFailureTracker
  as_fileUserCount :: nat
  as_lastModTime :: gtime
  as_lastCheck :: gtime
  as_lastReloadErr :: "string option \<times> gtime"

definition new_group :: "string \<Rightarrow> GroupConfig \<Rightarrow> duration \<Rightarrow> group" where
  "new_group name gc cacheTTL =
     Group (gc_Limits gc) (gc_Cache gc) None name (gc_Providers gc) (gc_Models gc) (gc_MCPServers gc)
       (gc_Agents gc) (gc_PassthroughPaths gc) None None cacheTTL"

definition build_group :: "bool \<Rightarrow> string \<Rightarrow> GroupConfig option \<Rightarrow> authError + group" where
  "build_group cacheEnabled name gco =
     (case gco of
        None \<Rightarrow> Inl (GroupNil name)
      | Some gc \<Rightarrow>
          (case LimitsConfig_validate (gc_Limits gc) of
             Some e \<Rightarrow> Inl (GroupLimits name e)
           | None \<Rightarrow>
               if gc_Cache gc = Some True \<and> \<not> cacheEnabled then Inl (GroupCacheUnconfigured name)
               else bind_sum (groupCacheTTL name (gc_CacheTTL gc) cacheEnabled) (\<lambda>ttl. Inr (new_group name gc ttl))))"

fun build_groups :: "bool \<Rightarrow> (string \<times> GroupConfig option) list \<Rightarrow> (string, group) gomap \<Rightarrow> authError + (string, group) gomap" where
  "build_groups cacheEnabled [] acc = Inr acc"
| "build_groups cacheEnabled ((name, gco) # gs) acc =
     bind_sum (build_group cacheEnabled name gco) (\<lambda>g. build_groups cacheEnabled gs (AList.update name g acc))"

fun lookup_members :: "(string, group) gomap \<Rightarrow> string \<Rightarrow> string list \<Rightarrow> authError + group list" where
  "lookup_members groups uname [] = Inr []"
| "lookup_members groups uname (n # ns) =
     (case map_of groups n of
        None \<Rightarrow> Inl (UserUnknownGroup uname n)
      | Some g \<Rightarrow> bind_sum (lookup_members groups uname ns) (\<lambda>gs. Inr (g # gs)))"

definition personal_grant :: "UserConfig \<Rightarrow> authError + grant option" where
  "personal_grant uc =
     (if uc_Providers uc \<noteq> [] \<or> uc_Models uc \<noteq> []
      then if uc_Providers uc = [] then Inl (UserModelsWithoutProviders (uc_Name uc))
           else Inr (Some \<lparr>gt_providers = uc_Providers uc, gt_models = uc_Models uc\<rparr>)
      else Inr None)"

definition user_key :: "(string \<Rightarrow> string) \<Rightarrow> (string \<rightharpoonup> string) \<Rightarrow> UserConfig \<Rightarrow> authError + string" where
  "user_key getenv readFile uc =
     (case LimitsConfig_validate (uc_Limits uc) of
        Some e \<Rightarrow> Inl (UserLimits (uc_Name uc) e)
      | None \<Rightarrow>
          (case resolveSecret getenv readFile (uc_APIKey uc) of
             Inl e \<Rightarrow> Inl (UserSecret (uc_Name uc) e)
           | Inr key \<Rightarrow> if key = [] then Inl (UserKeyEmpty (uc_Name uc)) else Inr key))"

definition buildEntry :: "(string \<Rightarrow> 'd) \<Rightarrow> (string \<Rightarrow> string) \<Rightarrow> (string \<rightharpoonup> string) \<Rightarrow> (string, group) gomap \<Rightarrow>
    userSource \<Rightarrow> UserConfig option \<Rightarrow> authError + 'd authEntry" where
  "buildEntry hash getenv readFile groups src uco =
     (case uco of
        None \<Rightarrow> Inl UserNil
      | Some uc \<Rightarrow>
          if uc_Name uc = [] then Inl UserNameEmpty
          else let groupNames = effectiveGroupNames (uc_Group uc) (uc_Groups uc) in
            if groupNames = [] then Inl (UserWithoutGroup (uc_Name uc))
            else bind_sum (lookup_members groups (uc_Name uc) groupNames) (\<lambda>members.
                 bind_sum (personal_grant uc) (\<lambda>personal.
                 bind_sum (user_key getenv readFile uc) (\<lambda>key.
                   Inr \<lparr>ae_user = \<lparr>us_limits = uc_Limits uc, us_name = uc_Name uc, us_groupName = hd groupNames,
                                    us_groupNames = groupNames, us_admin = uc_Admin uc\<rparr>,
                        ae_group = effectiveGroup members personal, ae_digest = hash key, ae_source = src\<rparr>))))"

text \<open>The loop over user configurations that \<open>newAuthStore\<close> and \<open>replaceFileUsers\<close> share: build the
  entry, refuse a name already seen in this list, refuse a digest already in the map.\<close>

fun add_users :: "(UserConfig option \<Rightarrow> authError + 'd authEntry) \<Rightarrow> UserConfig option list \<Rightarrow> string list \<Rightarrow>
    ('d, 'd authEntry) gomap \<Rightarrow> authError + ('d, 'd authEntry) gomap" where
  "add_users build [] seen m = Inr m"
| "add_users build (uco # us) seen m =
     bind_sum (build uco) (\<lambda>entry.
       if us_name (ae_user entry) \<in> set seen then Inl (DuplicateUserName (us_name (ae_user entry)))
       else if map_of m (ae_digest entry) \<noteq> None then Inl (DuplicateAPIKey (us_name (ae_user entry)))
       else add_users build us (us_name (ae_user entry) # seen) (AList.update (ae_digest entry) entry m))"

definition newAuthStore :: "(string \<Rightarrow> 'd) \<Rightarrow> (string \<Rightarrow> string) \<Rightarrow> (string \<rightharpoonup> string) \<Rightarrow> bool \<Rightarrow>
    (string \<times> GroupConfig option) list \<Rightarrow> UserConfig option list option \<Rightarrow> authError + 'd authStore" where
  "newAuthStore hash getenv readFile cacheEnabled groupCfg inlineUsers =
     bind_sum (build_groups cacheEnabled groupCfg []) (\<lambda>groups.
     bind_sum (case inlineUsers of None \<Rightarrow> Inr [] | Some us \<Rightarrow> add_users (buildEntry hash getenv readFile groups FromInline) us [] []) (\<lambda>m.
       Inr \<lparr>as_groups = groups, as_byDigest = m, as_inline = m, as_failures = newAuthFailureTracker,
            as_fileUserCount = 0, as_lastModTime = zero_time, as_lastCheck = zero_time,
            as_lastReloadErr = (None, zero_time)\<rparr>))"

definition replaceFileUsers :: "(string \<Rightarrow> 'd) \<Rightarrow> (string \<Rightarrow> string) \<Rightarrow> (string \<rightharpoonup> string) \<Rightarrow>
    UserConfig option list \<Rightarrow> 'd authStore \<Rightarrow> authError option \<times> 'd authStore" where
  "replaceFileUsers hash getenv readFile us a =
     (let kept = filter (\<lambda>(d, e). us_name (ae_user e) \<notin> set (map uc_Name (List.map_filter (\<lambda>u. u) us))) (as_inline a)
      in case add_users (buildEntry hash getenv readFile (as_groups a) FromFile) us [] kept of
           Inl e \<Rightarrow> (Some e, a)
         | Inr m \<Rightarrow> (None, a\<lparr>as_byDigest := m, as_fileUserCount := length us\<rparr>))"

subsection \<open>Identifying a request\<close>

record authRequest =
  rq_Authorization :: string
  rq_xApiKey :: string
  rq_RemoteAddr :: string

text \<open>\<open>net.SplitHostPort\<close> of the standard library, the host part only; \<open>None\<close> is any of its errors.\<close>

definition split_host :: "string \<Rightarrow> string option" where
  "split_host s =
     (if CHR '':'' \<notin> set s then None
      else if hd s = CHR ''['' then
        (case strings_Cut (CHR '']'') s of
           None \<Rightarrow> None
         | Some (a, b) \<Rightarrow>
             if b = [] \<or> hd b \<noteq> CHR '':'' \<or> CHR '':'' \<in> set (tl b) then None
             else if CHR ''['' \<in> set (tl s) \<or> CHR '']'' \<in> set b then None
             else Some (tl a))
      else
        (case strings_Cut (CHR '':'') s of
           None \<Rightarrow> None
         | Some (host, port) \<Rightarrow>
             if CHR '':'' \<in> set port \<or> CHR ''['' \<in> set s \<or> CHR '']'' \<in> set s then None else Some host))"

definition clientIP :: "authRequest \<Rightarrow> string" where
  "clientIP r = (case split_host (rq_RemoteAddr r) of None \<Rightarrow> rq_RemoteAddr r | Some host \<Rightarrow> host)"

definition bearer_key :: "string \<Rightarrow> string option" where
  "bearer_key authz =
     (if authz = [] then None
      else case strings_Cut (CHR '' '') authz of
        None \<Rightarrow> None
      | Some (scheme, rest) \<Rightarrow>
          if equalFold_ascii scheme ''bearer'' \<and> strings_TrimSpace rest \<noteq> [] then Some (strings_TrimSpace rest) else None)"

definition presentedKey :: "authRequest \<Rightarrow> string option" where
  "presentedKey r =
     (case bearer_key (rq_Authorization r) of
        Some key \<Rightarrow> Some key
      | None \<Rightarrow> if strings_TrimSpace (rq_xApiKey r) \<noteq> [] then Some (strings_TrimSpace (rq_xApiKey r)) else None)"

definition recordAuthFailure :: "gtime \<Rightarrow> string \<Rightarrow> 'd authStore \<Rightarrow> 'd authStore" where
  "recordAuthFailure now ip a = a\<lparr>as_failures := snd (authFailureTracker_increment (now, ip) (as_failures a))\<rparr>"

definition identify :: "(string \<Rightarrow> 'd) \<Rightarrow> gtime \<Rightarrow> authRequest \<Rightarrow> 'd authStore \<Rightarrow> (user \<times> group) option \<times> 'd authStore" where
  "identify hash now r a =
     (case (case presentedKey r of None \<Rightarrow> None | Some key \<Rightarrow> map_of (as_byDigest a) (hash key)) of
        Some entry \<Rightarrow> (Some (ae_user entry, ae_group entry), a)
      | None \<Rightarrow> (None, recordAuthFailure now (clientIP r) a))"

subsection \<open>Reloading the users file\<close>

definition reloadEvery :: duration where [dur_defs]: "reloadEvery = 5 * second"

definition logReloadError :: "gtime \<Rightarrow> string \<Rightarrow> 'd authStore \<Rightarrow> string list \<times> 'd authStore" where
  "logReloadError modTime msg a =
     (if as_lastReloadErr a = (Some msg, modTime) then ([], a)
      else ([msg], a\<lparr>as_lastReloadErr := (Some msg, modTime)\<rparr>))"

text \<open>The users file: \<open>stat\<close> gives its modification time or an error message, \<open>load\<close> its parsed users
  or an error message; \<open>show_err\<close> is the text of a rejected list.\<close>

definition maybeReload :: "(string \<Rightarrow> 'd) \<Rightarrow> (string \<Rightarrow> string) \<Rightarrow> (string \<rightharpoonup> string) \<Rightarrow> gtime \<Rightarrow> string + gtime \<Rightarrow>
    string + UserConfig option list \<Rightarrow> (authError \<Rightarrow> string) \<Rightarrow> bool \<Rightarrow> 'd authStore \<Rightarrow> bool \<times> string list \<times> 'd authStore" where
  "maybeReload hash getenv readFile now stat load show_err configured a =
     (if \<not> configured then (False, [], a)
      else if time_Sub now (as_lastCheck a) < reloadEvery then (False, [], a)
      else let a1 = a\<lparr>as_lastCheck := now\<rparr> in
        (case stat of
           Inl msg \<Rightarrow> (False, logReloadError zero_time msg a1)
         | Inr modTime \<Rightarrow>
             if modTime = as_lastModTime a1 then (False, [], a1)
             else (case load of
                     Inl msg \<Rightarrow> (False, logReloadError modTime msg a1)
                   | Inr us \<Rightarrow>
                       (case replaceFileUsers hash getenv readFile us a1 of
                          (Some e, a2) \<Rightarrow> (False, logReloadError modTime (show_err e) a2)
                        | (None, a2) \<Rightarrow>
                            (True, if length us \<noteq> as_fileUserCount a1 then [''user count changed''] else [],
                             a2\<lparr>as_lastModTime := modTime, as_lastReloadErr := (None, zero_time)\<rparr>)))))"

subsection \<open>Limit scopes of a user\<close>

definition buildLimitScopes :: "user \<Rightarrow> group \<Rightarrow> limitScope list" where
  "buildLimitScopes u grp =
     \<lparr>sc_limits = us_limits u, sc_kind = ''user'', sc_id = us_name u\<rparr>
     # map (\<lambda>mg. \<lparr>sc_limits = gr_limits mg, sc_kind = ''group'', sc_id = gr_name mg\<rparr>) (memberScopeGroups grp)"

definition withTotalScope :: "limitScope list \<Rightarrow> limitScope list" where
  "withTotalScope scopes = scopes @ [\<lparr>sc_limits = None, sc_kind = totalScopeKind, sc_id = totalScopeID\<rparr>]"


subsection \<open>Invariant of the store\<close>

abbreviation entry_name :: "'d authEntry \<Rightarrow> string" where
  "entry_name e \<equiv> us_name (ae_user e)"

abbreviation entry_names :: "('d, 'd authEntry) gomap \<Rightarrow> string list" where
  "entry_names m \<equiv> map (\<lambda>(d, e). entry_name e) m"

definition groups_ok :: "(string, group) gomap \<Rightarrow> bool" where
  "groups_ok groups \<longleftrightarrow> gomap_wf groups \<and> (\<forall>(n, g)\<in>set groups. gr_name g = n \<and> plain_group g)"

definition entry_ok :: "(string, group) gomap \<Rightarrow> 'd authEntry \<Rightarrow> bool" where
  "entry_ok groups e \<longleftrightarrow> entry_name e \<noteq> [] \<and>
     (\<exists>members personal. members \<noteq> [] \<and> map Some members = map (map_of groups) (us_groupNames (ae_user e))
        \<and> ae_group e = effectiveGroup members personal)"

definition entries_ok :: "(string, group) gomap \<Rightarrow> ('d, 'd authEntry) gomap \<Rightarrow> bool" where
  "entries_ok groups m \<longleftrightarrow> gomap_wf m \<and> distinct (entry_names m)
     \<and> (\<forall>(d, e)\<in>set m. ae_digest e = d \<and> entry_ok groups e)"

definition store_ok :: "'d authStore \<Rightarrow> bool" where
  "store_ok a \<longleftrightarrow> groups_ok (as_groups a) \<and> entries_ok (as_groups a) (as_byDigest a) \<and> entries_ok (as_groups a) (as_inline a)"

lemma groups_ok_update: "groups_ok gs \<Longrightarrow> gr_name g = n \<Longrightarrow> plain_group g \<Longrightarrow> groups_ok (AList.update n g gs)"
proof -
  assume gs: "groups_ok gs" "gr_name g = n" "plain_group g"
  have "(k, v) \<in> set (AList.update n g gs) \<longleftrightarrow> map_of (AList.update n g gs) k = Some v" for k v
    using gs(1) by (simp add: groups_ok_def gomap_wf_def distinct_update del: map_of_update)
  moreover have "map_of gs k = Some v \<longleftrightarrow> (k, v) \<in> set gs" for k v
    using gs(1) by (simp add: groups_ok_def gomap_wf_def)
  ultimately show ?thesis using gs by (auto simp: groups_ok_def split: if_splits)
qed

lemma build_group_ok: "build_group b n gco = Inr g \<Longrightarrow> gr_name g = n \<and> plain_group g"
  by (auto simp: build_group_def bind_sum_Inr new_group_def plain_group_def split: option.splits if_splits)

lemma build_groups_ok: "groups_ok acc \<Longrightarrow> build_groups b gcs acc = Inr gs \<Longrightarrow> groups_ok gs"
  by (induction b gcs acc rule: build_groups.induct) (auto simp: bind_sum_Inr intro: groups_ok_update dest: build_group_ok)

lemma lookup_members_ok: "lookup_members gs u ns = Inr ms \<Longrightarrow> map Some ms = map (map_of gs) ns"
  by (induction gs u ns arbitrary: ms rule: lookup_members.induct) (auto simp: bind_sum_Inr split: option.splits)

lemma buildEntry_ok:
  assumes "buildEntry hash getenv readFile gs src uco = Inr e"
  shows "entry_ok gs e" and "\<exists>uc. uco = Some uc \<and> entry_name e = uc_Name uc"
proof -
  from assms obtain uc members personal where e: "uco = Some uc" "uc_Name uc \<noteq> []"
      "effectiveGroupNames (uc_Group uc) (uc_Groups uc) \<noteq> []"
      "lookup_members gs (uc_Name uc) (effectiveGroupNames (uc_Group uc) (uc_Groups uc)) = Inr members"
      "us_groupNames (ae_user e) = effectiveGroupNames (uc_Group uc) (uc_Groups uc)"
      "ae_group e = effectiveGroup members personal" "entry_name e = uc_Name uc"
    by (auto simp: buildEntry_def Let_def bind_sum_Inr split: option.splits if_splits)
  from lookup_members_ok [OF e(4)] e show "entry_ok gs e"
    by (auto simp: entry_ok_def intro!: exI [of _ members] exI [of _ personal] dest: arg_cong [of _ _ length])
  from e show "\<exists>uc. uco = Some uc \<and> entry_name e = uc_Name uc" by blast
qed

lemma add_users_result:
  assumes "add_users build us seen m = Inr m'" and "entries_ok gs m"
    and "\<And>uco e. build uco = Inr e \<Longrightarrow> entry_ok gs e \<and> (\<exists>uc. uco = Some uc \<and> entry_name e = uc_Name uc)"
    and "\<forall>n\<in>set (entry_names m). n \<in> set seen \<or> n \<notin> {uc_Name uc |uc. Some uc \<in> set us}"
  shows "entries_ok gs m' \<and> set m' = set m \<union> {(ae_digest e, e) |e. \<exists>uco\<in>set us. build uco = Inr e}"
  using assms
proof (induction build us seen m arbitrary: m' rule: add_users.induct)
  case (2 build uco us seen m)
  from 2(2) obtain e where e: "build uco = Inr e" "entry_name e \<notin> set seen" "map_of m (ae_digest e) = None"
    and rest: "add_users build us (entry_name e # seen) (AList.update (ae_digest e) e m) = Inr m'"
    by (auto simp: bind_sum_Inr split: if_splits)
  obtain uc where uc: "uco = Some uc" "entry_name e = uc_Name uc" "entry_ok gs e" using 2(4) [OF e(1)] by blast
  have up: "AList.update (ae_digest e) e m = m @ [(ae_digest e, e)]" using e(3) by (rule update_fresh)
  have fresh: "entry_name e \<notin> set (entry_names m)" using 2(5) uc e(2) by (metis (mono_tags, lifting) CollectI list.set_intros(1))
  have dig: "ae_digest e \<notin> fst ` set m" using e(3) by (simp add: map_of_eq_None_iff)
  have "entries_ok gs (m @ [(ae_digest e, e)])"
    using 2(3) fresh dig uc by (auto simp: entries_ok_def gomap_wf_def)
  moreover have "\<forall>n\<in>set (entry_names (m @ [(ae_digest e, e)])). n \<in> set (entry_name e # seen) \<or> n \<notin> {uc_Name uc |uc. Some uc \<in> set us}"
    using 2(5) uc by auto
  ultimately have "entries_ok gs m' \<and> set m' = set (m @ [(ae_digest e, e)]) \<union> {(ae_digest e, e) |e. \<exists>uco\<in>set us. build uco = Inr e}"
    using 2(1) [OF e(2)] e(3) rest 2(4) unfolding up by blast
  with e(1) show ?case by auto
qed simp

lemma entries_ok_filter: "entries_ok gs m \<Longrightarrow> entries_ok gs (filter P m)"
proof -
  assume m: "entries_ok gs m"
  have "distinct (map f (filter P m))" if "distinct (map f m)" for f :: "_ \<Rightarrow> string"
    using that by (rule distinct_map_filter)
  with m show ?thesis by (auto simp: entries_ok_def)
qed

abbreviation overridden :: "UserConfig option list \<Rightarrow> string set" where
  "overridden us \<equiv> {uc_Name uc |uc. Some uc \<in> set us}"

lemma overridden_names: "set (map uc_Name (List.map_filter (\<lambda>u. u) us)) = overridden us"
  by (auto simp: List.map_filter_def image_iff) force

lemma replaceFileUsers_result:
  assumes "store_ok a" and "replaceFileUsers hash getenv readFile us a = (err, a')"
  shows "store_ok a' \<and> as_inline a' = as_inline a \<and> as_groups a' = as_groups a \<and> (err \<noteq> None \<longrightarrow> a' = a)
    \<and> (err = None \<longrightarrow> set (as_byDigest a')
         = {(d, e) \<in> set (as_inline a). entry_name e \<notin> overridden us}
           \<union> {(ae_digest e, e) |e. \<exists>uco\<in>set us. buildEntry hash getenv readFile (as_groups a) FromFile uco = Inr e})"
proof -
  let ?build = "buildEntry hash getenv readFile (as_groups a) FromFile"
  let ?kept = "filter (\<lambda>(d, e). entry_name e \<notin> overridden us) (as_inline a)"
  have kept: "entries_ok (as_groups a) ?kept" using assms(1) by (auto simp: store_ok_def intro: entries_ok_filter)
  have names: "\<forall>n\<in>set (entry_names ?kept). n \<in> set [] \<or> n \<notin> overridden us" by auto
  have r: "add_users ?build us [] ?kept = Inr m' \<Longrightarrow> entries_ok (as_groups a) m' \<and>
      set m' = set ?kept \<union> {(ae_digest e, e) |e. \<exists>uco\<in>set us. ?build uco = Inr e}" for m'
    by (rule add_users_result [OF _ kept _ names]) (blast dest: buildEntry_ok)+
  show ?thesis
  proof (cases "add_users ?build us [] ?kept")
    case (Inl e)
    with assms(2) have "a' = a" "err \<noteq> None"
      unfolding replaceFileUsers_def overridden_names Let_def by auto
    with assms(1) show ?thesis by (cases err) auto
  next
    case (Inr m')
    with assms(2) have "a' = a\<lparr>as_byDigest := m', as_fileUserCount := length us\<rparr>" "err = None"
      unfolding replaceFileUsers_def overridden_names Let_def by auto
    with r [OF Inr] assms(1) show ?thesis by (auto simp: store_ok_def)
  qed
qed

lemma newAuthStore_ok:
  assumes "newAuthStore hash getenv readFile b gcs inl = Inr a" shows "store_ok a"
proof -
  from assms obtain gs m where gs: "build_groups b gcs [] = Inr gs"
    and m: "(case inl of None \<Rightarrow> Inr [] | Some us \<Rightarrow> add_users (buildEntry hash getenv readFile gs FromInline) us [] []) = Inr m"
    and a: "as_groups a = gs" "as_byDigest a = m" "as_inline a = m"
    by (auto simp: newAuthStore_def bind_sum_Inr)
  have gok: "groups_ok gs" using gs by (rule build_groups_ok [rotated]) (simp add: groups_ok_def)
  have e: "entries_ok gs []" by (simp add: entries_ok_def)
  have "entries_ok gs m"
  proof (cases inl)
    case (Some us)
    with m have "add_users (buildEntry hash getenv readFile gs FromInline) us [] [] = Inr m" by simp
    from add_users_result [OF this e] show ?thesis by (auto dest: buildEntry_ok)
  qed (use m e in auto)
  with gok a show ?thesis by (simp add: store_ok_def)
qed


subsection \<open>Reachable stores\<close>

inductive auth_reachable :: "(string \<Rightarrow> 'd) \<Rightarrow> 'd authStore \<Rightarrow> bool" for hash :: "string \<Rightarrow> 'd" where
  built: "newAuthStore hash getenv readFile b gcs inl = Inr a \<Longrightarrow> auth_reachable hash a"
| replaced: "auth_reachable hash a \<Longrightarrow> auth_reachable hash (snd (replaceFileUsers hash getenv readFile us a))"
| reloaded: "auth_reachable hash a \<Longrightarrow>
    auth_reachable hash (snd (snd (maybeReload hash getenv readFile now stat load show_err configured a)))"
| identified: "auth_reachable hash a \<Longrightarrow> auth_reachable hash (snd (identify hash now r a))"

lemma store_ok_cong:
  "as_groups a' = as_groups a \<Longrightarrow> as_byDigest a' = as_byDigest a \<Longrightarrow> as_inline a' = as_inline a \<Longrightarrow> store_ok a' = store_ok a"
  by (simp add: store_ok_def)

lemma store_ok_reloadError: "store_ok (snd (logReloadError t msg a)) = store_ok a"
  by (rule store_ok_cong) (simp_all add: logReloadError_def)

lemma store_ok_replace [inv_intros]: "store_ok a \<Longrightarrow> store_ok (snd (replaceFileUsers hash getenv readFile us a))"
  using replaceFileUsers_result [of a hash getenv readFile us] by (cases "replaceFileUsers hash getenv readFile us a") auto

lemma store_ok_reload [inv_intros]:
  assumes "store_ok a"
  shows "store_ok (snd (snd (maybeReload hash getenv readFile now stat load show_err configured a)))"
proof -
  have a1: "store_ok (a\<lparr>as_lastCheck := now\<rparr>)" using assms by (simp add: store_ok_def)
  have rep: "store_ok a2 \<and> store_ok (a2\<lparr>as_lastModTime := t, as_lastReloadErr := x\<rparr>)"
    if "replaceFileUsers hash getenv readFile us (a\<lparr>as_lastCheck := now\<rparr>) = (err, a2)" for us err a2 t x
  proof -
    have "store_ok a2" using replaceFileUsers_result [OF a1 that] by blast
    then show ?thesis by (simp add: store_ok_def)
  qed
  show ?thesis
    using a1 assms rep
    by (auto simp: maybeReload_def Let_def store_ok_reloadError split: sum.splits prod.splits option.splits)
qed

lemma store_ok_identify [inv_intros]: "store_ok a \<Longrightarrow> store_ok (snd (identify hash now r a))"
  by (auto simp: identify_def recordAuthFailure_def store_ok_def split: option.splits)

lemma reachable_store_ok: "auth_reachable hash a \<Longrightarrow> store_ok a"
  by (induction rule: auth_reachable.induct) (auto intro: newAuthStore_ok inv_intros)

lemma entries_lookup: "entries_ok gs m \<Longrightarrow> map_of m d = Some e \<longleftrightarrow> (d, e) \<in> set m"
  by (simp add: entries_ok_def gomap_wf_def)

text \<open>C28: In every store reached from a valid configuration by replacing, reloading and
  identifying, user names and key digests are unique, every entry is filed under its own
  digest, and its group is the merge of the configured groups it names.\<close>

theorem auth_store_invariant:
  assumes "auth_reachable hash a"
  shows "distinct (entry_names (as_byDigest a)) \<and> distinct (map fst (as_byDigest a))
    \<and> (\<forall>(d, e)\<in>set (as_byDigest a). ae_digest e = d \<and> entry_name e \<noteq> [] \<and>
         (\<exists>members personal. members \<noteq> [] \<and> map Some members = map (map_of (as_groups a)) (us_groupNames (ae_user e))
           \<and> (\<forall>m\<in>set members. plain_group m) \<and> ae_group e = effectiveGroup members personal))"
proof -
  note ok = reachable_store_ok [OF assms]
  have plain: "\<forall>m\<in>set members. plain_group m" if "map Some members = map (map_of (as_groups a)) ns" for members ns
  proof
    fix m assume "m \<in> set members"
    then have "Some m \<in> set (map (map_of (as_groups a)) ns)" by (metis image_eqI list.set_map that)
    then obtain n where "map_of (as_groups a) n = Some m" by auto
    then show "plain_group m" using ok by (auto simp: store_ok_def groups_ok_def dest!: map_of_SomeD)
  qed
  have e: "entries_ok (as_groups a) (as_byDigest a)" using ok by (simp add: store_ok_def)
  have "ae_digest e = d \<and> entry_name e \<noteq> [] \<and>
         (\<exists>members personal. members \<noteq> [] \<and> map Some members = map (map_of (as_groups a)) (us_groupNames (ae_user e))
           \<and> (\<forall>m\<in>set members. plain_group m) \<and> ae_group e = effectiveGroup members personal)"
    if "(d, e) \<in> set (as_byDigest a)" for d e
  proof -
    have "ae_digest e = d" "entry_ok (as_groups a) e" using e that by (auto simp: entries_ok_def)
    then show ?thesis using plain unfolding entry_ok_def by metis
  qed
  with e show ?thesis unfolding entries_ok_def gomap_wf_def by blast
qed

definition sample_gc :: GroupConfig where
  "sample_gc = \<lparr>gc_Limits = None, gc_Providers = [], gc_Models = [], gc_Cache = None, gc_CacheTTL = [],
     gc_MCPServers = [], gc_Agents = [], gc_PassthroughPaths = []\<rparr>"

definition sample_uc :: "string \<Rightarrow> string \<Rightarrow> UserConfig" where
  "sample_uc name key = \<lparr>uc_Limits = None, uc_Name = name, uc_Group = ''dev'', uc_Groups = [], uc_APIKey = key,
     uc_Providers = [], uc_Models = [], uc_Admin = False\<rparr>"

definition sample_entry :: "string \<Rightarrow> string \<Rightarrow> userSource \<Rightarrow> string authEntry" where
  "sample_entry name key src = \<lparr>ae_user = \<lparr>us_limits = None, us_name = name, us_groupName = ''dev'', us_groupNames = [''dev''], us_admin = False\<rparr>,
     ae_group = new_group ''dev'' sample_gc 0, ae_digest = key, ae_source = src\<rparr>"

definition sample_store :: "string authStore" where
  "sample_store = \<lparr>as_groups = [(''dev'', new_group ''dev'' sample_gc 0)],
     as_byDigest = [(''k1'', sample_entry ''ann'' ''k1'' FromInline), (''k2'', sample_entry ''bob'' ''k2'' FromInline)],
     as_inline = [(''k1'', sample_entry ''ann'' ''k1'' FromInline), (''k2'', sample_entry ''bob'' ''k2'' FromInline)],
     as_failures = newAuthFailureTracker, as_fileUserCount = 0, as_lastModTime = zero_time, as_lastCheck = zero_time,
     as_lastReloadErr = (None, zero_time)\<rparr>"

lemma sample_build:
  "name \<noteq> [] \<Longrightarrow> key = CHR ''k'' # t \<Longrightarrow>
     buildEntry (\<lambda>k. k) (\<lambda>_. []) Map.empty [(''dev'', new_group ''dev'' sample_gc 0)] src (Some (sample_uc name key))
       = Inr (sample_entry name key src)"
  by (simp add: buildEntry_def sample_uc_def effectiveGroupNames_def personal_grant_def user_key_def
      LimitsConfig_validate_def resolveSecret_def effectiveGroup_def sample_entry_def Let_def)

lemma sample_store_built:
  "newAuthStore (\<lambda>k. k) (\<lambda>_. []) Map.empty False [(''dev'', Some sample_gc)]
     (Some [Some (sample_uc ''ann'' ''k1''), Some (sample_uc ''bob'' ''k2'')]) = Inr sample_store"
proof -
  have g: "build_group False ''dev'' (Some sample_gc) = Inr (new_group ''dev'' sample_gc 0)"
    by (simp add: build_group_def sample_gc_def LimitsConfig_validate_def groupCacheTTL_def)
  show ?thesis
    by (simp add: newAuthStore_def g sample_build sample_store_def)
      (simp add: sample_entry_def)
qed

lemma sample_store_reachable: "auth_reachable (\<lambda>k. k) sample_store"
  by (rule built [OF sample_store_built])

theorem auth_store_invariant_witness: "distinct (entry_names (as_byDigest sample_store))"
  using auth_store_invariant [OF sample_store_reachable] by blast

text \<open>Who is let in after the users file has been replaced.\<close>

theorem identify_after_replace:
  assumes "auth_reachable hash a" and "replaceFileUsers hash getenv readFile us a = (None, a')"
  shows "fst (identify hash now r a') = Some (u, g) \<longleftrightarrow>
    (\<exists>key e. presentedKey r = Some key \<and> ae_digest e = hash key \<and> u = ae_user e \<and> g = ae_group e
       \<and> ((\<exists>uco\<in>set us. buildEntry hash getenv readFile (as_groups a) FromFile uco = Inr e)
          \<or> e \<in> snd ` set (as_inline a) \<and> (\<forall>uc. Some uc \<in> set us \<longrightarrow> uc_Name uc \<noteq> us_name (ae_user e))))"
proof -
  note r = replaceFileUsers_result [OF reachable_store_ok [OF assms(1)] assms(2)]
  have dig: "ae_digest e = d" if "(d, e) \<in> set (as_inline a)" for d e
    using that reachable_store_ok [OF assms(1)] by (auto simp: store_ok_def entries_ok_def)
  have look: "map_of (as_byDigest a') d = Some e \<longleftrightarrow> (d, e) \<in> set (as_byDigest a')" for d e
  proof -
    have "store_ok a'" using r by blast
    then show ?thesis by (intro entries_lookup [of "as_groups a'"]) (simp add: store_ok_def)
  qed
  have mem: "(d, e) \<in> set (as_byDigest a') \<longleftrightarrow> ae_digest e = d \<and>
      ((\<exists>uco\<in>set us. buildEntry hash getenv readFile (as_groups a) FromFile uco = Inr e)
       \<or> e \<in> snd ` set (as_inline a) \<and> (\<forall>uc. Some uc \<in> set us \<longrightarrow> uc_Name uc \<noteq> us_name (ae_user e)))" for d e
    using r dig by (force simp: image_iff)
  have "fst (identify hash now r a') = Some (u, g) \<longleftrightarrow>
      (\<exists>key e. presentedKey r = Some key \<and> map_of (as_byDigest a') (hash key) = Some e \<and> u = ae_user e \<and> g = ae_group e)"
    by (auto simp: identify_def split: option.splits)
  then show ?thesis unfolding look mem by auto
qed


definition sample_request :: "string \<Rightarrow> authRequest" where
  "sample_request key = \<lparr>rq_Authorization = [], rq_xApiKey = key, rq_RemoteAddr = ''10.0.0.1:99''\<rparr>"

lemma sample_presented: "presentedKey (sample_request ''k1'') = Some ''k1''"
proof -
  have u: "[128..<139] = [128, 129, 130, 131, 132, 133, 134, 135, 136, 137, 138 :: nat]" by (simp add: upt_rec)
  have "strip_any space_encodings ''k1'' = None" "strip_any (map rev space_encodings) (rev ''k1'') = None"
    unfolding space_encodings_def u by (simp_all add: strip_any_def char_of_def)
  then have "strings_TrimSpace ''k1'' = ''k1''" by (simp add: strings_TrimSpace_def trim_start_none)
  then show ?thesis by (simp add: presentedKey_def bearer_key_def sample_request_def)
qed

text \<open>A file user of the same name revokes the key of the inline user.\<close>

theorem identify_after_replace_witness:
  "fst (identify (\<lambda>k. k) 0 (sample_request ''k1'')
     (snd (replaceFileUsers (\<lambda>k. k) (\<lambda>_. []) Map.empty [Some (sample_uc ''ann'' ''k3'')] sample_store))) = None"
proof -
  let ?a' = "snd (replaceFileUsers (\<lambda>k. k) (\<lambda>_. []) Map.empty [Some (sample_uc ''ann'' ''k3'')] sample_store)"
  have gs: "as_groups sample_store = [(''dev'', new_group ''dev'' sample_gc 0)]" by (simp add: sample_store_def)
  have rep: "replaceFileUsers (\<lambda>k. k) (\<lambda>_. []) Map.empty [Some (sample_uc ''ann'' ''k3'')] sample_store = (None, ?a')"
    by (simp add: replaceFileUsers_def Let_def gs sample_build)
      (simp add: sample_store_def sample_entry_def)
  have "fst (identify (\<lambda>k. k) 0 (sample_request ''k1'') ?a') \<noteq> Some (u, g)" for u g
    unfolding identify_after_replace [OF sample_store_reachable rep] gs
    by (auto simp: sample_presented sample_build)
      (auto simp: sample_store_def sample_entry_def sample_uc_def)
  then show ?thesis by (metis not_None_eq surj_pair)
qed

text \<open>The cache of model listings is keyed by \<open>modelsCacheKey\<close>: equal keys mean the same rights.\<close>

lemma effectiveGroup_parts:
  "gr_memberGroups (effectiveGroup members personal) = Some ms \<Longrightarrow> \<forall>m\<in>set members. plain_group m \<Longrightarrow> members \<noteq> [] \<Longrightarrow>
     ms = members \<and> gr_personalGrant (effectiveGroup members personal) = personal"
  "gr_memberGroups (effectiveGroup members personal) = None \<Longrightarrow>
     \<exists>m. members = [m] \<and> effectiveGroup members personal = m"
  using single_member [of members]
  by (auto simp: effectiveGroup_def Let_def plain_group_def split: if_splits)

lemma members_by_name:
  assumes "groups_ok gs" and "map Some ms = map (map_of gs) ns"
  shows "map (\<lambda>m. map_of gs (gr_name m)) ms = map Some ms" and "\<forall>m\<in>set ms. plain_group m"
proof -
  have "map_of gs (gr_name m) = Some m \<and> plain_group m" if "m \<in> set ms" for m
  proof -
    have "Some m \<in> set (map (map_of gs) ns)" using that assms(2) by (metis image_eqI list.set_map)
    then obtain n where n: "map_of gs n = Some m" by auto
    then have "gr_name m = n \<and> plain_group m" using assms(1) by (auto simp: groups_ok_def dest!: map_of_SomeD)
    with n show ?thesis by simp
  qed
  then show "map (\<lambda>m. map_of gs (gr_name m)) ms = map Some ms" "\<forall>m\<in>set ms. plain_group m" by simp_all
qed

lemma same_names_same_members:
  assumes "groups_ok gs" "map Some ms = map (map_of gs) ns" "map Some ms' = map (map_of gs) ns'"
    and "map gr_name ms = map gr_name ms'"
  shows "ms = ms'"
proof -
  have "map Some ms = map (map_of gs) (map gr_name ms)" "map Some ms' = map (map_of gs) (map gr_name ms')"
    using members_by_name(1) [OF assms(1,2)] members_by_name(1) [OF assms(1,3)] by simp_all
  with assms(4) have "map Some ms = map Some ms'" by simp
  then show ?thesis by (simp add: inj_map_eq_map)
qed

text \<open>C29: Two users whose model listings share a cache key have the same effective group, so no
  user is served the listing of another's rights, whatever characters names and patterns
  contain.\<close>

theorem models_cache_key_identifies_rights:
  assumes "auth_reachable hash a" and "(d, e) \<in> set (as_byDigest a)" and "(d', e') \<in> set (as_byDigest a)"
    and "modelsCacheKey (ae_group e) = modelsCacheKey (ae_group e')"
  shows "ae_group e = ae_group e'"
proof -
  note ok = reachable_store_ok [OF assms(1)]
  have gs: "groups_ok (as_groups a)" using ok by (simp add: store_ok_def)
  have "entry_ok (as_groups a) e" "entry_ok (as_groups a) e'"
    using ok assms(2,3) by (auto simp: store_ok_def entries_ok_def)
  then obtain ms p ms' p' where
    m: "ms \<noteq> []" "map Some ms = map (map_of (as_groups a)) (us_groupNames (ae_user e))" "ae_group e = effectiveGroup ms p"
    and m': "ms' \<noteq> []" "map Some ms' = map (map_of (as_groups a)) (us_groupNames (ae_user e'))" "ae_group e' = effectiveGroup ms' p'"
    unfolding entry_ok_def by blast
  note plain = members_by_name(2) [OF gs m(2)] and plain' = members_by_name(2) [OF gs m'(2)]
  note same = same_names_same_members [OF gs m(2) m'(2)]
  note parts = modelsCacheKey_parts [OF assms(4)]
  show ?thesis
  proof (cases "gr_memberGroups (ae_group e)")
    case None
    then have "gr_memberGroups (ae_group e') = None" "gr_name (ae_group e) = gr_name (ae_group e')" using parts by auto
    moreover from this(1) None m(3) m'(3) effectiveGroup_parts(2) [of ms p] effectiveGroup_parts(2) [of ms' p']
    have one: "ms = [ae_group e]" "ms' = [ae_group e']" by auto
    ultimately have "map gr_name ms = map gr_name ms'" by (metis list.simps(8,9))
    from same [OF this] one show ?thesis by simp
  next
    case (Some l)
    then obtain l' where l': "gr_memberGroups (ae_group e') = Some l'" "map gr_name l = map gr_name l'"
      "gr_personalGrant (ae_group e) = gr_personalGrant (ae_group e')" using parts by (auto simp: map_option_case split: option.splits)
    have "l = ms" "gr_personalGrant (ae_group e) = p"
      using effectiveGroup_parts(1) [OF Some [unfolded m(3)] plain m(1)] m(3) by simp_all
    moreover have "l' = ms'" "gr_personalGrant (ae_group e') = p'"
      using effectiveGroup_parts(1) [OF l'(1) [unfolded m'(3)] plain' m'(1)] m'(3) by simp_all
    ultimately show ?thesis using same l'(2,3) m(3) m'(3) by simp
  qed
qed

theorem models_cache_key_identifies_rights_witness:
  "ae_group (sample_entry ''ann'' ''k1'' FromInline) = ae_group (sample_entry ''bob'' ''k2'' FromInline)"
  by (rule models_cache_key_identifies_rights [OF sample_store_reachable, of "''k1''" _ "''k2''"])
    (simp_all add: sample_store_def sample_entry_def)

end
