(* ===== verification/Registry.thy ===== *)
theory Registry
  imports Breakers Pricing AuthStore
begin

text \<open>
  The model registry (registry.go): configuration, resolving a requested model id for a group, and
  the listing of models a group may use.  A provider adapter is represented by its name.  Warnings
  that are logged once are kept as the list of logged ids.

  The results: what \<open>resolve\<close> returns is known and allowed; the listing agrees with \<open>resolve\<close>, bare
  ids in both directions, except for one case, an id that is also an alias the group cannot use.
\<close>

subsection \<open>Model ids and aliases\<close>

definition isValidModelID :: "string \<Rightarrow> bool" where
  "isValidModelID mid \<longleftrightarrow> mid \<noteq> [] \<and> (\<forall>r\<in>set (runes mid). \<not> (r < 0x20 \<or> r = 0x7f))"

datatype aliasError =
    AliasInvalid string | AliasShadowedByPrefix string string | AliasCollides string
  | AliasEmptyTarget string | AliasChain string string

definition check_alias :: "(string, string) gomap \<Rightarrow> string list \<Rightarrow> string set \<Rightarrow> string \<Rightarrow> aliasError option" where
  "check_alias raw providerNames explicitModels alias =
     (let target = the (map_of raw alias) in
      if \<not> isValidModelID alias then Some (AliasInvalid alias)
      else case (case strings_Cut (CHR ''/'') alias of Some (prefix, _) \<Rightarrow> if prefix \<in> set providerNames then Some prefix else None | None \<Rightarrow> None) of
        Some prefix \<Rightarrow> Some (AliasShadowedByPrefix alias prefix)
      | None \<Rightarrow>
          if alias \<in> explicitModels then Some (AliasCollides alias)
          else if target = [] then Some (AliasEmptyTarget alias)
          else if map_of raw target \<noteq> None then Some (AliasChain alias target)
          else None)"

definition validateModelAliases :: "(string, string) gomap \<Rightarrow> string list \<Rightarrow> string set \<Rightarrow> aliasError + (string, string) gomap" where
  "validateModelAliases raw providerNames explicitModels =
     (case first_some (check_alias raw providerNames explicitModels) (sort (map fst raw)) of
        Some e \<Rightarrow> Inl e
      | None \<Rightarrow> Inr (map (\<lambda>a. (a, the (map_of raw a))) (sort (map fst raw))))"

subsection \<open>The registry\<close>

record modelRegistry =
  mr_states :: "string \<rightharpoonup> providerState"
  mr_providerNames :: "string list"
  mr_aliases :: "(string, string) gomap"
  mr_modelMeta :: "string \<rightharpoonup> ModelMetaConfig option"
  mr_requirePrefix :: bool
  mr_warned :: "string list"
  mr_modelsGen :: int
  mr_modelsCache :: "string \<rightharpoonup> int \<times> string"

record RegistryProviderConfig =
  pc_DiscoveryInterval :: string
  pc_Models :: "string list"
  pc_Discovery :: bool

record RegistryConfig =
  cfg_Breaker :: BreakerConfig
  cfg_Providers :: "string \<rightharpoonup> RegistryProviderConfig"
  cfg_ModelAliases :: "(string, string) gomap"
  cfg_RequireModelPrefix :: bool
  cfg_ModelMeta :: "(string, ModelMetaConfig option) gomap"

datatype registryError =
    RegBreaker breakerError
  | RegIntervalInvalid string string | RegIntervalNotPositive string string
  | RegAlias aliasError | RegMeta metaError

definition provider_config :: "RegistryConfig \<Rightarrow> string \<Rightarrow> RegistryProviderConfig" where
  "provider_config cfg name =
     (case cfg_Providers cfg name of Some pc \<Rightarrow> pc
      | None \<Rightarrow> \<lparr>pc_DiscoveryInterval = [], pc_Models = [], pc_Discovery = False\<rparr>)"

definition discovery_interval :: "string \<Rightarrow> RegistryProviderConfig \<Rightarrow> registryError + duration" where
  "discovery_interval name pc =
     (if pc_DiscoveryInterval pc = [] then Inr defaultDiscoveryInterval
      else case time_ParseDuration (pc_DiscoveryInterval pc) of
        None \<Rightarrow> Inl (RegIntervalInvalid name (pc_DiscoveryInterval pc))
      | Some d \<Rightarrow> if d \<le> 0 then Inl (RegIntervalNotPositive name (pc_DiscoveryInterval pc)) else Inr d)"

fun build_states :: "RegistryConfig \<Rightarrow> breakerConfig \<Rightarrow> string list \<Rightarrow> (string \<rightharpoonup> providerState) \<Rightarrow> registryError + (string \<rightharpoonup> providerState)" where
  "build_states cfg breaker [] m = Inr m"
| "build_states cfg breaker (name # names) m =
     bind_sum (discovery_interval name (provider_config cfg name)) (\<lambda>interval.
       build_states cfg breaker names
         (m(name \<mapsto> new_providerState breaker (pc_Models (provider_config cfg name)) (pc_Discovery (provider_config cfg name)) interval)))"

definition newModelRegistry :: "string list \<Rightarrow> RegistryConfig \<Rightarrow> registryError + modelRegistry" where
  "newModelRegistry adapters cfg =
     (case validateBreakerConfig (cfg_Breaker cfg) of
        Inl e \<Rightarrow> Inl (RegBreaker e)
      | Inr breaker \<Rightarrow>
          let providerNames = sort adapters;
              explicitModels = \<Union>((\<lambda>n. set (pc_Models (provider_config cfg n))) ` set providerNames) in
          bind_sum (build_states cfg breaker providerNames Map.empty) (\<lambda>states.
            (case validateModelAliases (cfg_ModelAliases cfg) providerNames explicitModels of
               Inl e \<Rightarrow> Inl (RegAlias e)
             | Inr aliases \<Rightarrow>
                 (case validateModelMeta (cfg_ModelMeta cfg) of
                    Inl e \<Rightarrow> Inl (RegMeta e)
                  | Inr meta \<Rightarrow>
                      Inr \<lparr>mr_states = states, mr_providerNames = providerNames, mr_aliases = aliases,
                           mr_modelMeta = map_of meta, mr_requirePrefix = cfg_RequireModelPrefix cfg,
                           mr_warned = [], mr_modelsGen = 0, mr_modelsCache = Map.empty\<rparr>))))"

definition registry_discoveryHealthy :: "modelRegistry \<Rightarrow> string \<Rightarrow> bool" where
  "registry_discoveryHealthy m name =
     (case mr_states m name of None \<Rightarrow> True | Some st \<Rightarrow> providerState_discoveryHealthy st)"

definition registry_finishRefresh :: "string \<Rightarrow> gtime \<Rightarrow> string list \<Rightarrow> go_error option \<Rightarrow> modelRegistry \<Rightarrow> modelRegistry" where
  "registry_finishRefresh name now ids err m =
     (case mr_states m name of
        None \<Rightarrow> m
      | Some st \<Rightarrow> m\<lparr>mr_states := (mr_states m)(name \<mapsto> finishRefresh now ids err st),
                     mr_modelsGen := wrap64 (mr_modelsGen m + 1)\<rparr>)"

text \<open>One pass of \<open>maybeRefresh\<close>: the providers whose background refresh is started.\<close>

fun begin_refreshes :: "gtime \<Rightarrow> string list \<Rightarrow> modelRegistry \<Rightarrow> string list \<times> modelRegistry" where
  "begin_refreshes now [] m = ([], m)"
| "begin_refreshes now (name # names) m =
     (case mr_states m name of
        None \<Rightarrow> begin_refreshes now names m
      | Some st \<Rightarrow>
          (case (if st_discoveryEnabled st then tryBeginRefresh now st else (False, st)) of
             (False, st1) \<Rightarrow> begin_refreshes now names m
           | (True, st1) \<Rightarrow>
               (case begin_refreshes now names (m\<lparr>mr_states := (mr_states m)(name \<mapsto> st1)\<rparr>) of
                  (started, m1) \<Rightarrow> (name # started, m1))))"

definition maybeRefresh :: "gtime \<Rightarrow> bool \<Rightarrow> modelRegistry \<Rightarrow> string list \<times> modelRegistry" where
  "maybeRefresh now ctxDone m = (if ctxDone then ([], m) else begin_refreshes now (mr_providerNames m) m)"

subsection \<open>Resolving an id\<close>

definition splitConfiguredProvider :: "modelRegistry \<Rightarrow> string \<Rightarrow> (string \<times> string) option" where
  "splitConfiguredProvider m mid =
     (case strings_Cut (CHR ''/'') mid of
        None \<Rightarrow> None
      | Some (prefix, tail) \<Rightarrow> if prefix \<in> set (mr_providerNames m) then Some (prefix, tail) else None)"

definition providerHasModel :: "modelRegistry \<Rightarrow> string \<Rightarrow> string \<Rightarrow> bool" where
  "providerHasModel m provider mid = (case mr_states m provider of Some st \<Rightarrow> hasModel st mid | None \<Rightarrow> False)"

definition bareEntryWinner :: "string list \<Rightarrow> group \<Rightarrow> string \<Rightarrow> string list \<Rightarrow> string option" where
  "bareEntryWinner owners grp mid extraIDs =
     (if owners = [] then None
      else if grantCount grp \<le> 1 then Some (hd owners)
      else first_some (\<lambda>name. if allowsProviderModel grp name (mid # extraIDs) then Some name else None) owners)"

definition owners_of :: "modelRegistry \<Rightarrow> string \<Rightarrow> string list" where
  "owners_of m mid = filter (\<lambda>name. providerHasModel m name mid) (mr_providerNames m)"

definition visible_owners :: "modelRegistry \<Rightarrow> group \<Rightarrow> string \<Rightarrow> string list" where
  "visible_owners m grp mid = filter (allowsProvider grp) (owners_of m mid)"

definition bareWinner :: "modelRegistry \<Rightarrow> string \<Rightarrow> group \<Rightarrow> string list \<Rightarrow> string option" where
  "bareWinner m mid grp extraIDs =
     (if owners_of m mid = [] then None
      else if visible_owners m grp mid = [] then Some (hd (owners_of m mid))
      else case bareEntryWinner (visible_owners m grp mid) grp mid extraIDs of
             Some winner \<Rightarrow> Some winner
           | None \<Rightarrow> Some (hd (visible_owners m grp mid)))"

datatype resolveError = ModelUnknown | ModelDenied | AliasTarget string string

record resolved =
  rs_provider :: string
  rs_upstreamModel :: string
  rs_canonical :: string

definition resolveAgainst :: "modelRegistry \<Rightarrow> string \<Rightarrow> string \<Rightarrow> string \<Rightarrow> string \<Rightarrow> group \<Rightarrow> resolveError \<Rightarrow> resolveError + resolved" where
  "resolveAgainst m providerName upstreamModel requestedID extraModelName grp notFoundErr =
     (if \<not> providerHasModel m providerName upstreamModel then Inl notFoundErr
      else let ids = [requestedID, upstreamModel] @ (if extraModelName \<noteq> [] then [extraModelName] else []) in
           if \<not> allowsProviderModel grp providerName ids then Inl ModelDenied
           else Inr \<lparr>rs_provider = providerName, rs_upstreamModel = upstreamModel,
                     rs_canonical = providerName @ ''/'' @ upstreamModel\<rparr>)"

definition resolveAliasTarget :: "modelRegistry \<Rightarrow> string \<Rightarrow> string \<Rightarrow> group \<Rightarrow> resolveError + resolved" where
  "resolveAliasTarget m alias target grp =
     (let notFound = AliasTarget alias target in
      case splitConfiguredProvider m target of
        Some (providerName, rest) \<Rightarrow> resolveAgainst m providerName rest target alias grp notFound
      | None \<Rightarrow>
          (case bareWinner m target grp [alias] of
             None \<Rightarrow> Inl notFound
           | Some providerName \<Rightarrow> resolveAgainst m providerName target target alias grp notFound))"

definition aliasShadowWarnKey :: "string \<Rightarrow> string" where
  "aliasShadowWarnKey alias = ''alias-shadow:'' @ alias"

definition warn_once :: "string \<Rightarrow> modelRegistry \<Rightarrow> modelRegistry" where
  "warn_once w m = (if w \<in> set (mr_warned m) then m else m\<lparr>mr_warned := mr_warned m @ [w]\<rparr>)"

definition resolve :: "modelRegistry \<Rightarrow> string \<Rightarrow> group \<Rightarrow> (resolveError + resolved) \<times> modelRegistry" where
  "resolve m mid grp =
     (case map_of (mr_aliases m) mid of
        Some target \<Rightarrow>
          (resolveAliasTarget m mid target grp,
           if aliasShadowWarnKey mid \<notin> set (mr_warned m) \<and> bareWinner m mid grp [] \<noteq> None then warn_once (aliasShadowWarnKey mid) m else m)
      | None \<Rightarrow>
          (case splitConfiguredProvider m mid of
             Some (providerName, rest) \<Rightarrow> (resolveAgainst m providerName rest mid [] grp ModelUnknown, m)
           | None \<Rightarrow>
               if mr_requirePrefix m then (Inl ModelUnknown, m)
               else (case bareWinner m mid grp [] of
                       None \<Rightarrow> (Inl ModelUnknown, m)
                     | Some providerName \<Rightarrow> (resolveAgainst m providerName mid mid [] grp ModelUnknown, m))))"

subsection \<open>Listing\<close>

record modelObject =
  mo_id :: string
  mo_owned_by :: string
  mo_context :: "int option"
  mo_pricing :: "(float64 \<times> float64) option"

definition modelObject_of :: "string \<Rightarrow> string \<Rightarrow> resolvedModelMeta \<Rightarrow> modelObject" where
  "modelObject_of mid ownedBy meta =
     \<lparr>mo_id = mid, mo_owned_by = ownedBy,
      mo_context = (if rm_ContextKnown meta then Some (rm_ContextTokens meta) else None),
      mo_pricing = (if rm_CostKnown meta
                    then Some (microUSDPerMTokToUSD (rm_InputCost meta), microUSDPerMTokToUSD (rm_OutputCost meta)) else None)\<rparr>"

definition discovered_context :: "modelRegistry \<Rightarrow> string \<Rightarrow> string \<Rightarrow> int \<times> bool" where
  "discovered_context m provider model =
     (case mr_states m provider of
        Some st \<Rightarrow> (case contextFor st model of Some n \<Rightarrow> (n, True) | None \<Rightarrow> (0, False))
      | None \<Rightarrow> (0, False))"

definition resolveMetaFor :: "(string \<rightharpoonup> builtinModelMeta) \<Rightarrow> modelRegistry \<Rightarrow> string \<Rightarrow> string \<Rightarrow> resolvedModelMeta" where
  "resolveMetaFor table m provider bareModel =
     (case discovered_context m provider bareModel of
        (ctx, known) \<Rightarrow> resolveModelMeta table provider bareModel (mr_modelMeta m) ctx known)"

definition resolveMetaForAlias :: "(string \<rightharpoonup> builtinModelMeta) \<Rightarrow> modelRegistry \<Rightarrow> string \<Rightarrow> string \<Rightarrow> string \<Rightarrow> resolvedModelMeta" where
  "resolveMetaForAlias table m alias targetProvider targetModel =
     (case discovered_context m targetProvider targetModel of
        (ctx, known) \<Rightarrow> resolveAliasModelMeta table alias targetProvider targetModel (mr_modelMeta m) ctx known)"

definition alias_entry :: "(string \<rightharpoonup> builtinModelMeta) \<Rightarrow> modelRegistry \<Rightarrow> group \<Rightarrow> string \<times> string \<Rightarrow> (string \<times> modelObject) option" where
  "alias_entry table m grp = (\<lambda>(alias, target).
     case resolveAliasTarget m alias target grp of
       Inl e \<Rightarrow> None
     | Inr r \<Rightarrow>
         (case strings_Cut (CHR ''/'') (rs_canonical r) of
            Some (providerName, bareTarget) \<Rightarrow>
              Some (alias, modelObject_of alias providerName (resolveMetaForAlias table m alias providerName bareTarget))
          | None \<Rightarrow> Some (alias, modelObject_of alias (rs_canonical r) (resolveMetaForAlias table m alias (rs_canonical r) []))))"

definition aliasEntriesFor :: "(string \<rightharpoonup> builtinModelMeta) \<Rightarrow> modelRegistry \<Rightarrow> group \<Rightarrow> (string, modelObject) gomap" where
  "aliasEntriesFor table m grp = List.map_filter (alias_entry table m grp) (mr_aliases m)"

definition known_models :: "modelRegistry \<Rightarrow> string list" where
  "known_models m = sorted_list_of_set (\<Union>n\<in>set (mr_providerNames m). case mr_states m n of Some st \<Rightarrow> set (knownIDs st) | None \<Rightarrow> {})"

definition list_one :: "(string \<rightharpoonup> builtinModelMeta) \<Rightarrow> modelRegistry \<Rightarrow> group \<Rightarrow> (string, modelObject) gomap \<Rightarrow> string \<Rightarrow> modelObject list" where
  "list_one table m grp aliasEntries mid =
     (let visible = visible_owners m grp mid;
          shadowed = (map_of aliasEntries mid \<noteq> None);
          ambiguousBareID = (splitConfiguredProvider m mid \<noteq> None);
          plain = (\<not> shadowed \<and> \<not> ambiguousBareID \<and> \<not> mr_requirePrefix m) in
      if visible = [] then []
      else (case bareEntryWinner visible grp mid [] of
              Some w \<Rightarrow> if allowsProviderModel grp w [mid] \<and> plain then [modelObject_of mid w (resolveMetaFor table m w mid)] else []
            | None \<Rightarrow> [])
         @ (if length visible < 2 \<and> plain then []
            else map (\<lambda>p. modelObject_of (p @ ''/'' @ mid) p (resolveMetaFor table m p mid))
                   (filter (\<lambda>p. allowsProviderModel grp p [p @ ''/'' @ mid, mid]) visible)))"

definition listFor :: "(string \<rightharpoonup> builtinModelMeta) \<Rightarrow> modelRegistry \<Rightarrow> group \<Rightarrow> modelObject list \<times> modelRegistry" where
  "listFor table m grp =
     (let aliasEntries = aliasEntriesFor table m grp;
          out = concat (map (list_one table m grp aliasEntries) (known_models m)) @ map snd aliasEntries
      in (sort_key mo_id out,
          fold (\<lambda>mid. if 2 \<le> length (owners_of m mid) then warn_once mid else (\<lambda>r. r)) (known_models m) m))"


definition zero_group :: group where
  "zero_group = Group None None None [] [] [] [] [] [] None None 0"

definition zero_meta :: resolvedModelMeta where
  "zero_meta = \<lparr>rm_ContextTokens = 0, rm_InputCost = 0, rm_OutputCost = 0, rm_ContextKnown = False, rm_CostKnown = False\<rparr>"

definition resolveMetaForAliasName :: "(string \<rightharpoonup> builtinModelMeta) \<Rightarrow> modelRegistry \<Rightarrow> string \<Rightarrow> resolvedModelMeta" where
  "resolveMetaForAliasName table m alias =
     (case map_of (mr_aliases m) alias of
        None \<Rightarrow> zero_meta
      | Some target \<Rightarrow>
          (case resolveAliasTarget m alias target zero_group of
             Inl e \<Rightarrow> zero_meta
           | Inr r \<Rightarrow>
               (case strings_Cut (CHR ''/'') (rs_canonical r) of
                  Some (providerName, bareTarget) \<Rightarrow> resolveMetaForAlias table m alias providerName bareTarget
                | None \<Rightarrow> resolveMetaForAlias table m alias (rs_canonical r) [])))"

text \<open>The JSON encoder is the argument \<open>encode\<close>; an encoding error is \<open>None\<close>.\<close>

definition modelsJSON_fresh :: "(string \<rightharpoonup> builtinModelMeta) \<Rightarrow> (modelObject list \<Rightarrow> string option) \<Rightarrow> group \<Rightarrow> modelRegistry \<Rightarrow> string option \<times> modelRegistry" where
  "modelsJSON_fresh table encode grp m =
     (case listFor table m grp of
        (entries, m1) \<Rightarrow>
          (case encode entries of
             None \<Rightarrow> (None, m1)
           | Some body \<Rightarrow>
               (Some (body @ [CHR 0x0A]),
                m1\<lparr>mr_modelsCache := (mr_modelsCache m1)(modelsCacheKey grp \<mapsto> (mr_modelsGen m, body @ [CHR 0x0A]))\<rparr>)))"

definition modelsJSON :: "(string \<rightharpoonup> builtinModelMeta) \<Rightarrow> (modelObject list \<Rightarrow> string option) \<Rightarrow> group \<Rightarrow> modelRegistry \<Rightarrow> string option \<times> modelRegistry" where
  "modelsJSON table encode grp m =
     (case mr_modelsCache m (modelsCacheKey grp) of
        Some (gen, body) \<Rightarrow> if gen = mr_modelsGen m then (Some body, m) else modelsJSON_fresh table encode grp m
      | None \<Rightarrow> modelsJSON_fresh table encode grp m)"

definition aliasSnapshot :: "modelRegistry \<Rightarrow> (string \<times> string) list" where
  "aliasSnapshot m = map (\<lambda>a. (a, the (map_of (mr_aliases m) a))) (sort (map fst (mr_aliases m)))"

definition registry_snapshot :: "modelRegistry \<Rightarrow> (string \<times> stateSnapshot \<times> bool) list" where
  "registry_snapshot m =
     List.map_filter (\<lambda>n. map_option (\<lambda>st. (n, providerState_snapshot st, st_discoveryEnabled st)) (mr_states m n))
       (mr_providerNames m)"


subsection \<open>Invariant\<close>

definition name_ok :: "string \<Rightarrow> bool" where
  "name_ok n \<longleftrightarrow> CHR ''/'' \<notin> set n"

definition registry_wf :: "modelRegistry \<Rightarrow> bool" where
  "registry_wf m \<longleftrightarrow> distinct (mr_providerNames m) \<and> (\<forall>n\<in>set (mr_providerNames m). name_ok n)
     \<and> (\<forall>n\<in>set (mr_providerNames m). \<exists>st. mr_states m n = Some st \<and> finite (st_explicit st) \<and> finite (st_discovered st))
     \<and> gomap_wf (mr_aliases m)
     \<and> (\<forall>a\<in>fst ` set (mr_aliases m). \<forall>p rest. p \<in> set (mr_providerNames m) \<longrightarrow> a \<noteq> p @ ''/'' @ rest)"

lemma check_alias_prefix:
  assumes "check_alias raw names explicit a = None" and "p \<in> set names" and "name_ok p"
  shows "a \<noteq> p @ ''/'' @ rest"
proof
  assume a: "a = p @ ''/'' @ rest"
  have "strings_Cut (CHR ''/'') a = Some (p, rest)" using assms(3) by (simp add: a strings_Cut_Some name_ok_def)
  with assms(1,2) show False by (auto simp: check_alias_def Let_def split: if_splits)
qed

lemma validated_aliases:
  assumes "validateModelAliases raw names explicit = Inr al" and "gomap_wf raw" and "\<forall>n\<in>set names. name_ok n"
  shows "gomap_wf al \<and> (\<forall>a\<in>fst ` set al. \<forall>p rest. p \<in> set names \<longrightarrow> a \<noteq> p @ ''/'' @ rest)"
proof -
  have none: "\<forall>a\<in>set (map fst raw). check_alias raw names explicit a = None"
    and al: "al = map (\<lambda>a. (a, the (map_of raw a))) (sort (map fst raw))"
    using assms(1) by (auto simp: validateModelAliases_def first_some_None split: option.splits)
  have "map fst al = sort (map fst raw)" by (simp add: al comp_def)
  moreover have "gomap_wf al" using assms(2) by (simp add: al gomap_wf_def comp_def)
  moreover have "a \<noteq> p @ ''/'' @ rest" if "a \<in> fst ` set al" "p \<in> set names" for a p rest
    using that none assms(3) by (intro check_alias_prefix) (auto simp: al)
  ultimately show ?thesis by blast
qed

definition states_finite :: "(string \<rightharpoonup> providerState) \<Rightarrow> bool" where
  "states_finite m \<longleftrightarrow> (\<forall>st\<in>ran m. finite (st_explicit st) \<and> finite (st_discovered st))"

lemma build_states_ok: "build_states cfg br names m0 = Inr m \<Longrightarrow> states_finite m0 \<Longrightarrow> states_finite m \<and> dom m = set names \<union> dom m0"
proof (induction cfg br names m0 rule: build_states.induct)
  case (2 cfg br name names m0)
  from 2(2) obtain d where d: "discovery_interval name (provider_config cfg name) = Inr d"
    and r: "build_states cfg br names (m0(name \<mapsto> new_providerState br (pc_Models (provider_config cfg name)) (pc_Discovery (provider_config cfg name)) d)) = Inr m"
    by (auto simp: bind_sum_Inr)
  have "states_finite (m0(name \<mapsto> new_providerState br ms disc d))" for ms disc
    using 2(3) by (auto simp: states_finite_def ran_def new_providerState_def)
  from 2(1) [OF r this] show ?case by (simp only: dom_fun_upd list.set option.simps if_False) blast
qed simp

lemma newModelRegistry_wf:
  assumes "newModelRegistry adapters cfg = Inr m" and "distinct adapters" and "\<forall>n\<in>set adapters. name_ok n"
    and "gomap_wf (cfg_ModelAliases cfg)"
  shows "registry_wf m"
proof -
  from assms(1) obtain br states aliases explicit where
    st: "build_states cfg br (sort adapters) Map.empty = Inr states"
    and al: "validateModelAliases (cfg_ModelAliases cfg) (sort adapters) explicit = Inr aliases"
    and m: "mr_states m = states" "mr_providerNames m = sort adapters" "mr_aliases m = aliases"
    by (auto simp: newModelRegistry_def Let_def elim!: bind_sum_InrE split: sum.split_asm)
  have "states_finite states \<and> dom states = set adapters"
    using build_states_ok [OF st] by (simp add: states_finite_def)
  moreover have "\<exists>s. states n = Some s \<and> finite (st_explicit s) \<and> finite (st_discovered s)"
    if "n \<in> dom states" "states_finite states" for n
    using that by (auto simp: states_finite_def ran_def)
  ultimately have "\<forall>n\<in>set adapters. \<exists>s. states n = Some s \<and> finite (st_explicit s) \<and> finite (st_discovered s)" by blast
  moreover note validated_aliases [OF al assms(4)]
  ultimately show ?thesis using assms(2,3) by (simp add: registry_wf_def m)
qed

lemma finite_finishRefresh:
  "finite (st_explicit st) \<and> finite (st_discovered st) \<Longrightarrow>
     finite (st_explicit (finishRefresh now ids err st)) \<and> finite (st_discovered (finishRefresh now ids err st))"
  by (simp add: finishRefresh_def recordHealthLocked_def openBreakerLocked_def closeBreakerLocked_def Let_def)

lemma registry_wf_update:
  assumes "registry_wf m" and "mr_states m n = Some st" and "finite (st_explicit st') \<and> finite (st_discovered st')"
  shows "registry_wf (m\<lparr>mr_states := (mr_states m)(n \<mapsto> st')\<rparr>)"
  using assms by (simp add: registry_wf_def)

lemma registry_wf_cong:
  "mr_states m' = mr_states m \<Longrightarrow> mr_providerNames m' = mr_providerNames m \<Longrightarrow> mr_aliases m' = mr_aliases m \<Longrightarrow> registry_wf m' = registry_wf m"
  by (simp add: registry_wf_def)


lemma begin_refreshes_wf: "registry_wf m \<Longrightarrow> registry_wf (snd (begin_refreshes now names m))"
proof (induction now names m rule: begin_refreshes.induct)
  case (2 now name names m)
  show ?case
  proof (cases "mr_states m name")
    case None
    with 2 show ?thesis by simp
  next
    case (Some st)
    obtain b st1 where b: "(if st_discoveryEnabled st then tryBeginRefresh now st else (False, st)) = (b, st1)" by fastforce
    have "st_explicit st1 = st_explicit st \<and> st_discovered st1 = st_discovered st"
      using b by (auto simp: tryBeginRefresh_def Let_def split: if_splits)
    moreover have "b \<longrightarrow> name \<in> set (mr_providerNames m) \<longrightarrow> finite (st_explicit st) \<and> finite (st_discovered st)"
      using 2(4) Some by (auto simp: registry_wf_def)
    ultimately have "registry_wf (m\<lparr>mr_states := (mr_states m)(name \<mapsto> st1)\<rparr>)"
      using 2(4) Some by (auto simp: registry_wf_def)
    with 2(2) [OF Some b [symmetric]] 2(3) [OF Some b [symmetric]] 2(4) Some b show ?thesis
      by (cases b) (auto split: prod.splits)
  qed
qed simp

lemma warn_once_wf [simp]: "registry_wf (warn_once w m) = registry_wf m"
  by (rule registry_wf_cong) (simp_all add: warn_once_def)

lemma resolve_wf: "registry_wf m \<Longrightarrow> registry_wf (snd (resolve m mid grp))"
  by (auto simp: resolve_def split: option.splits)

lemma listFor_wf: "registry_wf m \<Longrightarrow> registry_wf (snd (listFor table m grp))"
proof -
  have "registry_wf (fold (\<lambda>mid. if 2 \<le> length (owners_of m0 mid) then warn_once mid else (\<lambda>r. r)) ids m) = registry_wf m" for ids m0
    by (induction ids arbitrary: m) simp_all
  then show "registry_wf m \<Longrightarrow> ?thesis" by (simp add: listFor_def Let_def)
qed

lemma modelsJSON_wf: "registry_wf m \<Longrightarrow> registry_wf (snd (modelsJSON table encode grp m))"
proof -
  assume m: "registry_wf m"
  have c: "registry_wf (m1\<lparr>mr_modelsCache := x\<rparr>) = registry_wf m1" for m1 x by (rule registry_wf_cong) simp_all
  have "registry_wf (snd (modelsJSON_fresh table encode grp m))"
    using listFor_wf [OF m, of table grp] by (auto simp: modelsJSON_fresh_def c split: prod.splits option.splits)
  with m show ?thesis by (auto simp: modelsJSON_def split: option.splits)
qed

lemma finishRefresh_wf: "registry_wf m \<Longrightarrow> registry_wf (registry_finishRefresh n now ids err m)"
proof (cases "mr_states m n")
  case (Some st)
  assume m: "registry_wf m"
  have "registry_wf (m\<lparr>mr_states := (mr_states m)(n \<mapsto> finishRefresh now ids err st)\<rparr>)"
    using m Some finite_finishRefresh [of st now ids err] by (auto simp: registry_wf_def)
  then show ?thesis by (simp add: registry_finishRefresh_def Some) (simp add: registry_wf_def)
qed (simp add: registry_finishRefresh_def)

text \<open>The registries the gateway can have: built from a configuration with valid provider names, then
  used and refreshed.\<close>

inductive registry_reachable :: "modelRegistry \<Rightarrow> bool" where
  built: "newModelRegistry adapters cfg = Inr m \<Longrightarrow> distinct adapters \<Longrightarrow> \<forall>n\<in>set adapters. name_ok n \<Longrightarrow>
    gomap_wf (cfg_ModelAliases cfg) \<Longrightarrow> registry_reachable m"
| refreshing: "registry_reachable m \<Longrightarrow> registry_reachable (snd (maybeRefresh now ctxDone m))"
| refreshed: "registry_reachable m \<Longrightarrow> registry_reachable (registry_finishRefresh n now ids err m)"
| resolving: "registry_reachable m \<Longrightarrow> registry_reachable (snd (resolve m mid grp))"
| listing: "registry_reachable m \<Longrightarrow> registry_reachable (snd (modelsJSON table encode grp m))"

lemma reachable_registry_wf: "registry_reachable m \<Longrightarrow> registry_wf m"
proof (induction rule: registry_reachable.induct)
  case (refreshing m now ctxDone)
  then show ?case by (simp add: maybeRefresh_def begin_refreshes_wf)
qed (simp_all add: newModelRegistry_wf finishRefresh_wf resolve_wf modelsJSON_wf)


subsection \<open>What resolve returns is known and allowed\<close>

lemma resolveAgainst_Inr:
  "resolveAgainst m p up req extra grp nf = Inr r \<longleftrightarrow> providerHasModel m p up
     \<and> allowsProviderModel grp p ([req, up] @ (if extra \<noteq> [] then [extra] else []))
     \<and> r = \<lparr>rs_provider = p, rs_upstreamModel = up, rs_canonical = p @ ''/'' @ up\<rparr>"
  by (auto simp: resolveAgainst_def Let_def)

lemma allowsProviderModel_mono: "allowsProviderModel grp p ids \<Longrightarrow> set ids \<subseteq> set ids' \<Longrightarrow> allowsProviderModel grp p ids'"
  by (fastforce simp: allowsProviderModel_def any_model_def split: option.splits)

lemma bareEntryWinner_mem: "bareEntryWinner owners grp mid extra = Some w \<Longrightarrow> w \<in> set owners"
  by (auto simp: bareEntryWinner_def split: if_splits dest!: first_some_SomeD)

lemma bareWinner_mem: "bareWinner m mid grp extra = Some w \<Longrightarrow> w \<in> set (owners_of m mid)"
  by (auto simp: bareWinner_def visible_owners_def split: if_splits option.splits dest!: bareEntryWinner_mem)
    (metis filter_is_subset hd_in_set subsetD)+

lemma split_provider: "splitConfiguredProvider m mid = Some (p, rest) \<Longrightarrow> p \<in> set (mr_providerNames m) \<and> mid = p @ ''/'' @ rest"
  by (auto simp: splitConfiguredProvider_def strings_Cut_Some split: option.splits if_splits)

lemma resolveAliasTarget_sound:
  assumes "resolveAliasTarget m alias target grp = Inr r"
  shows "rs_provider r \<in> set (mr_providerNames m) \<and> providerHasModel m (rs_provider r) (rs_upstreamModel r)
    \<and> allowsProviderModel grp (rs_provider r) [target, rs_upstreamModel r, alias]
    \<and> rs_canonical r = rs_provider r @ ''/'' @ rs_upstreamModel r"
proof -
  from assms obtain p up where r: "resolveAgainst m p up target alias grp (AliasTarget alias target) = Inr r"
    and p: "p \<in> set (mr_providerNames m)"
    by (auto simp: resolveAliasTarget_def Let_def owners_of_def split: option.splits dest: split_provider bareWinner_mem)
  then show ?thesis
    by (auto simp: resolveAgainst_Inr split: if_splits elim: allowsProviderModel_mono)
qed

lemma resolve_sound_aux:
  assumes "fst (resolve m mid grp) = Inr r"
  shows "rs_provider r \<in> set (mr_providerNames m) \<and> providerHasModel m (rs_provider r) (rs_upstreamModel r)
    \<and> rs_canonical r = rs_provider r @ ''/'' @ rs_upstreamModel r
    \<and> allowsProviderModel grp (rs_provider r)
        ([mid, rs_upstreamModel r] @ (case map_of (mr_aliases m) mid of Some target \<Rightarrow> [target] | None \<Rightarrow> []))"
proof (cases "map_of (mr_aliases m) mid")
  case (Some target)
  with assms have "resolveAliasTarget m mid target grp = Inr r" by (simp add: resolve_def)
  from resolveAliasTarget_sound [OF this] Some show ?thesis by (auto elim: allowsProviderModel_mono)
next
  case None
  with assms obtain p up where "resolveAgainst m p up mid [] grp ModelUnknown = Inr r" "p \<in> set (mr_providerNames m)"
    by (auto simp: resolve_def owners_of_def split: option.splits if_splits prod.splits dest: split_provider bareWinner_mem)
  with None show ?thesis by (auto simp: resolveAgainst_Inr)
qed

text \<open>C30: Whatever id a caller asks for, a successful resolve names a configured provider that
  knows the upstream model, and the caller's group allows that provider together with the
  requested id, the upstream model or the alias target.\<close>

theorem resolve_sound:
  assumes "fst (resolve m mid grp) = Inr r"
  shows "rs_provider r \<in> set (mr_providerNames m) \<and> providerHasModel m (rs_provider r) (rs_upstreamModel r)
    \<and> rs_canonical r = rs_provider r @ ''/'' @ rs_upstreamModel r
    \<and> allowsProviderModel grp (rs_provider r)
        ([mid, rs_upstreamModel r] @ (case map_of (mr_aliases m) mid of Some target \<Rightarrow> [target] | None \<Rightarrow> []))"
  using assms by (rule resolve_sound_aux)

subsection \<open>The listing agrees with resolve\<close>

lemma finite_models:
  assumes "registry_wf m" and "n \<in> set (mr_providerNames m)"
  shows "(case mr_states m n of Some st \<Rightarrow> set (knownIDs st) | None \<Rightarrow> {}) = {mid. providerHasModel m n mid}"
    and "finite {mid. providerHasModel m n mid}"
proof -
  from assms obtain st where st: "mr_states m n = Some st" "finite (st_explicit st \<union> st_discovered st)"
    by (auto simp: registry_wf_def)
  then show "(case mr_states m n of Some st \<Rightarrow> set (knownIDs st) | None \<Rightarrow> {}) = {mid. providerHasModel m n mid}"
    by (auto simp: providerHasModel_def hasModel_def knownIDs_def knownIDsLocked_def)
  have "{mid. providerHasModel m n mid} = st_explicit st \<union> st_discovered st"
    by (auto simp: providerHasModel_def hasModel_def st)
  with st show "finite {mid. providerHasModel m n mid}" by simp
qed

lemma known_models_iff:
  assumes "registry_wf m" shows "mid \<in> set (known_models m) \<longleftrightarrow> owners_of m mid \<noteq> []"
proof -
  have "(\<Union>n\<in>set (mr_providerNames m). case mr_states m n of Some st \<Rightarrow> set (knownIDs st) | None \<Rightarrow> {})
      = (\<Union>n\<in>set (mr_providerNames m). {mid. providerHasModel m n mid})"
    using finite_models(1) [OF assms] by (intro SUP_cong) auto
  then show ?thesis using finite_models(2) [OF assms] by (auto simp: known_models_def owners_of_def filter_empty_conv)
qed

lemma listed_cases:
  assumes "e \<in> set (fst (listFor table m grp))"
  obtains (bare) mid w where "mo_id e = mid" "mo_owned_by e = w" "visible_owners m grp mid \<noteq> []"
      "bareEntryWinner (visible_owners m grp mid) grp mid [] = Some w" "allowsProviderModel grp w [mid]"
      "map_of (aliasEntriesFor table m grp) mid = None" "splitConfiguredProvider m mid = None" "\<not> mr_requirePrefix m"
  | (prefixed) mid p where "mo_id e = p @ ''/'' @ mid" "mo_owned_by e = p" "p \<in> set (visible_owners m grp mid)"
      "allowsProviderModel grp p [p @ ''/'' @ mid, mid]"
  | (aliased) a where "(a, e) \<in> set (aliasEntriesFor table m grp)"
proof -
  from assms consider mid where "e \<in> set (list_one table m grp (aliasEntriesFor table m grp) mid)"
    | a where "(a, e) \<in> set (aliasEntriesFor table m grp)"
    by (auto simp: listFor_def Let_def)
  then show thesis
  proof cases
    case (1 mid)
    show thesis
    proof (cases "\<exists>p. e = modelObject_of (p @ ''/'' @ mid) p (resolveMetaFor table m p mid) \<and> p \<in> set (visible_owners m grp mid)
        \<and> allowsProviderModel grp p [p @ ''/'' @ mid, mid]")
      case True
      then show thesis by (auto intro: prefixed simp: modelObject_of_def)
    next
      case False
      with 1 obtain w where "bareEntryWinner (visible_owners m grp mid) grp mid [] = Some w" "allowsProviderModel grp w [mid]"
        "map_of (aliasEntriesFor table m grp) mid = None" "splitConfiguredProvider m mid = None" "\<not> mr_requirePrefix m"
        "visible_owners m grp mid \<noteq> []" "e = modelObject_of mid w (resolveMetaFor table m w mid)"
        by (cases "bareEntryWinner (visible_owners m grp mid) grp mid []")
          (auto simp: list_one_def Let_def simp del: not_None_eq not_Some_eq split: if_splits)
      then show thesis by (auto intro: bare simp: modelObject_of_def)
    qed
  next
    case (2 a)
    then show thesis by (rule aliased)
  qed
qed

lemma alias_entries_mem:
  assumes "registry_wf m" and "(a, e) \<in> set (aliasEntriesFor table m grp)"
  shows "\<exists>target r. map_of (mr_aliases m) a = Some target \<and> resolveAliasTarget m a target grp = Inr r
    \<and> mo_id e = a \<and> mo_owned_by e = rs_provider r"
proof -
  from assms(2) obtain x where x: "x \<in> set (mr_aliases m)" "alias_entry table m grp x = Some (a, e)"
    by (auto simp: aliasEntriesFor_def List.map_filter_def)
  obtain al target where xx: "x = (al, target)" by fastforce
  from x(2) obtain r where r: "resolveAliasTarget m al target grp = Inr r"
    by (auto simp: xx alias_entry_def split: sum.splits)
  note snd = resolveAliasTarget_sound [OF r]
  have "name_ok (rs_provider r)" using snd assms(1) by (auto simp: registry_wf_def)
  then have "strings_Cut (CHR ''/'') (rs_canonical r) = Some (rs_provider r, rs_upstreamModel r)"
    using snd by (simp add: strings_Cut_Some name_ok_def)
  with x(2) r have "al = a" "mo_id e = a" "mo_owned_by e = rs_provider r"
    by (auto simp: xx alias_entry_def modelObject_of_def)
  moreover have "map_of (mr_aliases m) al = Some target"
    using x(1) assms(1) by (simp add: xx registry_wf_def gomap_wf_def)
  ultimately show ?thesis using r by blast
qed

lemma visible_mem: "w \<in> set (visible_owners m grp mid) \<longleftrightarrow> w \<in> set (mr_providerNames m) \<and> providerHasModel m w mid \<and> allowsProvider grp w"
  by (auto simp: visible_owners_def owners_of_def)

lemma listed_resolves:
  assumes wf: "registry_wf m" and e: "e \<in> set (fst (listFor table m grp))"
    and al: "map_of (mr_aliases m) (mo_id e) = None \<or> map_of (aliasEntriesFor table m grp) (mo_id e) \<noteq> None"
  shows "\<exists>r. fst (resolve m (mo_id e) grp) = Inr r \<and> rs_provider r = mo_owned_by e"
  using e
proof (cases rule: listed_cases)
  case (bare mid w)
  have "owners_of m mid \<noteq> []" using bare(3) by (auto simp: visible_owners_def)
  then have "bareWinner m mid grp [] = Some w" using bare(3,4) by (simp add: bareWinner_def)
  moreover have "providerHasModel m w mid" using bareEntryWinner_mem [OF bare(4)] by (simp add: visible_mem)
  moreover have "map_of (mr_aliases m) mid = None" using al bare(1,6) by auto
  ultimately show ?thesis using bare
    by (auto simp: resolve_def resolveAgainst_Inr elim: allowsProviderModel_mono)
next
  case (prefixed mid p)
  have p: "p \<in> set (mr_providerNames m)" "providerHasModel m p mid" using prefixed(3) by (simp_all add: visible_mem)
  have "p @ ''/'' @ mid \<notin> fst ` set (mr_aliases m)" using wf p(1) unfolding registry_wf_def by blast
  then have "map_of (mr_aliases m) (p @ ''/'' @ mid) = None" by (simp add: map_of_eq_None_iff)
  moreover have "splitConfiguredProvider m (p @ ''/'' @ mid) = Some (p, mid)"
  proof -
    have "strings_Cut (CHR ''/'') (p @ ''/'' @ mid) = Some (p, mid)"
      using wf p(1) by (auto simp: strings_Cut_Some registry_wf_def name_ok_def)
    with p(1) show ?thesis by (simp add: splitConfiguredProvider_def)
  qed
  ultimately show ?thesis using p(2) prefixed(1,2,4) by (simp add: resolve_def resolveAgainst_Inr)
next
  case (aliased a)
  from alias_entries_mem [OF wf aliased] show ?thesis by (auto simp: resolve_def)
qed

text \<open>C32: Every id in a group's model listing, bare, prefixed or alias, resolves for that group
  to the listed owner, unless the id is also an alias the group cannot use.\<close>

theorem listed_models_resolve:
  assumes "registry_reachable m" and "e \<in> set (fst (listFor table m grp))"
    and "map_of (mr_aliases m) (mo_id e) = None \<or> map_of (aliasEntriesFor table m grp) (mo_id e) \<noteq> None"
  shows "\<exists>r. fst (resolve m (mo_id e) grp) = Inr r \<and> rs_provider r = mo_owned_by e"
  using listed_resolves [OF reachable_registry_wf [OF assms(1)] assms(2,3)] .


text \<open>For bare ids the agreement is exact.\<close>

lemma resolved_bare_listed:
  assumes wf: "registry_wf m" and grp: "access_group grp" and bare: "map_of (mr_aliases m) mid = None" "splitConfiguredProvider m mid = None"
    and r: "fst (resolve m mid grp) = Inr r"
  shows "\<exists>e\<in>set (fst (listFor table m grp)). mo_id e = mid \<and> mo_owned_by e = rs_provider r"
proof -
  from r bare obtain w where np: "\<not> mr_requirePrefix m" and bw: "bareWinner m mid grp [] = Some w"
    and ra: "resolveAgainst m w mid mid [] grp ModelUnknown = Inr r"
    by (auto simp: resolve_def split: option.splits if_splits)
  from ra have ok: "allowsProviderModel grp w [mid]" and w: "rs_provider r = w"
    by (auto simp: resolveAgainst_Inr elim: allowsProviderModel_mono)
  have "w \<in> set (visible_owners m grp mid)"
    using bareWinner_mem [OF bw] access_group_provider [OF grp ok] by (simp add: visible_owners_def)
  then have vis: "visible_owners m grp mid \<noteq> []" by auto
  have bew: "bareEntryWinner (visible_owners m grp mid) grp mid [] = Some w"
  proof (cases "bareEntryWinner (visible_owners m grp mid) grp mid []")
    case None
    then have "\<forall>x\<in>set (visible_owners m grp mid). \<not> allowsProviderModel grp x [mid]"
      using vis by (auto simp: bareEntryWinner_def first_some_None split: if_splits)
    moreover have "w = hd (visible_owners m grp mid)" using bw None vis by (simp add: bareWinner_def split: if_splits)
    ultimately show ?thesis using ok hd_in_set [OF vis] by blast
  next
    case (Some x)
    with bw vis show ?thesis by (simp add: bareWinner_def split: if_splits)
  qed
  have "mid \<notin> fst ` set (aliasEntriesFor table m grp)"
    using alias_entries_mem [OF wf] bare(1) by fastforce
  then have sh: "map_of (aliasEntriesFor table m grp) mid = None" by (simp add: map_of_eq_None_iff)
  have "mid \<in> set (known_models m)" using vis by (auto simp: known_models_iff [OF wf] visible_owners_def)
  moreover have "modelObject_of mid w (resolveMetaFor table m w mid) \<in> set (list_one table m grp (aliasEntriesFor table m grp) mid)"
    using vis bew ok sh bare(2) np by (simp add: list_one_def Let_def)
  ultimately have "modelObject_of mid w (resolveMetaFor table m w mid) \<in> set (fst (listFor table m grp))"
    by (auto simp: listFor_def Let_def)
  then show ?thesis using w by (auto simp: modelObject_of_def intro!: bexI)
qed

theorem bare_listing_is_resolve:
  assumes "registry_reachable m" and "access_group grp"
    and "map_of (mr_aliases m) mid = None" and "splitConfiguredProvider m mid = None"
  shows "(\<exists>e\<in>set (fst (listFor table m grp)). mo_id e = mid \<and> mo_owned_by e = p)
    \<longleftrightarrow> (\<exists>r. fst (resolve m mid grp) = Inr r \<and> rs_provider r = p)"
proof
  assume "\<exists>e\<in>set (fst (listFor table m grp)). mo_id e = mid \<and> mo_owned_by e = p"
  then obtain e where e: "e \<in> set (fst (listFor table m grp))" "mo_id e = mid" "mo_owned_by e = p" by blast
  from listed_resolves [OF reachable_registry_wf [OF assms(1)] e(1)] assms(3) e(2,3)
  show "\<exists>r. fst (resolve m mid grp) = Inr r \<and> rs_provider r = p" by simp
next
  assume "\<exists>r. fst (resolve m mid grp) = Inr r \<and> rs_provider r = p"
  then show "\<exists>e\<in>set (fst (listFor table m grp)). mo_id e = mid \<and> mo_owned_by e = p"
    using resolved_bare_listed [OF reachable_registry_wf [OF assms(1)] assms(2-4)] by blast
qed

subsection \<open>A concrete registry\<close>

definition sample_config :: RegistryConfig where
  "sample_config = \<lparr>cfg_Breaker = \<lparr>bc_FailureThreshold = 0, bc_OpenDuration = [], bc_MaxOpenDuration = []\<rparr>,
     cfg_Providers = [''local'' \<mapsto> \<lparr>pc_DiscoveryInterval = [], pc_Models = [''llama''], pc_Discovery = True\<rparr>,
                      ''openai'' \<mapsto> \<lparr>pc_DiscoveryInterval = [], pc_Models = [''gpt''], pc_Discovery = False\<rparr>],
     cfg_ModelAliases = [(''fast'', ''openai/gpt'')], cfg_RequireModelPrefix = False, cfg_ModelMeta = []\<rparr>"

definition sample_breaker :: breakerConfig where
  "sample_breaker = \<lparr>failureThreshold = 3, openBase = minute, openMax = 6 * hour\<rparr>"

definition sample_registry :: modelRegistry where
  "sample_registry = \<lparr>mr_states = [''local'' \<mapsto> new_providerState sample_breaker [''llama''] True hour,
       ''openai'' \<mapsto> new_providerState sample_breaker [''gpt''] False hour],
     mr_providerNames = [''local'', ''openai''], mr_aliases = [(''fast'', ''openai/gpt'')], mr_modelMeta = Map.empty,
     mr_requirePrefix = False, mr_warned = [], mr_modelsGen = 0, mr_modelsCache = Map.empty\<rparr>"

text \<open>After the provider \<open>local\<close> has discovered models named \<open>llama\<close> and \<open>fast\<close>.\<close>

definition sample_refreshed :: modelRegistry where
  "sample_refreshed = registry_finishRefresh ''local'' 0 [''llama'', ''fast''] None sample_registry"

lemma sample_registry_built: "newModelRegistry [''openai'', ''local''] sample_config = Inr sample_registry"
proof -
  have b: "validateBreakerConfig \<lparr>bc_FailureThreshold = 0, bc_OpenDuration = [], bc_MaxOpenDuration = []\<rparr> = Inr sample_breaker"
    by (simp add: validateBreakerConfig_def parse_open_def parse_max_open_def maxBreakerFailureThreshold_def
        defaultBreakerFailureThreshold_def sample_breaker_def dur_defs)
  have s: "sort [''openai'', ''local''] = [''local'', ''openai'']" by code_simp
  have a: "check_alias [(''fast'', ''openai/gpt'')] [''local'', ''openai''] {''gpt'', ''llama''} ''fast'' = None"
    by code_simp
  have "insert ''llama'' {''gpt''} = {''gpt'', ''llama''}" by auto
  with a s b show ?thesis
    by (simp add: newModelRegistry_def sample_config_def Let_def provider_config_def discovery_interval_def
        validateModelAliases_def validateModelMeta_def sample_registry_def dur_defs insert_commute)
qed


lemma sample_reachable: "registry_reachable sample_refreshed"
proof -
  have "registry_reachable sample_registry"
    by (rule registry_reachable.built [OF sample_registry_built]) (simp_all add: name_ok_def sample_config_def gomap_wf_def)
  then show ?thesis unfolding sample_refreshed_def by (rule registry_reachable.refreshed)
qed

lemma sample_hasModel:
  "providerHasModel sample_refreshed n mid \<longleftrightarrow>
     n = ''local'' \<and> mid \<in> {''llama'', ''fast''} \<or> n = ''openai'' \<and> mid = ''gpt''"
  by (auto simp: providerHasModel_def sample_refreshed_def registry_finishRefresh_def sample_registry_def hasModel_def
      finishRefresh_def recordHealthLocked_def closeBreakerLocked_def new_providerState_def matchesSentinel_def Let_def)

lemma sample_fields [simp]:
  "mr_providerNames sample_refreshed = [''local'', ''openai'']" "mr_aliases sample_refreshed = [(''fast'', ''openai/gpt'')]"
  "mr_requirePrefix sample_refreshed = False"
  by (simp_all add: sample_refreshed_def registry_finishRefresh_def sample_registry_def)

definition local_only :: group where "local_only = sample_group ''locals'' [''local''] []"

lemma local_only_allows [simp]: "allowsProvider local_only p \<longleftrightarrow> p = ''local''"
  "allowsProviderModel local_only p ids \<longleftrightarrow> p = ''local'' \<and> ids \<noteq> []" "grantCount local_only = 1"
  by (auto simp: local_only_def sample_group_def allowsProvider_def allowsProviderModel_def any_model_def grantCount_def
      matchesGlob_literal glob_meta_def ex_in_conv)

lemma local_only_access: "access_group local_only"
  by (simp add: access_group_def plain_group_def local_only_def sample_group_def)

lemma sample_owners: "owners_of sample_refreshed mid = (if mid \<in> {''llama'', ''fast''} then [''local''] else if mid = ''gpt'' then [''openai''] else [])"
  by (auto simp: owners_of_def sample_hasModel)

lemma sample_visible: "visible_owners sample_refreshed local_only mid = (if mid \<in> {''llama'', ''fast''} then [''local''] else [])"
  by (auto simp: visible_owners_def sample_owners)

lemma sample_split [simp]:
  "splitConfiguredProvider sample_refreshed ''llama'' = None" "splitConfiguredProvider sample_refreshed ''fast'' = None"
  "splitConfiguredProvider sample_refreshed ''openai/gpt'' = Some (''openai'', ''gpt'')"
  by (simp_all add: splitConfiguredProvider_def)

lemma sample_resolve_llama: "fst (resolve sample_refreshed ''llama'' local_only)
    = Inr \<lparr>rs_provider = ''local'', rs_upstreamModel = ''llama'', rs_canonical = ''local/llama''\<rparr>"
  by (simp add: resolve_def bareWinner_def bareEntryWinner_def sample_owners sample_visible resolveAgainst_def sample_hasModel)

lemma sample_resolve_fast: "fst (resolve sample_refreshed ''fast'' local_only) = Inl ModelDenied"
  by (simp add: resolve_def resolveAliasTarget_def resolveAgainst_def sample_hasModel)

lemma sample_alias_entries: "aliasEntriesFor table sample_refreshed local_only = []"
  by (simp add: aliasEntriesFor_def List.map_filter_def alias_entry_def resolveAliasTarget_def resolveAgainst_def sample_hasModel)

lemma sample_list_one:
  "mid \<in> {''llama'', ''fast''} \<Longrightarrow> list_one table sample_refreshed local_only [] mid
     = [modelObject_of mid ''local'' (resolveMetaFor table sample_refreshed ''local'' mid)]"
  by (auto simp: list_one_def sample_visible bareEntryWinner_def)

lemma sample_listed:
  assumes "mid \<in> {''llama'', ''fast''}"
  shows "modelObject_of mid ''local'' (resolveMetaFor table sample_refreshed ''local'' mid) \<in> set (fst (listFor table sample_refreshed local_only))"
proof -
  have "mid \<in> set (known_models sample_refreshed)"
    using assms by (simp add: known_models_iff [OF reachable_registry_wf [OF sample_reachable]] sample_owners)
  then show ?thesis using sample_list_one [OF assms, of table]
    by (auto simp: listFor_def Let_def sample_alias_entries intro!: bexI [of _ mid])
qed

theorem resolve_sound_witness: "allowsProviderModel local_only ''local'' [''llama'', ''llama'']"
  using resolve_sound [OF sample_resolve_llama] by simp

theorem listed_models_resolve_witness:
  "\<exists>r. fst (resolve sample_refreshed ''llama'' local_only) = Inr r \<and> rs_provider r = ''local''"
  using listed_models_resolve [OF sample_reachable sample_listed [of "''llama''" Map.empty]]
  by (simp add: modelObject_of_def)

theorem bare_listing_is_resolve_witness:
  "\<exists>e\<in>set (fst (listFor Map.empty sample_refreshed local_only)). mo_id e = ''llama'' \<and> mo_owned_by e = ''local''"
  using bare_listing_is_resolve [OF sample_reachable local_only_access, of "''llama''" Map.empty "''local''"]
  by (simp add: sample_resolve_llama)

text \<open>The one case in which listing and resolving part: the id is also an alias whose target the group
  may not use.  The listing then offers the discovered model under its bare id, and every request for
  that id is denied.\<close>

theorem unusable_alias_listed_but_denied:
  "registry_reachable sample_refreshed
   \<and> (\<exists>e\<in>set (fst (listFor table sample_refreshed local_only)). mo_id e = ''fast'' \<and> mo_owned_by e = ''local'')
   \<and> fst (resolve sample_refreshed ''fast'' local_only) = Inl ModelDenied"
  using sample_listed [of "''fast''" table] sample_reachable sample_resolve_fast
  by (auto simp: modelObject_of_def intro!: bexI)

end
