(* ===== verification/Failover.thy ===== *)
theory Failover
  imports Registry
begin

text \<open>
  Failover between providers (failover.go): the candidates for a request, their order, the cost
  guard, the cap, and which errors make the gateway move on.  Health comes from the request breaker
  and the discovery breaker of the theory Breakers, access from GroupAccess, prices from Pricing.
\<close>

subsection \<open>Configuration\<close>

definition defaultFailoverMaxAttempts :: int where "defaultFailoverMaxAttempts = 3"
definition maxFailoverMaxAttempts :: int where "maxFailoverMaxAttempts = 10"

record FailoverConfig =
  fc_Enabled :: "bool option"
  fc_MaxAttempts :: int

record failoverConfig =
  fo_maxAttempts :: int
  fo_enabled :: bool

datatype failoverError = MaxAttemptsOutOfRange int

definition validateFailoverConfig :: "FailoverConfig \<Rightarrow> failoverError + failoverConfig" where
  "validateFailoverConfig fc =
     (let enabled = (case fc_Enabled fc of Some b \<Rightarrow> b | None \<Rightarrow> False);
          maxAttempts = (if fc_MaxAttempts fc = 0 then defaultFailoverMaxAttempts else fc_MaxAttempts fc)
      in if maxAttempts < 1 \<or> maxFailoverMaxAttempts < maxAttempts then Inl (MaxAttemptsOutOfRange maxAttempts)
         else Inr \<lparr>fo_maxAttempts = maxAttempts, fo_enabled = enabled\<rparr>)"

subsection \<open>Candidates\<close>

text \<open>A candidate carries its adapter, which is determined by the provider's name.\<close>

type_synonym resolveCandidate = resolved

definition failoverCandidates :: "modelRegistry \<Rightarrow> string \<Rightarrow> string \<Rightarrow> string \<Rightarrow> group \<Rightarrow> resolveCandidate list" where
  "failoverCandidates m bareID extraID primaryProvider grp =
     (let multiGrant = (1 < grantCount grp);
          usable = (\<lambda>name. name \<noteq> primaryProvider \<and> providerHasModel m name bareID
            \<and> (if multiGrant
               then allowsProviderModel grp name ([bareID, name @ ''/'' @ bareID] @ (if extraID \<noteq> [] then [extraID] else []))
               else allowsProvider grp name))
      in map (\<lambda>name. \<lparr>rs_provider = name, rs_upstreamModel = bareID, rs_canonical = name @ ''/'' @ bareID\<rparr>)
           (filter usable (mr_providerNames m)))"

definition resolveWithCandidates :: "modelRegistry \<Rightarrow> string \<Rightarrow> group \<Rightarrow>
    (resolveError + resolveCandidate \<times> resolveCandidate list) \<times> modelRegistry" where
  "resolveWithCandidates m mid grp =
     (case resolve m mid grp of
        (Inl e, m1) \<Rightarrow> (Inl e, m1)
      | (Inr primary, m1) \<Rightarrow>
          (case map_of (mr_aliases m) mid of
             Some target \<Rightarrow>
               if splitConfiguredProvider m target \<noteq> None then (Inr (primary, []), m1)
               else (Inr (primary, failoverCandidates m target mid (rs_provider primary) grp), m1)
           | None \<Rightarrow>
               if splitConfiguredProvider m mid \<noteq> None then (Inr (primary, []), m1)
               else (Inr (primary, failoverCandidates m mid [] (rs_provider primary) grp), m1)))"

definition resolvePrimaryOnly :: "modelRegistry \<Rightarrow> string \<Rightarrow> group \<Rightarrow> (resolveError + resolveCandidate) \<times> modelRegistry" where
  "resolvePrimaryOnly m mid grp = resolve m mid grp"

subsection \<open>Order, cost guard and cap\<close>

fun filter_healthy :: "gtime \<Rightarrow> resolveCandidate list \<Rightarrow> requestHealthTracker option \<Rightarrow> resolveCandidate list \<times> requestHealthTracker option" where
  "filter_healthy now [] tr = ([], tr)"
| "filter_healthy now (c # cs) tr =
     (case tracker_healthy now (rs_provider c) tr of
        (h, tr1) \<Rightarrow> (case filter_healthy now cs tr1 of (out, tr2) \<Rightarrow> (if h then c # out else out, tr2)))"

definition orderedFailoverCandidates :: "failoverConfig \<Rightarrow> gtime \<Rightarrow> modelRegistry \<Rightarrow> requestHealthTracker option \<Rightarrow>
    resolveCandidate \<Rightarrow> resolveCandidate list \<Rightarrow> resolveCandidate list \<times> requestHealthTracker option" where
  "orderedFailoverCandidates fo now m tr primary extra =
     (if \<not> fo_enabled fo \<or> extra = [] then ([primary], tr)
      else (case filter_healthy now (primary # extra) tr of
              (healthy0, tr1) \<Rightarrow>
                let healthy = (if healthy0 = [] then primary # extra else healthy0)
                in (filter (\<lambda>c. registry_discoveryHealthy m (rs_provider c)) healthy
                    @ filter (\<lambda>c. \<not> registry_discoveryHealthy m (rs_provider c)) healthy, tr1)))"

definition resolveUnifiedPricing :: "(string \<rightharpoonup> builtinModelMeta) \<Rightarrow> string \<Rightarrow> string \<Rightarrow> (string \<rightharpoonup> ModelPricing option) \<Rightarrow> ModelPricing option" where
  "resolveUnifiedPricing table canonical bare overrides =
     (case lookupPricing table canonical overrides of Some p \<Rightarrow> Some p | None \<Rightarrow> lookupPricing table bare overrides)"

fun float_le :: "float64 \<Rightarrow> float64 \<Rightarrow> bool" where
  "float_le (Fin x) (Fin y) = (x \<le> y)"
| "float_le NInf NInf = True"
| "float_le PInf PInf = True"
| "float_le x y = float_less x y"

definition candidateCostAllowed :: "ModelPricing option \<Rightarrow> ModelPricing option \<Rightarrow> bool" where
  "candidateCostAllowed primary candidate =
     (case (primary, candidate) of
        (Some p, Some c) \<Rightarrow> float_le (InputPerM c) (InputPerM p) \<and> float_le (OutputPerM c) (OutputPerM p)
      | (Some p, None) \<Rightarrow> False
      | (None, Some c) \<Rightarrow> InputPerM c = Fin 0 \<and> OutputPerM c = Fin 0
      | (None, None) \<Rightarrow> True)"

definition candidate_price :: "(string \<rightharpoonup> builtinModelMeta) \<Rightarrow> (string \<rightharpoonup> ModelPricing option) \<Rightarrow> resolveCandidate \<Rightarrow> ModelPricing option" where
  "candidate_price table overrides c = resolveUnifiedPricing table (rs_canonical c) (rs_upstreamModel c) overrides"

text \<open>The second component lists the candidates that were skipped, each with a warning.\<close>

definition filterCandidatesByCost :: "(string \<rightharpoonup> builtinModelMeta) \<Rightarrow> (string \<rightharpoonup> ModelPricing option) \<Rightarrow> resolveCandidate list \<Rightarrow>
    resolveCandidate list \<times> resolveCandidate list" where
  "filterCandidatesByCost table overrides candidates =
     (case candidates of
        primary # cand # rest \<Rightarrow>
          let ok = (\<lambda>c. candidateCostAllowed (candidate_price table overrides primary) (candidate_price table overrides c))
          in (primary # filter ok (cand # rest), filter (\<lambda>c. \<not> ok c) (cand # rest))
      | _ \<Rightarrow> (candidates, []))"

definition capFailoverCandidates :: "resolveCandidate list \<Rightarrow> int \<Rightarrow> resolveCandidate list" where
  "capFailoverCandidates candidates mx = (if 0 < mx \<and> mx < int (length candidates) then take (nat mx) candidates else candidates)"

subsection \<open>Which errors fail over\<close>

definition failoverEligible :: "go_error option \<Rightarrow> bool" where
  "failoverEligible callErr =
     (case callErr of
        None \<Rightarrow> False
      | Some e \<Rightarrow>
          if errors_Is Canceled e \<or> errors_Is RequestBuildFailed e then False
          else (case e of
                  ProviderHTTPError status \<Rightarrow> status \<noteq> 400
                | TranslateError _ _ \<Rightarrow> False
                | ResponseTranslationError _ \<Rightarrow> False
                | _ \<Rightarrow> True))"

text \<open>\<open>(success, record)\<close>.\<close>

definition requestHealthOutcome :: "go_error option \<Rightarrow> bool \<times> bool" where
  "requestHealthOutcome callErr =
     (case callErr of
        None \<Rightarrow> (True, True)
      | Some e \<Rightarrow>
          if errors_Is Canceled e \<or> errors_Is RequestBuildFailed e then (False, False)
          else (case e of
                  TranslateError _ _ \<Rightarrow> (False, False)
                | ResponseTranslationError _ \<Rightarrow> (False, False)
                | _ \<Rightarrow> (\<not> failoverEligible callErr, True)))"

definition isProviderNotFoundError :: "go_error option \<Rightarrow> bool" where
  "isProviderNotFoundError err \<longleftrightarrow> (case err of Some (ProviderHTTPError status) \<Rightarrow> status = 404 | _ \<Rightarrow> False)"

text \<open>The candidate list of a request, as \<open>runMeteredCall\<close> (routes_unified.go) composes it.\<close>

definition request_candidates :: "failoverConfig \<Rightarrow> (string \<rightharpoonup> builtinModelMeta) \<Rightarrow> (string \<rightharpoonup> ModelPricing option) \<Rightarrow> gtime \<Rightarrow>
    string \<Rightarrow> group \<Rightarrow> modelRegistry \<Rightarrow> requestHealthTracker option \<Rightarrow> resolveError + resolveCandidate list" where
  "request_candidates fo table overrides now mid grp m tr =
     bind_sum (if fo_enabled fo then fst (resolveWithCandidates m mid grp)
               else bind_sum (fst (resolvePrimaryOnly m mid grp)) (\<lambda>p. Inr (p, [])))
       (\<lambda>(primary, extra).
          Inr (capFailoverCandidates
                 (fst (filterCandidatesByCost table overrides (fst (orderedFailoverCandidates fo now m tr primary extra))))
                 (fo_maxAttempts fo)))"

subsection \<open>Every candidate is authorised\<close>

lemma single_grant_model:
  assumes "access_group grp" and "\<not> 1 < grantCount grp" and "allowsProviderModel grp p ids" and "allowsProvider grp q"
  shows "allowsProviderModel grp q ids"
  using access_group_single_grant [of grp] assms by (simp add: allowsProviderModel_def allowsProvider_def)

lemma failoverCandidates_mem:
  assumes "c \<in> set (failoverCandidates m bare extra pp grp)" and "access_group grp"
    and "allowsProviderModel grp pp ([bare] @ (if extra \<noteq> [] then [extra] else []))"
  shows "rs_provider c \<in> set (mr_providerNames m) \<and> rs_provider c \<noteq> pp \<and> rs_upstreamModel c = bare
    \<and> rs_canonical c = rs_provider c @ ''/'' @ bare \<and> providerHasModel m (rs_provider c) bare
    \<and> allowsProviderModel grp (rs_provider c) ([bare, rs_canonical c] @ (if extra \<noteq> [] then [extra] else []))"
proof -
  from assms(1) have c: "rs_provider c \<in> set (mr_providerNames m)" "rs_provider c \<noteq> pp" "rs_upstreamModel c = bare"
    "rs_canonical c = rs_provider c @ ''/'' @ bare" "providerHasModel m (rs_provider c) bare"
    and ok: "if 1 < grantCount grp
       then allowsProviderModel grp (rs_provider c) ([bare, rs_provider c @ ''/'' @ bare] @ (if extra \<noteq> [] then [extra] else []))
       else allowsProvider grp (rs_provider c)"
    by (auto simp: failoverCandidates_def Let_def)
  show ?thesis
  proof (cases "1 < grantCount grp")
    case False
    with ok single_grant_model [OF assms(2) False assms(3)] have
      "allowsProviderModel grp (rs_provider c) ([bare] @ (if extra \<noteq> [] then [extra] else []))" by simp
    then have "allowsProviderModel grp (rs_provider c) ([bare, rs_canonical c] @ (if extra \<noteq> [] then [extra] else []))"
      by (rule allowsProviderModel_mono) auto
    with c show ?thesis by blast
  qed (use c ok in simp)
qed

definition requestable :: "modelRegistry \<Rightarrow> group \<Rightarrow> string \<Rightarrow> resolveCandidate \<Rightarrow> bool" where
  "requestable m grp mid c \<longleftrightarrow> rs_provider c \<in> set (mr_providerNames m) \<and> providerHasModel m (rs_provider c) (rs_upstreamModel c)
     \<and> rs_canonical c = rs_provider c @ ''/'' @ rs_upstreamModel c
     \<and> allowsProviderModel grp (rs_provider c)
         ([mid, rs_upstreamModel c, rs_canonical c] @ (case map_of (mr_aliases m) mid of Some target \<Rightarrow> [target] | None \<Rightarrow> []))"

lemma resolved_requestable: "fst (resolve m mid grp) = Inr r \<Longrightarrow> requestable m grp mid r"
  using resolve_sound_aux [of m mid grp r] by (auto simp: requestable_def elim: allowsProviderModel_mono)


lemma resolved_bare:
  assumes "fst (resolve m mid grp) = Inr r"
  shows "map_of (mr_aliases m) mid = Some target \<Longrightarrow> splitConfiguredProvider m target = None \<Longrightarrow>
      allowsProviderModel grp (rs_provider r) ([target] @ (if mid \<noteq> [] then [mid] else []))"
    and "map_of (mr_aliases m) mid = None \<Longrightarrow> splitConfiguredProvider m mid = None \<Longrightarrow>
      allowsProviderModel grp (rs_provider r) [mid]"
  using assms
  by (auto simp: resolve_def resolveAliasTarget_def Let_def resolveAgainst_Inr split: option.splits if_splits
      elim!: allowsProviderModel_mono)

lemma candidate_requestable:
  assumes "fst (resolveWithCandidates m mid grp) = Inr (primary, extra)" and "access_group grp"
  shows "requestable m grp mid primary" and "c \<in> set extra \<Longrightarrow> requestable m grp mid c \<and> rs_provider c \<noteq> rs_provider primary"
    and "distinct (mr_providerNames m) \<Longrightarrow> distinct (map rs_provider (primary # extra))"
proof -
  obtain res m1 where res: "resolve m mid grp = (res, m1)" by fastforce
  from assms(1) have r: "fst (resolve m mid grp) = Inr primary"
    by (auto simp: resolveWithCandidates_def res split: sum.splits option.splits if_splits)
  show "requestable m grp mid primary" using r by (rule resolved_requestable)
  from assms(1) res r consider "extra = []"
    | target where "map_of (mr_aliases m) mid = Some target" "splitConfiguredProvider m target = None"
        "extra = failoverCandidates m target mid (rs_provider primary) grp"
    | "map_of (mr_aliases m) mid = None" "splitConfiguredProvider m mid = None"
        "extra = failoverCandidates m mid [] (rs_provider primary) grp"
    by (auto simp: resolveWithCandidates_def simp del: not_None_eq not_Some_eq split: option.splits if_splits)
  note cases3 = this
  show "requestable m grp mid c \<and> rs_provider c \<noteq> rs_provider primary" if "c \<in> set extra"
    using cases3
  proof cases
    case (2 target)
    from failoverCandidates_mem [OF that [unfolded 2(3)] assms(2) resolved_bare(1) [OF r 2(1,2)]]
    have c: "rs_provider c \<in> set (mr_providerNames m)" "rs_provider c \<noteq> rs_provider primary" "rs_upstreamModel c = target"
      "rs_canonical c = rs_provider c @ ''/'' @ target" "providerHasModel m (rs_provider c) target"
      "allowsProviderModel grp (rs_provider c) ([target, rs_canonical c] @ (if mid \<noteq> [] then [mid] else []))" by blast+
    from c(6) have "allowsProviderModel grp (rs_provider c) ([mid, rs_upstreamModel c, rs_canonical c] @ [target])"
      by (rule allowsProviderModel_mono) auto
    with c 2(1) show ?thesis by (simp add: requestable_def)
  next
    case 3
    have "allowsProviderModel grp (rs_provider primary) ([mid] @ (if ([] :: string) \<noteq> [] then [[]] else []))"
      using resolved_bare(2) [OF r 3(1,2)] by simp
    note mem = failoverCandidates_mem [OF that [unfolded 3(3)] assms(2) this]
    then
    have c: "rs_provider c \<in> set (mr_providerNames m)" "rs_provider c \<noteq> rs_provider primary" "rs_upstreamModel c = mid"
      "rs_canonical c = rs_provider c @ ''/'' @ mid" "providerHasModel m (rs_provider c) mid"
      "allowsProviderModel grp (rs_provider c) ([mid, rs_canonical c] @ (if ([] :: string) \<noteq> [] then [[]] else []))" by blast+
    from c(6) have "allowsProviderModel grp (rs_provider c) [mid, rs_upstreamModel c, rs_canonical c]"
      by (rule allowsProviderModel_mono) (simp split: if_splits)
    with c 3(1) show ?thesis by (simp add: requestable_def)
  qed (use that in simp)
  have d: "distinct (map rs_provider (failoverCandidates m b x pp grp)) \<and> pp \<notin> set (map rs_provider (failoverCandidates m b x pp grp))"
    if "distinct (mr_providerNames m)" for b x pp using that by (simp add: failoverCandidates_def Let_def comp_def)
  show "distinct (map rs_provider (primary # extra))" if "distinct (mr_providerNames m)"
    using cases3 d [OF that] by cases (simp_all only: list.map distinct.simps list.set list.simps, auto)
qed

subsection \<open>Order, cost and number of candidates\<close>

lemma tracker_healthy_stable: "fst (tracker_healthy now p (snd (tracker_healthy now q tr))) = fst (tracker_healthy now p tr)"
proof (cases tr)
  case (Some t)
  show ?thesis
  proof (cases "p = [] \<or> q = []")
    case True
    then show ?thesis by (auto simp: tracker_healthy_def Some split: prod.splits)
  next
    case False
    obtain t' where t': "snd (tracker_healthy now q (Some t)) = Some t'" "t' = snd (stateFor t q)"
      using False by (auto simp: tracker_healthy_def split: prod.splits)
    have "tracker_state t' p = tracker_state t p" unfolding t'(2) by (rule tracker_state_stateFor(2))
    with False t'(1) Some show ?thesis by (simp add: tracker_healthy_state)
  qed
qed (simp add: tracker_healthy_def)

lemma filter_healthy_filter:
  "fst (filter_healthy now cs tr) = filter (\<lambda>c. fst (tracker_healthy now (rs_provider c) tr)) cs"
proof (induction now cs tr rule: filter_healthy.induct)
  case (2 now c cs tr)
  obtain h tr1 where h: "tracker_healthy now (rs_provider c) tr = (h, tr1)" by fastforce
  have "fst (tracker_healthy now p tr1) = fst (tracker_healthy now p tr)" for p
    using tracker_healthy_stable [of now p "rs_provider c" tr] h by simp
  with 2 [OF h [symmetric]] h show ?case by (cases "filter_healthy now cs tr1") simp
qed simp

lemma ordered_candidates:
  assumes out_def: "out = fst (orderedFailoverCandidates fo now m tr primary extra)"
  shows "out \<noteq> [] \<and> set out \<subseteq> set (primary # extra)
    \<and> (distinct (map rs_provider (primary # extra)) \<longrightarrow> distinct (map rs_provider out))"
proof (cases "\<not> fo_enabled fo \<or> extra = []")
  case True
  then show ?thesis by (simp add: out_def orderedFailoverCandidates_def)
next
  case False
  obtain hs tr1 where hs: "filter_healthy now (primary # extra) tr = (hs, tr1)" by fastforce
  define h where "h = (if hs = [] then primary # extra else hs)"
  have "hs = filter (\<lambda>c. fst (tracker_healthy now (rs_provider c) tr)) (primary # extra)"
    using filter_healthy_filter [of now "primary # extra" tr] hs by simp
  then have h: "h \<noteq> []" "set h \<subseteq> set (primary # extra)"
    "distinct (map rs_provider (primary # extra)) \<longrightarrow> distinct (map rs_provider h)"
    by (simp_all add: h_def distinct_map_filter) auto
  let ?P = "\<lambda>c. registry_discoveryHealthy m (rs_provider c)"
  have out: "out = filter ?P h @ filter (\<lambda>c. \<not> ?P c) h"
    using False by (simp add: out_def orderedFailoverCandidates_def hs h_def Let_def del: filter_healthy.simps)
  have "distinct (map rs_provider out)" if "distinct (map rs_provider h)"
    using that by (auto simp: out distinct_map_filter)
  moreover have "set out = set h" by (auto simp: out)
  ultimately show ?thesis using h by (metis set_empty)
qed

lemma filterCandidatesByCost_result:
  assumes "cs \<noteq> []"
  shows "fst (filterCandidatesByCost table ov cs)
    = hd cs # filter (\<lambda>c. candidateCostAllowed (candidate_price table ov (hd cs)) (candidate_price table ov c)) (tl cs)"
  using assms by (auto simp: filterCandidatesByCost_def Let_def split: list.splits)

lemma capFailoverCandidates_take: "0 < mx \<Longrightarrow> capFailoverCandidates cs mx = take (nat mx) cs"
  by (auto simp: capFailoverCandidates_def)

lemma pipeline_result:
  assumes "cs0 \<noteq> []" and "0 < mx"
    and out_def: "out = capFailoverCandidates (fst (filterCandidatesByCost table ov cs0)) mx"
  shows "out \<noteq> [] \<and> hd out = hd cs0 \<and> set out \<subseteq> set cs0 \<and> int (length out) \<le> mx
    \<and> (distinct (map rs_provider cs0) \<longrightarrow> distinct (map rs_provider out))
    \<and> (\<forall>c\<in>set (tl out). candidateCostAllowed (candidate_price table ov (hd out)) (candidate_price table ov c))"
proof -
  define ok where "ok = (\<lambda>c. candidateCostAllowed (candidate_price table ov (hd cs0)) (candidate_price table ov c))"
  obtain k where k: "nat mx = Suc k" using assms(2) by (metis not0_implies_Suc zero_less_nat_eq less_numeral_extra(3))
  obtain c cs where c: "cs0 = c # cs" using assms(1) by (cases cs0) auto
  have out: "out = c # take k (filter ok cs)"
    unfolding out_def filterCandidatesByCost_result [OF assms(1)] capFailoverCandidates_take [OF assms(2)] k
    by (simp add: c ok_def)
  have sub: "set (take k (filter ok cs)) \<subseteq> {x\<in>set cs. ok x}" using set_take_subset [of k "filter ok cs"] by auto
  have "distinct (map rs_provider (take k (filter ok cs)))" if "distinct (map rs_provider cs)"
    using that by (simp add: take_map [symmetric] distinct_map_filter)
  moreover have "int (length out) \<le> mx" using k assms(2) by (simp add: out)
  ultimately show ?thesis using sub by (auto simp: out c ok_def)
qed


lemma request_candidates_nonempty:
  assumes "request_candidates fo table overrides now mid grp m tr = Inr cs" and "0 < fo_maxAttempts fo"
  shows "cs \<noteq> []"
proof -
  from assms(1) obtain primary extra where cs: "cs = capFailoverCandidates
      (fst (filterCandidatesByCost table overrides (fst (orderedFailoverCandidates fo now m tr primary extra)))) (fo_maxAttempts fo)"
    unfolding request_candidates_def by (auto simp: bind_sum_Inr)
  have "fst (orderedFailoverCandidates fo now m tr primary extra) \<noteq> []" using ordered_candidates [OF refl] by blast
  from pipeline_result [OF this assms(2) cs] show ?thesis by blast
qed

lemma request_candidates_safe:
  assumes "registry_reachable m" and "access_group grp" and "validateFailoverConfig fc = Inr fo"
    and "request_candidates fo table overrides now mid grp m tr = Inr cs"
  shows "cs \<noteq> [] \<and> length cs \<le> 10 \<and> distinct (map rs_provider cs) \<and> (\<forall>c\<in>set cs. requestable m grp mid c)
    \<and> (\<forall>c\<in>set (tl cs). candidateCostAllowed (candidate_price table overrides (hd cs)) (candidate_price table overrides c))"
proof -
  have mx: "0 < fo_maxAttempts fo" "fo_maxAttempts fo \<le> 10"
    using assms(3) by (auto simp: validateFailoverConfig_def Let_def maxFailoverMaxAttempts_def split: if_splits)
  have names: "distinct (mr_providerNames m)" using reachable_registry_wf [OF assms(1)] by (simp add: registry_wf_def)
  from assms(4) obtain primary extra where
    r: "(if fo_enabled fo then fst (resolveWithCandidates m mid grp)
         else bind_sum (fst (resolvePrimaryOnly m mid grp)) (\<lambda>p. Inr (p, []))) = Inr (primary, extra)"
    and cs: "cs = capFailoverCandidates
      (fst (filterCandidatesByCost table overrides (fst (orderedFailoverCandidates fo now m tr primary extra)))) (fo_maxAttempts fo)"
    unfolding request_candidates_def by (auto simp: bind_sum_Inr)
  have all: "(\<forall>c\<in>set (primary # extra). requestable m grp mid c) \<and> distinct (map rs_provider (primary # extra))"
  proof (cases "fo_enabled fo")
    case True
    with r have "fst (resolveWithCandidates m mid grp) = Inr (primary, extra)" by simp
    from candidate_requestable [OF this assms(2)] names show ?thesis by auto
  next
    case False
    with r have "fst (resolve m mid grp) = Inr primary" "extra = []" by (auto simp: resolvePrimaryOnly_def bind_sum_Inr)
    then show ?thesis using resolved_requestable by auto
  qed
  define cs0 where "cs0 = fst (orderedFailoverCandidates fo now m tr primary extra)"
  note o = ordered_candidates [OF cs0_def]
  have "cs0 \<noteq> []" using o by blast
  note p = pipeline_result [OF this mx(1) cs [folded cs0_def]]
  have "distinct (map rs_provider cs)" using o p all by blast
  moreover have "\<forall>c\<in>set cs. requestable m grp mid c" using o p all by blast
  moreover have "length cs \<le> 10" using p mx(2) by linarith
  ultimately show ?thesis using p by blast
qed

theorem failover_candidates_safe:
  assumes "registry_reachable m" and "access_group grp" and "validateFailoverConfig fc = Inr fo"
    and "request_candidates fo table overrides now mid grp m tr = Inr cs"
  shows "cs \<noteq> [] \<and> length cs \<le> 10 \<and> distinct (map rs_provider cs) \<and> (\<forall>c\<in>set cs. requestable m grp mid c)
    \<and> (\<forall>c\<in>set (tl cs). candidateCostAllowed (candidate_price table overrides (hd cs)) (candidate_price table overrides c))"
  using assms by (rule request_candidates_safe)

theorem failover_candidates_safe_witness:
  "length [\<lparr>rs_provider = ''local'', rs_upstreamModel = ''llama'', rs_canonical = ''local/llama''\<rparr>] \<le> 10
   \<and> requestable sample_refreshed local_only ''llama'' \<lparr>rs_provider = ''local'', rs_upstreamModel = ''llama'', rs_canonical = ''local/llama''\<rparr>"
proof -
  have v: "validateFailoverConfig \<lparr>fc_Enabled = Some True, fc_MaxAttempts = 0\<rparr> = Inr \<lparr>fo_maxAttempts = 3, fo_enabled = True\<rparr>"
    by (simp add: validateFailoverConfig_def defaultFailoverMaxAttempts_def maxFailoverMaxAttempts_def)
  obtain m1 where res: "resolve sample_refreshed ''llama'' local_only
      = (Inr \<lparr>rs_provider = ''local'', rs_upstreamModel = ''llama'', rs_canonical = ''local/llama''\<rparr>, m1)"
    using sample_resolve_llama by (metis prod.collapse)
  have "request_candidates \<lparr>fo_maxAttempts = 3, fo_enabled = True\<rparr> Map.empty Map.empty 0 ''llama'' local_only sample_refreshed None
      = Inr [\<lparr>rs_provider = ''local'', rs_upstreamModel = ''llama'', rs_canonical = ''local/llama''\<rparr>]"
    by (simp add: request_candidates_def resolveWithCandidates_def res failoverCandidates_def sample_hasModel
        orderedFailoverCandidates_def filterCandidatesByCost_def capFailoverCandidates_def)
  from failover_candidates_safe [OF sample_reachable local_only_access v this] show ?thesis by simp
qed

text \<open>An error that makes the gateway fail over is one that counts against the provider's health.\<close>

lemma failover_counts_as_failure: "failoverEligible err \<Longrightarrow> requestHealthOutcome err = (False, True)"
  by (auto simp: failoverEligible_def requestHealthOutcome_def split: option.splits if_splits go_error.splits)

end
