(* ===== verification/Resp.thy ===== *)
theory Resp
  imports GoStrings Retry
begin

text \<open>
  The Redis client (resp.go): encoding of commands, decoding of replies, and the decision to send a
  pipeline a second time.  A connection is the list of bytes it still delivers; running out of bytes
  is the read error of a closed or timed-out connection.

  The results: every command the gateway sends is read back, by a decoder of the same protocol, as
  exactly its arguments, whatever bytes they contain, so no argument can smuggle in another command;
  and the chunked reading of a bulk body returns what a plain read of that many bytes would.
\<close>

subsection \<open>Replies\<close>

datatype respValue = RSimple string | RErr string | RInt int | RBulk string | RNil | RArray "respValue list"

datatype respError =
    ReadError | LineTooLong | EmptyLine | BadInteger string | UnknownType char
  | BadBulkLength string | BulkOutOfRange int | BulkTrailer
  | BadArrayLength string | ArrayOutOfRange int | NestedArray

definition respMaxBulkLen :: int where "respMaxBulkLen = 67108864"
definition respMaxArrayLen :: int where "respMaxArrayLen = 1024"
definition respMaxLineLen :: nat where "respMaxLineLen = 65536"
definition respBulkEagerBytes :: nat where "respBulkEagerBytes = 65536"

definition trim_cr :: "string \<Rightarrow> string" where
  "trim_cr s = (if s \<noteq> [] \<and> last s = CHR 0x0D then butlast s else s)"

fun read_line :: "string \<Rightarrow> string \<Rightarrow> respError + string \<times> string" where
  "read_line buf [] = Inl ReadError"
| "read_line buf (b # s) =
     (if b = CHR 0x0A then Inr (trim_cr buf, s)
      else if respMaxLineLen \<le> length buf then Inl LineTooLong
      else read_line (buf @ [b]) s)"

definition readLine :: "string \<Rightarrow> respError + string \<times> string" where
  "readLine s = read_line [] s"

text \<open>\<open>readBulkBody\<close> grows its buffer by doubling while it reads.\<close>

function read_bulk :: "nat \<Rightarrow> nat \<Rightarrow> string \<Rightarrow> string \<Rightarrow> respError + string \<times> string" where
  "read_bulk tot capNow buf s =
     (if length s < capNow - length buf then Inl ReadError
      else let buf1 = buf @ take (capNow - length buf) s; s1 = drop (capNow - length buf) s
           in if capNow = 0 \<or> tot \<le> capNow then Inr (buf1, s1)
              else read_bulk tot (min (capNow * 2) tot) buf1 s1)"
  by auto
termination by (relation "measure (\<lambda>(tot, capNow, buf, s). tot - capNow)") auto

declare read_bulk.simps [simp del]

definition readBulkBody :: "string \<Rightarrow> nat \<Rightarrow> respError + string \<times> string" where
  "readBulkBody s tot = read_bulk tot (min respBulkEagerBytes tot) [] s"

definition decodeBulk :: "string \<Rightarrow> string \<Rightarrow> respError + respValue \<times> string" where
  "decodeBulk lenField s =
     (case atoi lenField of
        None \<Rightarrow> Inl (BadBulkLength lenField)
      | Some n \<Rightarrow>
          if n = - 1 then Inr (RNil, s)
          else if n < - 1 \<or> respMaxBulkLen < n then Inl (BulkOutOfRange n)
          else bind_sum (readBulkBody s (nat n + 2)) (\<lambda>(buf, s1).
                 if buf ! nat n \<noteq> CHR 0x0D \<or> buf ! (nat n + 1) \<noteq> CHR 0x0A then Inl BulkTrailer
                 else Inr (RBulk (take (nat n) buf), s1)))"

text \<open>One reply; \<open>arr\<close> is what happens on an array header.\<close>

definition decode_one :: "(string \<Rightarrow> string \<Rightarrow> respError + respValue \<times> string) \<Rightarrow> string \<Rightarrow> respError + respValue \<times> string" where
  "decode_one arr s = bind_sum (readLine s) (\<lambda>(line, s1).
     case line of
       [] \<Rightarrow> Inl EmptyLine
     | prefix # rest \<Rightarrow>
         if prefix = CHR ''+'' then Inr (RSimple rest, s1)
         else if prefix = CHR ''-'' then Inr (RErr rest, s1)
         else if prefix = CHR '':'' then (case atoi rest of None \<Rightarrow> Inl (BadInteger rest) | Some n \<Rightarrow> Inr (RInt n, s1))
         else if prefix = CHR ''$'' then decodeBulk rest s1
         else if prefix = CHR ''*'' then arr rest s1
         else Inl (UnknownType prefix))"

fun decode_elems :: "nat \<Rightarrow> string \<Rightarrow> respError + respValue list \<times> string" where
  "decode_elems 0 s = Inr ([], s)"
| "decode_elems (Suc n) s =
     bind_sum (decode_one (\<lambda>_ _. Inl NestedArray) s) (\<lambda>(v, s1).
     bind_sum (decode_elems n s1) (\<lambda>(vs, s2). Inr (v # vs, s2)))"

definition decodeArray :: "string \<Rightarrow> string \<Rightarrow> respError + respValue \<times> string" where
  "decodeArray lenField s =
     (case atoi lenField of
        None \<Rightarrow> Inl (BadArrayLength lenField)
      | Some n \<Rightarrow>
          if n = - 1 then Inr (RNil, s)
          else if n < - 1 \<or> respMaxArrayLen < n then Inl (ArrayOutOfRange n)
          else bind_sum (decode_elems (nat n) s) (\<lambda>(vs, s1). Inr (RArray vs, s1)))"

definition decodeReply :: "string \<Rightarrow> respError + respValue \<times> string" where
  "decodeReply s = decode_one decodeArray s"

subsection \<open>Commands\<close>

definition crlf :: string where "crlf = [CHR 0x0D, CHR 0x0A]"

definition encode_arg :: "string \<Rightarrow> string" where
  "encode_arg a = ''$'' @ itoa (int (length a)) @ crlf @ a @ crlf"

text \<open>Commands of three words have a format string of their own.\<close>

definition encode_command :: "string list \<Rightarrow> string" where
  "encode_command args =
     (case args of
        [a, b, c] \<Rightarrow> ''*3'' @ crlf @ ''$'' @ itoa (int (length a)) @ crlf @ a @ crlf
          @ ''$'' @ itoa (int (length b)) @ crlf @ b @ crlf @ ''$'' @ itoa (int (length c)) @ crlf @ c @ crlf
      | _ \<Rightarrow> ''*'' @ itoa (int (length args)) @ crlf @ concat (map encode_arg args))"

definition encodeCommands :: "string list list \<Rightarrow> string" where
  "encodeCommands cmds = concat (map encode_command cmds)"

lemma encode_command_plain: "encode_command args = ''*'' @ itoa (int (length args)) @ crlf @ concat (map encode_arg args)"
proof -
  have "itoa 3 = ''3''" by code_simp
  then show ?thesis by (auto simp: encode_command_def encode_arg_def split: list.split)
qed

definition pipelineMutatingCommands :: "string list" where
  "pipelineMutatingCommands = [''INCRBY'', ''INCRBYFLOAT'', ''LPUSH'']"

definition pipelineMutates :: "string list list \<Rightarrow> bool" where
  "pipelineMutates cmds \<longleftrightarrow> (\<exists>args\<in>set cmds. args \<noteq> [] \<and> hd args \<in> set pipelineMutatingCommands)"

definition ttl_seconds :: "duration \<Rightarrow> int" where
  "ttl_seconds ttl =
     (let s = ttl sdiv second; s = (if ttl smod second \<noteq> 0 then wrap64 (s + 1) else s)
      in if s < 1 then 1 else s)"

text \<open>\<open>setEx\<close> writes its command in one format string.\<close>

definition setEx_payload :: "string \<Rightarrow> string \<Rightarrow> duration \<Rightarrow> string" where
  "setEx_payload key val ttl =
     (let ttlArg = itoa (ttl_seconds ttl)
      in ''*5'' @ crlf @ ''$3'' @ crlf @ ''SET'' @ crlf @ ''$'' @ itoa (int (length key)) @ crlf @ key @ crlf
         @ ''$'' @ itoa (int (length val)) @ crlf @ val @ crlf @ ''$2'' @ crlf @ ''EX'' @ crlf
         @ ''$'' @ itoa (int (length ttlArg)) @ crlf @ ttlArg @ crlf)"

subsection \<open>Attempts\<close>

text \<open>One attempt on a connection: how far it got and its error, or its replies.\<close>

datatype attempt = Replied "respValue list" | Failed bool bool bool

text \<open>\<open>Failed wrote readAny timeout\<close>.  \<open>pipelineEncoded\<close> gives the result and the number of attempts
  that were started.\<close>

definition pipelineEncoded :: "bool \<Rightarrow> attempt \<Rightarrow> attempt \<Rightarrow> respValue list option \<times> nat" where
  "pipelineEncoded mutates first again =
     (case first of
        Replied rs \<Rightarrow> (Some rs, 1)
      | Failed wrote readAny timeout \<Rightarrow>
          if timeout then (None, 1)
          else if wrote \<and> readAny \<and> mutates then (None, 1)
          else (case again of Replied rs \<Rightarrow> (Some rs, 2) | Failed _ _ _ \<Rightarrow> (None, 2)))"

text \<open>Reading \<open>n\<close> replies off a connection, as \<open>attemptEncodedOn\<close> does after the write.\<close>

fun read_replies :: "nat \<Rightarrow> string \<Rightarrow> respError + respValue list \<times> string" where
  "read_replies 0 s = Inr ([], s)"
| "read_replies (Suc n) s =
     bind_sum (decodeReply s) (\<lambda>(v, s1). bind_sum (read_replies n s1) (\<lambda>(vs, s2). Inr (v # vs, s2)))"

subsection \<open>Values\<close>

datatype replyError = ReplyErr string | UnexpectedType | NonInteger string

definition getBytes_reply :: "respValue \<Rightarrow> replyError + string option" where
  "getBytes_reply v = (case v of RNil \<Rightarrow> Inr None | RErr m \<Rightarrow> Inl (ReplyErr m) | RBulk b \<Rightarrow> Inr (Some b) | _ \<Rightarrow> Inl UnexpectedType)"

definition getBatch_value :: "respValue \<Rightarrow> replyError + int" where
  "getBatch_value v =
     (case v of RNil \<Rightarrow> Inr 0 | RErr m \<Rightarrow> Inl (ReplyErr m)
      | RBulk b \<Rightarrow> (case atoi b of Some n \<Rightarrow> Inr n | None \<Rightarrow> Inl (NonInteger b))
      | _ \<Rightarrow> Inl UnexpectedType)"

fun getBatch_replies :: "respValue list \<Rightarrow> replyError + int list" where
  "getBatch_replies [] = Inr []"
| "getBatch_replies (v # vs) = bind_sum (getBatch_value v) (\<lambda>n. bind_sum (getBatch_replies vs) (\<lambda>ns. Inr (n # ns)))"

definition respPoolMin :: int where "respPoolMin = 4"
definition respPoolMax :: int where "respPoolMax = 8"

definition clampPoolSize :: "int \<Rightarrow> int" where
  "clampPoolSize n = (if n < respPoolMin then respPoolMin else if respPoolMax < n then respPoolMax else n)"

subsection \<open>Reading back what was written\<close>

lemma read_bulk_plain:
  "length buf \<le> capNow \<Longrightarrow> capNow \<le> tot \<Longrightarrow> 0 < capNow \<Longrightarrow>
     read_bulk tot capNow buf s
       = (if length s < tot - length buf then Inl ReadError
          else Inr (buf @ take (tot - length buf) s, drop (tot - length buf) s))"
proof (induction tot capNow buf s rule: read_bulk.induct)
  case (1 tot capNow buf s)
  let ?d = "capNow - length buf"
  show ?case
  proof (cases "length s < ?d")
    case True
    then show ?thesis using 1(2-4) by (subst read_bulk.simps) auto
  next
    case False
    show ?thesis
    proof (cases "tot \<le> capNow")
      case True
      with False 1(2-4) show ?thesis by (subst read_bulk.simps) simp
    next
      case more: False
      have len: "length (buf @ take ?d s) = capNow" using False 1(2) by simp
      have "read_bulk tot capNow buf s = read_bulk tot (min (capNow * 2) tot) (buf @ take ?d s) (drop ?d s)"
        using False more 1(4) by (subst read_bulk.simps) (simp add: Let_def)
      also have "\<dots> = (if length (drop ?d s) < tot - capNow then Inl ReadError
          else Inr ((buf @ take ?d s) @ take (tot - capNow) (drop ?d s), drop (tot - capNow) (drop ?d s)))"
        using 1(1) [OF False refl refl] more 1(4) len by simp
      finally show ?thesis using False more 1(2)
        by (auto simp: take_add [symmetric] add.commute)
    qed
  qed
qed

lemma readBulkBody_plain:
  "readBulkBody s tot = (if length s < tot then Inl ReadError else Inr (take tot s, drop tot s))"
proof (cases "tot = 0")
  case False
  then show ?thesis by (simp add: readBulkBody_def read_bulk_plain respBulkEagerBytes_def)
qed (simp add: readBulkBody_def read_bulk.simps)

lemma read_line_found:
  "CHR 0x0A \<notin> set t \<Longrightarrow> length buf + length t \<le> respMaxLineLen \<Longrightarrow> read_line buf (t @ CHR 0x0A # s) = Inr (trim_cr (buf @ t), s)"
  by (induction t arbitrary: buf) auto

lemma readLine_crlf:
  "CHR 0x0A \<notin> set t \<Longrightarrow> length t < respMaxLineLen \<Longrightarrow> readLine (t @ crlf @ s) = Inr (t, s)"
  using read_line_found [of "t @ [CHR 0x0D]" "[]" s] by (simp add: readLine_def crlf_def trim_cr_def)

lemma itoa_line:
  "CHR 0x0A \<notin> set (itoa (int n))" "CHR 0x0D \<notin> set (itoa (int n))"
  using itoa_nat_digits [of n] by (auto simp: itoa_def list_all_iff is_digit_def)

lemma itoa_nat_length: "n < 10 ^ k \<Longrightarrow> 0 < k \<Longrightarrow> length (itoa_nat n) \<le> k"
proof (induction k arbitrary: n)
  case (Suc k)
  show ?case
  proof (cases "n < 10")
    case True
    then show ?thesis by (subst itoa_nat.simps) simp
  next
    case False
    then have "0 < k" using Suc.prems by (cases k) auto
    moreover have "n div 10 < 10 ^ k" using Suc.prems(1) by (simp add: div_less_iff_less_mult)
    ultimately show ?thesis using Suc.IH [of "n div 10"] False by (subst itoa_nat.simps) simp
  qed
qed simp

lemma decode_arg:
  assumes "length a \<le> nat respMaxBulkLen"
  shows "decode_one arr (encode_arg a @ s) = Inr (RBulk a, s)"
proof -
  let ?n = "itoa (int (length a))"
  have small: "length a < 10 ^ 9" using assms by (simp add: respMaxBulkLen_def)
  have len: "length ?n \<le> 9" using itoa_nat_length [OF small] by (simp add: itoa_def)
  have line: "readLine (encode_arg a @ s) = Inr (CHR ''$'' # ?n, a @ crlf @ s)"
    using readLine_crlf [of "CHR ''$'' # ?n" "a @ crlf @ s"] itoa_line(1) [of "length a"] len
    by (simp add: encode_arg_def respMaxLineLen_def)
  have at: "atoi ?n = Some (int (length a))" using small by (intro atoi_itoa) (simp add: in_int64_def min_int64_def max_int64_def)
  have "decodeBulk ?n (a @ crlf @ s) = Inr (RBulk a, s)"
    using assms by (simp add: decodeBulk_def at readBulkBody_plain crlf_def nth_append respMaxBulkLen_def)
  then show ?thesis by (simp add: decode_one_def line)
qed

lemma decode_args:
  "\<forall>a\<in>set args. length a \<le> nat respMaxBulkLen \<Longrightarrow>
     decode_elems (length args) (concat (map encode_arg args) @ s) = Inr (map RBulk args, s)"
  by (induction args) (simp_all add: decode_arg)

lemma decode_command:
  assumes "int (length args) \<le> respMaxArrayLen" and "\<forall>a\<in>set args. length a \<le> nat respMaxBulkLen"
  shows "decodeReply (encode_command args @ s) = Inr (RArray (map RBulk args), s)"
proof -
  let ?n = "itoa (int (length args))"
  have small: "length args < 10 ^ 4" using assms(1) by (simp add: respMaxArrayLen_def)
  have len: "length ?n \<le> 4" using itoa_nat_length [OF small] by (simp add: itoa_def)
  have line: "readLine (encode_command args @ s) = Inr (CHR ''*'' # ?n, concat (map encode_arg args) @ s)"
    using readLine_crlf [of "CHR ''*'' # ?n" "concat (map encode_arg args) @ s"] itoa_line(1) [of "length args"] len
    by (simp add: encode_command_plain respMaxLineLen_def)
  have at: "atoi ?n = Some (int (length args))" using small by (intro atoi_itoa) (simp add: in_int64_def min_int64_def max_int64_def)
  show ?thesis using assms(1) decode_args [OF assms(2)]
    by (simp add: decodeReply_def decode_one_def line decodeArray_def at)
qed

text \<open>C37: The bytes sent for a list of commands are read back by a RESP decoder as exactly these
  commands with these arguments, whatever bytes the arguments contain: no argument can
  inject a command.\<close>

theorem commands_read_back:
  assumes "\<forall>args\<in>set cmds. int (length args) \<le> respMaxArrayLen \<and> (\<forall>a\<in>set args. length a \<le> nat respMaxBulkLen)"
  shows "read_replies (length cmds) (encodeCommands cmds @ s) = Inr (map (\<lambda>args. RArray (map RBulk args)) cmds, s)"
  using assms by (induction cmds) (simp_all add: encodeCommands_def decode_command)

theorem commands_read_back_witness:
  "read_replies 2 (encodeCommands [[''GET'', [CHR 0x0D, CHR 0x0A, CHR ''*'']], [''DEL'']])
     = Inr ([RArray [RBulk ''GET'', RBulk [CHR 0x0D, CHR 0x0A, CHR ''*'']], RArray [RBulk ''DEL'']], [])"
  using commands_read_back [of "[[''GET'', [CHR 0x0D, CHR 0x0A, CHR ''*'']], [''DEL'']]" "[]"]
  by (simp add: respMaxArrayLen_def respMaxBulkLen_def numeral_2_eq_2)

lemma setEx_is_command: "setEx_payload key val ttl = encode_command [''SET'', key, val, ''EX'', itoa (ttl_seconds ttl)]"
proof -
  have "itoa 5 = ''5''" "itoa 3 = ''3''" "itoa 2 = ''2''" by code_simp+
  then show ?thesis by (simp add: setEx_payload_def encode_command_plain encode_arg_def Let_def)
qed

text \<open>A mutating pipeline whose reply has begun is never sent again, and nothing is sent three times.\<close>

lemma pipeline_sends:
  "snd (pipelineEncoded mutates first again) \<le> 2"
  "first = Failed True True timeout \<Longrightarrow> mutates \<Longrightarrow> pipelineEncoded mutates first again = (None, 1)"
  by (auto simp: pipelineEncoded_def split: attempt.splits)

end
