(* ===== verification/Cache.thy ===== *)
theory Cache
  imports AuthStore Retry
begin

text \<open>
  The response cache (cache.go).  The store behind it (Redis) and the JSON codec are arguments: the
  record \<open>cacheOps\<close> holds the two store calls, and the encoder and decoder of a cached response.
  The hash of the cache key (SHA-256, printed in hex) is the argument \<open>hash\<close>; a request body is
  represented by its fields, in the order of the encoder (Go's encoder sorts them by name).
\<close>

definition defaultCacheTTL :: string where "defaultCacheTTL = ''5m''"
definition defaultCacheMaxBodyBytes :: int where "defaultCacheMaxBodyBytes = 1048576"
definition maxCacheMaxBodyBytes :: int where "maxCacheMaxBodyBytes = 8388608"
definition cacheKeyPrefix :: string where "cacheKeyPrefix = ''llmgw:cache:''"

record CacheConfig =
  cc_TTL :: string
  cc_MaxBodyBytes :: int
  cc_Enabled :: bool
  cc_AccountHits :: bool
  cc_CacheEmbeddings :: bool

datatype cacheError = CacheTTL string | CacheBodyNotPositive int | CacheBodyTooLarge int

definition validateCacheConfig :: "CacheConfig \<Rightarrow> cacheError + duration \<times> int" where
  "validateCacheConfig cc =
     (let ttlStr = (if cc_TTL cc = [] then defaultCacheTTL else cc_TTL cc) in
      case time_ParseDuration ttlStr of
        None \<Rightarrow> Inl (CacheTTL ttlStr)
      | Some ttl \<Rightarrow>
          let maxBody = (if cc_MaxBodyBytes cc = 0 then defaultCacheMaxBodyBytes else cc_MaxBodyBytes cc)
          in if maxBody < 0 then Inl (CacheBodyNotPositive maxBody)
             else if maxCacheMaxBodyBytes < maxBody then Inl (CacheBodyTooLarge maxBody)
             else Inr (ttl, maxBody))"

record cachedResponse =
  cr_Status :: int
  cr_ContentType :: string
  cr_Body :: string

record 'c cacheOps =
  co_getBytes :: "string \<Rightarrow> 'c \<Rightarrow> (string + string option) \<times> 'c"
  co_setEx :: "string \<Rightarrow> string \<Rightarrow> duration \<Rightarrow> 'c \<Rightarrow> string option \<times> 'c"
  co_encode :: "cachedResponse \<Rightarrow> string"
  co_decode :: "string \<Rightarrow> cachedResponse option"

record 'c responseCache =
  rc_client :: 'c
  rc_lastLogAt :: gtime
  rc_lastFailure :: gtime
  rc_ttl :: duration
  rc_maxBodyBytes :: int
  rc_embeddings :: bool
  rc_log :: "string list"

definition newResponseCache :: "'c \<Rightarrow> duration \<Rightarrow> int \<Rightarrow> 'c responseCache" where
  "newResponseCache client ttl maxBodyBytes =
     \<lparr>rc_client = client, rc_lastLogAt = zero_time, rc_lastFailure = zero_time, rc_ttl = ttl,
      rc_maxBodyBytes = maxBodyBytes, rc_embeddings = False, rc_log = []\<rparr>"

definition buildResponseCache :: "CacheConfig \<Rightarrow> 'c option \<Rightarrow> cacheError + 'c responseCache option" where
  "buildResponseCache cc client =
     (if \<not> cc_Enabled cc then Inr None
      else bind_sum (validateCacheConfig cc) (\<lambda>(ttl, maxBody).
        case client of
          None \<Rightarrow> Inr None
        | Some c \<Rightarrow> Inr (Some ((newResponseCache c ttl maxBody)\<lparr>rc_embeddings := cc_CacheEmbeddings cc\<rparr>))))"

definition groupCacheEnabled :: "group \<Rightarrow> bool" where
  "groupCacheEnabled grp = (case gr_cache grp of Some b \<Rightarrow> b | None \<Rightarrow> True)"

definition effectiveTTL :: "'c responseCache \<Rightarrow> group \<Rightarrow> duration" where
  "effectiveTTL c grp = (if 0 < gr_cacheTTL grp then gr_cacheTTL grp else rc_ttl c)"

definition logCacheError :: "gtime \<Rightarrow> string \<Rightarrow> 'c responseCache \<Rightarrow> 'c responseCache" where
  "logCacheError now err c =
     (if storeErrorLogEvery \<le> time_Sub now (rc_lastLogAt c)
      then c\<lparr>rc_lastLogAt := now, rc_log := rc_log c @ [err]\<rparr> else c)"

definition latched :: "gtime \<Rightarrow> 'c responseCache \<Rightarrow> bool" where
  "latched now c \<longleftrightarrow> \<not> time_IsZero (rc_lastFailure c) \<and> time_Sub now (rc_lastFailure c) < storeDownLatchFor"

definition cache_recordFailure :: "gtime \<Rightarrow> string \<Rightarrow> 'c responseCache \<Rightarrow> 'c responseCache" where
  "cache_recordFailure now err c = (logCacheError now err c)\<lparr>rc_lastFailure := now\<rparr>"

definition cache_lookup :: "'c cacheOps \<Rightarrow> gtime \<Rightarrow> string \<Rightarrow> 'c responseCache \<Rightarrow> cachedResponse option \<times> 'c responseCache" where
  "cache_lookup ops now key c =
     (if latched now c then (None, c)
      else case co_getBytes ops key (rc_client c) of
        (Inl err, k) \<Rightarrow> (None, cache_recordFailure now err (c\<lparr>rc_client := k\<rparr>))
      | (Inr None, k) \<Rightarrow> (None, c\<lparr>rc_client := k\<rparr>)
      | (Inr (Some raw), k) \<Rightarrow>
          (case co_decode ops raw of
             None \<Rightarrow> (None, logCacheError now key (c\<lparr>rc_client := k\<rparr>))
           | Some cr \<Rightarrow> (Some cr, c\<lparr>rc_client := k\<rparr>)))"

definition cache_store :: "'c cacheOps \<Rightarrow> gtime \<Rightarrow> string \<Rightarrow> int \<Rightarrow> string \<Rightarrow> string \<Rightarrow> duration \<Rightarrow> 'c responseCache \<Rightarrow> 'c responseCache" where
  "cache_store ops now key status contentType body ttl c =
     (if rc_maxBodyBytes c < int (length body) then c\<lparr>rc_log := rc_log c @ [key]\<rparr>
      else if latched now c then c
      else case co_setEx ops key (co_encode ops \<lparr>cr_Status = status, cr_ContentType = contentType, cr_Body = body\<rparr>) ttl (rc_client c) of
        (None, k) \<Rightarrow> c\<lparr>rc_client := k\<rparr>
      | (Some err, k) \<Rightarrow> cache_recordFailure now err (c\<lparr>rc_client := k\<rparr>))"

subsection \<open>Keys\<close>

definition stripped_fields :: "(string \<times> 'v) list \<Rightarrow> (string \<times> 'v) list" where
  "stripped_fields req = filter (\<lambda>(k, v). k \<noteq> ''stream_options'' \<and> k \<noteq> ''user'') req"

definition key_material :: "((string \<times> 'v) list \<Rightarrow> string) \<Rightarrow> string \<Rightarrow> string \<Rightarrow> string \<Rightarrow> string \<Rightarrow> (string \<times> 'v) list \<Rightarrow> string" where
  "key_material marshal provider upstreamModel requestedModel endpoint req =
     provider @ [CHR 0x00] @ upstreamModel @ [CHR 0x00] @ requestedModel @ [CHR 0x00] @ endpoint @ [CHR 0x00]
     @ marshal (stripped_fields req)"

definition cacheKey :: "(string \<Rightarrow> string) \<Rightarrow> ((string \<times> 'v) list \<Rightarrow> string) \<Rightarrow> string \<Rightarrow> string \<Rightarrow> string \<Rightarrow> string \<Rightarrow> (string \<times> 'v) list \<Rightarrow> string" where
  "cacheKey hash marshal provider upstreamModel requestedModel endpoint req =
     cacheKeyPrefix @ hash (key_material marshal provider upstreamModel requestedModel endpoint req)"

subsection \<open>What the key separates, and what comes back\<close>

lemma key_material_inj:
  assumes "key_material marshal p u r e req = key_material marshal p' u' r' e' req'"
    and "CHR 0x00 \<notin> set p" "CHR 0x00 \<notin> set p'" "CHR 0x00 \<notin> set u" "CHR 0x00 \<notin> set u'"
    and "CHR 0x00 \<notin> set r" "CHR 0x00 \<notin> set r'" "CHR 0x00 \<notin> set e" "CHR 0x00 \<notin> set e'"
  shows "p = p' \<and> u = u' \<and> r = r' \<and> e = e' \<and> marshal (stripped_fields req) = marshal (stripped_fields req')"
proof -
  have 1: "p @ CHR 0x00 # (u @ CHR 0x00 # (r @ CHR 0x00 # (e @ CHR 0x00 # marshal (stripped_fields req))))
      = p' @ CHR 0x00 # (u' @ CHR 0x00 # (r' @ CHR 0x00 # (e' @ CHR 0x00 # marshal (stripped_fields req'))))"
    using assms(1) by (simp add: key_material_def)
  note s1 = split_at_char [OF 1 assms(2,3)]
  note s2 = split_at_char [OF conjunct2 [OF s1] assms(4,5)]
  note s3 = split_at_char [OF conjunct2 [OF s2] assms(6,7)]
  note s4 = split_at_char [OF conjunct2 [OF s3] assms(8,9)]
  show ?thesis using s1 s2 s3 s4 by blast
qed

text \<open>With a store that keeps what it was given and a codec that round-trips, a stored response comes
  back as it was.\<close>

lemma store_then_lookup:
  assumes "int (length body) \<le> rc_maxBodyBytes c" and "\<not> latched now c" and "\<not> latched now' c"
    and set: "co_setEx ops key (co_encode ops \<lparr>cr_Status = st, cr_ContentType = ct, cr_Body = body\<rparr>) ttl (rc_client c) = (None, k)"
    and get: "co_getBytes ops key k = (Inr (Some (co_encode ops \<lparr>cr_Status = st, cr_ContentType = ct, cr_Body = body\<rparr>)), k')"
    and codec: "\<And>cr. co_decode ops (co_encode ops cr) = Some cr"
  shows "fst (cache_lookup ops now' key (cache_store ops now key st ct body ttl c))
    = Some \<lparr>cr_Status = st, cr_ContentType = ct, cr_Body = body\<rparr>"
proof -
  have s: "cache_store ops now key st ct body ttl c = c\<lparr>rc_client := k\<rparr>"
    using assms(1,2) set by (simp add: cache_store_def)
  have l: "\<not> latched now' (c\<lparr>rc_client := k\<rparr>)" using assms(3) by (simp add: latched_def)
  show ?thesis by (simp add: s cache_lookup_def l get codec)
qed

text \<open>A failed store call keeps the cache out of the way for the latch period.\<close>

lemma cache_failure_latches:
  assumes "co_getBytes ops key (rc_client c) = (Inl err, k)" and "\<not> latched now c" and "zero_time < now"
    and "now \<le> t" "t < now + storeDownLatchFor"
  shows "cache_lookup ops t key' (snd (cache_lookup ops now key c)) = (None, snd (cache_lookup ops now key c))"
proof -
  have "rc_lastFailure (snd (cache_lookup ops now key c)) = now"
    using assms(1,2) by (simp add: cache_lookup_def cache_recordFailure_def)
  moreover have "time_Sub t now < storeDownLatchFor"
    using assms(5) by (subst time_Sub_less) (simp_all add: dur_defs max_int64_def)
  ultimately have "latched t (snd (cache_lookup ops now key c))"
    using assms(3) by (simp add: latched_def time_IsZero_def)
  then show ?thesis by (simp add: cache_lookup_def [of _ t])
qed

end
