(* ===== verification/Events.thy ===== *)
theory Events
  imports Accounting Retry Resp
begin

text \<open>
  The event log behind the admin API (events.go): a ring buffer of the last 200 events, a limit on
  pushes to Redis per second, and which outcomes become events.  The message of an event is kept as
  its arguments.  The Redis client is the reply it gives; a push is recorded as handed to the
  background.

  The ring refines a plain list: its snapshot is the newest events, newest first.
\<close>

definition eventRingCap :: nat where "eventRingCap = 200"
definition eventPushPerSecond :: nat where "eventPushPerSecond = 50"

datatype eventMessage =
    MsgViolation violationMessage | MsgError go_error | MsgStatus int | MsgUnpriced string
  | MsgProxyStatus string int | MsgConnection | MsgCapacity

record gatewayEvent =
  ev_Time :: gtime
  ev_Replica :: string
  ev_Instance :: string
  ev_User :: string
  ev_Group :: string
  ev_Model :: string
  ev_Provider :: string
  ev_Route :: string
  ev_Kind :: string
  ev_Message :: eventMessage
  ev_Status :: int

subsection \<open>The ring\<close>

record 'e eventRing =
  er_buf :: "'e list"
  er_next :: nat
  er_n :: nat

definition eventRing_zero :: "'e \<Rightarrow> 'e eventRing" where
  "eventRing_zero z = \<lparr>er_buf = replicate eventRingCap z, er_next = 0, er_n = 0\<rparr>"

definition ring_add :: "'e \<Rightarrow> 'e eventRing \<Rightarrow> 'e eventRing" where
  "ring_add ev r =
     \<lparr>er_buf = (er_buf r)[er_next r := ev], er_next = (er_next r + 1) mod eventRingCap,
      er_n = (if er_n r < eventRingCap then er_n r + 1 else er_n r)\<rparr>"

definition ring_snapshot :: "nat \<Rightarrow> 'e eventRing \<Rightarrow> 'e list" where
  "ring_snapshot limit r =
     (let n = (if limit < er_n r then limit else er_n r)
      in map (\<lambda>i. er_buf r ! nat ((int (er_next r) - 1 - int i + int eventRingCap) mod int eventRingCap)) [0..<n])"

subsection \<open>The log\<close>

record eventLog =
  el_ring :: "gatewayEvent eventRing"
  el_hasClient :: bool
  el_replica :: string
  el_instance :: string
  el_throttleSecond :: int
  el_throttleCount :: nat
  el_spawned :: "gatewayEvent list"

definition allowPush :: "gtime \<Rightarrow> eventLog \<Rightarrow> bool \<times> eventLog" where
  "allowPush now el =
     (let sec = time_Unix now;
          el1 = (if sec \<noteq> el_throttleSecond el then el\<lparr>el_throttleSecond := sec, el_throttleCount := 0\<rparr> else el)
      in if eventPushPerSecond \<le> el_throttleCount el1 then (False, el1)
         else (True, el1\<lparr>el_throttleCount := el_throttleCount el1 + 1\<rparr>))"

text \<open>\<open>read\<close>: the events, whether they come from Redis, and whether the answer is degraded.  The reply of
  the store and the JSON decoder are arguments.\<close>

definition eventLog_read :: "(string \<rightharpoonup> gatewayEvent) \<Rightarrow> nat \<Rightarrow> bool \<Rightarrow> respValue option \<Rightarrow> eventLog option \<Rightarrow> gatewayEvent list \<times> bool \<times> bool" where
  "eventLog_read decode limit isLatched reply elo =
     (case elo of
        None \<Rightarrow> ([], False, False)
      | Some el \<Rightarrow>
          if \<not> el_hasClient el then (ring_snapshot limit (el_ring el), False, False)
          else if isLatched then (ring_snapshot limit (el_ring el), False, True)
          else (case reply of
                  Some (RArray items) \<Rightarrow>
                    (List.map_filter (\<lambda>v. case v of RBulk b \<Rightarrow> decode b | _ \<Rightarrow> None) items, True, False)
                | _ \<Rightarrow> (ring_snapshot limit (el_ring el), False, True)))"

definition recordEvent :: "gtime \<Rightarrow> bool \<Rightarrow> gatewayEvent \<Rightarrow> eventLog option \<Rightarrow> eventLog option" where
  "recordEvent now isLatched ev elo =
     (case elo of
        None \<Rightarrow> None
      | Some el \<Rightarrow>
          let ev1 = ev\<lparr>ev_Time := now, ev_Replica := el_replica el, ev_Instance := el_instance el\<rparr>;
              el1 = el\<lparr>el_ring := ring_add ev1 (el_ring el)\<rparr>
          in if \<not> el_hasClient el1 \<or> isLatched then Some el1
             else (case allowPush now el1 of
                     (False, el2) \<Rightarrow> Some el2
                   | (True, el2) \<Rightarrow> Some (el2\<lparr>el_spawned := el_spawned el2 @ [ev1]\<rparr>)))"

subsection \<open>What becomes an event\<close>

definition blank_event :: gatewayEvent where
  "blank_event = \<lparr>ev_Time = zero_time, ev_Replica = [], ev_Instance = [], ev_User = [], ev_Group = [], ev_Model = [],
     ev_Provider = [], ev_Route = [], ev_Kind = [], ev_Message = MsgConnection, ev_Status = 0\<rparr>"

definition attribute_scope :: "limitScope \<Rightarrow> gatewayEvent \<Rightarrow> gatewayEvent" where
  "attribute_scope sc ev =
     (if sc_kind sc = ''user'' then (if ev_User ev = [] then ev\<lparr>ev_User := sc_id sc\<rparr> else ev)
      else if sc_kind sc = ''group'' then (if ev_Group ev = [] then ev\<lparr>ev_Group := sc_id sc\<rparr> else ev)
      else ev)"

definition applyScopeAttribution :: "gatewayEvent \<Rightarrow> limitScope list \<Rightarrow> gatewayEvent" where
  "applyScopeAttribution ev scopes = fold attribute_scope scopes ev"

fun eventKind_str :: "eventKind \<Rightarrow> string" where
  "eventKind_str EvRateLimit = ''rate_limit''"
| "eventKind_str EvBudget = ''budget''"
| "eventKind_str EvStoreDown = ''store_down''"

definition limit_event :: "limitScope list \<Rightarrow> string \<Rightarrow> limitViolation \<Rightarrow> gatewayEvent" where
  "limit_event scopes route v =
     applyScopeAttribution (blank_event\<lparr>ev_Route := route, ev_Kind := eventKind_str (lv_kind v), ev_Message := MsgViolation (lv_message v),
       ev_Status := (if lv_storeDown v then 503 else 429)\<rparr>) scopes"

definition recordLimitEvent :: "gtime \<Rightarrow> bool \<Rightarrow> limitScope list \<Rightarrow> string \<Rightarrow> limitViolation \<Rightarrow> eventLog option \<Rightarrow> eventLog option" where
  "recordLimitEvent now isLatched scopes route v elo = recordEvent now isLatched (limit_event scopes route v) elo"

definition upstream_event :: "limitScope list \<Rightarrow> string \<Rightarrow> string \<Rightarrow> string \<Rightarrow> go_error option \<Rightarrow> gatewayEvent option" where
  "upstream_event scopes model provider route err =
     (case err of
        None \<Rightarrow> None
      | Some e \<Rightarrow>
          if errors_Is Canceled e then None
          else let ev = blank_event\<lparr>ev_Model := model, ev_Provider := provider, ev_Route := route\<rparr> in
            (case e of
               TranslateError _ _ \<Rightarrow> None
             | _ \<Rightarrow>
                 if matchesSentinel err ProviderTimeout \<or> isDeadlineExceeded err
                 then Some (applyScopeAttribution (ev\<lparr>ev_Kind := ''timeout'', ev_Status := 504, ev_Message := MsgError e\<rparr>) scopes)
                 else (case e of
                         ProviderHTTPError status \<Rightarrow>
                           if status \<noteq> 429 \<and> status < 500 then None
                           else Some (applyScopeAttribution (ev\<lparr>ev_Kind := ''upstream'', ev_Status := status, ev_Message := MsgError e\<rparr>) scopes)
                       | _ \<Rightarrow> Some (applyScopeAttribution (ev\<lparr>ev_Kind := ''upstream'', ev_Status := 502, ev_Message := MsgError e\<rparr>) scopes))))"

definition recordUpstreamEvent :: "gtime \<Rightarrow> bool \<Rightarrow> limitScope list \<Rightarrow> string \<Rightarrow> string \<Rightarrow> string \<Rightarrow> go_error option \<Rightarrow> eventLog option \<Rightarrow> eventLog option" where
  "recordUpstreamEvent now isLatched scopes model provider route err elo =
     (case upstream_event scopes model provider route err of None \<Rightarrow> elo | Some ev \<Rightarrow> recordEvent now isLatched ev elo)"

definition unpriced_event :: "limitScope list \<Rightarrow> string \<Rightarrow> string \<Rightarrow> string \<Rightarrow> gatewayEvent" where
  "unpriced_event scopes model provider route =
     applyScopeAttribution (blank_event\<lparr>ev_Model := model, ev_Provider := provider, ev_Route := route, ev_Kind := ''unpriced'',
       ev_Status := 402, ev_Message := MsgUnpriced model\<rparr>) scopes"

definition recordUnpricedRefusalEvent :: "gtime \<Rightarrow> limitScope list \<Rightarrow> string \<Rightarrow> string \<Rightarrow> string \<Rightarrow>
    eventLog option \<Rightarrow> 's limiter \<Rightarrow> eventLog option \<times> 's limiter" where
  "recordUnpricedRefusalEvent now scopes model provider route elo l =
     (recordEvent now (storeLatched now l) (unpriced_event scopes model provider route) elo, recordUnpriced402 now model l)"

definition proxy_event :: "limitScope list \<Rightarrow> string \<Rightarrow> string \<Rightarrow> int \<Rightarrow> bool \<Rightarrow> gatewayEvent option" where
  "proxy_event scopes provider route status clientCanceled =
     (if clientCanceled then None
      else if status \<noteq> 0 \<and> status \<noteq> 429 \<and> status < 500 then None
      else Some (applyScopeAttribution (blank_event\<lparr>ev_Provider := provider, ev_Route := route, ev_Kind := ''upstream'',
             ev_Message := (if status = 0 then MsgConnection else MsgProxyStatus route status),
             ev_Status := (if status = 0 then 502 else status)\<rparr>) scopes))"

definition eventRouteForEndpoint :: "string \<Rightarrow> string" where
  "eventRouteForEndpoint endpoint = (if endpoint = ''chat'' then ''chat/completions'' else endpoint)"

subsection \<open>The ring refines a list\<close>

definition ring_rel :: "'e list \<Rightarrow> 'e eventRing \<Rightarrow> bool" where
  "ring_rel hist r \<longleftrightarrow> length (er_buf r) = eventRingCap \<and> er_next r = length hist mod eventRingCap
     \<and> er_n r = min (length hist) eventRingCap
     \<and> (\<forall>i<er_n r. er_buf r ! ((length hist - 1 - i) mod eventRingCap) = hist ! (length hist - 1 - i))"

lemma mod_distinct:
  fixes a b m :: nat
  assumes "a < b" "b - a < m" shows "a mod m \<noteq> b mod m"
proof
  assume "a mod m = b mod m"
  then have "m dvd b - a" using assms(1) by (metis less_imp_le mod_eq_dvd_iff_nat)
  with assms show False by (auto dest: dvd_imp_le)
qed

lemma ring_rel_add:
  assumes "ring_rel hist r" shows "ring_rel (hist @ [ev]) (ring_add ev r)"
proof -
  let ?m = "eventRingCap" and ?L = "length hist"
  have m: "0 < ?m" by (simp add: eventRingCap_def)
  have len: "length (er_buf r) = ?m" and nx: "er_next r = ?L mod ?m" and n: "er_n r = min ?L ?m"
    and ent: "\<And>i. i < er_n r \<Longrightarrow> er_buf r ! ((?L - 1 - i) mod ?m) = hist ! (?L - 1 - i)"
    using assms by (auto simp: ring_rel_def)
  have "er_buf (ring_add ev r) ! ((?L - i) mod ?m) = (hist @ [ev]) ! (?L - i)" if i: "i < min (Suc ?L) ?m" for i
  proof (cases i)
    case 0
    then show ?thesis using len m by (simp add: ring_add_def nx)
  next
    case (Suc j)
    have j: "j < er_n r" "?L - Suc j < ?L" using i Suc by (auto simp: n intro: diff_less)
    have "(?L - i) mod ?m \<noteq> ?L mod ?m" using i Suc by (intro mod_distinct) auto
    then have "er_buf (ring_add ev r) ! ((?L - i) mod ?m) = er_buf r ! ((?L - 1 - j) mod ?m)"
      using Suc by (simp add: ring_add_def nx)
    also have "\<dots> = hist ! (?L - 1 - j)" using j(1) by (rule ent)
    finally show ?thesis using Suc j(2) by (simp add: nth_append)
  qed
  then have "\<forall>i<min (Suc ?L) ?m. er_buf (ring_add ev r) ! ((length (hist @ [ev]) - 1 - i) mod ?m) = (hist @ [ev]) ! (length (hist @ [ev]) - 1 - i)"
    by simp
  moreover have "er_n (ring_add ev r) = min (Suc ?L) ?m" by (auto simp: ring_add_def n)
  moreover have "er_next (ring_add ev r) = Suc ?L mod ?m" by (simp add: ring_add_def nx mod_Suc_eq)
  ultimately show ?thesis using len by (simp add: ring_rel_def) (simp add: ring_add_def)
qed

lemma ring_rel_run: "ring_rel hist r \<Longrightarrow> ring_rel (hist @ evs) (fold ring_add evs r)"
proof (induction evs arbitrary: hist r)
  case (Cons ev evs)
  from Cons.IH [OF ring_rel_add [OF Cons.prems, of ev]] show ?case by simp
qed simp

lemma ring_index:
  assumes "i < length hist" "i < eventRingCap"
  shows "nat ((int (length hist mod eventRingCap) - 1 - int i + int eventRingCap) mod int eventRingCap) = (length hist - 1 - i) mod eventRingCap"
proof -
  let ?m = "eventRingCap" and ?L = "length hist"
  have "(int (?L mod ?m) - 1 - int i + int ?m) mod int ?m = (int ?L - 1 - int i) mod int ?m"
  proof -
    have "(int ?L mod int ?m - (1 + int i)) mod int ?m = (int ?L - (1 + int i)) mod int ?m" by (rule mod_diff_left_eq)
    then show ?thesis by (simp add: zmod_int diff_diff_eq)
  qed
  also have "int ?L - 1 - int i = int (?L - 1 - i)" using assms by simp
  finally have "(int (?L mod ?m) - 1 - int i + int ?m) mod int ?m = int ((?L - 1 - i) mod ?m)" by (simp only: zmod_int)
  then show ?thesis by (simp only: nat_int)
qed

theorem event_ring_refines_list:
  "ring_snapshot limit (fold ring_add evs (eventRing_zero z)) = take (min limit 200) (rev evs)"
proof -
  let ?r = "fold ring_add evs (eventRing_zero z)"
  have "ring_rel ([] @ evs) ?r" by (rule ring_rel_run) (simp add: ring_rel_def eventRing_zero_def)
  then have nx: "er_next ?r = length evs mod eventRingCap" and n: "er_n ?r = min (length evs) eventRingCap"
    and ent: "\<And>i. i < er_n ?r \<Longrightarrow> er_buf ?r ! ((length evs - 1 - i) mod eventRingCap) = evs ! (length evs - 1 - i)"
    by (auto simp: ring_rel_def)
  let ?k = "if limit < er_n ?r then limit else er_n ?r"
  have k: "?k = length (take (min limit 200) (rev evs))" by (simp add: n eventRingCap_def min_def)
  show ?thesis
  proof (rule nth_equalityI)
    show "length (ring_snapshot limit ?r) = length (take (min limit 200) (rev evs))"
      using k by (simp add: ring_snapshot_def Let_def)
    fix i assume "i < length (ring_snapshot limit ?r)"
    then have i: "i < ?k" by (simp add: ring_snapshot_def Let_def)
    then have i2: "i < er_n ?r" "i < length evs" "i < eventRingCap" by (auto simp: n split: if_splits)
    have "ring_snapshot limit ?r ! i = evs ! (length evs - 1 - i)"
      using i ent [OF i2(1)] ring_index [OF i2(2,3)] by (simp add: ring_snapshot_def Let_def nx)
    also have "\<dots> = take (min limit 200) (rev evs) ! i"
      using i k i2(2) by (simp add: rev_nth)
    finally show "ring_snapshot limit ?r ! i = take (min limit 200) (rev evs) ! i" .
  qed
qed

text \<open>Pushes within one second are at most fifty.\<close>

definition pushes :: "gtime list \<Rightarrow> eventLog \<Rightarrow> nat \<times> eventLog" where
  "pushes ts el = fold (\<lambda>t (k, e). case allowPush t e of (b, e') \<Rightarrow> (if b then Suc k else k, e')) ts (0, el)"

lemma pushes_bounded:
  assumes "\<forall>t\<in>set ts. time_Unix t = sec"
  shows "fst (pushes ts el) \<le> eventPushPerSecond"
proof -
  have "fst (fold (\<lambda>t (k, e). case allowPush t e of (b, e') \<Rightarrow> (if b then Suc k else k, e')) ts (k, e)) \<le> eventPushPerSecond"
    if "\<forall>t\<in>set ts. time_Unix t = sec" "k \<le> eventPushPerSecond" "el_throttleSecond e = sec \<longrightarrow> k \<le> el_throttleCount e"
      "el_throttleSecond e \<noteq> sec \<longrightarrow> k = 0" for ts k e
    using that
  proof (induction ts arbitrary: k e)
    case (Cons t ts)
    obtain b e' where b: "allowPush t e = (b, e')" by fastforce
    have t: "time_Unix t = sec" using Cons.prems(1) by simp
    have "(if b then Suc k else k) \<le> eventPushPerSecond \<and> el_throttleSecond e' = sec \<and> (if b then Suc k else k) \<le> el_throttleCount e'"
      using b Cons.prems(2-4) t by (auto simp: allowPush_def Let_def split: if_splits)
    with Cons.IH [of "if b then Suc k else k" e'] Cons.prems(1) show ?case by (simp add: b)
  qed simp
  from this [of ts 0 el] assms show ?thesis by (simp add: pushes_def)
qed

end
