(* ===== verification/Unified.thy ===== *)
theory Unified
  imports Failover Cache Events Concurrency
begin

text \<open>
  The metered request path (routes_unified.go): admission, candidates, the loop over candidates with
  cache, price gate, upstream call, health, accounting and failover, and the mapping of errors to
  responses.  This theory composes the limiter, the registry, failover, the cache, pricing, the
  request breaker and the event log.

  What the gateway calls is an environment: the adapter call of a candidate with all the client sees
  of it, the state of the request context, the clock, the cache store, the hash and the codecs.  The
  clock is read once before and once after a call.  Response headers, log texts and the in-process
  metrics of metrics.go are not part of the state.  \<open>resolve\<close> changes nothing of the registry but the
  set of warnings already given, so the later reads of the registry use the state before it.
\<close>

subsection \<open>Estimates\<close>

definition maxEstimatedPromptTokens :: int where "maxEstimatedPromptTokens = 1048576"

definition estimatePromptTokens :: "int \<Rightarrow> int" where
  "estimatePromptTokens bodyBytes =
     (let est = wrap64 (bodyBytes + 3) sdiv 4 in if maxEstimatedPromptTokens < est then maxEstimatedPromptTokens else est)"

subsection \<open>Environment, configuration and state\<close>

record upstreamResult =
  ur_usage :: usage
  ur_err :: "go_error option"
  ur_wrote :: bool
  ur_status :: int
  ur_contentType :: string
  ur_body :: string
  ur_oversize :: bool
  ur_latency :: "latencySample option"

record ('w, 'c) gatewayEnv =
  ge_call :: "resolved \<Rightarrow> 'w \<Rightarrow> upstreamResult \<times> 'w"
  ge_ctxErr :: "'w \<Rightarrow> bool"
  ge_now :: "'w \<Rightarrow> gtime"
  ge_cacheOps :: "'c cacheOps"
  ge_hash :: "string \<Rightarrow> string"
  ge_marshal :: "(string \<times> string) list \<Rightarrow> string"
  ge_cachedUsage :: "string \<Rightarrow> usage"
  ge_table :: "string \<rightharpoonup> builtinModelMeta"
  ge_unmarshal :: "string \<Rightarrow> (string \<times> bool \<times> (string \<times> string) list) option"

record gatewayConfig =
  gc_failover :: failoverConfig
  gc_Pricing :: "string \<rightharpoonup> ModelPricing option"
  gc_ModelMeta :: "string \<rightharpoonup> ModelMetaConfig option"
  gc_AccountHits :: bool
  gc_AllowUnpricedWithCostBudget :: bool
  gc_latency :: bool
  gc_unifiedRequestBytes :: nat
  gc_bodyAdmissionCap :: nat

record unifiedRequest =
  uq_model :: string
  uq_streaming :: bool
  uq_bodyLen :: int
  uq_endpoint :: string
  uq_fields :: "(string \<times> string) list"

text \<open>\<open>gw_calls\<close> lists the adapter calls made, each with its clock reading, the provider failed over
  from, the candidate and its result.\<close>

record call_record =
  cl_now :: gtime
  cl_prev :: string
  cl_cand :: resolved
  cl_result :: upstreamResult

record ('s, 'c, 'w) gateway =
  gw_limiter :: "'s limiter"
  gw_registry :: modelRegistry
  gw_health :: "requestHealthTracker option"
  gw_cache :: "'c responseCache option"
  gw_warn :: warnState
  gw_failoverLog :: logGate
  gw_events :: "eventLog option"
  gw_bodyInFlight :: nat
  gw_world :: 'w
  gw_calls :: "call_record list"

datatype reply =
    NoReply
  | LimitRefused limitViolation
  | BodyRefused int string
  | ModelRequired
  | ResolveRefused resolveError
  | ServedFromCache resolved cachedResponse
  | UnpricedRefused resolved
  | ServedUpstream resolved upstreamResult
  | AdapterFailed resolved go_error bool

subsection \<open>One candidate\<close>

definition cacheable :: "unifiedRequest \<Rightarrow> group \<Rightarrow> 'c responseCache option \<Rightarrow> bool" where
  "cacheable rq grp c = (case c of None \<Rightarrow> False | Some rc \<Rightarrow>
     \<not> uq_streaming rq \<and> groupCacheEnabled grp \<and> (uq_endpoint rq \<noteq> ''embeddings'' \<or> rc_embeddings rc))"

definition request_cacheKey :: "('w, 'c) gatewayEnv \<Rightarrow> unifiedRequest \<Rightarrow> string \<Rightarrow> resolved \<Rightarrow> string" where
  "request_cacheKey env rq firstModel cand =
     cacheKey (ge_hash env) (ge_marshal env) (rs_provider cand) (rs_upstreamModel cand) (uq_model rq) (uq_endpoint rq)
       (AList.update ''model'' firstModel (uq_fields rq))"

definition cand_cost :: "('w, 'c) gatewayEnv \<Rightarrow> gatewayConfig \<Rightarrow> resolved \<Rightarrow> usage \<Rightarrow> warnState \<Rightarrow> int \<times> warnState" where
  "cand_cost env cfg cand u w = unifiedCostMicros (ge_table env) (rs_canonical cand) (rs_upstreamModel cand) u (gc_Pricing cfg) (gc_ModelMeta cfg) w"

definition no_latency :: latencySample where
  "no_latency = \<lparr>lat_duration = 0, lat_ttfb = 0, lat_hasTTFB = False, lat_streaming = False\<rparr>"

definition blank_extras :: "string \<Rightarrow> accountExtras" where
  "blank_extras provider = \<lparr>ax_provider = provider, ax_failoverFrom = [], ax_lat = no_latency, ax_hasLat = False,
     ax_cacheMiss = False, ax_noModelHistograms = False\<rparr>"

text \<open>A cache hit: optional accounting of the hit, and the saved cost, whose price lookup runs with a
  warning function that does nothing.\<close>

definition account_hit :: "('w, 'c) gatewayEnv \<Rightarrow> gatewayConfig \<Rightarrow> limitScope list \<Rightarrow> resolved \<Rightarrow> cachedResponse \<Rightarrow>
    ('s, 'c, 'w) gateway \<Rightarrow> ('s, 'c, 'w) gateway" where
  "account_hit env cfg scopes cand cached g =
     (let now = ge_now env (gw_world g); u = ge_cachedUsage env (cr_Body cached);
          g1 = (if gc_AccountHits cfg
                then (case cand_cost env cfg cand u (gw_warn g) of (cost, w) \<Rightarrow>
                        g\<lparr>gw_limiter := accountWith now now scopes u cost (blank_extras (rs_provider cand)) (gw_limiter g), gw_warn := w\<rparr>)
                else g)
      in if lim_statsAdmin (gw_limiter g1)
         then (case cand_cost env cfg cand u (gw_warn g1) of (saved, w) \<Rightarrow>
                 g1\<lparr>gw_limiter := recordCacheHit now (rs_canonical cand) saved (gw_limiter g1),
                    gw_warn := w\<lparr>ws_warnings := ws_warnings (gw_warn g1)\<rparr>\<rparr>)
         else g1)"

definition unpriced_refused :: "('w, 'c) gatewayEnv \<Rightarrow> gatewayConfig \<Rightarrow> limitScope list \<Rightarrow> resolved \<Rightarrow> bool" where
  "unpriced_refused env cfg scopes cand \<longleftrightarrow>
     \<not> gc_AllowUnpricedWithCostBudget cfg
     \<and> \<not> priceKnown (ge_table env) (rs_canonical cand) (rs_upstreamModel cand) (gc_Pricing cfg) (gc_ModelMeta cfg)
     \<and> scopesHaveCostBudget scopes"

definition billed_usage :: "unifiedRequest \<Rightarrow> upstreamResult \<Rightarrow> usage" where
  "billed_usage rq res =
     (let u = ur_usage res; est = u\<lparr>us_prompt := estimatePromptTokens (uq_bodyLen rq), us_estimated := True\<rparr> in
      if usage_total u = 0
      then if uq_streaming rq \<and> ur_err res \<noteq> None \<and> ur_wrote res then est
           else if uq_streaming rq then u
           else if ur_err res = None then est else u
      else u)"

definition call_extras :: "gatewayConfig \<Rightarrow> bool \<Rightarrow> usage \<Rightarrow> call_record \<Rightarrow> accountExtras" where
  "call_extras cfg cacheReq u cl =
     (blank_extras (rs_provider (cl_cand cl)))\<lparr>
        ax_cacheMiss := cacheReq \<and> (ur_err (cl_result cl) = None \<or> 0 < usage_total u),
        ax_failoverFrom := cl_prev cl,
        ax_lat := (case ur_latency (cl_result cl) of Some l \<Rightarrow> if gc_latency cfg then l else no_latency | None \<Rightarrow> no_latency),
        ax_hasLat := gc_latency cfg \<and> ur_latency (cl_result cl) \<noteq> None\<rparr>"

definition account_call :: "('w, 'c) gatewayEnv \<Rightarrow> gatewayConfig \<Rightarrow> unifiedRequest \<Rightarrow> bool \<Rightarrow> limitScope list \<Rightarrow> call_record \<Rightarrow>
    's limiter \<times> warnState \<Rightarrow> 's limiter \<times> warnState" where
  "account_call env cfg rq cacheReq scopes cl = (\<lambda>(l, w).
     let u = billed_usage rq (cl_result cl);
         acctScopes = (if ur_err (cl_result cl) = None \<or> 0 < usage_total u then withModelScope scopes (rs_canonical (cl_cand cl)) else scopes)
     in case cand_cost env cfg (cl_cand cl) u w of
          (cost, w1) \<Rightarrow> (accountWith (cl_now cl) (cl_now cl) acctScopes u cost (call_extras cfg cacheReq u cl) l, w1))"

definition record_health :: "gatewayConfig \<Rightarrow> gtime \<Rightarrow> string \<Rightarrow> go_error option \<Rightarrow> requestHealthTracker option \<Rightarrow> requestHealthTracker option" where
  "record_health cfg now provider err tr =
     (if fo_enabled (gc_failover cfg)
      then (case requestHealthOutcome err of (success, recorded) \<Rightarrow> if recorded then tracker_record now provider success tr else tr)
      else tr)"

datatype step_result = Finished reply | NextCandidate go_error

text \<open>The upstream call of a candidate and everything that follows it.\<close>

definition call_candidate :: "('w, 'c) gatewayEnv \<Rightarrow> gatewayConfig \<Rightarrow> unifiedRequest \<Rightarrow> group \<Rightarrow> limitScope list \<Rightarrow> bool \<Rightarrow> string \<Rightarrow>
    bool \<Rightarrow> string \<Rightarrow> resolved \<Rightarrow> ('s, 'c, 'w) gateway \<Rightarrow> step_result \<times> ('s, 'c, 'w) gateway" where
  "call_candidate env cfg rq grp scopes cacheReq firstModel hasMore prev cand g =
     (case ge_call env cand (gw_world g) of (res, w1) \<Rightarrow>
        let now = ge_now env w1;
            cl = \<lparr>cl_now = now, cl_prev = prev, cl_cand = cand, cl_result = res\<rparr>;
            (l1, warn1) = account_call env cfg rq cacheReq scopes cl (gw_limiter g, gw_warn g);
            route = eventRouteForEndpoint (uq_endpoint rq);
            g1 = g\<lparr>gw_world := w1, gw_calls := gw_calls g @ [cl], gw_limiter := l1, gw_warn := warn1,
                   gw_health := record_health cfg now (rs_provider cand) (ur_err res) (gw_health g)\<rparr>;
            g2 = (case gw_cache g1 of
                    Some c \<Rightarrow> if cacheReq \<and> ur_err res = None \<and> ur_status res = 200 \<and> \<not> ur_oversize res
                              then g1\<lparr>gw_cache := Some (cache_store (ge_cacheOps env) now (request_cacheKey env rq firstModel cand) (ur_status res)
                                                          (ur_contentType res) (ur_body res) (effectiveTTL c grp) c)\<rparr>
                              else g1
                  | None \<Rightarrow> g1);
            failed = (\<lambda>e. g2\<lparr>gw_events := recordUpstreamEvent now (storeLatched now l1) scopes (rs_canonical cand) (rs_provider cand) route (Some e) (gw_events g2)\<rparr>)
        in case ur_err res of
             None \<Rightarrow> (Finished (ServedUpstream cand res), g2)
           | Some e \<Rightarrow>
               if ur_wrote res then (Finished (AdapterFailed cand e True), failed e)
               else if hasMore \<and> failoverEligible (Some e) then (NextCandidate e, g2)
               else (Finished (AdapterFailed cand e False), failed e))"

definition try_candidate :: "('w, 'c) gatewayEnv \<Rightarrow> gatewayConfig \<Rightarrow> unifiedRequest \<Rightarrow> group \<Rightarrow> limitScope list \<Rightarrow> bool \<Rightarrow> string \<Rightarrow>
    bool \<Rightarrow> string \<Rightarrow> resolved \<Rightarrow> ('s, 'c, 'w) gateway \<Rightarrow> step_result \<times> ('s, 'c, 'w) gateway" where
  "try_candidate env cfg rq grp scopes cacheReq firstModel hasMore prev cand g =
     (let now = ge_now env (gw_world g);
          (hit, g1) = (case gw_cache g of
             Some c \<Rightarrow> if cacheReq
                       then (case cache_lookup (ge_cacheOps env) now (request_cacheKey env rq firstModel cand) c of (h, c1) \<Rightarrow> (h, g\<lparr>gw_cache := Some c1\<rparr>))
                       else (None, g)
           | None \<Rightarrow> (None, g))
      in case hit of
           Some cached \<Rightarrow> (Finished (ServedFromCache cand cached), account_hit env cfg scopes cand cached g1)
         | None \<Rightarrow>
             if unpriced_refused env cfg scopes cand
             then (case recordUnpricedRefusalEvent now scopes (rs_canonical cand) (rs_provider cand) (eventRouteForEndpoint (uq_endpoint rq)) (gw_events g1) (gw_limiter g1) of
                     (ev, l) \<Rightarrow> (Finished (UnpricedRefused cand), g1\<lparr>gw_events := ev, gw_limiter := l\<rparr>))
             else call_candidate env cfg rq grp scopes cacheReq firstModel hasMore prev cand g1)"

text \<open>The loop; \<open>last_failed\<close> is the previous candidate with its error.\<close>

fun run_candidates :: "('w, 'c) gatewayEnv \<Rightarrow> gatewayConfig \<Rightarrow> unifiedRequest \<Rightarrow> group \<Rightarrow> limitScope list \<Rightarrow> bool \<Rightarrow> string \<Rightarrow>
    (resolved \<times> go_error) option \<Rightarrow> resolved list \<Rightarrow> ('s, 'c, 'w) gateway \<Rightarrow> reply \<times> ('s, 'c, 'w) gateway" where
  "run_candidates env cfg rq grp scopes cacheReq firstModel last_failed [] g = (NoReply, g)"
| "run_candidates env cfg rq grp scopes cacheReq firstModel last_failed (cand # rest) g =
     (case last_failed of
        Some (prevCand, e) \<Rightarrow>
          if ge_ctxErr env (gw_world g)
          then (let now = ge_now env (gw_world g) in
                (AdapterFailed prevCand e False,
                 g\<lparr>gw_events := recordUpstreamEvent now (storeLatched now (gw_limiter g)) scopes (rs_canonical prevCand) (rs_provider prevCand)
                                  (eventRouteForEndpoint (uq_endpoint rq)) (Some e) (gw_events g)\<rparr>))
          else (case try_candidate env cfg rq grp scopes cacheReq firstModel (rest \<noteq> []) (rs_provider prevCand) cand
                       (g\<lparr>gw_failoverLog := snd (shouldLog (ge_now env (gw_world g)) (gw_failoverLog g))\<rparr>) of
                  (Finished r, g1) \<Rightarrow> (r, g1)
                | (NextCandidate e1, g1) \<Rightarrow> run_candidates env cfg rq grp scopes cacheReq firstModel (Some (cand, e1)) rest g1)
      | None \<Rightarrow>
          (case try_candidate env cfg rq grp scopes cacheReq firstModel (rest \<noteq> []) [] cand g of
             (Finished r, g1) \<Rightarrow> (r, g1)
           | (NextCandidate e1, g1) \<Rightarrow> run_candidates env cfg rq grp scopes cacheReq firstModel (Some (cand, e1)) rest g1))"

definition runMeteredCall :: "('w, 'c) gatewayEnv \<Rightarrow> gatewayConfig \<Rightarrow> unifiedRequest \<Rightarrow> group \<Rightarrow> limitScope list \<Rightarrow>
    ('s, 'c, 'w) gateway \<Rightarrow> reply \<times> ('s, 'c, 'w) gateway" where
  "runMeteredCall env cfg rq grp scopes g =
     (case (if fo_enabled (gc_failover cfg) then resolveWithCandidates (gw_registry g) (uq_model rq) grp
            else (case resolvePrimaryOnly (gw_registry g) (uq_model rq) grp of
                    (Inl e, m1) \<Rightarrow> (Inl e, m1) | (Inr p, m1) \<Rightarrow> (Inr (p, []), m1))) of
        (Inl e, m1) \<Rightarrow> (ResolveRefused e, g\<lparr>gw_registry := m1\<rparr>)
      | (Inr (primary, extra), m1) \<Rightarrow>
          (case orderedFailoverCandidates (gc_failover cfg) (ge_now env (gw_world g)) (gw_registry g) (gw_health g) primary extra of
             (ordered, tr1) \<Rightarrow>
               let candidates = capFailoverCandidates (fst (filterCandidatesByCost (ge_table env) (gc_Pricing cfg) ordered))
                                  (fo_maxAttempts (gc_failover cfg));
                   g1 = g\<lparr>gw_registry := m1, gw_health := tr1\<rparr>
               in run_candidates env cfg rq grp scopes (cacheable rq grp (gw_cache g1))
                    (if candidates = [] then uq_model rq else rs_upstreamModel (hd candidates)) None candidates g1))"

definition admitRequestForRoute :: "('w, 'c) gatewayEnv \<Rightarrow> user \<Rightarrow> group \<Rightarrow> string \<Rightarrow> ('s, 'c, 'w) gateway \<Rightarrow>
    (limitViolation + limitScope list) \<times> ('s, 'c, 'w) gateway" where
  "admitRequestForRoute env u grp route g =
     (let now = ge_now env (gw_world g); scopes = withTotalScope (buildLimitScopes u grp) in
      case checkAndCount now now now scopes (gw_limiter g) of
        (Some v, l1) \<Rightarrow> (Inl v, g\<lparr>gw_limiter := l1, gw_events := recordLimitEvent now (storeLatched now l1) scopes route v (gw_events g)\<rparr>)
      | (None, l1) \<Rightarrow> (Inr scopes, g\<lparr>gw_limiter := recordLastSeen now scopes now l1\<rparr>))"

subsection \<open>Reading the body\<close>

text \<open>A body is the bytes it yields and whether reading fails after them.\<close>

definition readCapped :: "string \<times> bool \<Rightarrow> nat \<Rightarrow> (string \<times> bool) option" where
  "readCapped src limit = (case src of (bytes, fails) \<Rightarrow>
     if length bytes \<le> limit \<and> fails then None
     else if limit < length bytes then Some (take limit bytes, True) else Some (bytes, False))"

definition bodyAdmissionRetryAfterSeconds :: int where "bodyAdmissionRetryAfterSeconds = 2"

definition acquireBodyAdmission :: "('w, 'c) gatewayEnv \<Rightarrow> gatewayConfig \<Rightarrow> ('s, 'c, 'w) gateway \<Rightarrow> bool \<times> ('s, 'c, 'w) gateway" where
  "acquireBodyAdmission env cfg g =
     (if gw_bodyInFlight g < gc_bodyAdmissionCap cfg then (True, g\<lparr>gw_bodyInFlight := gw_bodyInFlight g + 1\<rparr>)
      else (let now = ge_now env (gw_world g) in
            (False, g\<lparr>gw_events := recordEvent now (storeLatched now (gw_limiter g))
                        (blank_event\<lparr>ev_Route := ''capacity'', ev_Kind := ''capacity'', ev_Message := MsgCapacity, ev_Status := 503\<rparr>) (gw_events g)\<rparr>)))"

definition decoded_request :: "('w, 'c) gatewayEnv \<Rightarrow> string \<Rightarrow> string \<Rightarrow> unifiedRequest option" where
  "decoded_request env endpoint body =
     map_option (\<lambda>(model, streaming, flds). \<lparr>uq_model = model, uq_streaming = streaming, uq_bodyLen = int (length body),
       uq_endpoint = endpoint, uq_fields = flds\<rparr>) (ge_unmarshal env body)"

definition readAndDecodeUnifiedBody :: "('w, 'c) gatewayEnv \<Rightarrow> gatewayConfig \<Rightarrow> string \<Rightarrow> string \<times> bool \<Rightarrow> ('s, 'c, 'w) gateway \<Rightarrow>
    (reply + unifiedRequest) \<times> ('s, 'c, 'w) gateway" where
  "readAndDecodeUnifiedBody env cfg endpoint src g =
     (case acquireBodyAdmission env cfg g of
        (False, g1) \<Rightarrow> (Inl (BodyRefused 503 ''server_error''), g1)
      | (True, g1) \<Rightarrow>
          ((case readCapped src (gc_unifiedRequestBytes cfg) of
              None \<Rightarrow> Inl (BodyRefused 400 ''invalid_request_error'')
            | Some (body, True) \<Rightarrow> Inl (BodyRefused 413 ''invalid_request_error'')
            | Some (body, False) \<Rightarrow>
                (case decoded_request env endpoint body of
                   None \<Rightarrow> Inl (BodyRefused 400 ''invalid_request_error'') | Some rq \<Rightarrow> Inr rq)),
           g1\<lparr>gw_bodyInFlight := gw_bodyInFlight g1 - 1\<rparr>))"

definition runUnified :: "('w, 'c) gatewayEnv \<Rightarrow> gatewayConfig \<Rightarrow> user \<Rightarrow> group \<Rightarrow> string \<Rightarrow> string \<times> bool \<Rightarrow>
    ('s, 'c, 'w) gateway \<Rightarrow> reply \<times> ('s, 'c, 'w) gateway" where
  "runUnified env cfg u grp endpoint src g =
     (case admitRequestForRoute env u grp (eventRouteForEndpoint endpoint) g of
        (Inl v, g1) \<Rightarrow> (LimitRefused v, g1)
      | (Inr scopes, g1) \<Rightarrow>
          (case readAndDecodeUnifiedBody env cfg endpoint src g1 of
             (Inl r, g2) \<Rightarrow> (r, g2)
           | (Inr rq, g2) \<Rightarrow> if uq_model rq = [] then (ModelRequired, g2) else runMeteredCall env cfg rq grp scopes g2))"

subsection \<open>Responses\<close>

datatype replyText = TextAlias string string | TextUnknownModel | TextDenied | TextViolation violationMessage | TextString string

text \<open>\<open>HttpEnvelope\<close> carries status, error type, message and Retry-After; \<open>HttpUpstreamError\<close> relays a
  provider's status; \<open>HttpSseError\<close> appends an error event to a started stream.\<close>

datatype http_reply = HttpNothing | HttpEnvelope int string replyText "int option" | HttpUpstreamError int string | HttpSseError string string

definition writeModelResolveErrorEnvelope :: "resolveError \<Rightarrow> http_reply" where
  "writeModelResolveErrorEnvelope e =
     (case e of AliasTarget a t \<Rightarrow> HttpEnvelope 404 ''invalid_request_error'' (TextAlias a t) None
      | ModelUnknown \<Rightarrow> HttpEnvelope 404 ''invalid_request_error'' TextUnknownModel None
      | ModelDenied \<Rightarrow> HttpEnvelope 403 ''invalid_request_error'' TextDenied None)"

definition writeLimitViolationEnvelope :: "limitViolation \<Rightarrow> http_reply" where
  "writeLimitViolationEnvelope v =
     (if lv_storeDown v then HttpEnvelope 503 ''server_error'' (TextViolation (lv_message v)) None
      else HttpEnvelope 429 ''rate_limit_error'' (TextViolation (lv_message v)) (if 0 < lv_retryAfter v then Some (lv_retryAfter v) else None))"

definition midStreamErrorMessage :: "go_error \<Rightarrow> string \<Rightarrow> (string \<times> string) option" where
  "midStreamErrorMessage err provider =
     (if errors_Is Canceled err then None
      else (case err of
              ProviderHTTPError _ \<Rightarrow> Some (provider @ '' upstream error'', ''upstream_error'')
            | TranslateError msg _ \<Rightarrow> Some (msg, ''invalid_request_error'')
            | ResponseTranslationError _ \<Rightarrow> Some (''failed to translate provider response'', ''server_error'')
            | _ \<Rightarrow> Some (''upstream connection error'', ''server_error'')))"

definition handleAdapterErrorEnvelope :: "bool \<Rightarrow> bool \<Rightarrow> go_error \<Rightarrow> string \<Rightarrow> http_reply" where
  "handleAdapterErrorEnvelope wroteHeader eventStream err provider =
     (if wroteHeader
      then (case midStreamErrorMessage err provider of
              Some (msg, errType) \<Rightarrow> if eventStream then HttpSseError msg errType else HttpNothing
            | None \<Rightarrow> HttpNothing)
      else (case err of
        ProviderHTTPError status \<Rightarrow> HttpUpstreamError status provider
      | TranslateError msg notSupported \<Rightarrow> HttpEnvelope (if notSupported then 501 else 400) ''invalid_request_error'' (TextString msg) None
      | ResponseTranslationError _ \<Rightarrow> HttpEnvelope 502 ''server_error'' (TextString ''failed to translate provider response'') None
      | _ \<Rightarrow> if errors_Is Canceled err then HttpNothing
             else HttpEnvelope 502 ''server_error'' (TextString ''upstream connection error'') None))"

subsection \<open>One request, its calls and its reply\<close>

text \<open>A call after which the loop may go on: it failed in a way that is worth another provider and
  nothing has reached the client.\<close>

definition failed_over :: "call_record \<Rightarrow> bool" where
  "failed_over cl \<longleftrightarrow> ur_err (cl_result cl) \<noteq> None \<and> failoverEligible (ur_err (cl_result cl)) \<and> \<not> ur_wrote (cl_result cl)"

text \<open>The calls that justify a reply.\<close>

fun reply_from :: "reply \<Rightarrow> call_record list \<Rightarrow> bool" where
  "reply_from (ServedUpstream c res) cs \<longleftrightarrow>
     cs \<noteq> [] \<and> (\<forall>x\<in>set (butlast cs). failed_over x) \<and> cl_cand (last cs) = c \<and> cl_result (last cs) = res \<and> ur_err res = None"
| "reply_from (AdapterFailed c e wrote) cs \<longleftrightarrow>
     cs \<noteq> [] \<and> (\<forall>x\<in>set (butlast cs). failed_over x) \<and> cl_cand (last cs) = c
     \<and> ur_err (cl_result (last cs)) = Some e \<and> ur_wrote (cl_result (last cs)) = wrote"
| "reply_from (ServedFromCache c cached) cs \<longleftrightarrow> (\<forall>x\<in>set cs. failed_over x)"
| "reply_from (UnpricedRefused c) cs \<longleftrightarrow> (\<forall>x\<in>set cs. failed_over x)"
| "reply_from _ cs \<longleftrightarrow> cs = []"

text \<open>Replies whose only accounting is that of their calls.\<close>

fun by_call :: "reply \<Rightarrow> bool" where
  "by_call (ServedFromCache c cached) = False" | "by_call (UnpricedRefused c) = False" | "by_call (LimitRefused v) = False"
| "by_call _ = True"

lemma account_call_pair:
  "(case account_call env cfg rq cacheReq scopes cl lw of (l, w) \<Rightarrow> f l w)
   = f (fst (account_call env cfg rq cacheReq scopes cl lw)) (snd (account_call env cfg rq cacheReq scopes cl lw))"
  by (simp add: case_prod_beta)

lemma call_candidate_step:
  assumes "call_candidate env cfg rq grp scopes cacheReq firstModel hasMore prev cand g = (r, g')"
  obtains cl where "gw_calls g' = gw_calls g @ [cl]" and "cl_cand cl = cand"
    and "(gw_limiter g', gw_warn g') = account_call env cfg rq cacheReq scopes cl (gw_limiter g, gw_warn g)"
    and "case r of Finished x \<Rightarrow> reply_from x [cl] \<and> by_call x
         | NextCandidate e \<Rightarrow> failed_over cl \<and> ur_err (cl_result cl) = Some e \<and> hasMore"
proof -
  obtain res w1 where c: "ge_call env cand (gw_world g) = (res, w1)" by fastforce
  let ?cl = "\<lparr>cl_now = ge_now env w1, cl_prev = prev, cl_cand = cand, cl_result = res\<rparr>"
  show thesis
    by (rule that [of ?cl]; insert assms)
      (auto simp: call_candidate_def c Let_def account_call_pair failed_over_def split: option.splits if_splits)
qed

lemma try_candidate_step:
  assumes "try_candidate env cfg rq grp scopes cacheReq firstModel hasMore prev cand g = (r, g')"
  obtains (hit) cached where "r = Finished (ServedFromCache cand cached)" and "gw_calls g' = gw_calls g"
  | (unpriced) "r = Finished (UnpricedRefused cand)" and "gw_calls g' = gw_calls g" and "unpriced_refused env cfg scopes cand"
  | (call) cl where "gw_calls g' = gw_calls g @ [cl]" and "cl_cand cl = cand" and "\<not> unpriced_refused env cfg scopes cand"
    and "(gw_limiter g', gw_warn g') = account_call env cfg rq cacheReq scopes cl (gw_limiter g, gw_warn g)"
    and "case r of Finished x \<Rightarrow> reply_from x [cl] \<and> by_call x
         | NextCandidate e \<Rightarrow> failed_over cl \<and> ur_err (cl_result cl) = Some e \<and> hasMore"
proof -
  obtain h g1 where look: "(case gw_cache g of
             Some c \<Rightarrow> if cacheReq
                       then (case cache_lookup (ge_cacheOps env) (ge_now env (gw_world g)) (request_cacheKey env rq firstModel cand) c of (h, c1) \<Rightarrow> (h, g\<lparr>gw_cache := Some c1\<rparr>))
                       else (None, g)
           | None \<Rightarrow> (None, g)) = (h, g1)" by fastforce
  then have g1: "gw_calls g1 = gw_calls g" "gw_limiter g1 = gw_limiter g" "gw_warn g1 = gw_warn g"
    by (auto split: option.splits if_splits prod.splits)
  consider cached where "h = Some cached" | "h = None" "unpriced_refused env cfg scopes cand" | "h = None" "\<not> unpriced_refused env cfg scopes cand"
    by blast
  then show thesis
  proof cases
    case 1
    with assms look g1 have "r = Finished (ServedFromCache cand cached) \<and> gw_calls g' = gw_calls g"
      by (auto simp: try_candidate_def account_hit_def Let_def split: prod.splits if_splits)
    with hit show thesis by blast
  next
    case 2
    with assms look g1 have "r = Finished (UnpricedRefused cand) \<and> gw_calls g' = gw_calls g"
      by (auto simp: try_candidate_def Let_def split: prod.splits)
    with unpriced 2 show thesis by blast
  next
    case 3
    with assms look have "call_candidate env cfg rq grp scopes cacheReq firstModel hasMore prev cand g1 = (r, g')"
      by (simp add: try_candidate_def Let_def)
    then show thesis by (rule call_candidate_step) (rule call; simp add: g1 3)
  qed
qed

text \<open>What the rest of the loop contributes: its calls are the next candidates in order, each past the
  price gate and accounted once, and they complete the reply.\<close>

definition loop_result :: "('w, 'c) gatewayEnv \<Rightarrow> gatewayConfig \<Rightarrow> unifiedRequest \<Rightarrow> bool \<Rightarrow> limitScope list \<Rightarrow> resolved list \<Rightarrow>
    ('s, 'c, 'w) gateway \<Rightarrow> call_record list \<Rightarrow> reply \<times> ('s, 'c, 'w) gateway \<Rightarrow> bool" where
  "loop_result env cfg rq cacheReq scopes cands g cs0 out = (case out of (r, g') \<Rightarrow>
     \<exists>cs. gw_calls g' = gw_calls g @ cs \<and> map cl_cand cs = take (length cs) cands
       \<and> (\<forall>cl\<in>set cs. \<not> unpriced_refused env cfg scopes (cl_cand cl)) \<and> reply_from r (cs0 @ cs)
       \<and> (by_call r \<longrightarrow> (gw_limiter g', gw_warn g') = fold (account_call env cfg rq cacheReq scopes) cs (gw_limiter g, gw_warn g)))"

definition pending :: "call_record list \<Rightarrow> (resolved \<times> go_error) option \<Rightarrow> bool" where
  "pending cs0 last_failed \<longleftrightarrow> (\<forall>x\<in>set cs0. failed_over x) \<and>
     (case last_failed of None \<Rightarrow> cs0 = []
      | Some (c, e) \<Rightarrow> cs0 \<noteq> [] \<and> cl_cand (last cs0) = c \<and> ur_err (cl_result (last cs0)) = Some e)"

lemma reply_from_append:
  "by_call x \<Longrightarrow> reply_from x [cl] \<Longrightarrow> \<forall>c\<in>set cs0. failed_over c \<Longrightarrow> reply_from x (cs0 @ [cl])"
  by (cases x) auto

lemma loop_result_step:
  assumes step: "try_candidate env cfg rq grp scopes cacheReq firstModel (rest \<noteq> []) prev cand g0 = (s, g1)"
    and same: "gw_calls g0 = gw_calls g" "gw_limiter g0 = gw_limiter g" "gw_warn g0 = gw_warn g"
    and prior: "\<forall>x\<in>set cs0. failed_over x"
    and rec: "\<And>e cs1. s = NextCandidate e \<Longrightarrow> rest \<noteq> [] \<Longrightarrow> pending cs1 (Some (cand, e)) \<Longrightarrow>
                loop_result env cfg rq cacheReq scopes rest g1 cs1 (next e)"
  shows "loop_result env cfg rq cacheReq scopes (cand # rest) g cs0 (case s of Finished r \<Rightarrow> (r, g1) | NextCandidate e \<Rightarrow> next e)"
  using step
proof (cases rule: try_candidate_step)
  case (hit cached)
  then show ?thesis using same prior by (auto simp: loop_result_def)
next
  case unpriced
  then show ?thesis using same prior by (auto simp: loop_result_def)
next
  case (call cl)
  show ?thesis
  proof (cases s)
    case (Finished x)
    with call have x: "reply_from x [cl]" "by_call x" by simp_all
    then have "reply_from x (cs0 @ [cl])" using prior by (intro reply_from_append)
    with call same Finished show ?thesis
      by (auto simp: loop_result_def intro!: exI [of _ "[cl]"])
  next
    case (NextCandidate e)
    with call have cl: "failed_over cl" "ur_err (cl_result cl) = Some e" "rest \<noteq> []" by simp_all
    then have "pending (cs0 @ [cl]) (Some (cand, e))" using prior call by (auto simp: pending_def)
    from rec [OF NextCandidate cl(3) this] obtain r g' cs where n: "next e = (r, g')"
      "gw_calls g' = gw_calls g1 @ cs" "map cl_cand cs = take (length cs) rest"
      "\<forall>cl\<in>set cs. \<not> unpriced_refused env cfg scopes (cl_cand cl)" "reply_from r ((cs0 @ [cl]) @ cs)"
      "by_call r \<Longrightarrow> (gw_limiter g', gw_warn g') = fold (account_call env cfg rq cacheReq scopes) cs (gw_limiter g1, gw_warn g1)"
      by (auto simp: loop_result_def)
    have "loop_result env cfg rq cacheReq scopes (cand # rest) g cs0 (r, g')"
      unfolding loop_result_def prod.case
      by (rule exI [of _ "cl # cs"]) (use n call same in auto)
    then show ?thesis using NextCandidate n(1) by simp
  qed
qed

lemma run_candidates_result:
  assumes "cands \<noteq> []" and "pending cs0 last_failed"
  shows "loop_result env cfg rq cacheReq scopes cands g cs0 (run_candidates env cfg rq grp scopes cacheReq firstModel last_failed cands g)"
  using assms
proof (induction cands arbitrary: cs0 last_failed g)
  case (Cons cand rest)
  let ?next = "\<lambda>g1 e. run_candidates env cfg rq grp scopes cacheReq firstModel (Some (cand, e)) rest g1"
  have prior: "\<forall>x\<in>set cs0. failed_over x" using Cons.prems by (simp add: pending_def)
  have step: "loop_result env cfg rq cacheReq scopes (cand # rest) g cs0
      (case try_candidate env cfg rq grp scopes cacheReq firstModel (rest \<noteq> []) prev cand g0 of
         (Finished r, g1) \<Rightarrow> (r, g1) | (NextCandidate e, g1) \<Rightarrow> ?next g1 e)"
    if "gw_calls g0 = gw_calls g" "gw_limiter g0 = gw_limiter g" "gw_warn g0 = gw_warn g" for prev g0
  proof -
    obtain s g1 where s: "try_candidate env cfg rq grp scopes cacheReq firstModel (rest \<noteq> []) prev cand g0 = (s, g1)" by fastforce
    have "loop_result env cfg rq cacheReq scopes (cand # rest) g cs0 (case s of Finished r \<Rightarrow> (r, g1) | NextCandidate e \<Rightarrow> ?next g1 e)"
      by (rule loop_result_step [OF s that prior]) (rule Cons.IH)
    then show ?thesis by (simp add: s)
  qed
  show ?case
  proof (cases last_failed)
    case None
    then show ?thesis using step [of g] by simp
  next
    case (Some pe)
    obtain p e where pe: "pe = (p, e)" by fastforce
    show ?thesis
    proof (cases "ge_ctxErr env (gw_world g)")
      case True
      then show ?thesis using Cons.prems Some pe
        by (auto simp: loop_result_def pending_def failed_over_def Let_def in_set_butlastD)
    next
      case False
      then show ?thesis using step Some pe by simp
    qed
  qed
qed simp

lemma runMeteredCall_cases:
  assumes "runMeteredCall env cfg rq grp scopes g = (r, g')"
  obtains (refused) e where "r = ResolveRefused e" and "gw_calls g' = gw_calls g" "gw_limiter g' = gw_limiter g" "gw_warn g' = gw_warn g"
  | (loop) cs firstModel g1 where "request_candidates (gc_failover cfg) (ge_table env) (gc_Pricing cfg) (ge_now env (gw_world g)) (uq_model rq) grp
         (gw_registry g) (gw_health g) = Inr cs"
    and "gw_calls g1 = gw_calls g" "gw_limiter g1 = gw_limiter g" "gw_warn g1 = gw_warn g"
    and "run_candidates env cfg rq grp scopes (cacheable rq grp (gw_cache g)) firstModel None cs g1 = (r, g')"
proof -
  define res where "res = (if fo_enabled (gc_failover cfg) then resolveWithCandidates (gw_registry g) (uq_model rq) grp
            else (case resolvePrimaryOnly (gw_registry g) (uq_model rq) grp of
                    (Inl e, m1) \<Rightarrow> (Inl e, m1) | (Inr p, m1) \<Rightarrow> (Inr (p, []), m1)))"
  have f: "fst res = (if fo_enabled (gc_failover cfg) then fst (resolveWithCandidates (gw_registry g) (uq_model rq) grp)
            else bind_sum (fst (resolvePrimaryOnly (gw_registry g) (uq_model rq) grp)) (\<lambda>p. Inr (p, [])))"
    by (auto simp: res_def split: prod.splits sum.splits)
  obtain x m1 where x: "res = (x, m1)" by fastforce
  show thesis
  proof (cases x)
    case (Inl e)
    with assms x have "r = ResolveRefused e \<and> g' = g\<lparr>gw_registry := m1\<rparr>" by (simp add: runMeteredCall_def res_def [symmetric])
    with refused [of e] show thesis by simp
  next
    case (Inr pe)
    obtain primary extra where pe: "pe = (primary, extra)" by fastforce
    obtain ordered tr1 where o: "orderedFailoverCandidates (gc_failover cfg) (ge_now env (gw_world g)) (gw_registry g) (gw_health g) primary extra = (ordered, tr1)"
      by fastforce
    let ?cs = "capFailoverCandidates (fst (filterCandidatesByCost (ge_table env) (gc_Pricing cfg) ordered)) (fo_maxAttempts (gc_failover cfg))"
    have "request_candidates (gc_failover cfg) (ge_table env) (gc_Pricing cfg) (ge_now env (gw_world g)) (uq_model rq) grp (gw_registry g) (gw_health g) = Inr ?cs"
      unfolding request_candidates_def f [symmetric] using x Inr pe o by simp
    from loop [OF this, of "g\<lparr>gw_registry := m1, gw_health := tr1\<rparr>" "if ?cs = [] then uq_model rq else rs_upstreamModel (hd ?cs)"]
    show thesis using assms x Inr pe o by (simp add: runMeteredCall_def res_def [symmetric] Let_def)
  qed
qed

text \<open>The scopes of a request and the limiter after its admission.\<close>

abbreviation request_scopes :: "user \<Rightarrow> group \<Rightarrow> limitScope list" where
  "request_scopes u grp \<equiv> withTotalScope (buildLimitScopes u grp)"

definition admitted_limiter :: "gtime \<Rightarrow> limitScope list \<Rightarrow> 's limiter \<Rightarrow> 's limiter" where
  "admitted_limiter now scopes l = recordLastSeen now scopes now (snd (checkAndCount now now now scopes l))"

lemma runUnified_cases:
  assumes "runUnified env cfg u grp endpoint src g = (r, g')"
  obtains (limit) v where "r = LimitRefused v" and "gw_calls g' = gw_calls g" 
    and "fst (checkAndCount (ge_now env (gw_world g)) (ge_now env (gw_world g)) (ge_now env (gw_world g)) (request_scopes u grp) (gw_limiter g)) = Some v"
  | (early) "gw_calls g' = gw_calls g" and "by_call r" and "reply_from r []"
    and "gw_limiter g' = admitted_limiter (ge_now env (gw_world g)) (request_scopes u grp) (gw_limiter g)" and "gw_warn g' = gw_warn g"
  | (metered) rq g1 where "decoded_request env endpoint (fst src) = Some rq"
    and "gw_calls g1 = gw_calls g" "gw_registry g1 = gw_registry g" "gw_cache g1 = gw_cache g" "gw_warn g1 = gw_warn g"
    and "gw_limiter g1 = admitted_limiter (ge_now env (gw_world g)) (request_scopes u grp) (gw_limiter g)"
    and "runMeteredCall env cfg rq grp (request_scopes u grp) g1 = (r, g')"
proof -
  let ?now = "ge_now env (gw_world g)"
  obtain vo l1 where c: "checkAndCount ?now ?now ?now (request_scopes u grp) (gw_limiter g) = (vo, l1)" by fastforce
  show thesis
  proof (cases vo)
    case (Some v)
    with assms c limit [of v] show thesis by (auto simp: runUnified_def admitRequestForRoute_def Let_def)
  next
    case None
    define ga where "ga = g\<lparr>gw_limiter := recordLastSeen ?now (request_scopes u grp) ?now l1\<rparr>"
    obtain d g2 where d: "readAndDecodeUnifiedBody env cfg endpoint src ga = (d, g2)" by fastforce
    have run: "(case d of Inl r \<Rightarrow> (r, g2) | Inr rq \<Rightarrow> if uq_model rq = [] then (ModelRequired, g2)
         else runMeteredCall env cfg rq grp (request_scopes u grp) g2) = (r, g')"
      using assms c None d by (simp add: runUnified_def admitRequestForRoute_def Let_def ga_def [symmetric] split: sum.splits)
    have lim: "gw_limiter ga = admitted_limiter ?now (request_scopes u grp) (gw_limiter g)" by (simp add: ga_def admitted_limiter_def c)
    have g2: "gw_calls g2 = gw_calls g" "gw_registry g2 = gw_registry g" "gw_cache g2 = gw_cache g" "gw_warn g2 = gw_warn g"
      "gw_limiter g2 = gw_limiter ga"
      using d by (auto simp: readAndDecodeUnifiedBody_def acquireBodyAdmission_def ga_def Let_def split: if_splits)
    have dec: "decoded_request env endpoint (fst src) = Some rq" if "d = Inr rq" for rq
      using d that by (auto simp: readAndDecodeUnifiedBody_def acquireBodyAdmission_def readCapped_def split: if_splits option.splits prod.splits bool.splits)
    have bad: "by_call x \<and> reply_from x []" if "d = Inl x" for x
      using d that by (auto simp: readAndDecodeUnifiedBody_def split: if_splits option.splits prod.splits bool.splits)
    show thesis
    proof (cases d)
      case (Inl x)
      with run bad [OF Inl] g2 lim early show thesis by simp
    next
      case (Inr rq)
      then show thesis
      proof (cases "uq_model rq = []")
        case True
        with run Inr g2 lim early show thesis by auto
      next
        case False
        with run Inr have m: "runMeteredCall env cfg rq grp (request_scopes u grp) g2 = (r, g')" by simp
        show thesis by (rule metered [OF dec [OF Inr] g2(1-4) _ m]) (simp add: g2 lim)
      qed
    qed
  qed
qed


text \<open>Accounting: an admitted request is counted once, and every call is accounted once, in order.\<close>


definition sample_user :: user where
  "sample_user = \<lparr>us_limits = None, us_name = ''ann'', us_groupName = ''locals'', us_groupNames = [''locals''], us_admin = False\<rparr>"

definition sample_env :: "(nat, unit) gatewayEnv" where
  "sample_env = \<lparr>ge_call = (\<lambda>cand w. (\<lparr>ur_usage = \<lparr>us_prompt = 10, us_completion = 5, us_estimated = False\<rparr>, ur_err = None, ur_wrote = True,
       ur_status = 200, ur_contentType = ''application/json'', ur_body = ''{}'', ur_oversize = False, ur_latency = None\<rparr>, w + 1)),
     ge_ctxErr = (\<lambda>w. False), ge_now = (\<lambda>w. 0),
     ge_cacheOps = \<lparr>co_getBytes = (\<lambda>k s. (Inr None, s)), co_setEx = (\<lambda>k v t s. (None, s)), co_encode = (\<lambda>c. []), co_decode = (\<lambda>x. None)\<rparr>,
     ge_hash = (\<lambda>s. s), ge_marshal = (\<lambda>f. []), ge_cachedUsage = (\<lambda>b. \<lparr>us_prompt = 0, us_completion = 0, us_estimated = False\<rparr>),
     ge_table = Map.empty, ge_unmarshal = (\<lambda>b. Some (b, False, []))\<rparr>"

definition sample_cfg :: gatewayConfig where
  "sample_cfg = \<lparr>gc_failover = \<lparr>fo_maxAttempts = 3, fo_enabled = True\<rparr>, gc_Pricing = Map.empty, gc_ModelMeta = Map.empty,
     gc_AccountHits = False, gc_AllowUnpricedWithCostBudget = False, gc_latency = False, gc_unifiedRequestBytes = 100, gc_bodyAdmissionCap = 4\<rparr>"

definition sample_gateway :: "(unit, unit, nat) gateway" where
  "sample_gateway = \<lparr>gw_limiter = newLimiter None False, gw_registry = sample_refreshed, gw_health = None, gw_cache = None,
     gw_warn = \<lparr>ws_warnedModels = [], ws_capNotified = False, ws_warnings = []\<rparr>, gw_failoverLog = \<lparr>gate_lastLogAt = zero_time, gate_suppressed = 0\<rparr>,
     gw_events = None, gw_bodyInFlight = 0, gw_world = 0, gw_calls = []\<rparr>"

lemma sample_gateway_fields:
  "gw_limiter sample_gateway = newLimiter None False" "gw_registry sample_gateway = sample_refreshed" "gw_cache sample_gateway = None"
  "gw_calls sample_gateway = []" "gw_world sample_gateway = 0" "ge_now sample_env w = 0" "ge_unmarshal sample_env body = Some (body, False, [])"
  by (simp_all add: sample_gateway_def sample_env_def)

lemma sample_scopes:
  "withTotalScope (buildLimitScopes sample_user local_only) =
     [\<lparr>sc_limits = None, sc_kind = ''user'', sc_id = ''ann''\<rparr>, \<lparr>sc_limits = None, sc_kind = ''group'', sc_id = ''locals''\<rparr>,
      \<lparr>sc_limits = None, sc_kind = totalScopeKind, sc_id = totalScopeID\<rparr>]"
  by code_simp

lemma sample_admitted: "fst (checkAndCount 0 0 0 (withTotalScope (buildLimitScopes sample_user local_only)) (newLimiter None False :: unit limiter)) = None"
proof (rule admission_decision [THEN iffD2])
  show "served_by_fallback 0 (newLimiter None False)" by (simp add: served_by_fallback_def newLimiter_def)
  show "scopes_ok (withTotalScope (buildLimitScopes sample_user local_only))" by (simp add: sample_scopes scopes_ok_def, code_simp)
  show "\<forall>sc\<in>set (withTotalScope (buildLimitScopes sample_user local_only)). scope_within (ms_view (lim_fallback (newLimiter None False)) 0) 0 sc"
    by (simp add: sample_scopes scope_within_def)
qed simp

text \<open>The sample request reaches the one provider its group allows.\<close>

lemma sample_run:
  "\<exists>cl. runUnified sample_env sample_cfg sample_user local_only ''chat'' (''llama'', False) sample_gateway
     = (ServedUpstream (cl_cand cl) (cl_result cl), snd (runUnified sample_env sample_cfg sample_user local_only ''chat'' (''llama'', False) sample_gateway))
     \<and> gw_calls (snd (runUnified sample_env sample_cfg sample_user local_only ''chat'' (''llama'', False) sample_gateway)) = [cl]
     \<and> rs_provider (cl_cand cl) = ''local''"
proof -
  obtain l1 where c: "checkAndCount 0 0 0 (withTotalScope (buildLimitScopes sample_user local_only)) (newLimiter None False :: unit limiter) = (None, l1)"
    using sample_admitted by (metis prod.collapse)
  obtain m1 where res: "resolve sample_refreshed ''llama'' local_only
      = (Inr \<lparr>rs_provider = ''local'', rs_upstreamModel = ''llama'', rs_canonical = ''local/llama''\<rparr>, m1)"
    using sample_resolve_llama by (metis prod.collapse)
  have b: "\<not> scopesHaveCostBudget (withTotalScope (buildLimitScopes sample_user local_only))"
    by (simp add: sample_scopes scopesHaveCostBudget_def)
  let ?scopes = "withTotalScope (buildLimitScopes sample_user local_only)"
  define g1 where "g1 = sample_gateway\<lparr>gw_limiter := recordLastSeen 0 ?scopes 0 l1\<rparr>"
  define rq where "rq = \<lparr>uq_model = ''llama'', uq_streaming = False, uq_bodyLen = 5, uq_endpoint = ''chat'', uq_fields = []\<rparr>"
  have g1: "gw_world g1 = 0" "gw_bodyInFlight g1 = 0" "gw_cache g1 = None" "gw_calls g1 = []" "gw_registry g1 = sample_refreshed" "gw_health g1 = None"
    by (simp_all add: g1_def sample_gateway_def)
  have admit: "admitRequestForRoute sample_env sample_user local_only route sample_gateway = (Inr ?scopes, g1)" for route
    using c by (simp add: admitRequestForRoute_def Let_def g1_def sample_env_def sample_gateway_def)
  have body: "readAndDecodeUnifiedBody sample_env sample_cfg ''chat'' (''llama'', False) g1 = (Inr rq, g1)"
    by (simp add: readAndDecodeUnifiedBody_def acquireBodyAdmission_def g1 sample_cfg_def readCapped_def decoded_request_def sample_env_def rq_def)
  have metered: "\<exists>cl g'. runMeteredCall sample_env sample_cfg rq local_only ?scopes g1 = (ServedUpstream (cl_cand cl) (cl_result cl), g')
      \<and> gw_calls g' = [cl] \<and> rs_provider (cl_cand cl) = ''local''"
    using b by (simp add: runMeteredCall_def sample_cfg_def rq_def resolveWithCandidates_def res failoverCandidates_def sample_hasModel
        orderedFailoverCandidates_def filterCandidatesByCost_def capFailoverCandidates_def try_candidate_def unpriced_refused_def g1
        call_candidate_def cacheable_def account_call_pair Let_def sample_env_def)
  from metered show ?thesis by (auto simp: runUnified_def admit body rq_def)
qed



end
