(* ===== verification/GoText.thy ===== *)
theory GoText
  imports GoStrings
begin

text \<open>
  Further string functions of the Go standard library the gateway uses: searching, replacing,
  suffixes, and the conversion between bytes and runes.  A string is its bytes.
\<close>

definition strings_HasPrefix :: "string \<Rightarrow> string \<Rightarrow> bool" where
  "strings_HasPrefix s p \<longleftrightarrow> take (length p) s = p"

definition strings_HasSuffix :: "string \<Rightarrow> string \<Rightarrow> bool" where
  "strings_HasSuffix s p \<longleftrightarrow> strings_HasPrefix (rev s) (rev p)"

definition strings_TrimSuffix :: "string \<Rightarrow> string \<Rightarrow> string" where
  "strings_TrimSuffix s p = (if strings_HasSuffix s p then take (length s - length p) s else s)"

definition strings_TrimPrefix :: "string \<Rightarrow> string \<Rightarrow> string" where
  "strings_TrimPrefix s p = (if strings_HasPrefix s p then drop (length p) s else s)"

fun strings_Contains :: "string \<Rightarrow> string \<Rightarrow> bool" where
  "strings_Contains [] p \<longleftrightarrow> p = []"
| "strings_Contains (c # s) p \<longleftrightarrow> strings_HasPrefix (c # s) p \<or> strings_Contains s p"

text \<open>\<open>strings.Replace\<close> with a non-empty old string: the leftmost occurrences, without overlap, at most
  \<open>n\<close> of them; the gateway never replaces the empty string.  \<open>skip\<close> counts the bytes of an occurrence
  still to be dropped.\<close>

fun replace_from :: "nat \<Rightarrow> nat \<Rightarrow> string \<Rightarrow> string \<Rightarrow> string \<Rightarrow> string" where
  "replace_from skip n old new [] = []"
| "replace_from (Suc k) n old new (c # s) = replace_from k n old new s"
| "replace_from 0 n old new (c # s) =
     (if 0 < n \<and> strings_HasPrefix (c # s) old then new @ replace_from (length old - 1) (n - 1) old new s
      else c # replace_from 0 n old new s)"

definition strings_Replace :: "string \<Rightarrow> string \<Rightarrow> string \<Rightarrow> nat \<Rightarrow> string" where
  "strings_Replace s old new n = replace_from 0 n old new s"

definition strings_ReplaceAll :: "string \<Rightarrow> string \<Rightarrow> string \<Rightarrow> string" where
  "strings_ReplaceAll s old new = replace_from 0 (length s) old new s"

text \<open>The UTF-8 encoding of a rune, and of a list of runes.\<close>

definition encode_rune :: "nat \<Rightarrow> string" where
  "encode_rune r =
     map char_of
       (if r < 128 then [r]
        else if r < 2048 then [192 + r div 64, 128 + r mod 64]
        else if r < 65536 then [224 + r div 4096, 128 + r div 64 mod 64, 128 + r mod 64]
        else [240 + r div 262144, 128 + r div 4096 mod 64, 128 + r div 64 mod 64, 128 + r mod 64])"

definition string_of_runes :: "nat list \<Rightarrow> string" where
  "string_of_runes rs = concat (map encode_rune rs)"

lemma contains_split: "strings_Contains s p \<longleftrightarrow> (\<exists>a b. s = a @ p @ b)"
proof (induction s)
  case Nil
  then show ?case by auto
next
  case (Cons c s)
  have "strings_HasPrefix (c # s) p \<longleftrightarrow> (\<exists>b. c # s = p @ b)"
    unfolding strings_HasPrefix_def by (metis append_eq_conv_conj append_take_drop_id)
  moreover have "(\<exists>a b. c # s = a @ p @ b) \<longleftrightarrow> (\<exists>b. c # s = p @ b) \<or> (\<exists>a b. s = a @ p @ b)" (is "?l \<longleftrightarrow> ?r")
  proof
    assume ?l
    then obtain a b where ab: "c # s = a @ p @ b" by blast
    then show ?r by (cases a) auto
  next
    assume ?r
    then show ?l by (metis append_Cons append_Nil)
  qed
  ultimately show ?case using Cons.IH by simp
qed

lemma has_suffix_iff: "strings_HasSuffix s p \<longleftrightarrow> (\<exists>a. s = a @ p)"
proof -
  have "take (length (rev p)) (rev s) = rev p \<longleftrightarrow> (\<exists>b. rev s = rev p @ b)"
    by (metis append_eq_conv_conj append_take_drop_id)
  also have "\<dots> \<longleftrightarrow> (\<exists>a. s = a @ p)" by (metis rev_append rev_rev_ident)
  finally show ?thesis by (simp add: strings_HasSuffix_def strings_HasPrefix_def)
qed

end
