(* ===== verification/Sse.thy ===== *)
theory Sse
  imports GoStrings
begin

text \<open>
  Server-sent events (sse.go): the split function of the line scanner, the reader, which hands events
  to a callback under bounds on lines and events, and the writer.  \<open>bufio.Scanner\<close> of the standard
  library is the loop \<open>scan_lines\<close> over the chunks the body delivers; \<open>failed\<close> tells whether the body
  ends with a read error.  Flushing is not modelled.

  The lines do not depend on how the body is cut into chunks, and what \<open>writeData\<close> writes is read back
  as exactly the events it was given, whatever bytes they contain.
\<close>

definition CR :: char where "CR = CHR 0x0D"
definition LF :: char where "LF = CHR 0x0A"

definition not_break :: "char \<Rightarrow> bool" where
  "not_break c \<longleftrightarrow> c \<noteq> CR \<and> c \<noteq> LF"

definition sseScannerMaxLineSize :: nat where "sseScannerMaxLineSize = 4194304"
definition sseMaxEventBytes :: int where "sseMaxEventBytes = 8388608"
definition sseDataLineOverhead :: int where "sseDataLineOverhead = 17"
definition sseDataPrefix :: string where "sseDataPrefix = ''data: ''"
definition sseBOM :: string where "sseBOM = [CHR 0xEF, CHR 0xBB, CHR 0xBF]"

record sseEvent =
  se_event :: string
  se_data :: string

subsection \<open>Lines\<close>

definition scanSSELines :: "string \<Rightarrow> bool \<Rightarrow> nat \<times> string option" where
  "scanSSELines buf atEOF =
     (if atEOF \<and> buf = [] then (0, None)
      else let line = takeWhile not_break buf; i = length line in
        case dropWhile not_break buf of
          c # rest \<Rightarrow>
            if c = LF then (i + 1, Some line)
            else if rest = [] \<and> \<not> atEOF then (0, None)
            else if rest \<noteq> [] \<and> hd rest = LF then (i + 2, Some line)
            else (i + 1, Some line)
        | [] \<Rightarrow> if atEOF then (length buf, Some buf) else (0, None))"

text \<open>The scanner: \<open>buf\<close> holds what was read and not yet consumed, at most \<open>cap\<close> bytes; the result
  is the lines and whether a line was too long.\<close>

definition cons_line :: "string \<Rightarrow> string list \<times> bool \<Rightarrow> string list \<times> bool" where
  "cons_line l x = (l # fst x, snd x)"

lemma scanSSELines_advance:
  assumes "scanSSELines buf eof = (adv, Some line)" shows "0 < adv \<and> adv \<le> length buf"
proof -
  have b: "length (takeWhile not_break buf) + length (dropWhile not_break buf) = length buf"
    by (metis length_append takeWhile_dropWhile_id)
  show ?thesis
  proof (cases "dropWhile not_break buf")
    case Nil
    then show ?thesis using assms by (auto simp: scanSSELines_def Let_def simp del: dropWhile_eq_Nil_conv split: if_splits)
  next
    case (Cons c rest)
    have "rest = [] \<or> (\<exists>x xs. rest = x # xs)" by (cases rest) auto
    then show ?thesis using assms b Cons by (auto simp: scanSSELines_def Let_def split: if_splits)
  qed
qed

function scan_lines :: "nat \<Rightarrow> string \<Rightarrow> string list \<Rightarrow> bool \<Rightarrow> string list \<times> bool" where
  "scan_lines cap buf chunks eof =
     (case (if buf \<noteq> [] \<or> eof then scanSSELines buf eof else (0, None)) of
        (adv, Some line) \<Rightarrow> cons_line line (scan_lines cap (drop adv buf) chunks eof)
      | (adv, None) \<Rightarrow>
          if eof then ([], False)
          else if cap \<le> length buf then ([], True)
          else (case chunks of
                  [] \<Rightarrow> scan_lines cap buf [] True
                | c # cs \<Rightarrow>
                    let room = cap - length buf in
                    scan_lines cap (buf @ take room c) (if length c \<le> room then cs else drop room c # cs) eof))"
  by pat_completeness auto
termination
  by (relation "measure (\<lambda>(cap, buf, chunks, eof). 2 * (length (concat chunks) + length chunks) + length buf + (if eof then 0 else 1))")
    (auto dest!: scanSSELines_advance [OF sym] split: if_splits)

declare scan_lines.simps [simp del]

subsection \<open>The reader\<close>

record readState =
  rs_event :: string
  rs_dataLines :: "string list"
  rs_hasData :: bool
  rs_dataBytes :: int
  rs_firstLine :: bool

definition readState_init :: readState where
  "readState_init = \<lparr>rs_event = [], rs_dataLines = [], rs_hasData = False, rs_dataBytes = 0, rs_firstLine = True\<rparr>"

datatype sseError = EventTooLarge | LineTooLong | BodyFailed | CallbackFailed string

type_synonym 'a callback = "sseEvent \<Rightarrow> 'a \<Rightarrow> string option \<times> 'a"

definition dispatch :: "'a callback \<Rightarrow> readState \<Rightarrow> 'a \<Rightarrow> sseError option \<times> readState \<times> 'a" where
  "dispatch fn st acc =
     (let joined = strings_Join [LF] (rs_dataLines st);
          fire = (rs_hasData st \<and> joined \<noteq> []);
          ev = \<lparr>se_event = rs_event st, se_data = joined\<rparr>;
          st1 = st\<lparr>rs_event := [], rs_dataLines := [], rs_hasData := False, rs_dataBytes := 0\<rparr>
      in if \<not> fire then (None, st1, acc)
         else (case fn ev acc of (err, acc1) \<Rightarrow> (map_option CallbackFailed err, st1, acc1)))"

definition trim_prefix :: "string \<Rightarrow> string \<Rightarrow> string" where
  "trim_prefix p s = (if take (length p) s = p then drop (length p) s else s)"

definition read_field :: "string \<Rightarrow> readState \<Rightarrow> sseError option \<times> readState" where
  "read_field line st =
     (let (field, value) = (case strings_Cut CHR '':'' line of Some (f, v) \<Rightarrow> (f, v) | None \<Rightarrow> (line, []));
          value = trim_prefix '' '' value
      in if field = ''event'' then (None, st\<lparr>rs_event := value\<rparr>)
         else if field = ''data'' then
           let total = rs_dataBytes st + (int (length value) + sseDataLineOverhead) in
           if sseMaxEventBytes < total then (Some EventTooLarge, st\<lparr>rs_dataBytes := total\<rparr>)
           else (None, st\<lparr>rs_dataBytes := total, rs_dataLines := rs_dataLines st @ [value], rs_hasData := True\<rparr>)
         else (None, st))"

definition read_line_sse :: "'a callback \<Rightarrow> string \<Rightarrow> readState \<Rightarrow> 'a \<Rightarrow> sseError option \<times> readState \<times> 'a" where
  "read_line_sse fn raw st acc =
     (let line = (if rs_firstLine st then trim_prefix sseBOM raw else raw); st1 = st\<lparr>rs_firstLine := False\<rparr> in
      if line = [] then dispatch fn st1 acc
      else if hd line = CHR '':'' then (None, st1, acc)
      else (case read_field line st1 of (err, st2) \<Rightarrow> (err, st2, acc)))"

fun read_lines :: "'a callback \<Rightarrow> string list \<Rightarrow> readState \<Rightarrow> 'a \<Rightarrow> sseError option \<times> readState \<times> 'a" where
  "read_lines fn [] st acc = (None, st, acc)"
| "read_lines fn (l # ls) st acc =
     (case read_line_sse fn l st acc of
        (Some err, st1, acc1) \<Rightarrow> (Some err, st1, acc1)
      | (None, st1, acc1) \<Rightarrow> read_lines fn ls st1 acc1)"

definition readSSE :: "string list \<Rightarrow> bool \<Rightarrow> 'a callback \<Rightarrow> 'a \<Rightarrow> sseError option \<times> 'a" where
  "readSSE chunks failed fn acc =
     (case scan_lines sseScannerMaxLineSize [] chunks False of
        (ls, tooLong) \<Rightarrow>
          (case read_lines fn ls readState_init acc of
             (Some err, st, acc1) \<Rightarrow> (Some err, acc1)
           | (None, st, acc1) \<Rightarrow>
               if tooLong then (Some LineTooLong, acc1)
               else if failed then (Some BodyFailed, acc1)
               else (case dispatch fn st acc1 of (err, st2, acc2) \<Rightarrow> (err, acc2))))"

subsection \<open>The writer\<close>

function splitSSELines :: "string \<Rightarrow> string list" where
  "splitSSELines b =
     (case dropWhile not_break b of
        [] \<Rightarrow> [b]
      | c # rest \<Rightarrow> takeWhile not_break b # splitSSELines (if c = CR \<and> rest \<noteq> [] \<and> hd rest = LF then tl rest else rest))"
  by pat_completeness auto
termination
proof (relation "measure length", goal_cases)
  case (2 b c rest)
  then have "length (c # rest) \<le> length b" by (metis length_dropWhile_le)
  then show ?case by auto
qed simp

declare splitSSELines.simps [simp del]

definition writeData :: "string \<Rightarrow> string" where
  "writeData b =
     (if list_all not_break b then sseDataPrefix @ b @ [LF]
      else concat (map (\<lambda>line. sseDataPrefix @ line @ [LF]) (splitSSELines b))) @ [LF]"

definition writeDone :: string where
  "writeDone = sseDataPrefix @ ''[DONE]'' @ [LF, LF]"

subsection \<open>The lines of a body\<close>

text \<open>The lines of the whole body, without chunks.\<close>

function sse_lines :: "nat \<Rightarrow> string \<Rightarrow> string list \<times> bool" where
  "sse_lines cap s =
     (if s = [] then ([], False)
      else let line = takeWhile not_break s in
        case dropWhile not_break s of
          [] \<Rightarrow> if length s < cap then ([s], False) else ([], True)
        | c # rest \<Rightarrow>
            if (if c = LF then length line < cap else length line + 1 < cap)
            then cons_line line (sse_lines cap (if c \<noteq> LF \<and> rest \<noteq> [] \<and> hd rest = LF then tl rest else rest))
            else ([], True))"
  by pat_completeness auto
termination
proof (relation "measure (length \<circ> snd)", goal_cases)
  case (2 cap s line c rest)
  then have "length (c # rest) \<le> length s" by (metis length_dropWhile_le)
  then show ?case by auto
qed simp

declare sse_lines.simps [simp del]

lemma break_split:
  assumes "dropWhile not_break s = c # rest"
  shows "s = takeWhile not_break s @ c # rest" "\<not> not_break c" "c = LF \<or> c = CR"
proof -
  show "s = takeWhile not_break s @ c # rest" using assms by (metis takeWhile_dropWhile_id)
  show n: "\<not> not_break c" using assms by (metis hd_dropWhile list.sel(1) list.simps(3))
  then show "c = LF \<or> c = CR" by (auto simp: not_break_def)
qed

lemma drop_line: "drop (length (takeWhile not_break s) + n) s = drop n (dropWhile not_break s)"
  by (metis add.commute drop_drop dropWhile_eq_drop)

lemma takeWhile_append_break: "dropWhile P s = c # r \<Longrightarrow> takeWhile P (s @ t) = takeWhile P s \<and> dropWhile P (s @ t) = c # r @ t"
  by (metis append_Cons dropWhile_append takeWhile_append list.distinct(1) dropWhile_eq_Nil_conv)

lemma sse_lines_break:
  assumes "dropWhile not_break s = c # rest"
  shows "sse_lines cap s = (if (if c = LF then length (takeWhile not_break s) < cap else length (takeWhile not_break s) + 1 < cap)
      then cons_line (takeWhile not_break s) (sse_lines cap (if c \<noteq> LF \<and> rest \<noteq> [] \<and> hd rest = LF then tl rest else rest)) else ([], True))"
proof -
  have "s \<noteq> []" using assms by auto
  then show ?thesis by (subst sse_lines.simps) (simp add: assms Let_def)
qed

lemma sse_lines_long:
  assumes "list_all not_break s" and "cap \<le> length s" and "0 < cap" shows "sse_lines cap (s @ t) = ([], True)"
proof (cases "dropWhile not_break (s @ t)")
  case Nil
  then show ?thesis using assms by (subst sse_lines.simps) (auto simp: Let_def simp del: dropWhile_eq_Nil_conv)
next
  case (Cons c rest)
  have "takeWhile not_break (s @ t) = s @ takeWhile not_break t" using assms(1) by (simp add: list_all_iff)
  then show ?thesis using assms(2) by (simp add: sse_lines_break [OF Cons])
qed

text \<open>One call of the split function against the lines of the rest of the body.\<close>

lemma split_token:
  assumes "scanSSELines buf eof = (adv, Some line)" and "length buf \<le> cap" and "eof \<Longrightarrow> t = [] \<and> length buf < cap"
  shows "sse_lines cap (buf @ t) = cons_line line (sse_lines cap (drop adv buf @ t))"
proof (cases "dropWhile not_break buf")
  case Nil
  with assms(1) have eof: eof "adv = length buf" "line = buf" "buf \<noteq> []"
    by (auto simp: scanSSELines_def Let_def simp del: dropWhile_eq_Nil_conv split: if_splits)
  then show ?thesis using Nil assms(3)
    by (subst sse_lines.simps, subst (2) sse_lines.simps) (auto simp: Let_def cons_line_def simp del: dropWhile_eq_Nil_conv)
next
  case (Cons c rest)
  note b = break_split [OF Cons] and a = takeWhile_append_break [OF Cons, of t]
  have len: "length (takeWhile not_break buf) + 1 + length rest = length buf" using arg_cong [OF b(1), of length] by simp
  note ref = sse_lines_break [of "buf @ t" c "rest @ t" cap, unfolded a [THEN conjunct1]]
  note drops = drop_line [of buf 1] drop_line [of buf 2]
  show ?thesis
  proof (cases "c = LF")
    case True
    with assms(1) Cons have "adv = length (takeWhile not_break buf) + 1" "line = takeWhile not_break buf"
      by (auto simp: scanSSELines_def Let_def split: if_splits)
    then show ?thesis using ref a True drops Cons len assms(2) by simp
  next
    case False
    with assms(1) Cons have nr: "rest \<noteq> [] \<or> eof" and line: "line = takeWhile not_break buf"
      and adv: "adv = length (takeWhile not_break buf) + (if rest \<noteq> [] \<and> hd rest = LF then 2 else 1)"
      by (auto simp: scanSSELines_def Let_def split: if_splits)
    have "length (takeWhile not_break buf) + 1 < cap" using nr len assms(2,3) by (cases rest) auto
    moreover have "drop adv buf @ t = (if rest @ t \<noteq> [] \<and> hd (rest @ t) = LF then tl (rest @ t) else rest @ t)"
      using adv drops Cons nr assms(3) by (cases rest) auto
    ultimately show ?thesis using ref a False line by simp
  qed
qed

lemma no_token_full:
  assumes "scanSSELines buf False = (adv, None)" and "length buf = cap" and "0 < cap"
  shows "sse_lines cap (buf @ t) = ([], True)"
proof (cases "dropWhile not_break buf")
  case Nil
  then show ?thesis using assms by (intro sse_lines_long) (simp_all add: list_all_iff)
next
  case (Cons c rest)
  with assms(1) have "c \<noteq> LF" "rest = []" by (auto simp: scanSSELines_def Let_def split: if_splits)
  moreover have "length (takeWhile not_break buf) + 1 + length rest = length buf"
    using arg_cong [OF break_split(1) [OF Cons], of length] by simp
  ultimately show ?thesis
    using sse_lines_break [of "buf @ t" c "rest @ t" cap] takeWhile_append_break [OF Cons, of t] assms(2) by simp
qed

lemma scan_is_lines:
  assumes "0 < cap" and "length buf \<le> cap" and "eof \<Longrightarrow> chunks = [] \<and> length buf < cap"
  shows "scan_lines cap buf chunks eof = sse_lines cap (buf @ concat chunks)"
  using assms
proof (induction cap buf chunks eof rule: scan_lines.induct)
  case (1 cap buf chunks eof)
  let ?call = "if buf \<noteq> [] \<or> eof then scanSSELines buf eof else (0, None)"
  obtain adv tok where call: "?call = (adv, tok)" by fastforce
  note run = scan_lines.simps [of cap buf chunks eof, unfolded call]
  show ?case
  proof (cases tok)
    case (Some line)
    with call have tk: "scanSSELines buf eof = (adv, Some line)" by (auto split: if_splits)
    have "scan_lines cap (drop adv buf) chunks eof = sse_lines cap (drop adv buf @ concat chunks)"
      using "1.prems" call Some by (intro "1.IH"(3)) auto
    then show ?thesis using split_token [OF tk "1.prems"(2), of "concat chunks"] "1.prems"(3)
      by (simp add: run Some)
  next
    case None
    show ?thesis
    proof (cases eof)
      case True
      with call None have "buf = []" by (auto simp: scanSSELines_def Let_def split: if_splits list.splits)
      then show ?thesis unfolding run using True None "1.prems"(3) by (simp add: sse_lines.simps)
    next
      case False
      show ?thesis
      proof (cases "cap \<le> length buf")
        case True
        with "1.prems"(1,2) have "length buf = cap" "buf \<noteq> []" by auto
        with call None False have "scanSSELines buf False = (adv, None)" by auto
        from no_token_full [OF this \<open>length buf = cap\<close> "1.prems"(1)] show ?thesis
          unfolding run using True False None by simp
      next
        case room: False
        show ?thesis
        proof (cases chunks)
          case Nil
          have "scan_lines cap buf [] True = sse_lines cap (buf @ concat [])"
            by (rule "1.IH"(1) [OF call [symmetric] None False room Nil]) (use "1.prems" room in auto)
          then show ?thesis unfolding run using None False room Nil by simp
        next
          case (Cons c cs)
          let ?room = "cap - length buf"
          have "scan_lines cap (buf @ take ?room c) (if length c \<le> ?room then cs else drop ?room c # cs) eof
              = sse_lines cap ((buf @ take ?room c) @ concat (if length c \<le> ?room then cs else drop ?room c # cs))"
            by (rule "1.IH"(2) [OF call [symmetric] None False room Cons refl]) (use "1.prems" room False in auto)
          also have "(buf @ take ?room c) @ concat (if length c \<le> ?room then cs else drop ?room c # cs) = buf @ concat chunks"
            by (simp add: Cons)
          finally show ?thesis unfolding run using None False room Cons by (simp add: Let_def)
        qed
      qed
    qed
  qed
qed

theorem sse_chunks_irrelevant:
  "concat chunks = concat chunks' \<Longrightarrow> readSSE chunks failed fn acc = readSSE chunks' failed fn acc"
  by (simp add: readSSE_def scan_is_lines sseScannerMaxLineSize_def)

subsection \<open>Reading back what was written\<close>

lemma splitSSELines_plain: "list_all not_break b \<Longrightarrow> splitSSELines b = [b]"
  by (subst splitSSELines.simps) (simp add: list_all_iff dropWhile_eq_Nil_conv [THEN iffD2])

lemma splitSSELines_lines: "\<forall>l\<in>set (splitSSELines b). list_all not_break l"
proof (induction b rule: splitSSELines.induct)
  case (1 b)
  show ?case
  proof (cases "dropWhile not_break b")
    case Nil
    then have "splitSSELines b = [b]" by (intro splitSSELines_plain) (simp add: list_all_iff)
    with Nil show ?thesis by (simp add: list_all_iff)
  next
    case (Cons c rest)
    moreover have "list_all not_break (takeWhile not_break b)" by (auto simp: list_all_iff dest: set_takeWhileD)
    ultimately show ?thesis using "1.IH" [OF Cons] by (subst splitSSELines.simps) auto
  qed
qed

lemma splitSSELines_nonempty: "splitSSELines b \<noteq> []"
  by (subst splitSSELines.simps) (auto split: list.splits)

lemma writeData_lines: "writeData b = concat (map (\<lambda>l. (sseDataPrefix @ l) @ [LF]) (splitSSELines b)) @ [LF]"
  by (simp add: writeData_def splitSSELines_plain)

lemma sse_lines_one:
  assumes "list_all not_break l" and "length l < cap" shows "sse_lines cap (l @ LF # s) = cons_line l (sse_lines cap s)"
proof -
  have "takeWhile not_break (l @ LF # s) = l" "dropWhile not_break (l @ LF # s) = LF # s"
    using assms(1) by (auto simp: list_all_iff not_break_def)
  then show ?thesis using assms(2) by (simp add: sse_lines_break)
qed

lemma sse_lines_many:
  assumes "\<forall>l\<in>set ls. list_all not_break l \<and> length l < cap"
  shows "sse_lines cap (concat (map (\<lambda>l. l @ [LF]) ls) @ s) = (ls @ fst (sse_lines cap s), snd (sse_lines cap s))"
  using assms by (induction ls) (auto simp: sse_lines_one cons_line_def)

definition message_lines :: "string \<Rightarrow> string list" where
  "message_lines b = map (\<lambda>l. sseDataPrefix @ l) (splitSSELines b) @ [[]]"

lemma prefix_not_break: "list_all not_break sseDataPrefix"
  by (simp add: sseDataPrefix_def not_break_def CR_def LF_def)

text \<open>The bounds a message has to keep.\<close>

definition message_ok :: "string \<Rightarrow> bool" where
  "message_ok b \<longleftrightarrow> (\<forall>l\<in>set (splitSSELines b). length l + 6 < sseScannerMaxLineSize)
     \<and> (\<Sum>l\<leftarrow>splitSSELines b. int (length l) + sseDataLineOverhead) \<le> sseMaxEventBytes"

lemma written_lines:
  assumes "\<forall>b\<in>set bs. message_ok b"
  shows "sse_lines sseScannerMaxLineSize (concat (map writeData bs)) = (concat (map message_lines bs), False)"
  using assms
proof (induction bs)
  case (Cons b bs)
  have "writeData b @ s = concat (map (\<lambda>l. l @ [LF]) (message_lines b)) @ s" for s
    by (simp add: writeData_lines message_lines_def comp_def)
  moreover have "\<forall>l\<in>set (message_lines b). list_all not_break l \<and> length l < sseScannerMaxLineSize"
    using Cons.prems splitSSELines_lines [of b] prefix_not_break
    by (auto simp: message_lines_def message_ok_def sseDataPrefix_def sseScannerMaxLineSize_def)
  ultimately show ?case using Cons by (simp add: sse_lines_many)
qed (simp add: sse_lines.simps)

text \<open>The data lines of a message pile up in the reader's state.\<close>

lemma read_data_line:
  assumes "rs_dataBytes st + (int (length l) + sseDataLineOverhead) \<le> sseMaxEventBytes"
  shows "read_line_sse fn (sseDataPrefix @ l) st acc = (None, st\<lparr>rs_firstLine := False,
      rs_dataBytes := rs_dataBytes st + (int (length l) + sseDataLineOverhead), rs_dataLines := rs_dataLines st @ [l], rs_hasData := True\<rparr>, acc)"
  using assms
  by (simp add: read_line_sse_def read_field_def sseDataPrefix_def trim_prefix_def sseBOM_def Let_def)

lemma read_data_lines:
  assumes "rs_dataBytes st + (\<Sum>l\<leftarrow>ls. int (length l) + sseDataLineOverhead) \<le> sseMaxEventBytes" and "ls \<noteq> []"
  shows "read_lines fn (map (\<lambda>l. sseDataPrefix @ l) ls @ rest) st acc = read_lines fn rest (st\<lparr>rs_firstLine := False,
      rs_dataBytes := rs_dataBytes st + (\<Sum>l\<leftarrow>ls. int (length l) + sseDataLineOverhead), rs_dataLines := rs_dataLines st @ ls, rs_hasData := True\<rparr>) acc"
  using assms
proof (induction ls arbitrary: st)
  case (Cons l ls)
  have nn: "0 \<le> (\<Sum>l\<leftarrow>ls. int (length l) + sseDataLineOverhead)" by (intro sum_list_nonneg) (auto simp: sseDataLineOverhead_def)
  show ?case
  proof (cases ls)
    case Nil
    then show ?thesis using Cons.prems by (simp add: read_data_line)
  next
    case (Cons l' ls')
    then show ?thesis using Cons.prems Cons.IH nn by (simp add: read_data_line algebra_simps)
  qed
qed simp

definition collect :: "sseEvent list callback" where
  "collect ev acc = (None, acc @ [ev])"

text \<open>A message as its reader sees it: every kind of line break has become a line feed.\<close>

definition normalized :: "string \<Rightarrow> string" where
  "normalized b = strings_Join [LF] (splitSSELines b)"

definition idle :: "readState \<Rightarrow> bool" where
  "idle st \<longleftrightarrow> rs_event st = [] \<and> rs_dataLines st = [] \<and> \<not> rs_hasData st \<and> rs_dataBytes st = 0"

lemma read_message:
  assumes "message_ok b" and "idle st"
  obtains st' where "idle st'" and "read_lines collect (message_lines b @ rest) st acc
      = read_lines collect rest st' (acc @ (if normalized b = [] then [] else [\<lparr>se_event = [], se_data = normalized b\<rparr>]))"
proof -
  let ?st = "st\<lparr>rs_firstLine := False, rs_dataBytes := rs_dataBytes st + (\<Sum>l\<leftarrow>splitSSELines b. int (length l) + sseDataLineOverhead),
      rs_dataLines := rs_dataLines st @ splitSSELines b, rs_hasData := True\<rparr>"
  let ?st' = "?st\<lparr>rs_event := [], rs_dataLines := [], rs_hasData := False, rs_dataBytes := 0\<rparr>"
  have "read_lines collect (message_lines b @ rest) st acc = read_lines collect ([] # rest) ?st acc"
    using read_data_lines [of st "splitSSELines b" collect "[] # rest" acc] assms splitSSELines_nonempty
    by (simp add: message_lines_def message_ok_def idle_def)
  also have "\<dots> = read_lines collect rest ?st' (acc @ (if normalized b = [] then [] else [\<lparr>se_event = [], se_data = normalized b\<rparr>]))"
    using assms(2) by (simp add: read_line_sse_def dispatch_def collect_def normalized_def idle_def)
  finally show thesis by (rule that [rotated]) (simp add: idle_def)
qed

lemma read_messages:
  assumes "\<forall>b\<in>set bs. message_ok b" and "idle st"
  shows "\<exists>st'. idle st' \<and> read_lines collect (concat (map message_lines bs)) st acc
    = (None, st', acc @ map (\<lambda>b. \<lparr>se_event = [], se_data = normalized b\<rparr>) (filter (\<lambda>b. normalized b \<noteq> []) bs))"
  using assms
proof (induction bs arbitrary: st acc)
  case (Cons b bs)
  from Cons.prems obtain st' where st': "idle st'" "read_lines collect (message_lines b @ concat (map message_lines bs)) st acc
      = read_lines collect (concat (map message_lines bs)) st' (acc @ (if normalized b = [] then [] else [\<lparr>se_event = [], se_data = normalized b\<rparr>]))"
    using read_message [of b st "concat (map message_lines bs)" acc] by auto
  from Cons.IH [OF _ st'(1), of "acc @ (if normalized b = [] then [] else [\<lparr>se_event = [], se_data = normalized b\<rparr>])"] Cons.prems
  show ?case by (simp add: st'(2) split: if_splits)
qed auto

lemma messages_read_back:
  assumes "\<forall>b\<in>set bs. message_ok b" and "concat chunks = concat (map writeData bs)"
  shows "readSSE chunks False collect []
    = (None, map (\<lambda>b. \<lparr>se_event = [], se_data = normalized b\<rparr>) (filter (\<lambda>b. normalized b \<noteq> []) bs))"
proof -
  have "idle readState_init" by (simp add: idle_def readState_init_def)
  from read_messages [OF assms(1) this, of "[]"] obtain st where st: "idle st"
    "read_lines collect (concat (map message_lines bs)) readState_init []
      = (None, st, map (\<lambda>b. \<lparr>se_event = [], se_data = normalized b\<rparr>) (filter (\<lambda>b. normalized b \<noteq> []) bs))" by auto
  have "scan_lines sseScannerMaxLineSize [] chunks False = (concat (map message_lines bs), False)"
    using written_lines [OF assms(1)] assms(2) by (simp add: scan_is_lines sseScannerMaxLineSize_def)
  with st show ?thesis by (simp add: readSSE_def dispatch_def idle_def)
qed

theorem sse_roundtrip:
  assumes "\<forall>b\<in>set bs. message_ok b" and "concat chunks = concat (map writeData bs)"
  shows "readSSE chunks False collect []
    = (None, map (\<lambda>b. \<lparr>se_event = [], se_data = normalized b\<rparr>) (filter (\<lambda>b. normalized b \<noteq> []) bs))"
  using assms by (rule messages_read_back)

lemma normalized_plain: "list_all not_break b \<Longrightarrow> normalized b = b"
  by (simp add: normalized_def splitSSELines_plain)

text \<open>The end marker is an ordinary message.\<close>

lemma writeDone_is_data: "writeDone = writeData ''[DONE]''"
  by (simp add: writeDone_def writeData_def not_break_def CR_def LF_def)

text \<open>A payload that imitates an event of its own stays one event.\<close>

definition forged :: string where
  "forged = ''x'' @ [LF] @ [LF] @ ''data: y''"

lemma forged_lines: "splitSSELines forged = [''x'', [], ''data: y'']"
proof -
  have "splitSSELines (''x'' @ [LF] @ [LF] @ ''data: y'') = ''x'' # splitSSELines ([LF] @ ''data: y'')"
    by (subst splitSSELines.simps) (simp add: not_break_def CR_def LF_def)
  also have "splitSSELines ([LF] @ ''data: y'') = [] # splitSSELines ''data: y''"
    by (subst splitSSELines.simps) (simp add: not_break_def CR_def LF_def)
  also have "splitSSELines ''data: y'' = [''data: y'']" by (rule splitSSELines_plain) (simp add: not_break_def CR_def LF_def)
  finally show ?thesis by (simp add: forged_def)
qed

theorem sse_roundtrip_witness:
  "readSSE [writeData forged @ take 3 (writeData ''[DONE]''), drop 3 (writeData ''[DONE]'')] False collect []
   = (None, [\<lparr>se_event = [], se_data = forged\<rparr>, \<lparr>se_event = [], se_data = ''[DONE]''\<rparr>])"
proof -
  have ok: "message_ok forged" "message_ok ''[DONE]''"
    by (simp_all add: message_ok_def forged_lines splitSSELines_plain not_break_def CR_def LF_def sseScannerMaxLineSize_def
        sseDataLineOverhead_def sseMaxEventBytes_def)
  have n: "normalized forged = forged" by (simp add: normalized_def forged_lines) (simp add: forged_def)
  have d: "normalized ''[DONE]'' = ''[DONE]''" by (rule normalized_plain) (simp add: not_break_def CR_def LF_def)
  have "forged \<noteq> []" by (simp add: forged_def)
  then show ?thesis
    using sse_roundtrip [of "[forged, ''[DONE]'']" "[writeData forged @ take 3 (writeData ''[DONE]''), drop 3 (writeData ''[DONE]'')]"] ok
    by (simp add: n d)
qed

theorem sse_chunks_irrelevant_witness:
  "readSSE [''data: a'' @ [CR], [LF], [LF]] False collect [] = readSSE [''da'', ''ta: a'' @ [CR, LF, LF]] False collect []"
  by (rule sse_chunks_irrelevant) simp

end
