(* ===== verification/RedisStore.thy ===== *)
theory RedisStore
  imports Limiter Resp
begin

text \<open>
  The counter store over Redis (redis_store.go): batches of INCRBY and SET with their EXPIRE commands
  in one pipeline, and the bounded memory of keys whose lifetime is known to be set.

  The client is the argument \<open>pipe\<close>: it takes a pipeline of commands and gives an error or the
  replies.  What the store relies on is the hypothesis \<open>redis_once\<close>: a pipeline that succeeds ran its
  commands once and in order, as Redis documents them, and one that fails ran some first part of them.
  The documented meaning of the four commands is \<open>redis_cmd\<close>, over values and whether a key has a
  lifetime.  Under it the store refines the counters of \<open>CounterStore\<close>, no counter it remembers is
  left without a lifetime, and the limiter decides over it as over the in-process store.  An error is
  kept as its kind and key.
\<close>

subsection \<open>The store\<close>

record redisStore =
  rd_expireSeen :: "string set"
  rd_expireOrder :: "string list"

definition newRedisStore :: redisStore where
  "newRedisStore = \<lparr>rd_expireSeen = {}, rd_expireOrder = []\<rparr>"

definition expireOnceCacheMax :: nat where "expireOnceCacheMax = 4096"

definition needsExpireBatch :: "counterIncr list \<Rightarrow> redisStore \<Rightarrow> bool list" where
  "needsExpireBatch entries s = map (\<lambda>e. if ci_absolute e then False else ci_key e \<notin> rd_expireSeen s) entries"

definition commitExpireLocked :: "string \<Rightarrow> redisStore \<Rightarrow> redisStore" where
  "commitExpireLocked key s =
     (if key \<in> rd_expireSeen s then s
      else let s1 = (if expireOnceCacheMax \<le> length (rd_expireOrder s)
                     then \<lparr>rd_expireSeen = rd_expireSeen s - {hd (rd_expireOrder s)}, rd_expireOrder = tl (rd_expireOrder s)\<rparr>
                     else s)
           in \<lparr>rd_expireSeen = insert key (rd_expireSeen s1), rd_expireOrder = rd_expireOrder s1 @ [key]\<rparr>)"

definition forgetExpireLocked :: "string \<Rightarrow> redisStore \<Rightarrow> redisStore" where
  "forgetExpireLocked key s = s\<lparr>rd_expireSeen := rd_expireSeen s - {key}\<rparr>"

text \<open>What is known of an entry after its reply: its value, whether its EXPIRE was confirmed, and
  whether it turned out to be the first write of its key.\<close>

type_synonym settled = "int \<times> bool \<times> bool"

definition settle_one :: "counterIncr \<times> settled \<Rightarrow> redisStore \<Rightarrow> redisStore" where
  "settle_one = (\<lambda>(e, v, confirmed, firstWrite) s.
     if confirmed then commitExpireLocked (ci_key e) s
     else if firstWrite then forgetExpireLocked (ci_key e) s else s)"

definition settleExpireBatch :: "counterIncr list \<Rightarrow> settled list \<Rightarrow> redisStore \<Rightarrow> redisStore" where
  "settleExpireBatch entries results s = fold settle_one (zip entries results) s"

definition ttlToSeconds :: "duration \<Rightarrow> int" where
  "ttlToSeconds ttl =
     (let s = ttl sdiv second; s = (if ttl smod second \<noteq> 0 then wrap64 (s + 1) else s)
      in if s < 1 then 1 else s)"

definition expire_cmd :: "counterIncr \<Rightarrow> string list" where
  "expire_cmd e = [''EXPIRE'', ci_key e, itoa (ttlToSeconds (ci_ttl e))]"

definition entry_cmds :: "counterIncr \<Rightarrow> bool \<Rightarrow> string list list" where
  "entry_cmds e sendExpire =
     (if ci_absolute e then [[''SET'', ci_key e, itoa (ci_delta e), ''EX'', itoa (ttlToSeconds (ci_ttl e))]]
      else [''INCRBY'', ci_key e, itoa (ci_delta e)] # (if sendExpire then [expire_cmd e] else []))"

text \<open>The commands of a batch, and where the reply of each entry is found.\<close>

fun incr_cmds :: "counterIncr list \<Rightarrow> bool list \<Rightarrow> string list list" where
  "incr_cmds (e # es) (b # bs) = entry_cmds e b @ incr_cmds es bs"
| "incr_cmds _ _ = []"

fun incrReplyIdx :: "nat \<Rightarrow> counterIncr list \<Rightarrow> bool list \<Rightarrow> nat list" where
  "incrReplyIdx n (e # es) (b # bs) = n # incrReplyIdx (n + length (entry_cmds e b)) es bs"
| "incrReplyIdx n _ _ = []"

datatype storeError = PipelineFailed string | ReplyCount nat nat | CommandFailed string string | UnexpectedReply string | ReadFailed replyError

fun applyIncrReplies :: "respValue list \<Rightarrow> counterIncr list \<Rightarrow> nat list \<Rightarrow> bool list \<Rightarrow> storeError option \<times> settled list" where
  "applyIncrReplies replies (e # es) (i # is) (sent # bs) =
     (let proceed = (\<lambda>r. case applyIncrReplies replies es is bs of (err, rs) \<Rightarrow> (err, r # rs)) in
      case replies ! i of
        RErr msg \<Rightarrow> (Some (CommandFailed (ci_key e) msg), [])
      | RSimple t \<Rightarrow> if ci_absolute e \<and> t = ''OK'' then proceed (ci_delta e, False, False) else (Some (UnexpectedReply (ci_key e)), [])
      | RInt v \<Rightarrow>
          if ci_absolute e then (Some (UnexpectedReply (ci_key e)), [])
          else if sent then proceed (v, replies ! (i + 1) = RInt 1, False)
          else proceed (v, False, v = ci_delta e)
      | _ \<Rightarrow> (Some (UnexpectedReply (ci_key e)), []))"
| "applyIncrReplies replies _ _ _ = (None, [])"

type_synonym 'r pipeline = "string list list \<Rightarrow> 'r \<Rightarrow> (string + respValue list) \<times> 'r"

definition repairRecreatedExpires :: "'r pipeline \<Rightarrow> counterIncr list \<Rightarrow> redisStore \<times> 'r \<Rightarrow> redisStore \<times> 'r" where
  "repairRecreatedExpires pipe recreated = (\<lambda>(s, r).
     if recreated = [] then (s, r)
     else case pipe (map expire_cmd recreated) r of
            (Inl err, r1) \<Rightarrow> (s, r1)
          | (Inr replies, r1) \<Rightarrow>
              if length replies \<noteq> length recreated then (s, r1)
              else (fold (\<lambda>(e, reply) s. if reply = RInt 1 then commitExpireLocked (ci_key e) s else s) (zip recreated replies) s, r1))"

definition recreated_entries :: "counterIncr list \<Rightarrow> settled list \<Rightarrow> counterIncr list" where
  "recreated_entries entries results = map fst (filter (\<lambda>(e, v, confirmed, firstWrite). firstWrite) (zip entries results))"

text \<open>The pipeline shared by \<open>incrMulti\<close> and \<open>incrAndGetMulti\<close>, up to the reads.\<close>

definition incr_pipeline :: "'r pipeline \<Rightarrow> counterIncr list \<Rightarrow> string list \<Rightarrow> redisStore \<times> 'r \<Rightarrow>
    (storeError + int list \<times> respValue list) \<times> (redisStore \<times> 'r)" where
  "incr_pipeline pipe entries reads = (\<lambda>(s, r).
     let sendExpire = needsExpireBatch entries s;
         writes = incr_cmds entries sendExpire;
         cmds = writes @ map (\<lambda>k. [''GET'', k]) reads
     in case pipe cmds r of
          (Inl err, r1) \<Rightarrow> (Inl (PipelineFailed err), (s, r1))
        | (Inr replies, r1) \<Rightarrow>
            if length replies \<noteq> length cmds then (Inl (ReplyCount (length cmds) (length replies)), (s, r1))
            else (case applyIncrReplies replies entries (incrReplyIdx 0 entries sendExpire) sendExpire of
                    (applyErr, results) \<Rightarrow>
                      let s1 = settleExpireBatch entries results s
                      in case applyErr of
                           Some err \<Rightarrow> (Inl err, (s1, r1))
                         | None \<Rightarrow> (Inr (map fst results, drop (length writes) replies),
                                    repairRecreatedExpires pipe (recreated_entries entries results) (s1, r1))))"

definition redis_incrMulti :: "'r pipeline \<Rightarrow> counterIncr list \<Rightarrow> redisStore \<times> 'r \<Rightarrow> (storeError + int list) \<times> (redisStore \<times> 'r)" where
  "redis_incrMulti pipe entries st =
     (if entries = [] then (Inr [], st)
      else case incr_pipeline pipe entries [] st of
             (Inl err, st1) \<Rightarrow> (Inl err, st1) | (Inr (vals, _), st1) \<Rightarrow> (Inr vals, st1))"

definition redis_incrAndGetMulti :: "'r pipeline \<Rightarrow> counterIncr list \<Rightarrow> string list \<Rightarrow> redisStore \<times> 'r \<Rightarrow>
    (storeError + int list \<times> int list) \<times> (redisStore \<times> 'r)" where
  "redis_incrAndGetMulti pipe entries reads st =
     (if entries = [] \<and> reads = [] then (Inr ([], []), st)
      else case incr_pipeline pipe entries reads st of
             (Inl err, st1) \<Rightarrow> (Inl err, st1)
           | (Inr (vals, readReplies), st1) \<Rightarrow>
               (case getBatch_replies readReplies of
                  Inl err \<Rightarrow> (Inl (ReadFailed err), st1) | Inr readVals \<Rightarrow> (Inr (vals, readVals), st1)))"

definition redis_getMulti :: "'r pipeline \<Rightarrow> string list \<Rightarrow> redisStore \<times> 'r \<Rightarrow> (storeError + int list) \<times> (redisStore \<times> 'r)" where
  "redis_getMulti pipe keys = (\<lambda>(s, r).
     case pipe (map (\<lambda>k. [''GET'', k]) keys) r of
       (Inl err, r1) \<Rightarrow> (Inl (PipelineFailed err), (s, r1))
     | (Inr replies, r1) \<Rightarrow>
         (case getBatch_replies replies of Inl err \<Rightarrow> (Inl (ReadFailed err), (s, r1)) | Inr vs \<Rightarrow> (Inr vs, (s, r1))))"

definition storeError_text :: "storeError \<Rightarrow> string" where
  "storeError_text err =
     (case err of PipelineFailed m \<Rightarrow> ''redisStore: '' @ m | ReplyCount n k \<Rightarrow> ''redisStore: unexpected number of replies''
      | CommandFailed key m \<Rightarrow> ''redisStore: '' @ key @ '': '' @ m | UnexpectedReply key \<Rightarrow> ''redisStore: '' @ key @ '': unexpected reply''
      | ReadFailed _ \<Rightarrow> ''redisStore: read failed'')"

definition text_error :: "(storeError + 'v) \<times> 't \<Rightarrow> (string + 'v) \<times> 't" where
  "text_error = (\<lambda>(x, st). ((case x of Inl err \<Rightarrow> Inl (storeError_text err) | Inr v \<Rightarrow> Inr v), st))"

text \<open>The store behind the limiter's interface; Redis keeps its own clock.\<close>

definition redis_ops :: "'r pipeline \<Rightarrow> (redisStore \<times> 'r) counterStoreOps" where
  "redis_ops pipe = \<lparr>op_getMulti = (\<lambda>now keys st. text_error (redis_getMulti pipe keys st)),
     op_incrMulti = (\<lambda>now entries st. text_error (redis_incrMulti pipe entries st)),
     op_incrAndGetMulti = (\<lambda>now entries reads st. text_error (redis_incrAndGetMulti pipe entries reads st))\<rparr>"

subsection \<open>Redis as documented\<close>

type_synonym redis_db = "string \<rightharpoonup> string \<times> bool"

text \<open>INCRBY works on the decimal form of a 64-bit number only.\<close>

definition redis_int :: "string \<Rightarrow> int option" where
  "redis_int v = (case atoi v of Some n \<Rightarrow> if itoa n = v then Some n else None | None \<Rightarrow> None)"

definition redis_incrby :: "string \<Rightarrow> string \<Rightarrow> redis_db \<Rightarrow> respValue \<times> redis_db" where
  "redis_incrby k d db =
     (let (v, t) = (case db k of None \<Rightarrow> (''0'', False) | Some p \<Rightarrow> p) in
      case (redis_int v, atoi d) of
        (Some n, Some m) \<Rightarrow> if in_int64 (n + m) then (RInt (n + m), db(k \<mapsto> (itoa (n + m), t))) else (RErr ''ERR increment or decrement would overflow'', db)
      | _ \<Rightarrow> (RErr ''ERR value is not an integer or out of range'', db))"

definition redis_expire :: "string \<Rightarrow> string \<Rightarrow> redis_db \<Rightarrow> respValue \<times> redis_db" where
  "redis_expire k secs db =
     (case atoi secs of
        None \<Rightarrow> (RErr ''ERR value is not an integer or out of range'', db)
      | Some n \<Rightarrow> (case db k of None \<Rightarrow> (RInt 0, db)
                   | Some (v, t) \<Rightarrow> (RInt 1, if n \<le> 0 then db(k := None) else db(k \<mapsto> (v, True)))))"

definition redis_set_ex :: "string \<Rightarrow> string \<Rightarrow> string \<Rightarrow> redis_db \<Rightarrow> respValue \<times> redis_db" where
  "redis_set_ex k v secs db =
     (case atoi secs of
        Some n \<Rightarrow> if 0 < n then (RSimple ''OK'', db(k \<mapsto> (v, True))) else (RErr ''ERR invalid expire time in 'set' command'', db)
      | None \<Rightarrow> (RErr ''ERR value is not an integer or out of range'', db))"

definition redis_cmd :: "string list \<Rightarrow> redis_db \<Rightarrow> respValue \<times> redis_db" where
  "redis_cmd c db =
     (case c of
        [n, k] \<Rightarrow> if n = ''GET'' then (case db k of None \<Rightarrow> RNil | Some (v, t) \<Rightarrow> RBulk v, db) else (RErr ''ERR unknown command'', db)
      | [n, k, a] \<Rightarrow> if n = ''INCRBY'' then redis_incrby k a db else if n = ''EXPIRE'' then redis_expire k a db else (RErr ''ERR unknown command'', db)
      | [n, k, v, x, secs] \<Rightarrow> if n = ''SET'' \<and> x = ''EX'' then redis_set_ex k v secs db else (RErr ''ERR unknown command'', db)
      | _ \<Rightarrow> (RErr ''ERR unknown command'', db))"

fun redis_run :: "string list list \<Rightarrow> redis_db \<Rightarrow> respValue list \<times> redis_db" where
  "redis_run [] db = ([], db)"
| "redis_run (c # cs) db = (case redis_cmd c db of (r, db1) \<Rightarrow> case redis_run cs db1 of (rs, db2) \<Rightarrow> (r # rs, db2))"

definition redis_once :: "'r pipeline \<Rightarrow> ('r \<Rightarrow> redis_db) \<Rightarrow> bool" where
  "redis_once pipe db \<longleftrightarrow> (\<forall>cmds r.
     case pipe cmds r of
       (Inr replies, r1) \<Rightarrow> redis_run cmds (db r) = (replies, db r1)
     | (Inl err, r1) \<Rightarrow> \<exists>n. db r1 = snd (redis_run (take n cmds) (db r)))"

lemma redis_once_ok: "redis_once pipe db \<Longrightarrow> pipe cmds r = (Inr replies, r1) \<Longrightarrow> redis_run cmds (db r) = (replies, db r1)"
  by (auto simp: redis_once_def dest!: spec [of _ cmds] spec [of _ r])

lemma redis_once_fail: "redis_once pipe db \<Longrightarrow> pipe cmds r = (Inl err, r1) \<Longrightarrow> \<exists>n. db r1 = snd (redis_run (take n cmds) (db r))"
  by (auto simp: redis_once_def dest!: spec [of _ cmds] spec [of _ r])

text \<open>The counters a reader sees.\<close>

definition redis_view :: "redis_db \<Rightarrow> string \<Rightarrow> int" where
  "redis_view db k = (case db k of None \<Rightarrow> 0 | Some (v, t) \<Rightarrow> (case atoi v of Some n \<Rightarrow> n | None \<Rightarrow> 0))"

text \<open>Entries as the code has them: 64-bit numbers.\<close>

definition entry_int64 :: "counterIncr \<Rightarrow> bool" where
  "entry_int64 e \<longleftrightarrow> in_int64 (ci_delta e) \<and> in_int64 (ci_ttl e)"

subsection \<open>The effect of one entry\<close>

lemma redis_run_append:
  "redis_run (cs @ ds) db = (case redis_run cs db of (rs, db1) \<Rightarrow> case redis_run ds db1 of (qs, db2) \<Rightarrow> (rs @ qs, db2))"
  by (induction cs arbitrary: db) (auto split: prod.splits)

lemma redis_run_length [simp]: "length (fst (redis_run cs db)) = length cs"
  by (induction cs arbitrary: db) (simp_all add: case_prod_beta)

lemma ttlToSeconds_range:
  assumes "in_int64 ttl" shows "1 \<le> ttlToSeconds ttl \<and> in_int64 (ttlToSeconds ttl)"
proof -
  have "\<bar>ttl sdiv second\<bar> \<le> \<bar>ttl\<bar> div second"
    by (simp add: signed_divide_int_def second_def sgn_if abs_mult)
  also have "\<dots> \<le> 2 ^ 63 div second"
    using assms by (intro zdiv_mono1) (auto simp: in_int64_def min_int64_def max_int64_def second_def)
  finally have "\<bar>ttl sdiv second\<bar> \<le> 9223372036" by (simp add: second_def)
  then have "in_int64 (ttl sdiv second)" "in_int64 (ttl sdiv second + 1)"
    by (simp_all add: in_int64_def min_int64_def max_int64_def abs_le_iff)
  then show ?thesis by (auto simp: ttlToSeconds_def Let_def in_int64_def min_int64_def max_int64_def)
qed

lemma atoi_ttl: "entry_int64 e \<Longrightarrow> \<exists>n. atoi (itoa (ttlToSeconds (ci_ttl e))) = Some n \<and> 1 \<le> n"
  using ttlToSeconds_range [of "ci_ttl e"] by (auto simp: entry_int64_def atoi_itoa)

lemma redis_view_upd: "redis_view (db(k \<mapsto> (itoa n, t))) = (redis_view db)(k := n)" if "in_int64 n"
  using that by (auto simp: redis_view_def fun_eq_iff atoi_itoa)

lemma redis_int_view:
  "db k = Some (v, t) \<Longrightarrow> redis_int v = Some n \<Longrightarrow> redis_view db k = n \<and> in_int64 n"
  by (auto simp: redis_view_def redis_int_def atoi_def Let_def split: option.splits if_splits)

lemma redis_int_zero: "redis_int ''0'' = Some 0"
  by code_simp

text \<open>INCRBY either reports an error and changes nothing or adds the delta.\<close>

lemma redis_incrby_cases:
  assumes "redis_incrby k (itoa d) db = (r, db1)" and "in_int64 d"
  obtains (err) msg where "r = RErr msg" and "db1 = db"
  | (ok) n t where "r = RInt (n + d)" and "n = redis_view db k" and "in_int64 (n + d)"
      and "db1 = db(k \<mapsto> (itoa (n + d), t))" and "t \<longleftrightarrow> (\<exists>v. db k = Some (v, True))" and "db k = None \<Longrightarrow> n = 0"
proof (cases "db k")
  case None
  then show thesis using assms err ok [of 0 False]
    by (auto simp: redis_incrby_def redis_int_zero atoi_itoa redis_view_def split: if_splits)
next
  case (Some p)
  obtain v t where p: "p = (v, t)" by fastforce
  show thesis
  proof (cases "redis_int v")
    case None
    with Some p assms err show thesis by (auto simp: redis_incrby_def)
  next
    case (Some n)
    have v: "redis_view db k = n" using redis_int_view [of db k v t n] \<open>db k = Some p\<close> p Some by blast
    have run: "redis_incrby k (itoa d) db = (if in_int64 (n + d) then (RInt (n + d), db(k \<mapsto> (itoa (n + d), t)))
        else (RErr ''ERR increment or decrement would overflow'', db))"
      by (simp add: redis_incrby_def \<open>db k = Some p\<close> p Some atoi_itoa [OF assms(2)])
    show thesis
    proof (cases "in_int64 (n + d)")
      case True
      with run assms(1) have r: "r = RInt (n + d)" "db1 = db(k \<mapsto> (itoa (n + d), t))" by simp_all
      show thesis by (rule ok [OF r(1) v [symmetric] True r(2)]) (simp_all add: \<open>db k = Some p\<close> p)
    next
      case False
      with run assms(1) show thesis by (intro err) auto
    qed
  qed
qed

definition has_ttl :: "redis_db \<Rightarrow> string \<Rightarrow> bool" where
  "has_ttl db k \<longleftrightarrow> (\<exists>v. db k = Some (v, True))"

lemma has_ttl_upd [simp]: "has_ttl (db(k \<mapsto> (v, t))) k' \<longleftrightarrow> (if k' = k then t else has_ttl db k')"
  by (simp add: has_ttl_def)

text \<open>The replies of one entry: an error, or the entry as \<open>CounterStore\<close> specifies it.\<close>

lemma entry_run_cases:
  assumes "redis_run (entry_cmds e b) db = (rs, db1)" and "entry_int64 e"
  obtains (err) msg rs' where "rs = RErr msg # rs'"
  | (set) "ci_absolute e" and "rs = [RSimple ''OK'']" and "db1 = db(ci_key e \<mapsto> (itoa (ci_delta e), True))"
  | (incr) n t where "\<not> ci_absolute e" and "rs = RInt n # (if b then [RInt 1] else [])" and "n = spec_step e (redis_view db) (ci_key e)"
      and "in_int64 n" and "db1 = db(ci_key e \<mapsto> (itoa n, t))" and "t \<longleftrightarrow> b \<or> has_ttl db (ci_key e)"
      and "db (ci_key e) = None \<Longrightarrow> n = ci_delta e"
proof (cases "ci_absolute e")
  case True
  then show thesis using assms set atoi_ttl [OF assms(2)]
    by (auto simp: entry_cmds_def redis_cmd_def redis_set_ex_def)
next
  case False
  obtain r db2 where i: "redis_incrby (ci_key e) (itoa (ci_delta e)) db = (r, db2)" by fastforce
  have d: "in_int64 (ci_delta e)" using assms(2) by (simp add: entry_int64_def)
  have run: "redis_run (entry_cmds e b) db = (case redis_run (if b then [expire_cmd e] else []) db2 of (rs', db') \<Rightarrow> (r # rs', db'))"
    using False i by (simp add: entry_cmds_def redis_cmd_def)
  from i d show thesis
  proof (cases rule: redis_incrby_cases)
    case (err msg)
    with run assms(1) show thesis by (auto intro!: \<open>\<And>msg rs'. rs = RErr msg # rs' \<Longrightarrow> thesis\<close> split: prod.splits)
  next
    case (ok n t)
    obtain secs where secs: "atoi (itoa (ttlToSeconds (ci_ttl e))) = Some secs" "1 \<le> secs" using atoi_ttl [OF assms(2)] by blast
    have tail: "redis_run (if b then [expire_cmd e] else []) db2 = (if b then [RInt 1] else [], db(ci_key e \<mapsto> (itoa (n + ci_delta e), b \<or> t)))"
      using secs by (simp add: ok(4) expire_cmd_def redis_cmd_def redis_expire_def)
    have n: "n + ci_delta e = spec_step e (redis_view db) (ci_key e)" using ok False by (simp add: spec_step_def)
    show thesis
      by (rule incr [OF False _ n ok(3), of "b \<or> t"]) (use assms(1) run tail ok in \<open>auto simp: has_ttl_def\<close>)
  qed
qed

lemma entry_run_view:
  assumes "redis_run (entry_cmds e b) db = (rs, db1)" and "entry_int64 e" and "\<nexists>msg. rs ! 0 = RErr msg"
  shows "redis_view db1 = spec_step e (redis_view db)"
  using assms(1,2)
proof (cases rule: entry_run_cases)
  case set
  with assms(2) show ?thesis by (simp add: redis_view_upd entry_int64_def spec_step_def)
next
  case (incr n t)
  with assms(2) show ?thesis by (auto simp: redis_view_upd spec_step_def)
qed (use assms(3) in simp)

subsection \<open>The effect of a batch\<close>

text \<open>What a batch without an error does, entry by entry: values, lifetimes, and what is settled.\<close>

inductive batch_effect :: "redis_db \<Rightarrow> counterIncr list \<Rightarrow> bool list \<Rightarrow> settled list \<Rightarrow> redis_db \<Rightarrow> bool" where
  batch_nil: "batch_effect db [] [] [] db"
| batch_cons: "\<lbrakk>batch_effect (db(ci_key e \<mapsto> (itoa v, t))) es bs results db'; v = spec_step e (redis_view db) (ci_key e); in_int64 v;
     t \<longleftrightarrow> ci_absolute e \<or> b \<or> has_ttl db (ci_key e); c \<longleftrightarrow> b \<and> \<not> ci_absolute e;
     f \<longleftrightarrow> \<not> b \<and> \<not> ci_absolute e \<and> v = ci_delta e; db (ci_key e) = None \<Longrightarrow> v = ci_delta e\<rbrakk>
   \<Longrightarrow> batch_effect db (e # es) (b # bs) ((v, c, f) # results) db'"

lemma apply_batch:
  assumes "redis_run (incr_cmds es bs) db = (rs, db')" and "length bs = length es" and "\<forall>e\<in>set es. entry_int64 e"
    and "applyIncrReplies (pre @ rs @ post) es (incrReplyIdx (length pre) es bs) bs = (None, results)"
  shows "batch_effect db es bs results db'"
  using assms
proof (induction es arbitrary: bs db rs pre results)
  case Nil
  then show ?case by (simp add: batch_nil)
next
  case (Cons e es)
  obtain b bs' where bs: "bs = b # bs'" "length bs' = length es" using Cons.prems(2) by (cases bs) auto
  obtain rs1 db1 where r1: "redis_run (entry_cmds e b) db = (rs1, db1)" by fastforce
  obtain rs2 where r2: "redis_run (incr_cmds es bs') db1 = (rs2, db')" and rs: "rs = rs1 @ rs2"
    using Cons.prems(1) bs r1 by (auto simp: redis_run_append split: prod.splits)
  have len: "length rs1 = length (entry_cmds e b)" using r1 redis_run_length by (metis fst_conv)
  have e: "entry_int64 e" using Cons.prems(3) by simp
  let ?R = "(pre @ rs1) @ rs2 @ post"
  have rest: "batch_effect db1 es bs' results' db'"
    if "applyIncrReplies ?R es (incrReplyIdx (length (pre @ rs1)) es bs') bs' = (None, results')" for results'
    using Cons.IH [OF r2 bs(2) _ that] Cons.prems(3) by simp
  have ap: "applyIncrReplies ?R (e # es) (length pre # incrReplyIdx (length (pre @ rs1)) es bs') (b # bs') = (None, results)"
    using Cons.prems(4) bs rs len by simp
  have hd: "?R ! length pre = rs1 ! 0" "b \<Longrightarrow> length rs1 = 2 \<Longrightarrow> ?R ! Suc (length pre) = rs1 ! 1" if "rs1 \<noteq> []"
    using that by (simp_all add: nth_append)
  from r1 e show ?case
  proof (cases rule: entry_run_cases)
    case (err msg rs')
    then show ?thesis using ap hd by (simp add: Let_def)
  next
    case set
    with ap hd obtain results' where res: "results = (ci_delta e, False, False) # results'"
      and "applyIncrReplies ?R es (incrReplyIdx (length (pre @ rs1)) es bs') bs' = (None, results')"
      by (auto simp: Let_def split: prod.splits)
    from rest [OF this(2)] set e show ?thesis unfolding res bs(1)
      by (intro batch_cons [where t = True]) (auto simp: spec_step_def entry_int64_def)
  next
    case (incr n t)
    with ap hd obtain results' where res: "results = (n, b, \<not> b \<and> n = ci_delta e) # results'"
      and "applyIncrReplies ?R es (incrReplyIdx (length (pre @ rs1)) es bs') bs' = (None, results')"
      by (auto simp: Let_def split: prod.splits if_splits)
    from rest [OF this(2)] incr show ?thesis unfolding res bs(1)
      by (intro batch_cons [where t = t]) auto
  qed
qed

lemma batch_vals: "batch_effect db es bs results db' \<Longrightarrow>
    map fst results = spec_vals es (redis_view db) \<and> redis_view db' = fold spec_step es (redis_view db)"
proof (induction rule: batch_effect.induct)
  case (batch_cons db e v t es bs results db' b c f)
  have "redis_view (db(ci_key e \<mapsto> (itoa v, t))) = spec_step e (redis_view db)"
    using batch_cons.hyps by (simp add: redis_view_upd) (simp add: spec_step_def)
  from batch_cons.IH [unfolded this] batch_cons.hyps(2) show ?case by simp
qed simp

lemma batch_keeps: "batch_effect db es bs results db' \<Longrightarrow> k \<notin> ci_key ` set es \<Longrightarrow> db' k = db k"
  by (induction rule: batch_effect.induct) auto

lemma batch_ttl_mono: "batch_effect db es bs results db' \<Longrightarrow> has_ttl db k \<Longrightarrow> has_ttl db' k"
proof (induction rule: batch_effect.induct)
  case (batch_cons db e v t es bs results db' b c f)
  from batch_cons.prems have "has_ttl (db(ci_key e \<mapsto> (itoa v, t))) k" using batch_cons.hyps(4) by auto
  with batch_cons.IH show ?case by blast
qed

lemma batch_ttl_set:
  "batch_effect db es bs results db' \<Longrightarrow> (e, b) \<in> set (zip es bs) \<Longrightarrow> b \<or> ci_absolute e \<Longrightarrow> has_ttl db' (ci_key e)"
proof (induction rule: batch_effect.induct)
  case (batch_cons db e0 v t es bs results db' b0 c f)
  show ?case
  proof (cases "(e, b) = (e0, b0)")
    case True
    then have "has_ttl (db(ci_key e0 \<mapsto> (itoa v, t))) (ci_key e)" using batch_cons by auto
    with batch_ttl_mono batch_cons.hyps(1) show ?thesis by blast
  qed (use batch_cons in auto)
qed simp

lemma batch_lengths: "batch_effect db es bs results db' \<Longrightarrow> length bs = length es \<and> length results = length es"
  by (induction rule: batch_effect.induct) auto

text \<open>A key that was gone and gets no EXPIRE in this batch is noticed as recreated.\<close>

lemma batch_recreated:
  assumes "batch_effect db es bs results db'" and "k \<in> ci_key ` set es" and "db k = None"
    and "\<forall>(e, b)\<in>set (zip es bs). ci_key e = k \<longrightarrow> \<not> b \<and> \<not> ci_absolute e"
  shows "\<exists>e v. ci_key e = k \<and> (e, v, False, True) \<in> set (zip es results)"
  using assms
proof (induction rule: batch_effect.induct)
  case (batch_cons db e v t es bs results db' b c f)
  show ?case
  proof (cases "ci_key e = k")
    case True
    with batch_cons have "\<not> b" "\<not> ci_absolute e" "v = ci_delta e" by auto
    with batch_cons.hyps True show ?thesis by auto
  qed (use batch_cons in auto)
qed simp

lemma batch_settled:
  assumes "batch_effect db es bs results db'" and "(e, v, c, f) \<in> set (zip es results)"
  shows "(c \<longrightarrow> has_ttl db' (ci_key e)) \<and> (\<exists>b. (e, b) \<in> set (zip es bs) \<and> (c \<longrightarrow> b) \<and> (f \<longrightarrow> \<not> b \<and> \<not> ci_absolute e))"
  using assms
proof (induction rule: batch_effect.induct)
  case (batch_cons db e0 v0 t es bs results db' b0 c0 f0)
  show ?case
  proof (cases "(e, v, c, f) = (e0, v0, c0, f0)")
    case True
    have "has_ttl db' (ci_key e0)" if b0
      using batch_ttl_set [OF batch_effect.batch_cons [OF batch_cons.hyps], of e0 b0] that by simp
    with True batch_cons.hyps show ?thesis by auto
  qed (use batch_cons in auto)
qed simp

subsection \<open>Reads and repairs\<close>

lemma redis_run_gets:
  "redis_run (map (\<lambda>k. [''GET'', k]) ks) db = (map (\<lambda>k. case db k of None \<Rightarrow> RNil | Some (v, t) \<Rightarrow> RBulk v) ks, db)"
  by (induction ks) (auto simp: redis_cmd_def)

lemma getBatch_view:
  "getBatch_replies (map (\<lambda>k. case db k of None \<Rightarrow> RNil | Some (v, t) \<Rightarrow> RBulk v) ks) = Inr vs \<Longrightarrow> vs = map (redis_view db) ks"
  by (induction ks arbitrary: vs) (auto simp: bind_sum_Inr getBatch_value_def redis_view_def split: option.splits prod.splits)

text \<open>EXPIRE commands change no value, create and remove no key, and only add lifetimes.\<close>

definition only_ttl :: "redis_db \<Rightarrow> redis_db \<Rightarrow> bool" where
  "only_ttl db db' \<longleftrightarrow> redis_view db' = redis_view db \<and> (\<forall>k. has_ttl db k \<longrightarrow> has_ttl db' k) \<and> (\<forall>k. db' k = None \<longleftrightarrow> db k = None)"

lemma only_ttl_refl [simp]: "only_ttl db db"
  by (simp add: only_ttl_def)

lemma only_ttl_trans: "only_ttl a b \<Longrightarrow> only_ttl b c \<Longrightarrow> only_ttl a c"
  by (simp add: only_ttl_def)

lemma expire_step:
  assumes "redis_cmd (expire_cmd e) db = (r, db1)" and "entry_int64 e"
  shows "only_ttl db db1 \<and> (r = RInt 1 \<longrightarrow> has_ttl db1 (ci_key e))"
proof -
  obtain n where "atoi (itoa (ttlToSeconds (ci_ttl e))) = Some n" "1 \<le> n" using atoi_ttl [OF assms(2)] by blast
  moreover have "only_ttl db (db(ci_key e \<mapsto> (v, True)))" if "db (ci_key e) = Some (v, t)" for v t
    using that by (auto simp: only_ttl_def redis_view_def fun_eq_iff)
  ultimately show ?thesis using assms(1)
    by (cases "db (ci_key e)") (auto simp: expire_cmd_def redis_cmd_def redis_expire_def)
qed

lemma expire_run:
  assumes "\<forall>e\<in>set es. entry_int64 e" and "redis_run (map expire_cmd es) db = (rs, db')"
  shows "only_ttl db db' \<and> (\<forall>(e, r)\<in>set (zip es rs). r = RInt 1 \<longrightarrow> has_ttl db' (ci_key e))"
  using assms
proof (induction es arbitrary: db rs)
  case (Cons e es)
  obtain r db1 where 1: "redis_cmd (expire_cmd e) db = (r, db1)" by fastforce
  obtain rs' where 2: "redis_run (map expire_cmd es) db1 = (rs', db')" "rs = r # rs'" using Cons.prems(2) 1 by (auto split: prod.splits)
  note h = expire_step [OF 1] and t = Cons.IH [OF _ 2(1)]
  from h t Cons.prems(1) have o: "only_ttl db db1" "only_ttl db1 db'" by auto
  moreover have "r = RInt 1 \<longrightarrow> has_ttl db' (ci_key e)" using h t Cons.prems(1) by (auto simp: only_ttl_def)
  ultimately show ?case using t Cons.prems(1) 2(2) only_ttl_trans [OF o] by auto
qed simp

lemma expire_prefix: "\<forall>e\<in>set es. entry_int64 e \<Longrightarrow> only_ttl db (snd (redis_run (take n (map expire_cmd es)) db))"
  using expire_run [of "take n es" db "fst (redis_run (map expire_cmd (take n es)) db)" "snd (redis_run (map expire_cmd (take n es)) db)"]
  by (auto simp: take_map dest: in_set_takeD)

subsection \<open>The remembered keys\<close>

definition bounded_memory :: "redisStore \<Rightarrow> bool" where
  "bounded_memory s \<longleftrightarrow> rd_expireSeen s \<subseteq> set (rd_expireOrder s) \<and> length (rd_expireOrder s) \<le> expireOnceCacheMax"

lemma commit_seen: "k \<in> rd_expireSeen (commitExpireLocked key s) \<Longrightarrow> k \<in> rd_expireSeen s \<or> k = key"
  by (auto simp: commitExpireLocked_def Let_def split: if_splits)

lemma commit_bounded: "bounded_memory s \<Longrightarrow> bounded_memory (commitExpireLocked key s)"
proof -
  assume b: "bounded_memory s"
  have "rd_expireSeen s - {hd (rd_expireOrder s)} \<subseteq> set (tl (rd_expireOrder s))"
    using b by (cases "rd_expireOrder s") (auto simp: bounded_memory_def)
  with b show ?thesis by (auto simp: bounded_memory_def commitExpireLocked_def Let_def expireOnceCacheMax_def)
qed

lemma settle_one_bounded: "bounded_memory s \<Longrightarrow> bounded_memory (settle_one x s)"
  by (auto simp: settle_one_def commit_bounded split: prod.splits) (auto simp: bounded_memory_def forgetExpireLocked_def)

lemma fold_bounded: "(\<And>x s. bounded_memory s \<Longrightarrow> bounded_memory (f x s)) \<Longrightarrow> bounded_memory s \<Longrightarrow> bounded_memory (fold f xs s)"
  by (induction xs arbitrary: s) auto

lemma settle_seen:
  "k \<in> rd_expireSeen (fold settle_one zs s) \<Longrightarrow> k \<in> rd_expireSeen s \<or> (\<exists>e v f. (e, v, True, f) \<in> set zs \<and> ci_key e = k)"
proof (induction zs arbitrary: s)
  case (Cons z zs)
  from Cons.IH [of "settle_one z s"] Cons.prems show ?case
    by (cases z) (auto simp: settle_one_def forgetExpireLocked_def dest!: commit_seen split: if_splits)
qed simp

lemma settle_forgets:
  assumes "(e, v, False, True) \<in> set zs" and "ci_key e = k" and "\<nexists>e v f. (e, v, True, f) \<in> set zs \<and> ci_key e = k"
  shows "k \<notin> rd_expireSeen (fold settle_one zs s)"
  using assms
proof (induction zs arbitrary: s)
  case (Cons z zs)
  show ?case
  proof (cases "z = (e, v, False, True)")
    case True
    have "k \<notin> rd_expireSeen (settle_one z s)" using True Cons.prems(2) by (simp add: settle_one_def forgetExpireLocked_def)
    with Cons.prems(3) show ?thesis using settle_seen [of k zs "settle_one z s"] by auto
  qed (use Cons in auto)
qed simp

lemma repair_seen:
  "k \<in> rd_expireSeen (fold (\<lambda>(e, reply) s. if reply = RInt 1 then commitExpireLocked (ci_key e) s else s) zs s) \<Longrightarrow>
   k \<in> rd_expireSeen s \<or> (\<exists>e. (e, RInt 1) \<in> set zs \<and> ci_key e = k)"
proof (induction zs arbitrary: s)
  case (Cons z zs)
  obtain e reply where z: "z = (e, reply)" by fastforce
  from Cons.IH [OF Cons.prems [unfolded fold_Cons comp_apply]] show ?case
    by (auto simp: z dest!: commit_seen split: if_splits)
qed simp

lemma repair_effect:
  assumes "redis_once pipe db" and "\<forall>e\<in>set es. entry_int64 e" and "repairRecreatedExpires pipe es (s, r) = (s', r')"
  shows "only_ttl (db r) (db r') \<and> (\<forall>k\<in>rd_expireSeen s'. k \<in> rd_expireSeen s \<or> has_ttl (db r') k) \<and> (bounded_memory s \<longrightarrow> bounded_memory s')"
proof (cases "es = []")
  case True
  then show ?thesis using assms(3) by (simp add: repairRecreatedExpires_def)
next
  case False
  obtain x r1 where p: "pipe (map expire_cmd es) r = (x, r1)" by fastforce
  show ?thesis
  proof (cases x)
    case (Inl err)
    with redis_once_fail [OF assms(1)] p expire_prefix [OF assms(2)] have "only_ttl (db r) (db r1)" by metis
    then show ?thesis using assms(3) p Inl False by (simp add: repairRecreatedExpires_def)
  next
    case (Inr replies)
    with redis_once_ok [OF assms(1)] p have run: "redis_run (map expire_cmd es) (db r) = (replies, db r1)" by simp
    note e = expire_run [OF assms(2) run]
    have len: "length replies = length es" using run redis_run_length by (metis fst_conv length_map)
    have s': "s' = fold (\<lambda>(e, reply) s. if reply = RInt 1 then commitExpireLocked (ci_key e) s else s) (zip es replies) s" "r' = r1"
      using assms(3) p Inr False len by (simp_all add: repairRecreatedExpires_def)
    have "bounded_memory s \<longrightarrow> bounded_memory s'"
      unfolding s' by (intro impI fold_bounded) (auto simp: commit_bounded)
    moreover have "k \<in> rd_expireSeen s \<or> has_ttl (db r') k" if "k \<in> rd_expireSeen s'" for k
      using repair_seen [OF that [unfolded s'(1)]] e s'(2) by auto
    ultimately show ?thesis using e s'(2) by blast
  qed
qed

lemma incr_pipeline_ok:
  assumes "redis_once pipe db" and "\<forall>e\<in>set es. entry_int64 e" and "incr_pipeline pipe es reads (s, r) = (Inr (vals, rr), (s', r'))"
  obtains results r1 where "batch_effect (db r) es (needsExpireBatch es s) results (db r1)" and "vals = map fst results"
    and "rr = map (\<lambda>k. case db r1 k of None \<Rightarrow> RNil | Some (v, t) \<Rightarrow> RBulk v) reads"
    and "repairRecreatedExpires pipe (recreated_entries es results) (settleExpireBatch es results s, r1) = (s', r')"
proof -
  let ?bs = "needsExpireBatch es s"
  let ?writes = "incr_cmds es ?bs" and ?gets = "map (\<lambda>k. [''GET'', k]) reads"
  obtain replies r1 where p: "pipe (?writes @ ?gets) r = (Inr replies, r1)"
    using assms(3) by (auto simp: incr_pipeline_def Let_def split: sum.splits prod.splits)
  have run: "redis_run (?writes @ ?gets) (db r) = (replies, db r1)"
    using assms(1) p by (rule redis_once_ok)
  obtain ws dbw where w: "redis_run ?writes (db r) = (ws, dbw)" by fastforce
  with run have rep: "replies = ws @ map (\<lambda>k. case dbw k of None \<Rightarrow> RNil | Some (v, t) \<Rightarrow> RBulk v) reads" "db r1 = dbw"
    by (auto simp: redis_run_append redis_run_gets)
  have lw: "length ws = length ?writes" using w redis_run_length by (metis fst_conv)
  obtain err results where ap: "applyIncrReplies replies es (incrReplyIdx 0 es ?bs) ?bs = (err, results)" by fastforce
  from assms(3) p ap lw rep(1) have res: "err = None" "vals = map fst results" "rr = drop (length ?writes) replies"
    "repairRecreatedExpires pipe (recreated_entries es results) (settleExpireBatch es results s, r1) = (s', r')"
    by (auto simp: incr_pipeline_def Let_def split: option.splits)
  have "batch_effect (db r) es ?bs results dbw"
    by (rule apply_batch [OF w _ assms(2), of "[]" "drop (length ?writes) replies"])
      (use ap res(1) rep(1) lw in \<open>simp_all add: needsExpireBatch_def\<close>)
  with that [of results r1] res rep lw show thesis by simp
qed

definition no_immortal :: "redisStore \<Rightarrow> redis_db \<Rightarrow> bool" where
  "no_immortal s db \<longleftrightarrow> (\<forall>k\<in>rd_expireSeen s. db k \<noteq> None \<longrightarrow> has_ttl db k)"

lemma batch_no_immortal:
  assumes eff: "batch_effect db es (needsExpireBatch es s) results db'" and inv: "no_immortal s db"
  shows "no_immortal (settleExpireBatch es results s) db'"
  unfolding no_immortal_def
proof (intro ballI impI)
  fix k assume k: "k \<in> rd_expireSeen (settleExpireBatch es results s)" and ex: "db' k \<noteq> None"
  let ?bs = "needsExpireBatch es s"
  show "has_ttl db' k"
  proof (rule ccontr)
    assume no: "\<not> has_ttl db' k"
    have unconf: "\<nexists>e v f. (e, v, True, f) \<in> set (zip es results) \<and> ci_key e = k"
      using batch_settled [OF eff] no by blast
    with k have seen: "k \<in> rd_expireSeen s" using settle_seen unfolding settleExpireBatch_def by blast
    have plain: "\<forall>(e, b)\<in>set (zip es ?bs). ci_key e = k \<longrightarrow> \<not> b \<and> \<not> ci_absolute e"
      using batch_ttl_set [OF eff] no by blast
    have "db k = None" using inv seen no batch_ttl_mono [OF eff] unfolding no_immortal_def by blast
    moreover have "k \<in> ci_key ` set es" using batch_keeps [OF eff] ex calculation by metis
    ultimately obtain e v where "ci_key e = k" "(e, v, False, True) \<in> set (zip es results)"
      using batch_recreated [OF eff _ _ plain] by blast
    with unconf k show False using settle_forgets by (metis settleExpireBatch_def)
  qed
qed

lemma recreated_int64: "\<forall>e\<in>set es. entry_int64 e \<Longrightarrow> \<forall>e\<in>set (recreated_entries es results). entry_int64 e"
  by (auto simp: recreated_entries_def dest: set_zip_leftD)

text \<open>A successful batch keeps the store's promise.\<close>

lemma incr_pipeline_keeps:
  assumes "redis_once pipe db" and "\<forall>e\<in>set es. entry_int64 e" and "incr_pipeline pipe es reads (s, r) = (Inr (vals, rr), (s', r'))"
    and "no_immortal s (db r)" and "bounded_memory s"
  shows "no_immortal s' (db r') \<and> bounded_memory s'"
proof -
  from incr_pipeline_ok [OF assms(1-3)] obtain results r1 where
    eff: "batch_effect (db r) es (needsExpireBatch es s) results (db r1)"
    and rep: "repairRecreatedExpires pipe (recreated_entries es results) (settleExpireBatch es results s, r1) = (s', r')" by blast
  note re = repair_effect [OF assms(1) recreated_int64 [OF assms(2)] rep]
  have "bounded_memory (settleExpireBatch es results s)"
    unfolding settleExpireBatch_def using assms(5) settle_one_bounded by (intro fold_bounded)
  with re batch_no_immortal [OF eff assms(4)] show ?thesis by (auto simp: no_immortal_def only_ttl_def)
qed

lemma incr_pipeline_view:
  assumes "redis_once pipe db" and "\<forall>e\<in>set es. entry_int64 e" and "incr_pipeline pipe es reads (s, r) = (Inr (vals, rr), (s', r'))"
  shows "vals = spec_vals es (redis_view (db r)) \<and> redis_view (db r') = fold spec_step es (redis_view (db r))
    \<and> (\<forall>vs. getBatch_replies rr = Inr vs \<longrightarrow> vs = map (redis_view (db r')) reads)"
proof -
  from incr_pipeline_ok [OF assms] obtain results r1 where
    eff: "batch_effect (db r) es (needsExpireBatch es s) results (db r1)" and v: "vals = map fst results"
    and rr: "rr = map (\<lambda>k. case db r1 k of None \<Rightarrow> RNil | Some (v, t) \<Rightarrow> RBulk v) reads"
    and rep: "repairRecreatedExpires pipe (recreated_entries es results) (settleExpireBatch es results s, r1) = (s', r')" by blast
  have "redis_view (db r') = redis_view (db r1)"
    using repair_effect [OF assms(1) recreated_int64 [OF assms(2)] rep] by (simp add: only_ttl_def)
  then show ?thesis using batch_vals [OF eff] v rr by (auto dest: getBatch_view)
qed

subsection \<open>Refinement and lifetimes\<close>


text \<open>Histories of the store: successful writes, reads, and Redis losing keys.\<close>

inductive redis_history :: "'r pipeline \<Rightarrow> ('r \<Rightarrow> redis_db) \<Rightarrow> redisStore \<Rightarrow> 'r \<Rightarrow> bool" for pipe db where
  start: "redis_history pipe db newRedisStore r"
| wrote: "redis_history pipe db s r \<Longrightarrow> \<forall>e\<in>set es. entry_int64 e \<Longrightarrow> redis_incrMulti pipe es (s, r) = (Inr vals, (s', r')) \<Longrightarrow>
    redis_history pipe db s' r'"
| wrote_and_read: "redis_history pipe db s r \<Longrightarrow> \<forall>e\<in>set es. entry_int64 e \<Longrightarrow>
    redis_incrAndGetMulti pipe es reads (s, r) = (Inr vals, (s', r')) \<Longrightarrow> redis_history pipe db s' r'"
| read_only: "redis_history pipe db s r \<Longrightarrow> redis_getMulti pipe ks (s, r) = (x, (s', r')) \<Longrightarrow> redis_history pipe db s' r'"
| lost: "redis_history pipe db s r \<Longrightarrow> db r' \<subseteq>\<^sub>m db r \<Longrightarrow> redis_history pipe db s r'"

lemma gets_change_nothing:
  assumes "redis_once pipe db" and "redis_getMulti pipe ks (s, r) = (x, (s', r'))"
  shows "s' = s \<and> db r' = db r"
proof -
  have "snd (redis_run (take n (map (\<lambda>k. [''GET'', k]) ks)) d) = d" for n d by (simp add: take_map redis_run_gets)
  with assms show ?thesis
    by (auto simp: redis_getMulti_def redis_run_gets dest!: redis_once_ok [OF assms(1)] redis_once_fail [OF assms(1)] split: prod.splits sum.splits)
qed

lemma history_keeps:
  assumes "redis_once pipe db" and "redis_history pipe db s r"
  shows "no_immortal s (db r) \<and> bounded_memory s"
  using assms(2)
proof induction
  case (wrote s r es vals s' r')
  then show ?case using incr_pipeline_keeps [OF assms(1) wrote.hyps(2), of "[]" s r]
    by (auto simp: redis_incrMulti_def split: if_splits sum.splits prod.splits)
next
  case (wrote_and_read s r es reads vals s' r')
  then show ?case using incr_pipeline_keeps [OF assms(1) wrote_and_read.hyps(2), of reads s r]
    by (auto simp: redis_incrAndGetMulti_def split: if_splits sum.splits prod.splits)
next
  case (read_only s r ks x s' r')
  then show ?case using gets_change_nothing [OF assms(1)] by metis
next
  case (lost s r r')
  have "has_ttl (db r') k" if "has_ttl (db r) k" "db r' k \<noteq> None" for k
    using that lost.hyps(2) by (auto simp: has_ttl_def map_le_def dom_def)
  moreover have "db r k \<noteq> None" if "db r' k \<noteq> None" for k
    using that lost.hyps(2) by (metis domIff map_le_def)
  ultimately show ?case using lost.IH by (auto simp: no_immortal_def)
qed (simp_all add: no_immortal_def bounded_memory_def newRedisStore_def)


subsection \<open>The limiter over a counter service\<close>

text \<open>The part of the store interface admission relies on: a fused call that succeeds reports and
  applies the specified counters.\<close>

locale counter_service =
  fixes ops :: "'s counterStoreOps" and view :: "'s \<Rightarrow> gtime \<Rightarrow> string \<Rightarrow> int" and ok :: "counterIncr \<Rightarrow> bool"
  assumes fused: "op_incrAndGetMulti ops now es ks s = (Inr (vs, rs), s') \<Longrightarrow> \<forall>e\<in>set es. ok e \<Longrightarrow>
      vs = spec_vals es (view s now) \<and> rs = map (fold spec_step es (view s now)) ks"
    and admission_ok: "e \<in> set (admission_entries (bucketsFor now) enforceTTLsFor scopes) \<Longrightarrow> ok e"
begin

lemma service_admits_iff:
  assumes "lim_store l = Some (ops, s)" and "\<not> storeLatched ts l" and "scopes_ok scopes" and "0 \<le> now"
    and "fst (op_incrAndGetMulti ops ts (admission_entries (bucketsFor now) enforceTTLsFor scopes) (snd (buildBudgetProbes scopes now)) s) = Inr x"
  shows "fst (checkAndCount now ts ts2 scopes l) = None \<longleftrightarrow> (\<forall>sc\<in>set scopes. scope_within (view s ts) now sc)"
proof -
  let ?es = "admission_entries (bucketsFor now) enforceTTLsFor scopes" and ?V = "view s ts"
  obtain ps rs where b: "buildBudgetProbes scopes now = (ps, rs)" by fastforce
  obtain vs qs s' where c: "op_incrAndGetMulti ops ts ?es rs s = (Inr (vs, qs), s')"
    using assms(5) b by (cases x) (auto simp: prod_eq_iff)
  have d: "distinct (map ci_key ?es)" using assms(3,4) by (rule admission_keys_distinct)
  have "set rs \<inter> ci_key ` set ?es = {}" using reads_apart [OF assms(3,4) b] by blast
  then have "map (fold spec_step ?es ?V) rs = map ?V rs" by (intro map_cong) (auto intro!: spec_fold_other)
  with fused [OF c] admission_ok have v: "vs = map (\<lambda>e. spec_step e ?V (ci_key e)) ?es" "qs = map ?V rs"
    by (simp_all add: spec_vals_distinct [OF d])
  have "fst (checkAndCount now ts ts2 scopes l) = None \<longleftrightarrow> decide scopes now ?V = None"
    using assms(1,2) c v by (simp add: checkAndCount_def b Let_def storeIncrAndGetMulti_def store_call_def decide_def split: option.splits)
  then show ?thesis by (simp add: decide_None)
qed

end

text \<open>Both stores of the program are such services.\<close>

definition memory_ops :: "memoryStore counterStoreOps" where
  "memory_ops = \<lparr>op_getMulti = (\<lambda>now ks m. (Inr (memoryStore_getMulti now ks m), m)),
     op_incrMulti = (\<lambda>now es m. case memoryStore_incrMulti now es m of (vs, m1) \<Rightarrow> (Inr vs, m1)),
     op_incrAndGetMulti = (\<lambda>now es ks m. case memoryStore_incrAndGetMulti now es ks m of (x, m1) \<Rightarrow> (Inr x, m1))\<rparr>"

interpretation mem_service: counter_service memory_ops ms_view entry_ok
proof
  fix now es ks s vs rs s'
  assume "op_incrAndGetMulti memory_ops now es ks s = (Inr (vs, rs), s')" and ok: "\<forall>e\<in>set es. entry_ok e"
  then have "memoryStore_incrAndGetMulti now es ks s = ((vs, rs), s')" by (auto simp: memory_ops_def split: prod.splits)
  with mem.incr_get_fst [of now es ks s] mem.incr_get_snd [of now es ks s] mem.incr_vals [OF ok] mem.incr_view [OF ok]
  show "vs = spec_vals es (ms_view s now) \<and> rs = map (fold spec_step es (ms_view s now)) ks" by (simp add: mem.get_view)
qed (use admission_entries_ok in blast)

lemma admission_int64: "e \<in> set (admission_entries (bucketsFor now) enforceTTLsFor scopes) \<Longrightarrow> entry_int64 e"
  by (auto simp: entry_int64_def in_int64_def min_int64_def max_int64_def dur_defs admission_entries_def scope_entries_def)

lemma redis_service: "redis_once pipe db \<Longrightarrow> counter_service (redis_ops pipe) (\<lambda>(s, r) now. redis_view (db r)) entry_int64"
proof
  fix now es ks st vs rs st'
  assume once: "redis_once pipe db" and "op_incrAndGetMulti (redis_ops pipe) now es ks st = (Inr (vs, rs), st')"
    and ok: "\<forall>e\<in>set es. entry_int64 e"
  then have "redis_incrAndGetMulti pipe es ks st = (Inr (vs, rs), st')"
    by (auto simp: redis_ops_def text_error_def split: prod.splits sum.splits)
  moreover obtain s r s' r' where "st = (s, r)" "st' = (s', r')" by fastforce
  ultimately show "vs = spec_vals es ((\<lambda>(s, r) now. redis_view (db r)) st now)
      \<and> rs = map (fold spec_step es ((\<lambda>(s, r) now. redis_view (db r)) st now)) ks"
    using incr_pipeline_view [OF once ok, of ks s r]
    by (auto simp: redis_incrAndGetMulti_def split: if_splits sum.splits prod.splits)
qed (rule admission_int64)

theorem redis_admits_iff:
  assumes "redis_once pipe db" and "lim_store l = Some (redis_ops pipe, (s, r))" and "\<not> storeLatched ts l"
    and "scopes_ok scopes" and "0 \<le> now"
    and "fst (redis_incrAndGetMulti pipe (admission_entries (bucketsFor now) enforceTTLsFor scopes) (snd (buildBudgetProbes scopes now)) (s, r)) = Inr x"
  shows "fst (checkAndCount now ts ts2 scopes l) = None \<longleftrightarrow> (\<forall>sc\<in>set scopes. scope_within (redis_view (db r)) now sc)"
proof -
  have "fst (op_incrAndGetMulti (redis_ops pipe) ts (admission_entries (bucketsFor now) enforceTTLsFor scopes) (snd (buildBudgetProbes scopes now)) (s, r)) = Inr x"
    using assms(6) by (auto simp: redis_ops_def text_error_def split: prod.splits)
  from counter_service.service_admits_iff [OF redis_service [OF assms(1)] assms(2-5) this] show ?thesis by simp
qed

subsection \<open>A concrete server\<close>

definition reference_redis :: "redis_db pipeline" where
  "reference_redis cmds db = (case redis_run cmds db of (rs, db1) \<Rightarrow> (Inr rs, db1))"

lemma reference_redis_once: "redis_once reference_redis (\<lambda>db. db)"
  by (simp add: redis_once_def reference_redis_def split: prod.splits)

definition plain_incr :: "string \<Rightarrow> int \<Rightarrow> counterIncr" where
  "plain_incr k d = \<lparr>ci_key = k, ci_delta = d, ci_ttl = minute, ci_enforceTTL = minute, ci_absolute = False\<rparr>"

lemma plain_incr_int64: "entry_int64 (plain_incr k 1)"
  by (simp add: entry_int64_def plain_incr_def in_int64_def min_int64_def max_int64_def dur_defs)

lemma redis_text [simp]: "atoi ''2'' = Some 2" "itoa 1 = ''1''" "itoa 2 = ''2''" "itoa 60 = ''60''" "ttlToSeconds minute = 60" "atoi ''1'' = Some 1"
  "atoi ''60'' = Some 60" "redis_int ''1'' = Some 1" "atoi ''x'' = None" "redis_int ''x'' = None"
  by code_simp+

lemma redis_twice:
  "redis_incrAndGetMulti reference_redis [plain_incr ''a'' 1, plain_incr ''a'' 1] [''a''] (newRedisStore, Map.empty)
    = (Inr ([1, 2], [2]), (\<lparr>rd_expireSeen = {''a''}, rd_expireOrder = [''a'']\<rparr>, [''a'' \<mapsto> (''2'', True)]))"
  by (simp add: redis_incrAndGetMulti_def incr_pipeline_def needsExpireBatch_def newRedisStore_def plain_incr_def entry_cmds_def
      expire_cmd_def reference_redis_def redis_cmd_def redis_incrby_def redis_expire_def redis_int_zero in_int64_def min_int64_def
      max_int64_def settleExpireBatch_def settle_one_def commitExpireLocked_def expireOnceCacheMax_def recreated_entries_def
      repairRecreatedExpires_def getBatch_value_def atoi_itoa)


lemma redis_twice_history:
  "redis_history reference_redis (\<lambda>db. db) \<lparr>rd_expireSeen = {''a''}, rd_expireOrder = [''a'']\<rparr> [''a'' \<mapsto> (''2'', True)]"
  by (rule redis_history.wrote_and_read [OF redis_history.start _ redis_twice]) (simp add: plain_incr_int64)


lemma ann_probes: "buildBudgetProbes [ann_scope] 0 = ([], [])"
  by (simp add: buildBudgetProbes_def ann_scope_def no_limits_def scope_specs_def budget_specs_def add_probe_def usdToMicros_zero)

text \<open>Three fresh counters in one batch.\<close>

lemma fresh_three:
  assumes "distinct [ci_key a, ci_key b, ci_key c]" and "\<forall>e\<in>{a, b, c}. ci_delta e = 1 \<and> \<not> ci_absolute e \<and> entry_int64 e"
  shows "fst (redis_incrAndGetMulti reference_redis [a, b, c] [] (newRedisStore, Map.empty)) = Inr ([1, 1, 1], [])"
proof -
  obtain n where n: "atoi (itoa (ttlToSeconds (ci_ttl a))) = Some (n a)" "atoi (itoa (ttlToSeconds (ci_ttl b))) = Some (n b)"
    "atoi (itoa (ttlToSeconds (ci_ttl c))) = Some (n c)" "1 \<le> n a" "1 \<le> n b" "1 \<le> n c"
    using atoi_ttl assms(2) by (metis insertCI)
  have i: "in_int64 1" by (simp add: in_int64_def min_int64_def max_int64_def)
  have neq: "ci_key a \<noteq> ci_key b" "ci_key b \<noteq> ci_key a" "ci_key a \<noteq> ci_key c" "ci_key c \<noteq> ci_key a" "ci_key b \<noteq> ci_key c" "ci_key c \<noteq> ci_key b"
    using assms(1) by auto
  have plain: "\<not> ci_absolute a" "\<not> ci_absolute b" "\<not> ci_absolute c" "ci_delta a = 1" "ci_delta b = 1" "ci_delta c = 1"
    using assms(2) by auto
  show ?thesis using neq plain n i
    by (simp add: redis_incrAndGetMulti_def incr_pipeline_def needsExpireBatch_def newRedisStore_def entry_cmds_def
      expire_cmd_def reference_redis_def redis_cmd_def redis_incrby_def redis_expire_def redis_int_zero
      recreated_entries_def repairRecreatedExpires_def Let_def)
qed

lemma ann_redis_call:
  "fst (redis_incrAndGetMulti reference_redis (admission_entries (bucketsFor 0) enforceTTLsFor [ann_scope]) [] (newRedisStore, Map.empty)) = Inr ([1, 1, 1], [])"
proof -
  obtain a b c where es: "admission_entries (bucketsFor 0) enforceTTLsFor [ann_scope] = [a, b, c]"
    by (simp add: admission_entries_def scope_entries_def)
  have "distinct [ci_key a, ci_key b, ci_key c]" using admission_keys_distinct [OF ann_ok(1), of 0 enforceTTLsFor] es by simp
  moreover have "ci_delta e = 1 \<and> \<not> ci_absolute e \<and> entry_int64 e" if "e \<in> {a, b, c}" for e
  proof -
    have "e \<in> set (admission_entries (bucketsFor 0) enforceTTLsFor [ann_scope])" using that es by simp
    then show ?thesis using admission_int64 by (auto elim: admission_entry)
  qed
  ultimately show ?thesis unfolding es by (intro fresh_three) blast+
qed

theorem redis_admits_iff_witness:
  "fst (checkAndCount 0 0 0 [ann_scope] (newLimiter (Some (redis_ops reference_redis, (newRedisStore, Map.empty))) False)) = None"
proof -
  let ?l = "newLimiter (Some (redis_ops reference_redis, (newRedisStore, Map.empty))) False"
  have "scope_within (redis_view Map.empty) 0 ann_scope"
    by (simp add: scope_within_def ann_scope_def no_limits_def request_room_def budget_room_def usdToMicros_zero redis_view_def)
  moreover have "fst (redis_incrAndGetMulti reference_redis (admission_entries (bucketsFor 0) enforceTTLsFor [ann_scope])
      (snd (buildBudgetProbes [ann_scope] 0)) (newRedisStore, Map.empty)) = Inr ([1, 1, 1], [])"
    by (simp add: ann_probes ann_redis_call)
  ultimately show ?thesis
    using redis_admits_iff [OF reference_redis_once, of ?l newRedisStore Map.empty 0 "[ann_scope]" 0 "([1, 1, 1], [])" 0] ann_ok(1)
    by (simp add: newLimiter_def storeLatched_def time_IsZero_def)
qed

text \<open>An entry that fails hides the recreation of a later one: the key \<open>b\<close> was remembered and lost,
  \<open>a\<close> holds no number; afterwards \<open>b\<close> is still remembered and has no lifetime.\<close>

theorem failed_entry_leaves_immortal:
  "(case redis_incrMulti reference_redis [plain_incr ''a'' 1, plain_incr ''b'' 1]
          (\<lparr>rd_expireSeen = {''b''}, rd_expireOrder = [''b'']\<rparr>, [''a'' \<mapsto> (''x'', True)]) of
      (res, (s, db)) \<Rightarrow> (\<exists>err. res = Inl err) \<and> ''b'' \<in> rd_expireSeen s \<and> db ''b'' = Some (''1'', False))"
  by (simp add: redis_incrMulti_def incr_pipeline_def needsExpireBatch_def plain_incr_def entry_cmds_def
      expire_cmd_def reference_redis_def redis_cmd_def redis_incrby_def redis_expire_def redis_int_zero in_int64_def min_int64_def
      max_int64_def settleExpireBatch_def Let_def)

end
