(* ===== verification/ProxyParts.thy ===== *)
theory ProxyParts
  imports Sse GroupAccess
begin

text \<open>
  The building blocks of the transparent proxy (routes_passthrough.go): routing of a path, the
  traversal check, header filtering, the search for the model a body asks for, and the bounded
  buffers that watch a response for its usage.

  \<open>json.Decoder\<close> of the standard library is the list of tokens it yields up to its end or first
  error.  Header maps have canonical keys, as net/http gives them; lower-casing is that of ASCII.

  A path that passes the check stays free of dot-dot segments however often it is decoded; a model
  that is found in a complete body is the one every JSON parser finds; the stream buffer holds exactly
  the first and last bytes of the stream; and the shared budget of the tee buffers is kept under any
  interleaving of their writes.
\<close>

subsection \<open>Paths\<close>

definition passthroughRoute :: "string \<Rightarrow> (string \<times> string) option" where
  "passthroughRoute path =
     (let trimmed = trim_prefix ''/'' path in
      if trimmed = [] then None
      else let (providerName, rest) = (case strings_Cut CHR ''/'' trimmed of Some (a, b) \<Rightarrow> (a, b) | None \<Rightarrow> (trimmed, []))
           in if providerName = [] then None else Some (providerName, rest))"

fun strings_Split :: "char \<Rightarrow> string \<Rightarrow> string list" where
  "strings_Split c [] = [[]]"
| "strings_Split c (x # xs) =
     (if x = c then [] # strings_Split c xs
      else case strings_Split c xs of [] \<Rightarrow> [[x]] | l # ls \<Rightarrow> (x # l) # ls)"

definition segment_name :: "string \<Rightarrow> string" where
  "segment_name seg = takeWhile (\<lambda>c. c \<noteq> CHR '';'') seg"

definition path_segments :: "string \<Rightarrow> string list" where
  "path_segments s = strings_Split CHR ''/'' (map (\<lambda>c. if c = CHR 0x5C then CHR ''/'' else c) s)"

definition hasTraversalSegment :: "string \<Rightarrow> bool" where
  "hasTraversalSegment rest =
     (case url_PathUnescape rest of
        None \<Rightarrow> True
      | Some decoded \<Rightarrow>
          if CHR ''%'' \<in> set decoded then True
          else (\<exists>seg\<in>set (path_segments decoded). segment_name seg = ''..''))"

subsection \<open>Headers\<close>

type_synonym headers = "string \<rightharpoonup> string list"

definition has_prefix :: "string \<Rightarrow> string \<Rightarrow> bool" where
  "has_prefix s p \<longleftrightarrow> take (length p) s = p"

definition hopByHopHeaders :: "string list" where
  "hopByHopHeaders = [''Connection'', ''Keep-Alive'', ''Transfer-Encoding'', ''Upgrade'', ''Proxy-Authorization'', ''Proxy-Connection'', ''Te'', ''Trailer'']"

definition gatewayCredentialHeaders :: "string list" where
  "gatewayCredentialHeaders = [''Authorization'', ''X-Api-Key'']"

definition clientNegotiationHeaders :: "string list" where
  "clientNegotiationHeaders = [''Accept-Encoding'']"

definition dangerousClientHeaders :: "string list" where
  "dangerousClientHeaders = [''Forwarded'', ''X-Remote-User'', ''X-Remote-Groups'', ''Cookie'']"

definition dangerousClientHeaderPrefixes :: "string list" where
  "dangerousClientHeaderPrefixes = [''X-Forwarded-'', ''X-Auth-'']"

definition providerCredentialRetargetHeaders :: "string list" where
  "providerCredentialRetargetHeaders = [''Openai-Organization'', ''Openai-Project'', ''Anthropic-Beta'']"

definition dangerousResponseHeaders :: "string list" where
  "dangerousResponseHeaders = [''Set-Cookie'', ''Strict-Transport-Security'', ''Content-Security-Policy'', ''Openai-Organization'',
     ''Openai-Project'', ''Anthropic-Organization-Id'']"

definition dangerousResponseHeaderPrefixes :: "string list" where
  "dangerousResponseHeaderPrefixes = [''Access-Control-'']"

definition stripHeaderPrefixes :: "string list \<Rightarrow> headers \<Rightarrow> headers" where
  "stripHeaderPrefixes prefixes h = (\<lambda>k. if \<exists>p\<in>set prefixes. has_prefix k p then None else h k)"

definition copyHeadersExcept :: "string list list \<Rightarrow> headers \<Rightarrow> headers \<Rightarrow> headers" where
  "copyHeadersExcept excepts src dst =
     (\<lambda>k. if \<exists>ex\<in>set excepts. k \<in> set ex then dst k else case src k of Some vs \<Rightarrow> Some vs | None \<Rightarrow> dst k)"

text \<open>The headers of the upstream request before the provider's own credentials are added, and those
  of the response to the client.\<close>

definition upstream_headers :: "string list \<Rightarrow> headers \<Rightarrow> headers" where
  "upstream_headers extraStrip client =
     stripHeaderPrefixes dangerousClientHeaderPrefixes
       (copyHeadersExcept [hopByHopHeaders, gatewayCredentialHeaders, clientNegotiationHeaders, dangerousClientHeaders, extraStrip] client Map.empty)"

definition response_headers :: "headers \<Rightarrow> headers \<Rightarrow> headers" where
  "response_headers upstream staged =
     stripHeaderPrefixes dangerousResponseHeaderPrefixes (copyHeadersExcept [hopByHopHeaders, dangerousResponseHeaders] upstream staged)"

subsection \<open>The model of a body\<close>

definition maxModelPeekBytes :: nat where "maxModelPeekBytes = 65536"

definition passthroughBinaryContentTypePrefixes :: "string list" where
  "passthroughBinaryContentTypePrefixes = [''multipart/'', ''audio/'', ''image/'', ''video/'', ''application/octet-stream'']"

definition isPassthroughBinaryContentType :: "string \<Rightarrow> bool" where
  "isPassthroughBinaryContentType contentType \<longleftrightarrow>
     (\<exists>p\<in>set passthroughBinaryContentTypePrefixes. has_prefix (map ascii_lower contentType) p)"

datatype json_token = TOpen bool | TClose bool | TStr string | TAtom

text \<open>\<open>TOpen True\<close> is a brace, \<open>TOpen False\<close> a bracket.  \<open>skipJSONValue\<close> gives the tokens after the
  value, or \<open>None\<close> when they run out.\<close>

fun skipJSONValue :: "nat \<Rightarrow> json_token list \<Rightarrow> json_token list option" where
  "skipJSONValue 0 ts = Some ts"
| "skipJSONValue (Suc depth) [] = None"
| "skipJSONValue (Suc depth) (t # ts) =
     (case t of TOpen b \<Rightarrow> skipJSONValue (Suc (Suc depth)) ts | TClose b \<Rightarrow> skipJSONValue depth ts | _ \<Rightarrow> skipJSONValue (Suc depth) ts)"

lemma skipJSONValue_shorter: "skipJSONValue d ts = Some ts' \<Longrightarrow> length ts' \<le> length ts"
  by (induction d ts rule: skipJSONValue.induct) (auto split: json_token.splits)

record scanState =
  sn_model :: string
  sn_found :: bool
  sn_seen :: bool

text \<open>The loop over the top-level fields; the result is the model, whether it was found, and whether
  the object was seen to its end.\<close>

function scan_fields :: "scanState \<Rightarrow> json_token list \<Rightarrow> string \<times> bool \<times> bool" where
  "scan_fields st ts =
     (case ts of
        [] \<Rightarrow> (sn_model st, sn_found st, False)
      | TClose b # _ \<Rightarrow> (sn_model st, sn_found st, b)
      | TStr key # [] \<Rightarrow> (sn_model st, sn_found st, False)
      | TStr key # val # rest \<Rightarrow>
          if key = ''model''
          then if sn_seen st then ([], False, False)
               else scan_fields (case val of TStr s \<Rightarrow> if s \<noteq> [] then \<lparr>sn_model = s, sn_found = True, sn_seen = True\<rparr> else st\<lparr>sn_seen := True\<rparr>
                                 | _ \<Rightarrow> st\<lparr>sn_seen := True\<rparr>) rest
          else (case val of
                  TOpen b \<Rightarrow> (case skipJSONValue 1 rest of None \<Rightarrow> (sn_model st, sn_found st, False) | Some rest' \<Rightarrow> scan_fields st rest')
                | _ \<Rightarrow> scan_fields st rest)
      | _ \<Rightarrow> (sn_model st, sn_found st, False))"
  by pat_completeness auto
termination
  by (relation "measure (length \<circ> snd)") (auto dest!: skipJSONValue_shorter)

declare scan_fields.simps [simp del]

definition scanTopLevelModel :: "json_token list \<Rightarrow> string \<times> bool \<times> bool" where
  "scanTopLevelModel ts =
     (case ts of TOpen True # rest \<Rightarrow> scan_fields \<lparr>sn_model = [], sn_found = False, sn_seen = False\<rparr> rest | _ \<Rightarrow> ([], False, False))"

text \<open>A body is its bytes and whether reading fails after them; \<open>None\<close> is a read error.\<close>

definition peekPassthroughModel :: "(string \<Rightarrow> json_token list) \<Rightarrow> string \<Rightarrow> (string \<times> bool) option \<Rightarrow> (string \<times> bool \<times> bool) option" where
  "peekPassthroughModel tokens contentType body =
     (case body of
        None \<Rightarrow> Some ([], False, False)
      | Some (bytes, fails) \<Rightarrow>
          if isPassthroughBinaryContentType contentType then Some ([], False, False)
          else let capped = (maxModelPeekBytes \<le> length bytes) in
            if \<not> capped \<and> fails then None
            else (case scanTopLevelModel (tokens (take maxModelPeekBytes bytes)) of
                    (model, hasModel, ended) \<Rightarrow> Some (model, hasModel, capped \<and> \<not> ended)))"

subsection \<open>Bounded buffers\<close>

definition maxAccountingTeeBytes :: int where "maxAccountingTeeBytes = 4194304"
definition maxAccountingTeeTotalBytes :: int where "maxAccountingTeeTotalBytes = 268435456"
definition sseAccountingHeadBytes :: nat where "sseAccountingHeadBytes = 65536"
definition sseAccountingTailBytes :: nat where "sseAccountingTailBytes = 65536"
definition maxPassthroughBytes :: int where "maxPassthroughBytes = 33554432"

record teeBudget =
  tb_used :: int
  tb_limit :: int

definition newTeeBudget :: "int \<Rightarrow> teeBudget" where
  "newTeeBudget limit = \<lparr>tb_used = 0, tb_limit = limit\<rparr>"

text \<open>The compare-and-swap loop succeeds or fails on one value of \<open>used\<close>, so it is one step.\<close>

definition tee_reserve :: "int \<Rightarrow> teeBudget \<Rightarrow> bool \<times> teeBudget" where
  "tee_reserve n b = (if tb_limit b < tb_used b + n then (False, b) else (True, b\<lparr>tb_used := tb_used b + n\<rparr>))"

definition tee_free :: "int \<Rightarrow> teeBudget \<Rightarrow> teeBudget" where
  "tee_free n b = b\<lparr>tb_used := tb_used b - n\<rparr>"

record cappedAccountingBuffer =
  ca_buf :: string
  ca_reserved :: int
  ca_truncated :: bool

definition cappedAccountingBuffer_new :: cappedAccountingBuffer where
  "cappedAccountingBuffer_new = \<lparr>ca_buf = [], ca_reserved = 0, ca_truncated = False\<rparr>"

definition capped_release :: "cappedAccountingBuffer \<Rightarrow> teeBudget \<Rightarrow> cappedAccountingBuffer \<times> teeBudget" where
  "capped_release c b =
     (if ca_reserved c = 0 then (c, b) else (c\<lparr>ca_reserved := 0\<rparr>, tee_free (ca_reserved c) b))"

definition capped_Write :: "string \<Rightarrow> cappedAccountingBuffer \<Rightarrow> teeBudget \<Rightarrow> cappedAccountingBuffer \<times> teeBudget" where
  "capped_Write p c b =
     (if ca_truncated c then (c, b)
      else let remaining = maxAccountingTeeBytes - int (length (ca_buf c)) in
        if remaining \<le> 0 then (c\<lparr>ca_truncated := True\<rparr>, b)
        else let over = (remaining < int (length p));
                 q = (if over then take (nat remaining) p else p);
                 c1 = (if over then c\<lparr>ca_truncated := True\<rparr> else c)
             in case tee_reserve (int (length q)) b of
                  (False, b1) \<Rightarrow> (c1\<lparr>ca_truncated := True\<rparr>, b1)
                | (True, b1) \<Rightarrow> (c1\<lparr>ca_reserved := ca_reserved c1 + int (length q), ca_buf := ca_buf c1 @ q\<rparr>, b1))"

record sseAccountingBuffer =
  sa_head :: string
  sa_tail :: string

definition sseAccountingBuffer_new :: sseAccountingBuffer where
  "sseAccountingBuffer_new = \<lparr>sa_head = [], sa_tail = []\<rparr>"

definition last_bytes :: "nat \<Rightarrow> string \<Rightarrow> string" where
  "last_bytes n s = drop (length s - n) s"

definition appendTail :: "string \<Rightarrow> string \<Rightarrow> string" where
  "appendTail p tail =
     (if sseAccountingTailBytes \<le> length p then last_bytes sseAccountingTailBytes p
      else let t = tail @ p in if 2 * sseAccountingTailBytes \<le> length t then last_bytes sseAccountingTailBytes t else t)"

definition sse_Write :: "string \<Rightarrow> sseAccountingBuffer \<Rightarrow> sseAccountingBuffer" where
  "sse_Write p b =
     (let remaining = int sseAccountingHeadBytes - int (length (sa_head b));
          b1 = (if 0 < remaining then b\<lparr>sa_head := sa_head b @ (if remaining < int (length p) then take (nat remaining) p else p)\<rparr> else b)
      in b1\<lparr>sa_tail := appendTail p (sa_tail b1)\<rparr>)"

definition tailBytes :: "sseAccountingBuffer \<Rightarrow> string" where
  "tailBytes b = (if sseAccountingTailBytes < length (sa_tail b) then last_bytes sseAccountingTailBytes (sa_tail b) else sa_tail b)"

text \<open>One read of the capped body: \<open>want\<close> bytes are asked for and the reader underneath delivers
  \<open>got\<close>; \<open>TooLarge\<close> is the error of a body past its limit.\<close>

record cappedBodyReader =
  cb_limit :: int
  cb_read :: int

datatype read_result = ReadOk int | ReadTooLarge int | ReadOther int

definition cappedBody_Read :: "int \<Rightarrow> (int \<Rightarrow> int \<times> bool) \<Rightarrow> cappedBodyReader \<Rightarrow> read_result \<times> cappedBodyReader" where
  "cappedBody_Read want inner c =
     (if cb_limit c < cb_read c then (ReadTooLarge 0, c)
      else let allowed = cb_limit c + 1 - cb_read c;
               (n, failed) = inner (if allowed < want then allowed else want);
               total = cb_read c + n
           in (if failed then ReadOther n else if cb_limit c < total then ReadTooLarge n else ReadOk n, c\<lparr>cb_read := total\<rparr>))"

subsection \<open>Decoding a checked path again\<close>

lemma unescape_plain: "CHR ''%'' \<notin> set s \<Longrightarrow> url_PathUnescape s = Some s"
  by (induction s) auto

text \<open>Decoding a path a number of times, as layers between the gateway and the provider may.\<close>

fun unescape_times :: "nat \<Rightarrow> string \<Rightarrow> string option" where
  "unescape_times 0 s = Some s"
| "unescape_times (Suc n) s = Option.bind (url_PathUnescape s) (unescape_times n)"

lemma unescape_times_plain: "CHR ''%'' \<notin> set s \<Longrightarrow> unescape_times n s = Some s"
  by (induction n) (simp_all add: unescape_plain)

theorem checked_path_stays_checked:
  assumes "\<not> hasTraversalSegment rest"
  shows "\<exists>d. unescape_times (Suc n) rest = Some d \<and> (\<forall>seg\<in>set (path_segments d). segment_name seg \<noteq> ''..'')"
proof -
  from assms obtain d where d: "url_PathUnescape rest = Some d" "CHR ''%'' \<notin> set d" "\<forall>seg\<in>set (path_segments d). segment_name seg \<noteq> ''..''"
    by (auto simp: hasTraversalSegment_def split: option.splits if_splits)
  then show ?thesis using unescape_times_plain [OF d(2), of n] by simp
qed

theorem checked_path_stays_checked_witness:
  "\<exists>d. unescape_times 3 ''v1/chat%20room/..x'' = Some d \<and> ''..'' \<notin> segment_name ` set (path_segments d)"
proof -
  have "\<not> hasTraversalSegment ''v1/chat%20room/..x''" by code_simp
  from checked_path_stays_checked [OF this, of 2] obtain d where "unescape_times (Suc 2) ''v1/chat%20room/..x'' = Some d"
    "\<forall>seg\<in>set (path_segments d). segment_name seg \<noteq> ''..''" by blast
  moreover have "Suc 2 = 3" by simp
  ultimately show ?thesis by (metis imageE)
qed

text \<open>Decoded once, encoded dots are found: the double encoding of a dot-dot segment is refused.\<close>

lemma double_encoding_refused: "hasTraversalSegment ''a/%252e%252e/b'' \<and> hasTraversalSegment ''a/%2e%2e;x/b'' \<and> hasTraversalSegment ''a%5c..''"
  by code_simp

subsection \<open>Headers that never cross\<close>

theorem upstream_headers_filtered:
  "upstream_headers extraStrip client k = Some vs \<longleftrightarrow>
     client k = Some vs \<and> k \<notin> set hopByHopHeaders \<and> k \<notin> set gatewayCredentialHeaders \<and> k \<notin> set clientNegotiationHeaders
     \<and> k \<notin> set dangerousClientHeaders \<and> k \<notin> set extraStrip \<and> \<not> has_prefix k ''X-Forwarded-'' \<and> \<not> has_prefix k ''X-Auth-''"
  by (auto simp: upstream_headers_def stripHeaderPrefixes_def copyHeadersExcept_def dangerousClientHeaderPrefixes_def split: option.splits)

lemma response_headers_filtered:
  "response_headers upstream Map.empty k = Some vs \<longleftrightarrow>
     upstream k = Some vs \<and> k \<notin> set hopByHopHeaders \<and> k \<notin> set dangerousResponseHeaders \<and> \<not> has_prefix k ''Access-Control-''"
  by (auto simp: response_headers_def stripHeaderPrefixes_def copyHeadersExcept_def dangerousResponseHeaderPrefixes_def split: option.splits)

subsection \<open>The model of a complete body\<close>

datatype json_value = JObj "(string \<times> json_value) list" | JArr "json_value list" | JStr string | JAtom

fun tokens_of :: "json_value \<Rightarrow> json_token list" where
  "tokens_of (JObj kvs) = TOpen True # concat (map (\<lambda>(k, v). TStr k # tokens_of v) kvs) @ [TClose True]"
| "tokens_of (JArr vs) = TOpen False # concat (map tokens_of vs) @ [TClose False]"
| "tokens_of (JStr s) = [TStr s]"
| "tokens_of JAtom = [TAtom]"

abbreviation field_tokens :: "(string \<times> json_value) list \<Rightarrow> json_token list" where
  "field_tokens kvs \<equiv> concat (map (\<lambda>(k, v). TStr k # tokens_of v) kvs)"

lemma skip_list:
  "(\<And>x d ts. x \<in> set xs \<Longrightarrow> skipJSONValue (Suc d) (f x @ ts) = skipJSONValue (Suc d) ts) \<Longrightarrow>
   skipJSONValue (Suc d) (concat (map f xs) @ ts) = skipJSONValue (Suc d) ts"
  by (induction xs) simp_all

lemma skip_value: "skipJSONValue (Suc d) (tokens_of v @ ts) = skipJSONValue (Suc d) ts"
proof (induction v arbitrary: d ts rule: tokens_of.induct)
  case (1 kvs)
  have "skipJSONValue (Suc d) ((case kv of (k, v) \<Rightarrow> TStr k # tokens_of v) @ ts) = skipJSONValue (Suc d) ts"
    if "kv \<in> set kvs" for kv d ts
    using 1 [OF that] by (cases kv) auto
  from skip_list [of kvs _ "Suc d" "TClose True # ts", OF this] show ?case by simp
next
  case (2 vs)
  from skip_list [of vs tokens_of "Suc d" "TClose False # ts", OF 2] show ?case by simp
qed simp_all

lemma skip_composite:
  assumes "tokens_of v = TOpen b # ts" shows "skipJSONValue 1 (ts @ rest) = Some rest"
  using skip_value [of 0 v rest] skip_value [of "Suc 0" v] assms
  by (cases v) (auto simp: skip_list skip_value split: prod.splits intro!: trans [OF skip_list])

lemma scan_other_field:
  assumes "k \<noteq> ''model''" shows "scan_fields st (TStr k # tokens_of v @ ts) = scan_fields st ts"
proof (cases "\<exists>b us. tokens_of v = TOpen b # us")
  case True
  then obtain b us where u: "tokens_of v = TOpen b # us" by blast
  show ?thesis using assms skip_composite [OF u, of ts] by (subst scan_fields.simps) (simp add: u)
next
  case False
  then consider s where "v = JStr s" | "v = JAtom" by (cases v) auto
  then show ?thesis using assms by cases (subst scan_fields.simps, simp)+
qed

lemma scan_seen_not_found: "sn_seen st \<Longrightarrow> \<not> sn_found st \<Longrightarrow> \<not> fst (snd (scan_fields st ts))"
proof (induction st ts rule: scan_fields.induct)
  case (1 st ts)
  show ?case using 1 by (subst scan_fields.simps) (auto split: list.splits json_token.splits option.splits)
qed

lemma scan_after_model:
  assumes "sn_seen st" and "sn_found st"
  shows "scan_fields st (field_tokens kvs @ TClose True # rest)
    = (if ''model'' \<in> fst ` set kvs then ([], False, False) else (sn_model st, True, True))"
  using assms
proof (induction kvs)
  case Nil
  then show ?case by (subst scan_fields.simps) simp
next
  case (Cons kv kvs)
  obtain k v where kv: "kv = (k, v)" by fastforce
  show ?case
  proof (cases "k = ''model''")
    case True
    obtain t us where "tokens_of v = t # us" by (cases v) auto
    then show ?thesis using True Cons.prems by (subst scan_fields.simps) (simp add: kv)
  next
    case False
    then show ?thesis using Cons by (simp add: kv scan_other_field)
  qed
qed

definition model_fields :: "(string \<times> json_value) list \<Rightarrow> (string \<times> json_value) list" where
  "model_fields kvs = filter (\<lambda>(k, v). k = ''model'') kvs"

lemma model_fields_empty: "model_fields kvs = [] \<longleftrightarrow> ''model'' \<notin> fst ` set kvs"
  by (force simp: model_fields_def filter_empty_conv)

lemma scan_before_model:
  assumes "\<not> sn_seen st" and "\<not> sn_found st"
  shows "(fst (snd (scan_fields st (field_tokens kvs @ TClose True # rest))) \<longrightarrow> (\<exists>m. m \<noteq> [] \<and> model_fields kvs = [(''model'', JStr m)]))
    \<and> (\<forall>m. m \<noteq> [] \<and> model_fields kvs = [(''model'', JStr m)] \<longrightarrow> scan_fields st (field_tokens kvs @ TClose True # rest) = (m, True, True))"
proof (induction kvs)
  case Nil
  show ?case using assms by (subst scan_fields.simps) (simp add: model_fields_def)
next
  case (Cons kv kvs)
  obtain k v where kv: "kv = (k, v)" by fastforce
  show ?case
  proof (cases "k = ''model''")
    case model: True
    have mf: "model_fields (kv # kvs) = (k, v) # model_fields kvs" using model by (simp add: model_fields_def kv)
    show ?thesis
    proof (cases "\<exists>s. v = JStr s \<and> s \<noteq> []")
      case True
      then obtain s where s: "v = JStr s" "s \<noteq> []" by blast
      have "scan_fields st (field_tokens (kv # kvs) @ TClose True # rest) = (if ''model'' \<in> fst ` set kvs then ([], False, False) else (s, True, True))"
        using s model assms scan_after_model [of "\<lparr>sn_model = s, sn_found = True, sn_seen = True\<rparr>" kvs rest]
        by (subst scan_fields.simps) (simp add: kv)
      then show ?thesis using s model by (auto simp: mf model_fields_empty)
    next
      case False
      obtain t us where t: "tokens_of v = t # us" "\<nexists>s. t = TStr s \<and> s \<noteq> []" using False by (cases v) auto
      have "scan_fields st (field_tokens (kv # kvs) @ TClose True # rest)
          = scan_fields (st\<lparr>sn_seen := True\<rparr>) (us @ field_tokens kvs @ TClose True # rest)"
        using model assms t by (subst scan_fields.simps) (auto simp: kv split: json_token.splits)
      with scan_seen_not_found [of "st\<lparr>sn_seen := True\<rparr>"] assms False show ?thesis by (auto simp: mf)
    qed
  next
    case False
    then show ?thesis using Cons.IH by (simp add: kv scan_other_field model_fields_def)
  qed
qed

text \<open>C10: The scan of a complete JSON object reports a model exactly when the object has one
  top-level model field and its value is a non-empty string.\<close>

theorem model_found_iff_unique:
  "(\<exists>ended. scanTopLevelModel (tokens_of (JObj kvs) @ rest) = (m, True, ended)) \<longleftrightarrow> m \<noteq> [] \<and> model_fields kvs = [(''model'', JStr m)]"
proof -
  let ?scan = "scan_fields \<lparr>sn_model = [], sn_found = False, sn_seen = False\<rparr> (field_tokens kvs @ TClose True # rest)"
  have r: "scanTopLevelModel (tokens_of (JObj kvs) @ rest) = ?scan" by (simp add: scanTopLevelModel_def)
  note s = scan_before_model [of "\<lparr>sn_model = [], sn_found = False, sn_seen = False\<rparr>" kvs rest, simplified]
  show ?thesis unfolding r
  proof
    assume "\<exists>ended. ?scan = (m, True, ended)"
    then obtain ended where e: "?scan = (m, True, ended)" by blast
    with s obtain m' where m': "m' \<noteq> []" "model_fields kvs = [(''model'', JStr m')]" by auto
    with s have "?scan = (m', True, True)" by blast
    with e m' show "m \<noteq> [] \<and> model_fields kvs = [(''model'', JStr m)]" by simp
  qed (use s in blast)
qed

subsection \<open>The ends of a stream\<close>

definition keeps_end :: "string \<Rightarrow> string \<Rightarrow> bool" where
  "keeps_end whole tail \<longleftrightarrow> (\<exists>pre. whole = pre @ tail \<and> (pre = [] \<or> sseAccountingTailBytes \<le> length tail))"

lemma last_bytes_append: "n \<le> length t \<Longrightarrow> last_bytes n (s @ t) = last_bytes n t"
  by (simp add: last_bytes_def)

lemma last_bytes_split: "s = take (length s - n) s @ last_bytes n s"
  by (simp add: last_bytes_def)

lemma keeps_end_last: "keeps_end whole tail \<Longrightarrow> sseAccountingTailBytes \<le> length tail \<Longrightarrow> keeps_end whole (last_bytes sseAccountingTailBytes tail)"
  by (force simp: keeps_end_def last_bytes_def intro: exI [of _ "_ @ take (length tail - sseAccountingTailBytes) tail"])

lemma keeps_end_append: "keeps_end whole tail \<Longrightarrow> keeps_end (whole @ p) (tail @ p)"
  by (auto simp: keeps_end_def)

lemma keeps_end_appendTail:
  assumes "keeps_end whole tail" shows "keeps_end (whole @ p) (appendTail p tail)"
proof (cases "sseAccountingTailBytes \<le> length p")
  case True
  have "keeps_end (whole @ p) p" using True by (auto simp: keeps_end_def)
  then show ?thesis using True keeps_end_last by (simp add: appendTail_def)
next
  case False
  then show ?thesis using keeps_end_append [OF assms, of p] keeps_end_last [of "whole @ p" "tail @ p"]
    by (auto simp: appendTail_def Let_def)
qed

lemma sse_Write_head: "sa_head b = take sseAccountingHeadBytes whole \<Longrightarrow> sa_head (sse_Write p b) = take sseAccountingHeadBytes (whole @ p)"
  by (auto simp: sse_Write_def Let_def min_def nat_diff_distrib')

lemma sse_buffer_invariant:
  "sa_head b = take sseAccountingHeadBytes whole \<Longrightarrow> keeps_end whole (sa_tail b) \<Longrightarrow>
   sa_head (fold sse_Write ps b) = take sseAccountingHeadBytes (whole @ concat ps) \<and> keeps_end (whole @ concat ps) (sa_tail (fold sse_Write ps b))"
proof (induction ps arbitrary: b whole)
  case (Cons p ps)
  have "sa_tail (sse_Write p b) = appendTail p (sa_tail b)" by (simp add: sse_Write_def Let_def)
  then have "keeps_end (whole @ p) (sa_tail (sse_Write p b))" using keeps_end_appendTail [OF Cons.prems(2)] by simp
  from Cons.IH [OF sse_Write_head [OF Cons.prems(1)] this] show ?case by simp
qed simp

theorem sse_buffer_keeps_ends:
  "sa_head (fold sse_Write ps sseAccountingBuffer_new) = take 65536 (concat ps)
   \<and> tailBytes (fold sse_Write ps sseAccountingBuffer_new) = last_bytes 65536 (concat ps)"
proof -
  let ?b = "fold sse_Write ps sseAccountingBuffer_new"
  have inv: "sa_head ?b = take sseAccountingHeadBytes (concat ps)" "keeps_end (concat ps) (sa_tail ?b)"
    using sse_buffer_invariant [of sseAccountingBuffer_new "[]" ps] by (simp_all add: sseAccountingBuffer_new_def keeps_end_def)
  from inv(2) have "tailBytes ?b = last_bytes sseAccountingTailBytes (concat ps)"
    by (auto simp: keeps_end_def tailBytes_def last_bytes_append) (auto simp: last_bytes_def)
  with inv(1) show ?thesis by (simp add: sseAccountingHeadBytes_def sseAccountingTailBytes_def)
qed

subsection \<open>The shared budget\<close>

text \<open>The live buffers and the budget they share: a response opens a buffer, chunks are written to any
  of them in any order, and a finished response releases its buffer.\<close>

inductive tee_world :: "int \<Rightarrow> cappedAccountingBuffer list \<Rightarrow> teeBudget \<Rightarrow> bool" for limit where
  tee_start: "tee_world limit [] (newTeeBudget limit)"
| tee_open: "tee_world limit cs b \<Longrightarrow> tee_world limit (cs @ [cappedAccountingBuffer_new]) b"
| tee_write: "tee_world limit cs b \<Longrightarrow> i < length cs \<Longrightarrow> capped_Write p (cs ! i) b = (c, b') \<Longrightarrow> tee_world limit (cs[i := c]) b'"
| tee_release: "tee_world limit (cs @ c # ds) b \<Longrightarrow> capped_release c b = (c', b') \<Longrightarrow> tee_world limit (cs @ ds) b'"

lemma sum_list_upd_int: "i < length xs \<Longrightarrow> sum_list (xs[i := x]) = sum_list xs + x - (xs ! i :: int)"
  by (induction xs arbitrary: i) (auto split: nat.splits)

lemma capped_Write_effect:
  assumes "capped_Write p c b = (c', b')" and "ca_reserved c = int (length (ca_buf c))" and "int (length (ca_buf c)) \<le> maxAccountingTeeBytes"
    and "tb_used b \<le> tb_limit b"
  shows "ca_reserved c' = int (length (ca_buf c')) \<and> int (length (ca_buf c')) \<le> maxAccountingTeeBytes \<and> tb_limit b' = tb_limit b
    \<and> tb_used b' = tb_used b + (int (length (ca_buf c')) - int (length (ca_buf c))) \<and> tb_used b' \<le> tb_limit b'"
  using assms by (auto simp: capped_Write_def tee_reserve_def Let_def split: if_splits)

theorem tee_budget_kept:
  assumes "tee_world limit cs b" and "0 \<le> limit"
  shows "tb_used b = (\<Sum>c\<leftarrow>cs. int (length (ca_buf c))) \<and> tb_used b \<le> limit \<and> (\<forall>c\<in>set cs. int (length (ca_buf c)) \<le> 4194304)"
proof -
  have "tb_used b = (\<Sum>c\<leftarrow>cs. int (length (ca_buf c))) \<and> tb_limit b = limit \<and> tb_used b \<le> tb_limit b
      \<and> (\<forall>c\<in>set cs. ca_reserved c = int (length (ca_buf c)) \<and> int (length (ca_buf c)) \<le> maxAccountingTeeBytes)"
    using assms
  proof (induction rule: tee_world.induct)
    case tee_start
    then show ?case by (simp add: newTeeBudget_def)
  next
    case (tee_open cs b)
    then show ?case by (simp add: cappedAccountingBuffer_new_def maxAccountingTeeBytes_def)
  next
    case (tee_write cs b i p c b')
    have i: "cs ! i \<in> set cs" using tee_write.hyps(2) by simp
    note e = capped_Write_effect [OF tee_write.hyps(3)]
    have "(\<Sum>c\<leftarrow>cs[i := c]. int (length (ca_buf c))) = (\<Sum>c\<leftarrow>cs. int (length (ca_buf c))) + int (length (ca_buf c)) - int (length (ca_buf (cs ! i)))"
      using tee_write.hyps(2) by (simp add: map_update sum_list_upd_int)
    then show ?case using tee_write e i by (auto dest!: set_update_subset_insert [THEN subsetD])
  next
    case (tee_release cs c ds b c' b')
    then show ?case by (auto simp: capped_release_def tee_free_def split: if_splits)
  qed
  then show ?thesis by (auto simp: maxAccountingTeeBytes_def)
qed

text \<open>What a buffer holds is a prefix of what was written to it, all of it unless it says otherwise.\<close>

lemma capped_content:
  assumes "capped_Write p c b = (c', b')"
  shows "\<exists>q. ca_buf c' = ca_buf c @ take q p \<and> (\<not> ca_truncated c' \<longrightarrow> \<not> ca_truncated c \<and> ca_buf c' = ca_buf c @ p)"
  using assms
  by (auto simp: capped_Write_def tee_reserve_def Let_def split: if_splits intro: exI [of _ 0] exI [of _ "length p"])

text \<open>A capped body never takes more than one byte past its limit from the client.\<close>

lemma capped_body_bound:
  assumes "cappedBody_Read want inner c = (res, c')" and "\<And>k. fst (inner k) \<le> k" and "cb_read c \<le> cb_limit c + 1"
  shows "cb_read c' \<le> cb_limit c' + 1 \<and> (cb_limit c' < cb_read c' \<longrightarrow> (\<exists>n. res = ReadTooLarge n \<or> res = ReadOther n))"
proof -
  obtain n failed where i: "inner (if cb_limit c + 1 - cb_read c < want then cb_limit c + 1 - cb_read c else want) = (n, failed)" by fastforce
  have "n \<le> cb_limit c + 1 - cb_read c"
    using assms(2) [of "if cb_limit c + 1 - cb_read c < want then cb_limit c + 1 - cb_read c else want"] i by (simp split: if_splits)
  then show ?thesis using assms(1,3) i by (auto simp: cappedBody_Read_def Let_def split: if_splits)
qed

theorem tee_budget_kept_witness:
  "\<exists>c. capped_Write ''ok'' cappedAccountingBuffer_new (newTeeBudget 3) = (c, \<lparr>tb_used = 2, tb_limit = 3\<rparr>) \<and> int (length (ca_buf c)) = 2"
proof -
  obtain c where c: "capped_Write ''ok'' cappedAccountingBuffer_new (newTeeBudget 3) = (c, \<lparr>tb_used = 2, tb_limit = 3\<rparr>)"
    by (simp add: capped_Write_def cappedAccountingBuffer_new_def newTeeBudget_def tee_reserve_def maxAccountingTeeBytes_def)
  have "tee_world 3 ([cappedAccountingBuffer_new][0 := c]) \<lparr>tb_used = 2, tb_limit = 3\<rparr>"
    by (rule tee_world.tee_write [OF tee_world.tee_open [OF tee_world.tee_start, simplified], where p = "''ok''"]) (simp_all add: c)
  from tee_budget_kept [OF this] c show ?thesis by auto
qed

end
