(* ===== verification/Watchdog.thy ===== *)
theory Watchdog
  imports GoDuration Retry Accounting
begin

text \<open>
  Request timeouts (timeout.go): their configuration, and the watchdog around an upstream body, which
  ends a request that makes no progress for \<open>timeout\<close> while it never ends one that does.

  The timer is its deadline; \<open>wd_tick\<close> lets time pass, which fires it.  The callbacks are counters and
  lists of what they were given: \<open>wd_canceled\<close> for the cancel function, \<open>wd_timeouts\<close> for \<open>onTimeout\<close>,
  \<open>wd_samples\<close> for \<open>onLatency\<close>.
\<close>

subsection \<open>Configuration\<close>

definition defaultRequestTimeout :: duration where "defaultRequestTimeout = 5 * minute"

datatype timeoutError = TimeoutInvalid string | TimeoutNotPositive string

definition resolveRequestTimeout :: "string \<Rightarrow> timeoutError + duration" where
  "resolveRequestTimeout raw =
     (if raw = [] then Inr defaultRequestTimeout
      else (case time_ParseDuration raw of
              None \<Rightarrow> Inl (TimeoutInvalid raw)
            | Some d \<Rightarrow> if d \<le> 0 then Inl (TimeoutNotPositive raw) else Inr d))"

definition resolveProviderTimeout :: "string \<Rightarrow> duration \<Rightarrow> timeoutError + duration" where
  "resolveProviderTimeout providerRaw globalTimeout =
     (if providerRaw = [] then Inr globalTimeout else resolveRequestTimeout providerRaw)"

subsection \<open>The watchdog\<close>

record watchdogBody =
  wd_timeout :: duration
  wd_deadline :: "gtime option"
  wd_timedOut :: bool
  wd_done :: bool
  wd_canceled :: bool
  wd_timeouts :: nat
  wd_latencyStart :: "gtime option"
  wd_streaming :: bool
  wd_ttfb :: "duration option"
  wd_latencyRecorded :: bool
  wd_samples :: "latencySample list"

definition newWatchdogBody :: "gtime \<Rightarrow> duration \<Rightarrow> watchdogBody" where
  "newWatchdogBody now timeout = \<lparr>wd_timeout = timeout, wd_deadline = Some (now + timeout), wd_timedOut = False, wd_done = False,
     wd_canceled = False, wd_timeouts = 0, wd_latencyStart = None, wd_streaming = False, wd_ttfb = None,
     wd_latencyRecorded = False, wd_samples = []\<rparr>"

definition armLatency :: "gtime \<Rightarrow> bool \<Rightarrow> watchdogBody \<Rightarrow> watchdogBody" where
  "armLatency start streaming wb = wb\<lparr>wd_latencyStart := Some start, wd_streaming := streaming\<rparr>"

definition watchdog_fire :: "watchdogBody \<Rightarrow> watchdogBody" where
  "watchdog_fire wb =
     (if wd_done wb then wb else wb\<lparr>wd_timedOut := True, wd_canceled := True, wd_timeouts := wd_timeouts wb + 1\<rparr>)"

definition wd_tick :: "gtime \<Rightarrow> watchdogBody \<Rightarrow> watchdogBody" where
  "wd_tick now wb =
     (case wd_deadline wb of
        Some d \<Rightarrow> if d \<le> now then watchdog_fire (wb\<lparr>wd_deadline := None\<rparr>) else wb
      | None \<Rightarrow> wb)"

text \<open>What the body underneath answers to a read, and what the watchdog makes of it.\<close>

datatype readError = ReadEOF | ReadFailed string | ReadTimeout

definition watchdog_Read :: "gtime \<Rightarrow> nat \<times> readError option \<Rightarrow> watchdogBody \<Rightarrow> (nat \<times> readError option) \<times> watchdogBody" where
  "watchdog_Read now inner wb =
     (case inner of (n, err) \<Rightarrow>
        let wb1 = (case wd_latencyStart wb of
                     Some start \<Rightarrow> if 0 < n \<and> wd_ttfb wb = None then wb\<lparr>wd_ttfb := Some (now - start)\<rparr> else wb
                   | None \<Rightarrow> wb)
        in case err of
             Some e \<Rightarrow>
               let wb2 = (if e = ReadEOF then wb1\<lparr>wd_done := True, wd_deadline := None\<rparr> else wb1)
               in ((n, Some (if wd_timedOut wb2 then ReadTimeout else e)), wb2)
           | None \<Rightarrow> ((n, None), if 0 < n then wb1\<lparr>wd_deadline := Some (now + wd_timeout wb1)\<rparr> else wb1))"

definition watchdog_Close :: "gtime \<Rightarrow> watchdogBody \<Rightarrow> watchdogBody" where
  "watchdog_Close now wb =
     (let wb1 = wb\<lparr>wd_deadline := None, wd_canceled := True\<rparr> in
      case wd_latencyStart wb1 of
        Some start \<Rightarrow>
          if wd_latencyRecorded wb1 then wb1
          else wb1\<lparr>wd_latencyRecorded := True,
                   wd_samples := wd_samples wb1 @ [\<lparr>lat_duration = now - start,
                     lat_ttfb = (case wd_ttfb wb1 of Some t \<Rightarrow> t | None \<Rightarrow> 0), lat_hasTTFB = wd_ttfb wb1 \<noteq> None,
                     lat_streaming = wd_streaming wb1\<rparr>]\<rparr>
      | None \<Rightarrow> wb1)"

text \<open>Reading a body to its end: each read blocks until its answer arrives, while the timer runs; a
  body whose request was canceled answers no more data.\<close>

fun read_body :: "(gtime \<times> nat \<times> readError option) list \<Rightarrow> watchdogBody \<Rightarrow> (nat \<times> readError option) list \<times> watchdogBody" where
  "read_body [] wb = ([], wb)"
| "read_body ((now, answer) # rest) wb =
     (let wb1 = wd_tick now wb;
          (out, wb2) = watchdog_Read now (if wd_canceled wb1 then (0, Some (ReadFailed ''context canceled'')) else answer) wb1
      in case snd out of
           Some e \<Rightarrow> ([out], wb2)
         | None \<Rightarrow> (case read_body rest wb2 of (outs, wb3) \<Rightarrow> (out # outs, wb3)))"

text \<open>Progress: every answer comes before \<open>timeout\<close> has passed since the last data.\<close>

fun progressing :: "duration \<Rightarrow> gtime \<Rightarrow> (gtime \<times> nat \<times> readError option) list \<Rightarrow> bool" where
  "progressing d t [] \<longleftrightarrow> True"
| "progressing d t ((now, n, err) # rest) \<longleftrightarrow> now < t + d \<and> (err = None \<longrightarrow> progressing d (if 0 < n then now else t) rest)"

text \<open>The answers up to the first error.\<close>

fun upto_error :: "(gtime \<times> nat \<times> readError option) list \<Rightarrow> (nat \<times> readError option) list" where
  "upto_error [] = []"
| "upto_error ((now, n, err) # rest) = (n, err) # (if err = None then upto_error rest else [])"

definition watching :: "gtime \<Rightarrow> watchdogBody \<Rightarrow> bool" where
  "watching t wb \<longleftrightarrow> wd_deadline wb = Some (t + wd_timeout wb) \<and> \<not> wd_timedOut wb \<and> \<not> wd_canceled wb \<and> wd_timeouts wb = 0"

lemma watching_tick: "watching t wb \<Longrightarrow> now < t + wd_timeout wb \<Longrightarrow> wd_tick now wb = wb"
  by (simp add: watching_def wd_tick_def)

lemma read_progress:
  assumes "watching t wb"
  shows "fst (watchdog_Read now (n, None) wb) = (n, None)"
    and "watching (if 0 < n then now else t) (snd (watchdog_Read now (n, None) wb))"
    and "wd_timeout (snd (watchdog_Read now (n, None) wb)) = wd_timeout wb"
  using assms by (auto simp: watchdog_Read_def watching_def Let_def split: option.splits)

text \<open>C16: A response body that delivers data at least once per timeout is read to its end
  unchanged and no timeout is reported, however long it takes.\<close>

theorem progressing_body_is_never_cut:
  assumes "progressing (wd_timeout wb) t answers" and "watching t wb"
  shows "fst (read_body answers wb) = upto_error answers \<and> wd_timeouts (snd (read_body answers wb)) = 0"
  using assms
proof (induction answers arbitrary: t wb)
  case Nil
  then show ?case by (simp add: watching_def)
next
  case (Cons a rest)
  obtain now n err where a: "a = (now, n, err)" by (metis prod_cases3)
  have tick: "wd_tick now wb = wb" and live: "\<not> wd_canceled wb" "\<not> wd_timedOut wb"
    using Cons.prems a by (auto simp: watching_tick) (auto simp: watching_def)
  show ?case
  proof (cases err)
    case None
    note r = read_progress [OF Cons.prems(2), where now = now and n = n]
    have "fst (read_body rest (snd (watchdog_Read now (n, None) wb))) = upto_error rest
        \<and> wd_timeouts (snd (read_body rest (snd (watchdog_Read now (n, None) wb)))) = 0"
      using Cons.prems(1) a None r by (intro Cons.IH [where t = "if 0 < n then now else t"]) simp_all
    then show ?thesis by (simp add: a None tick live r(1) Let_def case_prod_beta)
  next
    case (Some e)
    then show ?thesis using Cons.prems live tick a
      by (auto simp: watchdog_Read_def watching_def Let_def split: option.splits)
  qed
qed

text \<open>Silence: once \<open>timeout\<close> has passed with no data, the request is canceled, the timeout is reported
  once, and the next read fails with the timeout error.\<close>

theorem silent_body_is_cut:
  assumes "watching t wb" and "\<not> wd_done wb" and "t + wd_timeout wb \<le> now"
  shows "fst (read_body ((now, answer) # rest) wb) = [(0, Some ReadTimeout)]
    \<and> wd_canceled (snd (read_body ((now, answer) # rest) wb)) \<and> wd_timeouts (snd (read_body ((now, answer) # rest) wb)) = 1"
  using assms by (auto simp: watching_def wd_tick_def watchdog_fire_def watchdog_Read_def Let_def split: option.splits)

text \<open>A body that ended cleanly never reports a timeout, even by a timer that had already started.\<close>

lemma finished_body_never_fires:
  "snd (watchdog_Read now (n, Some ReadEOF) wb) = wb' \<Longrightarrow> watchdog_fire wb' = wb' \<and> wd_tick now' wb' = wb'"
  by (auto simp: watchdog_Read_def watchdog_fire_def wd_tick_def Let_def split: option.splits)

lemma latency_recorded_once: "length (wd_samples (watchdog_Close t2 (watchdog_Close t1 wb))) \<le> Suc (length (wd_samples wb))"
  by (auto simp: watchdog_Close_def Let_def split: option.splits)

lemma resolveRequestTimeout_positive: "resolveRequestTimeout raw = Inr d \<Longrightarrow> 0 < d"
  by (auto simp: resolveRequestTimeout_def defaultRequestTimeout_def dur_defs split: if_splits option.splits)

theorem progressing_body_is_never_cut_witness:
  "fst (read_body [(5, 3, None), (12, 4, None), (21, 0, Some ReadEOF)] (newWatchdogBody 0 10)) = [(3, None), (4, None), (0, Some ReadEOF)]"
proof -
  have w: "watching 0 (newWatchdogBody 0 10)" by (simp add: watching_def newWatchdogBody_def)
  have "progressing (wd_timeout (newWatchdogBody 0 10)) 0 [(5, 3, None), (12, 4, None), (21, 0, Some ReadEOF)]"
    by (simp add: newWatchdogBody_def)
  from progressing_body_is_never_cut [OF this w] show ?thesis by simp
qed

end
