(* ===== verification/TargetHealth.thy ===== *)
theory TargetHealth
  imports GoText GoDuration Retry "HOL-Library.Multiset"
begin

text \<open>
  Health of MCP servers and A2A agents (target_health.go): the tracker of observations, its
  configuration, the decision to start a sweep of probes, and the sweep; with the scrubbing of
  credentials from error texts (admin.go) that precedes every stored error.

  \<open>url.Parse\<close> and \<open>URL.String\<close> of the standard library are parameters over a record of the parts the
  gateway reads or clears.  A probe is the outcome it ends with.

  The state shown for a target is a function of its observation history: unhealthy exactly when the
  last \<open>failureThreshold\<close> observations failed.  Sweeps never overlap and start at least one probe
  interval apart.
\<close>

subsection \<open>Scrubbing URLs\<close>

record url =
  url_base :: string
  url_user :: "(string \<times> string option) option"
  url_RawQuery :: string
  url_Fragment :: string

record urlCodec =
  uc_parse :: "string \<Rightarrow> url option"
  uc_string :: "url \<Rightarrow> string"
  uc_userinfo :: "string \<times> string option \<Rightarrow> string"

definition unparseableBaseURLPlaceholder :: string where
  "unparseableBaseURLPlaceholder = ''[unparseable url]''"

definition sanitizeBaseURL :: "urlCodec \<Rightarrow> string \<Rightarrow> string" where
  "sanitizeBaseURL uc raw =
     (case uc_parse uc raw of
        None \<Rightarrow> unparseableBaseURLPlaceholder
      | Some u \<Rightarrow> uc_string uc (u\<lparr>url_user := None, url_RawQuery := [], url_Fragment := []\<rparr>))"

definition replaceURLForm :: "urlCodec \<Rightarrow> string \<Rightarrow> string \<Rightarrow> string" where
  "replaceURLForm uc msg form =
     (if form = [] \<or> \<not> strings_Contains msg form then msg else strings_ReplaceAll msg form (sanitizeBaseURL uc form))"

definition sanitizeProviderErr :: "urlCodec \<Rightarrow> string \<Rightarrow> string \<Rightarrow> string" where
  "sanitizeProviderErr uc lastErr rawBaseURL =
     (if lastErr = [] \<or> rawBaseURL = [] then lastErr
      else let out = replaceURLForm uc lastErr rawBaseURL in
        (case uc_parse uc rawBaseURL of
           None \<Rightarrow> out
         | Some u \<Rightarrow>
             (case url_user u of
                Some (name, Some pw) \<Rightarrow>
                  replaceURLForm uc out (strings_Replace (uc_string uc u) (uc_userinfo uc (name, Some pw) @ ''@'') (name @ '':***@'') 1)
              | _ \<Rightarrow> out)))"

definition sanitizeTargetErr :: "urlCodec \<Rightarrow> string \<Rightarrow> string \<Rightarrow> string" where
  "sanitizeTargetErr uc msg rawURL = sanitizeProviderErr uc msg rawURL"

definition truncateRunes :: "string \<Rightarrow> nat \<Rightarrow> string" where
  "truncateRunes s n = (let r = runes s in if length r \<le> n then s else string_of_runes (take n r))"

subsection \<open>The tracker\<close>

datatype targetHealthState = TargetUnknown | TargetHealthy | TargetUnhealthy
datatype healthSource = ProbeSource | TrafficSource

definition targetHealthMaxErrorRunes :: nat where "targetHealthMaxErrorRunes = 200"

record targetHealthEntry =
  te_lastCheck :: gtime
  te_lastError :: string
  te_source :: healthSource
  te_latency :: duration
  te_consecutiveFailures :: int
  te_everOK :: bool

type_synonym targetHealthKey = "string \<times> string"

record targetHealthTracker =
  th_entries :: "targetHealthKey \<rightharpoonup> targetHealthEntry"
  th_failureThreshold :: int

definition newTargetHealthTracker :: "int \<Rightarrow> targetHealthTracker" where
  "newTargetHealthTracker threshold = \<lparr>th_entries = Map.empty, th_failureThreshold = threshold\<rparr>"

definition blank_entry :: targetHealthEntry where
  "blank_entry = \<lparr>te_lastCheck = zero_time, te_lastError = [], te_source = ProbeSource, te_latency = 0,
     te_consecutiveFailures = 0, te_everOK = False\<rparr>"

text \<open>One observation: the target, its URL, whether it succeeded, the error text, the latency, where
  it comes from, and when it is recorded.\<close>

record observation =
  ob_kind :: string
  ob_name :: string
  ob_url :: string
  ob_ok :: bool
  ob_err :: "string option"
  ob_latency :: duration
  ob_source :: healthSource
  ob_now :: gtime

definition observe_entry :: "urlCodec \<Rightarrow> observation \<Rightarrow> targetHealthEntry \<Rightarrow> targetHealthEntry" where
  "observe_entry uc ob e =
     (let e1 = e\<lparr>te_lastCheck := ob_now ob, te_latency := ob_latency ob, te_source := ob_source ob\<rparr> in
      if ob_ok ob then e1\<lparr>te_everOK := True, te_consecutiveFailures := 0, te_lastError := []\<rparr>
      else e1\<lparr>te_consecutiveFailures := te_consecutiveFailures e1 + 1,
              te_lastError := (case ob_err ob of
                 Some err \<Rightarrow> truncateRunes (sanitizeTargetErr uc err (ob_url ob)) targetHealthMaxErrorRunes
               | None \<Rightarrow> te_lastError e1)\<rparr>)"

definition health_record :: "urlCodec \<Rightarrow> observation \<Rightarrow> targetHealthTracker option \<Rightarrow> targetHealthTracker option" where
  "health_record uc ob tr =
     (case tr of
        None \<Rightarrow> None
      | Some t \<Rightarrow>
          if ob_name ob = [] then Some t
          else let key = (ob_kind ob, ob_name ob);
                   e = (case th_entries t key of Some e \<Rightarrow> e | None \<Rightarrow> blank_entry)
               in Some (t\<lparr>th_entries := (th_entries t)(key \<mapsto> observe_entry uc ob e)\<rparr>))"

definition stateForLocked :: "targetHealthTracker \<Rightarrow> targetHealthEntry \<Rightarrow> targetHealthState" where
  "stateForLocked t e =
     (if th_failureThreshold t \<le> te_consecutiveFailures e then TargetUnhealthy
      else if \<not> te_everOK e then TargetUnknown
      else TargetHealthy)"

record targetHealthSnapshot =
  ts_lastCheck :: gtime
  ts_state :: targetHealthState
  ts_lastError :: string
  ts_source :: "healthSource option"
  ts_latency :: duration
  ts_consecutiveFailures :: int
  ts_observed :: bool

definition unknown_snapshot :: targetHealthSnapshot where
  "unknown_snapshot = \<lparr>ts_lastCheck = zero_time, ts_state = TargetUnknown, ts_lastError = [], ts_source = None,
     ts_latency = 0, ts_consecutiveFailures = 0, ts_observed = False\<rparr>"

definition health_snapshot :: "string \<Rightarrow> string \<Rightarrow> targetHealthTracker option \<Rightarrow> targetHealthSnapshot" where
  "health_snapshot kind name tr =
     (case tr of
        None \<Rightarrow> unknown_snapshot
      | Some t \<Rightarrow>
          (case th_entries t (kind, name) of
             None \<Rightarrow> unknown_snapshot
           | Some e \<Rightarrow> \<lparr>ts_lastCheck = te_lastCheck e, ts_state = stateForLocked t e, ts_lastError = te_lastError e,
               ts_source = Some (te_source e), ts_latency = te_latency e, ts_consecutiveFailures = te_consecutiveFailures e,
               ts_observed = True\<rparr>))"

subsection \<open>Configuration\<close>

definition defaultTargetHealthProbeInterval :: duration where "defaultTargetHealthProbeInterval = 60 * second"
definition minTargetHealthProbeInterval :: duration where "minTargetHealthProbeInterval = 10 * second"
definition maxTargetHealthProbeInterval :: duration where "maxTargetHealthProbeInterval = hour"
definition defaultTargetHealthFailureThreshold :: int where "defaultTargetHealthFailureThreshold = 3"
definition maxTargetHealthFailureThreshold :: int where "maxTargetHealthFailureThreshold = 100"
definition targetHealthMaxProbeTimeout :: duration where "targetHealthMaxProbeTimeout = 10 * second"

record TargetHealthConfig =
  thc_ProbeInterval :: string
  thc_FailureThreshold :: int
  thc_Enabled :: bool

record targetHealthConfig =
  th_probeInterval :: duration
  th_threshold :: int
  th_enabled :: bool

datatype targetHealthError = ProbeIntervalInvalid string | ProbeIntervalRange string | FailureThresholdRange int

definition probe_interval :: "string \<Rightarrow> targetHealthError + duration" where
  "probe_interval raw =
     (if raw = [] then Inr defaultTargetHealthProbeInterval
      else (case time_ParseDuration raw of
              None \<Rightarrow> Inl (ProbeIntervalInvalid raw)
            | Some d \<Rightarrow> if d < minTargetHealthProbeInterval \<or> maxTargetHealthProbeInterval < d then Inl (ProbeIntervalRange raw) else Inr d))"

definition validateTargetHealthConfig :: "TargetHealthConfig \<Rightarrow> targetHealthError + targetHealthConfig" where
  "validateTargetHealthConfig thc =
     bind_sum (probe_interval (thc_ProbeInterval thc)) (\<lambda>interval.
       let threshold = (if thc_FailureThreshold thc = 0 then defaultTargetHealthFailureThreshold else thc_FailureThreshold thc) in
       if threshold < 1 \<or> maxTargetHealthFailureThreshold < threshold then Inl (FailureThresholdRange threshold)
       else Inr \<lparr>th_probeInterval = interval, th_threshold = threshold, th_enabled = thc_Enabled thc\<rparr>)"

definition targetHealthProbeTimeout :: "duration \<Rightarrow> duration" where
  "targetHealthProbeTimeout requestTimeout =
     (if requestTimeout \<le> 0 \<or> targetHealthMaxProbeTimeout < requestTimeout then targetHealthMaxProbeTimeout else requestTimeout)"

subsection \<open>Sweeps\<close>

record sweepState =
  sw_last :: int
  sw_sweeping :: bool

definition targetHealthIntervalElapsed :: "int \<Rightarrow> int \<Rightarrow> duration \<Rightarrow> bool" where
  "targetHealthIntervalElapsed now lastSweepUnixNano probeInterval \<longleftrightarrow>
     lastSweepUnixNano = 0 \<or> probeInterval \<le> wrap64 (now - lastSweepUnixNano)"

text \<open>\<open>t1\<close>, \<open>now\<close> and \<open>t2\<close> are the three clock readings; the result says whether a sweep is started.
  Everything after the compare-and-swap runs while the flag is set, so only its holder changes the
  state.\<close>

definition maybeSweepTargetHealth :: "targetHealthConfig \<Rightarrow> int \<Rightarrow> int \<Rightarrow> int \<Rightarrow> sweepState \<Rightarrow> bool \<times> sweepState" where
  "maybeSweepTargetHealth cfg t1 now t2 s =
     (if \<not> th_enabled cfg then (False, s)
      else if \<not> targetHealthIntervalElapsed t1 (sw_last s) (th_probeInterval cfg) then (False, s)
      else if sw_sweeping s then (False, s)
      else if \<not> targetHealthIntervalElapsed t2 (sw_last s) (th_probeInterval cfg) then (False, s\<lparr>sw_sweeping := False\<rparr>)
      else (True, s\<lparr>sw_sweeping := True, sw_last := now\<rparr>))"

text \<open>The probes: what the network answers is the outcome of a request, \<open>Inl\<close> an error text and \<open>Inr\<close> a
  status.\<close>

definition isLegacySSETransportURL :: "(string \<Rightarrow> string option) \<Rightarrow> string \<Rightarrow> bool" where
  "isLegacySSETransportURL url_path rawURL =
     (case url_path rawURL of None \<Rightarrow> False | Some p \<Rightarrow> strings_HasSuffix (strings_TrimSuffix p ''/'') ''/sse'')"

definition probeLegacySSE :: "string + int \<Rightarrow> bool \<times> string option" where
  "probeLegacySSE answer =
     (case answer of
        Inl err \<Rightarrow> (False, Some err)
      | Inr status \<Rightarrow> if 500 \<le> status then (False, Some (''legacy sse probe: upstream returned HTTP '' @ itoa status)) else (True, None))"

definition probe_observation :: "string \<Rightarrow> string \<Rightarrow> string \<Rightarrow> bool \<times> string option \<Rightarrow> duration \<Rightarrow> gtime \<Rightarrow> observation" where
  "probe_observation kind name rawURL result latency now =
     \<lparr>ob_kind = kind, ob_name = name, ob_url = rawURL, ob_ok = fst result, ob_err = snd result, ob_latency = latency,
      ob_source = ProbeSource, ob_now = now\<rparr>"

text \<open>\<open>handshake\<close> ends with an error or a session id; a session it opened is closed again, which the
  result lists.\<close>

definition probeMCPTarget :: "(string \<Rightarrow> string option) \<Rightarrow> (string \<Rightarrow> string + int) \<Rightarrow> (string \<Rightarrow> string + string) \<Rightarrow> duration \<Rightarrow> gtime \<Rightarrow>
    string \<Rightarrow> string \<Rightarrow> observation \<times> string list" where
  "probeMCPTarget url_path get handshake latency now name rawURL =
     (if isLegacySSETransportURL url_path rawURL
      then (probe_observation ''mcp'' name rawURL (probeLegacySSE (get rawURL)) latency now, [])
      else (case handshake rawURL of
              Inl err \<Rightarrow> (probe_observation ''mcp'' name rawURL (False, Some err) latency now, [])
            | Inr sessionID \<Rightarrow> (probe_observation ''mcp'' name rawURL (True, None) latency now, if sessionID \<noteq> [] then [sessionID] else [])))"

definition defaultAgentCardPath :: string where "defaultAgentCardPath = ''/.well-known/agent-card.json''"

definition probeAgentTarget :: "(string \<Rightarrow> string + int) \<Rightarrow> duration \<Rightarrow> gtime \<Rightarrow> string \<Rightarrow> string \<Rightarrow> string \<Rightarrow> observation" where
  "probeAgentTarget get latency now name baseURL cardPath =
     probe_observation ''a2a'' name baseURL
       (case get (baseURL @ (if cardPath = [] then defaultAgentCardPath else cardPath)) of
          Inl err \<Rightarrow> (False, Some err)
        | Inr status \<Rightarrow> if status < 500 then (True, None) else (False, Some (''agent probe: upstream returned HTTP '' @ itoa status)))
       latency now"

text \<open>A sweep records the outcomes of its probes in the order they end, and clears the flag.\<close>

definition sweepTargetHealth :: "urlCodec \<Rightarrow> observation list \<Rightarrow> targetHealthTracker option \<times> sweepState \<Rightarrow>
    targetHealthTracker option \<times> sweepState" where
  "sweepTargetHealth uc outcomes = (\<lambda>(tr, s). (fold (health_record uc) outcomes tr, s\<lparr>sw_sweeping := False\<rparr>))"

subsection \<open>Passive recording\<close>

definition targetProxyHealthError :: "bool \<Rightarrow> int \<Rightarrow> string" where
  "targetProxyHealthError ok status =
     (if \<not> ok then ''target proxy: upstream request failed'' else ''target proxy: upstream returned HTTP '' @ itoa status)"

definition recordTargetProxyHealth :: "urlCodec \<Rightarrow> gtime \<Rightarrow> string \<Rightarrow> string \<Rightarrow> string \<Rightarrow> int \<Rightarrow> bool \<Rightarrow> bool \<Rightarrow> duration \<Rightarrow>
    targetHealthTracker option \<Rightarrow> targetHealthTracker option" where
  "recordTargetProxyHealth uc now kind name rawURL status clientCanceled ok latency tr =
     (if clientCanceled then tr
      else let failed = (\<not> ok \<or> 500 \<le> status) in
        health_record uc \<lparr>ob_kind = kind, ob_name = name, ob_url = rawURL, ob_ok = \<not> failed,
          ob_err = (if failed then Some (targetProxyHealthError ok status) else None), ob_latency = latency,
          ob_source = TrafficSource, ob_now = now\<rparr> tr)"

subsection \<open>The state is a function of the history\<close>

text \<open>The observations of one target, oldest first, and the failures since its last success.\<close>

definition history_of :: "string \<Rightarrow> string \<Rightarrow> observation list \<Rightarrow> bool list" where
  "history_of kind name obs = map ob_ok (filter (\<lambda>ob. ob_kind ob = kind \<and> ob_name ob = name) obs)"

definition recent_failures :: "bool list \<Rightarrow> nat" where
  "recent_failures h = length (takeWhile Not (rev h))"

definition history_state :: "int \<Rightarrow> bool list \<Rightarrow> targetHealthState" where
  "history_state threshold h =
     (if threshold \<le> int (recent_failures h) then TargetUnhealthy else if True \<in> set h then TargetHealthy else TargetUnknown)"

definition entry_matches :: "bool list \<Rightarrow> targetHealthEntry option \<Rightarrow> bool" where
  "entry_matches h eo = (case eo of None \<Rightarrow> h = []
     | Some e \<Rightarrow> h \<noteq> [] \<and> te_consecutiveFailures e = int (recent_failures h) \<and> (te_everOK e \<longleftrightarrow> True \<in> set h))"

lemma health_record_Some: "health_record uc ob (Some t) =
    (if ob_name ob = [] then Some t
     else Some (t\<lparr>th_entries := (th_entries t)((ob_kind ob, ob_name ob) \<mapsto>
       observe_entry uc ob (case th_entries t (ob_kind ob, ob_name ob) of Some e \<Rightarrow> e | None \<Rightarrow> blank_entry))\<rparr>))"
  by (simp add: health_record_def Let_def)

lemma recent_failures_snoc: "recent_failures (h @ [b]) = (if b then 0 else Suc (recent_failures h))"
  by (simp add: recent_failures_def)

lemma history_snoc: "history_of kind name (obs @ [ob]) =
    history_of kind name obs @ (if ob_kind ob = kind \<and> ob_name ob = name then [ob_ok ob] else [])"
  by (simp add: history_of_def)

lemma observe_matches:
  "entry_matches h eo \<Longrightarrow> entry_matches (h @ [ob_ok ob]) (Some (observe_entry uc ob (case eo of Some e \<Rightarrow> e | None \<Rightarrow> blank_entry)))"
  by (cases eo) (auto simp: entry_matches_def observe_entry_def Let_def recent_failures_snoc blank_entry_def recent_failures_def)

lemma tracker_matches:
  assumes "name \<noteq> []"
  shows "\<exists>t. fold (health_record uc) obs (Some (newTargetHealthTracker threshold)) = Some t \<and> th_failureThreshold t = threshold
     \<and> entry_matches (history_of kind name obs) (th_entries t (kind, name))"
proof (induction obs rule: rev_induct)
  case Nil
  then show ?case by (simp add: newTargetHealthTracker_def entry_matches_def history_of_def)
next
  case (snoc ob obs)
  then obtain t where t: "fold (health_record uc) obs (Some (newTargetHealthTracker threshold)) = Some t"
    "th_failureThreshold t = threshold" "entry_matches (history_of kind name obs) (th_entries t (kind, name))" by blast
  show ?case
  proof (cases "ob_kind ob = kind \<and> ob_name ob = name")
    case True
    then show ?thesis using t assms observe_matches [OF t(3), of ob uc]
      by (auto simp: health_record_Some history_snoc)
  next
    case False
    then show ?thesis using t by (auto simp: health_record_Some history_snoc)
  qed
qed

theorem target_state_of_history:
  assumes "name \<noteq> []" and "0 < threshold"
  shows "ts_state (health_snapshot kind name (fold (health_record uc) obs (Some (newTargetHealthTracker threshold))))
    = history_state threshold (history_of kind name obs)"
proof -
  obtain t where "fold (health_record uc) obs (Some (newTargetHealthTracker threshold)) = Some t" "th_failureThreshold t = threshold"
    "entry_matches (history_of kind name obs) (th_entries t (kind, name))"
    using tracker_matches [OF assms(1)] by blast
  then show ?thesis using assms(2)
    by (cases "th_entries t (kind, name)")
      (auto simp: health_snapshot_def unknown_snapshot_def stateForLocked_def history_state_def entry_matches_def recent_failures_def)
qed

text \<open>The order in which the probes of a sweep end is irrelevant: each target has its own entry.\<close>

lemma record_commute:
  "(ob_kind a, ob_name a) \<noteq> (ob_kind b, ob_name b) \<Longrightarrow> health_record uc a (health_record uc b tr) = health_record uc b (health_record uc a tr)"
  by (cases tr) (auto simp: health_record_def Let_def fun_upd_twist)

theorem sweep_order_irrelevant:
  assumes "distinct (map (\<lambda>ob. (ob_kind ob, ob_name ob)) xs)" and "mset xs = mset ys"
  shows "sweepTargetHealth uc xs s = sweepTargetHealth uc ys s"
proof -
  have "inj_on (\<lambda>ob. (ob_kind ob, ob_name ob)) (set xs)" using assms(1) by (simp add: distinct_map)
  then have "fold (health_record uc) xs = fold (health_record uc) ys"
    using assms(2) by (intro fold_multiset_equiv) (auto simp: fun_eq_iff dest: inj_onD intro: record_commute)
  then show ?thesis by (simp add: sweepTargetHealth_def case_prod_beta)
qed

subsection \<open>Sweeps do not overlap\<close>

datatype sweepEvent = SwCall int int int | SwDone "observation list"

text \<open>The start times of the sweeps of a run, latest first; a sweep can only end while it runs.\<close>

fun sweep_event :: "targetHealthConfig \<Rightarrow> sweepEvent \<Rightarrow> sweepState \<times> (int \<times> int) list \<Rightarrow> sweepState \<times> (int \<times> int) list" where
  "sweep_event cfg (SwCall t1 now t2) (s, started) =
     (case maybeSweepTargetHealth cfg t1 now t2 s of (b, s1) \<Rightarrow> (s1, if b then (now, t2) # started else started))"
| "sweep_event cfg (SwDone obs) (s, started) = (s\<lparr>sw_sweeping := False\<rparr>, started)"

fun spaced :: "duration \<Rightarrow> (int \<times> int) list \<Rightarrow> bool" where
  "spaced d (x # y # xs) \<longleftrightarrow> d \<le> snd x - fst y \<and> spaced d (y # xs)"
| "spaced d _ \<longleftrightarrow> True"

fun event_clock_ok :: "sweepEvent \<Rightarrow> bool" where
  "event_clock_ok (SwCall t1 now t2) \<longleftrightarrow> 0 < now \<and> now \<le> t2 \<and> t2 \<le> max_int64"
| "event_clock_ok (SwDone obs) \<longleftrightarrow> True"

definition starts_match :: "targetHealthConfig \<Rightarrow> sweepState \<times> (int \<times> int) list \<Rightarrow> bool" where
  "starts_match cfg x = (case x of (s, started) \<Rightarrow> spaced (th_probeInterval cfg) started
     \<and> (case started of [] \<Rightarrow> sw_last s = 0 | y # ys \<Rightarrow> sw_last s = fst y \<and> 0 < fst y \<and> fst y \<le> max_int64))"

lemma elapsed_spaced:
  assumes "targetHealthIntervalElapsed t2 l d" "0 < l" "l \<le> max_int64" "0 < t2" "t2 \<le> max_int64" shows "d \<le> t2 - l"
proof -
  have "wrap64 (t2 - l) = t2 - l" using assms by (intro wrap64_id) (auto simp: in_int64_def max_int64_def min_int64_def)
  then show ?thesis using assms by (auto simp: targetHealthIntervalElapsed_def)
qed

lemma sweep_event_match: "starts_match cfg x \<Longrightarrow> event_clock_ok e \<Longrightarrow> starts_match cfg (sweep_event cfg e x)"
proof (cases e)
  case (SwCall t1 now t2)
  assume a: "starts_match cfg x" "event_clock_ok e"
  obtain s started where x: "x = (s, started)" by fastforce
  show ?thesis
  proof (cases "fst (maybeSweepTargetHealth cfg t1 now t2 s)")
    case True
    then have "targetHealthIntervalElapsed t2 (sw_last s) (th_probeInterval cfg)"
      and "snd (maybeSweepTargetHealth cfg t1 now t2 s) = s\<lparr>sw_sweeping := True, sw_last := now\<rparr>"
      by (auto simp: maybeSweepTargetHealth_def split: if_splits)
    then show ?thesis using a True x SwCall elapsed_spaced [of t2 "sw_last s" "th_probeInterval cfg"]
      by (cases started) (auto simp: starts_match_def case_prod_beta)
  next
    case False
    then have "sw_last (snd (maybeSweepTargetHealth cfg t1 now t2 s)) = sw_last s"
      by (auto simp: maybeSweepTargetHealth_def split: if_splits)
    then show ?thesis using a False x SwCall by (cases started) (auto simp: starts_match_def case_prod_beta)
  qed
next
  case (SwDone obs)
  assume "starts_match cfg x" "event_clock_ok e"
  then show ?thesis using SwDone by (cases x) (auto simp: starts_match_def split: list.splits)
qed

theorem sweeps_are_spaced:
  assumes "list_all event_clock_ok es"
  shows "spaced (th_probeInterval cfg) (snd (fold (sweep_event cfg) es (\<lparr>sw_last = 0, sw_sweeping = False\<rparr>, [])))"
proof -
  have "starts_match cfg (fold (sweep_event cfg) es (\<lparr>sw_last = 0, sw_sweeping = False\<rparr>, []))"
    using assms by (induction es rule: rev_induct) (auto simp: starts_match_def [of _ "(_, [])"] intro: sweep_event_match)
  then show ?thesis by (simp add: starts_match_def case_prod_beta)
qed

theorem target_state_of_history_witness:
  "\<exists>uc ob. ts_state (health_snapshot ''mcp'' ''a'' (fold (health_record uc) [ob, ob] (Some (newTargetHealthTracker 2)))) = TargetUnhealthy"
proof -
  let ?ob = "probe_observation ''mcp'' ''a'' ''http://a'' (False, None) 1 7"
  have "ts_state (health_snapshot ''mcp'' ''a'' (fold (health_record uc) [?ob, ?ob] (Some (newTargetHealthTracker 2)))) = TargetUnhealthy" for uc
    by (subst target_state_of_history) (simp_all add: history_state_def history_of_def probe_observation_def recent_failures_def)
  then show ?thesis by blast
qed

end
