(* ===== verification/QueryStrings.thy ===== *)
theory QueryStrings
  imports GroupAccess GoText "HOL-Library.List_Lexorder" "HOL-Library.Char_ord"
begin

text \<open>
  Query strings: \<open>url.ParseQuery\<close>, \<open>Values.Add\<close> and \<open>Values.Encode\<close> of the standard library as the
  gateway uses them, and the merge of a target's query with a client's (mcp_a2a.go).

  A \<open>Values\<close> is the list of its additions; what the library distinguishes of it is the list of values
  of each key.  Merging keeps every value of both queries, the target's before the client's.
\<close>

subsection \<open>Escaping\<close>

definition is_unreserved :: "char \<Rightarrow> bool" where
  "is_unreserved c \<longleftrightarrow> (let n = (of_char c :: nat) in
     48 \<le> n \<and> n \<le> 57 \<or> 65 \<le> n \<and> n \<le> 90 \<or> 97 \<le> n \<and> n \<le> 122 \<or> n \<in> {45, 46, 95, 126})"

definition upper_hex :: "nat \<Rightarrow> char" where
  "upper_hex n = char_of (if n < 10 then 48 + n else 55 + n)"

definition escape_char :: "char \<Rightarrow> string" where
  "escape_char c =
     (if c = CHR '' '' then ''+''
      else if is_unreserved c then [c]
      else let n = (of_char c :: nat) in [CHR ''%'', upper_hex (n div 16), upper_hex (n mod 16)])"

definition url_QueryEscape :: "string \<Rightarrow> string" where
  "url_QueryEscape s = concat (map escape_char s)"

definition plus_space :: "char \<Rightarrow> char" where
  "plus_space c = (if c = CHR ''+'' then CHR '' '' else c)"

fun url_QueryUnescape :: "string \<Rightarrow> string option" where
  "url_QueryUnescape [] = Some []"
| "url_QueryUnescape (c # s) =
     (if c \<noteq> CHR ''%'' then map_option (\<lambda>t. plus_space c # t) (url_QueryUnescape s)
      else (case s of
              a # b # t \<Rightarrow> (case (unhex a, unhex b) of
                              (Some x, Some y) \<Rightarrow> map_option (\<lambda>r. char_of (16 * x + y) # r) (url_QueryUnescape t)
                            | _ \<Rightarrow> None)
            | _ \<Rightarrow> None))"

lemma unhex_upper_hex: "n < 16 \<Longrightarrow> unhex (upper_hex n) = Some n"
  by (auto simp: unhex_def upper_hex_def)

lemma unescape_escape_char: "url_QueryUnescape (escape_char c @ s) = map_option (\<lambda>t. c # t) (url_QueryUnescape s)"
proof -
  have n: "(of_char c :: nat) < 256" by simp
  then have "(of_char c :: nat) div 16 < 16" by linarith
  moreover have "c \<noteq> CHR ''%'' \<and> c \<noteq> CHR ''+''" if "is_unreserved c" using that by (auto simp: is_unreserved_def)
  ultimately show ?thesis
    by (auto simp: escape_char_def plus_space_def Let_def unhex_upper_hex)
qed

lemma unescape_escape: "url_QueryUnescape (url_QueryEscape s) = Some s"
proof -
  have "url_QueryUnescape (concat (map escape_char s) @ []) = Some s"
    by (induction s) (simp_all add: unescape_escape_char)
  then show ?thesis by (simp add: url_QueryEscape_def)
qed

lemma upper_hex_plain: "n < 16 \<Longrightarrow> upper_hex n \<notin> {CHR ''&'', CHR '';'', CHR ''=''}"
proof
  assume n: "n < 16" and "upper_hex n \<in> {CHR ''&'', CHR '';'', CHR ''=''}"
  then have "(of_char (upper_hex n) :: nat) \<in> {38, 59, 61}" by auto
  then show False using n by (auto simp: upper_hex_def split: if_splits)
qed

lemma escape_plain: "set (url_QueryEscape s) \<inter> {CHR ''&'', CHR '';'', CHR ''=''} = {}"
proof -
  have "set (escape_char c) \<inter> {CHR ''&'', CHR '';'', CHR ''=''} = {}" for c
  proof -
    have "(of_char c :: nat) < 256" by simp
    then have d: "(of_char c :: nat) div 16 < 16" by linarith
    have u: "c \<notin> {CHR ''&'', CHR '';'', CHR ''=''}" if "is_unreserved c" using that by (auto simp: is_unreserved_def)
    show ?thesis
      using upper_hex_plain [OF d] upper_hex_plain [of "of_char c mod 16"] u
      by (simp add: escape_char_def Let_def) (auto simp: eq_commute)
  qed
  then show ?thesis by (auto simp: url_QueryEscape_def)
qed

subsection \<open>Parsing and encoding\<close>

text \<open>The pieces between separators.\<close>

fun split_amp :: "string \<Rightarrow> string list" where
  "split_amp [] = [[]]"
| "split_amp (c # s) = (if c = CHR ''&'' then [] # split_amp s else (case split_amp s of p # ps \<Rightarrow> (c # p) # ps | [] \<Rightarrow> [[c]]))"

text \<open>One piece: \<open>None\<close> is an error, an empty piece adds nothing.\<close>

definition parse_pair :: "string \<Rightarrow> (string \<times> string) list option" where
  "parse_pair piece =
     (if CHR '';'' \<in> set piece then None
      else if piece = [] then Some []
      else let (k, v) = (case strings_Cut CHR ''='' piece of Some kv \<Rightarrow> kv | None \<Rightarrow> (piece, []))
           in (case (url_QueryUnescape k, url_QueryUnescape v) of (Some k', Some v') \<Rightarrow> Some [(k', v')] | _ \<Rightarrow> None))"

fun parse_pieces :: "string list \<Rightarrow> (string \<times> string) list option" where
  "parse_pieces [] = Some []"
| "parse_pieces (p # ps) = (case (parse_pair p, parse_pieces ps) of (Some x, Some xs) \<Rightarrow> Some (x @ xs) | _ \<Rightarrow> None)"

definition url_ParseQuery :: "string \<Rightarrow> (string \<times> string) list option" where
  "url_ParseQuery q = parse_pieces (split_amp q)"

definition values_of :: "(string \<times> string) list \<Rightarrow> string \<Rightarrow> string list" where
  "values_of ps k = map snd (filter (\<lambda>p. fst p = k) ps)"

definition encode_pair :: "string \<times> string \<Rightarrow> string" where
  "encode_pair p = url_QueryEscape (fst p) @ ''='' @ url_QueryEscape (snd p)"

definition values_Encode :: "(string \<times> string) list \<Rightarrow> string" where
  "values_Encode ps =
     strings_Join ''&'' (concat (map (\<lambda>k. map (\<lambda>v. encode_pair (k, v)) (values_of ps k)) (sort (remdups (map fst ps)))))"

definition mergeQueryStrings :: "string \<Rightarrow> string \<Rightarrow> string" where
  "mergeQueryStrings targetQuery requestQuery =
     (if targetQuery = [] then requestQuery
      else if requestQuery = [] then targetQuery
      else (case url_ParseQuery targetQuery of
              None \<Rightarrow> requestQuery
            | Some merged \<Rightarrow>
                (case url_ParseQuery requestQuery of
                   None \<Rightarrow> targetQuery
                 | Some reqValues \<Rightarrow> values_Encode (merged @ reqValues))))"

subsection \<open>Encoding and parsing again\<close>

lemma split_amp_nonempty [simp]: "split_amp s \<noteq> []"
  by (cases s) (auto split: list.splits)

lemma split_amp_plain: "CHR ''&'' \<notin> set p \<Longrightarrow> split_amp p = [p]"
  by (induction p) auto

lemma split_amp_sep: "CHR ''&'' \<notin> set p \<Longrightarrow> split_amp (p @ CHR ''&'' # s) = p # split_amp s"
  by (induction p) auto

lemma split_amp_join: "ps \<noteq> [] \<Longrightarrow> \<forall>p\<in>set ps. CHR ''&'' \<notin> set p \<Longrightarrow> split_amp (strings_Join ''&'' ps) = ps"
proof (induction ps)
  case (Cons p ps)
  then show ?case by (cases ps) (simp_all add: split_amp_plain split_amp_sep)
qed simp

lemma cut_encoded: "CHR ''='' \<notin> set k \<Longrightarrow> strings_Cut CHR ''='' (k @ CHR ''='' # v) = Some (k, v)"
  by (induction k) auto

lemma parse_encoded_pair: "parse_pair (encode_pair p) = Some [p]"
proof -
  have "CHR ''='' \<notin> set (url_QueryEscape (fst p))" using escape_plain [of "fst p"] by auto
  then have "strings_Cut CHR ''='' (encode_pair p) = Some (url_QueryEscape (fst p), url_QueryEscape (snd p))"
    by (simp add: encode_pair_def cut_encoded)
  moreover have "CHR '';'' \<notin> set (encode_pair p)" using escape_plain [of "fst p"] escape_plain [of "snd p"] by (auto simp: encode_pair_def)
  ultimately show ?thesis by (auto simp: parse_pair_def unescape_escape encode_pair_def)
qed

lemma parse_encoded_pieces: "parse_pieces (map encode_pair ps) = Some ps"
  by (induction ps) (simp_all add: parse_encoded_pair)

lemma encode_pair_plain: "CHR ''&'' \<notin> set (encode_pair p)"
  using escape_plain [of "fst p"] escape_plain [of "snd p"] by (auto simp: encode_pair_def)

definition grouped :: "(string \<times> string) list \<Rightarrow> (string \<times> string) list" where
  "grouped ps = concat (map (\<lambda>k. map (Pair k) (values_of ps k)) (sort (remdups (map fst ps))))"

lemma values_Encode_grouped: "values_Encode ps = strings_Join ''&'' (map encode_pair (grouped ps))"
  by (simp add: values_Encode_def grouped_def map_concat comp_def)

lemma parse_encode: "url_ParseQuery (values_Encode ps) = Some (grouped ps)"
proof (cases "grouped ps = []")
  case True
  then show ?thesis by (simp add: values_Encode_grouped url_ParseQuery_def parse_pair_def)
next
  case False
  then have "split_amp (values_Encode ps) = map encode_pair (grouped ps)"
    unfolding values_Encode_grouped by (intro split_amp_join) (auto simp: encode_pair_plain)
  then show ?thesis by (simp add: url_ParseQuery_def parse_encoded_pieces)
qed

lemma values_of_block: "distinct ks \<Longrightarrow>
    values_of (concat (map (\<lambda>k. map (Pair k) (f k)) ks)) k = (if k \<in> set ks then f k else [])"
  by (induction ks) (auto simp: values_of_def filter_map comp_def filter_empty_conv)

lemma values_grouped: "values_of (grouped ps) k = values_of ps k"
proof -
  have "values_of (grouped ps) k = (if k \<in> set (map fst ps) then values_of ps k else [])"
    unfolding grouped_def by (subst values_of_block) simp_all
  then show ?thesis by (auto simp: values_of_def filter_empty_conv)
qed

text \<open>The query an upstream reads from the merge: every value of the target's query, then those of the
  client's.\<close>

theorem merged_query_keeps_both:
  assumes "url_ParseQuery t = Some pt" and "url_ParseQuery r = Some pr"
  shows "\<exists>ps. url_ParseQuery (mergeQueryStrings t r) = Some ps \<and> values_of ps k = values_of pt k @ values_of pr k"
proof -
  have e: "url_ParseQuery [] = Some []" by (simp add: url_ParseQuery_def parse_pair_def)
  consider "t = []" | "t \<noteq> []" "r = []" | "t \<noteq> []" "r \<noteq> []" by blast
  then show ?thesis
  proof cases
    case 3
    then have "mergeQueryStrings t r = values_Encode (pt @ pr)" using assms by (simp add: mergeQueryStrings_def)
    then show ?thesis by (simp add: parse_encode values_grouped) (simp add: values_of_def)
  qed (use assms e in \<open>auto simp: mergeQueryStrings_def values_of_def\<close>)
qed

theorem merged_query_keeps_both_witness:
  "\<exists>ps. url_ParseQuery (mergeQueryStrings ''key=s3cret'' ''key=x&q=a+b'') = Some ps \<and> values_of ps ''key'' = [''s3cret'', ''x'']"
proof -
  have "url_ParseQuery ''key=s3cret'' = Some [(''key'', ''s3cret'')]" "url_ParseQuery ''key=x&q=a+b'' = Some [(''key'', ''x''), (''q'', ''a b'')]"
    by code_simp+
  from merged_query_keeps_both [OF this, of "''key''"] show ?thesis by (simp add: values_of_def)
qed

end
