(* ===== verification/Passthrough.thy ===== *)
theory Passthrough
  imports ProxyParts TargetHealth Unified
begin

text \<open>
  The native passthrough route (routes_passthrough.go): authorization of provider, path and model,
  admission, the price gate, the shared reverse proxy and the accounting of what the upstream
  reported.

  The environment is the upstream connection with all the gateway sees of it, the adapter of a
  provider, the clock, and the JSON decoding of encoding/json.  A response is the list of its chunks and
  the error its copy ends with; \<open>px_stalled\<close> says that the watchdog around the body fired.  The reply is
  what is written to the client; log lines are not part of the state.
\<close>

subsection \<open>Usage of a response\<close>

record passthroughUsagePayload =
  pu_Model :: string
  pu_PromptTokens :: int
  pu_CompletionTokens :: int
  pu_InputTokens :: int
  pu_OutputTokens :: int
  pu_CacheCreationInputTokens :: int
  pu_CacheReadInputTokens :: int
  pu_PromptTokenCount :: int
  pu_CandidatesTokenCount :: int

record messageStart =
  ms_Model :: string
  ms_InputTokens :: int
  ms_OutputTokens :: int
  ms_CacheCreationInputTokens :: int
  ms_CacheReadInputTokens :: int

text \<open>\<open>json.Unmarshal\<close> into the three shapes; the first also gives what was decoded before an error.\<close>

record usageDecoder =
  ud_payload :: "string \<Rightarrow> passthroughUsagePayload \<times> bool"
  ud_start :: "string \<Rightarrow> messageStart option"
  ud_delta :: "string \<Rightarrow> int option"

definition no_usage :: usage where
  "no_usage = \<lparr>us_prompt = 0, us_completion = 0, us_estimated = False\<rparr>"

definition or_unknown :: "string \<Rightarrow> string \<Rightarrow> string" where
  "or_unknown model providerName = (if model = [] then ''unknown/'' @ providerName else model)"

definition extractPassthroughUsage :: "usageDecoder \<Rightarrow> string \<Rightarrow> string \<Rightarrow> string \<Rightarrow> usage \<times> string \<times> bool" where
  "extractPassthroughUsage ud typeName providerName body =
     (case ud_payload ud body of (p, failed) \<Rightarrow>
        (if typeName = ''openai'' then no_usage\<lparr>us_prompt := pu_PromptTokens p, us_completion := pu_CompletionTokens p\<rparr>
         else if typeName = ''anthropic''
         then no_usage\<lparr>us_prompt := wrap64 (pu_InputTokens p + pu_CacheCreationInputTokens p + pu_CacheReadInputTokens p), us_completion := pu_OutputTokens p\<rparr>
         else if typeName = ''gemini'' then no_usage\<lparr>us_prompt := pu_PromptTokenCount p, us_completion := pu_CandidatesTokenCount p\<rparr>
         else no_usage,
         or_unknown (pu_Model p) providerName, failed))"

definition openai_event :: "usageDecoder \<Rightarrow> (usage \<times> string) callback" where
  "openai_event ud ev acc = (None, (case acc of (u, model) \<Rightarrow>
     if se_data ev = ''[DONE]'' then (u, model)
     else (case ud_payload ud (se_data ev) of
             (p, True) \<Rightarrow> (u, model)
           | (p, False) \<Rightarrow>
               (if 0 < pu_PromptTokens p \<or> 0 < pu_CompletionTokens p
                then no_usage\<lparr>us_prompt := pu_PromptTokens p, us_completion := pu_CompletionTokens p\<rparr> else u,
                if pu_Model p \<noteq> [] then pu_Model p else model))))"

definition anthropic_event :: "usageDecoder \<Rightarrow> (usage \<times> string) callback" where
  "anthropic_event ud ev acc = (None, (case acc of (u, model) \<Rightarrow>
     if se_event ev = ''message_start''
     then (case ud_start ud (se_data ev) of
             None \<Rightarrow> (u, model)
           | Some p \<Rightarrow>
               let u1 = u\<lparr>us_prompt := wrap64 (ms_InputTokens p + ms_CacheCreationInputTokens p + ms_CacheReadInputTokens p)\<rparr>
               in (if 0 < ms_OutputTokens p then u1\<lparr>us_completion := ms_OutputTokens p\<rparr> else u1,
                   if ms_Model p \<noteq> [] then ms_Model p else model))
     else if se_event ev = ''message_delta''
     then (case ud_delta ud (se_data ev) of
             None \<Rightarrow> (u, model)
           | Some out \<Rightarrow> (if 0 < out then u\<lparr>us_completion := out\<rparr> else u, model))
     else (u, model)))"

definition parseSSEUsageChunk :: "usageDecoder \<Rightarrow> string \<Rightarrow> string \<Rightarrow> usage \<times> string" where
  "parseSSEUsageChunk ud typeName raw =
     (if typeName = ''openai'' then snd (readSSE [raw] False (openai_event ud) (no_usage, []))
      else if typeName = ''anthropic'' then snd (readSSE [raw] False (anthropic_event ud) (no_usage, []))
      else (no_usage, []))"

definition extractPassthroughSSEUsage :: "usageDecoder \<Rightarrow> string \<Rightarrow> string \<Rightarrow> string \<Rightarrow> string \<Rightarrow> usage \<times> string" where
  "extractPassthroughSSEUsage ud typeName providerName head tail =
     (case (parseSSEUsageChunk ud typeName head, parseSSEUsageChunk ud typeName tail) of
        ((headUsage, headModel), (tailUsage, tailModel)) \<Rightarrow>
          let u1 = (if 0 < us_prompt tailUsage then headUsage\<lparr>us_prompt := us_prompt tailUsage\<rparr> else headUsage);
              u2 = (if 0 < us_completion tailUsage then u1\<lparr>us_completion := us_completion tailUsage\<rparr> else u1)
          in (u2, or_unknown (if tailModel = [] then headModel else tailModel) providerName))"

subsection \<open>Requests, responses and the state\<close>

record proxyRequest =
  pq_method :: string
  pq_headers :: headers
  pq_contentLength :: int
  pq_body :: "(string \<times> bool) option"
  pq_rawQuery :: string

record upstreamRequest =
  up_method :: string
  up_url :: string
  up_headers :: headers
  up_contentLength :: int

record proxyResponse =
  px_response :: httpResponse
  px_headers :: headers
  px_chunks :: "string list"
  px_copyErr :: "go_error option"
  px_stalled :: bool
  px_requestBytes :: int
  px_latency :: latencySample

datatype doResult = DoBuildFailed | DoFailed go_error bool | DoResponse proxyResponse

record 'w proxyEnv =
  pe_do :: "upstreamRequest \<Rightarrow> 'w \<Rightarrow> doResult \<times> 'w"
  pe_now :: "'w \<Rightarrow> gtime"
  pe_base :: "string \<Rightarrow> string"
  pe_injectAuth :: "string \<Rightarrow> headers \<Rightarrow> headers"
  pe_typeName :: "string \<Rightarrow> string"
  pe_tokens :: "string \<Rightarrow> json_token list"
  pe_usage :: usageDecoder
  pe_table :: "string \<rightharpoonup> builtinModelMeta"
  pe_url :: urlCodec

record ('s, 'c, 'w) proxyGateway = "('s, 'c, 'w) gateway" +
  pg_tee :: teeBudget
  pg_learner :: "concurrencyLearner option"
  pg_targets :: "targetHealthTracker option"
  pg_sent :: "upstreamRequest list"

text \<open>What the client gets: an error envelope, a refusal of the limiter, a relayed response with the
  body bytes that reached it, or nothing.\<close>

datatype proxyReply = PxNothing | PxEnvelope int string string | PxLimited limitViolation | PxRelay int headers "string list"

abbreviation refuse :: "int \<Rightarrow> string \<Rightarrow> proxyReply" where
  "refuse status msg \<equiv> PxEnvelope status ''invalid_request_error'' msg"

definition header_get :: "headers \<Rightarrow> string \<Rightarrow> string" where
  "header_get h k = (case h k of Some (v # vs) \<Rightarrow> v | _ \<Rightarrow> [])"

definition proxyMethodAllowed :: "proxyRequest \<Rightarrow> bool" where
  "proxyMethodAllowed rq \<longleftrightarrow> pq_method rq \<noteq> ''CONNECT'' \<and> pq_method rq \<noteq> ''TRACE''"

subsection \<open>Authorization\<close>

definition passthrough_ids :: "modelRegistry \<Rightarrow> string \<Rightarrow> string \<Rightarrow> string list" where
  "passthrough_ids m providerName model =
     (let bareModel = (case splitConfiguredProvider m model of Some (_, rest) \<Rightarrow> rest | None \<Rightarrow> model)
      in [model, bareModel, providerName @ ''/'' @ bareModel])"

definition allowsPassthroughModel :: "modelRegistry \<Rightarrow> group \<Rightarrow> string \<Rightarrow> string \<Rightarrow> bool" where
  "allowsPassthroughModel m grp providerName model = allowsProviderModel grp providerName (passthrough_ids m providerName model)"

definition gateway_allowsPassthroughModelForPath :: "modelRegistry \<Rightarrow> group \<Rightarrow> string \<Rightarrow> string \<Rightarrow> string \<Rightarrow> bool" where
  "gateway_allowsPassthroughModelForPath m grp providerName path model =
     allowsPassthroughModelForPath grp providerName path (passthrough_ids m providerName model)"

definition peek_request :: "'w proxyEnv \<Rightarrow> proxyRequest \<Rightarrow> (string \<times> bool \<times> bool) option" where
  "peek_request env rq = peekPassthroughModel (pe_tokens env) (header_get (pq_headers rq) ''Content-Type'') (pq_body rq)"

definition peekAndValidateModel :: "'w proxyEnv \<Rightarrow> proxyRequest \<Rightarrow> proxyReply + string" where
  "peekAndValidateModel env rq =
     (case peek_request env rq of
        None \<Rightarrow> Inl (refuse 400 ''cannot read request body'')
      | Some (model, found, truncated) \<Rightarrow>
          if truncated then Inl (refuse 403 ''request body exceeds the model-enforcement window; a top-level model field beyond it cannot be safely authorized'')
          else if \<not> found then Inl (refuse 403 ''model could not be determined'')
          else Inr model)"

text \<open>The model check when one is needed; \<open>None\<close> lets the request on.\<close>

definition check_model :: "'w proxyEnv \<Rightarrow> proxyRequest \<Rightarrow> bool \<Rightarrow> (string \<Rightarrow> bool) \<Rightarrow> proxyReply option" where
  "check_model env rq restricted allowed =
     (if \<not> restricted then None
      else (case peekAndValidateModel env rq of
              Inl e \<Rightarrow> Some e
            | Inr model \<Rightarrow> if allowed model then None else Some (refuse 403 ''model access denied'')))"

definition passthrough_authorize :: "'w proxyEnv \<Rightarrow> modelRegistry \<Rightarrow> group \<Rightarrow> string \<Rightarrow> string \<Rightarrow> proxyRequest \<Rightarrow> proxyReply option" where
  "passthrough_authorize env m grp providerName rest rq =
     (if \<not> allowsProvider grp providerName then Some (refuse 403 ''provider access denied'')
      else if 1 < grantCount grp
      then if \<not> allowsPassthroughPathForProvider grp providerName rest then Some (refuse 403 ''path access denied'')
           else check_model env rq (hasModelRestrictionForProviderPath grp providerName rest)
                  (gateway_allowsPassthroughModelForPath m grp providerName rest)
      else (case check_model env rq (hasModelRestriction grp) (allowsPassthroughModel m grp providerName) of
              Some e \<Rightarrow> Some e
            | None \<Rightarrow> if \<not> allowsPassthroughPathForProvider grp providerName rest then Some (refuse 403 ''path access denied'') else None))"

definition passthrough_shape :: "string \<Rightarrow> proxyRequest \<Rightarrow> proxyReply option" where
  "passthrough_shape rest rq =
     (if \<not> proxyMethodAllowed rq then Some (refuse 405 ''method not allowed'')
      else if header_get (pq_headers rq) ''Upgrade'' \<noteq> [] then Some (refuse 501 ''websocket/upgrade passthrough not supported'')
      else if hasTraversalSegment rest then Some (refuse 400 ''invalid path'')
      else None)"

subsection \<open>The reverse proxy\<close>

record proxyResult =
  pr_tee :: "cappedAccountingBuffer option"
  pr_sseTee :: "sseAccountingBuffer option"
  pr_status :: int
  pr_requestBytes :: int
  pr_isJSON :: bool
  pr_isSSE :: bool
  pr_clientCanceled :: bool
  pr_latency :: "latencySample option"

text \<open>\<open>pr_latency\<close> is the sample the latency recorder of the request context is given.\<close>

definition no_result :: proxyResult where
  "no_result = \<lparr>pr_tee = None, pr_sseTee = None, pr_status = 0, pr_requestBytes = 0, pr_isJSON = False, pr_isSSE = False,
     pr_clientCanceled = False, pr_latency = None\<rparr>"

definition tee_chunks :: "string list \<Rightarrow> teeBudget \<Rightarrow> cappedAccountingBuffer \<times> teeBudget" where
  "tee_chunks chunks b = fold (\<lambda>p (c, b). capped_Write p c b) chunks (cappedAccountingBuffer_new, b)"

definition header_mentions :: "headers \<Rightarrow> string \<Rightarrow> bool" where
  "header_mentions h s = strings_Contains (map ascii_lower (header_get h ''Content-Type'')) s"

text \<open>\<open>rec\<close> is the attempt recorder of the request context, the identity when there is none; it runs
  once on the outcome of the call and once more when the watchdog fires.\<close>

definition proxyUpstream :: "'w proxyEnv \<Rightarrow> (outcome \<Rightarrow> ('s, 'c, 'w) proxyGateway \<Rightarrow> ('s, 'c, 'w) proxyGateway) \<Rightarrow> proxyRequest \<Rightarrow> string \<Rightarrow>
    (headers \<Rightarrow> headers) \<Rightarrow> string list \<Rightarrow> bool \<Rightarrow> ('s, 'c, 'w) proxyGateway \<Rightarrow> (proxyResult \<times> bool \<times> proxyReply) \<times> ('s, 'c, 'w) proxyGateway" where
  "proxyUpstream env rec rq upstreamURL injectAuth extraStrip accountJSON g =
     (if maxPassthroughBytes < pq_contentLength rq
      then ((no_result, False, refuse 413 ''request body exceeds the maximum allowed size''), g)
      else
        let req = \<lparr>up_method = pq_method rq, up_url = upstreamURL, up_headers = injectAuth (upstream_headers extraStrip (pq_headers rq)),
                   up_contentLength = pq_contentLength rq\<rparr>
        in case pe_do env req (gw_world g) of
             (DoBuildFailed, w1) \<Rightarrow> ((no_result, False, PxEnvelope 502 ''server_error'' ''upstream connection error''), g\<lparr>gw_world := w1\<rparr>)
           | (DoFailed err tooLarge, w1) \<Rightarrow>
               let g1 = rec (None, Some err) (g\<lparr>gw_world := w1, pg_sent := pg_sent g @ [req]\<rparr>) in
               if errors_Is Canceled err then ((no_result\<lparr>pr_clientCanceled := True\<rparr>, False, PxNothing), g1)
               else if tooLarge then ((no_result, False, refuse 413 ''request body exceeds the maximum allowed size''), g1)
               else ((no_result, False, PxEnvelope 502 ''server_error'' ''upstream connection error''), g1)
           | (DoResponse resp, w1) \<Rightarrow>
               let g1 = rec (Some (px_response resp), None) (g\<lparr>gw_world := w1, pg_sent := pg_sent g @ [req]\<rparr>);
                   isJSON = (accountJSON \<and> header_mentions (px_headers resp) ''application/json'');
                   isSSE = (accountJSON \<and> header_mentions (px_headers resp) ''text/event-stream'');
                   (tee, b1) = (if isJSON then (case tee_chunks (px_chunks resp) (pg_tee g1) of (t, b) \<Rightarrow> (Some t, b)) else (None, pg_tee g1));
                   sseTee = (if \<not> isJSON \<and> isSSE then Some (fold sse_Write (px_chunks resp) sseAccountingBuffer_new) else None);
                   g2 = (if px_stalled resp then rec (None, Some (Sentinel ProviderTimeout)) else id) (g1\<lparr>pg_tee := b1\<rparr>);
                   result = \<lparr>pr_tee = tee, pr_sseTee = sseTee, pr_status = rsp_status (px_response resp),
                             pr_requestBytes = px_requestBytes resp, pr_isJSON = isJSON, pr_isSSE = isSSE,
                             pr_clientCanceled = (case px_copyErr resp of Some e \<Rightarrow> errors_Is Canceled e | None \<Rightarrow> False),
                             pr_latency = Some (px_latency resp)\<rparr>
               in ((result, px_copyErr resp = None, PxRelay (rsp_status (px_response resp)) (response_headers (px_headers resp) Map.empty) (px_chunks resp)), g2))"

definition recordProxyEvent :: "'w proxyEnv \<Rightarrow> limitScope list \<Rightarrow> string \<Rightarrow> string \<Rightarrow> proxyResult \<Rightarrow> ('s, 'c, 'w) proxyGateway \<Rightarrow> ('s, 'c, 'w) proxyGateway" where
  "recordProxyEvent env scopes provider route result g =
     (case proxy_event scopes provider route (pr_status result) (pr_clientCanceled result) of
        None \<Rightarrow> g
      | Some ev \<Rightarrow> let now = pe_now env (gw_world g) in g\<lparr>gw_events := recordEvent now (storeLatched now (gw_limiter g)) ev (gw_events g)\<rparr>)"

subsection \<open>The route\<close>

definition passthrough_recorder :: "'w proxyEnv \<Rightarrow> string \<Rightarrow> outcome \<Rightarrow> ('s, 'c, 'w) proxyGateway \<Rightarrow> ('s, 'c, 'w) proxyGateway" where
  "passthrough_recorder env providerName = (\<lambda>(resp, err) g.
     g\<lparr>gw_limiter := recordProviderAttempt (pe_now env (gw_world g)) providerName [] resp err (gw_limiter g),
       pg_learner := map_option (concurrency_observe providerName resp err) (pg_learner g)\<rparr>)"

text \<open>The price gate: the model to bill when the answer names another one, or the model it refuses.\<close>

definition passthrough_gate :: "'w proxyEnv \<Rightarrow> gatewayConfig \<Rightarrow> limitScope list \<Rightarrow> string \<Rightarrow> proxyRequest \<Rightarrow> string + string" where
  "passthrough_gate env cfg scopes providerName rq =
     (if \<not> gc_AllowUnpricedWithCostBudget cfg \<and> scopesHaveCostBudget scopes
      then (case peek_request env rq of
              Some (model, True, _) \<Rightarrow>
                if \<not> priceKnown (pe_table env) (providerName @ ''/'' @ model) model (gc_Pricing cfg) (gc_ModelMeta cfg) then Inl model else Inr model
            | _ \<Rightarrow> Inr [])
      else Inr [])"

definition passthrough_reported :: "'w proxyEnv \<Rightarrow> string \<Rightarrow> proxyResult \<Rightarrow> usage \<times> string" where
  "passthrough_reported env providerName result =
     (if pr_isJSON result
      then (case pr_tee result of
              Some tee \<Rightarrow>
                if \<not> ca_truncated tee
                then (case extractPassthroughUsage (pe_usage env) (pe_typeName env providerName) providerName (ca_buf tee) of (u, model, _) \<Rightarrow> (u, model))
                else (no_usage, [])
            | None \<Rightarrow> (no_usage, []))
      else (case pr_sseTee result of
              Some b \<Rightarrow> extractPassthroughSSEUsage (pe_usage env) (pe_typeName env providerName) providerName (sa_head b) (tailBytes b)
            | None \<Rightarrow> (no_usage, [])))"

definition passthrough_canEstimate :: "proxyResult \<Rightarrow> bool \<Rightarrow> bool" where
  "passthrough_canEstimate result copied \<longleftrightarrow>
     200 \<le> pr_status result \<and> pr_status result < 300
     \<and> (pr_isSSE result \<or> pr_isJSON result \<and> ((\<exists>t. pr_tee result = Some t \<and> ca_truncated t) \<or> \<not> copied))"

text \<open>The usage to charge and the model it is attributed to, or nothing to account.\<close>

definition passthrough_usage :: "'w proxyEnv \<Rightarrow> string \<Rightarrow> proxyResult \<Rightarrow> bool \<Rightarrow> (usage \<times> string) option" where
  "passthrough_usage env providerName result copied =
     (if pr_status result = 0 \<or> \<not> pr_isJSON result \<and> \<not> pr_isSSE result then None
      else (case passthrough_reported env providerName result of (u, model) \<Rightarrow>
        if usage_total u \<noteq> 0 then Some (u, model)
        else if \<not> passthrough_canEstimate result copied \<or> pr_requestBytes result \<le> 0 then None
        else Some (\<lparr>us_prompt = estimatePromptTokens (pr_requestBytes result), us_completion = 0, us_estimated = True\<rparr>, or_unknown model providerName)))"

definition passthrough_billModel :: "'w proxyEnv \<Rightarrow> gatewayConfig \<Rightarrow> string \<Rightarrow> string \<Rightarrow> string \<Rightarrow> string" where
  "passthrough_billModel env cfg providerName gatedModel respModel =
     (if gatedModel \<noteq> [] \<and> respModel \<noteq> gatedModel
         \<and> \<not> priceKnown (pe_table env) (providerName @ ''/'' @ respModel) respModel (gc_Pricing cfg) (gc_ModelMeta cfg)
      then gatedModel else respModel)"

definition passthrough_account :: "'w proxyEnv \<Rightarrow> gatewayConfig \<Rightarrow> limitScope list \<Rightarrow> string \<Rightarrow> string \<Rightarrow> proxyResult \<Rightarrow> bool \<Rightarrow>
    ('s, 'c, 'w) proxyGateway \<Rightarrow> ('s, 'c, 'w) proxyGateway" where
  "passthrough_account env cfg scopes providerName gatedModel result copied g =
     (case passthrough_usage env providerName result copied of
        None \<Rightarrow> g
      | Some (u, respModel) \<Rightarrow>
          let billModel = passthrough_billModel env cfg providerName gatedModel respModel;
              (cost, w1) = unifiedCostMicros (pe_table env) (providerName @ ''/'' @ billModel) billModel u (gc_Pricing cfg) (gc_ModelMeta cfg) (gw_warn g);
              canonical = (if providerHasModel (gw_registry g) providerName respModel then providerName @ ''/'' @ respModel else []);
              now = pe_now env (gw_world g);
              extras = (blank_extras providerName)\<lparr>ax_noModelHistograms := True,
                 ax_lat := (case pr_latency result of Some l \<Rightarrow> if gc_latency cfg then l else no_latency | None \<Rightarrow> no_latency),
                 ax_hasLat := gc_latency cfg \<and> pr_latency result \<noteq> None\<rparr>
          in g\<lparr>gw_warn := w1, gw_limiter := accountWith now now (withModelScope scopes canonical) u cost extras (gw_limiter g)\<rparr>)"

definition passthrough_proxy :: "'w proxyEnv \<Rightarrow> gatewayConfig \<Rightarrow> limitScope list \<Rightarrow> string \<Rightarrow> string \<Rightarrow> string \<Rightarrow> proxyRequest \<Rightarrow>
    ('s, 'c, 'w) proxyGateway \<Rightarrow> proxyReply \<times> ('s, 'c, 'w) proxyGateway" where
  "passthrough_proxy env cfg scopes providerName rest gatedModel rq g =
     (let upstreamURL = pe_base env providerName @ ''/'' @ rest @ (if pq_rawQuery rq \<noteq> [] then ''?'' @ pq_rawQuery rq else []);
          g1 = g\<lparr>pg_learner := map_option (concurrency_begin providerName) (pg_learner g)\<rparr>
      in case proxyUpstream env (passthrough_recorder env providerName) rq upstreamURL (pe_injectAuth env providerName)
                providerCredentialRetargetHeaders True g1 of
           ((result, copied, reply), g2) \<Rightarrow>
             let g3 = passthrough_account env cfg scopes providerName gatedModel result copied
                        (recordProxyEvent env scopes providerName ''passthrough'' result g2)
             in (reply, g3\<lparr>pg_tee := (case pr_tee result of Some t \<Rightarrow> snd (capped_release t (pg_tee g3)) | None \<Rightarrow> pg_tee g3),
                           pg_learner := map_option (\<lambda>c. snd (concurrency_end providerName False c)) (pg_learner g3)\<rparr>))"

definition handlePassthrough :: "'w proxyEnv \<Rightarrow> gatewayConfig \<Rightarrow> user \<Rightarrow> group \<Rightarrow> string \<Rightarrow> string \<Rightarrow> proxyRequest \<Rightarrow>
    ('s, 'c, 'w) proxyGateway \<Rightarrow> proxyReply \<times> ('s, 'c, 'w) proxyGateway" where
  "handlePassthrough env cfg u grp providerName rest rq g =
     (case passthrough_authorize env (gw_registry g) grp providerName rest rq of Some e \<Rightarrow> (e, g) | None \<Rightarrow>
      (case passthrough_shape rest rq of Some e \<Rightarrow> (e, g) | None \<Rightarrow>
       let scopes = withTotalScope (buildLimitScopes u grp); now = pe_now env (gw_world g) in
       (case checkAndCount now now now scopes (gw_limiter g) of
          (Some v, l1) \<Rightarrow> (PxLimited v, g\<lparr>gw_limiter := l1, gw_events := recordLimitEvent now (storeLatched now l1) scopes ''passthrough'' v (gw_events g)\<rparr>)
        | (None, l1) \<Rightarrow>
            let g1 = g\<lparr>gw_limiter := recordLastSeen now scopes now l1\<rparr> in
            (case passthrough_gate env cfg scopes providerName rq of
               Inl model \<Rightarrow>
                 (case recordUnpricedRefusalEvent now scopes (providerName @ ''/'' @ model) providerName ''passthrough'' (gw_events g1) (gw_limiter g1) of
                    (ev, l2) \<Rightarrow> (refuse 402 (''model has no configured price: '' @ model), g1\<lparr>gw_events := ev, gw_limiter := l2\<rparr>))
             | Inr gatedModel \<Rightarrow> passthrough_proxy env cfg scopes providerName rest gatedModel rq g1))))"

subsection \<open>Only granted requests reach an upstream\<close>

text \<open>Provider, path and model are allowed by one grant: a member group, or the personal grant on a path
  of the first member.\<close>

definition models_granted :: "'w proxyEnv \<Rightarrow> modelRegistry \<Rightarrow> string \<Rightarrow> proxyRequest \<Rightarrow> string list \<Rightarrow> bool" where
  "models_granted env m providerName rq models \<longleftrightarrow>
     models = [] \<or> (\<exists>model. peek_request env rq = Some (model, True, False) \<and> any_model models (passthrough_ids m providerName model))"

definition passthrough_granted :: "'w proxyEnv \<Rightarrow> modelRegistry \<Rightarrow> group \<Rightarrow> string \<Rightarrow> string \<Rightarrow> proxyRequest \<Rightarrow> bool" where
  "passthrough_granted env m grp providerName rest rq \<longleftrightarrow>
     (\<exists>mem\<in>set (memberScopeGroups grp). allowsProvider mem providerName \<and> allowsPassthroughPath mem rest
        \<and> models_granted env m providerName rq (gr_models mem))
     \<or> (\<exists>pg base ms. gr_personalGrant grp = Some pg \<and> gr_memberGroups grp = Some (base # ms)
        \<and> matchesGlob (gt_providers pg) providerName \<and> allowsPassthroughPath base rest \<and> models_granted env m providerName rq (gt_models pg))"

lemma check_model_ok:
  "check_model env rq restricted allowed = None \<Longrightarrow>
     \<not> restricted \<or> (\<exists>model. peek_request env rq = Some (model, True, False) \<and> allowed model)"
  by (auto simp: check_model_def peekAndValidateModel_def split: if_splits sum.splits option.splits prod.splits)

lemma path_personal_Some: "path_personal grp p rest = Some pg \<longleftrightarrow>
    gr_personalGrant grp = Some pg \<and> matchesGlob (gt_providers pg) p \<and> (\<exists>base ms. gr_memberGroups grp = Some (base # ms) \<and> allowsPassthroughPath base rest)"
  by (auto simp: path_personal_def personalGrantAllowsPath_def split: option.splits list.splits)

lemma granted_iff: "passthrough_granted env m grp p rest rq \<longleftrightarrow>
    (\<exists>mem\<in>set (path_members grp p rest). models_granted env m p rq (gr_models mem))
    \<or> (\<exists>pg. path_personal grp p rest = Some pg \<and> models_granted env m p rq (gt_models pg))"
  by (auto simp: passthrough_granted_def path_members_def path_personal_Some)

lemma authorized_multi:
  assumes "allowsPassthroughPathForProvider grp p rest"
    and "check_model env rq (hasModelRestrictionForProviderPath grp p rest) (gateway_allowsPassthroughModelForPath m grp p rest) = None"
  shows "passthrough_granted env m grp p rest rq"
  using check_model_ok [OF assms(2)]
proof
  assume "\<not> hasModelRestrictionForProviderPath grp p rest"
  then show ?thesis
    by (auto simp: granted_iff hasModelRestrictionForProviderPath_def models_granted_def split: option.splits)
next
  assume "\<exists>model. peek_request env rq = Some (model, True, False) \<and> gateway_allowsPassthroughModelForPath m grp p rest model"
  then show ?thesis
    by (auto simp: granted_iff gateway_allowsPassthroughModelForPath_def allowsPassthroughModelForPath_def models_granted_def split: option.splits)
qed

lemma authorized_single:
  assumes "access_group grp" and "grantCount grp \<le> 1" and "allowsPassthroughPathForProvider grp p rest"
    and "check_model env rq (hasModelRestriction grp) (allowsPassthroughModel m grp p) = None"
  shows "passthrough_granted env m grp p rest rq"
proof -
  have ng: "gr_grants grp = None" by (rule access_group_single_grant [OF assms(1,2)])
  then have plain: "plain_group grp"
    using assms(1) by (auto simp: access_group_def effectiveGroup_def Let_def split: if_splits)
  then have "path_members grp p rest = [grp]" "path_personal grp p rest = None"
    using assms(3) by (auto simp: allowsPassthroughPathForProvider_def path_members_def path_personal_def memberScopeGroups_def plain_group_def split: if_splits)
  then show ?thesis using check_model_ok [OF assms(4)] ng
    by (auto simp: granted_iff models_granted_def hasModelRestriction_def allowsPassthroughModel_def allowsProviderModel_def)
qed

lemma authorized_granted:
  assumes "access_group grp" and "passthrough_authorize env m grp p rest rq = None"
  shows "passthrough_granted env m grp p rest rq"
proof (cases "1 < grantCount grp")
  case True
  then show ?thesis using assms(2) by (intro authorized_multi) (auto simp: passthrough_authorize_def split: if_splits)
next
  case False
  then show ?thesis using assms
    by (intro authorized_single) (auto simp: passthrough_authorize_def split: if_splits option.splits)
qed

lemma recorder_sent [simp]: "pg_sent (passthrough_recorder env p x g) = pg_sent g"
  by (cases x) (simp add: passthrough_recorder_def)

lemma recordProxyEvent_sent [simp]: "pg_sent (recordProxyEvent env scopes p route result g) = pg_sent g"
  by (auto simp: recordProxyEvent_def Let_def split: option.splits)

lemma account_sent [simp]: "pg_sent (passthrough_account env cfg scopes p gm result c g) = pg_sent g"
  by (auto simp: passthrough_account_def Let_def split: option.splits prod.splits)

text \<open>What the reverse proxy sends: at most one request, with the filtered headers.\<close>

lemma proxyUpstream_sends:
  assumes "\<And>x g. pg_sent (rec x g) = pg_sent g"
    and "proxyUpstream env rec rq u inject extra acct g = (out, g')"
  shows "pg_sent g' = pg_sent g
    \<or> pg_sent g' = pg_sent g @ [\<lparr>up_method = pq_method rq, up_url = u, up_headers = inject (upstream_headers extra (pq_headers rq)),
                                 up_contentLength = pq_contentLength rq\<rparr>] \<and> pq_contentLength rq \<le> maxPassthroughBytes"
  using assms(2) by (auto simp: proxyUpstream_def Let_def assms(1) split: if_splits doResult.splits prod.splits)

lemma passthrough_proxy_sends:
  assumes "passthrough_proxy env cfg scopes p rest gm rq g = (r, g')"
  shows "pg_sent g' = pg_sent g
    \<or> pg_sent g' = pg_sent g @ [\<lparr>up_method = pq_method rq,
          up_url = pe_base env p @ ''/'' @ rest @ (if pq_rawQuery rq \<noteq> [] then ''?'' @ pq_rawQuery rq else []),
          up_headers = pe_injectAuth env p (upstream_headers providerCredentialRetargetHeaders (pq_headers rq)),
          up_contentLength = pq_contentLength rq\<rparr>] \<and> pq_contentLength rq \<le> maxPassthroughBytes"
proof -
  let ?url = "pe_base env p @ ''/'' @ rest @ (if pq_rawQuery rq \<noteq> [] then ''?'' @ pq_rawQuery rq else [])"
  let ?g1 = "g\<lparr>pg_learner := map_option (concurrency_begin p) (pg_learner g)\<rparr>"
  obtain out g2 where o: "proxyUpstream env (passthrough_recorder env p) rq ?url (pe_injectAuth env p) providerCredentialRetargetHeaders True ?g1 = (out, g2)"
    by fastforce
  have "pg_sent g' = pg_sent g2"
    using assms o by (auto simp: passthrough_proxy_def Let_def split: prod.splits)
  then show ?thesis using proxyUpstream_sends [OF recorder_sent o] by simp
qed

lemma passthrough_sends_granted:
  assumes "access_group grp" and "handlePassthrough env cfg u grp p rest rq g = (r, g')" and "pg_sent g' \<noteq> pg_sent g"
  shows "\<exists>q. pg_sent g' = pg_sent g @ [q]
    \<and> up_url q = pe_base env p @ ''/'' @ rest @ (if pq_rawQuery rq \<noteq> [] then ''?'' @ pq_rawQuery rq else [])
    \<and> up_headers q = pe_injectAuth env p (upstream_headers providerCredentialRetargetHeaders (pq_headers rq))
    \<and> passthrough_granted env (gw_registry g) grp p rest rq
    \<and> pq_method rq \<noteq> ''CONNECT'' \<and> pq_method rq \<noteq> ''TRACE'' \<and> \<not> hasTraversalSegment rest \<and> pq_contentLength rq \<le> maxPassthroughBytes
    \<and> fst (checkAndCount (pe_now env (gw_world g)) (pe_now env (gw_world g)) (pe_now env (gw_world g))
             (withTotalScope (buildLimitScopes u grp)) (gw_limiter g)) = None
    \<and> (\<exists>gated. passthrough_gate env cfg (withTotalScope (buildLimitScopes u grp)) p rq = Inr gated)"
proof -
  let ?now = "pe_now env (gw_world g)" and ?scopes = "withTotalScope (buildLimitScopes u grp)"
  obtain v l1 where c: "checkAndCount ?now ?now ?now ?scopes (gw_limiter g) = (v, l1)" by fastforce
  have a: "passthrough_authorize env (gw_registry g) grp p rest rq = None" and s: "passthrough_shape rest rq = None"
    using assms(2,3) by (auto simp: handlePassthrough_def split: option.splits)
  have v: "v = None" using assms(2,3) c a s by (cases v) (auto simp: handlePassthrough_def Let_def)
  obtain gated where gt: "passthrough_gate env cfg ?scopes p rq = Inr gated"
    using assms(2,3) c a s v by (cases "passthrough_gate env cfg ?scopes p rq") (auto simp: handlePassthrough_def Let_def split: prod.splits)
  have "passthrough_proxy env cfg ?scopes p rest gated rq (g\<lparr>gw_limiter := recordLastSeen ?now ?scopes ?now l1\<rparr>) = (r, g')"
    using assms(2) c a s v gt by (simp add: handlePassthrough_def Let_def)
  note sent = passthrough_proxy_sends [OF this]
  show ?thesis using sent assms(3) authorized_granted [OF assms(1) a] s c v gt
    by (auto simp: passthrough_shape_def proxyMethodAllowed_def split: if_splits)
qed

theorem passthrough_contacts_only_granted:
  assumes "access_group grp" and "handlePassthrough env cfg u grp p rest rq g = (r, g')" and "pg_sent g' \<noteq> pg_sent g"
  shows "\<exists>q. pg_sent g' = pg_sent g @ [q]
    \<and> up_url q = pe_base env p @ ''/'' @ rest @ (if pq_rawQuery rq \<noteq> [] then ''?'' @ pq_rawQuery rq else [])
    \<and> up_headers q = pe_injectAuth env p (upstream_headers providerCredentialRetargetHeaders (pq_headers rq))
    \<and> passthrough_granted env (gw_registry g) grp p rest rq
    \<and> pq_method rq \<noteq> ''CONNECT'' \<and> pq_method rq \<noteq> ''TRACE'' \<and> \<not> hasTraversalSegment rest \<and> pq_contentLength rq \<le> maxPassthroughBytes
    \<and> fst (checkAndCount (pe_now env (gw_world g)) (pe_now env (gw_world g)) (pe_now env (gw_world g))
             (withTotalScope (buildLimitScopes u grp)) (gw_limiter g)) = None
    \<and> (\<exists>gated. passthrough_gate env cfg (withTotalScope (buildLimitScopes u grp)) p rq = Inr gated)"
  using assms by (rule passthrough_sends_granted)

subsection \<open>The price of an answer\<close>

text \<open>Once the gate has let a priced model pass, the request is billed at a known price, whatever model
  the upstream names in its answer.\<close>


subsection \<open>Every reservation is returned\<close>

abbreviation in_flight :: "string \<Rightarrow> ('s, 'c, 'w) proxyGateway \<Rightarrow> int option" where
  "in_flight p g \<equiv> map_option (\<lambda>c. pc_inFlight (learner_state c p)) (pg_learner g)"

lemma learner_put [simp]: "learner_state (put_state p s c) q = (if q = p then s else learner_state c q)"
  by (simp add: learner_state_def)

lemma observe_in_flight [simp]: "pc_inFlight (learner_state (concurrency_observe p resp err c) q) = pc_inFlight (learner_state c q)"
  by (auto simp: concurrency_observe_def on_overload_def on_success_def Let_def split: prod.splits)

lemma begin_in_flight [simp]: "pc_inFlight (learner_state (concurrency_begin p c) q) = pc_inFlight (learner_state c q) + (if q = p then 1 else 0)"
  by (simp add: concurrency_begin_def Let_def)

lemma end_in_flight [simp]:
  "pc_inFlight (learner_state (snd (concurrency_end p False c)) q) = pc_inFlight (learner_state c q) - (if q = p then 1 else 0)"
  by (simp add: concurrency_end_def Let_def)

lemma recorder_resources [simp]: "pg_tee (passthrough_recorder env p x g) = pg_tee g" "in_flight q (passthrough_recorder env p x g) = in_flight q g"
  by (cases x; simp add: passthrough_recorder_def option.map_comp comp_def)+

lemma event_resources [simp]: "pg_tee (recordProxyEvent env scopes p route result g) = pg_tee g" "pg_learner (recordProxyEvent env scopes p route result g) = pg_learner g"
  by (auto simp: recordProxyEvent_def Let_def split: option.splits)

lemma account_resources [simp]: "pg_tee (passthrough_account env cfg scopes p gm result c g) = pg_tee g"
    "pg_learner (passthrough_account env cfg scopes p gm result c g) = pg_learner g"
  by (auto simp: passthrough_account_def Let_def split: option.splits prod.splits)

lemma capped_Write_reserves:
  "capped_Write x c b = (c', b') \<Longrightarrow> tb_used b' - ca_reserved c' = tb_used b - ca_reserved c \<and> tb_limit b' = tb_limit b"
  by (auto simp: capped_Write_def tee_reserve_def Let_def split: if_splits)

lemma tee_chunks_reserve: "tee_chunks chunks b = (c, b') \<Longrightarrow> tb_used b' = tb_used b + ca_reserved c \<and> tb_limit b' = tb_limit b"
proof (induction chunks arbitrary: c b' rule: rev_induct)
  case Nil
  then show ?case by (auto simp: tee_chunks_def cappedAccountingBuffer_new_def)
next
  case (snoc x xs)
  obtain c1 b1 where t: "tee_chunks xs b = (c1, b1)" by fastforce
  then have "capped_Write x c1 b1 = (c, b')" using snoc.prems by (simp add: tee_chunks_def)
  then show ?case using snoc.IH [OF t] capped_Write_reserves by fastforce
qed

lemma released_budget: "tee_chunks chunks b = (c, b') \<Longrightarrow> snd (capped_release c b') = b"
  using tee_chunks_reserve [of chunks b c b'] by (auto simp: capped_release_def tee_free_def)

lemma proxyUpstream_resources:
  assumes "\<And>x g. pg_tee (rec x g) = pg_tee g" and "\<And>x g. in_flight q (rec x g) = in_flight q g"
    and "proxyUpstream env rec rq u inject extra acct g = ((result, finished, reply), g')"
  shows "(case pr_tee result of Some t \<Rightarrow> snd (capped_release t (pg_tee g')) | None \<Rightarrow> pg_tee g') = pg_tee g" and "in_flight q g' = in_flight q g"
proof -
  show "in_flight q g' = in_flight q g"
    using assms(3) by (auto simp: proxyUpstream_def Let_def assms(2) no_result_def split: if_splits doResult.splits prod.splits)
  show "(case pr_tee result of Some t \<Rightarrow> snd (capped_release t (pg_tee g')) | None \<Rightarrow> pg_tee g') = pg_tee g"
    using assms(3) by (auto simp: proxyUpstream_def Let_def assms(1) no_result_def dest!: released_budget cong: option.case_cong split: if_splits doResult.splits prod.splits)
qed

text \<open>C7: However a passthrough request ends, the shared tee budget and the in-flight counts of
  the concurrency learner are what they were before it.\<close>

theorem passthrough_returns_resources:
  "pg_tee (snd (handlePassthrough env cfg u grp p rest rq g)) = pg_tee g
   \<and> in_flight q (snd (handlePassthrough env cfg u grp p rest rq g)) = in_flight q g"
proof -
  have px: "pg_tee (snd (passthrough_proxy env cfg scopes p rest gm rq g1)) = pg_tee g1
      \<and> in_flight q (snd (passthrough_proxy env cfg scopes p rest gm rq g1)) = in_flight q g1" for scopes gm g1
  proof -
    let ?url = "pe_base env p @ ''/'' @ rest @ (if pq_rawQuery rq \<noteq> [] then ''?'' @ pq_rawQuery rq else [])"
    let ?g = "g1\<lparr>pg_learner := map_option (concurrency_begin p) (pg_learner g1)\<rparr>"
    obtain result finished reply g2 where o: "proxyUpstream env (passthrough_recorder env p) rq ?url (pe_injectAuth env p)
        providerCredentialRetargetHeaders True ?g = ((result, finished, reply), g2)" by (metis prod_cases3 surj_pair)
    note r = proxyUpstream_resources [OF recorder_resources(1) recorder_resources(2) [where q = q] o]
    have "in_flight q g2 = map_option (\<lambda>n. n + (if q = p then 1 else 0)) (in_flight q g1)"
      using r(2) by (simp add: option.map_comp comp_def)
    then have "map_option (\<lambda>c. pc_inFlight (learner_state (snd (concurrency_end p False c)) q)) (pg_learner g2) = in_flight q g1"
      by (cases "pg_learner g1"; cases "pg_learner g2") auto
    then show ?thesis using r(1)
      unfolding passthrough_proxy_def Let_def o by (simp add: option.map_comp comp_def cong: option.case_cong)
  qed
  show ?thesis
    by (auto simp: handlePassthrough_def Let_def px split: option.splits sum.splits prod.splits)
qed

subsection \<open>A request that passes\<close>

definition sample_proxy_env :: "nat proxyEnv" where
  "sample_proxy_env = \<lparr>pe_do = (\<lambda>q w. (DoFailed (Sentinel Canceled) False, w + 1)), pe_now = (\<lambda>w. 0), pe_base = (\<lambda>p. ''https://'' @ p),
     pe_injectAuth = (\<lambda>p h. h(''Authorization'' \<mapsto> [''Bearer s3cret''])), pe_typeName = (\<lambda>p. ''openai''), pe_tokens = (\<lambda>b. []),
     pe_usage = \<lparr>ud_payload = (\<lambda>b. (\<lparr>pu_Model = [], pu_PromptTokens = 0, pu_CompletionTokens = 0, pu_InputTokens = 0, pu_OutputTokens = 0,
       pu_CacheCreationInputTokens = 0, pu_CacheReadInputTokens = 0, pu_PromptTokenCount = 0, pu_CandidatesTokenCount = 0\<rparr>, True)),
       ud_start = (\<lambda>b. None), ud_delta = (\<lambda>b. None)\<rparr>,
     pe_table = Map.empty, pe_url = \<lparr>uc_parse = (\<lambda>s. None), uc_string = url_base, uc_userinfo = fst\<rparr>\<rparr>"

definition sample_proxy_gateway :: "(unit, unit, nat) proxyGateway" where
  "sample_proxy_gateway = gateway.extend sample_gateway
     \<lparr>pg_tee = newTeeBudget 1000, pg_learner = Some (newConcurrencyLearner 0), pg_targets = None, pg_sent = []\<rparr>"

definition sample_proxy_request :: proxyRequest where
  "sample_proxy_request = \<lparr>pq_method = ''POST'', pq_headers = Map.empty(''Cookie'' \<mapsto> [''id=1'']), pq_contentLength = 0, pq_body = None, pq_rawQuery = []\<rparr>"

lemma sample_proxy_fields: "pg_sent sample_proxy_gateway = []" "gw_world sample_proxy_gateway = 0" "gw_limiter sample_proxy_gateway = newLimiter None False"
    "pe_now sample_proxy_env w = 0" "gw_registry sample_proxy_gateway = sample_refreshed"
  by (simp_all add: sample_proxy_gateway_def gateway.defs sample_gateway_def sample_proxy_env_def)

lemma sample_passthrough_sent:
  "pg_sent (snd (handlePassthrough sample_proxy_env sample_cfg sample_user local_only ''local'' ''v1/models'' sample_proxy_request sample_proxy_gateway)) \<noteq> []"
proof -
  obtain l1 where c: "checkAndCount 0 0 0 (withTotalScope (buildLimitScopes sample_user local_only)) (newLimiter None False :: unit limiter) = (None, l1)"
    using sample_admitted by (metis prod.collapse)
  have b: "\<not> scopesHaveCostBudget (withTotalScope (buildLimitScopes sample_user local_only))"
    by (simp add: sample_scopes scopesHaveCostBudget_def)
  have a: "passthrough_authorize sample_proxy_env m local_only ''local'' ''v1/models'' sample_proxy_request = None" for m
    by (simp add: passthrough_authorize_def local_only_def sample_group_def grantCount_def allowsProvider_def matchesGlob_literal glob_meta_def
        hasModelRestriction_def check_model_def allowsPassthroughPathForProvider_def path_members_def memberScopeGroups_def allowsPassthroughPath_def)
  have s: "passthrough_shape ''v1/models'' sample_proxy_request = None"
    by (simp add: passthrough_shape_def sample_proxy_request_def proxyMethodAllowed_def header_get_def, code_simp)
  have g: "passthrough_gate sample_proxy_env sample_cfg (withTotalScope (buildLimitScopes sample_user local_only)) ''local'' sample_proxy_request = Inr []"
    using b by (simp add: passthrough_gate_def)
  have "pg_sent (snd (passthrough_proxy sample_proxy_env sample_cfg scopes p rest gm sample_proxy_request g1)) \<noteq> []" for scopes p rest gm and g1 :: "(unit, unit, nat) proxyGateway"
    by (simp add: passthrough_proxy_def Let_def proxyUpstream_def sample_proxy_request_def sample_proxy_env_def maxPassthroughBytes_def)
  then show ?thesis using c by (simp add: handlePassthrough_def a s g Let_def sample_proxy_fields)
qed

theorem passthrough_contacts_only_granted_witness:
  "\<exists>q. pg_sent (snd (handlePassthrough sample_proxy_env sample_cfg sample_user local_only ''local'' ''v1/models'' sample_proxy_request sample_proxy_gateway)) = [q]
     \<and> up_url q = ''https://local/v1/models'' \<and> up_headers q ''Cookie'' = None"
proof -
  let ?out = "handlePassthrough sample_proxy_env sample_cfg sample_user local_only ''local'' ''v1/models'' sample_proxy_request sample_proxy_gateway"
  from passthrough_contacts_only_granted [OF local_only_access prod.collapse [symmetric, of ?out]] sample_passthrough_sent
  obtain q where "pg_sent (snd ?out) = [q]" "up_url q = ''https://local/v1/models''"
    "up_headers q = (upstream_headers providerCredentialRetargetHeaders (pq_headers sample_proxy_request))(''Authorization'' \<mapsto> [''Bearer s3cret''])"
    by (fastforce simp: sample_proxy_fields sample_proxy_env_def sample_proxy_request_def)
  moreover have "upstream_headers providerCredentialRetargetHeaders (pq_headers sample_proxy_request) ''Cookie'' = None"
    by (simp add: upstream_headers_def stripHeaderPrefixes_def copyHeadersExcept_def dangerousClientHeaders_def)
  ultimately show ?thesis by (intro exI [of _ q]) simp
qed


end
