(* ===== verification/TargetProxy.thy ===== *)
theory TargetProxy
  imports Passthrough QueryStrings
begin

text \<open>
  MCP servers and A2A agents behind the gateway (mcp_a2a.go): their configuration, the listings a
  caller sees, the route to a target, and the proxy handler.

  The parts of a URL that \<open>url.Parse\<close>, \<open>JoinPath\<close> and \<open>String\<close> compute are a parameter.
\<close>

subsection \<open>Configuration\<close>

definition targetKindMCP :: string where "targetKindMCP = ''mcp''"
definition targetKindAgent :: string where "targetKindAgent = ''a2a''"
definition scopeKindAgent :: string where "scopeKindAgent = ''agent''"

definition targetScopeKind :: "string \<Rightarrow> string" where
  "targetScopeKind kind = (if kind = targetKindAgent then scopeKindAgent else kind)"

record AgentConfig =
  ac_URL :: string
  ac_Card :: string

record targetsConfig =
  tg_MCPServers :: "(string, string option) gomap"
  tg_Agents :: "(string, AgentConfig option) gomap"

definition configNamePattern :: "string \<Rightarrow> bool" where
  "configNamePattern s \<longleftrightarrow> s \<noteq> [] \<and> list_all (\<lambda>c. let n = (of_char c :: nat) in
     97 \<le> n \<and> n \<le> 122 \<or> 65 \<le> n \<and> n \<le> 90 \<or> 48 \<le> n \<and> n \<le> 57 \<or> n \<in> {46, 95, 45}) s"

definition reservedConfigNames :: "string list" where "reservedConfigNames = [''v1'', ''mcp'', ''a2a'', ''admin'']"
definition dotOnlyConfigNames :: "string list" where "dotOnlyConfigNames = [''.'', ''..'']"

datatype configNameError = NamePattern string | NameDots string | NameReserved string

definition validateConfigName :: "string \<Rightarrow> configNameError option" where
  "validateConfigName name =
     (if \<not> configNamePattern name then Some (NamePattern name)
      else if name \<in> set dotOnlyConfigNames then Some (NameDots name)
      else if name \<in> set reservedConfigNames then Some (NameReserved name)
      else None)"

datatype targetError = TargetNil string | TargetName configNameError | TargetURL string | TargetScheme string string | AgentCard string string

text \<open>\<open>url_scheme\<close> is the scheme \<open>url.Parse\<close> finds, or its failure.\<close>

definition validateTargetURL :: "(string \<Rightarrow> string option) \<Rightarrow> string \<Rightarrow> targetError option" where
  "validateTargetURL url_scheme raw =
     (case url_scheme raw of
        None \<Rightarrow> Some (TargetURL raw)
      | Some sch \<Rightarrow> if sch \<noteq> ''http'' \<and> sch \<noteq> ''https'' then Some (TargetScheme raw sch) else None)"

definition check_server :: "(string \<Rightarrow> string option) \<Rightarrow> string \<times> string option \<Rightarrow> targetError option" where
  "check_server url_scheme = (\<lambda>(name, tc).
     case tc of
       None \<Rightarrow> Some (TargetNil name)
     | Some url \<Rightarrow> (case validateConfigName name of Some e \<Rightarrow> Some (TargetName e) | None \<Rightarrow> validateTargetURL url_scheme url))"

definition check_agent :: "(string \<Rightarrow> string option) \<Rightarrow> string \<times> AgentConfig option \<Rightarrow> targetError option" where
  "check_agent url_scheme = (\<lambda>(name, ac).
     case ac of
       None \<Rightarrow> Some (TargetNil name)
     | Some a \<Rightarrow>
         (case validateConfigName name of Some e \<Rightarrow> Some (TargetName e)
          | None \<Rightarrow> (case validateTargetURL url_scheme (ac_URL a) of Some e \<Rightarrow> Some e
             | None \<Rightarrow> if ac_Card a \<noteq> [] \<and> \<not> strings_HasPrefix (ac_Card a) ''/'' then Some (AgentCard name (ac_Card a)) else None)))"

definition validateTargetURLs :: "(string \<Rightarrow> string option) \<Rightarrow> targetsConfig \<Rightarrow> targetError option" where
  "validateTargetURLs url_scheme cfg =
     (case first_some (check_server url_scheme) (tg_MCPServers cfg) of
        Some e \<Rightarrow> Some e
      | None \<Rightarrow> first_some (check_agent url_scheme) (tg_Agents cfg))"

subsection \<open>Listings\<close>

record mcpServerListing =
  ml_Name :: string
  ml_URL :: string

record agentListing =
  al_Name :: string
  al_URL :: string
  al_Card :: string

definition handleMCPServers :: "targetsConfig \<Rightarrow> group \<Rightarrow> mcpServerListing list" where
  "handleMCPServers cfg grp =
     map (\<lambda>name. \<lparr>ml_Name = name, ml_URL = ''/mcp/'' @ name\<rparr>) (sort (filter (allowsMCP grp) (map fst (tg_MCPServers cfg))))"

definition agent_card :: "targetsConfig \<Rightarrow> string \<Rightarrow> string" where
  "agent_card cfg name = (case map_of (tg_Agents cfg) name of Some (Some a) \<Rightarrow> if ac_Card a = [] then defaultAgentCardPath else ac_Card a | _ \<Rightarrow> defaultAgentCardPath)"

definition handleAgents :: "targetsConfig \<Rightarrow> group \<Rightarrow> agentListing list" where
  "handleAgents cfg grp =
     map (\<lambda>name. \<lparr>al_Name = name, al_URL = ''/a2a/'' @ name, al_Card = ''/a2a/'' @ name @ agent_card cfg name\<rparr>)
       (sort (filter (allowsAgent grp) (map fst (tg_Agents cfg))))"

subsection \<open>The route\<close>

definition targetRoute :: "string \<Rightarrow> string \<Rightarrow> (string \<times> string) option" where
  "targetRoute path prefix =
     (case passthroughRoute path of
        None \<Rightarrow> None
      | Some (first, remainder) \<Rightarrow> if first \<noteq> prefix then None else passthroughRoute (''/'' @ remainder))"

text \<open>The URL of a target and whether the group may use it; \<open>None\<close> for an unknown target.\<close>

definition resolveTarget :: "targetsConfig \<Rightarrow> string \<Rightarrow> string \<Rightarrow> group \<Rightarrow> (string \<times> bool) option" where
  "resolveTarget cfg kind name grp =
     (if kind = targetKindMCP then (case map_of (tg_MCPServers cfg) name of Some (Some url) \<Rightarrow> Some (url, allowsMCP grp name) | _ \<Rightarrow> None)
      else if kind = targetKindAgent then (case map_of (tg_Agents cfg) name of Some (Some a) \<Rightarrow> Some (ac_URL a, allowsAgent grp name) | _ \<Rightarrow> None)
      else None)"

record urlJoin =
  uj_parse :: "string \<Rightarrow> (string \<times> string) option"
  uj_join :: "string \<Rightarrow> string \<Rightarrow> string"
  uj_string :: "string \<Rightarrow> string \<Rightarrow> string"

text \<open>A parsed URL is what precedes its query, and its query.\<close>

definition buildUpstreamTargetURL :: "urlJoin \<Rightarrow> string \<Rightarrow> string \<Rightarrow> string \<Rightarrow> string option" where
  "buildUpstreamTargetURL uj targetURL rest requestRawQuery =
     (case uj_parse uj targetURL of
        None \<Rightarrow> None
      | Some (base, query) \<Rightarrow>
          let joined = (if rest \<noteq> [] then uj_join uj base rest else base)
          in Some (uj_string uj joined (mergeQueryStrings query requestRawQuery)))"

definition handleTargetProxy :: "'w proxyEnv \<Rightarrow> urlJoin \<Rightarrow> targetsConfig \<Rightarrow> user \<Rightarrow> group \<Rightarrow> string \<Rightarrow> string \<Rightarrow> string \<Rightarrow> proxyRequest \<Rightarrow>
    ('s, 'c, 'w) proxyGateway \<Rightarrow> proxyReply \<times> ('s, 'c, 'w) proxyGateway" where
  "handleTargetProxy env uj cfg u grp kind name rest rq g =
     (case resolveTarget cfg kind name grp of
        None \<Rightarrow> (refuse 404 (''unknown '' @ kind @ '' target''), g)
      | Some (targetURL, allowed) \<Rightarrow>
          if \<not> allowed then (refuse 403 (kind @ '' access denied''), g)
          else (case passthrough_shape rest rq of Some e \<Rightarrow> (e, g) | None \<Rightarrow>
            let scopes = withTotalScope (buildLimitScopes u grp); now = pe_now env (gw_world g) in
            (case checkAndCount now now now scopes (gw_limiter g) of
               (Some v, l1) \<Rightarrow> (PxLimited v, g\<lparr>gw_limiter := l1, gw_events := recordLimitEvent now (storeLatched now l1) scopes kind v (gw_events g)\<rparr>)
             | (None, l1) \<Rightarrow>
                 let l2 = countTargetRequestBy now now (us_name u) (targetScopeKind kind) name (recordLastSeen now scopes now l1);
                     g1 = g\<lparr>gw_limiter := l2\<rparr>
                 in (case buildUpstreamTargetURL uj targetURL rest (pq_rawQuery rq) of
                       None \<Rightarrow> (refuse 500 ''invalid target configuration'', g1)
                     | Some upstreamURL \<Rightarrow>
                         (case proxyUpstream env (\<lambda>x. id) rq upstreamURL id [] False g1 of
                            ((result, ok, reply), g2) \<Rightarrow>
                              let t = pe_now env (gw_world g2);
                                  g3 = g2\<lparr>pg_targets := recordTargetProxyHealth (pe_url env) t kind name targetURL (pr_status result)
                                             (pr_clientCanceled result) ok (t - now) (pg_targets g2)\<rparr>
                              in (reply, recordProxyEvent env scopes name kind result g3))))))"

subsection \<open>Properties\<close>

lemma checked_entries:
  assumes "validateTargetURLs url_scheme cfg = None"
  shows "(name, tc) \<in> set (tg_MCPServers cfg) \<Longrightarrow> tc \<noteq> None" and "(name, ac) \<in> set (tg_Agents cfg) \<Longrightarrow> ac \<noteq> None"
  using assms by (auto simp: validateTargetURLs_def first_some_None check_server_def check_agent_def split: option.splits)

lemma map_of_checked: "(\<And>v. (name, v) \<in> set m \<Longrightarrow> v \<noteq> None) \<Longrightarrow> name \<in> fst ` set m \<longleftrightarrow> (\<exists>x. map_of m name = Some (Some x))"
  by (metis map_of_SomeD map_of_eq_None_iff not_None_eq)

text \<open>A target is listed exactly when a request to it is not refused for access.\<close>

theorem listed_targets_are_reachable:
  assumes "validateTargetURLs url_scheme cfg = None"
  shows "(name \<in> ml_Name ` set (handleMCPServers cfg grp) \<longleftrightarrow> (\<exists>url. resolveTarget cfg targetKindMCP name grp = Some (url, True)))
    \<and> (name \<in> al_Name ` set (handleAgents cfg grp) \<longleftrightarrow> (\<exists>url. resolveTarget cfg targetKindAgent name grp = Some (url, True)))"
proof -
  have "name \<in> ml_Name ` set (handleMCPServers cfg grp) \<longleftrightarrow> name \<in> fst ` set (tg_MCPServers cfg) \<and> allowsMCP grp name"
    by (auto simp: handleMCPServers_def image_image)
  also have "\<dots> \<longleftrightarrow> (\<exists>url. resolveTarget cfg targetKindMCP name grp = Some (url, True))"
    using map_of_checked [of name, OF checked_entries(1) [OF assms]]
    by (auto simp: resolveTarget_def split: option.splits)
  finally have mcp: "name \<in> ml_Name ` set (handleMCPServers cfg grp) \<longleftrightarrow> (\<exists>url. resolveTarget cfg targetKindMCP name grp = Some (url, True))" .
  have "name \<in> al_Name ` set (handleAgents cfg grp) \<longleftrightarrow> name \<in> fst ` set (tg_Agents cfg) \<and> allowsAgent grp name"
    by (auto simp: handleAgents_def image_image)
  also have "\<dots> \<longleftrightarrow> (\<exists>url. resolveTarget cfg targetKindAgent name grp = Some (url, True))"
    using map_of_checked [of name, OF checked_entries(2) [OF assms]]
    by (auto simp: resolveTarget_def targetKindAgent_def targetKindMCP_def split: option.splits)
  finally show ?thesis using mcp by blast
qed

text \<open>A request that reaches a target was allowed, well-formed and admitted; it carries no credential of
  the client, and the query the target was configured with.\<close>


lemma event_targets: "pg_targets (recordProxyEvent env sc p k res h) = pg_targets h"
  by (auto simp: recordProxyEvent_def Let_def split: option.splits)

text \<open>A request whose declared size is over the cap never reaches the target, yet it is recorded as a
  failure of the target.\<close>

theorem oversized_request_fails_target:
  assumes "maxPassthroughBytes < pq_contentLength rq" and "resolveTarget cfg kind name grp = Some (url, True)" and "passthrough_shape rest rq = None"
    and "fst (checkAndCount (pe_now env (gw_world g)) (pe_now env (gw_world g)) (pe_now env (gw_world g)) (withTotalScope (buildLimitScopes u grp)) (gw_limiter g)) = None"
    and "buildUpstreamTargetURL uj url rest (pq_rawQuery rq) = Some full" and "pg_targets g = Some t" and "name \<noteq> []"
  shows "pg_sent (snd (handleTargetProxy env uj cfg u grp kind name rest rq g)) = pg_sent g
    \<and> ts_consecutiveFailures (health_snapshot kind name (pg_targets (snd (handleTargetProxy env uj cfg u grp kind name rest rq g))))
      = ts_consecutiveFailures (health_snapshot kind name (pg_targets g)) + 1"
proof -
  let ?now = "pe_now env (gw_world g)" and ?scopes = "withTotalScope (buildLimitScopes u grp)"
  obtain l1 where c: "checkAndCount ?now ?now ?now ?scopes (gw_limiter g) = (None, l1)" using assms(4) by (metis prod.collapse)
  show ?thesis using assms(1,3,6,7) c
    by (simp add: handleTargetProxy_def assms(2,5) Let_def proxyUpstream_def event_targets no_result_def recordTargetProxyHealth_def health_record_Some
        health_snapshot_def observe_entry_def blank_entry_def unknown_snapshot_def split: option.splits)
qed

definition sample_targets :: targetsConfig where
  "sample_targets = \<lparr>tg_MCPServers = [(''docs'', Some ''http://docs'')], tg_Agents = []\<rparr>"

definition sample_join :: urlJoin where
  "sample_join = \<lparr>uj_parse = (\<lambda>s. Some (s, ''key=1'')), uj_join = (\<lambda>b r. b @ ''/'' @ r), uj_string = (\<lambda>b q. b @ ''?'' @ q)\<rparr>"


end
