(* ===== verification/Routing.thy ===== *)
theory Routing
  imports TargetProxy
begin

text \<open>
  The entry of the gateway (llmgateway.go, errors.go, logger.go): which handler a request reaches and
  as whom, the panic guard, the log lines and the collected configuration warnings.

  The handlers are the outcomes of the dispatch.  Whether a network of the metrics configuration
  contains an address is a parameter.  \<open>rq_path\<close> is the decoded path and \<open>rq_escaped\<close> the path as sent.
\<close>

subsection \<open>Log lines and warnings\<close>

definition log_escape :: "char \<Rightarrow> string" where
  "log_escape c = (if c = CR then [CHR 0x5C, CHR ''r''] else if c = LF then [CHR 0x5C, CHR ''n''] else [c])"

definition logSafe :: "string \<Rightarrow> string" where
  "logSafe msg = (if CR \<notin> set msg \<and> LF \<notin> set msg then msg else concat (map log_escape msg))"

definition configWarningsCap :: nat where "configWarningsCap = 50"

record warningState =
  wn_collecting :: bool
  wn_warnings :: "string list"
  wn_dropped :: nat

definition noteConfigWarning :: "string \<Rightarrow> warningState \<Rightarrow> warningState" where
  "noteConfigWarning msg s =
     (if \<not> wn_collecting s then s
      else if configWarningsCap \<le> length (wn_warnings s) then s\<lparr>wn_dropped := wn_dropped s + 1\<rparr>
      else s\<lparr>wn_warnings := wn_warnings s @ [msg]\<rparr>)"

definition configWarningsSnapshot :: "warningState \<Rightarrow> string list \<times> nat" where
  "configWarningsSnapshot s = (wn_warnings s, wn_dropped s)"

definition suppressedSuffix :: "int \<Rightarrow> string" where
  "suppressedSuffix n = (if n \<le> 0 then [] else '' ('' @ itoa n @ '' more suppressed since last log)'')"

subsection \<open>The response writer and the panic guard\<close>

record statusTrackingWriter =
  sw_wroteHeader :: bool
  sw_status :: "int option"
  sw_body :: string

text \<open>net/http sends the first status only, and an implicit 200 before the first byte.\<close>

definition sw_WriteHeader :: "int \<Rightarrow> statusTrackingWriter \<Rightarrow> statusTrackingWriter" where
  "sw_WriteHeader status w = w\<lparr>sw_wroteHeader := True, sw_status := (case sw_status w of None \<Rightarrow> Some status | Some s \<Rightarrow> Some s)\<rparr>"

definition sw_Write :: "string \<Rightarrow> statusTrackingWriter \<Rightarrow> statusTrackingWriter" where
  "sw_Write b w = w\<lparr>sw_wroteHeader := True, sw_status := (case sw_status w of None \<Rightarrow> Some 200 | Some s \<Rightarrow> Some s), sw_body := sw_body w @ b\<rparr>"

definition writeOAIError :: "(string \<Rightarrow> string \<Rightarrow> string \<Rightarrow> string) \<Rightarrow> int \<Rightarrow> string \<Rightarrow> string \<Rightarrow> statusTrackingWriter \<Rightarrow> statusTrackingWriter" where
  "writeOAIError encode status errType msg w = sw_Write (encode msg errType (itoa status)) (sw_WriteHeader status w)"

definition recoverPanic :: "(string \<Rightarrow> string \<Rightarrow> string \<Rightarrow> string) \<Rightarrow> bool \<Rightarrow> statusTrackingWriter \<Rightarrow> statusTrackingWriter" where
  "recoverPanic encode panicked w =
     (if panicked \<and> \<not> sw_wroteHeader w then writeOAIError encode 500 ''server_error'' ''internal error'' w else w)"

subsection \<open>Routes\<close>

definition adminPagePath :: string where "adminPagePath = ''/admin''"
definition adminAssetsPathPrefix :: string where "adminAssetsPathPrefix = ''/admin/assets/''"

definition adminApiPaths :: "string list" where
  "adminApiPaths = [''/admin/api/overview'', ''/admin/api/usage'', ''/admin/api/usage/history'', ''/admin/api/usage/models'',
     ''/admin/api/usage/series'', ''/admin/api/usage/totals'', ''/admin/api/performance'', ''/admin/api/catalog'',
     ''/admin/api/consumers'', ''/admin/api/config'', ''/admin/api/targets'', ''/admin/api/events'']"

definition isAdminPath :: "string \<Rightarrow> bool" where
  "isAdminPath path \<longleftrightarrow> path = adminPagePath \<or> path \<in> set adminApiPaths \<or> strings_HasPrefix path adminAssetsPathPrefix"

definition metricsPathDefault :: string where "metricsPathDefault = ''/metrics''"
definition federatedMCPPath :: string where "federatedMCPPath = ''/mcp''"
definition messagesPath :: string where "messagesPath = ''/v1/messages''"
definition imagesGenerationsPath :: string where "imagesGenerationsPath = ''/v1/images/generations''"
definition audioSpeechPath :: string where "audioSpeechPath = ''/v1/audio/speech''"
definition audioTranscriptionsPath :: string where "audioTranscriptionsPath = ''/v1/audio/transcriptions''"

definition reservedRoutePrefixes :: "string list" where
  "reservedRoutePrefixes = [adminPagePath, ''/v1'', ''/mcp'', ''/a2a'']"

definition reservedRoutePrefix :: "string \<Rightarrow> bool" where
  "reservedRoutePrefix path \<longleftrightarrow> (\<exists>p\<in>set reservedRoutePrefixes. path = p \<or> strings_HasPrefix path (p @ ''/''))"

record routeConfig =
  rt_adminEnabled :: bool
  rt_metricsEnabled :: bool
  rt_metricsPath :: string
  rt_metricsNets :: "string list"
  rt_providers :: "(string, bool option) gomap"
  rt_passthroughUnknown :: bool

definition metricsPath :: "routeConfig \<Rightarrow> string" where
  "metricsPath cfg = (if rt_metricsPath cfg \<noteq> [] then rt_metricsPath cfg else metricsPathDefault)"

definition providerPassthroughEnabled :: "routeConfig \<Rightarrow> string \<Rightarrow> bool" where
  "providerPassthroughEnabled cfg p = (case map_of (rt_providers cfg) p of Some (Some b) \<Rightarrow> b | _ \<Rightarrow> True)"

record httpRequest =
  rq_method :: string
  rq_path :: string
  rq_escaped :: string
  rq_auth :: authRequest

datatype handler = HModels | HChat | HEmbeddings | HMessages | HImages | HSpeech | HTranscriptions | HMCPServers | HAgents | HFederated
  | HTarget string string string | HPassthrough string string

datatype route = RHandler handler | RAdmin | RMetrics | RMethod | RNext | RUnknown

text \<open>The chain of conditions of the dispatch: the first that holds decides.\<close>

fun first_match :: "(bool \<times> 'a) list \<Rightarrow> 'a \<Rightarrow> 'a" where
  "first_match [] d = d"
| "first_match ((c, x) # rest) d = (if c then x else first_match rest d)"

definition unknown_route :: "routeConfig \<Rightarrow> route" where
  "unknown_route cfg = (if rt_passthroughUnknown cfg then RNext else RUnknown)"

definition provider_route :: "routeConfig \<Rightarrow> httpRequest \<Rightarrow> route" where
  "provider_route cfg r =
     (case passthroughRoute (rq_escaped r) of
        Some (p, rest) \<Rightarrow>
          if p \<in> set (map fst (rt_providers cfg)) \<and> providerPassthroughEnabled cfg p then RHandler (HPassthrough p rest) else unknown_route cfg
      | None \<Rightarrow> unknown_route cfg)"

definition prefix_route :: "routeConfig \<Rightarrow> httpRequest \<Rightarrow> route" where
  "prefix_route cfg r =
     (case targetRoute (rq_escaped r) targetKindMCP of
        Some (name, rest) \<Rightarrow> RHandler (HTarget targetKindMCP name rest)
      | None \<Rightarrow>
          (case targetRoute (rq_escaped r) targetKindAgent of
             Some (name, rest) \<Rightarrow> RHandler (HTarget targetKindAgent name rest)
           | None \<Rightarrow> provider_route cfg r))"

definition dispatch_route :: "routeConfig \<Rightarrow> httpRequest \<Rightarrow> route" where
  "dispatch_route cfg r =
     (let path = rq_path r; get = (rq_method r = ''GET''); post = (rq_method r = ''POST'') in
      first_match
        [(get \<and> path = ''/v1/models'', RHandler HModels),
         (post \<and> path = ''/v1/chat/completions'', RHandler HChat),
         (post \<and> path = ''/v1/embeddings'', RHandler HEmbeddings),
         (post \<and> path = messagesPath, RHandler HMessages),
         (post \<and> path = imagesGenerationsPath, RHandler HImages),
         (post \<and> path = audioSpeechPath, RHandler HSpeech),
         (post \<and> path = audioTranscriptionsPath, RHandler HTranscriptions),
         (rt_adminEnabled cfg \<and> get \<and> isAdminPath path, RAdmin),
         (rt_metricsEnabled cfg \<and> get \<and> path = metricsPath cfg, RMetrics),
         (get \<and> path = ''/v1/mcp/servers'', RHandler HMCPServers),
         (get \<and> path = ''/v1/agents'', RHandler HAgents),
         (path = federatedMCPPath \<and> \<not> post, RMethod),
         (path = federatedMCPPath, RHandler HFederated)]
        (prefix_route cfg r))"

subsection \<open>Who a request is served as\<close>

datatype served = Served handler user group | AdminPage | AdminAsset string | AdminAPI string user | Metrics | NextHandler | Refused int string

record 'd entryState =
  es_auth :: "'d authStore"
  es_failureLog :: logGate
  es_throttleLog :: logGate

definition logAuthEvent :: "gtime \<Rightarrow> bool \<Rightarrow> authRequest \<Rightarrow> 'd entryState \<Rightarrow> 'd entryState" where
  "logAuthEvent now ok r s =
     (if ok then s
      else if authThrottled now (clientIP r) (as_failures (es_auth s)) then s\<lparr>es_throttleLog := snd (shouldLog now (es_throttleLog s))\<rparr>
      else s\<lparr>es_failureLog := snd (shouldLog now (es_failureLog s))\<rparr>)"

definition entry_identify :: "(string \<Rightarrow> 'd) \<Rightarrow> gtime \<Rightarrow> httpRequest \<Rightarrow> 'd entryState \<Rightarrow> (user \<times> group) option \<times> 'd entryState" where
  "entry_identify hash now r s =
     (case identify hash now (rq_auth r) (es_auth s) of
        (who, a1) \<Rightarrow> (who, logAuthEvent now (who \<noteq> None) (rq_auth r) (s\<lparr>es_auth := a1\<rparr>)))"

definition unauthorized :: served where "unauthorized = Refused 401 ''invalid or missing API key''"

definition handleAdminAPI :: "(string \<Rightarrow> 'd) \<Rightarrow> gtime \<Rightarrow> httpRequest \<Rightarrow> 'd entryState \<Rightarrow> served \<times> 'd entryState" where
  "handleAdminAPI hash now r s =
     (case entry_identify hash now r s of
        (None, s1) \<Rightarrow> (unauthorized, s1)
      | (Some (u, grp), s1) \<Rightarrow> (if \<not> us_admin u then Refused 403 ''admin access required'' else AdminAPI (rq_path r) u, s1))"

definition handleAdmin :: "(string \<Rightarrow> 'd) \<Rightarrow> gtime \<Rightarrow> httpRequest \<Rightarrow> 'd entryState \<Rightarrow> served \<times> 'd entryState" where
  "handleAdmin hash now r s =
     (if rq_path r = adminPagePath then (AdminPage, s)
      else if strings_HasPrefix (rq_path r) adminAssetsPathPrefix then (AdminAsset (strings_TrimPrefix (rq_path r) adminAssetsPathPrefix), s)
      else handleAdminAPI hash now r s)"

definition metricsSourceAllowed :: "(string \<Rightarrow> string \<Rightarrow> bool) \<Rightarrow> routeConfig \<Rightarrow> httpRequest \<Rightarrow> bool" where
  "metricsSourceAllowed contains cfg r \<longleftrightarrow> (\<exists>n\<in>set (rt_metricsNets cfg). contains n (clientIP (rq_auth r)))"

definition handleMetrics :: "(string \<Rightarrow> string \<Rightarrow> bool) \<Rightarrow> (string \<Rightarrow> 'd) \<Rightarrow> gtime \<Rightarrow> routeConfig \<Rightarrow> httpRequest \<Rightarrow> 'd entryState \<Rightarrow> served \<times> 'd entryState" where
  "handleMetrics contains hash now cfg r s =
     (if metricsSourceAllowed contains cfg r then (Metrics, s)
      else (case entry_identify hash now r s of
              (None, s1) \<Rightarrow> (unauthorized, s1)
            | (Some (u, grp), s1) \<Rightarrow> (if \<not> us_admin u then Refused 403 ''admin access required'' else Metrics, s1)))"

definition ServeHTTP :: "(string \<Rightarrow> string \<Rightarrow> bool) \<Rightarrow> (string \<Rightarrow> 'd) \<Rightarrow> gtime \<Rightarrow> routeConfig \<Rightarrow> httpRequest \<Rightarrow> 'd entryState \<Rightarrow> served \<times> 'd entryState" where
  "ServeHTTP contains hash now cfg r s =
     (case dispatch_route cfg r of
        RHandler h \<Rightarrow>
          (case entry_identify hash now r s of
             (None, s1) \<Rightarrow> (unauthorized, s1)
           | (Some (u, grp), s1) \<Rightarrow> (Served h u grp, s1))
      | RAdmin \<Rightarrow> handleAdmin hash now r s
      | RMetrics \<Rightarrow> handleMetrics contains hash now cfg r s
      | RMethod \<Rightarrow> (Refused 405 ''method not allowed'', s)
      | RNext \<Rightarrow> (NextHandler, s)
      | RUnknown \<Rightarrow> (Refused 404 ''unknown route'', s))"

subsection \<open>Nothing is served without a key\<close>

definition holds_key :: "(string \<Rightarrow> 'd) \<Rightarrow> httpRequest \<Rightarrow> 'd authStore \<Rightarrow> user \<Rightarrow> group \<Rightarrow> bool" where
  "holds_key hash r a u grp \<longleftrightarrow> (\<exists>key e. presentedKey (rq_auth r) = Some key \<and> map_of (as_byDigest a) (hash key) = Some e
     \<and> ae_user e = u \<and> ae_group e = grp)"

lemma entry_identify_Some:
  "entry_identify hash now r s = (Some (u, grp), s1) \<Longrightarrow> holds_key hash r (es_auth s) u grp \<and> es_auth s1 = es_auth s"
  by (auto simp: entry_identify_def identify_def holds_key_def logAuthEvent_def split: option.splits prod.splits)

fun authorized :: "(string \<Rightarrow> string \<Rightarrow> bool) \<Rightarrow> (string \<Rightarrow> 'd) \<Rightarrow> routeConfig \<Rightarrow> httpRequest \<Rightarrow> 'd authStore \<Rightarrow> served \<Rightarrow> bool" where
  "authorized contains hash cfg r a (Served h u grp) \<longleftrightarrow> holds_key hash r a u grp"
| "authorized contains hash cfg r a (AdminAPI path u) \<longleftrightarrow> rt_adminEnabled cfg \<and> us_admin u \<and> path \<in> set adminApiPaths \<and> (\<exists>grp. holds_key hash r a u grp)"
| "authorized contains hash cfg r a Metrics \<longleftrightarrow>
     rt_metricsEnabled cfg \<and> (metricsSourceAllowed contains cfg r \<or> (\<exists>u grp. us_admin u \<and> holds_key hash r a u grp))"
| "authorized contains hash cfg r a AdminPage \<longleftrightarrow> rt_adminEnabled cfg"
| "authorized contains hash cfg r a (AdminAsset f) \<longleftrightarrow> rt_adminEnabled cfg"
| "authorized contains hash cfg r a NextHandler \<longleftrightarrow> rt_passthroughUnknown cfg"
| "authorized contains hash cfg r a (Refused status msg) \<longleftrightarrow> status \<in> {401, 403, 404, 405}"

lemma first_match_cases: "first_match cs d = x \<Longrightarrow> (True, x) \<in> set cs \<or> x = d \<and> (\<forall>c\<in>set cs. \<not> fst c)"
  by (induction cs d rule: first_match.induct) (auto split: if_splits)

lemma first_match_none: "\<forall>c\<in>set cs. \<not> fst c \<Longrightarrow> first_match cs d = d"
  by (induction cs d rule: first_match.induct) auto

lemma prefix_route_cases: "prefix_route cfg r \<noteq> RAdmin" "prefix_route cfg r \<noteq> RMetrics" "prefix_route cfg r \<noteq> RMethod"
    "prefix_route cfg r = RNext \<Longrightarrow> rt_passthroughUnknown cfg"
  by (auto simp: prefix_route_def provider_route_def unknown_route_def split: option.splits if_splits)

lemma dispatch_admin: "dispatch_route cfg r = RAdmin \<Longrightarrow> rt_adminEnabled cfg \<and> isAdminPath (rq_path r)"
  unfolding dispatch_route_def Let_def by (drule first_match_cases) (auto simp: prefix_route_cases(1) [symmetric])

lemma dispatch_metrics: "dispatch_route cfg r = RMetrics \<Longrightarrow> rt_metricsEnabled cfg"
  unfolding dispatch_route_def Let_def by (drule first_match_cases) (auto simp: prefix_route_cases(2) [symmetric])

lemma dispatch_next:
  assumes "dispatch_route cfg r = RNext" shows "rt_passthroughUnknown cfg"
proof -
  from first_match_cases [OF assms [unfolded dispatch_route_def Let_def]] have "prefix_route cfg r = RNext" by simp
  then show ?thesis by (rule prefix_route_cases(4))
qed

lemma handleAdmin_authorized:
  assumes "handleAdmin hash now r s = (out, s1)" and "rt_adminEnabled cfg" and "isAdminPath (rq_path r)"
  shows "authorized contains hash cfg r (es_auth s) out"
  using assms by (auto simp: handleAdmin_def handleAdminAPI_def unauthorized_def isAdminPath_def dest!: entry_identify_Some
      split: if_splits option.splits prod.splits)

lemma handleMetrics_authorized:
  assumes "handleMetrics contains hash now cfg r s = (out, s1)" and "rt_metricsEnabled cfg"
  shows "authorized contains hash cfg r (es_auth s) out"
  using assms by (auto simp: handleMetrics_def unauthorized_def dest!: entry_identify_Some split: if_splits option.splits prod.splits)

lemma served_authorized: "authorized contains hash cfg r (es_auth s) (fst (ServeHTTP contains hash now cfg r s))"
proof (cases "dispatch_route cfg r")
  case (RHandler h)
  then show ?thesis
    by (auto simp: ServeHTTP_def unauthorized_def dest!: entry_identify_Some split: prod.splits option.splits)
next
  case RAdmin
  with handleAdmin_authorized [OF prod.collapse [symmetric]] dispatch_admin [OF RAdmin] show ?thesis by (auto simp: ServeHTTP_def)
next
  case RMetrics
  with handleMetrics_authorized [OF prod.collapse [symmetric]] dispatch_metrics [OF RMetrics] show ?thesis by (auto simp: ServeHTTP_def)
qed (auto simp: ServeHTTP_def dest: dispatch_next)

text \<open>C4: Every handler runs as the user whose key the request presents; the admin API and,
  outside the allowed networks, the metrics need an admin's key; only the admin page, its
  assets, the next handler and refusals need none.\<close>

theorem nothing_served_without_key: "authorized contains hash cfg r (es_auth s) (fst (ServeHTTP contains hash now cfg r s))"
  by (rule served_authorized)

subsection \<open>Routes of configured providers\<close>

abbreviation fixed_paths :: "string list" where
  "fixed_paths \<equiv> [''/v1/models'', ''/v1/chat/completions'', ''/v1/embeddings'', messagesPath, imagesGenerationsPath, audioSpeechPath,
     audioTranscriptionsPath, ''/v1/mcp/servers'', ''/v1/agents'', federatedMCPPath]"

lemma route_fixed: "path \<in> set fixed_paths \<Longrightarrow> \<exists>p rest. passthroughRoute path = Some (p, rest) \<and> p \<in> set reservedConfigNames"
  by (auto simp: passthroughRoute_def trim_prefix_def reservedConfigNames_def messagesPath_def imagesGenerationsPath_def audioSpeechPath_def
      audioTranscriptionsPath_def federatedMCPPath_def)

lemma has_prefix_append: "strings_HasPrefix s p \<Longrightarrow> \<exists>t. s = p @ t"
  unfolding strings_HasPrefix_def by (metis append_take_drop_id)

lemma route_admin: "isAdminPath path \<Longrightarrow> \<exists>rest. passthroughRoute path = Some (''admin'', rest)"
  unfolding isAdminPath_def
  by (auto simp: adminApiPaths_def adminPagePath_def adminAssetsPathPrefix_def passthroughRoute_def trim_prefix_def dest!: has_prefix_append)

text \<open>The name of a configured provider is never shadowed by another route: any method on any path
  below it reaches its passthrough handler, except a GET of the configured metrics path.\<close>

theorem provider_route_reached:
  assumes "validateConfigName p = None" and "(p, pt) \<in> set (rt_providers cfg)" and "providerPassthroughEnabled cfg p"
    and "passthroughRoute (rq_path r) = Some (p, decoded)" and "passthroughRoute (rq_escaped r) = Some (p, rest)"
    and "rq_path r \<noteq> metricsPath cfg"
  shows "dispatch_route cfg r = RHandler (HPassthrough p rest)"
proof -
  have names: "p \<notin> set reservedConfigNames" using assms(1) by (auto simp: validateConfigName_def split: if_splits)
  then have fixed: "rq_path r \<notin> set fixed_paths" using route_fixed [of "rq_path r"] assms(4) by auto
  have admin: "\<not> isAdminPath (rq_path r)" using route_admin [of "rq_path r"] assms(4) names by (auto simp: reservedConfigNames_def)
  have "dispatch_route cfg r = prefix_route cfg r"
    unfolding dispatch_route_def Let_def by (rule first_match_none) (use fixed admin assms(6) in simp)
  also have "prefix_route cfg r = provider_route cfg r"
    using assms(5) names by (simp add: prefix_route_def targetRoute_def targetKindMCP_def targetKindAgent_def reservedConfigNames_def)
  also have "\<dots> = RHandler (HPassthrough p rest)" using assms(2,3,5) by (force simp: provider_route_def)
  finally show ?thesis .
qed

text \<open>A caller's group is one the access checks are about.\<close>

lemma stored_group_access:
  assumes "store_ok a" and "holds_key hash r a u grp" shows "access_group grp"
proof -
  obtain key e where e: "map_of (as_byDigest a) (hash key) = Some e" "ae_group e = grp"
    using assms(2) by (auto simp: holds_key_def)
  then have "(hash key, e) \<in> set (as_byDigest a)" by (simp add: map_of_SomeD)
  then have "entry_ok (as_groups a) e" using assms(1) by (auto simp: store_ok_def entries_ok_def)
  then obtain members personal where m: "members \<noteq> []" "map Some members = map (map_of (as_groups a)) (us_groupNames (ae_user e))"
    "grp = effectiveGroup members personal" using e(2) by (auto simp: entry_ok_def)
  have "plain_group g" if "g \<in> set members" for g
  proof -
    have "Some g \<in> set (map (map_of (as_groups a)) (us_groupNames (ae_user e)))" using that m(2) by (metis image_eqI list.set_map)
    then obtain n where "map_of (as_groups a) n = Some g" by auto
    then have "(n, g) \<in> set (as_groups a)" by (rule map_of_SomeD)
    then show ?thesis using assms(1) by (auto simp: store_ok_def groups_ok_def)
  qed
  then show ?thesis using m(1,3) by (auto simp: access_group_def)
qed

text \<open>From the socket to the upstream: whoever gets a provider contacted through the passthrough route
  presented the key of a user whose grants cover it.\<close>

text \<open>C3: From the socket to the upstream: when a request makes the gateway contact a provider
  through the passthrough route, its key is that of the identified user, the provider is
  configured with passthrough on, one grant of the user covers provider, path and (where it
  restricts models) the one model the body names, and the path has no dot-dot segment.\<close>

theorem proxied_request_is_granted:
  assumes "store_ok (es_auth s)" and "ServeHTTP contains hash now rcfg r s = (Served (HPassthrough p rest) u grp, s1)"
    and "handlePassthrough env cfg u grp p rest rq g = (reply, g1)" and "pg_sent g1 \<noteq> pg_sent g"
  shows "holds_key hash r (es_auth s) u grp \<and> p \<in> set (map fst (rt_providers rcfg)) \<and> providerPassthroughEnabled rcfg p
    \<and> passthrough_granted env (gw_registry g) grp p rest rq \<and> \<not> hasTraversalSegment rest"
proof -
  have "authorized contains hash rcfg r (es_auth s) (fst (ServeHTTP contains hash now rcfg r s))" by (rule served_authorized)
  then have k: "holds_key hash r (es_auth s) u grp" using assms(2) by simp
  have "dispatch_route rcfg r = RHandler (HPassthrough p rest)"
    using assms(2) by (auto simp: ServeHTTP_def handleAdmin_def handleAdminAPI_def handleMetrics_def unauthorized_def split: route.splits prod.splits option.splits if_splits)
  from first_match_cases [OF this [unfolded dispatch_route_def Let_def]] have "prefix_route rcfg r = RHandler (HPassthrough p rest)" by simp
  then have "provider_route rcfg r = RHandler (HPassthrough p rest)" by (auto simp: prefix_route_def split: option.splits)
  then have "p \<in> set (map fst (rt_providers rcfg)) \<and> providerPassthroughEnabled rcfg p"
    by (auto simp: provider_route_def unknown_route_def split: option.splits if_splits)
  then show ?thesis using k passthrough_sends_granted [OF stored_group_access [OF assms(1) k] assms(3,4)] by blast
qed

subsection \<open>Logs, warnings and panics\<close>

text \<open>A log line stays one line whatever a client puts into it.\<close>

lemma logSafe_one_line: "CR \<notin> set (logSafe msg) \<and> LF \<notin> set (logSafe msg)"
  by (auto simp: logSafe_def log_escape_def CR_def LF_def split: if_splits)

lemma warnings_counted:
  assumes "wn_collecting s" and "length (wn_warnings s) \<le> configWarningsCap"
  shows "length (wn_warnings (fold noteConfigWarning ms s)) \<le> configWarningsCap
    \<and> length (wn_warnings (fold noteConfigWarning ms s)) + wn_dropped (fold noteConfigWarning ms s)
      = length (wn_warnings s) + wn_dropped s + length ms"
  using assms
proof (induction ms arbitrary: s)
  case (Cons m ms)
  then show ?case using Cons.IH [of "noteConfigWarning m s"] by (auto simp: noteConfigWarning_def)
qed simp

text \<open>A panic before the first byte becomes a 500; after it the response is left as it is.\<close>

lemma panic_answered:
  assumes "sw_wroteHeader w \<longleftrightarrow> sw_status w \<noteq> None"
  shows "sw_status (recoverPanic encode True w) = Some (case sw_status w of Some st \<Rightarrow> st | None \<Rightarrow> 500)"
  using assms by (auto simp: recoverPanic_def writeOAIError_def sw_Write_def sw_WriteHeader_def split: option.splits)

subsection \<open>A request from end to end\<close>

definition sample_auth :: "string authStore" where
  "sample_auth = (let entry = \<lparr>ae_user = sample_user, ae_group = local_only, ae_digest = ''k1'', ae_source = FromInline\<rparr> in
     sample_store\<lparr>as_groups := [(''locals'', local_only)], as_byDigest := [(''k1'', entry)], as_inline := [(''k1'', entry)]\<rparr>)"

definition sample_entry_state :: "string entryState" where
  "sample_entry_state = \<lparr>es_auth = sample_auth, es_failureLog = logGate_zero, es_throttleLog = logGate_zero\<rparr>"

definition sample_routes :: routeConfig where
  "sample_routes = \<lparr>rt_adminEnabled = True, rt_metricsEnabled = True, rt_metricsPath = [], rt_metricsNets = [],
     rt_providers = [(''local'', None)], rt_passthroughUnknown = False\<rparr>"

definition sample_http :: httpRequest where
  "sample_http = \<lparr>rq_method = ''GET'', rq_path = ''/local/v1/models'', rq_escaped = ''/local/v1/models'', rq_auth = sample_request ''k1''\<rparr>"

lemma sample_auth_ok: "store_ok sample_auth"
proof -
  have "map Some [local_only] = map (map_of [(''locals'', local_only)]) (us_groupNames sample_user)" "local_only = effectiveGroup [local_only] None"
    by (simp_all add: sample_user_def effectiveGroup_def)
  then have "\<exists>members personal. members \<noteq> [] \<and> map Some members = map (map_of [(''locals'', local_only)]) (us_groupNames sample_user)
      \<and> local_only = effectiveGroup members personal" by blast
  moreover have "plain_group local_only" "gr_name local_only = ''locals''" "us_name sample_user \<noteq> []"
    by (simp_all add: plain_group_def local_only_def sample_group_def sample_user_def)
  ultimately show ?thesis
    by (simp add: store_ok_def sample_auth_def groups_ok_def entries_ok_def entry_ok_def gomap_wf_def Let_def)
qed

lemma sample_route: "passthroughRoute ''/local/v1/models'' = Some (''local'', ''v1/models'')"
  by (simp add: passthroughRoute_def trim_prefix_def)

lemma sample_name: "validateConfigName ''local'' = None"
  by (simp add: validateConfigName_def configNamePattern_def dotOnlyConfigNames_def reservedConfigNames_def)

lemma sample_dispatch: "dispatch_route sample_routes sample_http = RHandler (HPassthrough ''local'' ''v1/models'')"
  by code_simp

theorem provider_route_reached_witness: "dispatch_route sample_routes sample_http = RHandler (HPassthrough ''local'' ''v1/models'')"
  by (rule provider_route_reached [of "''local''" None]) (simp_all add: sample_name sample_routes_def sample_http_def sample_route
      providerPassthroughEnabled_def metricsPath_def metricsPathDefault_def)

theorem proxied_request_is_granted_witness:
  "holds_key (\<lambda>k. k) sample_http sample_auth sample_user local_only
   \<and> passthrough_granted sample_proxy_env sample_refreshed local_only ''local'' ''v1/models'' sample_proxy_request"
proof -
  have "fst (entry_identify (\<lambda>k. k) 0 sample_http sample_entry_state) = Some (sample_user, local_only)"
    by (simp add: entry_identify_def identify_def sample_http_def sample_presented sample_entry_state_def sample_auth_def Let_def case_prod_beta)
  then have "ServeHTTP (\<lambda>_ _. False) (\<lambda>k. k) 0 sample_routes sample_http sample_entry_state
      = (Served (HPassthrough ''local'' ''v1/models'') sample_user local_only, snd (entry_identify (\<lambda>k. k) 0 sample_http sample_entry_state))"
    by (cases "entry_identify (\<lambda>k. k) 0 sample_http sample_entry_state") (simp add: ServeHTTP_def sample_dispatch)
  from proxied_request_is_granted [OF _ this prod.collapse [symmetric], of sample_proxy_env sample_cfg sample_proxy_request sample_proxy_gateway]
    sample_passthrough_sent sample_auth_ok
  show ?thesis by (simp add: sample_entry_state_def sample_proxy_fields)
qed

end
