(* ===== verification/Json.thy ===== *)
theory Json
  imports Floats GoText Sse "HOL-Library.List_Lexorder" "HOL-Library.Char_ord"
begin

text \<open>
  JSON values as Go holds them in an \<open>any\<close>, and \<open>json.Marshal\<close> of the standard library: object keys
  sorted, strings with HTML-safe escapes and invalid UTF-8 replaced.  The text of a floating-point
  number is a parameter.  \<open>JNum\<close> is what decoding gives for a number, \<open>JInt\<close> an integer the gateway puts
  into a value itself.
\<close>

datatype json = JNull | JBool bool | JNum float64 | JInt int | JString string | JArray "json list" | JObject "(string \<times> json) list"

subsection \<open>Access\<close>

type_synonym jobject = "(string \<times> json) list"

text \<open>Reading a key of a possibly nil map: a missing key is nil.\<close>

definition jget :: "jobject \<Rightarrow> string \<Rightarrow> json" where
  "jget m k = (case map_of m k of Some v \<Rightarrow> v | None \<Rightarrow> JNull)"

text \<open>The type assertions: the value, or the zero value of the type.\<close>

fun as_string :: "json \<Rightarrow> string" where
  "as_string (JString s) = s" | "as_string _ = []"

fun as_object :: "json \<Rightarrow> jobject" where
  "as_object (JObject m) = m" | "as_object _ = []"

fun as_array :: "json \<Rightarrow> json list" where
  "as_array (JArray xs) = xs" | "as_array _ = []"

fun is_object :: "json \<Rightarrow> bool" where
  "is_object (JObject m) = True" | "is_object _ = False"

abbreviation jstr :: "jobject \<Rightarrow> string \<Rightarrow> string" where
  "jstr m k \<equiv> as_string (jget m k)"

definition objects_of :: "json list \<Rightarrow> jobject list" where
  "objects_of xs = map as_object (filter is_object xs)"

subsection \<open>Strings\<close>

definition lower_hex :: "nat \<Rightarrow> char" where
  "lower_hex n = char_of (if n < 10 then 48 + n else 87 + n)"

text \<open>The escape of one byte below 128, and of one rune of two bytes or more.\<close>

definition escape_ascii :: "char \<Rightarrow> string" where
  "escape_ascii c = (let n = (of_char c :: nat) in
     if 32 \<le> n \<and> n \<notin> {34, 92, 60, 62, 38} then [c]
     else if n \<in> {34, 92} then [CHR 0x5C, c]
     else if n = 8 then [CHR 0x5C, CHR ''b'']
     else if n = 12 then [CHR 0x5C, CHR ''f'']
     else if n = 10 then [CHR 0x5C, CHR ''n'']
     else if n = 13 then [CHR 0x5C, CHR ''r'']
     else if n = 9 then [CHR 0x5C, CHR ''t'']
     else [CHR 0x5C, CHR ''u'', CHR ''0'', CHR ''0'', lower_hex (n div 16), lower_hex (n mod 16)])"

text \<open>The reference: rune after rune.\<close>

function marshal_runes :: "string \<Rightarrow> string" where
  "marshal_runes s =
     (if s = [] then []
      else if (of_char (hd s) :: nat) < 128 then escape_ascii (hd s) @ marshal_runes (tl s)
      else (case decode_rune s of (r, n) \<Rightarrow>
        (if r = rune_error \<and> n = 1 then [CHR 0xEF, CHR 0xBF, CHR 0xBD]
         else if r = 8232 \<or> r = 8233 then [CHR 0x5C, CHR ''u'', CHR ''2'', CHR ''0'', CHR ''2'', lower_hex (r mod 16)]
         else take n s) @ marshal_runes (drop n s)))"
  by pat_completeness auto
termination
  by (relation "measure length") (auto dest: decode_rune_drop [OF sym])

declare marshal_runes.simps [simp del]

definition marshal_string :: "string \<Rightarrow> string" where
  "marshal_string s = CHR 0x22 # marshal_runes s @ [CHR 0x22]"

subsection \<open>Values\<close>

lemma size_entry: "(k, v) \<in> set m \<Longrightarrow> size v < size (JObject m)"
  by (induction m) auto

lemma size_element: "v \<in> set xs \<Longrightarrow> size v < size (JArray xs)"
  by (induction xs) auto

function json_Marshal :: "(float64 \<Rightarrow> string) \<Rightarrow> json \<Rightarrow> string" where
  "json_Marshal num JNull = ''null''"
| "json_Marshal num (JBool b) = (if b then ''true'' else ''false'')"
| "json_Marshal num (JNum x) = num x"
| "json_Marshal num (JInt n) = itoa n"
| "json_Marshal num (JString s) = marshal_string s"
| "json_Marshal num (JArray xs) = ''['' @ strings_Join '','' (map (json_Marshal num) xs) @ '']''"
| "json_Marshal num (JObject m) =
     ''{'' @ strings_Join '','' (map (\<lambda>kv. marshal_string (fst kv) @ '':'' @ json_Marshal num (snd kv)) (sort_key fst m)) @ ''}''"
  by pat_completeness auto
termination
  by (relation "measure (size \<circ> snd)") (auto simp: size_entry size_element simp del: json.size)

declare json_Marshal.simps [simp del]

lemmas json_Marshal_simps = json_Marshal.simps

subsection \<open>Strings end where they should\<close>

text \<open>A marshalled string has no control character inside, so it stays on one line of an event stream.\<close>

lemma lower_hex_plain: "n < 16 \<Longrightarrow> 32 \<le> (of_char (lower_hex n) :: nat)"
  by (simp add: lower_hex_def)

lemma escape_ascii_plain: "(of_char c :: nat) < 128 \<Longrightarrow> x \<in> set (escape_ascii c) \<Longrightarrow> 32 \<le> (of_char x :: nat)"
proof -
  assume c: "(of_char c :: nat) < 128" and x: "x \<in> set (escape_ascii c)"
  have "(of_char c :: nat) div 16 < 16" using c by linarith
  then show ?thesis using x lower_hex_plain [of "of_char c mod 16"] lower_hex_plain [of "of_char c div 16"]
    by (auto simp: escape_ascii_def Let_def split: if_splits)
qed

lemma cont_byte_high: "cont_byte lo hi b \<Longrightarrow> 128 \<le> lo \<Longrightarrow> 128 \<le> b"
  by (simp add: cont_byte_def)

lemma decode_rune_bytes:
  assumes "128 \<le> (of_char c :: nat)" and "x \<in> set (take (snd (decode_rune (c # t))) (c # t))"
  shows "128 \<le> (of_char x :: nat)"
proof -
  consider "t = []" | c1 where "t = [c1]" | c1 c2 where "t = [c1, c2]" | c1 c2 c3 t' where "t = c1 # c2 # c3 # t'"
    by (metis neq_Nil_conv)
  then show ?thesis
    by cases (use assms in \<open>simp add: decode_rune_def split: if_split_asm; auto dest!: cont_byte_high split: if_split_asm\<close>)+
qed

lemma marshal_runes_plain: "x \<in> set (marshal_runes s) \<Longrightarrow> 32 \<le> (of_char x :: nat)"
proof (induction s rule: marshal_runes.induct)
  case (1 s)
  show ?case
  proof (cases "s = [] \<or> (of_char (hd s) :: nat) < 128")
    case True
    then show ?thesis using 1 escape_ascii_plain [of "hd s" x] by (subst (asm) (3) marshal_runes.simps) (auto split: if_splits)
  next
    case False
    obtain r n where d: "decode_rune s = (r, n)" by fastforce
    obtain c t where s: "s = c # t" using False by (cases s) auto
    have "x \<in> set (take n s) \<Longrightarrow> 32 \<le> (of_char x :: nat)" using decode_rune_bytes [of c x t] False d s by fastforce
    moreover have "x \<in> set (marshal_runes (drop n s)) \<Longrightarrow> 32 \<le> (of_char x :: nat)" using 1(2) [OF _ _ d [symmetric]] False by simp
    ultimately show ?thesis using 1(3) False d lower_hex_plain [of "r mod 16"]
      by (subst (asm) marshal_runes.simps) (auto split: if_splits)
  qed
qed

end
