(* ===== verification/TranslateAnthropic.thy ===== *)
theory TranslateAnthropic
  imports Json Retry Accounting ProxyParts "HOL-Library.AList"
begin

text \<open>
  Translation between the OpenAI and the Anthropic chat formats (translate_anthropic.go), requests,
  responses and streams, in both directions.

  \<open>json.Unmarshal\<close> into the structures of the source is a parameter (\<open>None\<close> is its error), as is the text
  of a number; \<open>json.Marshal\<close> is that of Json.  A Go map is its list of entries.
\<close>

subsection \<open>Values\<close>

definition anthropicDefaultMaxTokens :: int where "anthropicDefaultMaxTokens = 4096"
definition chatCompletionIDPrefix :: string where "chatCompletionIDPrefix = ''chatcmpl-''"

definition unsupportedFieldError :: "string \<Rightarrow> go_error" where
  "unsupportedFieldError field = TranslateError (field @ '' is not supported for anthropic models'') False"

text \<open>A \<open>%q\<close> of a plain name, and a constant key.\<close>

definition quoted :: "string \<Rightarrow> string" where
  "quoted s = [CHR 0x22] @ s @ [CHR 0x22]"

abbreviation translate_error :: "string \<Rightarrow> go_error" where
  "translate_error msg \<equiv> TranslateError msg False"

abbreviation upstream_error :: "string \<Rightarrow> go_error" where
  "upstream_error what \<equiv> Wrap [Sentinel ErrUpstream, OtherError what]"

fun isTruthy :: "json \<Rightarrow> bool" where
  "isTruthy JNull = False"
| "isTruthy (JBool b) = b"
| "isTruthy (JNum x) = (x \<noteq> Fin 0)"
| "isTruthy (JString s) = (s \<noteq> [])"
| "isTruthy (JObject m) = (m \<noteq> [])"
| "isTruthy (JArray xs) = (xs \<noteq> [])"
| "isTruthy (JInt n) = True"

fun toFloat64 :: "json \<Rightarrow> float64 option" where
  "toFloat64 (JNum x) = Some x"
| "toFloat64 (JInt n) = Some (fl (of_int n))"
| "toFloat64 _ = None"

definition trunc :: "rat \<Rightarrow> int" where
  "trunc x = (if 0 \<le> x then \<lfloor>x\<rfloor> else - \<lfloor>- x\<rfloor>)"

definition toInt64 :: "json \<Rightarrow> int option" where
  "toInt64 v = (case toFloat64 v of
     None \<Rightarrow> None
   | Some NaN \<Rightarrow> None
   | Some PInf \<Rightarrow> Some max_int64
   | Some NInf \<Rightarrow> Some min_int64
   | Some (Fin x) \<Rightarrow> Some (if 2 ^ 63 \<le> x then max_int64 else if x \<le> - (2 ^ 63) then min_int64 else trunc x))"

definition exceeds_one :: "json \<Rightarrow> bool" where
  "exceeds_one v = (case toFloat64 v of Some PInf \<Rightarrow> True | Some (Fin x) \<Rightarrow> 1 < x | _ \<Rightarrow> False)"

fun all_strings :: "json list \<Rightarrow> string list option" where
  "all_strings [] = Some []"
| "all_strings (JString s # xs) = map_option (\<lambda>ss. s # ss) (all_strings xs)"
| "all_strings (_ # xs) = None"

fun stopSequencesFrom :: "json \<Rightarrow> go_error + string list" where
  "stopSequencesFrom (JString s) = Inr (if s = [] then [] else [s])"
| "stopSequencesFrom (JArray xs) = (case all_strings xs of None \<Rightarrow> Inl (translate_error ''stop[] entries must be strings'') | Some ss \<Rightarrow> Inr ss)"
| "stopSequencesFrom _ = Inr []"

text \<open>A loop that stops at the first error.\<close>

fun fold_sum :: "('a \<Rightarrow> 'b \<Rightarrow> go_error + 'b) \<Rightarrow> 'a list \<Rightarrow> 'b \<Rightarrow> go_error + 'b" where
  "fold_sum f [] s = Inr s"
| "fold_sum f (x # xs) s = bind_sum (f x s) (fold_sum f xs)"

subsection \<open>Requests to Anthropic\<close>

definition dataURIHasBase64Param :: "string \<Rightarrow> bool" where
  "dataURIHasBase64Param rawParams \<longleftrightarrow> rawParams \<noteq> [] \<and> ''base64'' \<in> set (strings_Split CHR '';'' rawParams)"

definition anthropicImageSourceFromDataURI :: "string \<Rightarrow> go_error + jobject" where
  "anthropicImageSourceFromDataURI uri =
     (if \<not> strings_HasPrefix uri ''data:''
      then Inl (translate_error ''image_url must be a data: URI (http(s) image URLs are not supported for anthropic models)'')
      else (case strings_Cut CHR '','' (strings_TrimPrefix uri ''data:'') of
              None \<Rightarrow> Inl (translate_error ''malformed data: URI in image_url'')
            | Some (header, data) \<Rightarrow>
                let (mediaType, rawParams) = (case strings_Cut CHR '';'' header of Some x \<Rightarrow> x | None \<Rightarrow> (header, [])) in
                if \<not> dataURIHasBase64Param rawParams then Inl (translate_error ''data: URI in image_url must be base64-encoded'')
                else Inr [(''type'', JString ''base64''), (''media_type'', JString mediaType), (''data'', JString data)]))"

definition text_block :: "string \<Rightarrow> json" where
  "text_block t = JObject [(''type'', JString ''text''), (''text'', JString t)]"

definition anthropicContentBlockFromOpenAI :: "jobject \<Rightarrow> go_error + json option" where
  "anthropicContentBlockFromOpenAI pm =
     (if jstr pm ''type'' = ''text'' then Inr (Some (text_block (jstr pm ''text'')))
      else if jstr pm ''type'' = ''image_url''
      then bind_sum (anthropicImageSourceFromDataURI (jstr (as_object (jget pm ''image_url'')) ''url''))
             (\<lambda>src. Inr (Some (JObject [(''type'', JString ''image''), (''source'', JObject src)])))
      else Inr None)"

definition anthropicToolUseBlockFromOpenAI :: "(string \<Rightarrow> json option) \<Rightarrow> json \<Rightarrow> go_error + json" where
  "anthropicToolUseBlockFromOpenAI decode tc =
     (if \<not> is_object tc then Inl (translate_error ''assistant tool_calls[] entry is malformed'')
      else let tm = as_object tc; fn = as_object (jget tm ''function''); argsStr = jstr fn ''arguments'' in
        (case (if argsStr = [] then Some (JObject []) else decode argsStr) of
           None \<Rightarrow> Inl (translate_error ''assistant tool_calls[].function.arguments is not valid JSON'')
         | Some input \<Rightarrow> Inr (JObject [(''type'', JString ''tool_use''), (''id'', JString (jstr tm ''id'')), (''name'', JString (jstr fn ''name'')), (''input'', input)])))"

definition add_content_block :: "jobject \<Rightarrow> json list \<Rightarrow> go_error + json list" where
  "add_content_block pm blocks =
     bind_sum (anthropicContentBlockFromOpenAI pm) (\<lambda>b. Inr (case b of Some x \<Rightarrow> blocks @ [x] | None \<Rightarrow> blocks))"

definition add_tool_use :: "(string \<Rightarrow> json option) \<Rightarrow> json \<Rightarrow> json list \<Rightarrow> go_error + json list" where
  "add_tool_use decode tc blocks = bind_sum (anthropicToolUseBlockFromOpenAI decode tc) (\<lambda>b. Inr (blocks @ [b]))"

definition content_blocks :: "json \<Rightarrow> go_error + json list" where
  "content_blocks c =
     (case c of
        JString s \<Rightarrow> Inr (if s \<noteq> [] then [text_block s] else [])
      | JArray parts \<Rightarrow> fold_sum add_content_block (objects_of parts) []
      | _ \<Rightarrow> Inr [])"

definition message_of :: "string \<Rightarrow> json \<Rightarrow> json" where
  "message_of role content = JObject [(''role'', JString role), (''content'', content)]"

definition anthropicMessageFromOpenAI :: "(string \<Rightarrow> json option) \<Rightarrow> jobject \<Rightarrow> string \<Rightarrow> go_error + json" where
  "anthropicMessageFromOpenAI decode msg role =
     (let contentVal = jget msg ''content'';
          toolCalls = (if role = ''assistant'' then as_array (jget msg ''tool_calls'') else [])
      in case (contentVal, toolCalls) of
           (JString s, []) \<Rightarrow> Inr (message_of role (JString s))
         | _ \<Rightarrow>
             bind_sum (content_blocks contentVal) (\<lambda>blocks.
               bind_sum (fold_sum (add_tool_use decode) toolCalls blocks) (\<lambda>all.
                 Inr (message_of role (JArray all)))))"

definition anthropicToolResultBlock :: "jobject \<Rightarrow> json" where
  "anthropicToolResultBlock msg =
     JObject [(''type'', JString ''tool_result''), (''tool_use_id'', JString (jstr msg ''tool_call_id'')), (''content'', jget msg ''content'')]"

definition add_system_text :: "json \<Rightarrow> string list \<Rightarrow> go_error + string list" where
  "add_system_text part texts =
     (if \<not> is_object part then Inl (translate_error ''system message content[] entries must be objects'')
      else let pm = as_object part in
        if jstr pm ''type'' \<noteq> ''text''
        then Inl (translate_error (''system message content part type '' @ quoted (jstr pm ''type'') @ '' is not supported for anthropic models''))
        else Inr (texts @ [jstr pm ''text'']))"

definition systemTextFromContentParts :: "json list \<Rightarrow> go_error + string" where
  "systemTextFromContentParts parts = bind_sum (fold_sum add_system_text parts []) (\<lambda>texts. Inr (strings_Join [LF] texts))"

definition anthropicToolChoiceFromOpenAI :: "json \<Rightarrow> json option \<times> bool" where
  "anthropicToolChoiceFromOpenAI tc =
     (case tc of
        JString t \<Rightarrow>
          if t = ''none'' then (Some (JObject [(''type'', JString ''none'')]), True)
          else if t = ''auto'' then (Some (JObject [(''type'', JString ''auto'')]), False)
          else if t = ''required'' then (Some (JObject [(''type'', JString ''any'')]), False)
          else (None, False)
      | JObject m \<Rightarrow>
          (case jget (as_object (jget m ''function'')) ''name'' of
             JString name \<Rightarrow> (Some (JObject [(''type'', JString ''tool''), (''name'', JString name)]), False)
           | _ \<Rightarrow> (None, False))
      | _ \<Rightarrow> (None, False))"

definition tool_entry :: "jobject \<Rightarrow> json" where
  "tool_entry tm =
     (let fn = as_object (jget tm ''function'') in
      JObject ([(''name'', jget fn ''name''), (''input_schema'', jget fn ''parameters'')]
        @ (case map_of fn ''description'' of Some d \<Rightarrow> [(''description'', d)] | None \<Rightarrow> [])))"

definition anthropicToolsFromOpenAI :: "json list \<Rightarrow> json list" where
  "anthropicToolsFromOpenAI toolsRaw = map tool_entry (objects_of toolsRaw)"

record requestLoop =
  rl_system :: "string list"
  rl_messages :: "json list"
  rl_pending :: "json list"
  rl_toolBlocks :: bool

definition flushPendingToolResults :: "requestLoop \<Rightarrow> requestLoop" where
  "flushPendingToolResults st =
     (if rl_pending st = [] then st
      else st\<lparr>rl_messages := rl_messages st @ [message_of ''user'' (JArray (rl_pending st))], rl_pending := []\<rparr>)"

definition request_message :: "(string \<Rightarrow> json option) \<Rightarrow> jobject \<Rightarrow> requestLoop \<Rightarrow> go_error + requestLoop" where
  "request_message decode msg st =
     (let role = jstr msg ''role'' in
      if role = ''system'' \<or> role = ''developer''
      then (case jget msg ''content'' of
              JString s \<Rightarrow> Inr (st\<lparr>rl_system := rl_system st @ [s]\<rparr>)
            | JArray parts \<Rightarrow> bind_sum (systemTextFromContentParts parts) (\<lambda>text. Inr (st\<lparr>rl_system := rl_system st @ [text]\<rparr>))
            | _ \<Rightarrow> Inr st)
      else if role = ''user'' \<or> role = ''assistant''
      then let st1 = flushPendingToolResults st;
               st2 = (if role = ''assistant'' \<and> as_array (jget msg ''tool_calls'') \<noteq> [] then st1\<lparr>rl_toolBlocks := True\<rparr> else st1)
           in bind_sum (anthropicMessageFromOpenAI decode msg role) (\<lambda>am. Inr (st2\<lparr>rl_messages := rl_messages st2 @ [am]\<rparr>))
      else if role = ''tool''
      then Inr (st\<lparr>rl_toolBlocks := True, rl_pending := rl_pending st @ [anthropicToolResultBlock msg]\<rparr>)
      else Inr st)"

definition request_loop :: "(string \<Rightarrow> json option) \<Rightarrow> json list \<Rightarrow> go_error + requestLoop" where
  "request_loop decode msgs =
     bind_sum (fold_sum (request_message decode) (objects_of msgs)
        \<lparr>rl_system = [], rl_messages = [], rl_pending = [], rl_toolBlocks = False\<rparr>) (\<lambda>st. Inr (flushPendingToolResults st))"

definition request_maxTokens :: "jobject \<Rightarrow> int" where
  "request_maxTokens req =
     (case map_of req ''max_completion_tokens'' of
        Some v \<Rightarrow> (case toInt64 v of Some n \<Rightarrow> n | None \<Rightarrow> anthropicDefaultMaxTokens)
      | None \<Rightarrow>
          (case map_of req ''max_tokens'' of
             Some v \<Rightarrow> (case toInt64 v of Some n \<Rightarrow> n | None \<Rightarrow> anthropicDefaultMaxTokens)
           | None \<Rightarrow> anthropicDefaultMaxTokens))"

text \<open>A field copied when present, possibly under another name.\<close>

definition copy_field :: "string \<Rightarrow> string \<Rightarrow> jobject \<Rightarrow> jobject" where
  "copy_field from to req = (case map_of req from of Some v \<Rightarrow> [(to, v)] | None \<Rightarrow> [])"

definition request_stop :: "jobject \<Rightarrow> go_error + jobject" where
  "request_stop req =
     (case map_of req ''stop'' of
        None \<Rightarrow> Inr []
      | Some v \<Rightarrow> bind_sum (stopSequencesFrom v) (\<lambda>seqs. Inr (if seqs \<noteq> [] then [(''stop_sequences'', JArray (map JString seqs))] else [])))"

definition request_tools :: "jobject \<Rightarrow> bool \<Rightarrow> jobject" where
  "request_tools req historyHasToolBlocks =
     (let (choice, dropTools) = (case map_of req ''tool_choice'' of
            None \<Rightarrow> (None, False)
          | Some tc \<Rightarrow> (case anthropicToolChoiceFromOpenAI tc of (c, d) \<Rightarrow> (c, d \<and> \<not> historyHasToolBlocks)))
      in (case choice of Some c \<Rightarrow> if \<not> dropTools then [(''tool_choice'', c)] else [] | None \<Rightarrow> [])
         @ (case jget req ''tools'' of JArray ts \<Rightarrow> if \<not> dropTools then [(''tools'', JArray (anthropicToolsFromOpenAI ts))] else [] | _ \<Rightarrow> []))"

definition truthy_field :: "jobject \<Rightarrow> string \<Rightarrow> bool" where
  "truthy_field req k = (case map_of req k of Some v \<Rightarrow> isTruthy v | None \<Rightarrow> False)"

definition anthropicRequestFromOpenAI :: "(string \<Rightarrow> json option) \<Rightarrow> jobject \<Rightarrow> go_error + jobject" where
  "anthropicRequestFromOpenAI decode req =
     (if (case map_of req ''n'' of Some v \<Rightarrow> exceeds_one v | None \<Rightarrow> False) then Inl (unsupportedFieldError ''n'')
      else if truthy_field req ''logit_bias'' then Inl (unsupportedFieldError ''logit_bias'')
      else if truthy_field req ''logprobs'' then Inl (unsupportedFieldError ''logprobs'')
      else bind_sum (request_loop decode (as_array (jget req ''messages''))) (\<lambda>st.
        bind_sum (request_stop req) (\<lambda>stop. Inr
          ((case jget req ''model'' of JString m \<Rightarrow> [(''model'', JString m)] | _ \<Rightarrow> [])
           @ (if rl_system st \<noteq> [] then [(''system'', JString (strings_Join [LF, LF] (rl_system st)))] else [])
           @ [(''messages'', JArray (rl_messages st)), (''max_tokens'', JInt (request_maxTokens req))]
           @ copy_field ''temperature'' ''temperature'' req @ copy_field ''top_p'' ''top_p'' req @ stop
           @ copy_field ''stream'' ''stream'' req @ request_tools req (rl_toolBlocks st)
           @ (case map_of req ''user'' of Some v \<Rightarrow> [(''metadata'', JObject [(''user_id'', v)])] | None \<Rightarrow> [])))))"

subsection \<open>Responses from Anthropic\<close>

record anthropicUsagePayload =
  au_InputTokens :: int
  au_OutputTokens :: int
  au_CacheCreationInputTokens :: int
  au_CacheReadInputTokens :: int

definition totalInputTokens :: "anthropicUsagePayload \<Rightarrow> int" where
  "totalInputTokens p = wrap64 (au_InputTokens p + au_CacheCreationInputTokens p + au_CacheReadInputTokens p)"

record anthropicContentBlock =
  ab_Type :: string
  ab_Text :: string
  ab_ID :: string
  ab_Name :: string
  ab_Input :: string

record anthropicResponseBody =
  ar_ID :: string
  ar_StopReason :: string
  ar_Content :: "anthropicContentBlock list"
  ar_Usage :: anthropicUsagePayload

record blockStartPayload =
  bs_Type :: string
  bs_ID :: string
  bs_Name :: string
  bs_Index :: int

record blockDeltaPayload =
  bd_Type :: string
  bd_Text :: string
  bd_PartialJSON :: string
  bd_Index :: int

text \<open>\<open>json.Unmarshal\<close> into the structures of the source, and into an \<open>any\<close>.\<close>

record anthropicDecoder =
  ad_any :: "string \<Rightarrow> json option"
  ad_response :: "string \<Rightarrow> anthropicResponseBody option"
  ad_messageStart :: "string \<Rightarrow> (string \<times> anthropicUsagePayload) option"
  ad_blockStart :: "string \<Rightarrow> blockStartPayload option"
  ad_blockDelta :: "string \<Rightarrow> blockDeltaPayload option"
  ad_messageDelta :: "string \<Rightarrow> (string \<times> anthropicUsagePayload) option"
  ad_error :: "string \<Rightarrow> (string \<times> string) option"
  ad_num :: "float64 \<Rightarrow> string"

definition anthropicFinishReason :: "string \<Rightarrow> string" where
  "anthropicFinishReason stopReason =
     (if stopReason = ''max_tokens'' then ''length''
      else if stopReason = ''tool_use'' then ''tool_calls''
      else if stopReason = ''refusal'' then ''content_filter''
      else ''stop'')"

definition reMarshalToolInput :: "anthropicDecoder \<Rightarrow> string \<Rightarrow> go_error + string" where
  "reMarshalToolInput ad raw =
     (case (if raw = [] then Some (JObject []) else ad_any ad raw) of
        None \<Rightarrow> Inl (upstream_error ''decode tool_use input'')
      | Some v \<Rightarrow> Inr (json_Marshal (ad_num ad) v))"

definition add_response_block :: "anthropicDecoder \<Rightarrow> anthropicContentBlock \<Rightarrow> string list \<times> json list \<Rightarrow> go_error + string list \<times> json list" where
  "add_response_block ad b = (\<lambda>(texts, calls).
     if ab_Type b = ''text'' then Inr (texts @ [ab_Text b], calls)
     else if ab_Type b = ''tool_use''
     then bind_sum (reMarshalToolInput ad (ab_Input b)) (\<lambda>args.
            Inr (texts, calls @ [JObject [(''id'', JString (ab_ID b)), (''type'', JString ''function''),
              (''function'', JObject [(''name'', JString (ab_Name b)), (''arguments'', JString args)])]]))
     else Inr (texts, calls))"

definition usage_json :: "usage \<Rightarrow> json" where
  "usage_json u = JObject [(''prompt_tokens'', JInt (us_prompt u)), (''completion_tokens'', JInt (us_completion u)), (''total_tokens'', JInt (usage_total u))]"

definition openAIResponseFromAnthropic :: "anthropicDecoder \<Rightarrow> string \<Rightarrow> string \<Rightarrow> int \<Rightarrow> go_error + (jobject \<times> usage)" where
  "openAIResponseFromAnthropic ad body model created =
     (case ad_response ad body of
        None \<Rightarrow> Inl (upstream_error ''decode anthropic response'')
      | Some resp \<Rightarrow>
          bind_sum (fold_sum (add_response_block ad) (ar_Content resp) ([], [])) (\<lambda>(texts, calls).
            let message = [(''role'', JString ''assistant''), (''content'', if texts \<noteq> [] then JString (concat texts) else JNull)]
                  @ (if calls \<noteq> [] then [(''tool_calls'', JArray calls)] else []);
                u = \<lparr>us_prompt = totalInputTokens (ar_Usage resp), us_completion = au_OutputTokens (ar_Usage resp), us_estimated = False\<rparr>
            in Inr ([(''id'', JString (chatCompletionIDPrefix @ ar_ID resp)), (''object'', JString ''chat.completion''), (''created'', JInt created),
                     (''model'', JString model),
                     (''choices'', JArray [JObject [(''index'', JInt 0), (''message'', JObject message),
                        (''finish_reason'', JString (anthropicFinishReason (ar_StopReason resp)))]]),
                     (''usage'', usage_json u)], u)))"

subsection \<open>Streams from Anthropic\<close>

definition append_escape :: "char \<Rightarrow> string" where
  "append_escape b =
     (if b = CHR 0x22 \<or> b = CHR 0x5C then [CHR 0x5C, b]
      else if b = CHR 0x08 then [CHR 0x5C, CHR ''b'']
      else if b = CHR 0x0C then [CHR 0x5C, CHR ''f'']
      else if b = CHR 0x0A then [CHR 0x5C, CHR ''n'']
      else if b = CHR 0x0D then [CHR 0x5C, CHR ''r'']
      else if b = CHR 0x09 then [CHR 0x5C, CHR ''t'']
      else [CHR 0x5C, CHR ''u'', CHR ''0'', CHR ''0'', lower_hex (of_char b div 16), lower_hex (of_char b mod 16)])"

definition copied_byte :: "char \<Rightarrow> bool" where
  "copied_byte b \<longleftrightarrow> 32 \<le> (of_char b :: nat) \<and> b \<noteq> CHR 0x22 \<and> b \<noteq> CHR 0x5C \<and> b \<noteq> CHR ''<'' \<and> b \<noteq> CHR ''>'' \<and> b \<noteq> CHR ''&''"

text \<open>The loop: \<open>seg\<close> is \<open>s[start:i]\<close>, not yet copied.\<close>

function append_loop :: "string \<Rightarrow> string \<Rightarrow> string" where
  "append_loop seg s =
     (if s = [] then seg
      else if (of_char (hd s) :: nat) < 128
      then if copied_byte (hd s) then append_loop (seg @ [hd s]) (tl s)
           else seg @ append_escape (hd s) @ append_loop [] (tl s)
      else (case decode_rune s of (r, width) \<Rightarrow>
        if r = rune_error \<and> width = 1 then seg @ [CHR 0xEF, CHR 0xBF, CHR 0xBD] @ append_loop [] (drop width s)
        else if r = 8232 \<or> r = 8233
        then seg @ [CHR 0x5C, CHR ''u'', CHR ''2'', CHR ''0'', CHR ''2'', lower_hex (r mod 16)] @ append_loop [] (drop width s)
        else append_loop (seg @ take width s) (drop width s)))"
  by pat_completeness auto
termination
  by (relation "measure (length \<circ> snd)") (auto dest: decode_rune_drop [OF sym])

declare append_loop.simps [simp del]

definition appendJSONString :: "string \<Rightarrow> string \<Rightarrow> string" where
  "appendJSONString dst s = dst @ [CHR 0x22] @ append_loop [] s @ [CHR 0x22]"

definition contentChunkHead :: string where
  "contentChunkHead = ''{'' @ quoted ''choices'' @ '':[{'' @ quoted ''delta'' @ '':{'' @ quoted ''content'' @ '':''"

definition contentChunker_set :: "string \<Rightarrow> string \<Rightarrow> int \<Rightarrow> string" where
  "contentChunker_set sid model created =
     ''},'' @ quoted ''finish_reason'' @ '':null,'' @ quoted ''index'' @ '':0}],'' @ quoted ''created'' @ '':'' @ itoa created
     @ '','' @ quoted ''id'' @ '':'' @ marshal_string sid @ '','' @ quoted ''model'' @ '':'' @ marshal_string model
     @ '','' @ quoted ''object'' @ '':'' @ quoted ''chat.completion.chunk'' @ ''}''"

definition contentChunker_build :: "string \<Rightarrow> string \<Rightarrow> string" where
  "contentChunker_build tail text = appendJSONString contentChunkHead text @ tail"

record anthropicStreamState =
  st_toolOrdinals :: "int \<rightharpoonup> int"
  st_id :: string
  st_model :: string
  st_tail :: string
  st_u :: usage
  st_created :: int
  st_nextToolOrdinal :: int

definition newAnthropicStreamState :: "string \<Rightarrow> int \<Rightarrow> anthropicStreamState" where
  "newAnthropicStreamState model created =
     \<lparr>st_toolOrdinals = Map.empty, st_id = [], st_model = model, st_tail = contentChunker_set chatCompletionIDPrefix model created,
      st_u = \<lparr>us_prompt = 0, us_completion = 0, us_estimated = False\<rparr>, st_created = created, st_nextToolOrdinal = 0\<rparr>"

definition chunk_json :: "anthropicStreamState \<Rightarrow> jobject \<Rightarrow> string option \<Rightarrow> json" where
  "chunk_json st delta finishReason =
     JObject [(''id'', JString (chatCompletionIDPrefix @ st_id st)), (''object'', JString ''chat.completion.chunk''), (''created'', JInt (st_created st)),
       (''model'', JString (st_model st)),
       (''choices'', JArray [JObject [(''index'', JInt 0), (''delta'', JObject delta),
          (''finish_reason'', case finishReason of Some r \<Rightarrow> JString r | None \<Rightarrow> JNull)]])]"

definition usageChunk_json :: "anthropicStreamState \<Rightarrow> json" where
  "usageChunk_json st =
     JObject [(''id'', JString (chatCompletionIDPrefix @ st_id st)), (''object'', JString ''chat.completion.chunk''), (''created'', JInt (st_created st)),
       (''model'', JString (st_model st)), (''choices'', JArray []), (''usage'', usage_json (st_u st))]"

definition stream_chunk :: "anthropicDecoder \<Rightarrow> anthropicStreamState \<Rightarrow> jobject \<Rightarrow> string option \<Rightarrow> string" where
  "stream_chunk ad st delta finishReason = json_Marshal (ad_num ad) (chunk_json st delta finishReason)"

definition usageChunk :: "anthropicDecoder \<Rightarrow> anthropicStreamState \<Rightarrow> string" where
  "usageChunk ad st = json_Marshal (ad_num ad) (usageChunk_json st)"

definition tool_call_start :: "int \<Rightarrow> string \<Rightarrow> string \<Rightarrow> jobject" where
  "tool_call_start ordinal tid name = [(''tool_calls'', JArray [JObject [(''index'', JInt ordinal), (''id'', JString tid), (''type'', JString ''function''),
     (''function'', JObject [(''name'', JString name), (''arguments'', JString [])])]])]"

definition tool_call_args :: "int \<Rightarrow> string \<Rightarrow> jobject" where
  "tool_call_args ordinal args = [(''tool_calls'', JArray [JObject [(''index'', JInt ordinal), (''function'', JObject [(''arguments'', JString args)])]])]"

definition stream_translate :: "anthropicDecoder \<Rightarrow> sseEvent \<Rightarrow> anthropicStreamState \<Rightarrow> (string list \<times> go_error option) \<times> anthropicStreamState" where
  "stream_translate ad ev st =
     (if se_event ev = ''message_start'' then
        (case ad_messageStart ad (se_data ev) of
           None \<Rightarrow> (([], Some (upstream_error ''decode anthropic message_start event'')), st)
         | Some (mid, us) \<Rightarrow>
             let st1 = st\<lparr>st_id := mid, st_tail := contentChunker_set (chatCompletionIDPrefix @ mid) (st_model st) (st_created st),
                          st_u := (st_u st)\<lparr>us_prompt := totalInputTokens us\<rparr>\<rparr>
             in (([stream_chunk ad st1 [(''role'', JString ''assistant'')] None], None), st1))
      else if se_event ev = ''content_block_start'' then
        (case ad_blockStart ad (se_data ev) of
           None \<Rightarrow> (([], Some (upstream_error ''decode anthropic content_block_start event'')), st)
         | Some p \<Rightarrow>
             if bs_Type p \<noteq> ''tool_use'' then (([], None), st)
             else let ordinal = st_nextToolOrdinal st;
                      st1 = st\<lparr>st_toolOrdinals := (st_toolOrdinals st)(bs_Index p \<mapsto> ordinal), st_nextToolOrdinal := ordinal + 1\<rparr>
                  in (([stream_chunk ad st1 (tool_call_start ordinal (bs_ID p) (bs_Name p)) None], None), st1))
      else if se_event ev = ''content_block_delta'' then
        (case ad_blockDelta ad (se_data ev) of
           None \<Rightarrow> (([], Some (upstream_error ''decode anthropic content_block_delta event'')), st)
         | Some p \<Rightarrow>
             if bd_Type p = ''text_delta'' then (([contentChunker_build (st_tail st) (bd_Text p)], None), st)
             else if bd_Type p = ''input_json_delta''
             then let ordinal = (case st_toolOrdinals st (bd_Index p) of Some n \<Rightarrow> n | None \<Rightarrow> bd_Index p)
                  in (([stream_chunk ad st (tool_call_args ordinal (bd_PartialJSON p)) None], None), st)
             else (([], None), st))
      else if se_event ev = ''message_delta'' then
        (case ad_messageDelta ad (se_data ev) of
           None \<Rightarrow> (([], Some (upstream_error ''decode anthropic message_delta event'')), st)
         | Some (stopReason, us) \<Rightarrow>
             let st1 = st\<lparr>st_u := (st_u st)\<lparr>us_completion := au_OutputTokens us\<rparr>\<rparr>
             in (([stream_chunk ad st1 [] (Some (anthropicFinishReason stopReason))], None), st1))
      else if se_event ev = ''error'' then
        (case ad_error ad (se_data ev) of
           None \<Rightarrow> (([], Some (upstream_error ''decode anthropic error event'')), st)
         | Some (etype, msg) \<Rightarrow>
             (([json_Marshal (ad_num ad) (JObject [(''error'', JObject [(''message'', JString msg), (''type'', JString etype)])])],
               Some (OtherError (''llmgateway: anthropic stream error: '' @ msg))), st))
      else (([], None), st))"

subsection \<open>Requests from Anthropic\<close>

definition anthropicSystemToText :: "json \<Rightarrow> go_error + string" where
  "anthropicSystemToText sys = (case sys of JString s \<Rightarrow> Inr s | JArray parts \<Rightarrow> systemTextFromContentParts parts | _ \<Rightarrow> Inr [])"

definition openAIContentPartFromAnthropicImage :: "jobject \<Rightarrow> go_error + json" where
  "openAIContentPartFromAnthropicImage bm =
     (let src = as_object (jget bm ''source'') in
      if jstr src ''type'' \<noteq> ''base64''
      then Inl (translate_error (''image source type '' @ quoted (jstr src ''type'') @ '' is not supported for this provider''))
      else Inr (JObject [(''type'', JString ''image_url''),
             (''image_url'', JObject [(''url'', JString (''data:'' @ jstr src ''media_type'' @ '';base64,'' @ jstr src ''data''))])]))"

definition openAIToolCallFromAnthropic :: "(float64 \<Rightarrow> string) \<Rightarrow> jobject \<Rightarrow> json" where
  "openAIToolCallFromAnthropic num bm =
     (let input = (case jget bm ''input'' of JNull \<Rightarrow> JObject [] | v \<Rightarrow> v) in
      JObject [(''id'', JString (jstr bm ''id'')), (''type'', JString ''function''),
        (''function'', JObject [(''name'', JString (jstr bm ''name'')), (''arguments'', JString (json_Marshal num input))])])"

fun block_text :: "json \<Rightarrow> string" where
  "block_text (JObject bm) = (case jget bm ''text'' of JString t \<Rightarrow> t | _ \<Rightarrow> [])"
| "block_text _ = []"

definition openAIToolResultContentString :: "json \<Rightarrow> string" where
  "openAIToolResultContentString content = (case content of JString c \<Rightarrow> c | JArray blocks \<Rightarrow> concat (map block_text blocks) | _ \<Rightarrow> [])"

definition openAIToolMessageFromAnthropic :: "jobject \<Rightarrow> json" where
  "openAIToolMessageFromAnthropic bm =
     (let content = openAIToolResultContentString (jget bm ''content'') in
      JObject [(''role'', JString ''tool''), (''tool_call_id'', JString (jstr bm ''tool_use_id'')),
        (''content'', JString (if jget bm ''is_error'' = JBool True then ''Error: '' @ content else content))])"

record messageLoop =
  ml_out :: "json list"
  ml_dropped :: "string list"
  ml_content :: "json list"
  ml_calls :: "json list"

definition flushPending :: "string \<Rightarrow> messageLoop \<Rightarrow> messageLoop" where
  "flushPending role st =
     (if ml_content st = [] \<and> ml_calls st = [] then st
      else st\<lparr>ml_out := ml_out st @ [JObject ([(''role'', JString role),
                 (''content'', if ml_content st \<noteq> [] then JArray (ml_content st) else JNull)]
                 @ (if ml_calls st \<noteq> [] then [(''tool_calls'', JArray (ml_calls st))] else []))],
              ml_content := [], ml_calls := []\<rparr>)"

definition message_block :: "(float64 \<Rightarrow> string) \<Rightarrow> string \<Rightarrow> jobject \<Rightarrow> messageLoop \<Rightarrow> go_error + messageLoop" where
  "message_block num role bm st =
     (let bt = jstr bm ''type'' in
      if bt = ''text'' then Inr (st\<lparr>ml_content := ml_content st @ [text_block (jstr bm ''text'')]\<rparr>)
      else if bt = ''image''
      then bind_sum (openAIContentPartFromAnthropicImage bm) (\<lambda>part. Inr (st\<lparr>ml_content := ml_content st @ [part]\<rparr>))
      else if bt = ''tool_use'' then Inr (st\<lparr>ml_calls := ml_calls st @ [openAIToolCallFromAnthropic num bm]\<rparr>)
      else if bt = ''tool_result''
      then let st1 = flushPending role st in Inr (st1\<lparr>ml_out := ml_out st1 @ [openAIToolMessageFromAnthropic bm]\<rparr>)
      else Inr (if bt \<noteq> [] then st\<lparr>ml_dropped := ml_dropped st @ [bt]\<rparr> else st))"

definition openAIMessagesFromAnthropic :: "(float64 \<Rightarrow> string) \<Rightarrow> string \<Rightarrow> json \<Rightarrow> go_error + json list \<times> string list" where
  "openAIMessagesFromAnthropic num role content =
     (case content of
        JString s \<Rightarrow> Inr ([message_of role (JString s)], [])
      | JArray blocksRaw \<Rightarrow>
          bind_sum (fold_sum (message_block num role) (objects_of blocksRaw) \<lparr>ml_out = [], ml_dropped = [], ml_content = [], ml_calls = []\<rparr>)
            (\<lambda>st. let st1 = flushPending role st in Inr (ml_out st1, ml_dropped st1))
      | _ \<Rightarrow> Inr ([message_of role (JString [])], []))"

definition openai_tool_entry :: "jobject \<Rightarrow> json" where
  "openai_tool_entry tm = JObject [(''type'', JString ''function''),
     (''function'', JObject ([(''name'', jget tm ''name''), (''parameters'', jget tm ''input_schema'')] @ copy_field ''description'' ''description'' tm))]"

definition openAIToolsFromAnthropic :: "json list \<Rightarrow> json list" where
  "openAIToolsFromAnthropic toolsRaw = map openai_tool_entry (objects_of toolsRaw)"

definition openAIToolChoiceFromAnthropic :: "json \<Rightarrow> json option" where
  "openAIToolChoiceFromAnthropic tc =
     (if \<not> is_object tc then None
      else let tm = as_object tc; t = jstr tm ''type'' in
        if t = ''auto'' then Some (JString ''auto'')
        else if t = ''any'' then Some (JString ''required'')
        else if t = ''tool'' then Some (JObject [(''type'', JString ''function''), (''function'', JObject [(''name'', JString (jstr tm ''name''))])])
        else None)"

definition openAIReasoningModelPrefixes :: "string list" where
  "openAIReasoningModelPrefixes = [''o1'', ''o3'', ''o4'', ''gpt-5'']"

definition isOpenAIReasoningModel :: "string \<Rightarrow> bool" where
  "isOpenAIReasoningModel model =
     (let m = (case strings_Cut CHR ''/'' model of Some (_, rest) \<Rightarrow> rest | None \<Rightarrow> model)
      in list_ex (strings_HasPrefix m) openAIReasoningModelPrefixes)"

definition addDropped :: "string \<Rightarrow> string list \<Rightarrow> string list" where
  "addDropped name dropped = (if name \<in> set dropped then dropped else dropped @ [name])"

definition request_system :: "jobject \<Rightarrow> go_error + json list" where
  "request_system req =
     (case map_of req ''system'' of
        None \<Rightarrow> Inr []
      | Some sys \<Rightarrow> bind_sum (anthropicSystemToText sys) (\<lambda>text. Inr (if text \<noteq> [] then [message_of ''system'' (JString text)] else [])))"

definition convert_message :: "(float64 \<Rightarrow> string) \<Rightarrow> jobject \<Rightarrow> json list \<times> string list \<Rightarrow> go_error + json list \<times> string list" where
  "convert_message num msg acc =
     bind_sum (openAIMessagesFromAnthropic num (jstr msg ''role'') (jget msg ''content''))
       (\<lambda>(converted, droppedBlocks). Inr (fst acc @ converted, fold addDropped droppedBlocks (snd acc)))"

definition openai_max_tokens :: "jobject \<Rightarrow> jobject" where
  "openai_max_tokens req =
     (case map_of req ''max_tokens'' of
        None \<Rightarrow> []
      | Some v \<Rightarrow> (case toInt64 v of
            None \<Rightarrow> []
          | Some n \<Rightarrow> [(if isOpenAIReasoningModel (jstr req ''model'') then ''max_completion_tokens'' else ''max_tokens'', JInt n)]))"

definition openai_tool_choice :: "jobject \<Rightarrow> string list \<Rightarrow> jobject \<times> string list" where
  "openai_tool_choice req dropped =
     (case map_of req ''tool_choice'' of
        None \<Rightarrow> ([], dropped)
      | Some tc \<Rightarrow> (case openAIToolChoiceFromAnthropic tc of
            Some choice \<Rightarrow> ([(''tool_choice'', choice)], dropped)
          | None \<Rightarrow> ([], if is_object tc \<and> jget (as_object tc) ''type'' = JString ''none'' then addDropped ''tool_choice:none'' dropped else dropped)))"

definition openAIRequestFromAnthropic :: "(float64 \<Rightarrow> string) \<Rightarrow> jobject \<Rightarrow> go_error + jobject \<times> string list" where
  "openAIRequestFromAnthropic num req =
     bind_sum (request_system req) (\<lambda>sysMsgs.
     bind_sum (fold_sum (convert_message num) (objects_of (as_array (jget req ''messages''))) (sysMsgs, [])) (\<lambda>(msgs, dropped0).
       let (choice, dropped1) = openai_tool_choice req dropped0;
           dropped2 = (if map_of req ''thinking'' \<noteq> None then addDropped ''thinking'' dropped1 else dropped1);
           dropped3 = (if map_of req ''top_k'' \<noteq> None then addDropped ''top_k'' dropped2 else dropped2)
       in Inr ((if jstr req ''model'' \<noteq> [] then [(''model'', JString (jstr req ''model''))] else [])
           @ [(''messages'', JArray msgs)] @ openai_max_tokens req
           @ copy_field ''temperature'' ''temperature'' req @ copy_field ''top_p'' ''top_p'' req
           @ (case jget req ''stop_sequences'' of JArray seqs \<Rightarrow> if seqs \<noteq> [] then [(''stop'', JArray seqs)] else [] | _ \<Rightarrow> [])
           @ (case jget req ''tools'' of JArray ts \<Rightarrow> [(''tools'', JArray (openAIToolsFromAnthropic ts))] | _ \<Rightarrow> [])
           @ choice
           @ (case jget req ''metadata'' of JObject meta \<Rightarrow> copy_field ''user_id'' ''user'' meta | _ \<Rightarrow> []),
           dropped3)))"

subsection \<open>Responses to Anthropic clients\<close>

record openAIToolCall =
  oc_ID :: string
  oc_Name :: string
  oc_Arguments :: string

record openAIChoice =
  oo_FinishReason :: string
  oo_Content :: "string option"
  oo_ToolCalls :: "openAIToolCall list"

record openAIChatResponseBody =
  or_ID :: string
  or_Choices :: "openAIChoice list"
  or_PromptTokens :: int
  or_CompletionTokens :: int

definition anthropicToolInputFromOpenAI :: "(string \<Rightarrow> json option) \<Rightarrow> string \<Rightarrow> go_error + json" where
  "anthropicToolInputFromOpenAI decode argsStr =
     (case (if argsStr = [] then Some (JObject []) else decode argsStr) of
        None \<Rightarrow> Inl (upstream_error ''decode tool_calls[].function.arguments'')
      | Some input \<Rightarrow> Inr input)"

definition anthropicStopReasonFromOpenAI :: "string \<Rightarrow> string" where
  "anthropicStopReasonFromOpenAI finishReason =
     (if finishReason = ''length'' then ''max_tokens'' else if finishReason = ''tool_calls'' then ''tool_use'' else ''end_turn'')"

definition anthropicMessageIDFromOpenAI :: "string \<Rightarrow> string" where
  "anthropicMessageIDFromOpenAI oid = ''msg_'' @ strings_TrimPrefix oid chatCompletionIDPrefix"

definition add_tool_use_content :: "(string \<Rightarrow> json option) \<Rightarrow> openAIToolCall \<Rightarrow> json list \<Rightarrow> go_error + json list" where
  "add_tool_use_content decode tc content =
     bind_sum (anthropicToolInputFromOpenAI decode (oc_Arguments tc)) (\<lambda>input.
       Inr (content @ [JObject [(''type'', JString ''tool_use''), (''id'', JString (oc_ID tc)), (''name'', JString (oc_Name tc)), (''input'', input)]]))"

definition choice_content :: "(string \<Rightarrow> json option) \<Rightarrow> openAIChoice \<Rightarrow> go_error + json list" where
  "choice_content decode choice =
     fold_sum (add_tool_use_content decode) (oo_ToolCalls choice)
       (case oo_Content choice of Some t \<Rightarrow> if t \<noteq> [] then [text_block t] else [] | None \<Rightarrow> [])"

definition anthropicResponseFromOpenAI ::
    "(string \<Rightarrow> json option) \<Rightarrow> (string \<Rightarrow> openAIChatResponseBody option) \<Rightarrow> string \<Rightarrow> string \<Rightarrow> go_error + jobject" where
  "anthropicResponseFromOpenAI decode decodeResponse body model =
     (case decodeResponse body of
        None \<Rightarrow> Inl (upstream_error ''decode openai response'')
      | Some resp \<Rightarrow>
          bind_sum (case or_Choices resp of
              [] \<Rightarrow> Inr ([], ''end_turn'')
            | choice # _ \<Rightarrow> bind_sum (choice_content decode choice) (\<lambda>content. Inr (content, anthropicStopReasonFromOpenAI (oo_FinishReason choice))))
            (\<lambda>(content, stopReason). Inr
              [(''id'', JString (anthropicMessageIDFromOpenAI (or_ID resp))), (''type'', JString ''message''), (''role'', JString ''assistant''),
               (''model'', JString model), (''content'', JArray content), (''stop_reason'', JString stopReason), (''stop_sequence'', JNull),
               (''usage'', JObject [(''input_tokens'', JInt (or_PromptTokens resp)), (''output_tokens'', JInt (or_CompletionTokens resp))])]))"

subsection \<open>The chunks are marshalled JSON\<close>

lemma append_escape_ascii: "(of_char b :: nat) < 128 \<Longrightarrow> escape_ascii b = (if copied_byte b then [b] else append_escape b)"
proof -
  have e: "b = c \<longleftrightarrow> (of_char b :: nat) = of_char c" for c by simp
  show ?thesis unfolding escape_ascii_def copied_byte_def append_escape_def Let_def e [of "CHR 0x22"] e [of "CHR 0x5C"] e [of "CHR 0x08"]
      e [of "CHR 0x0C"] e [of "CHR 0x0A"] e [of "CHR 0x0D"] e [of "CHR 0x09"] e [of "CHR ''<''"] e [of "CHR ''>''"] e [of "CHR ''&''"]
    by auto
qed

lemma append_loop_marshal: "append_loop seg s = seg @ marshal_runes s"
proof (induction seg s rule: append_loop.induct)
  case (1 seg s)
  show ?case
  proof (cases "s = [] \<or> (of_char (hd s) :: nat) < 128")
    case True
    then show ?thesis using 1(1,2) append_escape_ascii [of "hd s"]
      by (subst append_loop.simps, subst marshal_runes.simps) auto
  next
    case False
    obtain r n where d: "decode_rune s = (r, n)" by fastforce
    show ?thesis using False 1(3-5) [OF _ _ d [symmetric]]
      by (subst append_loop.simps, subst marshal_runes.simps) (simp add: d)
  qed
qed

lemma sort_chunk: "sort_key fst [(''id'', a), (''object'', b), (''created'', c), (''model'', d), (''choices'', e)]
    = [(''choices'', e), (''created'', c), (''id'', a), (''model'', d), (''object'', b)]"
  by (simp add: less_list_code)

lemma marshal_runes_copied: "list_all (\<lambda>c. (of_char c :: nat) < 128 \<and> copied_byte c) s \<Longrightarrow> marshal_runes s = s"
proof (induction s)
  case Nil
  then show ?case by (simp add: marshal_runes.simps)
next
  case (Cons c s)
  then show ?case by (subst marshal_runes.simps) (simp add: append_escape_ascii)
qed

lemma marshal_plain: "list_all (\<lambda>c. (of_char c :: nat) < 128 \<and> copied_byte c) s \<Longrightarrow> marshal_string s = quoted s"
  by (simp add: marshal_string_def quoted_def marshal_runes_copied)

lemma sort_choice: "sort_key fst [(''index'', a), (''delta'', b), (''finish_reason'', c)] = [(''delta'', b), (''finish_reason'', c), (''index'', a)]"
  by (simp add: less_list_code)

lemma content_chunk:
  "contentChunker_build (contentChunker_set (chatCompletionIDPrefix @ st_id st) (st_model st) (st_created st)) text
   = json_Marshal num (chunk_json st [(''content'', JString text)] None)"
proof -
  have q: "marshal_string ''choices'' = quoted ''choices''" "marshal_string ''created'' = quoted ''created''" "marshal_string ''id'' = quoted ''id''"
    "marshal_string ''model'' = quoted ''model''" "marshal_string ''object'' = quoted ''object''" "marshal_string ''delta'' = quoted ''delta''"
    "marshal_string ''finish_reason'' = quoted ''finish_reason''" "marshal_string ''index'' = quoted ''index''"
    "marshal_string ''content'' = quoted ''content''" "marshal_string ''chat.completion.chunk'' = quoted ''chat.completion.chunk''"
    by (simp_all add: marshal_plain copied_byte_def)
  have t: "appendJSONString dst text = dst @ marshal_string text" for dst
    by (simp add: appendJSONString_def append_loop_marshal marshal_string_def)
  have z: "itoa 0 = ''0''" by code_simp
  show ?thesis
    by (simp add: contentChunker_build_def contentChunker_set_def contentChunkHead_def chunk_json_def json_Marshal_simps sort_chunk sort_choice q t z)
qed

text \<open>The deltas of an event that is not an error, with the finish reason of each.\<close>

definition event_deltas :: "anthropicDecoder \<Rightarrow> sseEvent \<Rightarrow> anthropicStreamState \<Rightarrow> (jobject \<times> string option) list" where
  "event_deltas ad ev st =
     (if se_event ev = ''message_start'' then (case ad_messageStart ad (se_data ev) of Some p \<Rightarrow> [([(''role'', JString ''assistant'')], None)] | None \<Rightarrow> [])
      else if se_event ev = ''content_block_start''
      then (case ad_blockStart ad (se_data ev) of
              Some p \<Rightarrow> if bs_Type p = ''tool_use'' then [(tool_call_start (st_nextToolOrdinal st) (bs_ID p) (bs_Name p), None)] else [] | None \<Rightarrow> [])
      else if se_event ev = ''content_block_delta''
      then (case ad_blockDelta ad (se_data ev) of
              Some p \<Rightarrow> if bd_Type p = ''text_delta'' then [([(''content'', JString (bd_Text p))], None)]
                        else if bd_Type p = ''input_json_delta''
                        then [(tool_call_args (case st_toolOrdinals st (bd_Index p) of Some n \<Rightarrow> n | None \<Rightarrow> bd_Index p) (bd_PartialJSON p), None)] else []
            | None \<Rightarrow> [])
      else if se_event ev = ''message_delta''
      then (case ad_messageDelta ad (se_data ev) of Some (r, us) \<Rightarrow> [([], Some (anthropicFinishReason r))] | None \<Rightarrow> [])
      else [])"

definition tail_ok :: "anthropicStreamState \<Rightarrow> bool" where
  "tail_ok st \<longleftrightarrow> st_tail st = contentChunker_set (chatCompletionIDPrefix @ st_id st) (st_model st) (st_created st)"

lemma translate_chunks:
  assumes "stream_translate ad ev st = ((chunks, None), st')" and "tail_ok st"
  shows "tail_ok st' \<and> chunks = map (\<lambda>(d, fr). json_Marshal (ad_num ad) (chunk_json st' d fr)) (event_deltas ad ev st)"
  using assms by (auto simp: stream_translate_def event_deltas_def tail_ok_def stream_chunk_def Let_def
      content_chunk [symmetric] split: if_splits option.splits)

subsection \<open>The contract of a stream translator\<close>

text \<open>A translator turns an event into chunks and an updated state; while it reports no error, the chunks are
  renderings of deltas.  Then so is its whole output.\<close>

locale stream_translator =
  fixes step :: "'ev \<Rightarrow> 'st \<Rightarrow> (string list \<times> go_error option) \<times> 'st"
    and ok :: "'st \<Rightarrow> bool"
    and deltas :: "'ev \<Rightarrow> 'st \<Rightarrow> (jobject \<times> string option) list"
    and render :: "'st \<Rightarrow> jobject \<times> string option \<Rightarrow> string"
  assumes step_renders: "step ev st = ((chunks, None), st') \<Longrightarrow> ok st \<Longrightarrow> ok st' \<and> chunks = map (render st') (deltas ev st)"
begin

primrec run :: "'ev list \<Rightarrow> 'st \<Rightarrow> (string list \<times> go_error option) \<times> 'st" where
  "run [] st = (([], None), st)"
| "run (ev # evs) st =
     (case step ev st of
        ((chunks, Some e), st1) \<Rightarrow> ((chunks, Some e), st1)
      | ((chunks, None), st1) \<Rightarrow> (case run evs st1 of ((rest, err), st2) \<Rightarrow> ((chunks @ rest, err), st2)))"

primrec all_deltas :: "'ev list \<Rightarrow> 'st \<Rightarrow> (jobject \<times> string option) list" where
  "all_deltas [] st = []"
| "all_deltas (ev # evs) st = deltas ev st @ all_deltas evs (snd (step ev st))"

lemma run_renders:
  "run evs st = ((chunks, None), st') \<Longrightarrow> ok st \<Longrightarrow>
     ok st' \<and> (\<exists>sts. length sts = length (all_deltas evs st) \<and> chunks = map2 render sts (all_deltas evs st) \<and> list_all ok sts)"
proof (induction evs arbitrary: st chunks)
  case (Cons ev evs)
  obtain cs e st1 where s: "step ev st = ((cs, e), st1)" by (metis surj_pair)
  obtain rest err st2 where r: "run evs st1 = ((rest, err), st2)" by (metis surj_pair)
  have e: "e = None" "err = None" "st2 = st'" "chunks = cs @ rest" using Cons.prems(1) s r by (auto split: option.splits)
  have ok1: "ok st1" "cs = map (render st1) (deltas ev st)" using step_renders [OF s [unfolded e(1)] Cons.prems(2)] by auto
  obtain sts where sts: "length sts = length (all_deltas evs st1)" "rest = map2 render sts (all_deltas evs st1)" "list_all ok sts" "ok st'"
    using Cons.IH [of st1 rest] r e(2,3) ok1(1) by auto
  have "cs = map2 render (replicate (length (deltas ev st)) st1) (deltas ev st)" unfolding ok1(2)
    by (rule nth_equalityI) simp_all
  then show ?case using sts e s ok1(1)
    by (intro conjI exI [of _ "replicate (length (deltas ev st)) st1 @ sts"]) (auto simp: list_all_iff)
qed simp

end

interpretation anthropic: stream_translator "stream_translate ad" tail_ok "event_deltas ad" "\<lambda>st (d, fr). json_Marshal (ad_num ad) (chunk_json st d fr)"
  by unfold_locales (rule translate_chunks)

theorem stream_chunks_are_json:
  assumes "stream_translate ad ev st = ((chunks, None), st')" and "tail_ok st"
  shows "tail_ok st' \<and> chunks = map (\<lambda>(d, fr). json_Marshal (ad_num ad) (chunk_json st' d fr)) (event_deltas ad ev st)"
  using assms by (rule translate_chunks)

subsection \<open>A stream assembles to its message\<close>

text \<open>What a client puts together from the deltas: the text, the tool calls by index with their id, name
  and arguments, and the finish reason.\<close>

record assembled =
  am_content :: string
  am_calls :: "int \<rightharpoonup> string \<times> string \<times> string"
  am_finish :: "string option"

fun as_int :: "json \<Rightarrow> int" where
  "as_int (JInt n) = n" | "as_int _ = 0"

definition add_call :: "jobject \<Rightarrow> (int \<rightharpoonup> string \<times> string \<times> string) \<Rightarrow> (int \<rightharpoonup> string \<times> string \<times> string)" where
  "add_call c calls =
     (let i = as_int (jget c ''index''); fn = as_object (jget c ''function'');
          (cid, name, args) = (case calls i of Some x \<Rightarrow> x | None \<Rightarrow> ([], [], []))
      in calls(i \<mapsto> (cid @ jstr c ''id'', name @ jstr fn ''name'', args @ jstr fn ''arguments'')))"

definition assemble_delta :: "jobject \<times> string option \<Rightarrow> assembled \<Rightarrow> assembled" where
  "assemble_delta d m =
     m\<lparr>am_content := am_content m @ jstr (fst d) ''content'',
       am_calls := fold add_call (objects_of (as_array (jget (fst d) ''tool_calls''))) (am_calls m),
       am_finish := (case snd d of Some r \<Rightarrow> Some r | None \<Rightarrow> am_finish m)\<rparr>"

text \<open>The events of a stream in order: the state, and what has been assembled.\<close>

fun run_events :: "anthropicDecoder \<Rightarrow> sseEvent list \<Rightarrow> anthropicStreamState \<times> assembled \<Rightarrow> anthropicStreamState \<times> assembled" where
  "run_events ad [] x = x"
| "run_events ad (ev # evs) (st, m) = run_events ad evs (snd (stream_translate ad ev st), fold assemble_delta (event_deltas ad ev st) m)"

lemma run_events_append: "run_events ad (xs @ ys) x = run_events ad ys (run_events ad xs x)"
  by (induction ad xs x rule: run_events.induct) auto

definition block_delta_event :: "anthropicDecoder \<Rightarrow> blockDeltaPayload \<Rightarrow> sseEvent \<Rightarrow> bool" where
  "block_delta_event ad p ev \<longleftrightarrow> se_event ev = ''content_block_delta'' \<and> ad_blockDelta ad (se_data ev) = Some p"

text \<open>The events of content block \<open>b\<close> at index \<open>i\<close>: its start, then its text or arguments in pieces;
  other events, such as pings and block stops, may occur anywhere.\<close>

definition other_event :: "sseEvent \<Rightarrow> bool" where
  "other_event ev \<longleftrightarrow> se_event ev \<notin> set [''message_start'', ''content_block_start'', ''content_block_delta'', ''message_delta'', ''error'']"

definition text_piece :: "int \<Rightarrow> string \<Rightarrow> blockDeltaPayload" where
  "text_piece i t = \<lparr>bd_Type = ''text_delta'', bd_Text = t, bd_PartialJSON = [], bd_Index = i\<rparr>"

definition args_piece :: "int \<Rightarrow> string \<Rightarrow> blockDeltaPayload" where
  "args_piece i t = \<lparr>bd_Type = ''input_json_delta'', bd_Text = [], bd_PartialJSON = t, bd_Index = i\<rparr>"

inductive pieces_of :: "anthropicDecoder \<Rightarrow> (string \<Rightarrow> blockDeltaPayload) \<Rightarrow> string \<Rightarrow> sseEvent list \<Rightarrow> bool" for ad f where
  none: "pieces_of ad f [] []"
| piece: "block_delta_event ad (f t) ev \<Longrightarrow> pieces_of ad f rest evs \<Longrightarrow> pieces_of ad f (t @ rest) (ev # evs)"
| other: "other_event ev \<Longrightarrow> pieces_of ad f rest evs \<Longrightarrow> pieces_of ad f rest (ev # evs)"

definition block_events :: "anthropicDecoder \<Rightarrow> int \<Rightarrow> anthropicContentBlock \<Rightarrow> sseEvent list \<Rightarrow> bool" where
  "block_events ad i b evs \<longleftrightarrow> (\<exists>start rest. evs = start # rest \<and> se_event start = ''content_block_start''
     \<and> ad_blockStart ad (se_data start) = Some \<lparr>bs_Type = ab_Type b, bs_ID = ab_ID b, bs_Name = ab_Name b, bs_Index = i\<rparr>
     \<and> (if ab_Type b = ''text'' then pieces_of ad (text_piece i) (ab_Text b) rest
        else if ab_Type b = ''tool_use'' then pieces_of ad (args_piece i) (ab_Input b) rest
        else list_all other_event rest))"

inductive stream_of_blocks :: "anthropicDecoder \<Rightarrow> int \<Rightarrow> anthropicContentBlock list \<Rightarrow> sseEvent list \<Rightarrow> bool" for ad where
  no_block: "stream_of_blocks ad i [] []"
| next_block: "block_events ad i b evs \<Longrightarrow> stream_of_blocks ad (i + 1) bs rest \<Longrightarrow> stream_of_blocks ad i (b # bs) (evs @ rest)"

definition text_of :: "anthropicContentBlock list \<Rightarrow> string" where
  "text_of bs = concat (map ab_Text (filter (\<lambda>b. ab_Type b = ''text'') bs))"

definition calls_of :: "anthropicContentBlock list \<Rightarrow> (string \<times> string \<times> string) list" where
  "calls_of bs = map (\<lambda>b. (ab_ID b, ab_Name b, ab_Input b)) (filter (\<lambda>b. ab_Type b = ''tool_use'') bs)"

definition indexed :: "'a list \<Rightarrow> int \<rightharpoonup> 'a" where
  "indexed xs k = (if 0 \<le> k \<and> k < int (length xs) then Some (xs ! nat k) else None)"

lemma indexed_snoc: "(indexed xs)(int (length xs) \<mapsto> x) = indexed (xs @ [x])"
  by (auto simp: indexed_def fun_eq_iff nth_append nat_less_iff)

lemma other_event_step: "other_event ev \<Longrightarrow> run_events ad [ev] (st, m) = (st, m)"
  by (simp add: other_event_def stream_translate_def event_deltas_def)

lemma text_pieces:
  "pieces_of ad (text_piece i) t evs \<Longrightarrow> run_events ad evs (st, m) = (st, m\<lparr>am_content := am_content m @ t\<rparr>)"
proof (induction arbitrary: m rule: pieces_of.induct)
  case (piece t ev rest evs)
  then show ?case
    by (simp add: block_delta_event_def stream_translate_def event_deltas_def text_piece_def assemble_delta_def jget_def objects_of_def)
next
  case (other ev rest evs)
  then show ?case using other_event_step [of ev ad st m] by simp
qed simp

lemma args_pieces:
  "pieces_of ad (args_piece i) t evs \<Longrightarrow> st_toolOrdinals st i = Some n \<Longrightarrow> am_calls m n = Some (cid, name, args) \<Longrightarrow>
     run_events ad evs (st, m) = (st, m\<lparr>am_calls := (am_calls m)(n \<mapsto> (cid, name, args @ t))\<rparr>)"
proof (induction arbitrary: m args rule: pieces_of.induct)
  case none
  then show ?case by (simp add: map_upd_triv)
next
  case (piece t ev rest evs)
  let ?m = "m\<lparr>am_calls := (am_calls m)(n \<mapsto> (cid, name, args @ t))\<rparr>"
  have "run_events ad [ev] (st, m) = (st, ?m)"
    using piece.hyps(1) piece.prems
    by (simp add: block_delta_event_def stream_translate_def event_deltas_def args_piece_def assemble_delta_def tool_call_args_def jget_def
        objects_of_def add_call_def Let_def)
  then show ?case using piece.IH [of ?m "args @ t"] piece.prems by (simp cong: if_cong)
next
  case (other ev rest evs)
  then show ?case using other_event_step [of ev ad st m] by simp
qed

lemma others_run: "list_all other_event evs \<Longrightarrow> run_events ad evs (st, m) = (st, m)"
  by (induction evs) (auto simp: other_event_def stream_translate_def event_deltas_def)

lemma start_event:
  assumes "se_event start = ''content_block_start''" and "ad_blockStart ad (se_data start) = Some p"
  shows "run_events ad [start] (st, m) =
    (if bs_Type p = ''tool_use''
     then (st\<lparr>st_toolOrdinals := (st_toolOrdinals st)(bs_Index p \<mapsto> st_nextToolOrdinal st), st_nextToolOrdinal := st_nextToolOrdinal st + 1\<rparr>,
           m\<lparr>am_calls := add_call (as_object (hd (as_array (jget (tool_call_start (st_nextToolOrdinal st) (bs_ID p) (bs_Name p)) ''tool_calls'')))) (am_calls m)\<rparr>)
     else (st, m))"
  using assms by (simp add: stream_translate_def event_deltas_def assemble_delta_def tool_call_start_def jget_def objects_of_def Let_def)

lemma block_run:
  assumes "block_events ad i b evs" and "st_nextToolOrdinal st = int (length cs)" and "am_calls m = indexed cs"
  shows "\<exists>st'. run_events ad evs (st, m) = (st', m\<lparr>am_content := am_content m @ text_of [b], am_calls := indexed (cs @ calls_of [b])\<rparr>)
    \<and> st_nextToolOrdinal st' = int (length (cs @ calls_of [b])) \<and> st_u st' = st_u st \<and> st_id st' = st_id st"
proof -
  obtain start rest where e: "evs = start # rest" "se_event start = ''content_block_start''"
    "ad_blockStart ad (se_data start) = Some \<lparr>bs_Type = ab_Type b, bs_ID = ab_ID b, bs_Name = ab_Name b, bs_Index = i\<rparr>"
    and r: "if ab_Type b = ''text'' then pieces_of ad (text_piece i) (ab_Text b) rest
        else if ab_Type b = ''tool_use'' then pieces_of ad (args_piece i) (ab_Input b) rest
        else list_all other_event rest"
    using assms(1) by (auto simp: block_events_def)
  have split: "run_events ad evs (st, m) = run_events ad rest (run_events ad [start] (st, m))"
    using run_events_append [of ad "[start]" rest "(st, m)"] e(1) by simp
  note s = start_event [OF e(2,3), of st m]
  consider "ab_Type b = ''text''" | "ab_Type b = ''tool_use''" | "ab_Type b \<noteq> ''text''" "ab_Type b \<noteq> ''tool_use''" by blast
  then show ?thesis
  proof cases
    case 1
    then show ?thesis using r s assms(2,3) by (simp add: split text_pieces text_of_def calls_of_def)
  next
    case 2
    let ?n = "int (length cs)" and ?st = "st\<lparr>st_toolOrdinals := (st_toolOrdinals st)(i \<mapsto> st_nextToolOrdinal st), st_nextToolOrdinal := st_nextToolOrdinal st + 1\<rparr>"
    have "run_events ad [start] (st, m) = (?st, m\<lparr>am_calls := (am_calls m)(?n \<mapsto> (ab_ID b, ab_Name b, []))\<rparr>)"
      using s 2 assms(2,3) by (simp add: tool_call_start_def jget_def add_call_def indexed_def Let_def)
    then have "run_events ad evs (st, m) = (?st, m\<lparr>am_calls := (am_calls m)(?n \<mapsto> (ab_ID b, ab_Name b, ab_Input b))\<rparr>)"
      using r 2 args_pieces [of ad i "ab_Input b" rest ?st ?n "m\<lparr>am_calls := (am_calls m)(?n \<mapsto> (ab_ID b, ab_Name b, []))\<rparr>" "ab_ID b" "ab_Name b" "[]"] assms(2)
      by (simp add: split cong: if_cong)
    then show ?thesis using 2 assms(2,3) by (simp add: text_of_def calls_of_def indexed_snoc del: fun_upd_apply)
  next
    case 3
    then show ?thesis using r s assms(2,3) by (simp add: split others_run text_of_def calls_of_def)
  qed
qed

lemma blocks_run:
  "stream_of_blocks ad i bs evs \<Longrightarrow> st_nextToolOrdinal st = int (length cs) \<Longrightarrow> am_calls m = indexed cs \<Longrightarrow>
     \<exists>st'. run_events ad evs (st, m) = (st', m\<lparr>am_content := am_content m @ text_of bs, am_calls := indexed (cs @ calls_of bs)\<rparr>)
       \<and> st_u st' = st_u st \<and> st_id st' = st_id st"
proof (induction arbitrary: st m cs rule: stream_of_blocks.induct)
  case (no_block i)
  then show ?case by (simp add: text_of_def calls_of_def)
next
  case (next_block i b evs bs rest)
  from block_run [OF next_block.hyps(1) next_block.prems] obtain st1 where st1:
    "run_events ad evs (st, m) = (st1, m\<lparr>am_content := am_content m @ text_of [b], am_calls := indexed (cs @ calls_of [b])\<rparr>)"
    "st_nextToolOrdinal st1 = int (length (cs @ calls_of [b]))" "st_u st1 = st_u st" "st_id st1 = st_id st" by blast
  have app: "text_of (b # bs) = text_of [b] @ text_of bs" "calls_of (b # bs) = calls_of [b] @ calls_of bs"
    by (simp_all add: text_of_def calls_of_def)
  from next_block.IH [OF st1(2), of "m\<lparr>am_content := am_content m @ text_of [b], am_calls := indexed (cs @ calls_of [b])\<rparr>"]
  show ?case using st1 by (auto simp: run_events_append app)
qed

text \<open>The whole stream of a message.\<close>

definition stream_of_message :: "anthropicDecoder \<Rightarrow> anthropicResponseBody \<Rightarrow> sseEvent list \<Rightarrow> bool" where
  "stream_of_message ad resp evs \<longleftrightarrow> (\<exists>start blocks stop us0 rest. evs = start # blocks @ stop # rest
     \<and> se_event start = ''message_start'' \<and> ad_messageStart ad (se_data start) = Some (ar_ID resp, us0) \<and> totalInputTokens us0 = totalInputTokens (ar_Usage resp)
     \<and> stream_of_blocks ad 0 (ar_Content resp) blocks
     \<and> se_event stop = ''message_delta'' \<and> ad_messageDelta ad (se_data stop) = Some (ar_StopReason resp, ar_Usage resp) \<and> list_all other_event rest)"

definition nothing_assembled :: assembled where
  "nothing_assembled = \<lparr>am_content = [], am_calls = Map.empty, am_finish = None\<rparr>"


subsection \<open>Turns survive the translation and back\<close>

datatype content_item = Text_item string | Image_item string string

fun item_block :: "content_item \<Rightarrow> json" where
  "item_block (Text_item t) = text_block t"
| "item_block (Image_item mediaType data) = JObject [(''type'', JString ''image''), (''source'',
     JObject [(''type'', JString ''base64''), (''media_type'', JString mediaType), (''data'', JString data)])]"

text \<open>A media type has no separator of a data URI in it.\<close>

fun item_ok :: "content_item \<Rightarrow> bool" where
  "item_ok (Text_item t) = True"
| "item_ok (Image_item mediaType data) = (CHR '';'' \<notin> set mediaType \<and> CHR '','' \<notin> set mediaType)"

definition tool_use_block :: "string \<times> string \<times> jobject \<Rightarrow> json" where
  "tool_use_block = (\<lambda>(tid, name, input). JObject [(''type'', JString ''tool_use''), (''id'', JString tid), (''name'', JString name), (''input'', JObject input)])"

fun item_part :: "content_item \<Rightarrow> json" where
  "item_part (Text_item t) = text_block t"
| "item_part (Image_item mediaType data) = JObject [(''type'', JString ''image_url''), (''image_url'', JObject [(''url'', JString (''data:'' @ mediaType @ '';base64,'' @ data))])]"

definition call_entry :: "(float64 \<Rightarrow> string) \<Rightarrow> string \<times> string \<times> jobject \<Rightarrow> json" where
  "call_entry num = (\<lambda>(tid, name, input). JObject [(''id'', JString tid), (''type'', JString ''function''),
        (''function'', JObject [(''name'', JString name), (''arguments'', JString (json_Marshal num (JObject input)))])])"

lemma objects_of_simps [simp]: "objects_of [] = []" "objects_of (JObject m # xs) = m # objects_of xs" "objects_of (xs @ ys) = objects_of xs @ objects_of ys"
  by (simp_all add: objects_of_def)

lemma fold_sum_append: "fold_sum f (xs @ ys) s = bind_sum (fold_sum f xs s) (fold_sum f ys)"
proof (induction xs arbitrary: s)
  case (Cons x xs)
  then show ?case by (cases "f x s") simp_all
qed simp

lemma item_block_step:
  "\<exists>m. item_block x = JObject m \<and> message_block num role m st = Inr (st\<lparr>ml_content := ml_content st @ [item_part x]\<rparr>)"
  by (cases x) (auto simp: text_block_def message_block_def openAIContentPartFromAnthropicImage_def jget_def Let_def)

lemma items_step: "fold_sum (message_block num role) (objects_of (map item_block xs)) st = Inr (st\<lparr>ml_content := ml_content st @ map item_part xs\<rparr>)"
proof (induction xs arbitrary: st)
  case (Cons x xs)
  obtain m where "item_block x = JObject m" "message_block num role m st = Inr (st\<lparr>ml_content := ml_content st @ [item_part x]\<rparr>)"
    using item_block_step by blast
  then show ?case by (simp add: Cons.IH)
qed simp

lemma calls_step: "fold_sum (message_block num role) (objects_of (map tool_use_block ts)) st = Inr (st\<lparr>ml_calls := ml_calls st @ map (call_entry num) ts\<rparr>)"
proof (induction ts arbitrary: st)
  case (Cons t ts)
  then show ?case
    by (simp add: tool_use_block_def message_block_def openAIToolCallFromAnthropic_def call_entry_def jget_def split_def Let_def)
qed simp

lemma data_uri_source:
  "CHR '';'' \<notin> set mt \<Longrightarrow> CHR '','' \<notin> set mt \<Longrightarrow> anthropicImageSourceFromDataURI (''data:'' @ mt @ '';base64,'' @ d)
     = Inr [(''type'', JString ''base64''), (''media_type'', JString mt), (''data'', JString d)]"
proof -
  assume mt: "CHR '';'' \<notin> set mt" "CHR '','' \<notin> set mt"
  have "strings_Cut CHR '','' (mt @ '';base64,'' @ d) = Some (mt @ '';base64'', d)" by (simp add: strings_Cut_Some mt)
  moreover have "strings_Cut CHR '';'' (mt @ '';base64'') = Some (mt, ''base64'')" by (simp add: strings_Cut_Some mt)
  moreover have "dataURIHasBase64Param ''base64''" by code_simp
  ultimately show ?thesis by (simp add: anthropicImageSourceFromDataURI_def strings_TrimPrefix_def strings_HasPrefix_def)
qed

lemma item_part_back: "item_ok x \<Longrightarrow> \<exists>m. item_part x = JObject m \<and> add_content_block m bs = Inr (bs @ [item_block x])"
  by (cases x) (auto simp: text_block_def add_content_block_def anthropicContentBlockFromOpenAI_def jget_def data_uri_source [simplified])

lemma items_back: "list_all item_ok xs \<Longrightarrow> fold_sum add_content_block (objects_of (map item_part xs)) bs = Inr (bs @ map item_block xs)"
proof (induction xs arbitrary: bs)
  case (Cons x xs)
  obtain m where "item_part x = JObject m" "add_content_block m bs = Inr (bs @ [item_block x])" using item_part_back Cons.prems by force
  then show ?case using Cons by simp
qed simp

lemma marshal_object_nonempty: "json_Marshal num (JObject m) \<noteq> []"
  by (simp add: json_Marshal_simps)

lemma calls_back:
  "\<forall>t\<in>set ts. decode (json_Marshal num (JObject (snd (snd t)))) = Some (JObject (snd (snd t))) \<Longrightarrow>
     fold_sum (add_tool_use decode) (map (call_entry num) ts) bs = Inr (bs @ map tool_use_block ts)"
proof (induction ts arbitrary: bs)
  case (Cons t ts)
  have "add_tool_use decode (call_entry num t) bs = Inr (bs @ [tool_use_block t])"
    using Cons.prems by (simp add: add_tool_use_def anthropicToolUseBlockFromOpenAI_def call_entry_def tool_use_block_def jget_def split_def marshal_object_nonempty)
  then show ?case using Cons by simp
qed simp

text \<open>An assistant turn of texts and images followed by tool calls becomes one OpenAI message, and that
  message is translated back to the turn.\<close>

lemma assistant_turn_out:
  assumes "xs \<noteq> [] \<or> ts \<noteq> []"
  shows "openAIMessagesFromAnthropic num role (JArray (map item_block xs @ map tool_use_block ts))
    = Inr ([JObject ([(''role'', JString role), (''content'', if xs \<noteq> [] then JArray (map item_part xs) else JNull)]
        @ (if ts \<noteq> [] then [(''tool_calls'', JArray (map (call_entry num) ts))] else []))], [])"
  using assms by (auto simp: openAIMessagesFromAnthropic_def fold_sum_append items_step calls_step flushPending_def)

lemma assistant_turn_back:
  assumes "list_all item_ok xs" and "xs \<noteq> [] \<or> ts \<noteq> []"
    and "\<forall>t\<in>set ts. decode (json_Marshal num (JObject (snd (snd t)))) = Some (JObject (snd (snd t)))"
  shows "\<exists>m. openAIMessagesFromAnthropic num ''assistant'' (JArray (map item_block xs @ map tool_use_block ts)) = Inr ([JObject m], [])
    \<and> anthropicMessageFromOpenAI decode m ''assistant'' = Inr (message_of ''assistant'' (JArray (map item_block xs @ map tool_use_block ts)))"
  unfolding assistant_turn_out [OF assms(2)] using items_back [OF assms(1), of "[]"] calls_back [OF assms(3)] assms(2)
  by (auto simp: anthropicMessageFromOpenAI_def jget_def content_blocks_def message_of_def Let_def)

text \<open>C34: An assistant turn of texts and images followed by tool calls becomes exactly one OpenAI
  message, and translating that message back gives the turn again.\<close>

theorem assistant_turn_roundtrip:
  assumes "list_all item_ok xs" and "xs \<noteq> [] \<or> ts \<noteq> []"
    and "\<forall>t\<in>set ts. decode (json_Marshal num (JObject (snd (snd t)))) = Some (JObject (snd (snd t)))"
  shows "\<exists>m. openAIMessagesFromAnthropic num ''assistant'' (JArray (map item_block xs @ map tool_use_block ts)) = Inr ([JObject m], [])
    \<and> anthropicMessageFromOpenAI decode m ''assistant'' = Inr (message_of ''assistant'' (JArray (map item_block xs @ map tool_use_block ts)))"
  using assms by (rule assistant_turn_back)

definition demo_args :: string where
  "demo_args = [CHR ''{'', CHR 0x22, CHR ''q'', CHR 0x22, CHR '':'', CHR 0x22, CHR ''x'', CHR 0x22, CHR ''}'']"

theorem assistant_turn_roundtrip_witness:
  "\<exists>m. openAIMessagesFromAnthropic (\<lambda>_. ''0'') ''assistant'' (JArray [text_block ''hi'', item_block (Image_item ''image/png'' ''AA=,;''), tool_use_block (''t1'', ''f'', [(''q'', JString ''x'')])])
      = Inr ([JObject m], [])
    \<and> anthropicMessageFromOpenAI (\<lambda>s. if s = demo_args then Some (JObject [(''q'', JString ''x'')]) else None) m ''assistant''
      = Inr (message_of ''assistant'' (JArray [text_block ''hi'', item_block (Image_item ''image/png'' ''AA=,;''), tool_use_block (''t1'', ''f'', [(''q'', JString ''x'')])]))"
proof -
  let ?decode = "\<lambda>s. if s = demo_args then Some (JObject [(''q'', JString ''x'')]) else None"
  have q: "marshal_string ''q'' = quoted ''q''" "marshal_string ''x'' = quoted ''x''" by (simp_all add: marshal_plain copied_byte_def)
  have d: "json_Marshal (\<lambda>_. ''0'') (JObject [(''q'', JString ''x'')]) = demo_args"
    by (simp add: json_Marshal_simps demo_args_def q quoted_def)
  show ?thesis
    using assistant_turn_roundtrip [of "[Text_item ''hi'', Image_item ''image/png'' ''AA=,;'']" "[(''t1'', ''f'', [(''q'', JString ''x'')])]" ?decode "\<lambda>_. ''0''"]
    by (simp add: d del: item_block.simps(2))
qed

subsection \<open>Tool results keep their place\<close>

definition prefixed :: "json list \<Rightarrow> string list \<Rightarrow> messageLoop \<Rightarrow> messageLoop" where
  "prefixed out dropped st = st\<lparr>ml_out := out @ ml_out st, ml_dropped := dropped @ ml_dropped st\<rparr>"

lemma flush_prefixed: "flushPending role (prefixed out dropped st) = prefixed out dropped (flushPending role st)"
  by (simp add: flushPending_def prefixed_def)

lemma message_block_prefixed:
  "message_block num role bm (prefixed out dropped st) = bind_sum (message_block num role bm st) (\<lambda>st'. Inr (prefixed out dropped st'))"
  by (cases "openAIContentPartFromAnthropicImage bm") (simp_all add: message_block_def Let_def flush_prefixed, simp_all add: prefixed_def)

lemma message_blocks_prefixed:
  "fold_sum (message_block num role) bs (prefixed out dropped st) = bind_sum (fold_sum (message_block num role) bs st) (\<lambda>st'. Inr (prefixed out dropped st'))"
proof (induction bs arbitrary: st)
  case (Cons b bs)
  then show ?case by (cases "message_block num role b st") (simp_all add: message_block_prefixed)
qed simp

text \<open>What comes before a tool result stays before its message and what comes after it stays after: the
  messages of the turn are those of the two parts around the tool message.\<close>

lemma tool_result_between:
  assumes "jstr r ''type'' = ''tool_result''"
  shows "openAIMessagesFromAnthropic num role (JArray (pre @ JObject r # post)) =
    bind_sum (openAIMessagesFromAnthropic num role (JArray pre)) (\<lambda>(out1, dropped1).
      bind_sum (openAIMessagesFromAnthropic num role (JArray post)) (\<lambda>(out2, dropped2).
        Inr (out1 @ openAIToolMessageFromAnthropic r # out2, dropped1 @ dropped2)))"
proof (cases "fold_sum (message_block num role) (objects_of pre) \<lparr>ml_out = [], ml_dropped = [], ml_content = [], ml_calls = []\<rparr>")
  case (Inr st)
  let ?st1 = "flushPending role st" and ?e = "\<lparr>ml_out = [], ml_dropped = [], ml_content = [], ml_calls = []\<rparr>"
  have e: "message_block num role r st = Inr (prefixed (ml_out ?st1 @ [openAIToolMessageFromAnthropic r]) (ml_dropped ?st1) ?e)"
    using assms by (auto simp: message_block_def prefixed_def flushPending_def)
  show ?thesis
    by (cases "fold_sum (message_block num role) (objects_of post) ?e")
      (simp_all add: openAIMessagesFromAnthropic_def fold_sum_append Inr e message_blocks_prefixed flush_prefixed Let_def, simp add: prefixed_def)
qed (simp add: openAIMessagesFromAnthropic_def fold_sum_append)

theorem tool_result_keeps_place:
  assumes "jstr r ''type'' = ''tool_result''"
  shows "openAIMessagesFromAnthropic num role (JArray (pre @ JObject r # post)) =
    bind_sum (openAIMessagesFromAnthropic num role (JArray pre)) (\<lambda>(out1, dropped1).
      bind_sum (openAIMessagesFromAnthropic num role (JArray post)) (\<lambda>(out2, dropped2).
        Inr (out1 @ openAIToolMessageFromAnthropic r # out2, dropped1 @ dropped2)))"
  using assms by (rule tool_result_between)

theorem tool_result_keeps_place_witness:
  "openAIMessagesFromAnthropic (\<lambda>_. ''0'') ''user'' (JArray ([] @ JObject [(''type'', JString ''tool_result''), (''tool_use_id'', JString ''t1''), (''is_error'', JBool True)] # [text_block ''go on'']))
     = Inr ([JObject [(''role'', JString ''tool''), (''tool_call_id'', JString ''t1''), (''content'', JString ''Error: '')],
             JObject [(''role'', JString ''user''), (''content'', JArray [text_block ''go on''])]], [])"
  using tool_result_keeps_place [of "[(''type'', JString ''tool_result''), (''tool_use_id'', JString ''t1''), (''is_error'', JBool True)]" "\<lambda>_. ''0''" "''user''" "[]" "[text_block ''go on'']"]
  by (simp add: jget_def openAIMessagesFromAnthropic_def message_block_def flushPending_def text_block_def openAIToolMessageFromAnthropic_def openAIToolResultContentString_def Let_def)

subsection \<open>A stream, concretely\<close>

definition demo_usage :: anthropicUsagePayload where
  "demo_usage = \<lparr>au_InputTokens = 3, au_OutputTokens = 7, au_CacheCreationInputTokens = 1, au_CacheReadInputTokens = 1\<rparr>"

definition demo_response :: anthropicResponseBody where
  "demo_response = \<lparr>ar_ID = ''m1'', ar_StopReason = ''tool_use'',
     ar_Content = [\<lparr>ab_Type = ''text'', ab_Text = ''ab'', ab_ID = [], ab_Name = [], ab_Input = []\<rparr>,
       \<lparr>ab_Type = ''tool_use'', ab_Text = [], ab_ID = ''t1'', ab_Name = ''f'', ab_Input = ''{}''\<rparr>], ar_Usage = demo_usage\<rparr>"

definition demo_ad :: anthropicDecoder where
  "demo_ad = \<lparr>ad_any = \<lambda>_. None, ad_response = \<lambda>_. None, ad_messageStart = [''1'' \<mapsto> (''m1'', demo_usage)],
     ad_blockStart = [''2'' \<mapsto> \<lparr>bs_Type = ''text'', bs_ID = [], bs_Name = [], bs_Index = 0\<rparr>, ''5'' \<mapsto> \<lparr>bs_Type = ''tool_use'', bs_ID = ''t1'', bs_Name = ''f'', bs_Index = 1\<rparr>],
     ad_blockDelta = [''3'' \<mapsto> text_piece 0 ''a'', ''4'' \<mapsto> text_piece 0 ''b'', ''6'' \<mapsto> args_piece 1 ''{}''],
     ad_messageDelta = [''7'' \<mapsto> (''tool_use'', demo_usage)], ad_error = \<lambda>_. None, ad_num = \<lambda>_. ''0''\<rparr>"

definition demo_event :: "string \<Rightarrow> string \<Rightarrow> sseEvent" where
  "demo_event e d = \<lparr>se_event = e, se_data = d\<rparr>"

definition demo_stream :: "sseEvent list" where
  "demo_stream = [demo_event ''message_start'' ''1'', demo_event ''content_block_start'' ''2'', demo_event ''content_block_delta'' ''3'', demo_event ''ping'' ''{}'',
     demo_event ''content_block_delta'' ''4'', demo_event ''content_block_start'' ''5'', demo_event ''content_block_delta'' ''6'', demo_event ''message_delta'' ''7'']"

lemma demo_stream_of_message: "stream_of_message demo_ad demo_response demo_stream"
proof -
  let ?ev = demo_event and ?d = "''content_block_delta''"
  have t: "pieces_of demo_ad (text_piece 0) (''a'' @ ''b'' @ []) [?ev ?d ''3'', ?ev ''ping'' ''{}'', ?ev ?d ''4'']"
    by (intro pieces_of.intros) (simp_all add: block_delta_event_def other_event_def demo_event_def demo_ad_def)
  have a: "pieces_of demo_ad (args_piece 1) (''{}'' @ []) [?ev ?d ''6'']"
    by (intro pieces_of.intros) (simp_all add: block_delta_event_def demo_event_def demo_ad_def)
  have b0: "block_events demo_ad 0 (ar_Content demo_response ! 0) [?ev ''content_block_start'' ''2'', ?ev ?d ''3'', ?ev ''ping'' ''{}'', ?ev ?d ''4'']"
    using t by (simp add: block_events_def demo_response_def) (simp add: demo_event_def demo_ad_def)
  have b1: "block_events demo_ad (0 + 1) (ar_Content demo_response ! 1) [?ev ''content_block_start'' ''5'', ?ev ?d ''6'']"
    using a by (simp add: block_events_def demo_response_def) (simp add: demo_event_def demo_ad_def)
  have bs: "stream_of_blocks demo_ad 0 (ar_Content demo_response)
    [?ev ''content_block_start'' ''2'', ?ev ?d ''3'', ?ev ''ping'' ''{}'', ?ev ?d ''4'', ?ev ''content_block_start'' ''5'', ?ev ?d ''6'']"
    using next_block [OF b0 next_block [OF b1 no_block]] by (simp add: demo_response_def)
  show ?thesis unfolding stream_of_message_def
    by (rule exI [of _ "?ev ''message_start'' ''1''"], rule exI, rule exI [of _ "?ev ''message_delta'' ''7''"], rule exI [of _ demo_usage], rule exI [of _ "[]"],
        intro conjI, rule_tac [5] bs)
      (simp_all add: demo_stream_def, simp_all add: demo_event_def demo_ad_def demo_response_def)
qed


theorem stream_chunks_are_json_witness:
  "(\<exists>chunks. fst (stream_translate demo_ad (demo_event ''content_block_delta'' ''3'') (newAnthropicStreamState ''claude'' 0)) = (chunks, None)
     \<and> chunks = [json_Marshal (\<lambda>_. ''0'') (chunk_json (newAnthropicStreamState ''claude'' 0) [(''content'', JString ''a'')] None)])"
proof -
  let ?st = "newAnthropicStreamState ''claude'' 0" and ?ev = "demo_event ''content_block_delta'' ''3''"
  have "stream_translate demo_ad ?ev ?st = (([contentChunker_build (st_tail ?st) ''a''], None), ?st)"
    by (simp add: stream_translate_def demo_event_def demo_ad_def text_piece_def)
  moreover have "tail_ok ?st" by (simp add: tail_ok_def newAnthropicStreamState_def)
  moreover have "event_deltas demo_ad ?ev ?st = [([(''content'', JString ''a'')], None)]" "ad_num demo_ad = (\<lambda>_. ''0'')"
    by (simp_all add: event_deltas_def demo_event_def demo_ad_def text_piece_def)
  ultimately show ?thesis using stream_chunks_are_json [of demo_ad ?ev ?st "[contentChunker_build (st_tail ?st) ''a'']" ?st] by simp
qed

end
