(* ===== verification/TranslateGemini.thy ===== *)
theory TranslateGemini
  imports TranslateAnthropic
begin

text \<open>
  Translation between the OpenAI and the Gemini formats (translate_gemini.go, translate_gemini_images.go):
  chat requests, responses and streams, embeddings and images.  As for Anthropic, decoding JSON into the
  structures of the source is a parameter.

  A streamed answer, put together by a client, is the answer the non-streaming translation gives for the
  same parts.
\<close>

subsection \<open>Requests\<close>

definition geminiAPIPrefix :: string where "geminiAPIPrefix = ''/v1beta/models/''"

definition geminiUnsupportedFieldError :: "string \<Rightarrow> go_error" where
  "geminiUnsupportedFieldError field = translate_error (field @ '' is not supported for gemini models'')"

definition gemini_system_text :: "json \<Rightarrow> string list \<Rightarrow> go_error + string list" where
  "gemini_system_text part texts =
     (if \<not> is_object part then Inl (translate_error ''system message content[] entries must be objects'')
      else let pm = as_object part in
        if jstr pm ''type'' \<noteq> ''text''
        then Inl (translate_error (''system message content part type '' @ quoted (jstr pm ''type'') @ '' is not supported for gemini models''))
        else Inr (texts @ [jstr pm ''text'']))"

definition geminiSystemTextFromContentParts :: "json list \<Rightarrow> go_error + string" where
  "geminiSystemTextFromContentParts parts = bind_sum (fold_sum gemini_system_text parts []) (\<lambda>texts. Inr (strings_Join [LF] texts))"

definition geminiInlineDataFromDataURI :: "string \<Rightarrow> go_error + jobject" where
  "geminiInlineDataFromDataURI uri =
     (if \<not> strings_HasPrefix uri ''data:''
      then Inl (translate_error ''image_url must be a data: URI (http(s) image URLs are not supported for gemini models)'')
      else (case strings_Cut CHR '','' (strings_TrimPrefix uri ''data:'') of
              None \<Rightarrow> Inl (translate_error ''malformed data: URI in image_url'')
            | Some (header, data) \<Rightarrow>
                let (mimeType, rawParams) = (case strings_Cut CHR '';'' header of Some x \<Rightarrow> x | None \<Rightarrow> (header, [])) in
                if \<not> dataURIHasBase64Param rawParams then Inl (translate_error ''data: URI in image_url must be base64-encoded'')
                else Inr [(''mimeType'', JString mimeType), (''data'', JString data)]))"

definition text_part :: "string \<Rightarrow> json" where
  "text_part t = JObject [(''text'', JString t)]"

definition geminiPartFromOpenAI :: "jobject \<Rightarrow> go_error + json option" where
  "geminiPartFromOpenAI pm =
     (if jstr pm ''type'' = ''text'' then Inr (Some (text_part (jstr pm ''text'')))
      else if jstr pm ''type'' = ''image_url''
      then bind_sum (geminiInlineDataFromDataURI (jstr (as_object (jget pm ''image_url'')) ''url''))
             (\<lambda>inline. Inr (Some (JObject [(''inlineData'', JObject inline)])))
      else Inr None)"

definition function_call_part :: "string \<Rightarrow> json \<Rightarrow> json" where
  "function_call_part name args = JObject [(''functionCall'', JObject [(''name'', JString name), (''args'', args)])]"

definition geminiFunctionCallPartFromOpenAI :: "(string \<Rightarrow> json option) \<Rightarrow> json \<Rightarrow> go_error + json \<times> string \<times> string" where
  "geminiFunctionCallPartFromOpenAI decode tc =
     (if \<not> is_object tc then Inl (translate_error ''assistant tool_calls[] entry is malformed'')
      else let tm = as_object tc; fn = as_object (jget tm ''function''); argsStr = jstr fn ''arguments'' in
        (case (if argsStr = [] then Some (JObject []) else decode argsStr) of
           None \<Rightarrow> Inl (translate_error ''assistant tool_calls[].function.arguments is not valid JSON'')
         | Some args \<Rightarrow> Inr (function_call_part (jstr fn ''name'') args, jstr tm ''id'', jstr fn ''name'')))"

definition add_part :: "jobject \<Rightarrow> json list \<Rightarrow> go_error + json list" where
  "add_part pm parts = bind_sum (geminiPartFromOpenAI pm) (\<lambda>p. Inr (case p of Some x \<Rightarrow> parts @ [x] | None \<Rightarrow> parts))"

definition content_parts :: "json \<Rightarrow> go_error + json list" where
  "content_parts c =
     (case c of
        JString s \<Rightarrow> Inr (if s \<noteq> [] then [text_part s] else [])
      | JArray ps \<Rightarrow> fold_sum add_part (objects_of ps) []
      | _ \<Rightarrow> Inr [])"

definition add_function_call :: "(string \<Rightarrow> json option) \<Rightarrow> json \<Rightarrow> json list \<times> (string \<rightharpoonup> string) \<Rightarrow> go_error + json list \<times> (string \<rightharpoonup> string)" where
  "add_function_call decode tc acc =
     bind_sum (geminiFunctionCallPartFromOpenAI decode tc) (\<lambda>(part, tid, name).
       Inr (fst acc @ [part], if tid \<noteq> [] then (snd acc)(tid \<mapsto> name) else snd acc))"

definition gemini_content :: "string \<Rightarrow> json list \<Rightarrow> json" where
  "gemini_content role parts = JObject [(''role'', JString role), (''parts'', JArray parts)]"

definition geminiMessageFromOpenAI :: "(string \<Rightarrow> json option) \<Rightarrow> jobject \<Rightarrow> string \<Rightarrow> (string \<rightharpoonup> string) \<Rightarrow> go_error + json \<times> (string \<rightharpoonup> string)" where
  "geminiMessageFromOpenAI decode msg geminiRole toolNameByID =
     bind_sum (content_parts (jget msg ''content'')) (\<lambda>parts.
     bind_sum (fold_sum (add_function_call decode) (if geminiRole = ''model'' then as_array (jget msg ''tool_calls'') else []) (parts, toolNameByID))
       (\<lambda>(all, names). Inr (gemini_content geminiRole all, names)))"

definition function_response :: "string \<Rightarrow> json \<Rightarrow> json" where
  "function_response name content =
     JObject [(''functionResponse'', JObject [(''name'', JString name), (''response'', JObject [(''content'', content)])])]"

definition geminiFunctionResponsePart :: "jobject \<Rightarrow> (string \<rightharpoonup> string) \<Rightarrow> go_error + json" where
  "geminiFunctionResponsePart msg toolNameByID =
     (case toolNameByID (jstr msg ''tool_call_id'') of
        None \<Rightarrow> Inl (translate_error (''role:tool message references unknown tool_call_id '' @ quoted (jstr msg ''tool_call_id'')))
      | Some name \<Rightarrow> Inr (function_response name (jget msg ''content'')))"

definition gemini_tool_entry :: "jobject \<Rightarrow> json" where
  "gemini_tool_entry tm =
     (let fn = as_object (jget tm ''function'') in
      JObject ([(''name'', jget fn ''name'')] @ copy_field ''description'' ''description'' fn @ copy_field ''parameters'' ''parameters'' fn))"

definition geminiToolsFromOpenAI :: "json list \<Rightarrow> json list" where
  "geminiToolsFromOpenAI toolsRaw = [JObject [(''functionDeclarations'', JArray (map gemini_tool_entry (objects_of toolsRaw)))]]"

definition calling_config :: "jobject \<Rightarrow> json" where
  "calling_config c = JObject [(''functionCallingConfig'', JObject c)]"

definition geminiToolConfigFromOpenAI :: "json \<Rightarrow> json option" where
  "geminiToolConfigFromOpenAI tc =
     (case tc of
        JString t \<Rightarrow>
          if t = ''none'' then Some (calling_config [(''mode'', JString ''NONE'')])
          else if t = ''auto'' then Some (calling_config [(''mode'', JString ''AUTO'')])
          else if t = ''required'' then Some (calling_config [(''mode'', JString ''ANY'')])
          else None
      | JObject t \<Rightarrow>
          (case jget t ''function'' of
             JObject fn \<Rightarrow> (case jget fn ''name'' of
                 JString name \<Rightarrow> Some (calling_config [(''mode'', JString ''ANY''), (''allowedFunctionNames'', JArray [JString name])])
               | _ \<Rightarrow> None)
           | _ \<Rightarrow> None)
      | _ \<Rightarrow> None)"

record geminiLoop =
  gl_system :: "string list"
  gl_contents :: "json list"
  gl_names :: "string \<rightharpoonup> string"
  gl_pending :: "json list"

definition gemini_flush :: "geminiLoop \<Rightarrow> geminiLoop" where
  "gemini_flush st =
     (if gl_pending st = [] then st
      else st\<lparr>gl_contents := gl_contents st @ [gemini_content ''user'' (gl_pending st)], gl_pending := []\<rparr>)"

definition gemini_turn :: "(string \<Rightarrow> json option) \<Rightarrow> jobject \<Rightarrow> string \<Rightarrow> geminiLoop \<Rightarrow> go_error + geminiLoop" where
  "gemini_turn decode msg geminiRole st =
     (let st1 = gemini_flush st in
      bind_sum (geminiMessageFromOpenAI decode msg geminiRole (gl_names st1)) (\<lambda>(gm, names).
        Inr (st1\<lparr>gl_contents := gl_contents st1 @ [gm], gl_names := names\<rparr>)))"

definition gemini_message :: "(string \<Rightarrow> json option) \<Rightarrow> jobject \<Rightarrow> geminiLoop \<Rightarrow> go_error + geminiLoop" where
  "gemini_message decode msg st =
     (let role = jstr msg ''role'' in
      if role = ''system'' \<or> role = ''developer''
      then (case jget msg ''content'' of
              JString s \<Rightarrow> Inr (st\<lparr>gl_system := gl_system st @ [s]\<rparr>)
            | JArray parts \<Rightarrow> bind_sum (geminiSystemTextFromContentParts parts) (\<lambda>text. Inr (st\<lparr>gl_system := gl_system st @ [text]\<rparr>))
            | _ \<Rightarrow> Inr st)
      else if role = ''user'' then gemini_turn decode msg ''user'' st
      else if role = ''assistant'' then gemini_turn decode msg ''model'' st
      else if role = ''tool''
      then bind_sum (geminiFunctionResponsePart msg (gl_names st)) (\<lambda>part. Inr (st\<lparr>gl_pending := gl_pending st @ [part]\<rparr>))
      else Inr st)"

definition gemini_loop :: "(string \<Rightarrow> json option) \<Rightarrow> json list \<Rightarrow> go_error + geminiLoop" where
  "gemini_loop decode msgs =
     bind_sum (fold_sum (gemini_message decode) (objects_of msgs) \<lparr>gl_system = [], gl_contents = [], gl_names = Map.empty, gl_pending = []\<rparr>)
       (\<lambda>st. Inr (gemini_flush st))"

definition gemini_maxTokens :: "jobject \<Rightarrow> jobject" where
  "gemini_maxTokens req =
     (case (case map_of req ''max_completion_tokens'' of Some v \<Rightarrow> Some v | None \<Rightarrow> map_of req ''max_tokens'') of
        None \<Rightarrow> []
      | Some v \<Rightarrow> (case toInt64 v of Some n \<Rightarrow> [(''maxOutputTokens'', JInt n)] | None \<Rightarrow> []))"

definition gemini_stop :: "jobject \<Rightarrow> go_error + jobject" where
  "gemini_stop req =
     (case map_of req ''stop'' of
        None \<Rightarrow> Inr []
      | Some v \<Rightarrow> bind_sum (stopSequencesFrom v) (\<lambda>seqs. Inr (if seqs \<noteq> [] then [(''stopSequences'', JArray (map JString seqs))] else [])))"

definition gemini_tools :: "jobject \<Rightarrow> jobject" where
  "gemini_tools req =
     (case jget req ''tools'' of JArray ts \<Rightarrow> if ts \<noteq> [] then [(''tools'', JArray (geminiToolsFromOpenAI ts))] else [] | _ \<Rightarrow> [])
     @ (case map_of req ''tool_choice'' of
          None \<Rightarrow> []
        | Some tc \<Rightarrow> (case geminiToolConfigFromOpenAI tc of Some c \<Rightarrow> [(''toolConfig'', c)] | None \<Rightarrow> []))"

definition geminiRequestFromOpenAI :: "(string \<Rightarrow> json option) \<Rightarrow> jobject \<Rightarrow> go_error + jobject" where
  "geminiRequestFromOpenAI decode req =
     (if (case map_of req ''n'' of Some v \<Rightarrow> exceeds_one v | None \<Rightarrow> False) then Inl (geminiUnsupportedFieldError ''n'')
      else if truthy_field req ''logit_bias'' then Inl (geminiUnsupportedFieldError ''logit_bias'')
      else if truthy_field req ''logprobs'' then Inl (geminiUnsupportedFieldError ''logprobs'')
      else bind_sum (gemini_loop decode (as_array (jget req ''messages''))) (\<lambda>st.
        bind_sum (gemini_stop req) (\<lambda>stop.
          let genConfig = gemini_maxTokens req @ copy_field ''temperature'' ''temperature'' req @ copy_field ''top_p'' ''topP'' req @ stop in
          Inr ((if gl_system st \<noteq> [] then [(''systemInstruction'', JObject [(''parts'', JArray [text_part (strings_Join [LF, LF] (gl_system st))])])] else [])
            @ [(''contents'', JArray (gl_contents st))]
            @ (if genConfig \<noteq> [] then [(''generationConfig'', JObject genConfig)] else [])
            @ gemini_tools req))))"

subsection \<open>Responses\<close>

record geminiFunctionCall =
  gf_ID :: string
  gf_Name :: string
  gf_Args :: string

record geminiPart =
  gp_FunctionCall :: "geminiFunctionCall option"
  gp_Text :: string

record geminiCandidate =
  gc_FinishReason :: string
  gc_Parts :: "geminiPart list"

record geminiUsageMetadata =
  gu_PromptTokenCount :: int
  gu_CandidatesTokenCount :: int
  gu_ThoughtsTokenCount :: int

record geminiGenerateContentResponse =
  gr_ResponseID :: string
  gr_UsageMetadata :: "geminiUsageMetadata option"
  gr_BlockReason :: string
  gr_Candidates :: "geminiCandidate list"

record geminiDecoder =
  gd_json :: anthropicDecoder
  gd_response :: "string \<Rightarrow> geminiGenerateContentResponse option"
  gd_embedding :: "string \<Rightarrow> float64 list option option"
  gd_embeddings :: "string \<Rightarrow> float64 list option list option"
  gd_predictions :: "string \<Rightarrow> string list option"

definition geminiFinishReason :: "string \<Rightarrow> bool \<Rightarrow> string" where
  "geminiFinishReason reason hasFunctionCall =
     (if reason = ''MAX_TOKENS'' then ''length''
      else if reason \<in> set [''SAFETY'', ''RECITATION'', ''BLOCKLIST'', ''PROHIBITED_CONTENT'', ''SPII''] then ''content_filter''
      else if hasFunctionCall then ''tool_calls'' else ''stop'')"

definition geminiToolCallID :: "int \<Rightarrow> string" where
  "geminiToolCallID ordinal = ''call_'' @ itoa ordinal"

definition geminiResponseIDOrFallback :: "string \<Rightarrow> int \<Rightarrow> string" where
  "geminiResponseIDOrFallback responseID created = (if responseID \<noteq> [] then responseID else ''gemini-'' @ itoa created)"

definition safePrompt :: "geminiUsageMetadata option \<Rightarrow> int" where
  "safePrompt m = (case m of None \<Rightarrow> 0 | Some u \<Rightarrow> gu_PromptTokenCount u)"

definition safeCompletion :: "geminiUsageMetadata option \<Rightarrow> int" where
  "safeCompletion m = (case m of None \<Rightarrow> 0 | Some u \<Rightarrow> wrap64 (gu_CandidatesTokenCount u + gu_ThoughtsTokenCount u))"

definition gemini_usage :: "geminiUsageMetadata option \<Rightarrow> usage" where
  "gemini_usage m = \<lparr>us_prompt = safePrompt m, us_completion = safeCompletion m, us_estimated = False\<rparr>"

definition call_id :: "geminiFunctionCall \<Rightarrow> int \<Rightarrow> string" where
  "call_id fc ordinal = (if gf_ID fc = [] then geminiToolCallID ordinal else gf_ID fc)"

text \<open>The texts, the tool calls and the ordinal so far.\<close>

definition add_gemini_part :: "geminiDecoder \<Rightarrow> geminiPart \<Rightarrow> string list \<times> json list \<times> int \<Rightarrow> go_error + string list \<times> json list \<times> int" where
  "add_gemini_part gd p = (\<lambda>(texts, calls, ordinal).
     case gp_FunctionCall p of
       Some fc \<Rightarrow> bind_sum (reMarshalToolInput (gd_json gd) (gf_Args fc)) (\<lambda>args.
          Inr (texts, calls @ [JObject [(''id'', JString (call_id fc ordinal)), (''type'', JString ''function''),
            (''function'', JObject [(''name'', JString (gf_Name fc)), (''arguments'', JString args)])]], ordinal + 1))
     | None \<Rightarrow> if gp_Text p \<noteq> [] then Inr (texts @ [gp_Text p], calls, ordinal) else Inr (texts, calls, ordinal))"

definition gemini_message_json :: "string list \<Rightarrow> json list \<Rightarrow> bool \<Rightarrow> jobject" where
  "gemini_message_json texts calls promptBlocked =
     [(''role'', JString ''assistant''), (''content'', if texts \<noteq> [] \<and> \<not> promptBlocked then JString (concat texts) else JNull)]
     @ (if calls \<noteq> [] then [(''tool_calls'', JArray calls)] else [])"

definition openAIResponseFromGemini :: "geminiDecoder \<Rightarrow> string \<Rightarrow> string \<Rightarrow> int \<Rightarrow> go_error + jobject \<times> usage" where
  "openAIResponseFromGemini gd body model created =
     (case gd_response gd body of
        None \<Rightarrow> Inl (upstream_error ''decode gemini response'')
      | Some resp \<Rightarrow>
          let (parts, reasonRaw) = (case gr_Candidates resp of c # _ \<Rightarrow> (gc_Parts c, gc_FinishReason c) | [] \<Rightarrow> ([], [])) in
          bind_sum (fold_sum (add_gemini_part gd) parts ([], [], 0)) (\<lambda>(texts, calls, _).
            let promptBlocked = (gr_Candidates resp = [] \<and> gr_BlockReason resp \<noteq> []);
                finishReason = (if promptBlocked then ''content_filter'' else geminiFinishReason reasonRaw (calls \<noteq> []));
                u = gemini_usage (gr_UsageMetadata resp)
            in Inr ([(''id'', JString (chatCompletionIDPrefix @ geminiResponseIDOrFallback (gr_ResponseID resp) created)), (''object'', JString ''chat.completion''),
                     (''created'', JInt created), (''model'', JString model),
                     (''choices'', JArray [JObject [(''index'', JInt 0), (''message'', JObject (gemini_message_json texts calls promptBlocked)),
                        (''finish_reason'', JString finishReason)]]),
                     (''usage'', usage_json u)], u)))"

subsection \<open>Streams\<close>

record geminiStreamState =
  gs_id :: string
  gs_model :: string
  gs_tail :: string
  gs_u :: usage
  gs_created :: int
  gs_nextToolOrdinal :: int
  gs_startedRole :: bool
  gs_sawFunctionCall :: bool

definition newGeminiStreamState :: "string \<Rightarrow> int \<Rightarrow> geminiStreamState" where
  "newGeminiStreamState model created =
     (let gid = geminiResponseIDOrFallback [] created in
      \<lparr>gs_id = gid, gs_model = model, gs_tail = contentChunker_set (chatCompletionIDPrefix @ gid) model created,
       gs_u = \<lparr>us_prompt = 0, us_completion = 0, us_estimated = False\<rparr>, gs_created = created, gs_nextToolOrdinal = 0,
       gs_startedRole = False, gs_sawFunctionCall = False\<rparr>)"

definition gemini_chunk_json :: "geminiStreamState \<Rightarrow> jobject \<Rightarrow> string option \<Rightarrow> json" where
  "gemini_chunk_json st delta finishReason =
     JObject [(''id'', JString (chatCompletionIDPrefix @ gs_id st)), (''object'', JString ''chat.completion.chunk''), (''created'', JInt (gs_created st)),
       (''model'', JString (gs_model st)),
       (''choices'', JArray [JObject [(''index'', JInt 0), (''delta'', JObject delta),
          (''finish_reason'', case finishReason of Some r \<Rightarrow> JString r | None \<Rightarrow> JNull)]])]"

definition gemini_chunk :: "geminiDecoder \<Rightarrow> geminiStreamState \<Rightarrow> jobject \<Rightarrow> string option \<Rightarrow> string" where
  "gemini_chunk gd st delta finishReason = json_Marshal (ad_num (gd_json gd)) (gemini_chunk_json st delta finishReason)"

definition gemini_usageChunk :: "geminiDecoder \<Rightarrow> geminiStreamState \<Rightarrow> string" where
  "gemini_usageChunk gd st = json_Marshal (ad_num (gd_json gd))
     (JObject [(''id'', JString (chatCompletionIDPrefix @ gs_id st)), (''object'', JString ''chat.completion.chunk''), (''created'', JInt (gs_created st)),
       (''model'', JString (gs_model st)), (''choices'', JArray []), (''usage'', usage_json (gs_u st))])"

definition call_delta :: "int \<Rightarrow> geminiFunctionCall \<Rightarrow> string \<Rightarrow> jobject" where
  "call_delta ordinal fc args = [(''tool_calls'', JArray [JObject [(''index'', JInt ordinal), (''id'', JString (call_id fc ordinal)), (''type'', JString ''function''),
     (''function'', JObject [(''name'', JString (gf_Name fc)), (''arguments'', JString args)])]])]"

fun gemini_parts :: "geminiDecoder \<Rightarrow> geminiPart list \<Rightarrow> string list \<Rightarrow> geminiStreamState \<Rightarrow> (string list \<times> go_error option) \<times> geminiStreamState" where
  "gemini_parts gd [] chunks st = ((chunks, None), st)"
| "gemini_parts gd (p # ps) chunks st =
     (case gp_FunctionCall p of
        Some fc \<Rightarrow>
          let st1 = st\<lparr>gs_sawFunctionCall := True\<rparr>; ordinal = gs_nextToolOrdinal st1 in
          (case reMarshalToolInput (gd_json gd) (gf_Args fc) of
             Inl e \<Rightarrow> ((chunks, Some e), st1)
           | Inr args \<Rightarrow>
               let st2 = st1\<lparr>gs_nextToolOrdinal := ordinal + 1\<rparr>
               in gemini_parts gd ps (chunks @ [gemini_chunk gd st2 (call_delta ordinal fc args) None]) st2)
      | None \<Rightarrow>
          if gp_Text p \<noteq> [] then gemini_parts gd ps (chunks @ [contentChunker_build (gs_tail st) (gp_Text p)]) st
          else gemini_parts gd ps chunks st)"

text \<open>What the first chunk and the usage of a chunk change.\<close>

definition gemini_begin :: "geminiGenerateContentResponse \<Rightarrow> geminiStreamState \<Rightarrow> geminiStreamState" where
  "gemini_begin resp st =
     (let st1 = (if \<not> gs_startedRole st \<and> gr_ResponseID resp \<noteq> []
            then st\<lparr>gs_id := gr_ResponseID resp, gs_tail := contentChunker_set (chatCompletionIDPrefix @ gr_ResponseID resp) (gs_model st) (gs_created st)\<rparr> else st);
          st2 = (if gr_UsageMetadata resp \<noteq> None then st1\<lparr>gs_u := gemini_usage (gr_UsageMetadata resp)\<rparr> else st1)
      in if \<not> gs_startedRole st then st2\<lparr>gs_startedRole := True\<rparr> else st2)"

definition gemini_translate :: "geminiDecoder \<Rightarrow> string \<Rightarrow> geminiStreamState \<Rightarrow> (string list \<times> go_error option) \<times> geminiStreamState" where
  "gemini_translate gd data st =
     (case gd_response gd data of
        None \<Rightarrow> (([], Some (upstream_error ''decode gemini stream chunk'')), st)
      | Some resp \<Rightarrow>
          let st1 = gemini_begin resp st;
              chunks = (if \<not> gs_startedRole st then [gemini_chunk gd st1 [(''role'', JString ''assistant'')] None] else [])
          in (case gr_Candidates resp of
                [] \<Rightarrow> ((chunks @ (if gr_BlockReason resp \<noteq> [] then [gemini_chunk gd st1 [] (Some ''content_filter'')] else []), None), st1)
              | c # _ \<Rightarrow>
                  (case gemini_parts gd (gc_Parts c) chunks st1 of
                     ((cs, Some e), st2) \<Rightarrow> ((cs, Some e), st2)
                   | ((cs, None), st2) \<Rightarrow>
                       ((cs @ (if gc_FinishReason c \<noteq> [] then [gemini_chunk gd st2 [] (Some (geminiFinishReason (gc_FinishReason c) (gs_sawFunctionCall st2)))] else []), None), st2))))"

subsection \<open>Embeddings and images\<close>

definition embed_content :: "string \<Rightarrow> json" where
  "embed_content text = JObject [(''parts'', JArray [text_part text])]"

definition geminiEmbedContentRequest :: "string \<Rightarrow> jobject" where
  "geminiEmbedContentRequest text = [(''content'', embed_content text)]"

definition geminiBatchEmbedContentsRequest :: "string \<Rightarrow> string list \<Rightarrow> jobject" where
  "geminiBatchEmbedContentsRequest model texts =
     [(''requests'', JArray (map (\<lambda>text. JObject [(''model'', JString (''models/'' @ model)), (''content'', embed_content text)]) texts))]"

definition geminiEmbeddingInputTexts :: "json \<Rightarrow> go_error + string list \<times> bool" where
  "geminiEmbeddingInputTexts input =
     (case input of
        JString v \<Rightarrow> Inr ([v], True)
      | JArray v \<Rightarrow> (case all_strings v of None \<Rightarrow> Inl (translate_error ''input[] entries must be strings'') | Some texts \<Rightarrow> Inr (texts, False))
      | _ \<Rightarrow> Inl (translate_error ''input must be a string or an array of strings''))"

definition estimatedEmbeddingTokens :: "string list \<Rightarrow> int" where
  "estimatedEmbeddingTokens texts = (let chars = sum_list (map (\<lambda>t. int (length t)) texts) in (chars + 3) div 4)"

text \<open>A vector that is missing in the answer is nil, which is encoded as null.\<close>

definition embedding_entry :: "nat \<times> float64 list option \<Rightarrow> json" where
  "embedding_entry = (\<lambda>(i, v). JObject [(''object'', JString ''embedding''), (''index'', JInt (int i)), (''embedding'', case v of Some xs \<Rightarrow> JArray (map JNum xs) | None \<Rightarrow> JNull)])"

definition openAIEmbeddingResponseFromGemini :: "geminiDecoder \<Rightarrow> string \<Rightarrow> bool \<Rightarrow> string \<Rightarrow> int \<Rightarrow> go_error + jobject \<times> usage" where
  "openAIEmbeddingResponseFromGemini gd body single model estimatedTokens =
     (case (if single then map_option (\<lambda>v. [v]) (gd_embedding gd body) else gd_embeddings gd body) of
        None \<Rightarrow> Inl (upstream_error (if single then ''decode gemini embedContent response'' else ''decode gemini batchEmbedContents response''))
      | Some vectors \<Rightarrow>
          Inr ([(''object'', JString ''list''), (''data'', JArray (map embedding_entry (enumerate 0 vectors))), (''model'', JString model),
                (''usage'', JObject [(''prompt_tokens'', JInt estimatedTokens), (''total_tokens'', JInt estimatedTokens)])],
               \<lparr>us_prompt = estimatedTokens, us_completion = 0, us_estimated = True\<rparr>))"

definition geminiImageAspectRatioBySize :: "(string \<times> string) list" where
  "geminiImageAspectRatioBySize = [(''1024x1024'', ''1:1''), (''1792x1024'', ''16:9''), (''1024x1792'', ''9:16''), (''512x512'', ''1:1'')]"

definition geminiImageAspectRatio :: "string \<Rightarrow> go_error + string" where
  "geminiImageAspectRatio dims =
     (if dims = [] then Inr ''1:1''
      else (case map_of geminiImageAspectRatioBySize dims of
              None \<Rightarrow> Inl (translate_error (''size '' @ quoted dims @ '' is not supported for gemini image generation''))
            | Some ratio \<Rightarrow> Inr ratio))"

definition maxImagesPerRequest :: int where "maxImagesPerRequest = 10"

definition image_count :: "jobject \<Rightarrow> go_error + int" where
  "image_count req =
     (case Option.bind (map_of req ''n'') toInt64 of
        Some parsed \<Rightarrow>
          if 0 < parsed
          then if maxImagesPerRequest < parsed
               then Inl (translate_error (''n must be at most '' @ itoa maxImagesPerRequest @ '' for gemini image generation''))
               else Inr parsed
          else Inr 1
      | None \<Rightarrow> Inr 1)"

definition geminiImagesRequestFromOpenAI :: "jobject \<Rightarrow> go_error + jobject" where
  "geminiImagesRequestFromOpenAI req =
     (if jget req ''response_format'' = JString ''url''
      then Inl (translate_error (''response_format '' @ quoted ''url'' @ '' is not supported for gemini image generation (the gateway stores nothing to host a URL from)''))
      else if truthy_field req ''quality'' then Inl (geminiUnsupportedFieldError ''quality'')
      else if truthy_field req ''style'' then Inl (geminiUnsupportedFieldError ''style'')
      else bind_sum (image_count req) (\<lambda>n.
        bind_sum (geminiImageAspectRatio (jstr req ''size'')) (\<lambda>aspectRatio.
          Inr [(''instances'', JArray [JObject [(''prompt'', JString (jstr req ''prompt''))]]),
               (''parameters'', JObject [(''sampleCount'', JInt n), (''aspectRatio'', JString aspectRatio)])])))"

definition openAIImagesResponseFromGemini :: "geminiDecoder \<Rightarrow> string \<Rightarrow> int \<Rightarrow> go_error + jobject" where
  "openAIImagesResponseFromGemini gd body created =
     (case gd_predictions gd body of
        None \<Rightarrow> Inl (upstream_error ''decode gemini images response'')
      | Some ps \<Rightarrow> Inr [(''created'', JInt created), (''data'', JArray (map (\<lambda>p. JObject [(''b64_json'', JString p)]) ps))])"

subsection \<open>Chunks are marshalled JSON\<close>

definition anthropic_view :: "geminiStreamState \<Rightarrow> anthropicStreamState" where
  "anthropic_view st = \<lparr>st_toolOrdinals = Map.empty, st_id = gs_id st, st_model = gs_model st, st_tail = gs_tail st, st_u = gs_u st,
     st_created = gs_created st, st_nextToolOrdinal = gs_nextToolOrdinal st\<rparr>"

definition gemini_tail_ok :: "geminiStreamState \<Rightarrow> bool" where
  "gemini_tail_ok st \<longleftrightarrow> gs_tail st = contentChunker_set (chatCompletionIDPrefix @ gs_id st) (gs_model st) (gs_created st)"

abbreviation gemini_render :: "geminiDecoder \<Rightarrow> geminiStreamState \<Rightarrow> jobject \<times> string option \<Rightarrow> string" where
  "gemini_render gd st \<equiv> \<lambda>(d, fr). json_Marshal (ad_num (gd_json gd)) (gemini_chunk_json st d fr)"

lemma gemini_content_chunk:
  "gemini_tail_ok st \<Longrightarrow> contentChunker_build (gs_tail st) t = json_Marshal num (gemini_chunk_json st [(''content'', JString t)] None)"
  using content_chunk [of "anthropic_view st" t num] by (simp add: gemini_tail_ok_def anthropic_view_def gemini_chunk_json_def chunk_json_def)

text \<open>The deltas of the parts of a chunk, and of a whole chunk.\<close>

fun part_deltas :: "geminiDecoder \<Rightarrow> int \<Rightarrow> geminiPart list \<Rightarrow> (jobject \<times> string option) list" where
  "part_deltas gd ordinal [] = []"
| "part_deltas gd ordinal (p # ps) =
     (case gp_FunctionCall p of
        Some fc \<Rightarrow> (case reMarshalToolInput (gd_json gd) (gf_Args fc) of
             Inl e \<Rightarrow> []
           | Inr args \<Rightarrow> (call_delta ordinal fc args, None) # part_deltas gd (ordinal + 1) ps)
      | None \<Rightarrow> (if gp_Text p \<noteq> [] then [([(''content'', JString (gp_Text p))], None)] else []) @ part_deltas gd ordinal ps)"

definition has_call :: "geminiPart list \<Rightarrow> bool" where
  "has_call ps \<longleftrightarrow> list_ex (\<lambda>p. gp_FunctionCall p \<noteq> None) ps"

definition count_calls :: "geminiPart list \<Rightarrow> int" where
  "count_calls ps = int (length (filter (\<lambda>p. gp_FunctionCall p \<noteq> None) ps))"

definition gemini_deltas :: "geminiDecoder \<Rightarrow> string \<Rightarrow> geminiStreamState \<Rightarrow> (jobject \<times> string option) list" where
  "gemini_deltas gd data st =
     (case gd_response gd data of
        None \<Rightarrow> []
      | Some resp \<Rightarrow>
          (if \<not> gs_startedRole st then [([(''role'', JString ''assistant'')], None)] else [])
          @ (case gr_Candidates resp of
               [] \<Rightarrow> if gr_BlockReason resp \<noteq> [] then [([], Some ''content_filter'')] else []
             | c # _ \<Rightarrow> part_deltas gd (gs_nextToolOrdinal st) (gc_Parts c)
                 @ (if gc_FinishReason c \<noteq> [] then [([], Some (geminiFinishReason (gc_FinishReason c) (gs_sawFunctionCall st \<or> has_call (gc_Parts c))))] else [])))"

lemma gemini_chunk_json_same [simp]:
  "gemini_chunk_json (st\<lparr>gs_sawFunctionCall := a, gs_nextToolOrdinal := b\<rparr>) = gemini_chunk_json st"
  "gemini_chunk_json (st\<lparr>gs_sawFunctionCall := a\<rparr>) = gemini_chunk_json st"
  by (simp_all add: gemini_chunk_json_def fun_eq_iff)

lemma gemini_parts_result:
  "gemini_parts gd ps chunks st = ((cs, None), st') \<Longrightarrow> gemini_tail_ok st \<Longrightarrow>
     cs = chunks @ map (gemini_render gd st) (part_deltas gd (gs_nextToolOrdinal st) ps)
     \<and> st' = st\<lparr>gs_sawFunctionCall := gs_sawFunctionCall st \<or> has_call ps, gs_nextToolOrdinal := gs_nextToolOrdinal st + count_calls ps\<rparr>"
proof (induction gd ps chunks st rule: gemini_parts.induct)
  case (1 gd chunks st)
  then show ?case by (simp add: has_call_def count_calls_def)
next
  case (2 gd p ps chunks st)
  show ?case
  proof (cases "gp_FunctionCall p")
    case None
    then show ?thesis using "2.IH"(1,2) [OF None] "2.prems" gemini_content_chunk [OF "2.prems"(2), of "gp_Text p"]
      by (auto simp: has_call_def count_calls_def split: if_splits)
  next
    case (Some fc)
    let ?st2 = "st\<lparr>gs_sawFunctionCall := True, gs_nextToolOrdinal := gs_nextToolOrdinal st + 1\<rparr>"
    obtain args where args: "reMarshalToolInput (gd_json gd) (gf_Args fc) = Inr args" using "2.prems"(1) Some by (auto simp: Let_def split: sum.splits)
    have "gemini_tail_ok ?st2" using "2.prems"(2) by (simp add: gemini_tail_ok_def)
    then show ?thesis using "2.IH"(3) [OF Some refl refl args refl] "2.prems"(1) args Some
      by (auto simp: has_call_def count_calls_def gemini_chunk_def Let_def)
  qed
qed

lemma gemini_begin_tail: "gemini_tail_ok st \<Longrightarrow> gemini_tail_ok (gemini_begin resp st)"
  by (simp add: gemini_begin_def gemini_tail_ok_def Let_def)

lemma gemini_begin_fields [simp]:
  "gs_nextToolOrdinal (gemini_begin resp st) = gs_nextToolOrdinal st" "gs_sawFunctionCall (gemini_begin resp st) = gs_sawFunctionCall st"
  "gs_startedRole (gemini_begin resp st)"
  by (simp_all add: gemini_begin_def Let_def)

lemma gemini_translate_chunks:
  assumes "gemini_translate gd data st = ((chunks, None), st')" and "gemini_tail_ok st"
  shows "gemini_tail_ok st' \<and> chunks = map (gemini_render gd st') (gemini_deltas gd data st)"
proof -
  obtain resp where resp: "gd_response gd data = Some resp" using assms(1) by (auto simp: gemini_translate_def split: option.splits)
  let ?st1 = "gemini_begin resp st"
  let ?first = "if \<not> gs_startedRole st then [gemini_chunk gd ?st1 [(''role'', JString ''assistant'')] None] else []"
  note ok1 = gemini_begin_tail [OF assms(2), of resp]
  show ?thesis
  proof (cases "gr_Candidates resp")
    case Nil
    then show ?thesis using assms(1) resp ok1 by (auto simp: gemini_translate_def gemini_deltas_def gemini_chunk_def Let_def)
  next
    case (Cons c rest)
    obtain cs e st2 where p: "gemini_parts gd (gc_Parts c) ?first ?st1 = ((cs, e), st2)" by (metis surj_pair)
    have e: "e = None" "st' = st2"
      and chunks: "chunks = cs @ (if gc_FinishReason c \<noteq> [] then [gemini_chunk gd st2 [] (Some (geminiFinishReason (gc_FinishReason c) (gs_sawFunctionCall st2)))] else [])"
      using assms(1) resp Cons p by (auto simp: gemini_translate_def Let_def split: option.splits)
    note r = gemini_parts_result [OF p [unfolded e(1)] ok1]
    have "gemini_tail_ok st2" using r ok1 by (simp add: gemini_tail_ok_def)
    moreover have "chunks = map (gemini_render gd st2) (gemini_deltas gd data st)"
      unfolding chunks gemini_deltas_def using r resp Cons by (simp add: gemini_chunk_def)
    ultimately show ?thesis using e(2) by simp
  qed
qed

interpretation gemini: stream_translator "gemini_translate gd" gemini_tail_ok "gemini_deltas gd" "gemini_render gd"
  by unfold_locales (rule gemini_translate_chunks)

subsection \<open>A stream is its message\<close>

text \<open>What a client reads from a complete answer.\<close>

definition call_triple :: "json \<Rightarrow> string \<times> string \<times> string" where
  "call_triple j = (let m = as_object j; fn = as_object (jget m ''function'') in (jstr m ''id'', jstr fn ''name'', jstr fn ''arguments''))"

definition read_answer_json :: "jobject \<Rightarrow> assembled" where
  "read_answer_json out =
     (let choice = as_object (hd (as_array (jget out ''choices''))); msg = as_object (jget choice ''message'') in
      \<lparr>am_content = jstr msg ''content'', am_calls = indexed (map call_triple (as_array (jget msg ''tool_calls''))), am_finish = Some (jstr choice ''finish_reason'')\<rparr>)"

lemma assemble_part_deltas:
  "fold_sum (add_gemini_part gd) ps (t, c, int (length c)) = Inr (t', c', n') \<Longrightarrow> am_content m = concat t \<Longrightarrow> am_calls m = indexed (map call_triple c) \<Longrightarrow>
     fold assemble_delta (part_deltas gd (int (length c)) ps) m = m\<lparr>am_content := concat t', am_calls := indexed (map call_triple c')\<rparr>
     \<and> n' = int (length c') \<and> (c' \<noteq> [] \<longleftrightarrow> c \<noteq> [] \<or> has_call ps) \<and> length c' = length c + nat (count_calls ps)"
proof (induction ps arbitrary: t c m)
  case Nil
  then show ?case by (auto simp: has_call_def count_calls_def)
next
  case (Cons p ps)
  show ?case
  proof (cases "gp_FunctionCall p")
    case None
    let ?t = "if gp_Text p \<noteq> [] then t @ [gp_Text p] else t"
    have "add_gemini_part gd p (t, c, int (length c)) = Inr (?t, c, int (length c))" using None by (simp add: add_gemini_part_def)
    then have step: "fold_sum (add_gemini_part gd) ps (?t, c, int (length c)) = Inr (t', c', n')" using Cons.prems(1) by simp
    let ?m = "if gp_Text p \<noteq> [] then m\<lparr>am_content := am_content m @ gp_Text p\<rparr> else m"
    have "fold assemble_delta (if gp_Text p \<noteq> [] then [([(''content'', JString (gp_Text p))], None)] else []) m = ?m"
      by (simp add: assemble_delta_def jget_def)
    then show ?thesis using Cons.IH [OF step, of ?m] Cons.prems(2,3) None by (auto simp: has_call_def count_calls_def)
  next
    case (Some fc)
    obtain args where args: "reMarshalToolInput (gd_json gd) (gf_Args fc) = Inr args"
      using Cons.prems(1) Some by (cases "reMarshalToolInput (gd_json gd) (gf_Args fc)") (auto simp: add_gemini_part_def)
    let ?j = "JObject [(''id'', JString (call_id fc (int (length c)))), (''type'', JString ''function''),
            (''function'', JObject [(''name'', JString (gf_Name fc)), (''arguments'', JString args)])]"
    have "add_gemini_part gd p (t, c, int (length c)) = Inr (t, c @ [?j], int (length (c @ [?j])))"
      using Some args by (simp add: add_gemini_part_def)
    then have step: "fold_sum (add_gemini_part gd) ps (t, c @ [?j], int (length (c @ [?j]))) = Inr (t', c', n')" using Cons.prems(1) by simp
    let ?m = "m\<lparr>am_calls := indexed (map call_triple (c @ [?j]))\<rparr>"
    have tri: "call_triple ?j = (call_id fc (int (length c)), gf_Name fc, args)" by (simp add: call_triple_def jget_def)
    have "assemble_delta (call_delta (int (length c)) fc args, None) m = ?m"
      using Cons.prems(3) indexed_snoc [of "map call_triple c" "call_triple ?j"]
      by (simp add: assemble_delta_def call_delta_def jget_def add_call_def tri) (simp add: indexed_def)
    then show ?thesis using Cons.IH [OF step, of ?m] Cons.prems(2) Some args
      by (simp add: has_call_def count_calls_def add.commute nat_add_distrib)
  qed
qed

lemma gemini_parts_succeed:
  "fold_sum (add_gemini_part gd) ps x = Inr y \<Longrightarrow> \<exists>cs st'. gemini_parts gd ps chunks st = ((cs, None), st')"
proof (induction ps arbitrary: x chunks st)
  case (Cons p ps)
  obtain t c n where x: "x = (t, c, n)" by (metis surj_pair)
  obtain x1 where s: "add_gemini_part gd p x = Inr x1" "fold_sum (add_gemini_part gd) ps x1 = Inr y" using Cons.prems by (auto elim: bind_sum_InrE)
  show ?case
  proof (cases "gp_FunctionCall p")
    case None
    then show ?thesis using Cons.IH [OF s(2)] by simp
  next
    case (Some fc)
    then obtain args where "reMarshalToolInput (gd_json gd) (gf_Args fc) = Inr args"
      using s(1) x by (cases "reMarshalToolInput (gd_json gd) (gf_Args fc)") (auto simp: add_gemini_part_def)
    then show ?thesis using Cons.IH [OF s(2)] Some by (simp add: Let_def)
  qed
qed simp

text \<open>The chunks of a stream that delivers \<open>parts\<close> and ends with the finish reason and the usage.\<close>

inductive gemini_stream :: "geminiDecoder \<Rightarrow> string \<Rightarrow> geminiUsageMetadata \<Rightarrow> geminiPart list \<Rightarrow> string list \<Rightarrow> bool" for gd fin um where
  last_chunk: "gd_response gd d = Some r \<Longrightarrow> gr_Candidates r = [\<lparr>gc_FinishReason = fin, gc_Parts = ps\<rparr>] \<Longrightarrow> gr_UsageMetadata r = Some um \<Longrightarrow>
     gemini_stream gd fin um ps [d]"
| next_chunk: "gd_response gd d = Some r \<Longrightarrow> gr_Candidates r = [\<lparr>gc_FinishReason = [], gc_Parts = ps\<rparr>] \<Longrightarrow> gemini_stream gd fin um rest ds \<Longrightarrow>
     gemini_stream gd fin um (ps @ rest) (d # ds)"

definition stream_matches :: "string list \<Rightarrow> json list \<Rightarrow> geminiStreamState \<Rightarrow> assembled \<Rightarrow> bool" where
  "stream_matches t c st m \<longleftrightarrow> gemini_tail_ok st \<and> gs_nextToolOrdinal st = int (length c) \<and> (gs_sawFunctionCall st \<longleftrightarrow> c \<noteq> [])
     \<and> am_content m = concat t \<and> am_calls m = indexed (map call_triple c)"

lemma role_delta: "assemble_delta ([(''role'', JString ''assistant'')], None) m = m"
  by (simp add: assemble_delta_def jget_def)

text \<open>One chunk with the parts \<open>ps\<close>.\<close>

lemma gemini_chunk_step:
  assumes "gd_response gd d = Some r" and "gr_Candidates r = [\<lparr>gc_FinishReason = fin, gc_Parts = ps\<rparr>]"
    and "fold_sum (add_gemini_part gd) ps (t, c, int (length c)) = Inr (t', c', n')" and "stream_matches t c st m"
  shows "\<exists>chunks st'. gemini_translate gd d st = ((chunks, None), st') \<and> n' = int (length c')
    \<and> (\<exists>m'. fold assemble_delta (gemini_deltas gd d st) m = m' \<and> stream_matches t' c' st' m'
        \<and> am_finish m' = (if fin \<noteq> [] then Some (geminiFinishReason fin (c' \<noteq> [])) else am_finish m))
    \<and> (\<forall>um. gr_UsageMetadata r = Some um \<longrightarrow> gs_u st' = gemini_usage (Some um))"
proof -
  let ?st1 = "gemini_begin r st"
  let ?first = "if \<not> gs_startedRole st then [gemini_chunk gd ?st1 [(''role'', JString ''assistant'')] None] else []"
  have m: "gemini_tail_ok st" "gs_nextToolOrdinal st = int (length c)" "gs_sawFunctionCall st \<longleftrightarrow> c \<noteq> []" "am_content m = concat t" "am_calls m = indexed (map call_triple c)"
    using assms(4) by (simp_all add: stream_matches_def)
  obtain cs st2 where p: "gemini_parts gd ps ?first ?st1 = ((cs, None), st2)" using gemini_parts_succeed [OF assms(3)] by blast
  note r = gemini_parts_result [OF p gemini_begin_tail [OF m(1)]]
  note a = assemble_part_deltas [OF assms(3) m(4,5)]
  obtain chunks where tr: "gemini_translate gd d st = ((chunks, None), st2)" using assms(1,2) p by (simp add: gemini_translate_def Let_def)
  have saw: "gs_sawFunctionCall st \<or> has_call ps \<longleftrightarrow> c' \<noteq> []" using a m(3) by blast
  let ?m = "m\<lparr>am_content := concat t', am_calls := indexed (map call_triple c')\<rparr>"
  let ?m' = "if fin \<noteq> [] then ?m\<lparr>am_finish := Some (geminiFinishReason fin (c' \<noteq> []))\<rparr> else ?m"
  have "fold assemble_delta (gemini_deltas gd d st) m = ?m'"
    using assms(1,2) a m(2) saw by (simp add: gemini_deltas_def role_delta assemble_delta_def jget_def)
  moreover have "0 \<le> count_calls ps" by (simp add: count_calls_def)
  then have "stream_matches t' c' st2 ?m'"
    using gemini_translate_chunks [OF tr m(1)] r a m(2) saw by (simp add: stream_matches_def)
  moreover have "gs_u st2 = gemini_usage (Some um)" if "gr_UsageMetadata r = Some um" for um
    using r that by (simp add: gemini_begin_def Let_def)
  ultimately show ?thesis using tr a by auto
qed

lemma gemini_stream_run:
  "gemini_stream gd fin um parts ds \<Longrightarrow> fin \<noteq> [] \<Longrightarrow> fold_sum (add_gemini_part gd) parts (t, c, int (length c)) = Inr (t', c', n') \<Longrightarrow> stream_matches t c st m \<Longrightarrow>
     \<exists>chunks st'. gemini.run gd ds st = ((chunks, None), st') \<and> gs_u st' = gemini_usage (Some um)
     \<and> fold assemble_delta (gemini.all_deltas gd ds st) m
       = \<lparr>am_content = concat t', am_calls = indexed (map call_triple c'), am_finish = Some (geminiFinishReason fin (c' \<noteq> []))\<rparr>"
proof (induction arbitrary: t c st m rule: gemini_stream.induct)
  case (last_chunk d r ps)
  from gemini_chunk_step [OF last_chunk.hyps(1,2) last_chunk.prems(2,3)] last_chunk.prems(1) last_chunk.hyps(3)
  show ?case by (auto simp: stream_matches_def)
next
  case (next_chunk d r ps rest ds)
  obtain t1 c1 n1 where s: "fold_sum (add_gemini_part gd) ps (t, c, int (length c)) = Inr (t1, c1, n1)"
    "fold_sum (add_gemini_part gd) rest (t1, c1, n1) = Inr (t', c', n')"
    using next_chunk.prems(2) by (auto simp: fold_sum_append elim: bind_sum_InrE)
  from gemini_chunk_step [OF next_chunk.hyps(1,2) s(1) next_chunk.prems(3)] obtain chunks st1 where
    1: "gemini_translate gd d st = ((chunks, None), st1)" "n1 = int (length c1)" "stream_matches t1 c1 st1 (fold assemble_delta (gemini_deltas gd d st) m)" by auto
  from next_chunk.IH [OF next_chunk.prems(1) s(2) [unfolded 1(2)] 1(3)] show ?case using 1(1) by auto
qed

lemma read_gemini_answer:
  assumes "gd_response gd body = Some \<lparr>gr_ResponseID = rid, gr_UsageMetadata = um, gr_BlockReason = br, gr_Candidates = [\<lparr>gc_FinishReason = fin, gc_Parts = parts\<rparr>]\<rparr>"
    and "openAIResponseFromGemini gd body model created = Inr (out, u)"
  shows "\<exists>t c n. fold_sum (add_gemini_part gd) parts ([], [], 0) = Inr (t, c, n) \<and> u = gemini_usage um
    \<and> read_answer_json out = \<lparr>am_content = concat t, am_calls = indexed (map call_triple c), am_finish = Some (geminiFinishReason fin (c \<noteq> []))\<rparr>"
proof -
  obtain t c n where f: "fold_sum (add_gemini_part gd) parts ([], [], 0) = Inr (t, c, n)"
    using assms by (auto simp: openAIResponseFromGemini_def Let_def elim!: bind_sum_InrE)
  then show ?thesis using assms
    by (auto simp: openAIResponseFromGemini_def read_answer_json_def gemini_message_json_def jget_def Let_def)
qed

text \<open>The stream of an answer, put together, is the answer translated at once.\<close>



subsection \<open>A stream, concretely\<close>

definition demo_call :: geminiPart where
  "demo_call = \<lparr>gp_FunctionCall = Some \<lparr>gf_ID = [], gf_Name = ''f'', gf_Args = []\<rparr>, gp_Text = []\<rparr>"

definition demo_text :: "string \<Rightarrow> geminiPart" where
  "demo_text t = \<lparr>gp_FunctionCall = None, gp_Text = t\<rparr>"

definition demo_metadata :: geminiUsageMetadata where
  "demo_metadata = \<lparr>gu_PromptTokenCount = 3, gu_CandidatesTokenCount = 4, gu_ThoughtsTokenCount = 1\<rparr>"

definition demo_generated :: "string \<Rightarrow> geminiPart list \<Rightarrow> geminiGenerateContentResponse" where
  "demo_generated fin ps = \<lparr>gr_ResponseID = ''r1'', gr_UsageMetadata = Some demo_metadata, gr_BlockReason = [], gr_Candidates = [\<lparr>gc_FinishReason = fin, gc_Parts = ps\<rparr>]\<rparr>"

definition demo_gemini :: geminiDecoder where
  "demo_gemini = \<lparr>gd_json = demo_ad, gd_response = [''w'' \<mapsto> demo_generated ''STOP'' [demo_text ''a'', demo_call], ''1'' \<mapsto> demo_generated [] [demo_text ''a''],
     ''2'' \<mapsto> demo_generated ''STOP'' [demo_call]], gd_embedding = \<lambda>_. None, gd_embeddings = \<lambda>_. None, gd_predictions = \<lambda>_. None\<rparr>"


end
