(* ===== verification/Metrics.thy ===== *)
theory Metrics
  imports TargetProxy Json "HOL-Library.Product_Lexorder"
begin

text \<open>
  The metrics endpoint (metrics.go): the text format, the latency histograms and the provenance counters
  kept for it, and the rendering of all families from the state of the gateway.  It reads the summaries
  of the user store (auth.go) and the usage in chunks (admin.go).

  The help text of a family and the text of a floating-point number are parameters.  Counters that only
  count events of the process are not wrapped.
\<close>

subsection \<open>The text format\<close>

definition hexDigit :: "nat \<Rightarrow> char" where
  "hexDigit n = lower_hex (n mod 16)"

definition escaped_rune :: "string \<Rightarrow> nat \<Rightarrow> string" where
  "escaped_rune s width =
     (if hd s = CHR 0x5C then [CHR 0x5C, CHR 0x5C]
      else if hd s = CHR 0x22 then [CHR 0x5C, CHR 0x22]
      else if hd s = CHR 0x0A then [CHR 0x5C, CHR ''n'']
      else take width s)"

text \<open>The loop; the three special runes are one byte wide.\<close>

function escape_label_loop :: "string \<Rightarrow> string" where
  "escape_label_loop s =
     (if s = [] then []
      else (case decode_rune s of (r, width) \<Rightarrow>
        if r = rune_error \<and> width = 1
        then [CHR 0x5C, CHR ''x'', hexDigit (of_char (hd s) div 16), hexDigit (of_char (hd s) mod 16)] @ escape_label_loop (drop 1 s)
        else escaped_rune s width @ escape_label_loop (drop width s)))"
  by pat_completeness auto
termination
  by (relation "measure length") (auto dest: decode_rune_drop [OF sym] simp: neq_Nil_conv)

declare escape_label_loop.simps [simp del]

function utf8_ValidString :: "string \<Rightarrow> bool" where
  "utf8_ValidString s =
     (if s = [] then True
      else (case decode_rune s of (r, width) \<Rightarrow> \<not> (r = rune_error \<and> width = 1) \<and> utf8_ValidString (drop width s)))"
  by pat_completeness auto
termination
  by (relation "measure length") (auto dest: decode_rune_drop [OF sym])

declare utf8_ValidString.simps [simp del]

definition escapeLabelValue :: "string \<Rightarrow> string" where
  "escapeLabelValue s =
     (if list_all (\<lambda>c. c \<noteq> CHR 0x5C \<and> c \<noteq> CHR 0x22 \<and> c \<noteq> CHR 0x0A) s \<and> utf8_ValidString s then s else escape_label_loop s)"

record metricLabel =
  lb_name :: string
  lb_value :: string

definition metric_family :: "string \<Rightarrow> string \<Rightarrow> string \<Rightarrow> string" where
  "metric_family name kind help = ''# HELP '' @ name @ '' '' @ help @ [LF] @ ''# TYPE '' @ name @ '' '' @ kind @ [LF]"

definition label_text :: "metricLabel \<Rightarrow> string" where
  "label_text l = lb_name l @ ''='' @ [CHR 0x22] @ escapeLabelValue (lb_value l) @ [CHR 0x22]"

definition metric_sample :: "string \<Rightarrow> metricLabel list \<Rightarrow> string \<Rightarrow> string" where
  "metric_sample name labels value =
     name @ (if labels \<noteq> [] then ''{'' @ strings_Join '','' (map label_text labels) @ ''}'' else []) @ '' '' @ value @ [LF]"

definition sampleInt :: "string \<Rightarrow> metricLabel list \<Rightarrow> int \<Rightarrow> string" where
  "sampleInt name labels v = metric_sample name labels (itoa v)"

abbreviation label :: "string \<Rightarrow> string \<Rightarrow> metricLabel" where
  "label n v \<equiv> \<lparr>lb_name = n, lb_value = v\<rparr>"

text \<open>\<open>fmt\<close> is \<open>strconv.FormatFloat\<close>.\<close>

definition sampleFloat :: "(float64 \<Rightarrow> string) \<Rightarrow> string \<Rightarrow> metricLabel list \<Rightarrow> float64 \<Rightarrow> string" where
  "sampleFloat fmt name labels v = metric_sample name labels (fmt v)"

fun bucket_lines :: "(float64 \<Rightarrow> string) \<Rightarrow> string \<Rightarrow> metricLabel list \<Rightarrow> int \<Rightarrow> (float64 \<times> int) list \<Rightarrow> string \<times> int" where
  "bucket_lines fmt name labels cumulative [] = ([], cumulative)"
| "bucket_lines fmt name labels cumulative ((bound, n) # rest) =
     (case bucket_lines fmt name labels (cumulative + n) rest of
        (text, tot) \<Rightarrow> (sampleInt (name @ ''_bucket'') (labels @ [label ''le'' (fmt bound)]) (cumulative + n) @ text, tot))"

definition metric_histogram :: "(float64 \<Rightarrow> string) \<Rightarrow> string \<Rightarrow> metricLabel list \<Rightarrow> int list \<Rightarrow> int \<Rightarrow> float64 \<Rightarrow> string" where
  "metric_histogram fmt name labels buckets overflow tot =
     (case bucket_lines fmt name labels 0 (zip latencyBucketBounds buckets) of
        (text, inside) \<Rightarrow>
          let cumulative = inside + overflow in
          text @ sampleInt (name @ ''_bucket'') (labels @ [label ''le'' ''+Inf'']) cumulative
          @ sampleFloat fmt (name @ ''_sum'') labels tot @ sampleInt (name @ ''_count'') labels cumulative)"

subsection \<open>Latency histograms\<close>

record latencyKey =
  lk_provider :: string
  lk_model :: string
  lk_streaming :: bool

record latencyHistogram =
  lh_ttfbBuckets :: "int list"
  lh_durationBuckets :: "int list"
  lh_ttfbSum :: float64
  lh_durationSum :: float64
  lh_ttfbCount :: int
  lh_ttfbOverflow :: int
  lh_durationCount :: int
  lh_durationOverflow :: int

definition newLatencyHistogram :: latencyHistogram where
  "newLatencyHistogram = \<lparr>lh_ttfbBuckets = replicate (length latencyBucketBounds) 0, lh_durationBuckets = replicate (length latencyBucketBounds) 0,
     lh_ttfbSum = Fin 0, lh_durationSum = Fin 0, lh_ttfbCount = 0, lh_ttfbOverflow = 0, lh_durationCount = 0, lh_durationOverflow = 0\<rparr>"

text \<open>Buckets, overflow, sum and count of one series.\<close>

type_synonym series = "int list \<times> int \<times> float64 \<times> int"

definition observeLatencyBucket :: "duration \<Rightarrow> series \<Rightarrow> series" where
  "observeLatencyBucket d = (\<lambda>(buckets, overflow, tot, count).
     case latencyBucketIndex d of
       (idx, isOverflow) \<Rightarrow>
         if isOverflow then (buckets, overflow + 1, fadd tot (time_Seconds d), count + 1)
         else (buckets[idx := buckets ! idx + 1], overflow, fadd tot (time_Seconds d), count + 1))"

definition ttfb_series :: "latencyHistogram \<Rightarrow> series" where
  "ttfb_series h = (lh_ttfbBuckets h, lh_ttfbOverflow h, lh_ttfbSum h, lh_ttfbCount h)"

definition duration_series :: "latencyHistogram \<Rightarrow> series" where
  "duration_series h = (lh_durationBuckets h, lh_durationOverflow h, lh_durationSum h, lh_durationCount h)"

definition put_ttfb :: "series \<Rightarrow> latencyHistogram \<Rightarrow> latencyHistogram" where
  "put_ttfb = (\<lambda>(b, ov, s, n) h. h\<lparr>lh_ttfbBuckets := b, lh_ttfbOverflow := ov, lh_ttfbSum := s, lh_ttfbCount := n\<rparr>)"

definition put_duration :: "series \<Rightarrow> latencyHistogram \<Rightarrow> latencyHistogram" where
  "put_duration = (\<lambda>(b, ov, s, n) h. h\<lparr>lh_durationBuckets := b, lh_durationOverflow := ov, lh_durationSum := s, lh_durationCount := n\<rparr>)"

definition record_sample :: "latencySample \<Rightarrow> latencyHistogram \<Rightarrow> latencyHistogram" where
  "record_sample sample h =
     (let h1 = (if lat_hasTTFB sample then put_ttfb (observeLatencyBucket (lat_ttfb sample) (ttfb_series h)) h else h)
      in put_duration (observeLatencyBucket (lat_duration sample) (duration_series h1)) h1)"

text \<open>A nil store records nothing.\<close>

type_synonym latencyStore = "(latencyKey, latencyHistogram) gomap"

definition latencyStore_record :: "latencyKey \<Rightarrow> latencySample \<Rightarrow> latencyStore option \<Rightarrow> latencyStore option" where
  "latencyStore_record key sample s =
     map_option (\<lambda>data. AList.update key (record_sample sample (case map_of data key of Some h \<Rightarrow> h | None \<Rightarrow> newLatencyHistogram)) data) s"

definition recordLatency :: "bool \<Rightarrow> string \<Rightarrow> string \<Rightarrow> latencySample \<Rightarrow> latencyStore option \<Rightarrow> latencyStore option" where
  "recordLatency modelLabel provider model sample s =
     (let s1 = latencyStore_record \<lparr>lk_provider = provider, lk_model = [], lk_streaming = lat_streaming sample\<rparr> sample s in
      if model \<noteq> [] \<and> modelLabel
      then latencyStore_record \<lparr>lk_provider = provider, lk_model = model, lk_streaming = lat_streaming sample\<rparr> sample s1 else s1)"

abbreviation latency_order :: "latencyKey \<Rightarrow> string \<times> bool \<times> string" where
  "latency_order k \<equiv> (lk_provider k, lk_streaming k, lk_model k)"

definition latency_labels :: "bool \<Rightarrow> latencyKey \<Rightarrow> metricLabel list" where
  "latency_labels includeModel k =
     [label ''provider'' (lk_provider k), label ''stream'' (if lk_streaming k then ''true'' else ''false'')] @ (if includeModel then [label ''model'' (lk_model k)] else [])"

definition writeUpstreamLatencyFamily :: "(float64 \<Rightarrow> string) \<Rightarrow> (string \<Rightarrow> string) \<Rightarrow> string \<Rightarrow> string \<Rightarrow> (latencyKey \<times> latencyHistogram) list \<Rightarrow> bool \<Rightarrow> string" where
  "writeUpstreamLatencyFamily fmt help ttfbName durationName snaps includeModel =
     metric_family ttfbName ''histogram'' (help ttfbName)
     @ concat (map (\<lambda>(k, h). if 0 < lh_ttfbCount h
         then metric_histogram fmt ttfbName (latency_labels includeModel k) (lh_ttfbBuckets h) (lh_ttfbOverflow h) (lh_ttfbSum h) else []) snaps)
     @ metric_family durationName ''histogram'' (help durationName)
     @ concat (map (\<lambda>(k, h). if 0 < lh_durationCount h
         then metric_histogram fmt durationName (latency_labels includeModel k) (lh_durationBuckets h) (lh_durationOverflow h) (lh_durationSum h) else []) snaps)"

definition writeLatencyMetrics :: "(float64 \<Rightarrow> string) \<Rightarrow> (string \<Rightarrow> string) \<Rightarrow> latencyStore option \<Rightarrow> string" where
  "writeLatencyMetrics fmt help s =
     (let snaps = sort_key (latency_order \<circ> fst) (case s of Some data \<Rightarrow> data | None \<Rightarrow> []);
          base = filter (\<lambda>(k, h). lk_model k = []) snaps;
          withModel = filter (\<lambda>(k, h). lk_model k \<noteq> []) snaps
      in if snaps = [] then []
         else writeUpstreamLatencyFamily fmt help ''llmgateway_upstream_ttfb_seconds'' ''llmgateway_upstream_duration_seconds'' base False
           @ (if withModel = [] then []
              else writeUpstreamLatencyFamily fmt help ''llmgateway_upstream_model_ttfb_seconds'' ''llmgateway_upstream_model_duration_seconds'' withModel True))"

subsection \<open>Provenance of usage\<close>

record provenanceKey =
  pk_provider :: string
  pk_provenance :: string

record provenanceCounts =
  pc_requests :: int
  pc_tokens :: int

type_synonym provenanceStore = "(provenanceKey, provenanceCounts) gomap"

definition provenanceStore_record :: "string \<Rightarrow> string \<Rightarrow> int \<Rightarrow> provenanceStore option \<Rightarrow> provenanceStore option" where
  "provenanceStore_record provider provenance tokens s =
     map_option (\<lambda>data.
       let key = \<lparr>pk_provider = provider, pk_provenance = provenance\<rparr>;
           c = (case map_of data key of Some c \<Rightarrow> c | None \<Rightarrow> \<lparr>pc_requests = 0, pc_tokens = 0\<rparr>)
       in AList.update key (c\<lparr>pc_requests := pc_requests c + 1, pc_tokens := wrap64 (pc_tokens c + tokens)\<rparr>) data) s"

definition provenance_labels :: "provenanceKey \<Rightarrow> metricLabel list" where
  "provenance_labels k = [label ''provider'' (pk_provider k), label ''provenance'' (pk_provenance k)]"

definition writeProvenanceMetrics :: "(string \<Rightarrow> string) \<Rightarrow> provenanceStore option \<Rightarrow> string" where
  "writeProvenanceMetrics help s =
     (let snaps = sort_key (\<lambda>(k, c). (pk_provider k, pk_provenance k)) (case s of Some data \<Rightarrow> data | None \<Rightarrow> []);
          requests = ''llmgateway_usage_provenance_requests_total''; tokens = ''llmgateway_usage_provenance_tokens_total''
      in if snaps = [] then []
         else metric_family requests ''counter'' (help requests) @ concat (map (\<lambda>(k, c). sampleInt requests (provenance_labels k) (pc_requests c)) snaps)
           @ metric_family tokens ''counter'' (help tokens) @ concat (map (\<lambda>(k, c). sampleInt tokens (provenance_labels k) (pc_tokens c)) snaps))"

subsection \<open>Usage and budgets\<close>

record userSummary =
  um_limits :: "LimitsConfig option"
  um_name :: string
  um_groupName :: string
  um_source :: string
  um_groups :: "string list"
  um_personalProviders :: "string list"
  um_personalModels :: "string list"
  um_admin :: bool

record groupSummary =
  gm_limits :: "LimitsConfig option"
  gm_name :: string
  gm_providers :: "string list"
  gm_models :: "string list"
  gm_mcpServers :: "string list"
  gm_agents :: "string list"
  gm_passthroughPaths :: "string list"
  gm_memberCount :: int

text \<open>The source of an entry tells whether it is the one of the inline map.\<close>

definition user_summary :: "'d authEntry \<Rightarrow> userSummary" where
  "user_summary e =
     (let u = ae_user e; pg = gr_personalGrant (ae_group e) in
      \<lparr>um_limits = us_limits u, um_name = us_name u, um_groupName = us_groupName u,
       um_source = (if ae_source e = FromInline then ''inline'' else ''file''), um_groups = us_groupNames u,
       um_personalProviders = (case pg of Some g \<Rightarrow> gt_providers g | None \<Rightarrow> []), um_personalModels = (case pg of Some g \<Rightarrow> gt_models g | None \<Rightarrow> []),
       um_admin = us_admin u\<rparr>)"

definition group_summary :: "'d authStore \<Rightarrow> string \<times> group \<Rightarrow> groupSummary" where
  "group_summary a = (\<lambda>(name, grp).
     \<lparr>gm_limits = gr_limits grp, gm_name = name, gm_providers = gr_providers grp, gm_models = gr_models grp, gm_mcpServers = gr_mcpServers grp,
      gm_agents = gr_agents grp, gm_passthroughPaths = gr_passthroughPaths grp,
      gm_memberCount = int (sum_list (map (\<lambda>(d, e). count_list (us_groupNames (ae_user e)) name) (as_byDigest a)))\<rparr>)"

definition authStore_snapshot :: "'d authStore \<Rightarrow> userSummary list \<times> groupSummary list" where
  "authStore_snapshot a =
     (sort_key um_name (map (user_summary \<circ> snd) (as_byDigest a)), sort_key gm_name (map (group_summary a) (as_groups a)))"

definition adminUsageChunkScopes :: nat where "adminUsageChunkScopes = 160"

function chunkedCurrentUsage :: "gtime \<Rightarrow> gtime \<Rightarrow> limitScope list \<Rightarrow> 's limiter \<Rightarrow> scopeUsage list \<times> 's limiter" where
  "chunkedCurrentUsage now ts scopes l =
     (if scopes = [] then ([], l)
      else (case currentUsage now ts (take adminUsageChunkScopes scopes) l of
              (rows, l1) \<Rightarrow> (case chunkedCurrentUsage now ts (drop adminUsageChunkScopes scopes) l1 of (rest, l2) \<Rightarrow> (rows @ rest, l2))))"
  by pat_completeness auto
termination
  by (relation "measure (\<lambda>(now, ts, scopes, l). length scopes)") (auto simp: adminUsageChunkScopes_def)

declare chunkedCurrentUsage.simps [simp del]

record budgetRatioSpec =
  bs_name :: string
  bs_used :: int
  bs_limit :: int

definition ratio_spec :: "string \<Rightarrow> int \<Rightarrow> int \<Rightarrow> budgetRatioSpec list" where
  "ratio_spec name used limit = (if limit \<le> 0 then [] else [\<lparr>bs_name = name, bs_used = used, bs_limit = limit\<rparr>])"

definition budgetRatios :: "scopeUsage \<Rightarrow> LimitsConfig option \<Rightarrow> budgetRatioSpec list" where
  "budgetRatios su lco =
     (case lco of
        None \<Rightarrow> []
      | Some lc \<Rightarrow>
          ratio_spec ''requests-per-minute'' (su_requestsPerMinute su) (RequestsPerMinute lc)
          @ ratio_spec ''requests-per-day'' (su_requestsPerDay su) (RequestsPerDay lc)
          @ ratio_spec ''tokens-per-day'' (wrap64 (su_tokensInPerDay su + su_tokensOutPerDay su)) (TokensPerDay lc)
          @ ratio_spec ''tokens-per-month'' (wrap64 (su_tokensInPerMonth su + su_tokensOutPerMonth su)) (TokensPerMonth lc)
          @ ratio_spec ''cost-per-day'' (su_costPerDayMicros su) (usdToMicros (CostPerDayUSD lc))
          @ ratio_spec ''cost-per-month'' (su_costPerMonthMicros su) (usdToMicros (CostPerMonthUSD lc)))"

text \<open>The quotient of two int64 values as doubles; a limit is positive.\<close>

definition budget_ratio :: "budgetRatioSpec \<Rightarrow> float64" where
  "budget_ratio b =
     (case (fl (of_int (bs_used b)), fl (of_int (bs_limit b))) of (Fin x, Fin y) \<Rightarrow> fl (x / y) | _ \<Rightarrow> NaN)"

definition usage_labels :: "scopeUsage \<Rightarrow> metricLabel list" where
  "usage_labels su = [label ''scope_kind'' (su_kind su), label ''scope_id'' (su_id su)]"

definition usage_scopes :: "'d authStore \<Rightarrow> limitScope list" where
  "usage_scopes a =
     (case authStore_snapshot a of (users, groups) \<Rightarrow>
        map (\<lambda>us. \<lparr>sc_limits = um_limits us, sc_kind = ''user'', sc_id = um_name us\<rparr>) users
        @ map (\<lambda>gs. \<lparr>sc_limits = gm_limits gs, sc_kind = ''group'', sc_id = gm_name gs\<rparr>) groups
        @ [\<lparr>sc_limits = None, sc_kind = totalScopeKind, sc_id = totalScopeID\<rparr>])"

definition usage_text :: "(float64 \<Rightarrow> string) \<Rightarrow> (string \<Rightarrow> string) \<Rightarrow> limitScope list \<Rightarrow> scopeUsage list \<Rightarrow> string" where
  "usage_text fmt help scopes usage =
     (let up = filter (\<lambda>su. \<not> su_storeDown su) usage;
          requests = ''llmgateway_requests_total''; tokens = ''llmgateway_tokens_total''; cost = ''llmgateway_cost_micro_usd_total'';
          ratio = ''llmgateway_budget_consumed_ratio''
      in metric_family requests ''counter'' (help requests)
         @ concat (map (\<lambda>su. sampleInt requests (usage_labels su) (su_requestsPerDay su)) up)
         @ metric_family tokens ''counter'' (help tokens)
         @ concat (map (\<lambda>su. sampleInt tokens (usage_labels su @ [label ''direction'' ''prompt'']) (su_tokensInPerDay su)
             @ sampleInt tokens (usage_labels su @ [label ''direction'' ''completion'']) (su_tokensOutPerDay su)) up)
         @ metric_family cost ''counter'' (help cost)
         @ concat (map (\<lambda>su. sampleInt cost (usage_labels su) (su_costPerDayMicros su)) up)
         @ metric_family ratio ''gauge'' (help ratio)
         @ concat (map (\<lambda>(su, sc). if su_storeDown su then []
             else concat (map (\<lambda>br. sampleFloat fmt ratio (usage_labels su @ [label ''budget'' (bs_name br)]) (budget_ratio br)) (budgetRatios su (sc_limits sc))))
             (zip usage scopes)))"

definition writeUsageMetrics :: "(float64 \<Rightarrow> string) \<Rightarrow> (string \<Rightarrow> string) \<Rightarrow> gtime \<Rightarrow> 'd authStore \<Rightarrow> 's limiter \<Rightarrow> string \<times> 's limiter" where
  "writeUsageMetrics fmt help now a l =
     (case chunkedCurrentUsage now now (usage_scopes a) l of (usage, l1) \<Rightarrow> (usage_text fmt help (usage_scopes a) usage, l1))"

subsection \<open>Providers, targets, rejections and the store\<close>

definition provider_scopes :: "bool \<Rightarrow> (string \<times> string list) list \<Rightarrow> limitScope list" where
  "provider_scopes includeModel snaps =
     map (\<lambda>(name, models). \<lparr>sc_limits = None, sc_kind = kindProvider, sc_id = name\<rparr>) snaps
     @ (if includeModel
        then concat (map (\<lambda>(name, models). map (\<lambda>model. \<lparr>sc_limits = None, sc_kind = kindProviderModel, sc_id = providerModelScopeID name model\<rparr>) models) snaps) else [])"

definition provider_lines :: "string \<Rightarrow> (metricLabel list \<times> providerCounters) list \<Rightarrow> (providerCounters \<Rightarrow> int) \<Rightarrow> string" where
  "provider_lines name rows f = concat (map (\<lambda>(labels, c). if pr_storeDown c then [] else sampleInt name labels (f c)) rows)"

definition provider_family :: "(string \<Rightarrow> string) \<Rightarrow> string \<Rightarrow> (metricLabel list \<times> providerCounters) list \<Rightarrow> (providerCounters \<Rightarrow> int) \<Rightarrow> string" where
  "provider_family help name rows f = metric_family name ''counter'' (help name) @ provider_lines name rows f"

definition writeProviderMetrics :: "(string \<Rightarrow> string) \<Rightarrow> gtime \<Rightarrow> bool \<Rightarrow> modelRegistry \<Rightarrow> 's limiter \<Rightarrow> string \<times> 's limiter" where
  "writeProviderMetrics help now includeModel m l =
     (let snaps = map (\<lambda>(name, sn, enabled). (name, sn)) (registry_snapshot m);
          named = map (\<lambda>(name, sn). (name, sn_models sn)) snaps
      in case providerUsage now now (provider_scopes includeModel named) l of
           (counters, l1) \<Rightarrow>
             let rows = zip (map (\<lambda>(name, sn). [label ''provider'' name]) snaps) counters;
                 modelRows = zip (concat (map (\<lambda>(name, models). map (\<lambda>model. [label ''provider'' name, label ''model'' model]) models) named)) (drop (length snaps) counters);
                 healthy = ''llmgateway_provider_healthy''
             in (provider_family help ''llmgateway_provider_attempts_total'' rows pr_attemptsDay
                 @ provider_family help ''llmgateway_provider_failures_total'' rows pr_failuresDay
                 @ metric_family healthy ''gauge'' (help healthy)
                 @ concat (map (\<lambda>(name, sn). sampleInt healthy [label ''provider'' name] (if sn_health sn = breakerOpen then 0 else 1)) snaps)
                 @ (if includeModel
                    then provider_family help ''llmgateway_provider_model_attempts_total'' modelRows pr_attemptsDay
                         @ provider_family help ''llmgateway_provider_model_failures_total'' modelRows pr_failuresDay else []), l1))"

definition writeTargetHealthySample :: "targetHealthSnapshot \<Rightarrow> string \<Rightarrow> string \<Rightarrow> string" where
  "writeTargetHealthySample snap kindLabel name =
     (if ts_state snap = TargetUnknown then []
      else sampleInt ''llmgateway_target_healthy'' [label ''kind'' kindLabel, label ''target'' name] (if ts_state snap = TargetUnhealthy then 0 else 1))"

definition sorted_names_of :: "(string, 'a) gomap \<Rightarrow> string list" where
  "sorted_names_of m = sort (map fst m)"

definition writeTargetMetrics :: "(string \<Rightarrow> string) \<Rightarrow> targetsConfig \<Rightarrow> targetHealthTracker option \<Rightarrow> string" where
  "writeTargetMetrics help cfg tr =
     (if tg_MCPServers cfg = [] \<and> tg_Agents cfg = [] then []
      else metric_family ''llmgateway_target_healthy'' ''gauge'' (help ''llmgateway_target_healthy'')
        @ concat (map (\<lambda>name. writeTargetHealthySample (health_snapshot targetKindMCP name tr) (targetScopeKind targetKindMCP) name) (sorted_names_of (tg_MCPServers cfg)))
        @ concat (map (\<lambda>name. writeTargetHealthySample (health_snapshot targetKindAgent name tr) (targetScopeKind targetKindAgent) name) (sorted_names_of (tg_Agents cfg))))"

definition writeRejectionMetrics :: "(string \<Rightarrow> string) \<Rightarrow> 's limiter \<Rightarrow> string" where
  "writeRejectionMetrics help l =
     (let name = ''llmgateway_rate_limit_rejections_total'';
          snaps = sort_key (\<lambda>s. (rj_kind s, rj_id s)) (rejectionCounter_snapshot (lim_rejections l))
      in metric_family name ''counter'' (help name)
         @ concat (map (\<lambda>s. sampleInt name [label ''scope_kind'' (rj_kind s), label ''scope_id'' (rj_id s)] (rj_count s)) snaps))"

definition writeStoreHealthMetrics :: "(string \<Rightarrow> string) \<Rightarrow> gtime \<Rightarrow> 's limiter \<Rightarrow> string" where
  "writeStoreHealthMetrics help now l =
     (if \<not> fst (redisStatus l) then []
      else metric_family ''llmgateway_limit_store_up'' ''gauge'' (help ''llmgateway_limit_store_up'')
        @ sampleInt ''llmgateway_limit_store_up'' [] (if configuredStoreDown now l then 0 else 1))"

subsection \<open>All families\<close>

record ('d, 's) metricsState =
  mx_auth :: "'d authStore"
  mx_limiter :: "'s limiter"
  mx_registry :: modelRegistry
  mx_targets :: targetsConfig
  mx_health :: "targetHealthTracker option"
  mx_latency :: "latencyStore option"
  mx_provenance :: "provenanceStore option"
  mx_modelLabel :: bool

definition renderMetrics :: "(float64 \<Rightarrow> string) \<Rightarrow> (string \<Rightarrow> string) \<Rightarrow> gtime \<Rightarrow> ('d, 's) metricsState \<Rightarrow> string \<times> ('d, 's) metricsState" where
  "renderMetrics fmt help now g =
     (case writeUsageMetrics fmt help now (mx_auth g) (mx_limiter g) of (usage, l1) \<Rightarrow>
      case writeProviderMetrics help now (mx_modelLabel g) (mx_registry g) l1 of (providers, l2) \<Rightarrow>
        (usage @ providers @ writeTargetMetrics help (mx_targets g) (mx_health g) @ writeLatencyMetrics fmt help (mx_latency g)
         @ writeProvenanceMetrics help (mx_provenance g) @ writeRejectionMetrics help l2 @ writeStoreHealthMetrics help now l2,
         g\<lparr>mx_limiter := l2\<rparr>))"

subsection \<open>Label values are read back\<close>

text \<open>The scraper's side: the value of a label up to its closing quote, and the text after it.\<close>

definition hex_value :: "char \<Rightarrow> nat" where
  "hex_value c = (if of_char c < (58 :: nat) then of_char c - 48 else of_char c - 87)"

fun read_label_value :: "string \<Rightarrow> (string \<times> string) option" where
  "read_label_value [] = None"
| "read_label_value (c # s) =
     (if c = CHR 0x22 then Some ([], s)
      else if c \<noteq> CHR 0x5C then map_option (apfst ((#) c)) (read_label_value s)
      else (case s of
              e # t \<Rightarrow>
                if e = CHR 0x5C \<or> e = CHR 0x22 then map_option (apfst ((#) e)) (read_label_value t)
                else if e = CHR ''n'' then map_option (apfst ((#) LF)) (read_label_value t)
                else if e = CHR ''x'' then (case t of
                    a # b # u \<Rightarrow> map_option (apfst ((#) (char_of (16 * hex_value a + hex_value b)))) (read_label_value u)
                  | _ \<Rightarrow> None)
                else None
            | [] \<Rightarrow> None))"

abbreviation label_plain :: "char \<Rightarrow> bool" where
  "label_plain c \<equiv> c \<noteq> CHR 0x5C \<and> c \<noteq> CHR 0x22 \<and> c \<noteq> CHR 0x0A"

lemma read_plain: "list_all label_plain p \<Longrightarrow> read_label_value (p @ s) = map_option (apfst ((@) p)) (read_label_value s)"
proof (induction p)
  case Nil
  then show ?case by (cases "read_label_value s") auto
next
  case (Cons c p)
  then show ?case by (cases "read_label_value s") auto
qed

lemma hex_value_digit: "hex_value (hexDigit n) = n mod 16"
  by (simp add: hex_value_def hexDigit_def lower_hex_def)

lemma of_char_byte: "(of_char c :: nat) < 256"
  by simp

lemma append_one: "(@) [c] = (#) c"
  by (rule ext) simp

lemma byte_of_digits: "char_of (16 * hex_value (hexDigit (of_char c div 16)) + hex_value (hexDigit (of_char c mod 16))) = c"
proof -
  have "(of_char c :: nat) div 16 < 16" using of_char_byte [of c] by linarith
  then have "16 * ((of_char c :: nat) div 16 mod 16) + of_char c mod 16 mod 16 = of_char c" by simp
  then show ?thesis by (simp add: hex_value_digit)
qed

lemma ascii_rune: "(of_char c :: nat) < 128 \<Longrightarrow> decode_rune (c # t) = (of_char c, 1)"
  by (simp add: decode_rune_def)

lemma high_label_plain: "128 \<le> (of_char c :: nat) \<Longrightarrow> label_plain c"
  by auto

text \<open>Every step of the loop writes a piece that reads back as the bytes it consumed.\<close>

lemma escaped_rune_reads:
  assumes "s \<noteq> []" and "decode_rune s = (r, width)"
  shows "read_label_value (escaped_rune s width @ u) = map_option (apfst ((@) (take width s))) (read_label_value u)"
proof -
  obtain c t where s: "s = c # t" using assms(1) by (cases s) auto
  show ?thesis
  proof (cases "(of_char c :: nat) < 128")
    case True
    then have "width = 1" using ascii_rune [of c t] assms(2) s by simp
    then show ?thesis using s read_plain [of "[c]" u] by (auto simp: escaped_rune_def append_one LF_def)
  next
    case False
    then have "label_plain c" using high_label_plain by simp
    moreover have "list_all label_plain (take width s)"
      using decode_rune_bytes [of c _ t] False assms(2) s high_label_plain by (fastforce simp: list_all_iff)
    ultimately show ?thesis using read_plain [of "take width s" u] s by (simp add: escaped_rune_def)
  qed
qed

lemma escape_loop_reads: "read_label_value (escape_label_loop s @ u) = map_option (apfst ((@) s)) (read_label_value u)"
proof (induction s rule: escape_label_loop.induct)
  case (1 s)
  obtain r width where d: "decode_rune s = (r, width)" by fastforce
  consider "s = []" | "s \<noteq> []" "r = rune_error \<and> width = 1" | "s \<noteq> []" "\<not> (r = rune_error \<and> width = 1)" by blast
  then show ?case
  proof cases
    case 1
    then show ?thesis by (cases "read_label_value u") (auto simp: escape_label_loop.simps)
  next
    case 2
    obtain c t where s: "s = c # t" using 2(1) by (cases s) auto
    have "read_label_value (escape_label_loop t @ u) = map_option (apfst ((@) t)) (read_label_value u)"
      using 1(1) [OF 2(1) d [symmetric] _ ] 2(2) s by simp
    then show ?thesis using d 2 s byte_of_digits [of c]
      by (subst escape_label_loop.simps) (simp add: option.map_comp comp_def apfst_def map_prod_def split_def)
  next
    case 3
    have "read_label_value (escape_label_loop (drop width s) @ u) = map_option (apfst ((@) (drop width s))) (read_label_value u)"
      using 1(2) [OF 3(1) d [symmetric] _] 3(2) by simp
    then show ?thesis using d 3 escaped_rune_reads [OF 3(1) d, of "escape_label_loop (drop width s) @ u"]
      by (subst escape_label_loop.simps) (auto simp: option.map_comp comp_def apfst_def map_prod_def split_def simp flip: append_assoc)
  qed
qed


subsection \<open>A histogram counts its samples\<close>

lemma fl_increasing:
  assumes "1 / 1000 \<le> a" and "5 * a \<le> 4 * b" and "b \<le> 1000"
  shows "float_less (fl a) (fl b)"
proof -
  have small: "(1 / 2 ^ 1000 :: rat) \<le> 1 / 1000" and large: "(1000 :: rat) \<le> 2 ^ 1000" by simp_all
  have a: "1 / 2 ^ 1000 \<le> a" "a \<le> 2 ^ 1000" using order_trans [OF small assms(1)] order_trans [OF _ large, of a] assms by simp_all
  have b: "1 / 2 ^ 1000 \<le> b" "b \<le> 2 ^ 1000" using order_trans [OF small, of b] order_trans [OF assms(3) large] assms by simp_all
  obtain x where x: "fl a = Fin x" "\<bar>x - a\<bar> \<le> a / 2 ^ 53" by (rule fl_pos [OF a])
  obtain y where y: "fl b = Fin y" "\<bar>y - b\<bar> \<le> b / 2 ^ 53" by (rule fl_pos [OF b])
  have "a / 2 ^ 53 \<le> a / 100" and "b / 2 ^ 53 \<le> b / 100" using assms by (simp_all add: field_simps)
  then have "x < y" using x(2) y(2) assms by linarith
  then show ?thesis using x(1) y(1) by simp
qed

lemma latency_bounds_increase: "sorted_wrt float_less latencyBucketBounds"
proof -
  have "sorted_wrt (\<lambda>a b :: rat. 1 / 1000 \<le> a \<and> 5 * a \<le> 4 * b \<and> b \<le> 1000) [1 / 10, 1 / 4, 1 / 2, 1, 2, 5, 10, 15, 30, 60, 120, 300, 600]" by simp
  then show ?thesis unfolding latencyBucketBounds_def sorted_wrt_map by (rule sorted_wrt_mono_rel [rotated]) (use fl_increasing in blast)
qed

definition at_most :: "float64 \<Rightarrow> float64 \<Rightarrow> bool" where
  "at_most v bound \<longleftrightarrow> float_less v bound \<or> v = bound"

lemma float_less_trans: "float_less x y \<Longrightarrow> float_less y z \<Longrightarrow> float_less x z"
  by (cases x; cases y; cases z) auto

lemma at_most_increasing:
  assumes "at_most v (latencyBucketBounds ! i)" and "i \<le> j" and "j < length latencyBucketBounds"
  shows "at_most v (latencyBucketBounds ! j)"
proof (cases "i = j")
  case False
  then have "float_less (latencyBucketBounds ! i) (latencyBucketBounds ! j)"
    using assms sorted_wrt_nth_less [OF latency_bounds_increase] by simp
  then show ?thesis using assms(1) float_less_trans by (auto simp: at_most_def)
qed (use assms in simp)

text \<open>The index of a duration is at most \<open>i\<close> exactly when the duration is within the bound of bucket \<open>i\<close>.\<close>

lemma bucket_index_iff:
  assumes "i < length latencyBucketBounds"
  shows "fst (latencyBucketIndex d) \<le> i \<longleftrightarrow> at_most (time_Seconds d) (latencyBucketBounds ! i)"
proof -
  let ?P = "\<lambda>bound. \<not> at_most (time_Seconds d) bound"
  let ?n = "length (takeWhile ?P latencyBucketBounds)"
  have n: "fst (latencyBucketIndex d) = ?n" by (simp add: latencyBucketIndex_def at_most_def Let_def)
  have "at_most (time_Seconds d) (latencyBucketBounds ! i)" if "?n \<le> i"
    using at_most_increasing [of "time_Seconds d" ?n i] nth_length_takeWhile [of ?P latencyBucketBounds] that assms by simp
  moreover have "?P (latencyBucketBounds ! i)" if "i < ?n"
    using nth_mem [OF that] set_takeWhileD takeWhile_nth [OF that] by metis
  ultimately show ?thesis using n by (metis not_le)
qed

abbreviation no_samples :: series where
  "no_samples \<equiv> (replicate (length latencyBucketBounds) 0, 0, Fin 0, 0)"

definition samples_within :: "duration list \<Rightarrow> float64 \<Rightarrow> int" where
  "samples_within ds bound = int (length (filter (\<lambda>d. at_most (time_Seconds d) bound) ds))"

lemma sum_take_bump:
  "k < length xs \<Longrightarrow> sum_list (take n (xs[k := xs ! k + 1])) = sum_list (take n xs) + (if k < n then 1 else (0 :: int))"
proof (induction xs arbitrary: k n)
  case (Cons x xs)
  then show ?case by (cases k; cases n) auto
qed simp

definition counts_samples :: "duration list \<Rightarrow> series \<Rightarrow> bool" where
  "counts_samples ds = (\<lambda>(buckets, overflow, tot, count).
     length buckets = length latencyBucketBounds \<and> count = int (length ds) \<and> sum_list buckets + overflow = int (length ds)
     \<and> (\<forall>i < length latencyBucketBounds. sum_list (take (Suc i) buckets) = samples_within ds (latencyBucketBounds ! i)))"

lemma observe_counts:
  assumes "counts_samples ds s"
  shows "counts_samples (ds @ [d]) (observeLatencyBucket d s)"
proof -
  obtain b ov tot n where s: "s = (b, ov, tot, n)" by (cases s) auto
  let ?i = "fst (latencyBucketIndex d)"
  have len: "length b = length latencyBucketBounds" using assms s by (simp add: counts_samples_def)
  have over: "snd (latencyBucketIndex d) \<longleftrightarrow> ?i = length latencyBucketBounds" by (simp add: latencyBucketIndex_def Let_def)
  have le: "?i \<le> length latencyBucketBounds" by (simp add: latencyBucketIndex_def Let_def length_takeWhile_le)
  have within: "samples_within (ds @ [d]) (latencyBucketBounds ! i) = samples_within ds (latencyBucketBounds ! i) + (if ?i \<le> i then 1 else 0)"
    if "i < length latencyBucketBounds" for i using bucket_index_iff [OF that, of d] by (simp add: samples_within_def)
  show ?thesis
  proof (cases "snd (latencyBucketIndex d)")
    case True
    then show ?thesis using assms s over within by (auto simp: counts_samples_def observeLatencyBucket_def split_def)
  next
    case False
    then have lt: "?i < length b" using over le len by simp
    have "sum_list (b[?i := b ! ?i + 1]) = sum_list b + 1" using sum_take_bump [OF lt, of "length b"] lt by simp
    then show ?thesis using assms s False within sum_take_bump [OF lt] len
      by (simp add: counts_samples_def observeLatencyBucket_def split_def less_Suc_eq_le)
  qed
qed

lemma fold_observe_counts: "counts_samples ds (fold observeLatencyBucket ds no_samples)"
proof (induction ds rule: rev_induct)
  case Nil
  then show ?case by (auto simp: counts_samples_def samples_within_def sum_list_replicate)
next
  case (snoc d ds)
  then show ?case using observe_counts by simp
qed

text \<open>The dense buckets are rendered as cumulative ones.\<close>

lemma bucket_lines_cumulative:
  "bucket_lines fmt name labels c ps =
     (concat (map (\<lambda>i. sampleInt (name @ ''_bucket'') (labels @ [label ''le'' (fmt (fst (ps ! i)))]) (c + sum_list (take (Suc i) (map snd ps)))) [0..<length ps]),
      c + sum_list (map snd ps))"
proof (induction ps arbitrary: c)
  case (Cons p ps)
  obtain bound n where p: "p = (bound, n)" by fastforce
  have idx: "[0..<length (p # ps)] = 0 # map Suc [0..<length ps]" by (simp add: map_Suc_upt upt_conv_Cons del: upt_Suc)
  show ?case by (simp only: p bucket_lines.simps Cons.IH idx [unfolded p]) (simp add: comp_def add.assoc)
qed simp

definition histogram_of :: "(float64 \<Rightarrow> string) \<Rightarrow> string \<Rightarrow> metricLabel list \<Rightarrow> duration list \<Rightarrow> float64 \<Rightarrow> string" where
  "histogram_of fmt name labels ds tot =
     concat (map (\<lambda>bound. sampleInt (name @ ''_bucket'') (labels @ [label ''le'' (fmt bound)]) (samples_within ds bound)) latencyBucketBounds)
     @ sampleInt (name @ ''_bucket'') (labels @ [label ''le'' ''+Inf'']) (int (length ds))
     @ sampleFloat fmt (name @ ''_sum'') labels tot @ sampleInt (name @ ''_count'') labels (int (length ds))"

lemma histogram_of_samples:
  assumes "counts_samples ds (b, ov, tot, n)"
  shows "metric_histogram fmt name labels b ov tot = histogram_of fmt name labels ds tot"
proof -
  let ?bs = "latencyBucketBounds" and ?line = "\<lambda>bound v. sampleInt (name @ ''_bucket'') (labels @ [label ''le'' (fmt bound)]) v"
  have len: "length b = length ?bs" and all: "sum_list b + ov = int (length ds)"
    and within: "\<And>i. i < length ?bs \<Longrightarrow> sum_list (take (Suc i) b) = samples_within ds (?bs ! i)"
    using assms by (auto simp: counts_samples_def)
  have "map (\<lambda>i. ?line (fst (zip ?bs b ! i)) (0 + sum_list (take (Suc i) (map snd (zip ?bs b))))) [0..<length (zip ?bs b)]
      = map (\<lambda>i. ?line (?bs ! i) (samples_within ds (?bs ! i))) [0..<length ?bs]"
    using len within by (intro map_cong) auto
  also have "\<dots> = map (\<lambda>bound. ?line bound (samples_within ds bound)) ?bs"
    by (rule nth_equalityI) simp_all
  finally show ?thesis using len all
    by (simp only: metric_histogram_def histogram_of_def bucket_lines_cumulative prod.case Let_def) simp
qed

subsection \<open>What the store keeps of a series\<close>

definition samples_of :: "latencyKey \<Rightarrow> (latencyKey \<times> latencySample) list \<Rightarrow> latencySample list" where
  "samples_of key recs = map snd (filter (\<lambda>(k, sample). k = key) recs)"

definition record_all :: "(latencyKey \<times> latencySample) list \<Rightarrow> latencyStore option" where
  "record_all recs = fold (\<lambda>(k, sample). latencyStore_record k sample) recs (Some [])"

lemma duration_series_record: "duration_series (record_sample sample h) = observeLatencyBucket (lat_duration sample) (duration_series h)"
proof -
  have keep: "duration_series (put_ttfb x h) = duration_series h" for x by (cases x) (simp add: put_ttfb_def duration_series_def)
  have put: "duration_series (put_duration x g) = x" for x g by (cases x) (simp add: put_duration_def duration_series_def)
  show ?thesis by (simp add: record_sample_def Let_def keep put)
qed

lemma ttfb_series_record:
  "ttfb_series (record_sample sample h) = (if lat_hasTTFB sample then observeLatencyBucket (lat_ttfb sample) (ttfb_series h) else ttfb_series h)"
proof -
  have keep: "ttfb_series (put_duration x g) = ttfb_series g" for x g by (cases x) (simp add: put_duration_def ttfb_series_def)
  have put: "ttfb_series (put_ttfb x g) = x" for x g by (cases x) (simp add: put_ttfb_def ttfb_series_def)
  show ?thesis by (simp add: record_sample_def Let_def keep put)
qed

lemma series_of_fold:
  "duration_series (fold record_sample ss h) = fold observeLatencyBucket (map lat_duration ss) (duration_series h)"
  "ttfb_series (fold record_sample ss h) = fold observeLatencyBucket (map lat_ttfb (filter lat_hasTTFB ss)) (ttfb_series h)"
  by (induction ss arbitrary: h) (simp_all add: duration_series_record ttfb_series_record)

lemma record_all_keeps_series:
  "\<exists>data. record_all recs = Some data
     \<and> map_of data key = (if samples_of key recs = [] then None else Some (fold record_sample (samples_of key recs) newLatencyHistogram))"
proof (induction recs rule: rev_induct)
  case Nil
  then show ?case by (simp add: record_all_def samples_of_def)
next
  case (snoc r recs)
  then obtain data where data: "record_all recs = Some data"
    and k: "map_of data key = (if samples_of key recs = [] then None else Some (fold record_sample (samples_of key recs) newLatencyHistogram))" by blast
  obtain k' sample where r: "r = (k', sample)" by fastforce
  have "record_all (recs @ [r]) = latencyStore_record k' sample (Some data)" using data r by (simp add: record_all_def)
  then show ?case using k r by (auto simp: latencyStore_record_def samples_of_def update_conv')
qed

lemma recorded_series_count:
  assumes "record_all recs = Some data" and "map_of data key = Some h"
  shows "counts_samples (map lat_duration (samples_of key recs)) (duration_series h)"
    and "counts_samples (map lat_ttfb (filter lat_hasTTFB (samples_of key recs))) (ttfb_series h)"
proof -
  have h: "h = fold record_sample (samples_of key recs) newLatencyHistogram"
    using record_all_keeps_series [of recs key] assms by (auto split: if_splits)
  have empty: "duration_series newLatencyHistogram = no_samples" "ttfb_series newLatencyHistogram = no_samples"
    by (simp_all add: duration_series_def ttfb_series_def newLatencyHistogram_def)
  show "counts_samples (map lat_duration (samples_of key recs)) (duration_series h)"
    "counts_samples (map lat_ttfb (filter lat_hasTTFB (samples_of key recs))) (ttfb_series h)"
    unfolding h series_of_fold empty by (rule fold_observe_counts)+
qed

text \<open>C21: The latency histogram rendered for a series is the histogram of the samples recorded
  under its key, in whatever order and between whatever other samples they came: the line of
  a bound shows the number of samples within it, the infinite bucket and the count show all
  of them.\<close>

theorem latency_histogram_is_exact:
  assumes "record_all recs = Some data" and "map_of data key = Some h"
  shows "metric_histogram fmt name labels (lh_durationBuckets h) (lh_durationOverflow h) (lh_durationSum h)
           = histogram_of fmt name labels (map lat_duration (samples_of key recs)) (lh_durationSum h)
         \<and> metric_histogram fmt name labels (lh_ttfbBuckets h) (lh_ttfbOverflow h) (lh_ttfbSum h)
           = histogram_of fmt name labels (map lat_ttfb (filter lat_hasTTFB (samples_of key recs))) (lh_ttfbSum h)
         \<and> lh_durationCount h = int (length (samples_of key recs))"
proof -
  note counted = recorded_series_count [OF assms, unfolded duration_series_def ttfb_series_def]
  have "lh_durationCount h = int (length (samples_of key recs))" using counted(1) by (simp add: counts_samples_def)
  then show ?thesis using histogram_of_samples [OF counted(1)] histogram_of_samples [OF counted(2)] by blast
qed

lemma latency_histogram_is_exact_witness:
  "\<exists>data h. record_all [(\<lparr>lk_provider = ''p'', lk_model = [], lk_streaming = False\<rparr>, \<lparr>lat_duration = 5, lat_ttfb = 3, lat_hasTTFB = True, lat_streaming = False\<rparr>)] = Some data
     \<and> map_of data \<lparr>lk_provider = ''p'', lk_model = [], lk_streaming = False\<rparr> = Some h \<and> lh_durationCount h = 1"
proof -
  let ?k = "\<lparr>lk_provider = ''p'', lk_model = [], lk_streaming = False\<rparr>"
  let ?s = "\<lparr>lat_duration = 5, lat_ttfb = 3, lat_hasTTFB = True, lat_streaming = False\<rparr> :: latencySample"
  have one: "samples_of ?k [(?k, ?s)] = [?s]" by (simp add: samples_of_def)
  obtain data h where "record_all [(?k, ?s)] = Some data" and "map_of data ?k = Some h"
    using record_all_keeps_series [of "[(?k, ?s)]" ?k] one by auto
  then show ?thesis using latency_histogram_is_exact [of "[(?k, ?s)]" data ?k h] one by auto
qed

end
