(* ===== verification/AdminStats.thy ===== *)
theory AdminStats
  imports Metrics Failover
begin

text \<open>
  The statistics endpoints of the admin API (stats_read.go and the usage part of admin.go): the
  validation of their query parameters, the bounded reads of the counters and the ranked, summed or
  bucketed replies.

  A handler is given the parsed pairs of the query and the clock of its reads.  It returns the reply
  before its JSON encoding, the keys of each read it started, and the limiter; \<open>None\<close> is a panic.
  The early returns of the code are written with the combinators below.
\<close>

subsection \<open>Replies\<close>

record usageHistoryResponse =
  uh_scope :: string
  uh_metric :: string
  uh_window :: string
  uh_points :: "historyPoint list"

record adminUsageModelEntryView =
  me_id :: string
  me_value :: int
  me_counts :: "(int \<times> int \<times> int \<times> int) option"
  me_cache :: "(int \<times> int) option"
  me_r402 :: "int option"
  me_priceSource :: "priceSource option"
  me_free :: bool

record adminUsageModelsResponse =
  ml_metric :: string
  ml_window :: string
  ml_models :: "adminUsageModelEntryView list"
  ml_span :: nat
  ml_offset :: int
  ml_detail :: bool

record adminSeriesView =
  sv_scope :: string
  sv_points :: "int list"

record adminSeriesResponse =
  sq_metric :: string
  sq_window :: string
  sq_buckets :: "string list"
  sq_series :: "adminSeriesView list"
  sq_unknown :: "string list"
  sq_span :: nat
  sq_offset :: int

record adminTotalsRow =
  tr_values :: "string \<rightharpoonup> int"
  tr_id :: string

record adminTotalsResponse =
  tq_kind :: string
  tq_window :: string
  tq_metrics :: "string list"
  tq_rows :: "adminTotalsRow list"
  tq_span :: nat
  tq_offset :: int
  tq_truncated :: bool

record adminPerfRow =
  pf_p50Ms :: "float64 option"
  pf_p95Ms :: "float64 option"
  pf_p99Ms :: "float64 option"
  pf_ttfbP50Ms :: "float64 option"
  pf_ttfbP95Ms :: "float64 option"
  pf_id :: string
  pf_count :: int
  pf_attempts :: int
  pf_failures :: int
  pf_timeouts :: int
  pf_failovers :: int
  pf_overflow :: bool

record adminPerfResponse =
  pq_kind :: string
  pq_window :: string
  pq_rows :: "adminPerfRow list"
  pq_buckets :: "string list"
  pq_points :: "adminPerfRow list"
  pq_span :: nat
  pq_offset :: int
  pq_latencyEnabled :: bool

datatype statsReply =
    StatsError nat string string
  | HistoryReply usageHistoryResponse
  | ModelsReply adminUsageModelsResponse
  | SeriesReply adminSeriesResponse
  | TotalsReply adminTotalsResponse
  | PerfReply adminPerfResponse

record adminFeaturesView =
  af_userModelStats :: bool
  af_latencyStats :: bool
  af_cacheStats :: bool
  af_lastSeen :: bool
  af_failover :: bool

text \<open>What the endpoints read of the gateway; \<open>sg_stats\<close> holds the two flags of the stats block.\<close>

record ('d, 's) statsGateway =
  sg_auth :: "'d authStore"
  sg_limiter :: "'s limiter"
  sg_registry :: modelRegistry
  sg_targets :: targetsConfig
  sg_stats :: "(bool \<times> bool) option"
  sg_cacheOn :: bool
  sg_pricing :: "string \<rightharpoonup> ModelPricing option"
  sg_modelMeta :: "string \<rightharpoonup> ModelMetaConfig option"

definition buildAdminFeatures :: "('d, 's) statsGateway \<Rightarrow> adminFeaturesView" where
  "buildAdminFeatures g =
     (let (userModel, latency) = (case sg_stats g of Some flags \<Rightarrow> flags | None \<Rightarrow> (False, False)) in
      \<lparr>af_userModelStats = userModel, af_latencyStats = latency, af_cacheStats = sg_cacheOn g, af_lastSeen = True, af_failover = True\<rparr>)"

type_synonym 's outcome = "(statsReply \<times> string list list \<times> 's limiter) option"

definition bad_request :: "string \<Rightarrow> statsReply" where
  "bad_request msg = StatsError 400 ''invalid_request_error'' msg"

definition range_too_large :: statsReply where
  "range_too_large = bad_request ''range too large; narrow span or filter''"

definition unavailable :: "string \<Rightarrow> statsReply" where
  "unavailable msg = StatsError 503 ''server_error'' msg"

definition reply :: "statsReply \<Rightarrow> 's limiter \<Rightarrow> 's outcome" where
  "reply r l = Some (r, [], l)"

definition guarded :: "bool \<Rightarrow> statsReply \<Rightarrow> 's limiter \<Rightarrow> 's outcome \<Rightarrow> 's outcome" where
  "guarded ok err l k = (if ok then k else reply err l)"

text \<open>The value of a parameter: \<open>None\<close> is a panic of the parser, \<open>Some None\<close> a refused value.\<close>

definition parsed :: "'a option option \<Rightarrow> string \<Rightarrow> 's limiter \<Rightarrow> ('a \<Rightarrow> 's outcome) \<Rightarrow> 's outcome" where
  "parsed p msg l k = (case p of None \<Rightarrow> None | Some None \<Rightarrow> reply (bad_request msg) l | Some (Some x) \<Rightarrow> k x)"

definition log_read :: "string list \<Rightarrow> 's outcome \<Rightarrow> 's outcome" where
  "log_read keys = map_option (\<lambda>(r, reads, l). (r, keys # reads, l))"

definition read_totals :: "gtime \<Rightarrow> gtime \<Rightarrow> string \<Rightarrow> string list \<Rightarrow> string list \<Rightarrow> window \<Rightarrow> nat \<Rightarrow> int \<Rightarrow> string \<Rightarrow> 's limiter \<Rightarrow>
    (int list list \<Rightarrow> 's limiter \<Rightarrow> 's outcome) \<Rightarrow> 's outcome" where
  "read_totals ts now kind ids metrics w spn offset msg l k =
     (case span_keys kind metrics w now spn offset ids of
        None \<Rightarrow> None
      | Some keys \<Rightarrow>
          (case spanTotalsMulti ts kind ids metrics w now spn offset l of
             None \<Rightarrow> None
           | Some (None, l1) \<Rightarrow> log_read keys (reply (unavailable msg) l1)
           | Some (Some totals, l1) \<Rightarrow> log_read keys (k totals l1)))"

definition read_keys :: "gtime \<Rightarrow> string list \<Rightarrow> string \<Rightarrow> 's limiter \<Rightarrow> (int list \<Rightarrow> 's limiter \<Rightarrow> 's outcome) \<Rightarrow> 's outcome" where
  "read_keys ts keys msg l k =
     log_read keys (case chunkedGetMulti ts keys (int usageModelsChunkKeys) l of
        (None, l1) \<Rightarrow> reply (unavailable msg) l1
      | (Some vals, l1) \<Rightarrow> if length vals \<noteq> length keys then reply (unavailable msg) l1 else k vals l1)"

subsection \<open>Parameters\<close>

type_synonym query = "(string \<times> string) list"

definition query_get :: "query \<Rightarrow> string \<Rightarrow> string" where
  "query_get q k = (case values_of q k of [] \<Rightarrow> [] | v # _ \<Rightarrow> v)"

definition window_of :: "string \<Rightarrow> window" where
  "window_of s = (if s = ''hour'' then WHour else if s = ''day'' then WDay else if s = ''month'' then WMonth else WMin)"

definition historyMaxSpan :: "window \<Rightarrow> nat option" where
  "historyMaxSpan w = (case w of WHour \<Rightarrow> Some 48 | WDay \<Rightarrow> Some 35 | WMonth \<Rightarrow> Some 13 | WMin \<Rightarrow> None)"

definition validHistoryMetric :: "string \<Rightarrow> bool" where
  "validHistoryMetric m \<longleftrightarrow> m \<in> {metricReq, metricTokIn, metricTokOut, metricCost}"

definition validHistoryWindow :: "string \<Rightarrow> bool" where
  "validHistoryWindow w \<longleftrightarrow> w \<in> {window_str WHour, window_str WDay, window_str WMonth}"

definition parseHistoryScope :: "string \<Rightarrow> (string \<times> string) option" where
  "parseHistoryScope raw =
     (if raw = totalScopeKind then Some (totalScopeKind, totalScopeID)
      else case strings_Cut (CHR '':'') raw of
             None \<Rightarrow> None
           | Some (k, i) \<Rightarrow> if i = [] \<or> (k \<noteq> ''user'' \<and> k \<noteq> ''group'' \<and> k \<noteq> kindModel) then None else Some (k, i))"

definition ranged :: "int \<Rightarrow> int \<Rightarrow> string \<Rightarrow> int option" where
  "ranged lo hi raw = (case atoi raw of None \<Rightarrow> None | Some n \<Rightarrow> if n < lo \<or> hi < n then None else Some n)"

definition parseHistorySpan :: "string \<Rightarrow> window \<Rightarrow> nat option option" where
  "parseHistorySpan raw w =
     map_option (\<lambda>mx. if raw = [] then Some mx else map_option nat (ranged 1 (int mx) raw)) (historyMaxSpan w)"

definition parseStatsOffset :: "string \<Rightarrow> window \<Rightarrow> nat \<Rightarrow> int option option" where
  "parseStatsOffset raw w spn =
     (if raw = [] then Some (Some 0) else map_option (\<lambda>mx. ranged 0 (int mx - int spn) raw) (historyMaxSpan w))"

definition parseUsageModelsSpan :: "string \<Rightarrow> window \<Rightarrow> nat option option" where
  "parseUsageModelsSpan raw w =
     (if raw = [] then Some (Some 1) else map_option (\<lambda>mx. map_option nat (ranged 1 (int mx) raw)) (historyMaxSpan w))"

definition usageModelsDefaultLimit :: nat where "usageModelsDefaultLimit = 20"
definition usageModelsMaxLimit :: nat where "usageModelsMaxLimit = 100"
definition usageModelsPrefixMaxLen :: nat where "usageModelsPrefixMaxLen = 256"
definition adminTotalsDefaultLimit :: nat where "adminTotalsDefaultLimit = 200"
definition adminTotalsMaxLimit :: nat where "adminTotalsMaxLimit = 1000"
definition adminMaxKeysPerRequest :: nat where "adminMaxKeysPerRequest = 64000"
definition adminSeriesMaxScopes :: nat where "adminSeriesMaxScopes = 100"
definition adminPerfMaxIDs :: nat where "adminPerfMaxIDs = 50"

definition parseUsageModelsLimit :: "string \<Rightarrow> nat option" where
  "parseUsageModelsLimit raw =
     (if raw = [] then Some usageModelsDefaultLimit else map_option nat (ranged 1 (int usageModelsMaxLimit) raw))"

definition parseUsageModelsPrefix :: "string \<Rightarrow> string option" where
  "parseUsageModelsPrefix raw = (if usageModelsPrefixMaxLen < length raw then None else Some raw)"

definition parseUsageModelsDetail :: "string \<Rightarrow> bool option" where
  "parseUsageModelsDetail raw =
     (if raw \<in> {[], ''0'', ''false''} then Some False else if raw \<in> {''1'', ''true''} then Some True else None)"

definition parseTotalsLimit :: "string \<Rightarrow> nat option" where
  "parseTotalsLimit raw =
     (if raw = [] then Some adminTotalsDefaultLimit else map_option nat (ranged 1 (int adminTotalsMaxLimit) raw))"

definition parseTargetRef :: "string \<Rightarrow> (string \<times> string) option" where
  "parseTargetRef raw =
     (case strings_Cut (CHR ''/'') raw of
        None \<Rightarrow> None
      | Some (k, n) \<Rightarrow> if n = [] \<or> (k \<noteq> ''mcp'' \<and> k \<noteq> ''agent'') then None else Some (k, n))"

definition parseSeriesScope :: "string \<Rightarrow> (string \<times> string) option" where
  "parseSeriesScope raw =
     (if raw = totalScopeKind then Some (totalScopeKind, totalScopeID)
      else case strings_Cut (CHR '':'') raw of
             None \<Rightarrow> None
           | Some (prefix, rest) \<Rightarrow>
               if rest = [] then None
               else if prefix = ''user'' \<or> prefix = ''group'' then Some (prefix, rest)
               else if prefix = ''model'' then Some (kindModel, rest)
               else if prefix = ''provider'' then Some (kindProvider, rest)
               else if prefix = ''provmodel'' then Some (kindProviderModel, rest)
               else None)"

definition hour_or_day :: "window \<Rightarrow> bool" where
  "hour_or_day w \<longleftrightarrow> w = WHour \<or> w = WDay"

definition seriesValidMetric :: "string \<Rightarrow> string \<Rightarrow> window \<Rightarrow> bool" where
  "seriesValidMetric scopeKind m w =
     (if scopeKind \<in> {''user'', ''group'', totalScopeKind}
      then m \<in> {metricReq, metricTokIn, metricTokOut, metricCost} \<or> (m = metricRej \<and> hour_or_day w)
           \<or> (scopeKind = totalScopeKind \<and> m \<in> {metricChit, metricCmiss, metricCsave, metricR402} \<and> hour_or_day w)
      else if scopeKind = kindModel
      then m \<in> {metricReq, metricTokIn, metricTokOut, metricCost} \<or> (m \<in> {metricChit, metricCsave, metricR402} \<and> w = WDay)
      else if scopeKind = kindProvider
      then m \<in> {metricProvAttempt, metricProvFail, metricProvTimeout, metricFover} \<and> hour_or_day w
      else if scopeKind = kindProviderModel
      then m \<in> {metricProvAttempt, metricProvFail} \<and> hour_or_day w
      else False)"

definition isKnownStatsMetric :: "string \<Rightarrow> bool" where
  "isKnownStatsMetric m \<longleftrightarrow> m \<in> {metricRej, metricProvAttempt, metricProvFail, metricProvTimeout, metricFover, metricR402, metricChit, metricCmiss, metricCsave}"

definition totalsKindMetrics :: "string \<Rightarrow> string list" where
  "totalsKindMetrics kind =
     (if kind \<in> {''user'', ''group'', ''usermodel'', ''modeluser''} then [metricReq, metricTokIn, metricTokOut, metricCost]
      else if kind = ''targetcaller'' then [metricReq] else [])"

definition totalsValidWindow :: "string \<Rightarrow> string \<Rightarrow> bool" where
  "totalsValidWindow kind w =
     (if kind \<in> {''usermodel'', ''modeluser'', ''targetcaller''} then w = window_str WDay \<or> w = window_str WMonth else validHistoryWindow w)"

definition parseTotalsMetrics :: "string \<Rightarrow> string \<Rightarrow> string list option" where
  "parseTotalsMetrics raw kind =
     (if raw = [] then Some (totalsKindMetrics kind)
      else let parts = strings_Split (CHR '','') raw in
           if distinct parts \<and> set parts \<subseteq> set (totalsKindMetrics kind) then Some parts else None)"

definition performanceValidWindow :: "string \<Rightarrow> bool" where
  "performanceValidWindow w \<longleftrightarrow> w = window_str WHour \<or> w = window_str WDay"

subsection \<open>Scopes\<close>

definition catalogModelScopeIDs :: "('d, 's) statsGateway \<Rightarrow> string list" where
  "catalogModelScopeIDs g = concat (map (\<lambda>(name, sn, enabled). map (providerModelScopeID name) (sn_models sn)) (registry_snapshot (sg_registry g)))"

definition scopeExists :: "('d, 's) statsGateway \<Rightarrow> string \<Rightarrow> string \<Rightarrow> bool" where
  "scopeExists g kind sid =
     (if kind = kindModel then sid \<in> set (catalogModelScopeIDs g)
      else case authStore_snapshot (sg_auth g) of (users, groups) \<Rightarrow>
        if kind = ''user'' then sid \<in> um_name ` set users
        else if kind = ''group'' then sid \<in> gm_name ` set groups else False)"

definition seriesScopeExists :: "('d, 's) statsGateway \<Rightarrow> string \<Rightarrow> string \<Rightarrow> bool" where
  "seriesScopeExists g kind sid =
     (if kind = kindProvider then sid \<in> fst ` set (registry_snapshot (sg_registry g))
      else if kind = kindProviderModel then scopeExists g kindModel sid
      else scopeExists g kind sid)"

subsection \<open>History and models\<close>

definition history_answer :: "gtime \<Rightarrow> gtime \<Rightarrow> string \<Rightarrow> string \<Rightarrow> string \<Rightarrow> window \<Rightarrow> nat \<Rightarrow> 's limiter \<Rightarrow> (historyPoint list \<Rightarrow> statsReply) \<Rightarrow> 's outcome" where
  "history_answer ts now kind sid metric w spn l answer =
     (case historyBucketKeys kind sid metric w now spn of
        None \<Rightarrow> None
      | Some (keys, _) \<Rightarrow>
          (case limiter_history ts kind sid metric w now spn l of
             None \<Rightarrow> None
           | Some (None, l1) \<Rightarrow> log_read keys (reply (unavailable ''usage history store unavailable'') l1)
           | Some (Some points, l1) \<Rightarrow> log_read keys (reply (answer points) l1)))"

definition serveAdminUsageHistory :: "gtime \<Rightarrow> gtime \<Rightarrow> query \<Rightarrow> ('d, 's) statsGateway \<Rightarrow> 's outcome" where
  "serveAdminUsageHistory ts now q g =
     (let l = sg_limiter g; rawScope = query_get q ''scope''; metric = query_get q ''metric''; win = query_get q ''window''; w = window_of win in
      parsed (Some (parseHistoryScope rawScope)) ''unknown scope'' l (\<lambda>(kind, sid).
      guarded (validHistoryMetric metric) (bad_request ''unknown metric'') l (
      guarded (validHistoryWindow win) (bad_request ''unknown window'') l (
      parsed (parseHistorySpan (query_get q ''span'') w) ''invalid span'' l (\<lambda>spn.
      guarded (kind = totalScopeKind \<or> scopeExists g kind sid) (StatsError 404 ''invalid_request_error'' (''unknown '' @ kind @ '' id'')) l (
      history_answer ts now kind sid metric w spn l (\<lambda>points. HistoryReply \<lparr>uh_scope = rawScope, uh_metric = metric, uh_window = win, uh_points = points\<rparr>)))))))"

definition usageModelsDetailMetrics :: "string list" where
  "usageModelsDetailMetrics = [metricReq, metricTokIn, metricTokOut, metricCost]"

definition usageModelsMetricIndex :: "string \<Rightarrow> nat" where
  "usageModelsMetricIndex m = (if m = metricReq then 0 else if m = metricTokIn then 1 else if m = metricTokOut then 2 else 3)"

definition adminUsageModelFree :: "(string \<rightharpoonup> builtinModelMeta) \<Rightarrow> string \<Rightarrow> string \<Rightarrow> (string \<rightharpoonup> ModelPricing option) \<Rightarrow> (string \<rightharpoonup> ModelMetaConfig option) \<Rightarrow> bool" where
  "adminUsageModelFree table canonical bare overrides meta \<longleftrightarrow>
     modelMetaFree canonical bare meta
     \<or> (case resolveUnifiedPricing table canonical bare overrides of Some price \<Rightarrow> InputPerM price = Fin 0 \<and> OutputPerM price = Fin 0 | None \<Rightarrow> False)"

text \<open>Differences of midnights are whole days; dividing their hours by 24 is exact in \<open>float64\<close>.\<close>

definition monthRangeToDayBuckets :: "gtime \<Rightarrow> nat \<Rightarrow> int \<Rightarrow> int \<times> int" where
  "monthRangeToDayBuckets now spn offset =
     (let (y, m, d) = utc_date now;
          today = time_Date y m d 0 0;
          monthAnchor = time_Date y m 1 0 0;
          lastMonth = time_AddDate monthAnchor 0 (- offset) 0;
          firstMonth = time_AddDate lastMonth 0 (- (int spn - 1)) 0;
          lastDay = (if 0 < offset then time_AddDate lastMonth 0 1 (- 1) else today);
          dayOffset = (today - lastDay) div day_ns;
          daySpan = (lastDay - firstMonth) div day_ns + 1;
          mx = 35 - dayOffset
      in (if mx < daySpan then (if mx < 1 then 1 else mx) else daySpan, dayOffset))"

text \<open>The range of the counters that are kept by day when a range of months is asked for.\<close>

definition day_range :: "window \<Rightarrow> gtime \<Rightarrow> nat \<Rightarrow> int \<Rightarrow> window \<times> nat \<times> int" where
  "day_range w now spn offset =
     (if w = WMonth then (case monthRangeToDayBuckets now spn offset of (dspn, doff) \<Rightarrow> (WDay, nat dspn, doff)) else (w, spn, offset))"

definition bare_of :: "string \<Rightarrow> string" where
  "bare_of sid = (case strings_Cut (CHR ''/'') sid of Some (_, bare) \<Rightarrow> bare | None \<Rightarrow> [])"

definition model_entry :: "(string \<rightharpoonup> builtinModelMeta) \<Rightarrow> ('d, 's) statsGateway \<Rightarrow> string \<Rightarrow> int list list \<Rightarrow> int list \<Rightarrow> (int list \<times> int list) option \<Rightarrow> nat \<times> string \<Rightarrow> adminUsageModelEntryView option" where
  "model_entry table g metric totals r402s caches = (\<lambda>(i, sid).
     (let req = totals ! 0 ! i; tokIn = totals ! 1 ! i; tokOut = totals ! 2 ! i; cost = totals ! 3 ! i; bare = bare_of sid in
      if req = 0 \<and> tokIn = 0 \<and> tokOut = 0 \<and> cost = 0 then None
      else Some \<lparr>me_id = sid, me_value = totals ! usageModelsMetricIndex metric ! i, me_counts = Some (req, tokIn, tokOut, cost),
                 me_cache = map_option (\<lambda>(chit, csave). (chit ! i, csave ! i)) caches, me_r402 = Some (r402s ! i),
                 me_priceSource = Some (fst (billingPriceSource table sid bare (sg_pricing g) (sg_modelMeta g))),
                 me_free = adminUsageModelFree table sid bare (sg_pricing g) (sg_modelMeta g)\<rparr>))"

definition requests_of :: "adminUsageModelEntryView \<Rightarrow> int" where
  "requests_of e = (case me_counts e of Some (req, _) \<Rightarrow> req | None \<Rightarrow> 0)"

definition serveAdminUsageModelsDetail :: "(string \<rightharpoonup> builtinModelMeta) \<Rightarrow> gtime \<Rightarrow> gtime \<Rightarrow> string list \<Rightarrow> string \<Rightarrow> string \<Rightarrow> nat \<Rightarrow> int \<Rightarrow> nat \<Rightarrow> ('d, 's) statsGateway \<Rightarrow> 's outcome" where
  "serveAdminUsageModelsDetail table ts now ids metric win spn offset limit g =
     (let w = window_of win; down = ''usage history store unavailable''; (dw, dspn, doff) = day_range w now spn offset;
          answer = (\<lambda>totals r402s caches l. reply (ModelsReply \<lparr>ml_metric = metric, ml_window = win,
             ml_models = take limit (sort_key (\<lambda>e. (- me_value e, - requests_of e, me_id e))
               (List.map_filter (model_entry table g metric totals r402s caches) (enumerate 0 ids))),
             ml_span = spn, ml_offset = offset, ml_detail = True\<rparr>) l)
      in read_totals ts now kindModel ids usageModelsDetailMetrics w spn offset down (sg_limiter g) (\<lambda>totals l1.
         read_totals ts now kindModel ids [metricR402] dw dspn doff down l1 (\<lambda>r402Multi l2.
         if af_cacheStats (buildAdminFeatures g) \<and> w \<noteq> WHour
         then read_totals ts now kindModel ids [metricChit, metricCsave] dw dspn doff down l2
                (\<lambda>cacheMulti. answer totals (r402Multi ! 0) (Some (cacheMulti ! 0, cacheMulti ! 1)))
         else answer totals (r402Multi ! 0) None l2)))"

definition key_multiplier :: "bool \<Rightarrow> ('d, 's) statsGateway \<Rightarrow> nat" where
  "key_multiplier detail g = (if detail then length usageModelsDetailMetrics + 1 + (if af_cacheStats (buildAdminFeatures g) then 2 else 0) else 1)"

definition ranked_models :: "string list \<Rightarrow> int list \<Rightarrow> nat \<Rightarrow> adminUsageModelEntryView list" where
  "ranked_models ids totals limit =
     take limit (sort_key (\<lambda>e. (- me_value e, me_id e))
       (map (\<lambda>(sid, v). \<lparr>me_id = sid, me_value = v, me_counts = None, me_cache = None, me_r402 = None, me_priceSource = None, me_free = False\<rparr>)
         (filter (\<lambda>(sid, v). v \<noteq> 0) (zip ids totals))))"

definition serveAdminUsageModels :: "(string \<rightharpoonup> builtinModelMeta) \<Rightarrow> gtime \<Rightarrow> gtime \<Rightarrow> query \<Rightarrow> ('d, 's) statsGateway \<Rightarrow> 's outcome" where
  "serveAdminUsageModels table ts now q g =
     (let l = sg_limiter g; metric = query_get q ''metric''; win = query_get q ''window''; w = window_of win in
      guarded (validHistoryMetric metric) (bad_request ''unknown metric'') l (
      guarded (validHistoryWindow win) (bad_request ''unknown window'') l (
      parsed (Some (parseUsageModelsLimit (query_get q ''limit''))) ''invalid limit'' l (\<lambda>limit.
      parsed (parseUsageModelsSpan (query_get q ''span'') w) ''invalid span'' l (\<lambda>spn.
      parsed (parseStatsOffset (query_get q ''offset'') w spn) ''invalid offset'' l (\<lambda>offset.
      parsed (Some (parseUsageModelsPrefix (query_get q ''prefix''))) ''invalid prefix'' l (\<lambda>pre.
      parsed (Some (parseUsageModelsDetail (query_get q ''detail''))) ''invalid detail'' l (\<lambda>detail.
      let ids = filter (\<lambda>sid. strip_prefix pre sid \<noteq> None) (catalogModelScopeIDs g) in
      guarded (length ids * spn * key_multiplier detail g \<le> adminMaxKeysPerRequest) range_too_large l (
      if detail then serveAdminUsageModelsDetail table ts now ids metric win spn offset limit g
      else read_totals ts now kindModel ids [metric] w spn offset ''usage history store unavailable'' l (\<lambda>totals l1.
        reply (ModelsReply \<lparr>ml_metric = metric, ml_window = win, ml_models = ranked_models ids (totals ! 0) limit,
                            ml_span = spn, ml_offset = offset, ml_detail = False\<rparr>) l1))))))))))"

subsection \<open>Series\<close>

record parsedScope =
  ps_raw :: string
  ps_kind :: string
  ps_id :: string

text \<open>The scopes to read and the unknown ones; \<open>None\<close> when a metric does not fit a scope.\<close>

fun parse_scopes :: "('d, 's) statsGateway \<Rightarrow> string \<Rightarrow> window \<Rightarrow> string list \<Rightarrow> (parsedScope list \<times> string list) option" where
  "parse_scopes g metric w [] = Some ([], [])"
| "parse_scopes g metric w (raw # rest) =
     (case parseSeriesScope raw of
        None \<Rightarrow> map_option (\<lambda>(ps, un). (ps, raw # un)) (parse_scopes g metric w rest)
      | Some (kind, sid) \<Rightarrow>
          if \<not> seriesValidMetric kind metric w then None
          else if kind \<noteq> totalScopeKind \<and> \<not> seriesScopeExists g kind sid
          then map_option (\<lambda>(ps, un). (ps, raw # un)) (parse_scopes g metric w rest)
          else map_option (\<lambda>(ps, un). (\<lparr>ps_raw = raw, ps_kind = kind, ps_id = sid\<rparr> # ps, un)) (parse_scopes g metric w rest))"

definition series_keys :: "string \<Rightarrow> window \<Rightarrow> gtime \<Rightarrow> nat \<Rightarrow> int \<Rightarrow> parsedScope list \<Rightarrow> (string list \<times> string list) option" where
  "series_keys metric w now spn offset ps =
     map_option (\<lambda>rows. (concat (map fst rows), (case rows of [] \<Rightarrow> [] | r # _ \<Rightarrow> snd r)))
       (those (map (\<lambda>p. historyBucketKeysAt (ps_kind p) (ps_id p) metric w now spn offset) ps))"

definition series_reply :: "string \<Rightarrow> string \<Rightarrow> nat \<Rightarrow> int \<Rightarrow> string list \<Rightarrow> parsedScope list \<Rightarrow> string list \<Rightarrow> int list \<Rightarrow> statsReply" where
  "series_reply metric win spn offset buckets ps un vals =
     SeriesReply \<lparr>sq_metric = metric, sq_window = win, sq_buckets = buckets,
       sq_series = map (\<lambda>(i, p). \<lparr>sv_scope = ps_raw p, sv_points = slice (i * spn) spn vals\<rparr>) (enumerate 0 ps),
       sq_unknown = un, sq_span = spn, sq_offset = offset\<rparr>"

definition serveAdminUsageSeries :: "gtime \<Rightarrow> gtime \<Rightarrow> query \<Rightarrow> ('d, 's) statsGateway \<Rightarrow> 's outcome" where
  "serveAdminUsageSeries ts now q g =
     (let l = sg_limiter g; rawScopes = values_of q ''scope''; metric = query_get q ''metric''; win = query_get q ''window''; w = window_of win in
      guarded (rawScopes \<noteq> []) (bad_request ''at least one scope is required'') l (
      guarded (length rawScopes \<le> adminSeriesMaxScopes) (bad_request ''too many scopes'') l (
      guarded (validHistoryWindow win) (bad_request ''unknown window'') l (
      guarded (validHistoryMetric metric \<or> isKnownStatsMetric metric) (bad_request ''unknown metric'') l (
      parsed (parseHistorySpan (query_get q ''span'') w) ''invalid span'' l (\<lambda>spn.
      parsed (parseStatsOffset (query_get q ''offset'') w spn) ''invalid offset'' l (\<lambda>offset.
      parsed (Some (parse_scopes g metric w rawScopes)) ''unknown metric for scope kind'' l (\<lambda>(ps, un).
      guarded (length ps * spn \<le> adminMaxKeysPerRequest) range_too_large l (
      case series_keys metric w now spn offset ps of
        None \<Rightarrow> None
      | Some (keys, buckets) \<Rightarrow>
          read_keys ts keys ''usage store unavailable'' l (\<lambda>vals l1. reply (series_reply metric win spn offset buckets ps un vals) l1))))))))))"

subsection \<open>Totals\<close>

text \<open>The totals by id and metric; a missing entry reads as zero.\<close>

type_synonym totalsMap = "string \<rightharpoonup> (string \<rightharpoonup> int)"

definition by_id :: "string list \<Rightarrow> string list \<Rightarrow> int list list \<Rightarrow> totalsMap" where
  "by_id ids metrics totals =
     map_of (rev (map (\<lambda>(i, sid). (sid, map_of (rev (map (\<lambda>(mi, metric). (metric, totals ! mi ! i)) (enumerate 0 metrics))))) (enumerate 0 ids)))"

definition readSpanTotals :: "gtime \<Rightarrow> gtime \<Rightarrow> string \<Rightarrow> string list \<Rightarrow> string list \<Rightarrow> window \<Rightarrow> nat \<Rightarrow> int \<Rightarrow> 's limiter \<Rightarrow>
    (totalsMap \<Rightarrow> 's limiter \<Rightarrow> 's outcome) \<Rightarrow> 's outcome" where
  "readSpanTotals ts now kind ids metrics w spn offset l k =
     (if ids = [] \<or> metrics = [] then k Map.empty l
      else read_totals ts now kind ids metrics w spn offset ''usage store unavailable'' l (\<lambda>totals. k (by_id ids metrics totals)))"

definition value_at :: "(string \<rightharpoonup> int) \<Rightarrow> string \<Rightarrow> int" where
  "value_at row metric = (case row metric of Some v \<Rightarrow> v | None \<Rightarrow> 0)"

definition row_of :: "totalsMap \<Rightarrow> string \<Rightarrow> (string \<rightharpoonup> int)" where
  "row_of m sid = (case m sid of Some row \<Rightarrow> row | None \<Rightarrow> Map.empty)"

record totalsCandidate =
  tc_values :: "string \<rightharpoonup> int"
  tc_id :: string

text \<open>An empty list of metrics makes the code panic.\<close>

definition buildTotalsRows :: "totalsCandidate list \<Rightarrow> string list \<Rightarrow> nat \<Rightarrow> (adminTotalsRow list \<times> bool) option" where
  "buildTotalsRows candidates metrics limit =
     (if metrics = [] then None
      else let rows = map (\<lambda>c. \<lparr>tr_values = tc_values c, tr_id = tc_id c\<rparr>)
                 (filter (\<lambda>c. list_ex (\<lambda>m. value_at (tc_values c) m \<noteq> 0) metrics) candidates);
               sorted_rows = sort_key (\<lambda>r. (- value_at (tr_values r) (hd metrics), tr_id r)) rows
           in Some (take limit sorted_rows, limit < length sorted_rows))"

definition totals_reply :: "string \<Rightarrow> string \<Rightarrow> string list \<Rightarrow> nat \<Rightarrow> int \<Rightarrow> nat \<Rightarrow> totalsCandidate list \<Rightarrow> 's limiter \<Rightarrow> 's outcome" where
  "totals_reply kind win metrics spn offset limit candidates l =
     (case buildTotalsRows candidates metrics limit of
        None \<Rightarrow> None
      | Some (rows, truncated) \<Rightarrow>
          reply (TotalsReply \<lparr>tq_kind = kind, tq_window = win, tq_metrics = metrics, tq_rows = rows, tq_span = spn, tq_offset = offset, tq_truncated = truncated\<rparr>) l)"

text \<open>One read for rows shown under their own name: the pairs of shown id and scope id.\<close>

definition totals_of :: "gtime \<Rightarrow> gtime \<Rightarrow> string \<Rightarrow> string \<Rightarrow> string \<Rightarrow> string list \<Rightarrow> nat \<Rightarrow> int \<Rightarrow> nat \<Rightarrow> (string \<times> string) list \<Rightarrow> 's limiter \<Rightarrow> 's outcome" where
  "totals_of ts now scopeKind kind win metrics spn offset limit shown l =
     guarded (length shown * length metrics * spn \<le> adminMaxKeysPerRequest) range_too_large l
       (readSpanTotals ts now scopeKind (map snd shown) metrics (window_of win) spn offset l (\<lambda>raw l1.
         totals_reply kind win metrics spn offset limit (map (\<lambda>(name, sid). \<lparr>tc_values = row_of raw sid, tc_id = name\<rparr>) shown) l1))"

definition usermodel_totals :: "gtime \<Rightarrow> gtime \<Rightarrow> string \<Rightarrow> string \<Rightarrow> string list \<Rightarrow> nat \<Rightarrow> int \<Rightarrow> nat \<Rightarrow> ('d, 's) statsGateway \<Rightarrow> 's outcome" where
  "usermodel_totals ts now userParam win metrics spn offset limit g =
     (let l = sg_limiter g; modelIDs = catalogModelScopeIDs g in
      case historyMaxSpan WMonth of
        None \<Rightarrow> None
      | Some coverSpan \<Rightarrow>
          guarded (length modelIDs * coverSpan \<le> adminMaxKeysPerRequest) range_too_large l
            (readSpanTotals ts now kindModel modelIDs [metricReq] WMonth coverSpan 0 l (\<lambda>cheap l1.
              let nonzero = filter (\<lambda>sid. value_at (row_of cheap sid) metricReq \<noteq> 0) modelIDs in
              totals_of ts now kindUserModel ''usermodel'' win metrics spn offset limit
                (map (\<lambda>canonical. (canonical, userModelScopeID userParam canonical)) nonzero) l1)))"

definition target_refs :: "targetsConfig \<Rightarrow> (string \<times> string) option \<Rightarrow> (string \<times> string) list" where
  "target_refs cfg ref =
     (case ref of
        Some t \<Rightarrow> [t]
      | None \<Rightarrow> map (Pair ''mcp'') (sorted_names_of (tg_MCPServers cfg)) @ map (Pair ''agent'') (sorted_names_of (tg_Agents cfg)))"

definition totals_for_kind :: "gtime \<Rightarrow> gtime \<Rightarrow> query \<Rightarrow> string \<Rightarrow> string \<Rightarrow> string list \<Rightarrow> nat \<Rightarrow> int \<Rightarrow> nat \<Rightarrow> (string \<times> string) option \<Rightarrow> ('d, 's) statsGateway \<Rightarrow> 's outcome" where
  "totals_for_kind ts now q kind win metrics spn offset limit ref g =
     (case authStore_snapshot (sg_auth g) of (users, groups) \<Rightarrow>
       let l = sg_limiter g; grp = query_get q ''group''; names = map um_name users in
       if kind = ''user''
       then totals_of ts now ''user'' kind win metrics spn offset limit
              (map (\<lambda>us. (um_name us, um_name us)) (filter (\<lambda>us. grp = [] \<or> grp \<in> set (um_groups us)) users)) l
       else if kind = ''group''
       then totals_of ts now ''group'' kind win metrics spn offset limit (map (\<lambda>gs. (gm_name gs, gm_name gs)) groups) l
       else if kind = ''usermodel''
       then usermodel_totals ts now (query_get q ''user'') win metrics spn offset limit g
       else if kind = ''modeluser''
       then totals_of ts now kindUserModel kind win metrics spn offset limit
              (map (\<lambda>name. (name, userModelScopeID name (query_get q ''model''))) names) l
       else totals_of ts now kindTargetCaller kind win metrics spn offset limit
              (concat (map (\<lambda>(k, n). map (\<lambda>name. (targetCallerScopeID k n name, targetCallerScopeID k n name)) names) (target_refs (sg_targets g) ref))) l)"

definition totals_kinds :: "string set" where
  "totals_kinds = {''user'', ''group'', ''usermodel'', ''modeluser'', ''targetcaller''}"

definition target_param :: "query \<Rightarrow> string \<Rightarrow> (string \<times> string) option option" where
  "target_param q kind =
     (let raw = query_get q ''target'' in
      if kind = ''targetcaller'' \<and> raw \<noteq> [] then map_option Some (parseTargetRef raw) else Some None)"

definition serveAdminUsageTotals :: "gtime \<Rightarrow> gtime \<Rightarrow> query \<Rightarrow> ('d, 's) statsGateway \<Rightarrow> 's outcome" where
  "serveAdminUsageTotals ts now q g =
     (let l = sg_limiter g; kind = query_get q ''kind''; rawWin = query_get q ''window''; win = (if rawWin = [] then window_str WDay else rawWin); w = window_of win in
      guarded (kind \<in> totals_kinds) (bad_request ''unknown kind'') l (
      guarded (totalsValidWindow kind win) (bad_request ''unknown window'') l (
      parsed (parseUsageModelsSpan (query_get q ''span'') w) ''invalid span'' l (\<lambda>spn.
      parsed (parseStatsOffset (query_get q ''offset'') w spn) ''invalid offset'' l (\<lambda>offset.
      parsed (Some (parseTotalsMetrics (query_get q ''metrics'') kind)) ''invalid metrics'' l (\<lambda>metrics.
      parsed (Some (parseTotalsLimit (query_get q ''limit''))) ''invalid limit'' l (\<lambda>limit.
      guarded (kind = ''usermodel'' \<longrightarrow> query_get q ''user'' \<noteq> []) (bad_request ''user is required for kind=usermodel'') l (
      guarded (kind = ''modeluser'' \<longrightarrow> query_get q ''model'' \<noteq> []) (bad_request ''model is required for kind=modeluser'') l (
      parsed (Some (target_param q kind)) ''invalid target'' l (\<lambda>ref.
      guarded (kind \<in> {''usermodel'', ''modeluser''} \<longrightarrow> af_userModelStats (buildAdminFeatures g))
        (StatsError 404 ''invalid_request_error'' ''per-user-model statistics are not enabled (admin.stats.userModel)'') l (
      totals_for_kind ts now q kind win metrics spn offset limit ref g)))))))))))"

subsection \<open>Performance\<close>

fun fneg :: "float64 \<Rightarrow> float64" where
  "fneg (Fin x) = Fin (- x)" | "fneg PInf = NInf" | "fneg NInf = PInf" | "fneg NaN = NaN"

definition fsub :: "float64 \<Rightarrow> float64 \<Rightarrow> float64" where
  "fsub x y = fadd x (fneg y)"

text \<open>Only ever used with a finite, positive divisor.\<close>

fun fdiv :: "float64 \<Rightarrow> rat \<Rightarrow> float64" where
  "fdiv (Fin x) c = fl (x / c)" | "fdiv v c = v"

fun quantile_loop :: "float64 \<Rightarrow> float64 \<Rightarrow> float64 \<Rightarrow> (float64 \<times> int) list \<Rightarrow> float64 option" where
  "quantile_loop target cum lower [] = None"
| "quantile_loop target cum lower ((bound, n) # rest) =
     (let c = fl (of_int n) in
      if float_less (fadd cum c) target then quantile_loop target (fadd cum c) bound rest
      else case c of
             Fin r \<Rightarrow> if r \<le> 0 then Some (fmul bound (Fin 1000))
                else Some (fmul (fadd lower (fmul (fdiv (fsub target cum) r) (fsub bound lower))) (Fin 1000))
           | _ \<Rightarrow> Some NaN)"

definition histogramQuantile :: "int list \<Rightarrow> rat \<Rightarrow> float64 \<times> bool" where
  "histogramQuantile counts p =
     (let tot = foldl (\<lambda>s c. wrap64 (s + c)) 0 counts in
      if tot = 0 then (Fin 0, False)
      else case quantile_loop (fmul (fl p) (fl (of_int tot))) (Fin 0) (Fin 0) (zip latencyBucketBounds counts) of
             Some ms \<Rightarrow> (ms, False)
           | None \<Rightarrow> (fmul (last latencyBucketBounds) (Fin 1000), True))"

definition latencyMetricNames :: "string list" where
  "latencyMetricNames = map latencyDurationMetric [0..<length latencyBucketBounds + 1] @ map latencyTTFBMetric [0..<length latencyBucketBounds + 1]"

definition perfScopeKinds :: "string \<Rightarrow> string \<times> string" where
  "perfScopeKinds kind = (if kind = ''model'' then (kindProviderModel, kindModel) else (kindProvider, kindProvider))"

definition core_metrics :: "string \<Rightarrow> string list" where
  "core_metrics coreKind = [metricProvAttempt, metricProvFail] @ (if coreKind = kindProvider then [metricProvTimeout, metricFover] else [])"

definition buildPerfRow :: "string \<Rightarrow> string \<Rightarrow> (string \<rightharpoonup> int) \<Rightarrow> (string \<rightharpoonup> int) option \<Rightarrow> bool \<Rightarrow> adminPerfRow" where
  "buildPerfRow sid coreKind core lat latencyEnabled =
     (let prov = coreKind = kindProvider;
          row = \<lparr>pf_p50Ms = None, pf_p95Ms = None, pf_p99Ms = None, pf_ttfbP50Ms = None, pf_ttfbP95Ms = None, pf_id = sid, pf_count = 0,
                 pf_attempts = value_at core metricProvAttempt, pf_failures = value_at core metricProvFail,
                 pf_timeouts = (if prov then value_at core metricProvTimeout else 0), pf_failovers = (if prov then value_at core metricFover else 0), pf_overflow = False\<rparr>
      in case lat of
           None \<Rightarrow> row
         | Some lat \<Rightarrow>
             if \<not> latencyEnabled then row
             else let n = length latencyBucketBounds + 1;
                      durs = map (\<lambda>i. value_at lat (latencyDurationMetric i)) [0..<n];
                      ttfbs = map (\<lambda>i. value_at lat (latencyTTFBMetric i)) [0..<n];
                      durTotal = foldl (\<lambda>s c. wrap64 (s + c)) 0 durs; ttfbTotal = foldl (\<lambda>s c. wrap64 (s + c)) 0 ttfbs;
                      dq = (\<lambda>p. if 0 < durTotal then Some (histogramQuantile durs p) else None);
                      tq = (\<lambda>p. if 0 < ttfbTotal then Some (histogramQuantile ttfbs p) else None);
                      qs = [dq (1 / 2), dq (95 / 100), dq (99 / 100), tq (1 / 2), tq (95 / 100)]
                  in row\<lparr>pf_count := durTotal, pf_p50Ms := map_option fst (qs ! 0), pf_p95Ms := map_option fst (qs ! 1), pf_p99Ms := map_option fst (qs ! 2),
                         pf_ttfbP50Ms := map_option fst (qs ! 3), pf_ttfbP95Ms := map_option fst (qs ! 4),
                         pf_overflow := list_ex (\<lambda>r. case r of Some (_, over) \<Rightarrow> over | None \<Rightarrow> False) qs\<rparr>)"

text \<open>The values of one metric are a run of \<open>spn\<close> values; \<open>start\<close> is the index of the first metric.\<close>

definition point_row :: "string list \<Rightarrow> nat \<Rightarrow> int list \<Rightarrow> nat \<Rightarrow> nat \<Rightarrow> (string \<rightharpoonup> int)" where
  "point_row metrics start vals spn b = map_of (rev (map (\<lambda>(mi, m). (m, vals ! ((start + mi) * spn + b))) (enumerate 0 metrics)))"

definition perfSeries :: "gtime \<Rightarrow> gtime \<Rightarrow> string \<Rightarrow> string \<Rightarrow> string \<Rightarrow> window \<Rightarrow> nat \<Rightarrow> int \<Rightarrow> bool \<Rightarrow> 's limiter \<Rightarrow>
    (string list \<Rightarrow> adminPerfRow list \<Rightarrow> 's limiter \<Rightarrow> 's outcome) \<Rightarrow> 's outcome" where
  "perfSeries ts now coreKind latencyKind sid w spn offset latencyEnabled l k =
     (let cores = core_metrics coreKind; lats = (if latencyEnabled then latencyMetricNames else []) in
      case those (map (\<lambda>m. historyBucketKeysAt coreKind sid m w now spn offset) cores @ map (\<lambda>m. historyBucketKeysAt latencyKind sid m w now spn offset) lats) of
        None \<Rightarrow> None
      | Some rows \<Rightarrow>
          let buckets = snd (rows ! 0) in
          read_keys ts (concat (map fst rows)) ''usage store unavailable'' l (\<lambda>vals.
            k buckets (map (\<lambda>b. buildPerfRow (buckets ! b) coreKind (point_row cores 0 vals spn b)
              (if latencyEnabled then Some (point_row lats (length cores) vals spn b) else None) latencyEnabled) [0..<spn])))"

definition top_models :: "string list \<Rightarrow> int list \<Rightarrow> string list" where
  "top_models catalog totals = map fst (take 50 (sort_key (\<lambda>(sid, req). (- req, sid)) (filter (\<lambda>(sid, req). 0 < req) (zip catalog totals))))"

definition perf_ids :: "gtime \<Rightarrow> gtime \<Rightarrow> string \<Rightarrow> string list \<Rightarrow> window \<Rightarrow> nat \<Rightarrow> int \<Rightarrow> ('d, 's) statsGateway \<Rightarrow> (string list \<Rightarrow> 's limiter \<Rightarrow> 's outcome) \<Rightarrow> 's outcome" where
  "perf_ids ts now kind rawIDs w spn offset g k =
     (let l = sg_limiter g in
      if rawIDs \<noteq> [] then k (filter (\<lambda>sid. if kind = ''provider'' then seriesScopeExists g kindProvider sid else kind = ''model'' \<and> scopeExists g kindModel sid) rawIDs) l
      else if kind = ''provider'' then k (map fst (registry_snapshot (sg_registry g))) l
      else let catalog = catalogModelScopeIDs g in
           guarded (length catalog * spn \<le> adminMaxKeysPerRequest) range_too_large l
             (read_totals ts now kindModel catalog [metricReq] w spn offset ''usage store unavailable'' l (\<lambda>totals.
               k (top_models catalog (totals ! 0)))))"

definition perf_rows :: "gtime \<Rightarrow> gtime \<Rightarrow> string \<Rightarrow> string \<Rightarrow> string list \<Rightarrow> window \<Rightarrow> nat \<Rightarrow> int \<Rightarrow> bool \<Rightarrow> 's limiter \<Rightarrow> (adminPerfRow list \<Rightarrow> 's limiter \<Rightarrow> 's outcome) \<Rightarrow> 's outcome" where
  "perf_rows ts now coreKind latencyKind ids w spn offset latencyEnabled l k =
     (let cores = core_metrics coreKind;
          estimateKeys = length ids * length cores * spn + (if latencyEnabled then length ids * length latencyMetricNames * spn else 0);
          rows = (\<lambda>coreVals latVals. map (\<lambda>sid. buildPerfRow sid coreKind (row_of coreVals sid) (latVals sid) latencyEnabled) ids)
      in guarded (estimateKeys \<le> adminMaxKeysPerRequest) range_too_large l
           (readSpanTotals ts now coreKind ids cores w spn offset l (\<lambda>coreVals l1.
             if latencyEnabled
             then readSpanTotals ts now latencyKind ids latencyMetricNames w spn offset l1 (\<lambda>latVals. k (rows coreVals latVals))
             else k (rows coreVals Map.empty) l1)))"

definition serveAdminPerformance :: "gtime \<Rightarrow> gtime \<Rightarrow> query \<Rightarrow> ('d, 's) statsGateway \<Rightarrow> 's outcome" where
  "serveAdminPerformance ts now q g =
     (let l = sg_limiter g; kind = query_get q ''kind''; win = query_get q ''window''; w = window_of win; rawIDs = values_of q ''id''; seriesRaw = query_get q ''series'';
          series = (seriesRaw = ''1''); latencyEnabled = af_latencyStats (buildAdminFeatures g); (coreKind, latencyKind) = perfScopeKinds kind;
          one = bad_request ''series requires exactly one id''
      in
      guarded (kind = ''provider'' \<or> kind = ''model'') (bad_request ''unknown kind'') l (
      guarded (performanceValidWindow win) (bad_request ''unknown window'') l (
      parsed (parseUsageModelsSpan (query_get q ''span'') w) ''invalid span'' l (\<lambda>spn.
      parsed (parseStatsOffset (query_get q ''offset'') w spn) ''invalid offset'' l (\<lambda>offset.
      guarded (length rawIDs \<le> adminPerfMaxIDs) (bad_request ''too many ids'') l (
      guarded (seriesRaw \<in> {[], ''0'', ''1''}) (bad_request ''invalid series'') l (
      guarded (series \<longrightarrow> length rawIDs = 1) one l (
      perf_ids ts now kind rawIDs w spn offset g (\<lambda>ids l1.
      guarded (series \<longrightarrow> length ids = 1) one l1 (
      if series
      then perfSeries ts now coreKind latencyKind (hd ids) w spn offset latencyEnabled l1 (\<lambda>buckets points.
        reply (PerfReply \<lparr>pq_kind = kind, pq_window = win, pq_rows = [], pq_buckets = buckets, pq_points = points, pq_span = spn, pq_offset = offset, pq_latencyEnabled = latencyEnabled\<rparr>))
      else perf_rows ts now coreKind latencyKind ids w spn offset latencyEnabled l1 (\<lambda>rows.
        reply (PerfReply \<lparr>pq_kind = kind, pq_window = win, pq_rows = rows, pq_buckets = [], pq_points = [], pq_span = spn, pq_offset = offset, pq_latencyEnabled = latencyEnabled\<rparr>))))))))))))"

subsection \<open>How much a request reads\<close>

text \<open>A handler answers, and the reads it started have at most \<open>n\<close> keys together.\<close>

named_theorems stats_bounds

definition reads_of :: "'s outcome \<Rightarrow> nat option" where
  "reads_of oc = map_option (\<lambda>(r, reads, l). sum_list (map length reads)) oc"

definition reads_within :: "nat \<Rightarrow> 's outcome \<Rightarrow> bool" where
  "reads_within n oc \<longleftrightarrow> (case reads_of oc of None \<Rightarrow> False | Some m \<Rightarrow> m \<le> n)"

lemma within_reply [stats_bounds]: "reads_within n (reply r l)"
  by (simp add: reads_within_def reads_of_def reply_def)

lemma within_guarded [stats_bounds]: "(ok \<Longrightarrow> reads_within n k) \<Longrightarrow> reads_within n (guarded ok err l k)"
  by (simp add: guarded_def within_reply)

lemma within_parsed [stats_bounds]:
  "p \<noteq> None \<Longrightarrow> (\<And>x. p = Some (Some x) \<Longrightarrow> reads_within n (k x)) \<Longrightarrow> reads_within n (parsed p msg l k)"
  by (auto simp: parsed_def within_reply split: option.splits)

lemma within_log_read: "reads_within m oc \<Longrightarrow> length keys + m \<le> n \<Longrightarrow> reads_within n (log_read keys oc)"
  by (cases oc) (auto simp: reads_within_def reads_of_def log_read_def)

lemma within_weaken: "reads_within m oc \<Longrightarrow> m \<le> n \<Longrightarrow> reads_within n oc"
  by (auto simp: reads_within_def split: option.splits)

lemma span_keys_length:
  assumes "w \<noteq> WMin"
  shows "\<exists>keys. span_keys kind metrics w now spn offset ids = Some keys \<and> length keys = length ids * length metrics * spn"
proof -
  have len: "length (history_keys kind w now spn offset metric sid) = spn" for metric sid
    using historyBucketKeysAt_total [OF assms] by blast
  have row: "length (concat (map (\<lambda>metric. history_keys kind w now spn offset metric sid) metrics)) = length metrics * spn" for sid
    by (rule length_concat_uniform) (simp add: len)
  have "length (concat (map (\<lambda>sid. concat (map (\<lambda>metric. history_keys kind w now spn offset metric sid) metrics)) ids)) = length ids * (length metrics * spn)"
    by (rule length_concat_uniform) (simp add: row)
  then show ?thesis using span_keys_total [OF assms, of kind metrics now spn offset ids] by (simp add: mult.assoc)
qed

lemma span_loop_answers:
  fixes l :: "'s limiter"
  shows "w \<noteq> WMin \<Longrightarrow> span_loop ts kind metrics w now spn offset perChunk ids out l \<noteq> None"
proof (induction "length ids" arbitrary: ids out l rule: less_induct)
  case less
  show ?case
  proof (cases "ids = [] \<or> perChunk = 0")
    case True
    then show ?thesis by (subst span_loop.simps) simp
  next
    case False
    let ?n = "min perChunk (length ids)"
    obtain keys where k: "span_keys kind metrics w now spn offset (take ?n ids) = Some keys" using span_keys_length [OF less.prems] by blast
    have "length (drop ?n ids) < length ids" using False by simp
    then have ih: "span_loop ts kind metrics w now spn offset perChunk (drop ?n ids) out' l' \<noteq> None" for out' and l' :: "'s limiter"
      using less.hyps less.prems by blast
    obtain res l1 where c: "chunkedGetMulti ts keys (int usageModelsChunkKeys) l = (res, l1)" by fastforce
    show ?thesis using False k ih by (subst span_loop.simps) (cases res; simp add: Let_def c)
  qed
qed

lemma spanTotalsMulti_answers: "w \<noteq> WMin \<Longrightarrow> spanTotalsMulti ts kind ids metrics w now spn offset l \<noteq> None"
  unfolding spanTotalsMulti_def Let_def using span_loop_answers by (metis option.distinct(1))

lemma within_read_totals:
  fixes l :: "'s limiter"
  assumes "w \<noteq> WMin" and "\<And>totals l. reads_within m (k totals l)" and "length ids * length metrics * spn + m \<le> n"
  shows "reads_within n (read_totals ts now kind ids metrics w spn offset msg l k)"
proof -
  obtain keys where keys: "span_keys kind metrics w now spn offset ids = Some keys" "length keys = length ids * length metrics * spn"
    using span_keys_length [OF assms(1)] by blast
  obtain res l1 where res: "spanTotalsMulti ts kind ids metrics w now spn offset l = Some (res, l1)"
    using spanTotalsMulti_answers [OF assms(1)] by fastforce
  have logged: "reads_within m oc \<Longrightarrow> reads_within n (log_read keys oc)" for oc :: "'s outcome"
    using within_log_read [of m oc keys n] assms(3) keys(2) by simp
  show ?thesis
  proof (cases res)
    case None
    then show ?thesis using logged [OF within_reply, of "unavailable msg" l1] by (simp add: read_totals_def keys(1) res)
  next
    case (Some totals)
    then show ?thesis using logged [OF assms(2), of totals l1] by (simp add: read_totals_def keys(1) res)
  qed
qed

lemma within_readSpanTotals:
  assumes "w \<noteq> WMin" and "\<And>m l. reads_within b (k m l)" and "length ids * length metrics * spn + b \<le> n"
  shows "reads_within n (readSpanTotals ts now kind ids metrics w spn offset l k)"
proof (cases "ids = [] \<or> metrics = []")
  case True
  then show ?thesis using within_weaken [OF assms(2)] assms(3) by (simp add: readSpanTotals_def)
next
  case False
  then show ?thesis using within_read_totals [OF assms(1) _ assms(3), of "\<lambda>totals. k (by_id ids metrics totals)"] assms(2)
    by (simp add: readSpanTotals_def)
qed

lemma within_read_keys:
  assumes "\<And>vals l. length vals = length keys \<Longrightarrow> reads_within m (k vals l)" and "length keys + m \<le> n"
  shows "reads_within n (read_keys ts keys msg l k)"
  unfolding read_keys_def
  by (rule within_log_read [OF _ assms(2)]) (auto intro: assms(1) within_reply split: prod.splits option.splits)

text \<open>Accepted parameters.\<close>

lemma ranged_Some: "ranged lo hi raw = Some n \<Longrightarrow> lo \<le> n \<and> n \<le> hi"
  by (auto simp: ranged_def split: option.splits if_splits)

lemma accepted_window:
  "validHistoryWindow win \<Longrightarrow> window_of win \<noteq> WMin"
  "totalsValidWindow kind win \<Longrightarrow> window_of win \<noteq> WMin"
  "performanceValidWindow win \<Longrightarrow> window_of win \<noteq> WMin"
  by (auto simp: validHistoryWindow_def totalsValidWindow_def performanceValidWindow_def window_of_def split: if_splits)

lemma max_span_answers: "w \<noteq> WMin \<Longrightarrow> \<exists>mx. historyMaxSpan w = Some mx \<and> 13 \<le> mx \<and> mx \<le> 48"
  by (cases w) (auto simp: historyMaxSpan_def)

lemma span_parsers_answer:
  assumes "w \<noteq> WMin"
  shows "parseHistorySpan raw w \<noteq> None" and "parseUsageModelsSpan raw w \<noteq> None" and "parseStatsOffset raw w spn \<noteq> None"
  using max_span_answers [OF assms] by (auto simp: parseHistorySpan_def parseUsageModelsSpan_def parseStatsOffset_def)

lemma parser_results:
  assumes "w \<noteq> WMin"
  shows "\<exists>y. parseHistorySpan raw w = Some y" and "\<exists>y. parseUsageModelsSpan raw w = Some y" and "\<exists>y. parseStatsOffset raw w spn = Some y"
  using span_parsers_answer [OF assms] by auto

lemma parsed_span:
  assumes "parseHistorySpan raw w = Some (Some spn) \<or> parseUsageModelsSpan raw w = Some (Some spn)"
  shows "1 \<le> spn \<and> spn \<le> 48"
proof (cases "w = WMin")
  case True
  then show ?thesis using assms by (auto simp: parseHistorySpan_def parseUsageModelsSpan_def historyMaxSpan_def split: if_splits)
next
  case False
  then obtain mx where "historyMaxSpan w = Some mx" "13 \<le> mx" "mx \<le> 48" using max_span_answers by blast
  then show ?thesis using assms
    by (auto simp: parseHistorySpan_def parseUsageModelsSpan_def dest!: ranged_Some split: if_splits)
qed

lemma span_bounds:
  "parseHistorySpan raw w = Some (Some spn) \<Longrightarrow> spn \<le> 48" "parseUsageModelsSpan raw w = Some (Some spn) \<Longrightarrow> spn \<le> 48"
  using parsed_span by blast+

lemma within_history_answer:
  assumes "w \<noteq> WMin" and "spn \<le> 48"
  shows "reads_within 48 (history_answer ts now kind sid metric w spn l answer)"
proof -
  obtain keys buckets where k: "historyBucketKeysAt kind sid metric w now spn 0 = Some (keys, buckets)" "length keys = spn"
    using historyBucketKeysAt_total [OF assms(1), of kind sid metric now spn 0] by (auto simp: history_keys_def)
  have "limiter_history ts kind sid metric w now spn l \<noteq> None" by (simp add: limiter_history_def historyBucketKeys_def k)
  then obtain res l1 where r: "limiter_history ts kind sid metric w now spn l = Some (res, l1)" by fastforce
  have "reads_within 48 (log_read keys (reply rep l1))" for rep
    by (rule within_log_read [OF within_reply [of 0]]) (simp add: k assms(2))
  then show ?thesis by (cases res) (simp_all add: history_answer_def historyBucketKeys_def k r)
qed

lemma history_bounded: "reads_within 48 (serveAdminUsageHistory ts now q g)"
  unfolding serveAdminUsageHistory_def Let_def
  by (auto dest!: accepted_window dest: span_bounds intro: parser_results intro!: within_parsed within_guarded within_history_answer)

lemma split_nonempty: "strings_Split c s \<noteq> []"
  by (induction s) (auto split: list.splits)

lemma totals_metrics_nonempty: "kind \<in> totals_kinds \<Longrightarrow> parseTotalsMetrics raw kind = Some metrics \<Longrightarrow> metrics \<noteq> []"
  using split_nonempty by (auto simp: parseTotalsMetrics_def totalsKindMetrics_def totals_kinds_def Let_def split: if_splits)

lemma within_totals_reply: "metrics \<noteq> [] \<Longrightarrow> reads_within 0 (totals_reply kind win metrics spn offset limit cs l)"
  by (simp add: totals_reply_def buildTotalsRows_def Let_def within_reply)

lemma within_totals_of:
  assumes "window_of win \<noteq> WMin" and "metrics \<noteq> []"
  shows "reads_within adminMaxKeysPerRequest (totals_of ts now scopeKind kind win metrics spn offset limit shown l)"
  unfolding totals_of_def
  by (rule within_guarded, rule within_readSpanTotals [OF assms(1) within_totals_reply [OF assms(2)]]) simp

lemma within_usermodel:
  assumes "window_of win \<noteq> WMin" and "metrics \<noteq> []"
  shows "reads_within (2 * adminMaxKeysPerRequest) (usermodel_totals ts now user win metrics spn offset limit g)"
  unfolding usermodel_totals_def Let_def historyMaxSpan_def
  by (simp, rule within_guarded, rule within_readSpanTotals [OF _ within_totals_of [OF assms]]) simp_all

lemma totals_bounded:
  fixes g :: "('d, 's) statsGateway"
  shows "reads_within (2 * adminMaxKeysPerRequest) (serveAdminUsageTotals ts now q g)"
proof -
  have one: "reads_within (2 * adminMaxKeysPerRequest) (totals_of ts now scopeKind kind win metrics spn offset limit shown l)"
    if "window_of win \<noteq> WMin" "metrics \<noteq> []" for scopeKind kind win metrics spn offset limit shown and l :: "'s limiter"
    by (rule within_weaken [OF within_totals_of [OF that]]) simp
  have "reads_within (2 * adminMaxKeysPerRequest) (totals_for_kind ts now q kind win metrics spn offset limit ref g)"
    if "window_of win \<noteq> WMin" "metrics \<noteq> []" for kind win metrics spn offset limit ref
    by (auto simp: totals_for_kind_def Let_def split: prod.splits intro: one [OF that] within_usermodel [OF that])
  then show ?thesis unfolding serveAdminUsageTotals_def Let_def
    by (auto dest!: accepted_window dest: totals_metrics_nonempty intro: parser_results intro!: within_parsed within_guarded)
qed

lemma those_lengths:
  "those rows = Some xs \<Longrightarrow> \<forall>r\<in>set rows. \<forall>x. r = Some x \<longrightarrow> length (fst x) = n \<Longrightarrow> length (concat (map fst xs)) = length rows * n"
proof (induction rows arbitrary: xs)
  case (Cons r rows)
  then show ?case by (auto split: option.splits)
qed simp

lemma bucket_keys_length: "w \<noteq> WMin \<Longrightarrow> historyBucketKeysAt kind sid metric w now spn offset = Some x \<Longrightarrow> length (fst x) = spn"
  using historyBucketKeysAt_total [of w kind sid metric now spn offset] by (simp add: history_keys_def)

lemma within_series_keys:
  assumes "w \<noteq> WMin"
  shows "\<exists>keys buckets. series_keys metric w now spn offset ps = Some (keys, buckets) \<and> length keys = length ps * spn"
proof -
  let ?rows = "map (\<lambda>p. historyBucketKeysAt (ps_kind p) (ps_id p) metric w now spn offset) ps"
  have "those ?rows = Some (map (the \<circ> (\<lambda>p. historyBucketKeysAt (ps_kind p) (ps_id p) metric w now spn offset)) ps)"
    using historyBucketKeysAt_total [OF assms] by (intro those_total) blast
  then obtain xs where xs: "those ?rows = Some xs" by blast
  then have "length (concat (map fst xs)) = length ?rows * spn" using bucket_keys_length [OF assms] by (intro those_lengths) auto
  then show ?thesis using xs by (simp add: series_keys_def)
qed

lemma series_bounded:
  fixes g :: "('d, 's) statsGateway"
  shows "reads_within adminMaxKeysPerRequest (serveAdminUsageSeries ts now q g)"
proof -
  have "reads_within adminMaxKeysPerRequest (case series_keys metric w now spn offset ps of None \<Rightarrow> None
      | Some (keys, buckets) \<Rightarrow> read_keys ts keys msg l (\<lambda>vals l1. reply (f buckets vals) l1))"
    if w: "w \<noteq> WMin" and few: "length ps * spn \<le> adminMaxKeysPerRequest" for metric w spn offset ps msg f and l :: "'s limiter"
  proof -
    obtain keys buckets where "series_keys metric w now spn offset ps = Some (keys, buckets)" "length keys = length ps * spn"
      using within_series_keys [OF w] by blast
    then show ?thesis using few by (auto intro!: within_read_keys [OF within_reply [of 0]])
  qed
  then show ?thesis unfolding serveAdminUsageSeries_def Let_def
    by (auto dest!: accepted_window intro: parser_results intro!: within_parsed within_guarded)
qed

lemma within_perf_rows:
  assumes "w \<noteq> WMin" and "\<And>rows l. reads_within 0 (k rows l)"
  shows "reads_within adminMaxKeysPerRequest (perf_rows ts now coreKind latencyKind ids w spn offset latencyEnabled l k)"
proof -
  let ?lat = "if latencyEnabled then length ids * length latencyMetricNames * spn else 0"
  have inner: "reads_within ?lat (if latencyEnabled
      then readSpanTotals ts now latencyKind ids latencyMetricNames w spn offset l1 (\<lambda>latVals. k (rows latVals)) else k rows' l1)" for rows rows' l1
    using within_readSpanTotals [OF assms(1), of 0 "\<lambda>latVals. k (rows latVals)"] assms(2) by simp
  show ?thesis unfolding perf_rows_def Let_def
    by (rule within_guarded, rule within_readSpanTotals [OF assms(1) inner]) simp
qed

lemma core_metrics_length: "length (core_metrics coreKind) \<le> 4"
  by (simp add: core_metrics_def)

lemma latency_names_length: "length latencyMetricNames = 28"
  by (simp add: latencyMetricNames_def latencyBucketBounds_def)

lemma within_perfSeries:
  assumes "w \<noteq> WMin" and "spn \<le> 48" and "\<And>buckets points l. reads_within 0 (k buckets points l)"
  shows "reads_within adminMaxKeysPerRequest (perfSeries ts now coreKind latencyKind sid w spn offset latencyEnabled l k)"
proof -
  let ?lats = "if latencyEnabled then latencyMetricNames else []"
  let ?at = "\<lambda>(kind, m). historyBucketKeysAt kind sid m w now spn offset"
  let ?pairs = "map (Pair coreKind) (core_metrics coreKind) @ map (Pair latencyKind) ?lats"
  have rows: "map (\<lambda>m. historyBucketKeysAt coreKind sid m w now spn offset) (core_metrics coreKind)
      @ map (\<lambda>m. historyBucketKeysAt latencyKind sid m w now spn offset) ?lats = map ?at ?pairs" by simp
  have "those (map ?at ?pairs) = Some (map (the \<circ> ?at) ?pairs)"
    using historyBucketKeysAt_total [OF assms(1)] by (intro those_total) auto
  then obtain xs where xs: "those (map ?at ?pairs) = Some xs" by blast
  have len: "length (fst x) = spn" if "?at p = Some x" for p x using that bucket_keys_length [OF assms(1)] by (auto split: prod.splits)
  have "\<forall>r\<in>set (map ?at ?pairs). \<forall>x. r = Some x \<longrightarrow> length (fst x) = spn"
    unfolding set_map ball_simps(9) using len by blast
  with xs have "length (concat (map fst xs)) = length (map ?at ?pairs) * spn" by (rule those_lengths)
  also have "\<dots> \<le> 32 * 48"
    using core_metrics_length [of coreKind] latency_names_length assms(2) by (intro mult_le_mono) simp_all
  finally have "length (concat (map fst xs)) + 0 \<le> adminMaxKeysPerRequest" by (simp add: adminMaxKeysPerRequest_def)
  then show ?thesis unfolding perfSeries_def Let_def rows xs option.case
    by (intro within_read_keys [OF assms(3)])
qed

lemma within_perf_ids:
  assumes "w \<noteq> WMin" and "\<And>ids l. reads_within adminMaxKeysPerRequest (k ids l)"
  shows "reads_within (2 * adminMaxKeysPerRequest) (perf_ids ts now kind rawIDs w spn offset g k)"
proof -
  have "reads_within (2 * adminMaxKeysPerRequest) (k ids l)" for ids l by (rule within_weaken [OF assms(2)]) simp
  moreover have "reads_within (2 * adminMaxKeysPerRequest) (read_totals ts now kindModel catalog [metricReq] w spn offset msg l (\<lambda>totals. k (f totals)))"
    if "length catalog * spn \<le> adminMaxKeysPerRequest" for catalog msg l f
    using that by (intro within_read_totals [OF assms(1), where m = adminMaxKeysPerRequest] assms(2)) simp
  ultimately show ?thesis unfolding perf_ids_def Let_def by (auto intro!: within_guarded)
qed

lemma performance_bounded: "reads_within (2 * adminMaxKeysPerRequest) (serveAdminPerformance ts now q g)"
  unfolding serveAdminPerformance_def Let_def
  by (auto simp: split_def dest!: accepted_window dest: span_bounds intro: parser_results
      intro!: within_parsed within_guarded within_perf_ids within_perfSeries within_perf_rows within_reply)

lemma models_bounded:
  assumes "parseUsageModelsDetail (query_get q ''detail'') \<noteq> Some True"
  shows "reads_within adminMaxKeysPerRequest (serveAdminUsageModels table ts now q g)"
proof -
  have plain: "reads_within adminMaxKeysPerRequest (read_totals ts now kindModel ids [metric] w spn offset msg l (\<lambda>totals l1. reply (f totals) l1))"
    if "w \<noteq> WMin" "length ids * spn \<le> adminMaxKeysPerRequest" for ids metric w spn offset msg l f
    using that(2) by (intro within_read_totals [OF that(1), where m = 0] within_reply) simp
  show ?thesis unfolding serveAdminUsageModels_def Let_def
    using assms by (auto simp: key_multiplier_def dest!: accepted_window intro: parser_results intro!: within_parsed within_guarded plain)
qed


text \<open>
  A detailed reply for one month reads the days of the month for the counters kept by day: 97 keys for a
  model on the 31st with the cache on, where the check before it counts seven.
\<close>

lemma reads_of_log: "reads_of (log_read keys oc) = map_option ((+) (length keys)) (reads_of oc)"
  by (cases oc) (auto simp: reads_of_def log_read_def)

lemma reads_of_totals:
  assumes "lim_store l = None" and "w \<noteq> WMin" and "1 \<le> spn" and "ids \<noteq> []" and "\<And>totals. reads_of (k totals l) = Some m"
  shows "reads_of (read_totals ts now kind ids metrics w spn offset msg l k) = Some (length ids * length metrics * spn + m)"
proof -
  obtain keys where keys: "span_keys kind metrics w now spn offset ids = Some keys" "length keys = length ids * length metrics * spn"
    using span_keys_length [OF assms(2)] by blast
  show ?thesis using assms(5) keys(2)
    by (simp add: read_totals_def keys(1) spanTotals_are_history_sums [OF assms(1-4)] reads_of_log)
qed

lemma month_in_days:
  assumes "utc_date now = (y, m, d)" and "d \<le> 35"
  shows "day_range WMonth now 1 0 = (WDay, nat d, 0)"
proof -
  have first: "utc_date (date_days y m 1 * day_ns) = (y, m, 1)"
    unfolding utc_date_midnight using assms(1) civil_first by (simp add: utc_date_def)
  have "date_days y m d = date_days y m 1 + (d - 1)" using date_days_day [of y m 1 "d - 1"] by simp
  then have "(date_days y m d * day_ns - date_days y m 1 * day_ns) div day_ns = d - 1"
    using dur_pos(4) by (simp flip: left_diff_distrib)
  then show ?thesis using assms
    by (simp add: day_range_def monthRangeToDayBuckets_def Let_def time_Date_midnight time_AddDate_def first)
qed

theorem month_detail_exceeds_cap:
  assumes "lim_store (sg_limiter g) = None" and "sg_cacheOn g" and "catalogModelScopeIDs g \<noteq> []" and "utc_date now = (y, m, 31)"
    and "length (catalogModelScopeIDs g) * 7 \<le> adminMaxKeysPerRequest"
  shows "reads_of (serveAdminUsageModels table ts now [(''metric'', ''req''), (''window'', ''month''), (''detail'', ''1'')] g)
    = Some (length (catalogModelScopeIDs g) * 97)"
proof -
  let ?q = "[(''metric'', ''req''), (''window'', ''month''), (''detail'', ''1'')] :: query" and ?ids = "catalogModelScopeIDs g" and ?l = "sg_limiter g"
  have q: "query_get ?q ''metric'' = ''req''" "query_get ?q ''window'' = ''month''" "query_get ?q ''detail'' = ''1''" "query_get ?q ''limit'' = []"
    "query_get ?q ''span'' = []" "query_get ?q ''offset'' = []" "query_get ?q ''prefix'' = []" by (simp_all add: query_get_def values_of_def)
  have features: "af_cacheStats (buildAdminFeatures g)" using assms(2) by (simp add: buildAdminFeatures_def split: option.splits prod.splits)
  have detail: "reads_of (serveAdminUsageModelsDetail table ts now ?ids metric ''month'' 1 0 limit g) = Some (length ?ids * 97)" for metric limit
  proof -
    have w: "window_of ''month'' = WMonth" by (simp add: window_of_def)
    have none: "reads_of (reply r ?l) = Some 0" for r by (simp add: reads_of_def reply_def)
    note count = reads_of_totals [OF assms(1) _ _ assms(3), where ts = ts and now = now]
    have days: "day_range WMonth now 1 0 = (WDay, 31, 0)" using month_in_days [OF assms(4)] by simp
    show ?thesis unfolding serveAdminUsageModelsDetail_def Let_def w days prod.case
      by (subst count, simp, simp, subst count, simp, simp, simp add: features, subst count, simp, simp)
        (rule none, rule refl, rule refl, simp add: usageModelsDetailMetrics_def)
  qed
  show ?thesis unfolding serveAdminUsageModels_def Let_def q
    using assms(5) features
    by (simp add: guarded_def parsed_def validHistoryMetric_def validHistoryWindow_def metric_defs parseUsageModelsLimit_def parseUsageModelsSpan_def
        parseStatsOffset_def parseUsageModelsPrefix_def parseUsageModelsDetail_def key_multiplier_def usageModelsDetailMetrics_def detail [unfolded One_nat_def])
qed

subsection \<open>What the replies show\<close>

lemma take_sorted_before:
  assumes "sorted (map f xs)" and "x \<in> set (take n xs)" and "y \<in> set (drop n xs)"
  shows "f x \<le> f y"
proof -
  have "sorted (map f (take n xs) @ map f (drop n xs))" using assms(1) by (simp flip: map_append)
  then show ?thesis using assms(2,3) by (auto simp: sorted_append)
qed

definition has_usage :: "string list \<Rightarrow> totalsCandidate \<Rightarrow> bool" where
  "has_usage metrics c \<longleftrightarrow> (\<exists>m\<in>set metrics. value_at (tc_values c) m \<noteq> 0)"

definition row_key :: "string list \<Rightarrow> adminTotalsRow \<Rightarrow> int \<times> string" where
  "row_key metrics r = (- value_at (tr_values r) (hd metrics), tr_id r)"

definition candidate_row :: "totalsCandidate \<Rightarrow> adminTotalsRow" where
  "candidate_row c = \<lparr>tr_values = tc_values c, tr_id = tc_id c\<rparr>"

theorem totals_rows_are_the_top:
  assumes "buildTotalsRows candidates metrics limit = Some (rows, truncated)"
  shows "length rows = min limit (length (filter (has_usage metrics) candidates))
    \<and> truncated = (limit < length (filter (has_usage metrics) candidates))
    \<and> sorted (map (row_key metrics) rows) \<and> set rows \<subseteq> candidate_row ` set (filter (has_usage metrics) candidates)
    \<and> (\<forall>c\<in>set candidates. has_usage metrics c \<longrightarrow> candidate_row c \<in> set rows \<or> (\<forall>r\<in>set rows. row_key metrics r \<le> row_key metrics (candidate_row c)))"
proof -
  let ?used = "filter (has_usage metrics) candidates"
  let ?all = "sort_key (row_key metrics) (map candidate_row ?used)"
  have rows: "rows = take limit ?all" and tr: "truncated = (limit < length ?used)"
    using assms by (auto simp: buildTotalsRows_def Let_def has_usage_def [abs_def] list_ex_iff row_key_def [abs_def] candidate_row_def [abs_def] split: if_splits)
  have order: "sorted (map (row_key metrics) ?all)" by simp
  have members: "set ?all = candidate_row ` set ?used" by simp
  have "candidate_row c \<in> set rows \<or> (\<forall>r\<in>set rows. row_key metrics r \<le> row_key metrics (candidate_row c))"
    if "c \<in> set candidates" "has_usage metrics c" for c
  proof -
    have "candidate_row c \<in> set ?all" unfolding members using that by simp
    then have "candidate_row c \<in> set (take limit ?all) \<or> candidate_row c \<in> set (drop limit ?all)"
      by (metis Un_iff append_take_drop_id set_append)
    then show ?thesis using take_sorted_before [OF order] unfolding rows by blast
  qed
  moreover have "sorted (map (row_key metrics) rows)" unfolding rows take_map [symmetric] by (rule sorted_wrt_take [OF order])
  moreover have "set rows \<subseteq> candidate_row ` set ?used" unfolding rows using set_take_subset [of limit ?all] members by simp
  ultimately show ?thesis using rows tr by simp
qed

text \<open>The points of a series, without a configured store, are the counters of its scope, and only scopes that exist are read.\<close>

lemma parsed_scopes_exist:
  "parse_scopes g metric w raws = Some (ps, un) \<Longrightarrow> p \<in> set ps \<Longrightarrow>
     parseSeriesScope (ps_raw p) = Some (ps_kind p, ps_id p) \<and> (ps_kind p = totalScopeKind \<or> seriesScopeExists g (ps_kind p) (ps_id p))"
proof (induction raws arbitrary: ps un)
  case (Cons raw raws)
  then show ?case by (auto split: option.splits if_splits)
qed simp

lemma those_keys:
  "those (map f ps) = Some rows \<Longrightarrow> map fst rows = map (\<lambda>p. fst (the (f p))) ps"
proof (induction ps arbitrary: rows)
  case (Cons p ps)
  then show ?case by (auto split: option.splits)
qed simp

lemma series_slices:
  assumes "w \<noteq> WMin" and "series_keys metric w now spn offset ps = Some (keys, buckets)" and "i < length ps"
  shows "slice (i * spn) spn (map f keys) = map f (history_keys (ps_kind (ps ! i)) w now spn offset metric (ps_id (ps ! i)))"
proof -
  let ?h = "\<lambda>p. history_keys (ps_kind p) w now spn offset metric (ps_id p)"
  have keys: "keys = concat (map ?h ps)"
    using assms(2) those_keys [of "\<lambda>p. historyBucketKeysAt (ps_kind p) (ps_id p) metric w now spn offset" ps]
    by (auto simp: series_keys_def history_keys_def)
  have len: "\<forall>p\<in>set ps. length (?h p) = spn" using historyBucketKeysAt_total [OF assms(1)] by blast
  show ?thesis unfolding slice_map keys slice_concat [OF len assms(3)] ..
qed

theorem series_points_are_counters:
  assumes plain: "lim_store (sg_limiter g) = None"
    and "serveAdminUsageSeries ts now q g = Some (SeriesReply r, reads, l)" and "v \<in> set (sq_series r)"
  shows "\<exists>kind sid. parseSeriesScope (sv_scope v) = Some (kind, sid) \<and> (kind = totalScopeKind \<or> seriesScopeExists g kind sid)
    \<and> sv_points v = map (ms_view (lim_fallback (sg_limiter g)) ts)
        (history_keys kind (window_of (sq_window r)) now (sq_span r) (sq_offset r) (sq_metric r) sid)"
proof -
  let ?win = "query_get q ''window''" and ?metric = "query_get q ''metric''"
  let ?w = "window_of ?win"
  have win: "validHistoryWindow ?win"
    using assms(2) by (auto simp: serveAdminUsageSeries_def Let_def guarded_def reply_def bad_request_def split: if_splits)
  obtain spn offset ps un keys buckets where ps: "parse_scopes g ?metric ?w (values_of q ''scope'') = Some (ps, un)"
    and keys: "series_keys ?metric ?w now spn offset ps = Some (keys, buckets)"
    and r: "SeriesReply r = series_reply ?metric ?win spn offset buckets ps un (map (ms_view (lim_fallback (sg_limiter g)) ts) keys)"
    using assms(2) by (auto simp: serveAdminUsageSeries_def Let_def guarded_def parsed_def reply_def bad_request_def range_too_large_def read_keys_def
        log_read_def chunkedGetMulti_plain [OF plain] split: if_splits option.splits)
  obtain i where i: "i < length ps" and v: "v = \<lparr>sv_scope = ps_raw (ps ! i), sv_points = slice (i * spn) spn (map (ms_view (lim_fallback (sg_limiter g)) ts) keys)\<rparr>"
    using assms(3) r by (auto simp: series_reply_def in_set_enumerate_eq)
  show ?thesis using parsed_scopes_exist [OF ps nth_mem [OF i]] series_slices [OF accepted_window(1) [OF win] keys i] v r
    by (auto simp: series_reply_def)
qed

end
