(* ===== verification/Adapters.thy ===== *)
theory Adapters
  imports TargetProxy TranslateAnthropic TranslateGemini Watchdog
begin

text \<open>
  The provider adapters (providers.go, provider_openai.go, provider_anthropic.go, provider_gemini.go): their
  construction, the upstream call with its retries, and the operations of the three kinds of provider with
  what they write to the client.

  The network is an environment that answers a request with a response or an error; a response body is the
  chunks it delivers and whether it then fails (the watchdog around it is in \<open>Watchdog\<close>).  The client's side is
  a writer whose writes may fail.  Decoding of JSON into the structs of the code is a parameter; a header is
  kept under its canonical name.
\<close>

subsection \<open>The network and the client\<close>

record upRequest =
  uq_method :: string
  uq_url :: string
  uq_headers :: "(string, string) gomap"
  uq_body :: "string option"

record upResponse =
  up_resp :: httpResponse
  up_contentType :: string
  up_chunks :: "string list"
  up_failed :: bool

record 'w netEnv =
  ne_build :: "upRequest \<Rightarrow> bool"
  ne_do :: "upRequest \<Rightarrow> 'w \<Rightarrow> (go_error + upResponse) \<times> 'w"
  ne_Int63n :: "int \<Rightarrow> 'w \<Rightarrow> int \<times> 'w"
  ne_waitFn :: "duration \<Rightarrow> 'w \<Rightarrow> bool \<times> 'w"
  ne_ctxErr :: "'w \<Rightarrow> go_error option"
  ne_unix :: "'w \<Rightarrow> int"

text \<open>\<open>cw_plan\<close> holds the outcomes of the next writes; after them, writes succeed.\<close>

record clientWriter =
  cw_headers :: "(string, string) gomap"
  cw_status :: "int option"
  cw_body :: string
  cw_plan :: "bool list"

definition cw_WriteHeader :: "int \<Rightarrow> clientWriter \<Rightarrow> clientWriter" where
  "cw_WriteHeader code w = (if cw_status w = None then w\<lparr>cw_status := Some code\<rparr> else w)"

definition cw_Write :: "string \<Rightarrow> clientWriter \<Rightarrow> bool \<times> clientWriter" where
  "cw_Write b w =
     (let w1 = cw_WriteHeader 200 w in
      case cw_plan w of
        False # p \<Rightarrow> (False, w1\<lparr>cw_plan := p\<rparr>)
      | _ \<Rightarrow> (True, w1\<lparr>cw_body := cw_body w @ b, cw_plan := tl (cw_plan w)\<rparr>))"

definition cw_Header :: "string \<Rightarrow> string \<Rightarrow> clientWriter \<Rightarrow> clientWriter" where
  "cw_Header k v w = w\<lparr>cw_headers := AList.update k v (cw_headers w)\<rparr>"

definition maxResponseBytes :: nat where "maxResponseBytes = 33554432"

text \<open>\<open>io.ReadAll\<close> of a limited body: an error after the limit is never reached.\<close>

definition read_all :: "upResponse \<Rightarrow> string option" where
  "read_all r =
     (let b = concat (up_chunks r) in
      if maxResponseBytes \<le> length b then Some (take maxResponseBytes b) else if up_failed r then None else Some b)"

subsection \<open>The upstream call\<close>

definition upstream_request :: "string \<Rightarrow> string \<Rightarrow> (string, string) gomap \<Rightarrow> string option \<Rightarrow> upRequest" where
  "upstream_request method url hdr body =
     \<lparr>uq_method = method, uq_url = url,
      uq_headers = (if body \<noteq> None \<and> (case map_of hdr ''Content-Type'' of None \<Rightarrow> True | Some v \<Rightarrow> v = []) then AList.update ''Content-Type'' ''application/json'' hdr else hdr),
      uq_body = body\<rparr>"

text \<open>One attempt; the response is kept beside the state of the network.\<close>

definition upstream_attempt :: "'w netEnv \<Rightarrow> upRequest \<Rightarrow> 'w \<times> upResponse option \<Rightarrow> Retry.outcome \<times> ('w \<times> upResponse option)" where
  "upstream_attempt env rq = (\<lambda>(w, _).
     if \<not> ne_build env rq then ((None, Some (Wrap [Sentinel ErrUpstream, Sentinel RequestBuildFailed, OtherError ''build request''])), (w, None))
     else (case ne_do env rq w of
             (Inl e, w1) \<Rightarrow> ((None, Some (Wrap [Sentinel ErrUpstream, e])), (w1, None))
           | (Inr r, w1) \<Rightarrow> ((Some (up_resp r), None), (w1, Some r))))"

definition retry_env :: "'w netEnv \<Rightarrow> upRequest \<Rightarrow> ('w \<times> upResponse option) retryEnv" where
  "retry_env env rq =
     \<lparr>rv_call = upstream_attempt env rq,
      rv_Int63n = (\<lambda>n (w, r). case ne_Int63n env n w of (i, w1) \<Rightarrow> (i, (w1, r))),
      rv_waitFn = (\<lambda>d (w, r). case ne_waitFn env d w of (go, w1) \<Rightarrow> (go, (w1, r))),
      rv_ctxErr = (\<lambda>(w, r). ne_ctxErr env w)\<rparr>"

definition upstreamBytes :: "'w netEnv \<Rightarrow> retryPolicy option \<Rightarrow> upRequest \<Rightarrow> 'w \<Rightarrow> (go_error + upResponse) \<times> 'w" where
  "upstreamBytes env policy rq w =
     (let run = retryPolicy_do (retry_env env rq) policy (w, None) in
      case (rr_result run, rr_state run) of
        ((_, Some e), (w1, _)) \<Rightarrow> (Inl e, w1)
      | ((_, None), (w1, Some r)) \<Rightarrow> (Inr r, w1)
      | ((_, None), (w1, None)) \<Rightarrow> (Inl (OtherError ''no response''), w1))"

subsection \<open>Adapters\<close>

datatype providerType = ProviderOpenAI | ProviderAnthropic | ProviderGemini

record adapter =
  ap_type :: providerType
  ap_name :: string
  ap_base :: string
  ap_key :: string
  ap_metadataPath :: string
  ap_timeout :: duration
  ap_retry :: "retryPolicy option"

definition anthropicAPIVersion :: string where "anthropicAPIVersion = ''2023-06-01''"

definition injectAuth :: "adapter \<Rightarrow> (string, string) gomap \<Rightarrow> (string, string) gomap" where
  "injectAuth a h =
     (case ap_type a of
        ProviderOpenAI \<Rightarrow> if ap_key a = [] then h else AList.update ''Authorization'' (''Bearer '' @ ap_key a) h
      | ProviderAnthropic \<Rightarrow> AList.update ''Anthropic-Version'' anthropicAPIVersion (AList.update ''X-Api-Key'' (ap_key a) h)
      | ProviderGemini \<Rightarrow> AList.update ''X-Goog-Api-Key'' (ap_key a) h)"

definition requestHeaders :: "adapter \<Rightarrow> bool \<Rightarrow> (string, string) gomap" where
  "requestHeaders a hasBody = injectAuth a (if hasBody then [(''Content-Type'', ''application/json'')] else [])"

definition gatewayAliasKey :: string where "gatewayAliasKey = ''__alias''"

type_synonym 'w served = "(usage \<times> go_error option) \<times> clientWriter \<times> 'w"

abbreviation zero_usage :: usage where
  "zero_usage \<equiv> \<lparr>us_prompt = 0, us_completion = 0, us_estimated = False\<rparr>"

definition fails :: "go_error \<Rightarrow> clientWriter \<Rightarrow> 'w \<Rightarrow> 'w served" where
  "fails e c w = ((zero_usage, Some e), c, w)"

text \<open>The common part of every call: a transport error and a status outside 200 to 299 end it.\<close>

definition call_upstream :: "'w netEnv \<Rightarrow> adapter \<Rightarrow> upRequest \<Rightarrow> clientWriter \<Rightarrow> 'w \<Rightarrow> (upResponse \<Rightarrow> 'w \<Rightarrow> 'w served) \<Rightarrow> 'w served" where
  "call_upstream env a rq c w k =
     (case upstreamBytes env (ap_retry a) rq w of
        (Inl e, w1) \<Rightarrow> fails e c w1
      | (Inr r, w1) \<Rightarrow>
          if rsp_status (up_resp r) < 200 \<or> 300 \<le> rsp_status (up_resp r)
          then fails (ProviderHTTPError (rsp_status (up_resp r))) c w1 else k r w1)"

definition post_json :: "(float64 \<Rightarrow> string) \<Rightarrow> adapter \<Rightarrow> string \<Rightarrow> (string, string) gomap \<Rightarrow> jobject \<Rightarrow> upRequest" where
  "post_json num a path hdr body = upstream_request ''POST'' (ap_base a @ path) hdr (Some (json_Marshal num (JObject body)))"

definition is_event_stream :: "upResponse \<Rightarrow> bool" where
  "is_event_stream r \<longleftrightarrow> strings_Contains (map ascii_lower (up_contentType r)) ''text/event-stream''"

subsection \<open>Forwarding a response\<close>

text \<open>A translated answer: read the body, translate it, write it as JSON.\<close>

definition forward_translated :: "(float64 \<Rightarrow> string) \<Rightarrow> (string \<Rightarrow> go_error + (jobject \<times> usage)) \<Rightarrow> clientWriter \<Rightarrow> upResponse \<Rightarrow> 'w \<Rightarrow> 'w served" where
  "forward_translated num translate c r w =
     (case read_all r of
        None \<Rightarrow> fails (upstream_error ''read response body'') c w
      | Some raw \<Rightarrow>
          (case translate raw of
             Inl e \<Rightarrow> fails e c w
           | Inr (out, u) \<Rightarrow>
               ((u, None), snd (cw_Write (json_Marshal num (JObject out)) (cw_WriteHeader 200 (cw_Header ''Content-Type'' ''application/json'' c))), w)))"

text \<open>A body passed on as it is, with the status and the content type of the upstream.\<close>

definition pass_body :: "string \<Rightarrow> upResponse \<Rightarrow> clientWriter \<Rightarrow> clientWriter" where
  "pass_body body r c =
     snd (cw_Write body (cw_WriteHeader (rsp_status (up_resp r)) (if up_contentType r \<noteq> [] then cw_Header ''Content-Type'' (up_contentType r) c else c)))"

definition sse_headers :: "clientWriter \<Rightarrow> clientWriter" where
  "sse_headers c = cw_Header ''X-Accel-Buffering'' ''no'' (cw_Header ''Cache-Control'' ''no-cache'' (cw_Header ''Content-Type'' ''text/event-stream'' c))"

fun write_chunks :: "string list \<Rightarrow> clientWriter \<Rightarrow> bool \<times> clientWriter" where
  "write_chunks [] c = (True, c)"
| "write_chunks (b # bs) c = (case cw_Write (writeData b) c of (False, c1) \<Rightarrow> (False, c1) | (True, c1) \<Rightarrow> write_chunks bs c1)"

definition write_failed :: go_error where "write_failed = OtherError ''write''"

definition stream_error :: "sseError \<Rightarrow> go_error option \<Rightarrow> go_error" where
  "stream_error err cause = Wrap [Sentinel ErrUpstream, (case cause of Some e \<Rightarrow> e | None \<Rightarrow> OtherError ''stream'')]"

text \<open>The callback of a translated stream; the error it returns is kept beside the translator's state.\<close>

definition translate_event :: "(sseEvent \<Rightarrow> 'st \<Rightarrow> (string list \<times> go_error option) \<times> 'st) \<Rightarrow> ('st \<times> clientWriter \<times> go_error option) callback" where
  "translate_event step ev = (\<lambda>(st, c, _).
     case step ev st of ((chunks, terr), st1) \<Rightarrow>
       (case write_chunks chunks c of
          (False, c1) \<Rightarrow> (Some [], (st1, c1, Some write_failed))
        | (True, c1) \<Rightarrow> (map_option (\<lambda>_. []) terr, (st1, c1, terr))))"

definition forward_translated_stream :: "(sseEvent \<Rightarrow> 'st \<Rightarrow> (string list \<times> go_error option) \<times> 'st) \<Rightarrow> ('st \<Rightarrow> usage) \<Rightarrow> ('st \<Rightarrow> string) \<Rightarrow> 'st \<Rightarrow> bool \<Rightarrow>
    clientWriter \<Rightarrow> upResponse \<Rightarrow> 'w \<Rightarrow> 'w served" where
  "forward_translated_stream step usage_of usage_chunk st0 clientAskedUsage c r w =
     (case readSSE (up_chunks r) (up_failed r) (translate_event step) (st0, sse_headers c, None) of
        (Some err, (st, c1, cause)) \<Rightarrow> ((usage_of st, Some (stream_error err cause)), c1, w)
      | (None, (st, c1, cause)) \<Rightarrow>
          (case write_chunks (if clientAskedUsage then [usage_chunk st] else []) c1 of
             (False, c2) \<Rightarrow> ((usage_of st, Some (Wrap [Sentinel ErrUpstream, write_failed])), c2, w)
           | (True, c2) \<Rightarrow> ((usage_of st, None), snd (cw_Write writeDone c2), w)))"

definition wants_stream :: "jobject \<Rightarrow> bool" where
  "wants_stream req \<longleftrightarrow> jget req ''stream'' = JBool True"

definition asked_usage :: "jobject \<Rightarrow> bool" where
  "asked_usage req \<longleftrightarrow> wants_stream req \<and> isTruthy (jget (as_object (jget req ''stream_options'')) ''include_usage'')"

definition accept_stream :: "jobject \<Rightarrow> (string, string) gomap \<Rightarrow> (string, string) gomap" where
  "accept_stream req hdr = (if wants_stream req then AList.update ''Accept'' ''text/event-stream'' hdr else hdr)"

definition response_model :: "jobject \<Rightarrow> string \<Rightarrow> string" where
  "response_model req model = (if jstr req gatewayAliasKey \<noteq> [] then jstr req gatewayAliasKey else model)"

definition without_alias :: "jobject \<Rightarrow> jobject" where
  "without_alias req = AList.delete gatewayAliasKey req"

subsection \<open>OpenAI\<close>

text \<open>The decoded parts the code reads: of a stream chunk the usage and the number of choices, of a body the usage.\<close>

record openaiDecoder =
  od_chunk :: "string \<Rightarrow> ((int \<times> int) option \<times> nat) option"
  od_usage :: "string \<Rightarrow> int \<times> int"
  od_models :: "string \<Rightarrow> string list option"
  od_metadata :: "string \<Rightarrow> (string \<times> int \<times> int \<times> int) list option"
  od_num :: "float64 \<Rightarrow> string"

definition sseDoneMarker :: string where "sseDoneMarker = ''[DONE]''"

definition openai_event :: "openaiDecoder \<Rightarrow> bool \<Rightarrow> (usage \<times> clientWriter) callback" where
  "openai_event od clientAskedUsage ev = (\<lambda>(u, c).
     if se_data ev = sseDoneMarker then (None, (u, snd (cw_Write writeDone c)))
     else (case od_chunk od (se_data ev) of
             Some (Some (p, q), choices) \<Rightarrow>
               let u1 = u\<lparr>us_prompt := p, us_completion := q\<rparr> in
               if choices = 0 \<and> \<not> clientAskedUsage then (None, (u1, c))
               else (case cw_Write (writeData (se_data ev)) c of (ok, c1) \<Rightarrow> (if ok then None else Some [], (u1, c1)))
           | _ \<Rightarrow> (case cw_Write (writeData (se_data ev)) c of (ok, c1) \<Rightarrow> (if ok then None else Some [], (u, c1)))))"

definition openai_forwardStream :: "openaiDecoder \<Rightarrow> bool \<Rightarrow> clientWriter \<Rightarrow> upResponse \<Rightarrow> 'w \<Rightarrow> 'w served" where
  "openai_forwardStream od clientAskedUsage c r w =
     (case readSSE (up_chunks r) (up_failed r) (openai_event od clientAskedUsage) (zero_usage, sse_headers c) of
        (Some err, (u, c1)) \<Rightarrow> ((u, Some (stream_error err None)), c1, w)
      | (None, (u, c1)) \<Rightarrow> ((u, None), c1, w))"

definition openai_forwardJSON :: "openaiDecoder \<Rightarrow> clientWriter \<Rightarrow> upResponse \<Rightarrow> 'w \<Rightarrow> 'w served" where
  "openai_forwardJSON od c r w =
     (case read_all r of
        None \<Rightarrow> fails (upstream_error ''read response body'') c w
      | Some body \<Rightarrow> (case od_usage od body of (p, q) \<Rightarrow> ((zero_usage\<lparr>us_prompt := p, us_completion := q\<rparr>, None), pass_body body r c, w)))"

definition stream_options_with_usage :: "jobject \<Rightarrow> jobject" where
  "stream_options_with_usage req =
     (if wants_stream req
      then AList.update ''stream_options'' (JObject (AList.update ''include_usage'' (JBool True) (as_object (jget req ''stream_options'')))) req else req)"

definition openai_chatCompletion :: "'w netEnv \<Rightarrow> openaiDecoder \<Rightarrow> adapter \<Rightarrow> jobject \<Rightarrow> clientWriter \<Rightarrow> 'w \<Rightarrow> 'w served" where
  "openai_chatCompletion env od a req0 c w =
     (let req = without_alias req0 in
      call_upstream env a (post_json (od_num od) a ''/v1/chat/completions'' (accept_stream req (requestHeaders a True)) (stream_options_with_usage req)) c w (\<lambda>r w1.
        if wants_stream req \<and> is_event_stream r then openai_forwardStream od (asked_usage req) c r w1 else openai_forwardJSON od c r w1))"

definition openai_embeddings :: "'w netEnv \<Rightarrow> openaiDecoder \<Rightarrow> adapter \<Rightarrow> jobject \<Rightarrow> clientWriter \<Rightarrow> 'w \<Rightarrow> 'w served" where
  "openai_embeddings env od a req c w =
     call_upstream env a (post_json (od_num od) a ''/v1/embeddings'' (requestHeaders a True) (without_alias req)) c w (openai_forwardJSON od c)"

definition forwardMediaBody :: "clientWriter \<Rightarrow> upResponse \<Rightarrow> 'w \<Rightarrow> 'w served" where
  "forwardMediaBody c r w =
     (case read_all r of
        None \<Rightarrow> fails (upstream_error ''read response body'') c w
      | Some body \<Rightarrow> ((zero_usage, None), pass_body body r c, w))"

definition openai_imagesGeneration :: "'w netEnv \<Rightarrow> openaiDecoder \<Rightarrow> adapter \<Rightarrow> jobject \<Rightarrow> clientWriter \<Rightarrow> 'w \<Rightarrow> 'w served" where
  "openai_imagesGeneration env od a req c w =
     call_upstream env a (post_json (od_num od) a ''/v1/images/generations'' (requestHeaders a True) (without_alias req)) c w (forwardMediaBody c)"

definition raw_request :: "adapter \<Rightarrow> string \<Rightarrow> string \<Rightarrow> string \<Rightarrow> upRequest" where
  "raw_request a path contentType body =
     upstream_request ''POST'' (ap_base a @ path) (if contentType \<noteq> [] then AList.update ''Content-Type'' contentType (requestHeaders a False) else requestHeaders a False) (Some body)"

text \<open>The audio is copied chunk by chunk as it arrives, at most the cap.\<close>

fun copy_chunks :: "nat \<Rightarrow> string list \<Rightarrow> clientWriter \<Rightarrow> bool \<times> nat \<times> clientWriter" where
  "copy_chunks room [] c = (True, room, c)"
| "copy_chunks room (b # bs) c =
     (if room = 0 then (True, 0, c)
      else case cw_Write (take room b) c of
             (False, c1) \<Rightarrow> (False, room, c1)
           | (True, c1) \<Rightarrow> copy_chunks (room - length b) bs c1)"

definition openai_audioSpeech :: "'w netEnv \<Rightarrow> adapter \<Rightarrow> string \<Rightarrow> string \<Rightarrow> clientWriter \<Rightarrow> 'w \<Rightarrow> 'w served" where
  "openai_audioSpeech env a body contentType c w =
     call_upstream env a (raw_request a ''/v1/audio/speech'' contentType body) c w (\<lambda>r w1.
       let c1 = cw_WriteHeader (rsp_status (up_resp r)) (if up_contentType r \<noteq> [] then cw_Header ''Content-Type'' (up_contentType r) c else c) in
       case copy_chunks maxResponseBytes (filter (\<lambda>b. b \<noteq> []) (up_chunks r)) c1 of
         (ok, room, c2) \<Rightarrow>
           if \<not> ok \<or> (up_failed r \<and> 0 < room) then ((zero_usage, Some (upstream_error ''stream audio response'')), c2, w1)
           else ((zero_usage, None), c2, w1))"

definition openai_audioTranscription :: "'w netEnv \<Rightarrow> adapter \<Rightarrow> string \<Rightarrow> string \<Rightarrow> clientWriter \<Rightarrow> 'w \<Rightarrow> 'w served" where
  "openai_audioTranscription env a body contentType c w =
     call_upstream env a (raw_request a ''/v1/audio/transcriptions'' contentType body) c w (forwardMediaBody c)"

subsection \<open>Anthropic and Gemini\<close>

definition not_supported :: "string \<Rightarrow> go_error" where
  "not_supported msg = TranslateError msg True"

definition anthropic_chatCompletion :: "'w netEnv \<Rightarrow> anthropicDecoder \<Rightarrow> adapter \<Rightarrow> jobject \<Rightarrow> clientWriter \<Rightarrow> 'w \<Rightarrow> 'w served" where
  "anthropic_chatCompletion env dec a req0 c w =
     (let model = response_model req0 (jstr req0 ''model''); req = without_alias req0 in
      case anthropicRequestFromOpenAI (ad_any dec) req of
        Inl e \<Rightarrow> fails e c w
      | Inr body \<Rightarrow>
          call_upstream env a (post_json (ad_num dec) a ''/v1/messages'' (accept_stream req (requestHeaders a True)) body) c w (\<lambda>r w1.
            if wants_stream req \<and> is_event_stream r
            then forward_translated_stream (stream_translate dec) st_u (usageChunk dec) (newAnthropicStreamState model (ne_unix env w1)) (asked_usage req) c r w1
            else forward_translated (ad_num dec) (\<lambda>raw. openAIResponseFromAnthropic dec raw model (ne_unix env w1)) c r w1))"

definition geminiModelFromRequest :: "jobject \<Rightarrow> string" where
  "geminiModelFromRequest req = trim_prefix ''models/'' (jstr req ''model'')"

text \<open>\<open>url.PathEscape\<close>.\<close>

definition path_escape_char :: "char \<Rightarrow> string" where
  "path_escape_char ch =
     (if is_unreserved ch \<or> ch \<in> {CHR ''$'', CHR ''&'', CHR ''+'', CHR ''='', CHR '':'', CHR ''@''} then [ch]
      else let n = (of_char ch :: nat) in [CHR ''%'', upper_hex (n div 16), upper_hex (n mod 16)])"

definition url_PathEscape :: "string \<Rightarrow> string" where
  "url_PathEscape s = concat (map path_escape_char s)"

definition gemini_path :: "string \<Rightarrow> string \<Rightarrow> string" where
  "gemini_path model verb = geminiAPIPrefix @ url_PathEscape model @ verb"

definition gemini_chatCompletion :: "'w netEnv \<Rightarrow> geminiDecoder \<Rightarrow> adapter \<Rightarrow> jobject \<Rightarrow> clientWriter \<Rightarrow> 'w \<Rightarrow> 'w served" where
  "gemini_chatCompletion env dec a req0 c w =
     (let model = geminiModelFromRequest req0; shown = response_model req0 model; req = without_alias req0; num = ad_num (gd_json dec) in
      case geminiRequestFromOpenAI (ad_any (gd_json dec)) req of
        Inl e \<Rightarrow> fails e c w
      | Inr body \<Rightarrow>
          call_upstream env a (post_json num a (gemini_path model (if wants_stream req then '':streamGenerateContent?alt=sse'' else '':generateContent''))
              (accept_stream req (requestHeaders a True)) body) c w (\<lambda>r w1.
            if wants_stream req \<and> is_event_stream r
            then forward_translated_stream (\<lambda>ev. gemini_translate dec (se_data ev)) gs_u (gemini_usageChunk dec) (newGeminiStreamState shown (ne_unix env w1)) (asked_usage req) c r w1
            else forward_translated num (\<lambda>raw. openAIResponseFromGemini dec raw shown (ne_unix env w1)) c r w1))"

definition gemini_embeddings :: "'w netEnv \<Rightarrow> geminiDecoder \<Rightarrow> adapter \<Rightarrow> jobject \<Rightarrow> clientWriter \<Rightarrow> 'w \<Rightarrow> 'w served" where
  "gemini_embeddings env dec a req0 c w =
     (let model = geminiModelFromRequest req0; shown = response_model req0 model; req = without_alias req0; num = ad_num (gd_json dec) in
      case geminiEmbeddingInputTexts (jget req ''input'') of
        Inl e \<Rightarrow> fails e c w
      | Inr (texts, single) \<Rightarrow>
          let body = (if single then geminiEmbedContentRequest (texts ! 0) else geminiBatchEmbedContentsRequest model texts);
              path = gemini_path model (if single then '':embedContent'' else '':batchEmbedContents'')
          in call_upstream env a (post_json num a path (requestHeaders a True) body) c w (\<lambda>r w1.
               forward_translated num (\<lambda>raw. openAIEmbeddingResponseFromGemini dec raw single shown (estimatedEmbeddingTokens texts)) c r w1))"

definition gemini_imagesGeneration :: "'w netEnv \<Rightarrow> geminiDecoder \<Rightarrow> adapter \<Rightarrow> jobject \<Rightarrow> clientWriter \<Rightarrow> 'w \<Rightarrow> 'w served" where
  "gemini_imagesGeneration env dec a req0 c w =
     (let model = geminiModelFromRequest req0; num = ad_num (gd_json dec) in
      case geminiImagesRequestFromOpenAI (without_alias req0) of
        Inl e \<Rightarrow> fails e c w
      | Inr body \<Rightarrow>
          call_upstream env a (post_json num a (gemini_path model '':predict'') (requestHeaders a True) body) c w (\<lambda>r w1.
            forward_translated num (\<lambda>raw. case openAIImagesResponseFromGemini dec raw (ne_unix env w1) of Inl e \<Rightarrow> Inl e | Inr out \<Rightarrow> Inr (out, zero_usage)) c r w1))"

subsection \<open>Listing models\<close>

text \<open>A GET of a path with the body of the answer.\<close>

definition get_upstream :: "'w netEnv \<Rightarrow> adapter \<Rightarrow> string \<Rightarrow> 'w \<Rightarrow> (go_error + string) \<times> 'w" where
  "get_upstream env a path w =
     (case upstreamBytes env (ap_retry a) (upstream_request ''GET'' (ap_base a @ path) (requestHeaders a False) None) w of
        (Inl e, w1) \<Rightarrow> (Inl e, w1)
      | (Inr r, w1) \<Rightarrow>
          if rsp_status (up_resp r) < 200 \<or> 300 \<le> rsp_status (up_resp r) then (Inl (ProviderHTTPError (rsp_status (up_resp r))), w1)
          else (case read_all r of None \<Rightarrow> (Inl (upstream_error ''read response body''), w1) | Some body \<Rightarrow> (Inr body, w1)))"

definition openai_listModels :: "'w netEnv \<Rightarrow> openaiDecoder \<Rightarrow> adapter \<Rightarrow> 'w \<Rightarrow> (go_error + string list) \<times> 'w" where
  "openai_listModels env od a w =
     (case get_upstream env a ''/v1/models'' w of
        (Inl e, w1) \<Rightarrow> (Inl e, w1)
      | (Inr body, w1) \<Rightarrow> ((case od_models od body of None \<Rightarrow> Inl (upstream_error ''decode models response'') | Some ids \<Rightarrow> Inr ids), w1))"

definition context_length :: "string \<times> int \<times> int \<times> int \<Rightarrow> (string \<times> int) option" where
  "context_length = (\<lambda>(mid, maxContext, loaded, maxModelLen).
     (let c = (if maxContext = 0 then maxModelLen else maxContext); c = (if 0 < loaded then loaded else c)
      in if 0 < c then Some (mid, c) else None))"

definition fetchModelMetadata :: "'w netEnv \<Rightarrow> openaiDecoder \<Rightarrow> adapter \<Rightarrow> 'w \<Rightarrow> (go_error + (string \<rightharpoonup> int)) \<times> 'w" where
  "fetchModelMetadata env od a w =
     (if ap_metadataPath a = [] then (Inr Map.empty, w)
      else case get_upstream env a (ap_metadataPath a) w of
             (Inl e, w1) \<Rightarrow> (Inl e, w1)
           | (Inr body, w1) \<Rightarrow>
               ((case od_metadata od body of
                   None \<Rightarrow> Inl (upstream_error ''decode metadata response'')
                 | Some rows \<Rightarrow> Inr (map_of (rev (List.map_filter context_length rows)))), w1))"

text \<open>The pages of a listing: \<open>fetch\<close> gives the ids of a page and the token of the next one, empty at the end.\<close>

fun list_pages :: "(string \<Rightarrow> 'w \<Rightarrow> (go_error + (string list \<times> string)) \<times> 'w) \<Rightarrow> nat \<Rightarrow> string \<Rightarrow> string list \<Rightarrow> 'w \<Rightarrow> (go_error + string list) \<times> 'w" where
  "list_pages fetch 0 token ids w = (Inr ids, w)"
| "list_pages fetch (Suc left) token ids w =
     (case fetch token w of
        (Inl e, w1) \<Rightarrow> (Inl e, w1)
      | (Inr (page, nxt), w1) \<Rightarrow> if nxt = [] then (Inr (ids @ page), w1) else list_pages fetch left nxt (ids @ page) w1)"

definition anthropicListModelsPageCap :: nat where "anthropicListModelsPageCap = 20"
definition anthropicListModelsPageSize :: int where "anthropicListModelsPageSize = 1000"
definition geminiListModelsPageCap :: nat where "geminiListModelsPageCap = 20"
definition geminiListModelsPageSize :: int where "geminiListModelsPageSize = 1000"

text \<open>\<open>decode\<close> gives the ids, whether there are more, and the last id.\<close>

definition anthropic_listModelsPage :: "'w netEnv \<Rightarrow> (string \<Rightarrow> (string list \<times> bool \<times> string) option) \<Rightarrow> adapter \<Rightarrow> string \<Rightarrow> 'w \<Rightarrow> (go_error + (string list \<times> string)) \<times> 'w" where
  "anthropic_listModelsPage env decode a afterID w =
     (let query = [(''limit'', itoa anthropicListModelsPageSize)] @ (if afterID \<noteq> [] then [(''after_id'', afterID)] else []) in
      case get_upstream env a (''/v1/models'' @ ''?'' @ values_Encode query) w of
        (Inl e, w1) \<Rightarrow> (Inl e, w1)
      | (Inr body, w1) \<Rightarrow>
          ((case decode body of None \<Rightarrow> Inl (upstream_error ''decode models response'') | Some (ids, hasMore, lastID) \<Rightarrow> Inr (ids, if hasMore then lastID else [])), w1))"

definition anthropic_listModels :: "'w netEnv \<Rightarrow> (string \<Rightarrow> (string list \<times> bool \<times> string) option) \<Rightarrow> adapter \<Rightarrow> 'w \<Rightarrow> (go_error + string list) \<times> 'w" where
  "anthropic_listModels env decode a w = list_pages (anthropic_listModelsPage env decode a) anthropicListModelsPageCap [] [] w"

definition gemini_listModelsPage :: "'w netEnv \<Rightarrow> (string \<Rightarrow> (string list \<times> string) option) \<Rightarrow> adapter \<Rightarrow> string \<Rightarrow> 'w \<Rightarrow> (go_error + (string list \<times> string)) \<times> 'w" where
  "gemini_listModelsPage env decode a pageToken w =
     (let query = [(''pageSize'', itoa geminiListModelsPageSize)] @ (if pageToken \<noteq> [] then [(''pageToken'', pageToken)] else []) in
      case get_upstream env a (''/v1beta/models?'' @ values_Encode query) w of
        (Inl e, w1) \<Rightarrow> (Inl e, w1)
      | (Inr body, w1) \<Rightarrow>
          ((case decode body of None \<Rightarrow> Inl (upstream_error ''decode models response'') | Some (names, nxt) \<Rightarrow> Inr (map (trim_prefix ''models/'') names, nxt)), w1))"

definition gemini_listModels :: "'w netEnv \<Rightarrow> (string \<Rightarrow> (string list \<times> string) option) \<Rightarrow> adapter \<Rightarrow> 'w \<Rightarrow> (go_error + string list) \<times> 'w" where
  "gemini_listModels env decode a w = list_pages (gemini_listModelsPage env decode a) geminiListModelsPageCap [] [] w"

subsection \<open>One interface for the three kinds\<close>

record decoders =
  dc_openai :: openaiDecoder
  dc_anthropic :: anthropicDecoder
  dc_gemini :: geminiDecoder

definition chatCompletion :: "'w netEnv \<Rightarrow> decoders \<Rightarrow> adapter \<Rightarrow> jobject \<Rightarrow> clientWriter \<Rightarrow> 'w \<Rightarrow> 'w served" where
  "chatCompletion env dc a = (case ap_type a of
       ProviderOpenAI \<Rightarrow> openai_chatCompletion env (dc_openai dc) a
     | ProviderAnthropic \<Rightarrow> anthropic_chatCompletion env (dc_anthropic dc) a
     | ProviderGemini \<Rightarrow> gemini_chatCompletion env (dc_gemini dc) a)"

definition embeddings :: "'w netEnv \<Rightarrow> decoders \<Rightarrow> adapter \<Rightarrow> jobject \<Rightarrow> clientWriter \<Rightarrow> 'w \<Rightarrow> 'w served" where
  "embeddings env dc a req c w = (case ap_type a of
       ProviderOpenAI \<Rightarrow> openai_embeddings env (dc_openai dc) a req c w
     | ProviderAnthropic \<Rightarrow> fails (not_supported ''embeddings not supported for anthropic models'') c w
     | ProviderGemini \<Rightarrow> gemini_embeddings env (dc_gemini dc) a req c w)"

definition imagesGeneration :: "'w netEnv \<Rightarrow> decoders \<Rightarrow> adapter \<Rightarrow> jobject \<Rightarrow> clientWriter \<Rightarrow> 'w \<Rightarrow> 'w served" where
  "imagesGeneration env dc a req c w = (case ap_type a of
       ProviderOpenAI \<Rightarrow> openai_imagesGeneration env (dc_openai dc) a req c w
     | ProviderAnthropic \<Rightarrow> fails (not_supported ''image generation not supported for anthropic models'') c w
     | ProviderGemini \<Rightarrow> gemini_imagesGeneration env (dc_gemini dc) a req c w)"

definition audioSpeech :: "'w netEnv \<Rightarrow> adapter \<Rightarrow> string \<Rightarrow> string \<Rightarrow> clientWriter \<Rightarrow> 'w \<Rightarrow> 'w served" where
  "audioSpeech env a body contentType c w = (case ap_type a of
       ProviderOpenAI \<Rightarrow> openai_audioSpeech env a body contentType c w
     | ProviderAnthropic \<Rightarrow> fails (not_supported ''audio speech not supported for anthropic models'') c w
     | ProviderGemini \<Rightarrow> fails (not_supported ''audio speech not supported for gemini models'') c w)"

definition audioTranscription :: "'w netEnv \<Rightarrow> adapter \<Rightarrow> string \<Rightarrow> string \<Rightarrow> clientWriter \<Rightarrow> 'w \<Rightarrow> 'w served" where
  "audioTranscription env a body contentType c w = (case ap_type a of
       ProviderOpenAI \<Rightarrow> openai_audioTranscription env a body contentType c w
     | ProviderAnthropic \<Rightarrow> fails (not_supported ''audio transcription not supported for anthropic models'') c w
     | ProviderGemini \<Rightarrow> fails (not_supported ''audio transcription not supported for gemini models'') c w)"

subsection \<open>Construction\<close>

record ProviderConfig =
  pv_Type :: string
  pv_BaseURL :: string
  pv_APIKey :: string
  pv_RequestTimeout :: string
  pv_MetadataPath :: string

datatype adapterError =
    RetryInvalid retryError | TimeoutInvalid timeoutError | ProviderNil string | ProviderName string configNameError
  | ProviderSecret string secretError | MetadataPathInvalid string | KeyRequired string | UnknownType string string

definition provider_type :: "string \<Rightarrow> providerType option" where
  "provider_type t =
     (if t = ''openai'' then Some ProviderOpenAI else if t = ''anthropic'' then Some ProviderAnthropic else if t = ''gemini'' then Some ProviderGemini else None)"

definition defaultBaseURLByType :: "string \<Rightarrow> string" where
  "defaultBaseURLByType t =
     (if t = ''openai'' then ''https://api.openai.com'' else if t = ''anthropic'' then ''https://api.anthropic.com''
      else if t = ''gemini'' then ''https://generativelanguage.googleapis.com'' else [])"

definition validateMetadataPath :: "string \<Rightarrow> bool" where
  "validateMetadataPath p \<longleftrightarrow> p = [] \<or> hd p = CHR ''/''"

definition trim_slash :: "string \<Rightarrow> string" where
  "trim_slash s = (if s \<noteq> [] \<and> last s = CHR ''/'' then butlast s else s)"

definition build_adapter :: "(string \<Rightarrow> string) \<Rightarrow> (string \<rightharpoonup> string) \<Rightarrow> retryPolicy \<Rightarrow> duration \<Rightarrow> string \<Rightarrow> ProviderConfig option \<Rightarrow> adapterError + adapter" where
  "build_adapter getenv readFile policy globalTimeout name pco =
     (case pco of
        None \<Rightarrow> Inl (ProviderNil name)
      | Some pc \<Rightarrow>
          (case validateConfigName name of
             Some e \<Rightarrow> Inl (ProviderName name e)
           | None \<Rightarrow>
               (case resolveSecret getenv readFile (pv_APIKey pc) of
                  Inl e \<Rightarrow> Inl (ProviderSecret name e)
                | Inr key \<Rightarrow>
                    let trimmed = trim_slash (pv_BaseURL pc); base = (if trimmed = [] then defaultBaseURLByType (pv_Type pc) else trimmed) in
                    if \<not> validateMetadataPath (pv_MetadataPath pc) then Inl (MetadataPathInvalid name)
                    else (case resolveProviderTimeout (pv_RequestTimeout pc) globalTimeout of
                            Inl e \<Rightarrow> Inl (TimeoutInvalid e)
                          | Inr timeout \<Rightarrow>
                              (case provider_type (pv_Type pc) of
                                 None \<Rightarrow> Inl (UnknownType name (pv_Type pc))
                               | Some t \<Rightarrow>
                                   if t \<noteq> ProviderOpenAI \<and> key = [] then Inl (KeyRequired name)
                                   else Inr \<lparr>ap_type = t, ap_name = name, ap_base = base, ap_key = key,
                                             ap_metadataPath = (if t = ProviderOpenAI then pv_MetadataPath pc else []),
                                             ap_timeout = timeout, ap_retry = Some policy\<rparr>)))))"

text \<open>The providers in the order the map is walked in; the first error ends the construction.\<close>

fun build_all :: "(string \<Rightarrow> string) \<Rightarrow> (string \<rightharpoonup> string) \<Rightarrow> retryPolicy \<Rightarrow> duration \<Rightarrow> (string \<times> ProviderConfig option) list \<Rightarrow> adapterError + (string, adapter) gomap" where
  "build_all getenv readFile policy globalTimeout [] = Inr []"
| "build_all getenv readFile policy globalTimeout ((name, pc) # rest) =
     (case build_adapter getenv readFile policy globalTimeout name pc of
        Inl e \<Rightarrow> Inl e
      | Inr a \<Rightarrow> (case build_all getenv readFile policy globalTimeout rest of Inl e \<Rightarrow> Inl e | Inr as \<Rightarrow> Inr ((name, a) # as)))"

definition buildAdapters :: "(string \<Rightarrow> string) \<Rightarrow> (string \<rightharpoonup> string) \<Rightarrow> RetryConfig \<Rightarrow> string \<Rightarrow> (string, ProviderConfig option) gomap \<Rightarrow> adapterError + (string, adapter) gomap" where
  "buildAdapters getenv readFile rc requestTimeout providers =
     (case newRetryPolicy rc of
        Inl e \<Rightarrow> Inl (RetryInvalid e)
      | Inr policy \<Rightarrow>
          (case resolveRequestTimeout requestTimeout of
             Inl e \<Rightarrow> Inl (TimeoutInvalid e)
           | Inr globalTimeout \<Rightarrow> build_all getenv readFile policy globalTimeout providers))"

subsection \<open>Requests stay with their provider\<close>

lemma retry_state_inv:
  assumes "\<And>st. J st \<Longrightarrow> J (snd (rv_call env st))" and "\<And>n st. J st \<Longrightarrow> J (snd (rv_Int63n env n st))"
    and "\<And>d st. J st \<Longrightarrow> J (snd (rv_waitFn env d st))"
  shows "J st \<Longrightarrow> J (rr_state (retry_loop env p left attempt st))"
proof (induction left arbitrary: attempt st)
  case 0
  then show ?case using assms(1) [of st] by (cases "rv_call env st") simp
next
  case (Suc left)
  obtain resp err st1 where call: "rv_call env st = ((resp, err), st1)" by (metis surj_pair)
  have st1: "J st1" using assms(1) [OF Suc.prems] call by simp
  obtain wait go st3 where wt: "retry_wait env (the p) attempt resp st1 = (wait, go, st3)" by (metis surj_pair)
  have "J (snd (retryJitterFn env d st1))" for d using assms(2) [OF st1] st1 by (auto simp: retryJitterFn_def Let_def split: prod.splits) (metis snd_conv)
  then have "J st3" using wt st1 assms(3) by (auto simp: retry_wait_def Let_def split: prod.splits if_splits) (metis snd_conv)+
  then show ?case using Suc.IH st1 by (simp add: call wt Let_def)
qed

definition auth_header :: "adapter \<Rightarrow> (string \<times> string) option" where
  "auth_header a =
     (case ap_type a of
        ProviderOpenAI \<Rightarrow> if ap_key a = [] then None else Some (''Authorization'', ''Bearer '' @ ap_key a)
      | ProviderAnthropic \<Rightarrow> Some (''X-Api-Key'', ap_key a)
      | ProviderGemini \<Rightarrow> Some (''X-Goog-Api-Key'', ap_key a))"

text \<open>A request of an adapter: under its base URL, with its own key and with no other header than these.\<close>

definition own_headers :: "adapter \<Rightarrow> (string, string) gomap \<Rightarrow> bool" where
  "own_headers a hdr \<longleftrightarrow> (case auth_header a of Some (k, v) \<Rightarrow> map_of hdr k = Some v | None \<Rightarrow> True)
     \<and> dom (map_of hdr) \<subseteq> {''Content-Type'', ''Accept'', ''Anthropic-Version''} \<union> (case auth_header a of Some (k, v) \<Rightarrow> {k} | None \<Rightarrow> {})"

definition own_request :: "adapter \<Rightarrow> upRequest \<Rightarrow> bool" where
  "own_request a rq \<longleftrightarrow> (\<exists>path. uq_url rq = ap_base a @ path) \<and> own_headers a (uq_headers rq)"

definition keeps :: "'w netEnv \<Rightarrow> adapter \<Rightarrow> ('w \<Rightarrow> bool) \<Rightarrow> bool" where
  "keeps env a I \<longleftrightarrow> (\<forall>rq w. own_request a rq \<longrightarrow> I w \<longrightarrow> I (snd (ne_do env rq w)))
     \<and> (\<forall>n w. I w \<longrightarrow> I (snd (ne_Int63n env n w))) \<and> (\<forall>d w. I w \<longrightarrow> I (snd (ne_waitFn env d w)))"

lemma upstreamBytes_inv:
  assumes "keeps env a I" and "own_request a rq" and "I w"
  shows "I (snd (upstreamBytes env policy rq w))"
proof -
  let ?J = "\<lambda>(w, r). I w" and ?env = "retry_env env rq"
  have "?J (rr_state (retryPolicy_do ?env policy (w, None)))" unfolding retryPolicy_do_def
  proof (rule retry_state_inv)
    fix st :: "'a \<times> upResponse option" assume J: "?J st"
    obtain w r where st: "st = (w, r)" by fastforce
    have w: "I w" using J st by simp
    have "I (snd (ne_do env rq w))" using assms(1,2) w by (simp add: keeps_def)
    then show "?J (snd (rv_call ?env st))" using w st by (auto simp: retry_env_def upstream_attempt_def split: prod.splits sum.splits)
    have i: "I (snd (ne_Int63n env n w))" and t: "I (snd (ne_waitFn env d w))" for n d using assms(1) w by (simp_all add: keeps_def)
    show "?J (snd (rv_Int63n ?env n st))" for n using i [of n] st by (auto simp: retry_env_def split: prod.splits)
    show "?J (snd (rv_waitFn ?env d st))" for d using t [of d] st by (auto simp: retry_env_def split: prod.splits)
  qed (use assms(3) in simp)
  then show ?thesis by (auto simp: upstreamBytes_def Let_def split: prod.splits option.splits)
qed

lemma call_upstream_inv:
  assumes "keeps env a I" and "own_request a rq" and "I w" and "\<And>r w. I w \<Longrightarrow> I (snd (snd (k r w)))"
  shows "I (snd (snd (call_upstream env a rq c w k)))"
  using upstreamBytes_inv [OF assms(1-3), of "ap_retry a"] assms(4)
  by (auto simp: call_upstream_def fails_def split: prod.splits sum.splits)

lemma get_upstream_inv:
  assumes "keeps env a I" and "own_request a (upstream_request ''GET'' (ap_base a @ path) (requestHeaders a False) None)" and "I w"
  shows "I (snd (get_upstream env a path w))"
  using upstreamBytes_inv [OF assms, of "ap_retry a"] by (auto simp: get_upstream_def split: prod.splits sum.splits option.splits)

lemma own_headers_update: "own_headers a hdr \<Longrightarrow> k = ''Content-Type'' \<or> k = ''Accept'' \<Longrightarrow> own_headers a (AList.update k v hdr)"
  by (auto simp: own_headers_def update_conv' auth_header_def split: option.splits providerType.splits if_splits)

lemma own_headers_request: "own_headers a (requestHeaders a hasBody)"
  by (auto simp: own_headers_def requestHeaders_def injectAuth_def auth_header_def update_conv' split: providerType.splits if_splits)

lemma own_upstream_request: "own_headers a hdr \<Longrightarrow> own_request a (upstream_request m (ap_base a @ path) hdr b)"
  by (auto simp: own_request_def upstream_request_def intro: own_headers_update)

lemma own_requests:
  "own_request a (upstream_request ''GET'' (ap_base a @ path) (requestHeaders a False) None)"
  "own_request a (raw_request a path ct b)"
  "own_request a (post_json num a path (requestHeaders a True) body)"
  "own_request a (post_json num a path (accept_stream req (requestHeaders a True)) body)"
  using own_headers_request own_headers_update [OF own_headers_request]
  by (auto simp: raw_request_def post_json_def accept_stream_def intro!: own_upstream_request)

lemma forwards_keep_world:
  "snd (snd (forward_translated num f c r w)) = w" "snd (snd (forward_translated_stream step u ch st asked c r w)) = w"
  "snd (snd (openai_forwardStream od asked c r w)) = w" "snd (snd (openai_forwardJSON od c r w)) = w" "snd (snd (forwardMediaBody c r w)) = w"
  by (auto simp: forward_translated_def forward_translated_stream_def openai_forwardStream_def openai_forwardJSON_def forwardMediaBody_def fails_def
      split: option.splits sum.splits prod.splits bool.splits)

lemma fails_world [simp]: "snd (snd (fails e c w)) = w"
  by (simp add: fails_def)

lemma chatCompletion_inv:
  assumes "keeps env a I" and "I w"
  shows "I (snd (snd (chatCompletion env dc a req c w)))"
  using assms(2)
  by (auto simp: chatCompletion_def openai_chatCompletion_def anthropic_chatCompletion_def gemini_chatCompletion_def Let_def forwards_keep_world
      split: providerType.split sum.split intro!: call_upstream_inv [OF assms(1) own_requests(4) assms(2)])

lemma embeddings_inv:
  assumes "keeps env a I" and "I w"
  shows "I (snd (snd (embeddings env dc a req c w)))"
  using assms(2)
  by (auto simp: embeddings_def openai_embeddings_def gemini_embeddings_def Let_def forwards_keep_world
      split: providerType.split sum.split intro!: call_upstream_inv [OF assms(1) own_requests(3) assms(2)])

lemma imagesGeneration_inv:
  assumes "keeps env a I" and "I w"
  shows "I (snd (snd (imagesGeneration env dc a req c w)))"
  using assms(2)
  by (auto simp: imagesGeneration_def openai_imagesGeneration_def gemini_imagesGeneration_def Let_def forwards_keep_world
      split: providerType.split sum.split intro!: call_upstream_inv [OF assms(1) own_requests(3) assms(2)])

lemma audio_inv:
  assumes "keeps env a I" and "I w"
  shows "I (snd (snd (audioSpeech env a body ct c w)))" and "I (snd (snd (audioTranscription env a body ct c w)))"
  using assms(2)
  by (auto simp: audioSpeech_def openai_audioSpeech_def audioTranscription_def openai_audioTranscription_def Let_def forwards_keep_world
      split: providerType.split prod.split intro!: call_upstream_inv [OF assms(1) own_requests(2) assms(2)])

lemma list_pages_inv:
  assumes "\<And>token w. I w \<Longrightarrow> I (snd (fetch token w))"
  shows "I w \<Longrightarrow> I (snd (list_pages fetch n token ids w))"
proof (induction n arbitrary: token ids w)
  case (Suc n)
  have "I (snd (fetch token w))" using assms Suc.prems .
  then show ?case using Suc.IH by (auto split: prod.splits sum.splits)
qed simp

lemma listing_inv:
  assumes "keeps env a I" and "I w"
  shows "I (snd (openai_listModels env od a w))" and "I (snd (fetchModelMetadata env od a w))"
    and "I (snd (anthropic_listModels env dec1 a w))" and "I (snd (gemini_listModels env dec2 a w))"
proof -
  have get: "I (snd (get_upstream env a path w'))" if "I w'" for path w' using get_upstream_inv [OF assms(1) own_requests(1) that] .
  show "I (snd (openai_listModels env od a w))" using get [OF assms(2), of "''/v1/models''"]
    by (auto simp: openai_listModels_def split: prod.splits sum.splits)
  show "I (snd (fetchModelMetadata env od a w))" using get [OF assms(2), of "ap_metadataPath a"] assms(2)
    by (auto simp: fetchModelMetadata_def split: prod.splits sum.splits)
  have "I (snd (anthropic_listModelsPage env dec1 a token w'))" "I (snd (gemini_listModelsPage env dec2 a token w'))" if "I w'" for token w'
    using get [OF that] by (auto simp: anthropic_listModelsPage_def gemini_listModelsPage_def Let_def split: prod.split sum.split option.split) (metis snd_conv)+
  then show "I (snd (anthropic_listModels env dec1 a w))" "I (snd (gemini_listModels env dec2 a w))"
    using assms(2) by (simp_all add: anthropic_listModels_def gemini_listModels_def list_pages_inv)
qed

text \<open>The same network with the requests it was asked to send.\<close>

definition traced :: "'w netEnv \<Rightarrow> ('w \<times> upRequest list) netEnv" where
  "traced env =
     \<lparr>ne_build = ne_build env,
      ne_do = (\<lambda>rq (w, tr). case ne_do env rq w of (res, w1) \<Rightarrow> (res, (w1, tr @ [rq]))),
      ne_Int63n = (\<lambda>n (w, tr). case ne_Int63n env n w of (i, w1) \<Rightarrow> (i, (w1, tr))),
      ne_waitFn = (\<lambda>d (w, tr). case ne_waitFn env d w of (go, w1) \<Rightarrow> (go, (w1, tr))),
      ne_ctxErr = (\<lambda>(w, tr). ne_ctxErr env w),
      ne_unix = (\<lambda>(w, tr). ne_unix env w)\<rparr>"

definition only_own :: "adapter \<Rightarrow> 'w \<times> upRequest list \<Rightarrow> bool" where
  "only_own a = (\<lambda>(w, tr). \<forall>rq\<in>set tr. own_request a rq)"

lemma traced_keeps: "keeps (traced env) a (only_own a)"
  by (auto simp: keeps_def traced_def only_own_def split: prod.splits)


subsection \<open>A failed call has not answered yet\<close>

lemma call_upstream_error:
  assumes "call_upstream env a rq c w k = ((u, Some e), c', w')" and "\<And>r w u c' w'. k r w = ((u, Some e), c', w') \<Longrightarrow> c' = c"
  shows "c' = c"
  using assms by (auto simp: call_upstream_def fails_def split: prod.splits sum.splits if_splits)

lemma forwards_error:
  "forward_translated num f c r w = ((u, Some e), c', w') \<Longrightarrow> c' = c"
  "openai_forwardJSON od c r w = ((u, Some e), c', w') \<Longrightarrow> c' = c"
  "forwardMediaBody c r w = ((u, Some e), c', w') \<Longrightarrow> c' = c"
  by (auto simp: forward_translated_def openai_forwardJSON_def forwardMediaBody_def fails_def split: option.splits sum.splits prod.splits)

lemma wants_stream_without_alias: "wants_stream (without_alias req) = wants_stream req"
  by (simp add: wants_stream_def without_alias_def jget_def gatewayAliasKey_def delete_conv')

theorem failed_call_leaves_client_untouched:
  assumes "chatCompletion env dc a req c w = ((u, Some e), c', w') \<and> \<not> wants_stream req
    \<or> embeddings env dc a req c w = ((u, Some e), c', w') \<or> imagesGeneration env dc a req c w = ((u, Some e), c', w')
    \<or> audioTranscription env a body ct c w = ((u, Some e), c', w')"
  shows "c' = c"
  using assms
proof (elim disjE conjE)
  assume "chatCompletion env dc a req c w = ((u, Some e), c', w')" and "\<not> wants_stream req"
  then show ?thesis
    by (auto simp: chatCompletion_def openai_chatCompletion_def anthropic_chatCompletion_def gemini_chatCompletion_def wants_stream_without_alias Let_def fails_def
        split: providerType.splits sum.splits elim!: call_upstream_error dest: forwards_error)
next
  assume "embeddings env dc a req c w = ((u, Some e), c', w')"
  then show ?thesis by (auto simp: embeddings_def openai_embeddings_def gemini_embeddings_def Let_def fails_def
        split: providerType.splits sum.splits elim!: call_upstream_error dest: forwards_error)
next
  assume "imagesGeneration env dc a req c w = ((u, Some e), c', w')"
  then show ?thesis by (auto simp: imagesGeneration_def openai_imagesGeneration_def gemini_imagesGeneration_def Let_def fails_def
        split: providerType.splits sum.splits elim!: call_upstream_error dest: forwards_error)
next
  assume "audioTranscription env a body ct c w = ((u, Some e), c', w')"
  then show ?thesis by (auto simp: audioTranscription_def openai_audioTranscription_def fails_def
        split: providerType.splits elim!: call_upstream_error dest: forwards_error)
qed

subsection \<open>Streams reach the client\<close>

text \<open>The events of a body, handed to any callback one after the other.\<close>

fun deliver :: "'a callback \<Rightarrow> sseEvent list \<Rightarrow> 'a \<Rightarrow> string option \<times> 'a" where
  "deliver fn [] acc = (None, acc)"
| "deliver fn (ev # evs) acc = (case fn ev acc of (Some e, acc1) \<Rightarrow> (Some e, acc1) | (None, acc1) \<Rightarrow> deliver fn evs acc1)"

lemma dispatch_collect:
  assumes "dispatch collect st seen = (None, st', seen')"
  obtains evs where "seen' = seen @ evs" and "\<And>acc. dispatch fn st acc = (case deliver fn evs acc of (e, acc') \<Rightarrow> (map_option CallbackFailed e, st', acc'))"
proof (cases "rs_hasData st \<and> strings_Join [LF] (rs_dataLines st) \<noteq> []")
  case True
  let ?ev = "\<lparr>se_event = rs_event st, se_data = strings_Join [LF] (rs_dataLines st)\<rparr>"
  show ?thesis
  proof (rule that [of "[?ev]"])
    show "seen' = seen @ [?ev]" using assms True by (auto simp: dispatch_def collect_def Let_def)
    show "dispatch fn st acc = (case deliver fn [?ev] acc of (e, acc') \<Rightarrow> (map_option CallbackFailed e, st', acc'))" for acc
      using assms True by (auto simp: dispatch_def collect_def Let_def split: prod.split option.split)
  qed
next
  case False
  show ?thesis
  proof (rule that [of "[]"])
    show "seen' = seen @ []" using assms False by (auto simp: dispatch_def Let_def)
    show "dispatch fn st acc = (case deliver fn [] acc of (e, acc') \<Rightarrow> (map_option CallbackFailed e, st', acc'))" for acc
      using assms False by (auto simp: dispatch_def Let_def)
  qed
qed

lemma deliver_append: "deliver fn (xs @ ys) acc = (case deliver fn xs acc of (Some e, a) \<Rightarrow> (Some e, a) | (None, a) \<Rightarrow> deliver fn ys a)"
  by (induction xs arbitrary: acc) (auto split: prod.split option.split)

lemma read_line_collect:
  assumes "read_line_sse collect raw st seen = (None, st', seen')"
  obtains evs where "seen' = seen @ evs"
    and "\<And>acc acc'. deliver fn evs acc = (None, acc') \<Longrightarrow> read_line_sse fn raw st acc = (None, st', acc')"
proof -
  let ?line = "if rs_firstLine st then trim_prefix sseBOM raw else raw" and ?st1 = "st\<lparr>rs_firstLine := False\<rparr>"
  show thesis
  proof (cases "?line = []")
    case True
    with assms have "dispatch collect ?st1 seen = (None, st', seen')" by (simp add: read_line_sse_def Let_def)
    then obtain evs where "seen' = seen @ evs"
      and d: "\<And>acc. dispatch fn ?st1 acc = (case deliver fn evs acc of (e, acc') \<Rightarrow> (map_option CallbackFailed e, st', acc'))"
      using dispatch_collect [of ?st1 seen st' seen' fn] by metis
    then show thesis using True by (intro that [of evs]) (simp_all add: read_line_sse_def Let_def)
  next
    case False
    then show thesis using assms by (intro that [of "[]"]) (auto simp: read_line_sse_def Let_def split: if_splits prod.splits)
  qed
qed

lemma read_lines_collect:
  "read_lines collect ls st seen = (None, st', seen') \<Longrightarrow>
     \<exists>evs. seen' = seen @ evs \<and> (\<forall>acc acc'. deliver fn evs acc = (None, acc') \<longrightarrow> read_lines fn ls st acc = (None, st', acc'))"
proof (induction ls arbitrary: st seen)
  case (Cons l ls)
  obtain st1 seen1 where one: "read_line_sse collect l st seen = (None, st1, seen1)"
    and rest: "read_lines collect ls st1 seen1 = (None, st', seen')" using Cons.prems by (auto split: prod.splits option.splits)
  obtain evs1 where e1: "seen1 = seen @ evs1"
    "\<And>acc acc'. deliver fn evs1 acc = (None, acc') \<Longrightarrow> read_line_sse fn l st acc = (None, st1, acc')"
    by (rule read_line_collect [OF one, of fn]) blast
  obtain evs2 where e2: "seen' = seen1 @ evs2"
    "\<And>acc acc'. deliver fn evs2 acc = (None, acc') \<Longrightarrow> read_lines fn ls st1 acc = (None, st', acc')" using Cons.IH [OF rest] by blast
  have "read_lines fn (l # ls) st acc = (None, st', acc')" if "deliver fn (evs1 @ evs2) acc = (None, acc')" for acc acc'
    using that e1(2) e2(2) by (auto simp: deliver_append split: prod.splits option.splits)
  then show ?case using e1(1) e2(1) by (intro exI [of _ "evs1 @ evs2"]) simp
qed simp

lemma readSSE_deliver:
  assumes "readSSE chunks failed collect [] = (None, evs)" and "deliver fn evs acc = (None, acc')"
  shows "readSSE chunks failed fn acc = (None, acc')"
proof -
  obtain ls tooLong where scan: "scan_lines sseScannerMaxLineSize [] chunks False = (ls, tooLong)" by fastforce
  obtain st seen st2 where l: "read_lines collect ls readState_init [] = (None, st, seen)" and ok: "\<not> tooLong" "\<not> failed"
    and d: "dispatch collect st seen = (None, st2, evs)"
    using assms(1) scan by (auto simp: readSSE_def split: prod.splits option.splits if_splits)
  obtain evs1 where e1: "seen = evs1" "\<And>acc acc'. deliver fn evs1 acc = (None, acc') \<Longrightarrow> read_lines fn ls readState_init acc = (None, st, acc')"
    using read_lines_collect [OF l, of fn] by auto
  obtain evs2 where e2: "evs = seen @ evs2" "\<And>acc. dispatch fn st acc = (case deliver fn evs2 acc of (e, a) \<Rightarrow> (map_option CallbackFailed e, st2, a))"
    by (rule dispatch_collect [OF d, of fn]) blast
  obtain acc1 where "deliver fn evs1 acc = (None, acc1)" "deliver fn evs2 acc1 = (None, acc')"
    using assms(2) e1(1) e2(1) by (auto simp: deliver_append split: prod.splits option.splits)
  then show ?thesis using e1(2) e2(2) scan ok by (simp add: readSSE_def)
qed

text \<open>A client that stays connected.\<close>

definition connected :: "clientWriter \<Rightarrow> bool" where
  "connected c \<longleftrightarrow> cw_plan c = []"

lemma cw_Write_connected:
  assumes "connected c"
  obtains c' where "cw_Write b c = (True, c')" and "connected c'" and "cw_body c' = cw_body c @ b"
  using assms that by (auto simp: cw_Write_def connected_def cw_WriteHeader_def Let_def)

lemma write_chunks_connected:
  assumes "connected c"
  shows "\<exists>c'. write_chunks bs c = (True, c') \<and> connected c' \<and> cw_body c' = cw_body c @ concat (map writeData bs)"
  using assms
proof (induction bs arbitrary: c)
  case (Cons b bs)
  obtain c1 where c1: "cw_Write (writeData b) c = (True, c1)" "connected c1" "cw_body c1 = cw_body c @ writeData b"
    using cw_Write_connected [OF Cons.prems] by blast
  then show ?case using Cons.IH [OF c1(2)] by simp
qed simp

fun translate_all :: "(sseEvent \<Rightarrow> 'st \<Rightarrow> (string list \<times> go_error option) \<times> 'st) \<Rightarrow> sseEvent list \<Rightarrow> 'st \<Rightarrow> (string list \<times> go_error option) \<times> 'st" where
  "translate_all step [] st = (([], None), st)"
| "translate_all step (ev # evs) st =
     (case step ev st of
        ((chunks, Some e), st1) \<Rightarrow> ((chunks, Some e), st1)
      | ((chunks, None), st1) \<Rightarrow> (case translate_all step evs st1 of ((rest, err), st2) \<Rightarrow> ((chunks @ rest, err), st2)))"

lemma deliver_translated:
  assumes "translate_all step evs st = ((cs, None), st')" and "connected c"
  shows "\<exists>c'. deliver (translate_event step) evs (st, c, None) = (None, (st', c', None)) \<and> connected c' \<and> cw_body c' = cw_body c @ concat (map writeData cs)"
  using assms
proof (induction evs arbitrary: st c cs)
  case (Cons ev evs)
  obtain cs1 e st1 where s: "step ev st = ((cs1, e), st1)" by (metis surj_pair)
  obtain cs2 e2 st2 where t: "translate_all step evs st1 = ((cs2, e2), st2)" by (metis surj_pair)
  have e: "e = None" "e2 = None" "st2 = st'" "cs = cs1 @ cs2" using Cons.prems(1) s t by (auto split: option.splits)
  obtain c1 where c1: "write_chunks cs1 c = (True, c1)" "connected c1" "cw_body c1 = cw_body c @ concat (map writeData cs1)"
    using write_chunks_connected [OF Cons.prems(2)] by blast
  then show ?case using Cons.IH [of st1 cs2 c1] t e s by (auto simp: translate_event_def)
qed simp

text \<open>Chunks a client can read: one line each, within the bounds of an event.\<close>

definition plain_chunk :: "string \<Rightarrow> bool" where
  "plain_chunk b \<longleftrightarrow> b \<noteq> [] \<and> list_all not_break b \<and> length b < sseScannerMaxLineSize - 6"

lemma plain_chunk_ok: "plain_chunk b \<Longrightarrow> message_ok b \<and> normalized b = b \<and> b \<noteq> []"
  by (simp add: plain_chunk_def message_ok_def splitSSELines_plain normalized_plain sseScannerMaxLineSize_def sseDataLineOverhead_def sseMaxEventBytes_def)

lemma chunks_read_back:
  assumes "\<forall>b\<in>set bs. plain_chunk b" and "concat chunks = concat (map writeData bs)"
  shows "readSSE chunks False collect [] = (None, map (\<lambda>b. \<lparr>se_event = [], se_data = b\<rparr>) bs)"
proof -
  have "filter (\<lambda>b. normalized b \<noteq> []) bs = bs" and "map (\<lambda>b. \<lparr>se_event = [], se_data = normalized b\<rparr>) bs = map (\<lambda>b. \<lparr>se_event = [], se_data = b\<rparr>) bs"
    using assms(1) plain_chunk_ok by (auto intro: filter_True)
  then show ?thesis using messages_read_back [OF _ assms(2)] assms(1) plain_chunk_ok by simp
qed

lemma done_plain: "plain_chunk sseDoneMarker"
  by (simp add: plain_chunk_def sseDoneMarker_def not_break_def CR_def LF_def sseScannerMaxLineSize_def)

text \<open>C15: When the body of an upstream stream is a readable event stream and the translation of
  its events reports no error, a connected client that reads what the adapter wrote gets
  exactly the translated chunks in order, the usage chunk if it asked for one, and the end
  marker; the adapter returns the usage of the final state.\<close>

theorem translated_stream_reaches_client:
  assumes "readSSE (up_chunks r) (up_failed r) collect [] = (None, evs)" and "translate_all step evs st0 = ((cs, None), st)"
    and "connected c" and "cw_body c = []"
    and "\<forall>b\<in>set (cs @ (if asked then [usage_chunk st] else [])). plain_chunk b"
  shows "\<exists>c'. forward_translated_stream step usage_of usage_chunk st0 asked c r w = ((usage_of st, None), c', w)
    \<and> readSSE [cw_body c'] False collect []
        = (None, map (\<lambda>b. \<lparr>se_event = [], se_data = b\<rparr>) (cs @ (if asked then [usage_chunk st] else []) @ [sseDoneMarker]))"
proof -
  let ?tail = "if asked then [usage_chunk st] else []"
  have c0: "connected (sse_headers c)" "cw_body (sse_headers c) = []" using assms(3,4) by (simp_all add: sse_headers_def cw_Header_def connected_def)
  obtain c1 where d: "deliver (translate_event step) evs (st0, sse_headers c, None) = (None, (st, c1, None))"
    and c1: "connected c1" "cw_body c1 = concat (map writeData cs)" using deliver_translated [OF assms(2) c0(1)] c0(2) by auto
  obtain c2 where c2: "write_chunks ?tail c1 = (True, c2)" "connected c2" "cw_body c2 = cw_body c1 @ concat (map writeData ?tail)"
    using write_chunks_connected [OF c1(1)] by blast
  obtain c3 where c3: "cw_Write writeDone c2 = (True, c3)" "cw_body c3 = cw_body c2 @ writeDone" using cw_Write_connected [OF c2(2)] by blast
  have body: "cw_body c3 = concat (map writeData (cs @ ?tail @ [sseDoneMarker]))"
    using c3(2) c2(3) c1(2) by (simp add: writeDone_is_data sseDoneMarker_def)
  have "forward_translated_stream step usage_of usage_chunk st0 asked c r w = ((usage_of st, None), c3, w)"
    unfolding forward_translated_stream_def readSSE_deliver [OF assms(1) d] using c2(1) c3(1) by simp
  moreover have "readSSE [cw_body c3] False collect [] = (None, map (\<lambda>b. \<lparr>se_event = [], se_data = b\<rparr>) (cs @ ?tail @ [sseDoneMarker]))"
    using assms(5) done_plain body by (intro chunks_read_back) auto
  ultimately show ?thesis by blast
qed

text \<open>The OpenAI stream is passed on, less the usage report a client did not ask for.\<close>

definition passes :: "openaiDecoder \<Rightarrow> bool \<Rightarrow> sseEvent \<Rightarrow> bool" where
  "passes od asked ev \<longleftrightarrow> se_data ev = sseDoneMarker \<or> asked \<or> (case od_chunk od (se_data ev) of Some (Some _, choices) \<Rightarrow> choices \<noteq> 0 | _ \<Rightarrow> True)"

definition report_of :: "openaiDecoder \<Rightarrow> sseEvent \<Rightarrow> (int \<times> int) option" where
  "report_of od ev = (if se_data ev = sseDoneMarker then None else case od_chunk od (se_data ev) of Some (rep, _) \<Rightarrow> rep | None \<Rightarrow> None)"

definition take_report :: "openaiDecoder \<Rightarrow> sseEvent \<Rightarrow> usage \<Rightarrow> usage" where
  "take_report od ev u = (case report_of od ev of Some (p, q) \<Rightarrow> u\<lparr>us_prompt := p, us_completion := q\<rparr> | None \<Rightarrow> u)"

lemma openai_event_connected:
  assumes "connected c"
  shows "\<exists>c'. openai_event od asked ev (u, c) = (None, (take_report od ev u, c')) \<and> connected c'
    \<and> cw_body c' = cw_body c @ (if passes od asked ev then writeData (se_data ev) else [])"
proof -
  obtain c1 where c1: "cw_Write (writeData (se_data ev)) c = (True, c1)" "connected c1" "cw_body c1 = cw_body c @ writeData (se_data ev)"
    using cw_Write_connected [OF assms] by blast
  show ?thesis
  proof (cases "se_data ev = sseDoneMarker")
    case True
    then have "writeDone = writeData (se_data ev)" by (simp add: writeDone_is_data sseDoneMarker_def)
    then show ?thesis using c1 True by (simp add: openai_event_def take_report_def report_of_def passes_def)
  next
    case False
    then show ?thesis using c1 assms
      by (auto simp: openai_event_def take_report_def report_of_def passes_def Let_def split: option.split prod.split)
  qed
qed

lemma deliver_openai:
  assumes "connected c"
  shows "\<exists>c'. deliver (openai_event od asked) evs (u, c) = (None, (fold (take_report od) evs u, c')) \<and> connected c'
    \<and> cw_body c' = cw_body c @ concat (map writeData (map se_data (filter (passes od asked) evs)))"
  using assms
proof (induction evs arbitrary: u c)
  case (Cons ev evs)
  obtain c1 where c1: "openai_event od asked ev (u, c) = (None, (take_report od ev u, c1))" "connected c1"
    "cw_body c1 = cw_body c @ (if passes od asked ev then writeData (se_data ev) else [])"
    using openai_event_connected [OF Cons.prems] by blast
  then show ?case using Cons.IH [OF c1(2), of "take_report od ev u"] by auto
qed simp

theorem openai_stream_reaches_client:
  assumes "readSSE (up_chunks r) (up_failed r) collect [] = (None, evs)" and "connected c" and "cw_body c = []"
    and "\<forall>ev\<in>set evs. plain_chunk (se_data ev)"
  shows "\<exists>c'. openai_forwardStream od asked c r w = ((fold (take_report od) evs zero_usage, None), c', w)
    \<and> readSSE [cw_body c'] False collect [] = (None, map (\<lambda>ev. \<lparr>se_event = [], se_data = se_data ev\<rparr>) (filter (passes od asked) evs))"
proof -
  let ?shown = "map se_data (filter (passes od asked) evs)"
  have c0: "connected (sse_headers c)" "cw_body (sse_headers c) = []" using assms(2,3) by (simp_all add: sse_headers_def cw_Header_def connected_def)
  obtain c1 where d: "deliver (openai_event od asked) evs (zero_usage, sse_headers c) = (None, (fold (take_report od) evs zero_usage, c1))"
    and c1: "cw_body c1 = concat (map writeData ?shown)" using deliver_openai [OF c0(1)] c0(2) by fastforce
  have "openai_forwardStream od asked c r w = ((fold (take_report od) evs zero_usage, None), c1, w)"
    unfolding openai_forwardStream_def readSSE_deliver [OF assms(1) d] by simp
  moreover have "readSSE [cw_body c1] False collect [] = (None, map (\<lambda>b. \<lparr>se_event = [], se_data = b\<rparr>) ?shown)"
    using assms(4) c1 by (intro chunks_read_back) auto
  ultimately show ?thesis by (auto simp: comp_def)
qed

text \<open>For Anthropic, the translation of all events is the run its message theorem is about.\<close>

lemma translate_all_is_run: "translate_all (stream_translate dec) evs st = anthropic.run dec evs st"
  by (induction evs arbitrary: st) (simp_all split: prod.split option.split)

subsection \<open>Concretely\<close>

definition demo_writer :: clientWriter where
  "demo_writer = \<lparr>cw_headers = [], cw_status = None, cw_body = [], cw_plan = []\<rparr>"

definition demo_upstream :: "string list \<Rightarrow> upResponse" where
  "demo_upstream bs = \<lparr>up_resp = \<lparr>rsp_status = 200, rsp_retryAfter = []\<rparr>, up_contentType = ''text/event-stream'', up_chunks = map writeData bs, up_failed = False\<rparr>"

text \<open>A translator that repeats the data of every event but pings.\<close>

definition echo_step :: "sseEvent \<Rightarrow> nat \<Rightarrow> (string list \<times> go_error option) \<times> nat" where
  "echo_step ev n = ((if se_data ev = ''ping'' then [] else [se_data ev], None), n + 1)"

lemma demo_upstream_events:
  "\<forall>b\<in>set bs. plain_chunk b \<Longrightarrow> readSSE (up_chunks (demo_upstream bs)) (up_failed (demo_upstream bs)) collect [] = (None, map (\<lambda>b. \<lparr>se_event = [], se_data = b\<rparr>) bs)"
  using chunks_read_back [of bs "map writeData bs"] by (simp add: demo_upstream_def)

theorem translated_stream_reaches_client_witness:
  "\<exists>c'. forward_translated_stream echo_step (\<lambda>n. zero_usage\<lparr>us_completion := int n\<rparr>) (\<lambda>n. ''u'') 0 True demo_writer (demo_upstream [''a'', ''ping'', ''b'']) ()
      = ((zero_usage\<lparr>us_completion := 3\<rparr>, None), c', ())
    \<and> readSSE [cw_body c'] False collect [] = (None, map (\<lambda>b. \<lparr>se_event = [], se_data = b\<rparr>) [''a'', ''b'', ''u'', ''[DONE]''])"
proof -
  have plain: "\<forall>b\<in>set [''a'', ''ping'', ''b'', ''u'']. plain_chunk b"
    by (simp add: plain_chunk_def not_break_def CR_def LF_def sseScannerMaxLineSize_def)
  have run: "translate_all echo_step (map (\<lambda>b. \<lparr>se_event = [], se_data = b\<rparr>) [''a'', ''ping'', ''b'']) 0 = (([''a'', ''b''], None), 3)"
    by (simp add: echo_step_def)
  show ?thesis
    using translated_stream_reaches_client [OF demo_upstream_events run, of demo_writer True "\<lambda>n. ''u''" "\<lambda>n. zero_usage\<lparr>us_completion := int n\<rparr>" "()"] plain
    by (simp add: connected_def demo_writer_def sseDoneMarker_def)
qed

end
