(* ===== verification/McpBackend.thy ===== *)
theory McpBackend
  imports TargetProxy
begin

text \<open>
  One JSON-RPC call to an MCP server (mcp_federation.go): the request, the parsing of a plain or
  event-stream answer, and the fallback that opens a session, repeats the call in it and closes it.

  A server is a function \<open>be_do\<close> of the requests it has had in the exchange so far and the new request;
  an exchange threads the list of requests sent.  Encoding and decoding of JSON are parameters
  (\<open>None\<close> is an error of \<open>json.Marshal\<close> or \<open>json.Unmarshal\<close>); the deadline of a context is one of the ways
  \<open>be_do\<close> may fail.  Lower-casing is that of ASCII.
\<close>

subsection \<open>Messages\<close>

definition jsonrpcVersion :: string where "jsonrpcVersion = ''2.0''"
definition jsonrpcParseError :: int where "jsonrpcParseError = -32700"
definition jsonrpcInvalidParams :: int where "jsonrpcInvalidParams = -32602"
definition jsonrpcMethodNotFound :: int where "jsonrpcMethodNotFound = -32601"
definition jsonrpcInternalError :: int where "jsonrpcInternalError = -32603"

definition maxRequestBytes :: int where "maxRequestBytes = 10485760"
definition mcpBackendResponseMaxBytes :: int where "mcpBackendResponseMaxBytes = 4194304"
definition mcpBackendCallResponseMaxBytes :: int where "mcpBackendCallResponseMaxBytes = maxRequestBytes"

record jsonrpcRequest =
  jq_Params :: "string option"
  jq_JSONRPC :: string
  jq_Method :: string
  jq_ID :: "string option"

record jsonrpcError =
  je_Message :: string
  je_Code :: int

record jsonrpcResponse =
  jr_Error :: "jsonrpcError option"
  jr_JSONRPC :: string
  jr_Result :: "string option"
  jr_ID :: "string option"

record mcpToolsListResult =
  tl_NextCursor :: string
  tl_Tools :: "(string, string) gomap list"

record mcpToolCallParams =
  cp_Name :: string
  cp_Arguments :: "string option"
  cp_Meta :: "string option"

text \<open>What the gateway sends as parameters: those of its handshake, a cursor, or a tool call.\<close>

datatype backendParams = InitParams | ListParams string | CallParams mcpToolCallParams

record mcpCodec =
  mc_request :: "string \<Rightarrow> jsonrpcRequest option"
  mc_response :: "string \<Rightarrow> jsonrpcResponse option"
  mc_protocolVersion :: "string option \<Rightarrow> string"
  mc_toolsList :: "string \<Rightarrow> mcpToolsListResult option"
  mc_callParams :: "string option \<Rightarrow> mcpToolCallParams option"
  mc_string :: "string \<Rightarrow> string option"
  mc_encodeParams :: "backendParams \<Rightarrow> string option"
  mc_encodeRequest :: "jsonrpcRequest \<Rightarrow> string option"
  mc_encodeResponse :: "jsonrpcResponse \<Rightarrow> string option"
  mc_encodeList :: "mcpToolsListResult \<Rightarrow> string option"

record backendRequest =
  bq_method :: string
  bq_url :: string
  bq_headers :: "(string, string) gomap"
  bq_body :: string

record backendResponse =
  bk_status :: int
  bk_session :: string
  bk_contentType :: string
  bk_body :: string
  bk_readErr :: "go_error option"

datatype mcpError = McpError go_error | McpTooLarge int

fun is_canceled :: "mcpError \<Rightarrow> bool" where
  "is_canceled (McpError e) = errors_Is Canceled e"
| "is_canceled (McpTooLarge n) = False"

abbreviation mcp_error :: "string \<Rightarrow> mcpError" where
  "mcp_error msg \<equiv> McpError (OtherError msg)"

record backendEnv =
  be_codec :: mcpCodec
  be_builds :: "string \<Rightarrow> bool"
  be_do :: "backendRequest list \<Rightarrow> backendRequest \<Rightarrow> go_error + backendResponse"

definition mcpSessionHeader :: string where "mcpSessionHeader = ''Mcp-Session-Id''"

subsection \<open>Answers\<close>

fun split_blank :: "string \<Rightarrow> string \<Rightarrow> string list" where
  "split_blank acc [] = [acc]"
| "split_blank acc [c] = [acc @ [c]]"
| "split_blank acc (c # d # s) = (if c = LF \<and> d = LF then acc # split_blank [] s else split_blank (acc @ [c]) (d # s))"

definition trim_cr :: "string \<Rightarrow> string" where
  "trim_cr line = rev (dropWhile (\<lambda>c. c = CR) (rev line))"

definition data_of_line :: "string \<Rightarrow> string option" where
  "data_of_line raw =
     (let line = trim_cr raw in
      if strings_HasPrefix line ''data: '' then Some (drop 6 line)
      else if strings_HasPrefix line ''data:'' then Some (strings_TrimSpace (drop 5 line))
      else None)"

definition event_data :: "string \<Rightarrow> string list" where
  "event_data ev = List.map_filter data_of_line (strings_Split LF ev)"

definition lastSSEDataLine :: "string \<Rightarrow> string" where
  "lastSSEDataLine body =
     (case find (\<lambda>ds. ds \<noteq> []) (rev (map event_data (split_blank [] (strings_ReplaceAll body [CR, LF] [LF])))) of
        Some ds \<Rightarrow> strings_Join [LF] ds
      | None \<Rightarrow> body)"

definition parseBackendJSONRPC :: "mcpCodec \<Rightarrow> string \<Rightarrow> string \<Rightarrow> mcpError + jsonrpcResponse" where
  "parseBackendJSONRPC c contentType body =
     (let text = (if strings_Contains (map ascii_lower contentType) ''text/event-stream'' then lastSSEDataLine body else body) in
      case mc_response c text of
        None \<Rightarrow> Inl (mcp_error ''invalid JSON'')
      | Some out \<Rightarrow>
          if jr_Result out = None \<and> jr_Error out = None
          then Inl (mcp_error ''invalid JSON-RPC response: neither result nor error present'') else Inr out)"

subsection \<open>One request\<close>

definition session_header :: "string \<Rightarrow> (string, string) gomap" where
  "session_header sessionID = (if sessionID \<noteq> [] then [(mcpSessionHeader, sessionID)] else [])"

definition post_request :: "string \<Rightarrow> string \<Rightarrow> string \<Rightarrow> backendRequest" where
  "post_request targetURL sessionID body =
     \<lparr>bq_method = ''POST'', bq_url = targetURL,
      bq_headers = [(''Content-Type'', ''application/json''), (''Accept'', ''application/json, text/event-stream'')] @ session_header sessionID,
      bq_body = body\<rparr>"

definition encode_call :: "mcpCodec \<Rightarrow> string \<Rightarrow> backendParams \<Rightarrow> string option" where
  "encode_call c method params =
     Option.bind (mc_encodeParams c params) (\<lambda>raw.
       mc_encodeRequest c \<lparr>jq_Params = Some raw, jq_JSONRPC = jsonrpcVersion, jq_Method = method, jq_ID = Some (CHR 0x22 # ''federated'' @ [CHR 0x22])\<rparr>)"

definition read_answer :: "mcpCodec \<Rightarrow> int \<Rightarrow> backendResponse \<Rightarrow> mcpError + jsonrpcResponse" where
  "read_answer c maxBytes r =
     (case bk_readErr r of
        Some e \<Rightarrow> Inl (McpError e)
      | None \<Rightarrow>
          let respBody = take (nat (maxBytes + 1)) (bk_body r) in
          if bk_status r < 200 \<or> 300 \<le> bk_status r then Inl (mcp_error (''upstream returned HTTP '' @ itoa (bk_status r)))
          else if maxBytes < int (length respBody) then Inl (McpTooLarge maxBytes)
          else parseBackendJSONRPC c (bk_contentType r) respBody)"

text \<open>The answer or the error, the status (0 when there was no answer) and the session id of the answer.\<close>

definition doBackendJSONRPC :: "backendEnv \<Rightarrow> string \<Rightarrow> string \<Rightarrow> backendParams \<Rightarrow> string \<Rightarrow> int \<Rightarrow> backendRequest list \<Rightarrow>
    ((mcpError + jsonrpcResponse) \<times> int \<times> string) \<times> backendRequest list" where
  "doBackendJSONRPC env targetURL method params sessionID maxBytes h =
     (case encode_call (be_codec env) method params of
        None \<Rightarrow> ((Inl (mcp_error ''cannot encode request''), 0, []), h)
      | Some body \<Rightarrow>
          if \<not> be_builds env targetURL then ((Inl (mcp_error ''invalid URL''), 0, []), h)
          else let q = post_request targetURL sessionID body in
            (case be_do env h q of
               Inl e \<Rightarrow> ((Inl (McpError e), 0, []), h @ [q])
             | Inr r \<Rightarrow> ((read_answer (be_codec env) maxBytes r, bk_status r, bk_session r), h @ [q])))"

subsection \<open>Sessions\<close>

definition mcpBackendHandshake :: "backendEnv \<Rightarrow> string \<Rightarrow> int \<Rightarrow> backendRequest list \<Rightarrow> (mcpError + string) \<times> backendRequest list" where
  "mcpBackendHandshake env targetURL maxBytes h =
     (case doBackendJSONRPC env targetURL ''initialize'' InitParams [] maxBytes h of
        ((Inl e, _, _), h1) \<Rightarrow> (Inl e, h1)
      | ((Inr resp, _, respSessionID), h1) \<Rightarrow>
          (case jr_Error resp of
             Some je \<Rightarrow> (Inl (mcp_error (''initialize: '' @ je_Message je @ '' (code '' @ itoa (je_Code je) @ '')'')), h1)
           | None \<Rightarrow> (Inr respSessionID, h1)))"

definition close_request :: "string \<Rightarrow> string \<Rightarrow> backendRequest" where
  "close_request targetURL sessionID = \<lparr>bq_method = ''DELETE'', bq_url = targetURL, bq_headers = [(mcpSessionHeader, sessionID)], bq_body = []\<rparr>"

text \<open>Its outcome is only logged.\<close>

definition mcpBackendCloseSession :: "backendEnv \<Rightarrow> string \<Rightarrow> string \<Rightarrow> backendRequest list \<Rightarrow> backendRequest list" where
  "mcpBackendCloseSession env targetURL sessionID h = (if be_builds env targetURL then h @ [close_request targetURL sessionID] else h)"

definition initialized_body :: "mcpCodec \<Rightarrow> string option" where
  "initialized_body c = mc_encodeRequest c \<lparr>jq_Params = None, jq_JSONRPC = jsonrpcVersion, jq_Method = ''notifications/initialized'', jq_ID = None\<rparr>"

definition mcpBackendSendInitializedNotification :: "backendEnv \<Rightarrow> string \<Rightarrow> string \<Rightarrow> backendRequest list \<Rightarrow> backendRequest list" where
  "mcpBackendSendInitializedNotification env targetURL sessionID h =
     (case initialized_body (be_codec env) of
        None \<Rightarrow> h
      | Some body \<Rightarrow> if be_builds env targetURL then h @ [post_request targetURL sessionID body] else h)"

definition mcpSessionRequiredSignal :: "string \<Rightarrow> int \<Rightarrow> mcpError + jsonrpcResponse \<Rightarrow> bool" where
  "mcpSessionRequiredSignal method status res =
     (status = 400 \<or> status = 404
      \<or> (case res of
           Inl e \<Rightarrow> False
         | Inr resp \<Rightarrow> (case jr_Error resp of
               None \<Rightarrow> False
             | Some je \<Rightarrow> method = ''tools/list'' \<or> strings_Contains (map ascii_lower (je_Message je)) ''session'')))"

definition mcpBackendCall :: "backendEnv \<Rightarrow> string \<Rightarrow> string \<Rightarrow> backendParams \<Rightarrow> int \<Rightarrow> backendRequest list \<Rightarrow>
    (mcpError + jsonrpcResponse) \<times> backendRequest list" where
  "mcpBackendCall env targetURL method params maxBytes h =
     (case doBackendJSONRPC env targetURL method params [] maxBytes h of
        ((res, status, _), h1) \<Rightarrow>
          if (case res of Inr resp \<Rightarrow> jr_Error resp = None | Inl e \<Rightarrow> False) \<or> \<not> mcpSessionRequiredSignal method status res then (res, h1)
          else (case mcpBackendHandshake env targetURL maxBytes h1 of
             (Inl e, h2) \<Rightarrow> (res, h2)
           | (Inr sessionID, h2) \<Rightarrow>
               (case doBackendJSONRPC env targetURL method params sessionID maxBytes (mcpBackendSendInitializedNotification env targetURL sessionID h2) of
                  ((retry, _, _), h3) \<Rightarrow> (retry, if sessionID \<noteq> [] then mcpBackendCloseSession env targetURL sessionID h3 else h3))))"

subsection \<open>Sessions are closed\<close>

text \<open>Whether a request is a session-less post, or one in session \<open>sid\<close>.\<close>

definition posts :: "string \<Rightarrow> string \<Rightarrow> backendRequest \<Rightarrow> bool" where
  "posts targetURL sid q \<longleftrightarrow> (\<exists>body. q = post_request targetURL sid body)"

lemma do_sends:
  assumes "doBackendJSONRPC env url method params sid maxBytes h = (r, h')"
  shows "\<exists>qs. h' = h @ qs \<and> list_all (posts url sid) qs \<and> length qs \<le> 1"
  using assms by (auto simp: doBackendJSONRPC_def posts_def Let_def split: option.splits if_splits sum.splits)

lemma handshake_sends:
  assumes "mcpBackendHandshake env url maxBytes h = (r, h')"
  shows "\<exists>qs. h' = h @ qs \<and> list_all (posts url []) qs \<and> length qs \<le> 1"
proof -
  obtain a b c h1 where d: "doBackendJSONRPC env url ''initialize'' InitParams [] maxBytes h = ((a, b, c), h1)" by (metis prod_cases3 surj_pair)
  have "h' = h1" using assms d by (auto simp: mcpBackendHandshake_def split: sum.splits option.splits)
  then show ?thesis using do_sends [OF d] by blast
qed

lemma handshake_session:
  assumes "mcpBackendHandshake env url maxBytes h = (Inr sid, h')" shows "be_builds env url"
  using assms by (auto simp: mcpBackendHandshake_def doBackendJSONRPC_def split: sum.splits option.splits if_splits)

lemma notification_sends:
  "\<exists>qs. mcpBackendSendInitializedNotification env url sid h = h @ qs \<and> list_all (posts url sid) qs \<and> length qs \<le> 1"
  by (auto simp: mcpBackendSendInitializedNotification_def posts_def split: option.splits)

text \<open>A call outside a session and a handshake come first; if the server opened a session, the requests in
  it follow and the last request closes it.\<close>

definition exchange :: "string \<Rightarrow> backendRequest list \<Rightarrow> bool" where
  "exchange url qs \<longleftrightarrow> (\<exists>free sid ins. length free \<le> 2 \<and> length ins \<le> 2 \<and> list_all (posts url []) free \<and> list_all (posts url sid) ins
     \<and> qs = free @ ins @ (if sid \<noteq> [] then [close_request url sid] else []))"

lemma mcp_call_exchange:
  assumes "mcpBackendCall env url method params maxBytes h = (r, h')"
  shows "\<exists>qs. h' = h @ qs \<and> exchange url qs"
proof -
  obtain res status s h1 where d: "doBackendJSONRPC env url method params [] maxBytes h = ((res, status, s), h1)" by (metis prod_cases3 surj_pair)
  obtain hs h2 where hs: "mcpBackendHandshake env url maxBytes h1 = (hs, h2)" by fastforce
  obtain q1 where q1: "h1 = h @ q1" "list_all (posts url []) q1" "length q1 \<le> 1" using do_sends [OF d] by blast
  obtain q2 where q2: "h2 = h1 @ q2" "list_all (posts url []) q2" "length q2 \<le> 1" using handshake_sends [OF hs] by blast
  have free: "exchange url q1" "exchange url (q1 @ q2)" unfolding exchange_def using q1 q2
    by - (rule exI [of _ q1] exI [of _ "q1 @ q2"], rule exI [of _ "[]"], rule exI [of _ "[]"], simp)+
  show ?thesis
  proof (cases "(case res of Inr resp \<Rightarrow> jr_Error resp = None | Inl e \<Rightarrow> False) \<or> \<not> mcpSessionRequiredSignal method status res")
    case True
    then have "h' = h1" using assms d by (simp add: mcpBackendCall_def)
    then show ?thesis using q1(1) free(1) by blast
  next
    case False
    show ?thesis
    proof (cases hs)
      case (Inl e)
      then have "h' = h2" using assms d hs False by (simp add: mcpBackendCall_def)
      then show ?thesis using q1(1) q2(1) free(2) by auto
    next
      case (Inr sid)
      let ?h = "mcpBackendSendInitializedNotification env url sid h2"
      obtain a b c h3 where d3: "doBackendJSONRPC env url method params sid maxBytes ?h = ((a, b, c), h3)" by (metis prod_cases3 surj_pair)
      obtain q3 where q3: "?h = h2 @ q3" "list_all (posts url sid) q3" "length q3 \<le> 1" using notification_sends by blast
      obtain q4 where q4: "h3 = ?h @ q4" "list_all (posts url sid) q4" "length q4 \<le> 1" using do_sends [OF d3] by blast
      have "h' = h3 @ (if sid \<noteq> [] then [close_request url sid] else [])"
        using assms d hs False Inr d3 handshake_session [OF hs [unfolded Inr]] by (auto simp: mcpBackendCall_def mcpBackendCloseSession_def)
      then have "h' = h @ (q1 @ q2) @ (q3 @ q4) @ (if sid \<noteq> [] then [close_request url sid] else [])" using q1(1) q2(1) q3(1) q4(1) by simp
      moreover have "exchange url ((q1 @ q2) @ (q3 @ q4) @ (if sid \<noteq> [] then [close_request url sid] else []))"
        unfolding exchange_def using q1 q2 q3 q4 by - (rule exI [of _ "q1 @ q2"], rule exI [of _ sid], rule exI [of _ "q3 @ q4"], simp)
      ultimately show ?thesis by blast
    qed
  qed
qed


text \<open>A server that answers a call only in a session.\<close>

definition session_codec :: mcpCodec where
  "session_codec = \<lparr>mc_request = (\<lambda>s. None), mc_response = (\<lambda>s. Some \<lparr>jr_Error = None, jr_JSONRPC = ''2.0'', jr_Result = Some s, jr_ID = None\<rparr>),
     mc_protocolVersion = (\<lambda>_. []), mc_toolsList = (\<lambda>s. None), mc_callParams = (\<lambda>p. None), mc_string = Some, mc_encodeParams = (\<lambda>p. Some []),
     mc_encodeRequest = (\<lambda>q. Some (jq_Method q)), mc_encodeResponse = jr_Result, mc_encodeList = (\<lambda>l. None)\<rparr>"

definition session_server :: backendEnv where
  "session_server = \<lparr>be_codec = session_codec, be_builds = (\<lambda>_. True),
     be_do = (\<lambda>h q. Inr \<lparr>bk_status = (if bq_body q = ''tools/list'' \<and> map_of (bq_headers q) mcpSessionHeader = None then 400 else 200),
       bk_session = (if bq_body q = ''initialize'' then ''s1'' else []), bk_contentType = [], bk_body = ''ok'', bk_readErr = None\<rparr>)\<rparr>"


lemma exchange_url: "exchange url qs \<Longrightarrow> list_all (\<lambda>q. bq_url q = url) qs \<and> length qs \<le> 5"
proof -
  assume "exchange url qs"
  then obtain free sid ins where e: "length free \<le> 2" "length ins \<le> 2" "list_all (posts url []) free" "list_all (posts url sid) ins"
    "qs = free @ ins @ (if sid \<noteq> [] then [close_request url sid] else [])" unfolding exchange_def by blast
  have "list_all (posts url s) xs \<Longrightarrow> list_all (\<lambda>q. bq_url q = url) xs" for s xs
    by (auto simp: list_all_iff posts_def post_request_def)
  with e show ?thesis by (auto simp: close_request_def)
qed

subsection \<open>Event-stream answers\<close>

lemma replace_absent: "c \<notin> set s \<Longrightarrow> replace_from 0 n (c # old) new s = s"
  by (induction s) (auto simp: strings_HasPrefix_def)

lemma split_blank_event: "list_all not_break s \<Longrightarrow> split_blank acc (s @ [LF, LF]) = [acc @ s, []]"
proof (induction s arbitrary: acc)
  case (Cons c s)
  have "c \<noteq> LF" using Cons.prems by (simp add: not_break_def)
  then have "split_blank acc (c # s @ [LF, LF]) = split_blank (acc @ [c]) (s @ [LF, LF])" by (cases s) auto
  then show ?case using Cons by simp
qed simp

lemma split_line: "LF \<notin> set s \<Longrightarrow> strings_Split LF s = [s]"
  by (induction s) auto

lemma trim_cr_plain: "CR \<notin> set s \<Longrightarrow> trim_cr s = s"
  by (cases "rev s") (auto simp: trim_cr_def)

lemma lastSSEDataLine_writeData:
  assumes "list_all not_break b"
  shows "lastSSEDataLine (writeData b) = b"
proof -
  have cr: "CR \<notin> set b" "LF \<notin> set b" using assms by (auto simp: list_all_iff not_break_def)
  have w: "writeData b = (''data: '' @ b) @ [LF, LF]" using assms by (simp add: writeData_def sseDataPrefix_def)
  have nb: "list_all not_break (''data: '' @ b)" using assms by (simp add: not_break_def CR_def LF_def)
  have "strings_ReplaceAll (writeData b) [CR, LF] [LF] = writeData b"
    unfolding strings_ReplaceAll_def by (rule replace_absent) (use cr in \<open>auto simp: w CR_def LF_def\<close>)
  moreover have "event_data (''data: '' @ b) = [b]"
    using split_line [of "''data: '' @ b"] trim_cr_plain [of "''data: '' @ b"] cr
    by (simp add: event_data_def List.map_filter_def data_of_line_def strings_HasPrefix_def CR_def LF_def)
  moreover have "event_data [] = []" by (simp add: event_data_def List.map_filter_def data_of_line_def trim_cr_def strings_HasPrefix_def)
  ultimately show ?thesis using split_blank_event [OF nb, of "[]"] by (simp add: lastSSEDataLine_def w)
qed

text \<open>The gateway reads an answer another gateway sent as an event stream as if it had been sent as JSON.\<close>

theorem event_stream_answer_read_back:
  assumes "list_all not_break b"
  shows "parseBackendJSONRPC c ''text/event-stream'' (writeData b) = parseBackendJSONRPC c ''application/json'' b"
proof -
  have "strings_Contains (map ascii_lower ''text/event-stream'') ''text/event-stream''" "\<not> strings_Contains (map ascii_lower ''application/json'') ''text/event-stream''"
    by code_simp+
  then show ?thesis using lastSSEDataLine_writeData [OF assms] by (simp add: parseBackendJSONRPC_def)
qed

end
