(* ===== verification/MediaRoutes.thy ===== *)
theory MediaRoutes
  imports Unified Adapters McpBackend
begin

text \<open>
  The media routes (routes_media.go) and the messages route (routes_messages.go): images, speech,
  transcription and the Anthropic messages API in front of any provider.  They compose admission, the
  bounded reading of bodies, resolution, the metered call and the adapters.

  The multipart format is a parameter: what the reader yields for a body and a boundary (the parts and
  whether it then fails), and what the writer makes of parts.  The latency sample of a call is read from
  the network's state, and is absent when nothing asks for it.  Log lines, the latency histogram and the
  in-flight learner around a call are left out.
\<close>

subsection \<open>Bodies\<close>

datatype mediaReply =
    MediaLimit limitViolation
  | MediaRefused int string string
  | MediaResolve resolveError
  | MediaFailed resolved go_error
  | MediaServed resolved

abbreviation bad_media :: "string \<Rightarrow> mediaReply" where
  "bad_media msg \<equiv> MediaRefused 400 ''invalid_request_error'' msg"

definition maxMultipartModelFieldBytes :: nat where "maxMultipartModelFieldBytes = 4096"

definition readAdmittedCapped :: "('w, 'c) gatewayEnv \<Rightarrow> gatewayConfig \<Rightarrow> string \<times> bool \<Rightarrow> ('s, 'c, 'w) gateway \<Rightarrow> (mediaReply + string) \<times> ('s, 'c, 'w) gateway" where
  "readAdmittedCapped env cfg src g =
     (case acquireBodyAdmission env cfg g of
        (False, g1) \<Rightarrow> (Inl (MediaRefused 503 ''server_error'' ''capacity''), g1)
      | (True, g1) \<Rightarrow>
          ((case readCapped src (nat maxRequestBytes) of
              None \<Rightarrow> Inl (bad_media ''cannot read request body'')
            | Some (body, True) \<Rightarrow> Inl (MediaRefused 413 ''invalid_request_error'' ''request body too large'')
            | Some (body, False) \<Rightarrow> Inr body),
           g1\<lparr>gw_bodyInFlight := gw_bodyInFlight g1 - 1\<rparr>))"

definition decodeMediaJSONRequest :: "(string \<Rightarrow> json option) \<Rightarrow> ('w, 'c) gatewayEnv \<Rightarrow> gatewayConfig \<Rightarrow> string \<times> bool \<Rightarrow> ('s, 'c, 'w) gateway \<Rightarrow>
    (mediaReply + jobject \<times> string) \<times> ('s, 'c, 'w) gateway" where
  "decodeMediaJSONRequest decode env cfg src g =
     (case readAdmittedCapped env cfg src g of
        (Inl r, g1) \<Rightarrow> (Inl r, g1)
      | (Inr body, g1) \<Rightarrow>
          ((case decode body of
              Some (JObject req) \<Rightarrow> if jstr req ''model'' = [] then Inl (bad_media ''model is required'') else Inr (req, jstr req ''model'')
            | Some JNull \<Rightarrow> Inl (bad_media ''model is required'')
            | _ \<Rightarrow> Inl (bad_media ''invalid JSON body'')), g1))"

definition resolveMediaModel :: "group \<Rightarrow> string \<Rightarrow> ('s, 'c, 'w) gateway \<Rightarrow> (mediaReply + resolved) \<times> ('s, 'c, 'w) gateway" where
  "resolveMediaModel grp model g =
     (case resolve (gw_registry g) model grp of
        (Inl e, m1) \<Rightarrow> (Inl (MediaResolve e), g\<lparr>gw_registry := m1\<rparr>)
      | (Inr r, m1) \<Rightarrow> (Inr r, g\<lparr>gw_registry := m1\<rparr>))"

definition recordMediaModelUsage :: "gtime \<Rightarrow> resolved \<Rightarrow> latencySample option \<Rightarrow> 's limiter \<Rightarrow> 's limiter" where
  "recordMediaModelUsage now r lat l =
     accountWith now now (withModelScope [] (providerModelScopeID (rs_provider r) (rs_upstreamModel r))) zero_usage 0
       ((blank_extras (rs_provider r))\<lparr>ax_lat := (case lat of Some s \<Rightarrow> s | None \<Rightarrow> no_latency), ax_hasLat := lat \<noteq> None\<rparr>) l"

text \<open>The call of an adapter and what follows it; \<open>call\<close> is one operation of the adapter of a provider.\<close>

definition media_call :: "('w, 'c) gatewayEnv \<Rightarrow> ('w \<Rightarrow> latencySample option) \<Rightarrow> string \<Rightarrow> limitScope list \<Rightarrow> resolved \<Rightarrow>
    (clientWriter \<Rightarrow> 'w \<Rightarrow> 'w served) \<Rightarrow> clientWriter \<Rightarrow> ('s, 'c, 'w) gateway \<Rightarrow> mediaReply \<times> clientWriter \<times> ('s, 'c, 'w) gateway" where
  "media_call env latency route scopes r call c g =
     (case call c (gw_world g) of ((u, err), c1, w1) \<Rightarrow>
        let now = ge_now env w1; g1 = g\<lparr>gw_world := w1\<rparr> in
        case err of
          Some e \<Rightarrow> (MediaFailed r e, c1, g1\<lparr>gw_events := recordUpstreamEvent now (storeLatched now (gw_limiter g)) scopes (rs_upstreamModel r) (rs_provider r) route (Some e) (gw_events g)\<rparr>)
        | None \<Rightarrow> (MediaServed r, c1, g1\<lparr>gw_limiter := recordMediaModelUsage now r (latency w1) (gw_limiter g)\<rparr>))"

subsection \<open>Images and speech\<close>

record 'w mediaEnv =
  md_net :: "'w netEnv"
  md_decoders :: decoders
  md_adapter :: "string \<Rightarrow> adapter"
  md_json :: "string \<Rightarrow> json option"
  md_num :: "float64 \<Rightarrow> string"
  md_latency :: "'w \<Rightarrow> latencySample option"

text \<open>Admission, the decoded body and the resolved model; the request then names the upstream's model.\<close>

definition media_json_plan :: "('w, 'c) gatewayEnv \<Rightarrow> gatewayConfig \<Rightarrow> 'w mediaEnv \<Rightarrow> string \<Rightarrow> user \<Rightarrow> group \<Rightarrow> string \<times> bool \<Rightarrow> ('s, 'c, 'w) gateway \<Rightarrow>
    (mediaReply + limitScope list \<times> jobject \<times> resolved) \<times> ('s, 'c, 'w) gateway" where
  "media_json_plan env cfg md route u grp src g =
     (case admitRequestForRoute env u grp route g of
        (Inl v, g1) \<Rightarrow> (Inl (MediaLimit v), g1)
      | (Inr scopes, g1) \<Rightarrow>
          (case decodeMediaJSONRequest (md_json md) env cfg src g1 of
             (Inl r, g2) \<Rightarrow> (Inl r, g2)
           | (Inr (req, model), g2) \<Rightarrow>
               (case resolveMediaModel grp model g2 of
                  (Inl r, g3) \<Rightarrow> (Inl r, g3)
                | (Inr r, g3) \<Rightarrow> (Inr (scopes, AList.update ''model'' (JString (rs_upstreamModel r)) req, r), g3))))"

definition handleImagesGenerations :: "('w, 'c) gatewayEnv \<Rightarrow> gatewayConfig \<Rightarrow> 'w mediaEnv \<Rightarrow> user \<Rightarrow> group \<Rightarrow> string \<times> bool \<Rightarrow> clientWriter \<Rightarrow> ('s, 'c, 'w) gateway \<Rightarrow>
    mediaReply \<times> clientWriter \<times> ('s, 'c, 'w) gateway" where
  "handleImagesGenerations env cfg md u grp src c g =
     (case media_json_plan env cfg md ''images'' u grp src g of
        (Inl r, g1) \<Rightarrow> (r, c, g1)
      | (Inr (scopes, req, r), g1) \<Rightarrow>
          media_call env (md_latency md) ''images'' scopes r
            (imagesGeneration (md_net md) (md_decoders md) (md_adapter md (rs_provider r)) req) c g1)"

definition handleAudioSpeech :: "('w, 'c) gatewayEnv \<Rightarrow> gatewayConfig \<Rightarrow> 'w mediaEnv \<Rightarrow> user \<Rightarrow> group \<Rightarrow> string \<times> bool \<Rightarrow> clientWriter \<Rightarrow> ('s, 'c, 'w) gateway \<Rightarrow>
    mediaReply \<times> clientWriter \<times> ('s, 'c, 'w) gateway" where
  "handleAudioSpeech env cfg md u grp src c g =
     (case media_json_plan env cfg md ''audio/speech'' u grp src g of
        (Inl r, g1) \<Rightarrow> (r, c, g1)
      | (Inr (scopes, req, r), g1) \<Rightarrow>
          media_call env (md_latency md) ''audio/speech'' scopes r
            (audioSpeech (md_net md) (md_adapter md (rs_provider r)) (json_Marshal (md_num md) (JObject (without_alias req))) ''application/json'') c g1)"

subsection \<open>Transcriptions\<close>

record multipartPart =
  mp_header :: string
  mp_name :: string
  mp_content :: string

record multipartOps =
  mo_mediaType :: "string \<Rightarrow> (string \<times> string) option"
  mo_read :: "string \<Rightarrow> string \<Rightarrow> multipartPart list \<times> bool"
  mo_write :: "multipartPart list \<Rightarrow> string \<times> string \<times> string"

datatype multipartError = DuplicateModelField | MalformedMultipart

text \<open>The loop over the parts; \<open>found\<close> is the model field seen so far.\<close>

fun extract_loop :: "multipartPart list \<Rightarrow> bool \<Rightarrow> string option \<Rightarrow> multipartError + string" where
  "extract_loop [] failed found = (if failed then Inl MalformedMultipart else Inr (case found of Some m \<Rightarrow> m | None \<Rightarrow> []))"
| "extract_loop (p # ps) failed found =
     (if mp_name p \<noteq> ''model'' then extract_loop ps failed found
      else if found \<noteq> None then Inl DuplicateModelField
      else extract_loop ps failed (Some (take maxMultipartModelFieldBytes (mp_content p))))"

definition extractMultipartModel :: "multipartOps \<Rightarrow> string \<Rightarrow> string \<Rightarrow> multipartError + string" where
  "extractMultipartModel mo body boundary = (case mo_read mo body boundary of (ps, failed) \<Rightarrow> extract_loop ps failed None)"

definition rewrite_part :: "string \<Rightarrow> multipartPart \<Rightarrow> multipartPart" where
  "rewrite_part model p = (if mp_name p = ''model'' then p\<lparr>mp_content := model\<rparr> else p)"

text \<open>The rebuilt body, its content type and the boundary it uses.\<close>

definition rewriteMultipartModel :: "multipartOps \<Rightarrow> string \<Rightarrow> string \<Rightarrow> string \<Rightarrow> (string \<times> string \<times> string) option" where
  "rewriteMultipartModel mo body boundary model =
     (case mo_read mo body boundary of (ps, failed) \<Rightarrow> if failed then None else Some (mo_write mo (map (rewrite_part model) ps)))"

definition transcription_model :: "multipartOps \<Rightarrow> string \<Rightarrow> string \<Rightarrow> mediaReply + (string \<times> string)" where
  "transcription_model mo body contentType =
     (case mo_mediaType mo contentType of
        None \<Rightarrow> Inl (bad_media ''invalid Content-Type'')
      | Some (mediaType, boundary) \<Rightarrow>
          if mediaType \<noteq> ''multipart/form-data'' then Inl (bad_media ''Content-Type must be multipart/form-data'')
          else if boundary = [] then Inl (bad_media ''missing multipart boundary'')
          else (case extractMultipartModel mo body boundary of
                  Inl DuplicateModelField \<Rightarrow> Inl (bad_media ''duplicate model field'')
                | Inl MalformedMultipart \<Rightarrow> Inl (bad_media ''malformed multipart body'')
                | Inr model \<Rightarrow> if model = [] then Inl (bad_media ''model is required'') else Inr (model, boundary)))"

text \<open>What is uploaded: the client's body when the model keeps its name, else the rebuilt one.\<close>

definition transcription_upload :: "multipartOps \<Rightarrow> string \<Rightarrow> string \<Rightarrow> string \<Rightarrow> string \<Rightarrow> string \<Rightarrow> (string \<times> string \<times> string) option" where
  "transcription_upload mo body contentType boundary requested upstreamModel =
     (if upstreamModel \<noteq> requested then rewriteMultipartModel mo body boundary upstreamModel else Some (body, contentType, boundary))"

definition handleAudioTranscriptions :: "('w, 'c) gatewayEnv \<Rightarrow> gatewayConfig \<Rightarrow> 'w mediaEnv \<Rightarrow> multipartOps \<Rightarrow> user \<Rightarrow> group \<Rightarrow> string \<Rightarrow> string \<times> bool \<Rightarrow>
    clientWriter \<Rightarrow> ('s, 'c, 'w) gateway \<Rightarrow> mediaReply \<times> clientWriter \<times> ('s, 'c, 'w) gateway" where
  "handleAudioTranscriptions env cfg md mo u grp contentType src c g =
     (case admitRequestForRoute env u grp ''audio/transcriptions'' g of
        (Inl v, g1) \<Rightarrow> (MediaLimit v, c, g1)
      | (Inr scopes, g1) \<Rightarrow>
          (case readAdmittedCapped env cfg src g1 of
             (Inl r, g2) \<Rightarrow> (r, c, g2)
           | (Inr body, g2) \<Rightarrow>
               (case transcription_model mo body contentType of
                  Inl r \<Rightarrow> (r, c, g2)
                | Inr (requested, boundary) \<Rightarrow>
                    (case resolveMediaModel grp requested g2 of
                       (Inl r, g3) \<Rightarrow> (r, c, g3)
                     | (Inr r, g3) \<Rightarrow>
                         (case transcription_upload mo body contentType boundary requested (rs_upstreamModel r) of
                            None \<Rightarrow> (MediaRefused 500 ''server_error'' ''internal error'', c, g3)
                          | Some (upload, uploadType, _) \<Rightarrow>
                              media_call env (md_latency md) ''audio/transcriptions'' scopes r
                                (audioTranscription (md_net md) (md_adapter md (rs_provider r)) upload uploadType) c g3)))))"

subsection \<open>Messages\<close>

definition isStreamingRequested :: "jobject \<Rightarrow> bool" where
  "isStreamingRequested req = (case map_of req ''stream'' of None \<Rightarrow> False | Some v \<Rightarrow> v \<noteq> JNull \<and> v \<noteq> JBool False)"

text \<open>\<open>tokens\<close> is the token reader: the keys of an object with the raw text of their values, in their order, and \<open>None\<close> where reading them fails.\<close>

definition rewriteModelField :: "(string \<Rightarrow> (string \<times> string) list option) \<Rightarrow> string \<Rightarrow> string \<Rightarrow> string option" where
  "rewriteModelField tokens raw newModel =
     map_option (\<lambda>fs. ''{'' @ strings_Join '','' (map (\<lambda>(k, v). marshal_string k @ '':'' @ (if k = ''model'' then marshal_string newModel else v)) fs) @ ''}'') (tokens raw)"

text \<open>The client's headers are pairs of a canonical name and a value; a name may occur more than once.\<close>

definition anthropicPassthroughForwardedHeaders :: "string list" where
  "anthropicPassthroughForwardedHeaders = [''Anthropic-Beta'']"

definition anthropic_headers :: "adapter \<Rightarrow> bool \<Rightarrow> (string \<times> string) list \<Rightarrow> (string, string) gomap" where
  "anthropic_headers a strip clientHeaders =
     injectAuth a ((''Content-Type'', ''application/json'') #
       concat (map (\<lambda>name. if strip \<and> name = ''Anthropic-Beta'' then [] else filter (\<lambda>(k, v). k = name) clientHeaders)
         anthropicPassthroughForwardedHeaders))"

definition callAnthropicMessagesPassthrough :: "'w netEnv \<Rightarrow> anthropicDecoder \<Rightarrow> (string \<Rightarrow> (string \<times> string) list option) \<Rightarrow> bool \<Rightarrow> (string \<times> string) list \<Rightarrow> adapter \<Rightarrow> jobject \<Rightarrow> string \<Rightarrow>
    clientWriter \<Rightarrow> 'w \<Rightarrow> 'w served" where
  "callAnthropicMessagesPassthrough env dec tokens strip clientHeaders a req requestedModel c w =
     call_upstream env a (post_json (ad_num dec) a ''/v1/messages'' (anthropic_headers a strip clientHeaders) (without_alias req)) c w (\<lambda>r w1.
       case read_all r of
         None \<Rightarrow> fails (ResponseTranslationError (OtherError ''read response body'')) c w1
       | Some raw \<Rightarrow>
           let billed = (case ad_response dec raw of
                 None \<Rightarrow> zero_usage
               | Some p \<Rightarrow> zero_usage\<lparr>us_prompt := totalInputTokens (ar_Usage p), us_completion := au_OutputTokens (ar_Usage p)\<rparr>)
           in (case rewriteModelField tokens raw requestedModel of
                 None \<Rightarrow> ((billed, Some (ResponseTranslationError (OtherError ''response is not a JSON object''))), c, w1)
               | Some out \<Rightarrow>
                   ((billed, None), snd (cw_Write out (cw_WriteHeader (rsp_status (up_resp r))
                      (cw_Header ''Content-Type'' (if up_contentType r \<noteq> [] then up_contentType r else ''application/json'') c))), w1)))"

definition newMessagesResponseRecorder :: clientWriter where
  "newMessagesResponseRecorder = \<lparr>cw_headers = [], cw_status = None, cw_body = [], cw_plan = []\<rparr>"

definition callTranslatedMessages :: "'w netEnv \<Rightarrow> decoders \<Rightarrow> (string \<Rightarrow> openAIChatResponseBody option) \<Rightarrow> adapter \<Rightarrow> jobject \<Rightarrow> string \<Rightarrow> clientWriter \<Rightarrow> 'w \<Rightarrow> 'w served" where
  "callTranslatedMessages env dc decodeResponse a req requestedModel c w =
     (let dec = dc_anthropic dc in
      case openAIRequestFromAnthropic (ad_num dec) req of
        Inl e \<Rightarrow> fails e c w
      | Inr (openaiReq, dropped) \<Rightarrow>
          (case chatCompletion env dc a openaiReq newMessagesResponseRecorder w of
             ((u, Some e), rec, w1) \<Rightarrow> ((u, Some e), c, w1)
           | ((u, None), rec, w1) \<Rightarrow>
               (case anthropicResponseFromOpenAI (ad_any dec) decodeResponse (cw_body rec) requestedModel of
                  Inl e \<Rightarrow> ((u, Some (ResponseTranslationError e)), c, w1)
                | Inr out \<Rightarrow>
                    ((u, None), snd (cw_Write (json_Marshal (ad_num dec) (JObject out))
                       (cw_WriteHeader (case cw_status rec of Some s \<Rightarrow> s | None \<Rightarrow> 200) (cw_Header ''Content-Type'' ''application/json'' c))), w1))))"

definition messages_call :: "'w netEnv \<Rightarrow> decoders \<Rightarrow> (string \<Rightarrow> openAIChatResponseBody option) \<Rightarrow> (string \<Rightarrow> (string \<times> string) list option) \<Rightarrow> bool \<Rightarrow> (string \<times> string) list \<Rightarrow>
    adapter \<Rightarrow> jobject \<Rightarrow> string \<Rightarrow> clientWriter \<Rightarrow> 'w \<Rightarrow> 'w served" where
  "messages_call env dc decodeResponse tokens strip clientHeaders a req requestedModel =
     (if ap_type a = ProviderAnthropic then callAnthropicMessagesPassthrough env (dc_anthropic dc) tokens strip clientHeaders a req requestedModel
      else callTranslatedMessages env dc decodeResponse a req requestedModel)"

text \<open>The handler around it: unlike the other metered routes it looks at the body before it admits the request.\<close>

definition handleMessages :: "('w, 'c) gatewayEnv \<Rightarrow> gatewayConfig \<Rightarrow> user \<Rightarrow> group \<Rightarrow> (string \<Rightarrow> json option) \<Rightarrow> string \<times> bool \<Rightarrow> ('s, 'c, 'w) gateway \<Rightarrow>
    (mediaReply + reply) \<times> ('s, 'c, 'w) gateway" where
  "handleMessages env cfg u grp decode src g =
     (case readAndDecodeUnifiedBody env cfg ''messages'' src g of
        (Inl r, g1) \<Rightarrow> (Inr r, g1)
      | (Inr rq, g1) \<Rightarrow>
          if uq_model rq = [] then (Inr ModelRequired, g1)
          else if (case decode (fst src) of Some (JObject req) \<Rightarrow> isStreamingRequested req | _ \<Rightarrow> False)
          then (Inl (bad_media ''streaming is not yet supported on /v1/messages''), g1)
          else (case admitRequestForRoute env u grp ''messages'' g1 of
                  (Inl v, g2) \<Rightarrow> (Inr (LimitRefused v), g2)
                | (Inr scopes, g2) \<Rightarrow> (case runMeteredCall env cfg rq grp scopes g2 of (r, g3) \<Rightarrow> (Inr r, g3))))"

subsection \<open>Error envelopes\<close>

definition write_encoded :: "(float64 \<Rightarrow> string) \<Rightarrow> int \<Rightarrow> jobject \<Rightarrow> clientWriter \<Rightarrow> clientWriter" where
  "write_encoded num status envelope c =
     snd (cw_Write (json_Marshal num (JObject envelope) @ [CHR 0x0A]) (cw_WriteHeader status (cw_Header ''Content-Type'' ''application/json'' c)))"

record providerHTTPError =
  ph_status :: int
  ph_body :: string

definition newProviderHTTPError :: "upResponse \<Rightarrow> providerHTTPError" where
  "newProviderHTTPError r = \<lparr>ph_status = rsp_status (up_resp r), ph_body = take maxResponseBytes (concat (up_chunks r))\<rparr>"

definition decodeUpstreamErrorBody :: "(string \<Rightarrow> json option) \<Rightarrow> providerHTTPError \<Rightarrow> json" where
  "decodeUpstreamErrorBody decode perr = (case decode (ph_body perr) of Some v \<Rightarrow> v | None \<Rightarrow> JString (ph_body perr))"

definition writeProviderUpstreamError :: "(string \<Rightarrow> json option) \<Rightarrow> (float64 \<Rightarrow> string) \<Rightarrow> string \<Rightarrow> providerHTTPError \<Rightarrow> clientWriter \<Rightarrow> clientWriter" where
  "writeProviderUpstreamError decode num providerName perr =
     write_encoded num (ph_status perr) [(''error'', JObject [(''message'', JString (providerName @ '' upstream error'')), (''type'', JString ''upstream_error''),
       (''code'', JString (itoa (ph_status perr))), (''upstream'', decodeUpstreamErrorBody decode perr)])]"

definition writeAnthropicError :: "(float64 \<Rightarrow> string) \<Rightarrow> int \<Rightarrow> string \<Rightarrow> string \<Rightarrow> clientWriter \<Rightarrow> clientWriter" where
  "writeAnthropicError num status errType msg =
     write_encoded num status [(''type'', JString ''error''), (''error'', JObject [(''type'', JString errType), (''message'', JString msg)])]"

definition writeAnthropicProviderUpstreamError :: "(string \<Rightarrow> json option) \<Rightarrow> (float64 \<Rightarrow> string) \<Rightarrow> string \<Rightarrow> providerHTTPError \<Rightarrow> clientWriter \<Rightarrow> clientWriter" where
  "writeAnthropicProviderUpstreamError decode num providerName perr =
     write_encoded num (ph_status perr) [(''type'', JString ''error''),
       (''error'', JObject [(''type'', JString ''upstream_error''), (''message'', JString (providerName @ '' upstream error'')),
         (''code'', JString (itoa (ph_status perr))), (''upstream'', decodeUpstreamErrorBody decode perr)])]"

subsection \<open>The uploaded model is the resolved one\<close>

lemma extract_loop_no_model:
  "(\<forall>p\<in>set ps. mp_name p \<noteq> ''model'') \<Longrightarrow> extract_loop ps failed found = extract_loop [] failed found"
  by (induction ps) auto

text \<open>A model is read off a body exactly when reading does not fail and one part at most is named so.\<close>

lemma extract_loop_Inr:
  "extract_loop ps failed found = Inr m \<longleftrightarrow>
     \<not> failed \<and> (case found of
        Some m' \<Rightarrow> m = m' \<and> filter (\<lambda>p. mp_name p = ''model'') ps = []
      | None \<Rightarrow> (filter (\<lambda>p. mp_name p = ''model'') ps = [] \<and> m = []
          \<or> (\<exists>p. filter (\<lambda>p. mp_name p = ''model'') ps = [p] \<and> m = take maxMultipartModelFieldBytes (mp_content p))))"
proof (induction ps arbitrary: found)
  case Nil
  then show ?case by (auto split: option.splits)
next
  case (Cons p ps)
  show ?case by (cases found) (auto simp: Cons.IH)
qed

lemma rewrite_part_name [simp]: "mp_name (rewrite_part model p) = mp_name p"
  by (simp add: rewrite_part_def)

lemma filter_model_rewritten:
  "filter (\<lambda>p. mp_name p = ''model'') (map (rewrite_part model) ps) = map (\<lambda>p. p\<lparr>mp_content := model\<rparr>) (filter (\<lambda>p. mp_name p = ''model'') ps)"
  by (induction ps) (auto simp: rewrite_part_def)

lemma filter_other_rewritten:
  "filter (\<lambda>p. mp_name p \<noteq> ''model'') (map (rewrite_part model) ps) = filter (\<lambda>p. mp_name p \<noteq> ''model'') ps"
  by (induction ps) (auto simp: rewrite_part_def)

lemma transcription_model_Inr:
  assumes "transcription_model mo body ct = Inr (requested, boundary)"
  shows "extractMultipartModel mo body boundary = Inr requested" and "requested \<noteq> []"
  using assms by (auto simp: transcription_model_def split: option.splits if_splits sum.splits multipartError.splits)


text \<open>A format that has this law: every byte behind a marker, every field behind its end.\<close>

definition demo_field :: "string \<Rightarrow> string" where
  "demo_field s = concat (map (\<lambda>x. [CHR ''c'', x]) s) @ '';;''"

fun demo_fields :: "string \<Rightarrow> string \<Rightarrow> string list" where
  "demo_fields (x # y # r) acc = (if x = CHR ''c'' then demo_fields r (acc @ [y]) else acc # demo_fields r [])"
| "demo_fields _ acc = []"

fun demo_parts :: "string list \<Rightarrow> multipartPart list" where
  "demo_parts (h # n # v # r) = \<lparr>mp_header = h, mp_name = n, mp_content = v\<rparr> # demo_parts r"
| "demo_parts _ = []"

definition demo_body :: "multipartPart list \<Rightarrow> string" where
  "demo_body ps = concat (map (\<lambda>p. demo_field (mp_header p) @ demo_field (mp_name p) @ demo_field (mp_content p)) ps)"

definition demo_multipart :: multipartOps where
  "demo_multipart = \<lparr>mo_mediaType = (\<lambda>ct. Some (''multipart/form-data'', ''b'')),
     mo_read = (\<lambda>body boundary. (demo_parts (demo_fields body []), False)), mo_write = (\<lambda>ps. (demo_body ps, ''multipart/form-data; boundary=n'', ''n''))\<rparr>"

lemma demo_fields_field: "demo_fields (demo_field s @ r) acc = (acc @ s) # demo_fields r []"
  by (induction s arbitrary: acc) (auto simp: demo_field_def)

lemma demo_read_back: "demo_parts (demo_fields (demo_body ps) []) = ps"
  by (induction ps) (simp_all add: demo_body_def demo_fields_field)


subsection \<open>A body slot is always given back\<close>

lemma acquireBodyAdmission_slot:
  "acquireBodyAdmission env cfg g = (ok, g1) \<Longrightarrow> gw_bodyInFlight g1 = gw_bodyInFlight g + (if ok then 1 else 0)"
  by (auto simp: acquireBodyAdmission_def Let_def split: if_splits)

lemma readAdmittedCapped_slot: "gw_bodyInFlight (snd (readAdmittedCapped env cfg src g)) = gw_bodyInFlight g"
  by (auto simp: readAdmittedCapped_def dest: acquireBodyAdmission_slot split: prod.splits bool.splits)

lemma decodeMediaJSONRequest_slot: "gw_bodyInFlight (snd (decodeMediaJSONRequest decode env cfg src g)) = gw_bodyInFlight g"
  using readAdmittedCapped_slot [of env cfg src g] by (auto simp: decodeMediaJSONRequest_def split: prod.splits sum.splits)

lemma resolveMediaModel_slot: "gw_bodyInFlight (snd (resolveMediaModel grp model g)) = gw_bodyInFlight g"
  by (auto simp: resolveMediaModel_def split: prod.splits sum.splits)

lemma media_call_slot: "gw_bodyInFlight (snd (snd (media_call env latency route scopes r call c g))) = gw_bodyInFlight g"
  by (auto simp: media_call_def Let_def split: prod.splits option.splits)

lemma admit_slot: "gw_bodyInFlight (snd (admitRequestForRoute env u grp route g)) = gw_bodyInFlight g"
  by (auto simp: admitRequestForRoute_def Let_def split: prod.splits option.splits)

lemmas slot_simps =
  readAdmittedCapped_slot decodeMediaJSONRequest_slot resolveMediaModel_slot media_call_slot admit_slot

lemma snd_of: "f x = (r, g') \<Longrightarrow> g' = snd (f x)"
  by simp

lemma media_json_plan_slot: "gw_bodyInFlight (snd (media_json_plan env cfg md route u grp src g)) = gw_bodyInFlight g"
  by (auto simp: media_json_plan_def slot_simps dest!: snd_of split: prod.splits sum.splits)

theorem media_slots_returned:
  "gw_bodyInFlight (snd (snd (handleImagesGenerations env cfg md u grp src c g))) = gw_bodyInFlight g
   \<and> gw_bodyInFlight (snd (snd (handleAudioSpeech env cfg md u grp src c g))) = gw_bodyInFlight g
   \<and> gw_bodyInFlight (snd (snd (handleAudioTranscriptions env cfg md mo u grp ct src c g))) = gw_bodyInFlight g"
  by (auto simp: handleImagesGenerations_def handleAudioSpeech_def handleAudioTranscriptions_def slot_simps media_json_plan_slot
      dest!: snd_of split: prod.splits sum.splits option.splits)

subsection \<open>Messages\<close>

theorem failed_message_leaves_client_untouched:
  assumes "messages_call env dc decodeResponse tokens strip clientHeaders a req requestedModel c w = ((u, Some e), c', w')"
  shows "c' = c"
proof (cases "ap_type a = ProviderAnthropic")
  case True
  then show ?thesis using assms
    by (auto simp: messages_call_def callAnthropicMessagesPassthrough_def Let_def fails_def elim!: call_upstream_error split: option.splits)
next
  case False
  then show ?thesis using assms
    by (auto simp: messages_call_def callTranslatedMessages_def Let_def fails_def split: sum.splits prod.splits option.splits)
qed

lemma set_update: "set (AList.update k v h) \<subseteq> insert (k, v) (set h)"
  by (induction h) auto

text \<open>Of the client's headers only the allowed one reaches the provider, and not when it is stripped.\<close>

lemma only_allowed_headers_forwarded:
  assumes "ap_type a = ProviderAnthropic" and "(k, v) \<in> set (anthropic_headers a strip clientHeaders)"
  shows "(k, v) = (''Content-Type'', ''application/json'') \<or> (k, v) = (''X-Api-Key'', ap_key a) \<or> (k, v) = (''Anthropic-Version'', anthropicAPIVersion)
    \<or> k = ''Anthropic-Beta'' \<and> \<not> strip \<and> (k, v) \<in> set clientHeaders"
  using assms by (auto simp: anthropic_headers_def injectAuth_def anthropicPassthroughForwardedHeaders_def dest!: set_update [THEN subsetD] split: if_splits)

theorem streaming_refused_before_counting:
  assumes "decode (fst src) = Some (JObject req)" and "isStreamingRequested req" and "handleMessages env cfg u grp decode src g = (r, g')"
  shows "gw_limiter g' = gw_limiter g \<and> gw_registry g' = gw_registry g \<and> gw_world g' = gw_world g \<and> gw_bodyInFlight g' = gw_bodyInFlight g
    \<and> (r = Inl (bad_media ''streaming is not yet supported on /v1/messages'') \<or> r = Inr ModelRequired \<or> (\<exists>st ty. r = Inr (BodyRefused st ty)))"
  using assms
  by (auto simp: handleMessages_def readAndDecodeUnifiedBody_def acquireBodyAdmission_def Let_def
      split: prod.splits sum.splits if_splits bool.splits option.splits)

text \<open>A compact object comes back with every value as it was, and unchanged when it already names the model.\<close>

definition compact_object :: "(string \<times> string) list \<Rightarrow> string" where
  "compact_object fs = ''{'' @ strings_Join '','' (map (\<lambda>(k, v). marshal_string k @ '':'' @ v) fs) @ ''}''"

lemma rewriteModelField_compact:
  assumes "tokens raw = Some fs"
  shows "rewriteModelField tokens raw model = Some (compact_object (map (\<lambda>(k, v). (k, if k = ''model'' then marshal_string model else v)) fs))"
  using assms by (auto simp: rewriteModelField_def compact_object_def comp_def split_def intro!: arg_cong [where f = "strings_Join '',''"])

lemma rewriteModelField_same:
  assumes "tokens (compact_object fs) = Some fs" and "\<forall>(k, v)\<in>set fs. k = ''model'' \<longrightarrow> v = marshal_string model"
  shows "rewriteModelField tokens (compact_object fs) model = Some (compact_object fs)"
proof -
  have "map (\<lambda>(k, v). (k, if k = ''model'' then marshal_string model else v)) fs = fs"
    using assms(2) by (intro map_idI) auto
  then show ?thesis by (simp add: rewriteModelField_compact [where tokens = tokens and raw = "compact_object fs", OF assms(1)])
qed

subsection \<open>Error envelopes\<close>

text \<open>A client that has seen nothing gets the provider's status and, in either envelope, an error object with
  the provider's own answer in it.\<close>

lemma write_encoded_fresh:
  assumes "cw_status c = None" and "cw_plan c = []"
  shows "cw_status (write_encoded num status envelope c) = Some status"
    and "cw_body (write_encoded num status envelope c) = cw_body c @ json_Marshal num (JObject envelope) @ [CHR 0x0A]"
  using assms by (auto simp: write_encoded_def cw_Write_def cw_WriteHeader_def cw_Header_def Let_def split: list.splits)

theorem upstream_error_reaches_client:
  assumes "cw_status c = None" and "cw_plan c = []" and "decode (json_Marshal num v) = Some v" and "ph_body perr = json_Marshal num v"
  shows "cw_status (writeProviderUpstreamError decode num p perr c) = Some (ph_status perr)
    \<and> cw_status (writeAnthropicProviderUpstreamError decode num p perr c) = Some (ph_status perr)
    \<and> (\<exists>obj. cw_body (writeProviderUpstreamError decode num p perr c) = cw_body c @ json_Marshal num (JObject obj) @ [CHR 0x0A]
         \<and> (\<exists>err. map_of obj ''error'' = Some (JObject err) \<and> map_of err ''upstream'' = Some v))
    \<and> (\<exists>obj. cw_body (writeAnthropicProviderUpstreamError decode num p perr c) = cw_body c @ json_Marshal num (JObject obj) @ [CHR 0x0A]
         \<and> map_of obj ''type'' = Some (JString ''error'') \<and> (\<exists>err. map_of obj ''error'' = Some (JObject err) \<and> map_of err ''upstream'' = Some v))"
  unfolding writeProviderUpstreamError_def writeAnthropicProviderUpstreamError_def write_encoded_fresh [OF assms(1,2)]
  by (intro conjI; (rule refl | (rule exI, rule conjI, rule refl, simp add: decodeUpstreamErrorBody_def assms(3,4))))

end
