(* ===== verification/Federation.thy ===== *)
theory Federation
  imports McpBackend Json "HOL-Library.Product_Lexorder" "HOL-Library.Multiset"
begin

text \<open>
  The federated MCP endpoint (mcp_federation.go): one JSON-RPC endpoint in front of all MCP servers a
  caller may use, which lists their tools under prefixed names and routes a call by the prefix.

  The servers are asked concurrently.  Which of them get a slot of the fan-out before its deadline
  (\<open>slot\<close>), in which order they are dialed and in which order they finish are parameters, and
  \<open>sort.Slice\<close> is any function that sorts.  A panic of a backend goroutine and the log lines are not modelled.
\<close>

subsection \<open>Requests and answers\<close>

datatype mcpResponseFormat = McpResponseJSON | McpResponseSSE

definition mcpAcceptsSSE :: "headers \<Rightarrow> bool" where
  "mcpAcceptsSSE hdr =
     list_ex (\<lambda>header. list_ex (\<lambda>part.
         let mediaType = (case strings_Cut CHR '';'' part of Some (m, _) \<Rightarrow> m | None \<Rightarrow> part)
         in equalFold_ascii (strings_TrimSpace mediaType) ''text/event-stream'') (strings_Split CHR '','' header))
       (case hdr ''Accept'' of Some vs \<Rightarrow> vs | None \<Rightarrow> [])"

definition mcpNegotiateFormat :: "headers \<Rightarrow> mcpResponseFormat" where
  "mcpNegotiateFormat hdr = (if mcpAcceptsSSE hdr then McpResponseSSE else McpResponseJSON)"

text \<open>What the client gets: an error envelope of the gateway, a refusal of the limiter, a JSON-RPC answer
  with its content type and bytes, or an empty acknowledgement.\<close>

datatype mcpReply = McpRefused int string | McpLimited limitViolation | McpAnswer string string | McpAccepted

definition writeJSONRPCEnvelope :: "mcpCodec \<Rightarrow> mcpResponseFormat \<Rightarrow> jsonrpcResponse \<Rightarrow> mcpReply" where
  "writeJSONRPCEnvelope c format resp =
     (let encoded = mc_encodeResponse c (resp\<lparr>jr_JSONRPC := jsonrpcVersion\<rparr>) in
      case format of
        McpResponseSSE \<Rightarrow> McpAnswer ''text/event-stream'' (case encoded of Some b \<Rightarrow> writeData b | None \<Rightarrow> [])
      | McpResponseJSON \<Rightarrow> McpAnswer ''application/json'' (case encoded of Some b \<Rightarrow> b @ [LF] | None \<Rightarrow> []))"

definition writeJSONRPCErrorResponse :: "mcpCodec \<Rightarrow> mcpResponseFormat \<Rightarrow> string option \<Rightarrow> int \<Rightarrow> string \<Rightarrow> mcpReply" where
  "writeJSONRPCErrorResponse c format rid code message =
     writeJSONRPCEnvelope c format \<lparr>jr_Error = Some \<lparr>je_Message = message, je_Code = code\<rparr>, jr_JSONRPC = [], jr_Result = None, jr_ID = rid\<rparr>"

text \<open>The result is what \<open>json.Marshal\<close> made of it.\<close>

definition writeJSONRPCResult :: "mcpCodec \<Rightarrow> mcpResponseFormat \<Rightarrow> string option \<Rightarrow> string option \<Rightarrow> mcpReply" where
  "writeJSONRPCResult c format rid result =
     (case result of
        None \<Rightarrow> writeJSONRPCErrorResponse c format rid jsonrpcInternalError ''failed to encode result''
      | Some b \<Rightarrow> writeJSONRPCEnvelope c format \<lparr>jr_Error = None, jr_JSONRPC = [], jr_Result = Some b, jr_ID = rid\<rparr>)"

definition defaultMCPProtocolVersion :: string where "defaultMCPProtocolVersion = ''2025-11-25''"

definition knownMCPProtocolVersions :: "string list" where
  "knownMCPProtocolVersions = [''2024-11-05'', ''2025-03-26'', ''2025-06-18'', ''2025-11-25'']"

definition mcpFederatedInitialize :: "mcpCodec \<Rightarrow> string \<Rightarrow> mcpResponseFormat \<Rightarrow> jsonrpcRequest \<Rightarrow> mcpReply" where
  "mcpFederatedInitialize c pluginVersion format req =
     (let wanted = mc_protocolVersion c (jq_Params req);
          protocolVersion = (if wanted \<in> set knownMCPProtocolVersions then wanted else defaultMCPProtocolVersion)
      in writeJSONRPCResult c format (jq_ID req) (Some (json_Marshal (\<lambda>_. []) (JObject
           [(''protocolVersion'', JString protocolVersion), (''capabilities'', JObject [(''tools'', JObject [])]),
            (''serverInfo'', JObject [(''name'', JString ''traefik-llmgateway''), (''version'', JString pluginVersion)])]))))"

subsection \<open>Names\<close>

definition server_url :: "targetsConfig \<Rightarrow> string \<Rightarrow> string" where
  "server_url cfg name = (case map_of (tg_MCPServers cfg) name of Some (Some url) \<Rightarrow> url | _ \<Rightarrow> [])"

definition allowedMCPServerNames :: "(string \<Rightarrow> string option) \<Rightarrow> targetsConfig \<Rightarrow> group \<Rightarrow> string list" where
  "allowedMCPServerNames url_path cfg grp =
     sort (map fst (filter (\<lambda>(name, tc). allowsMCP grp name \<and> \<not> isLegacySSETransportURL url_path (case tc of Some url \<Rightarrow> url | None \<Rightarrow> [])) (tg_MCPServers cfg)))"

definition prefixMCPTool :: "mcpCodec \<Rightarrow> string \<Rightarrow> (string, string) gomap \<Rightarrow> ((string, string) gomap \<times> string) option" where
  "prefixMCPTool c serverName tool =
     (case map_of tool ''name'' of
        None \<Rightarrow> None
      | Some rawName \<Rightarrow>
          (case mc_string c rawName of
             None \<Rightarrow> None
           | Some toolName \<Rightarrow>
               if toolName = [] then None
               else let fullName = serverName @ ''_'' @ toolName in Some (AList.update ''name'' (marshal_string fullName) tool, fullName)))"

record mcpMergedTool =
  mt_raw :: "(string, string) gomap"
  mt_name :: string
  mt_server :: string

definition resolve_best :: "string \<Rightarrow> string list \<Rightarrow> string" where
  "resolve_best fullName allowedNames =
     foldl (\<lambda>best name. if strings_HasPrefix fullName (name @ ''_'') \<and> length best < length name then name else best) [] allowedNames"

definition resolveFederatedTool :: "string \<Rightarrow> string list \<Rightarrow> (string \<times> string) option" where
  "resolveFederatedTool fullName allowedNames =
     (let best = resolve_best fullName allowedNames in
      if best = [] then None else Some (best, strings_TrimPrefix fullName (best @ ''_'')))"

subsection \<open>State\<close>

record fedEnv =
  fe_backend :: backendEnv
  fe_now :: gtime
  fe_latency :: "string \<Rightarrow> duration"
  fe_errText :: "mcpError \<Rightarrow> string"
  fe_url :: urlCodec
  fe_path :: "string \<Rightarrow> string option"
  fe_slot :: "string \<Rightarrow> bool"
  fe_dialOrder :: "string list \<Rightarrow> string list"
  fe_doneOrder :: "string list \<Rightarrow> string list"
  fe_sort :: "mcpMergedTool list \<Rightarrow> mcpMergedTool list"
  fe_version :: string

abbreviation fe_codec :: "fedEnv \<Rightarrow> mcpCodec" where
  "fe_codec env \<equiv> be_codec (fe_backend env)"

record 's fedState =
  fs_limiter :: "'s limiter"
  fs_events :: "eventLog option"
  fs_targets :: "targetHealthTracker option"
  fs_sent :: "(string \<times> backendRequest) list"

text \<open>A caller that went away says nothing about the health of a server.\<close>

definition fed_record :: "fedEnv \<Rightarrow> string \<Rightarrow> string \<Rightarrow> mcpError option \<Rightarrow> targetHealthTracker option \<Rightarrow> targetHealthTracker option" where
  "fed_record env name targetURL err tr =
     (case err of
        Some e \<Rightarrow> if is_canceled e then tr
           else health_record (fe_url env) \<lparr>ob_kind = targetKindMCP, ob_name = name, ob_url = targetURL, ob_ok = False, ob_err = Some (fe_errText env e),
                  ob_latency = fe_latency env name, ob_source = TrafficSource, ob_now = fe_now env\<rparr> tr
      | None \<Rightarrow> health_record (fe_url env) \<lparr>ob_kind = targetKindMCP, ob_name = name, ob_url = targetURL, ob_ok = True, ob_err = None,
                  ob_latency = fe_latency env name, ob_source = TrafficSource, ob_now = fe_now env\<rparr> tr)"

subsection \<open>Listing tools\<close>

definition mcpToolsListMaxPagesPerServer :: nat where "mcpToolsListMaxPagesPerServer = 20"

record serverRun =
  sr_tools :: "(string, string) gomap list"
  sr_page :: nat
  sr_transportErr :: "mcpError option"
  sr_appFailed :: bool

text \<open>\<open>left\<close> is how many pages may still be asked for.\<close>

fun fetch_pages :: "backendEnv \<Rightarrow> string \<Rightarrow> nat \<Rightarrow> nat \<Rightarrow> string \<Rightarrow> (string, string) gomap list \<Rightarrow> backendRequest list \<Rightarrow> serverRun \<times> backendRequest list" where
  "fetch_pages be url 0 page cursor tools h = (\<lparr>sr_tools = tools, sr_page = page, sr_transportErr = None, sr_appFailed = False\<rparr>, h)"
| "fetch_pages be url (Suc left) page cursor tools h =
     (case mcpBackendCall be url ''tools/list'' (ListParams cursor) mcpBackendResponseMaxBytes h of
        (Inl e, h1) \<Rightarrow> (\<lparr>sr_tools = tools, sr_page = page, sr_transportErr = Some e, sr_appFailed = False\<rparr>, h1)
      | (Inr resp, h1) \<Rightarrow>
          if jr_Error resp \<noteq> None then (\<lparr>sr_tools = tools, sr_page = page, sr_transportErr = None, sr_appFailed = True\<rparr>, h1)
          else (case Option.bind (jr_Result resp) (mc_toolsList (be_codec be)) of
             None \<Rightarrow> (\<lparr>sr_tools = tools, sr_page = page, sr_transportErr = None, sr_appFailed = True\<rparr>, h1)
           | Some result \<Rightarrow>
               if tl_NextCursor result = []
               then (\<lparr>sr_tools = tools @ tl_Tools result, sr_page = page, sr_transportErr = None, sr_appFailed = False\<rparr>, h1)
               else fetch_pages be url left (Suc page) (tl_NextCursor result) (tools @ tl_Tools result) h1))"

definition server_run :: "fedEnv \<Rightarrow> targetsConfig \<Rightarrow> string \<Rightarrow> serverRun \<times> backendRequest list" where
  "server_run env cfg name = fetch_pages (fe_backend env) (server_url cfg name) mcpToolsListMaxPagesPerServer 0 [] [] []"

definition server_failed :: "serverRun \<Rightarrow> bool" where
  "server_failed run \<longleftrightarrow> sr_page run = 0 \<and> (sr_transportErr run \<noteq> None \<or> sr_appFailed run)"

definition server_tools :: "mcpCodec \<Rightarrow> string \<Rightarrow> serverRun \<Rightarrow> mcpMergedTool list" where
  "server_tools c name run =
     (if server_failed run then []
      else List.map_filter (\<lambda>tool. map_option (\<lambda>(raw, fullName). \<lparr>mt_raw = raw, mt_name = fullName, mt_server = name\<rparr>) (prefixMCPTool c name tool)) (sr_tools run))"

definition survivor :: "string list \<Rightarrow> mcpMergedTool list \<Rightarrow> mcpMergedTool" where
  "survivor names grp =
     (if 1 < length grp
      then (case resolveFederatedTool (mt_name (hd grp)) names of
              None \<Rightarrow> hd grp
            | Some (routedServer, _) \<Rightarrow> (case find (\<lambda>m. mt_server m = routedServer) grp of Some m \<Rightarrow> m | None \<Rightarrow> hd grp))
      else hd grp)"

function dedup_tools :: "string list \<Rightarrow> mcpMergedTool list \<Rightarrow> mcpMergedTool list" where
  "dedup_tools names [] = []"
| "dedup_tools names (m # ms) =
     survivor names (m # takeWhile (\<lambda>x. mt_name x = mt_name m) ms) # dedup_tools names (dropWhile (\<lambda>x. mt_name x = mt_name m) ms)"
  by pat_completeness auto
termination
  by (relation "measure (length \<circ> snd)") (auto simp: le_imp_less_Suc length_dropWhile_le)

definition merged_tools :: "fedEnv \<Rightarrow> targetsConfig \<Rightarrow> string list \<Rightarrow> mcpMergedTool list" where
  "merged_tools env cfg names =
     concat (map (\<lambda>name. server_tools (fe_codec env) name (fst (server_run env cfg name))) (filter (fe_slot env) (fe_doneOrder env names)))"

definition listed_tools :: "fedEnv \<Rightarrow> targetsConfig \<Rightarrow> string list \<Rightarrow> mcpMergedTool list" where
  "listed_tools env cfg names = dedup_tools names (fe_sort env (merged_tools env cfg names))"

definition failed_servers :: "fedEnv \<Rightarrow> targetsConfig \<Rightarrow> string list \<Rightarrow> string list" where
  "failed_servers env cfg names = filter (\<lambda>name. \<not> fe_slot env name \<or> server_failed (fst (server_run env cfg name))) (fe_doneOrder env names)"

definition mcp_scope :: "string \<Rightarrow> limitScope" where
  "mcp_scope name = \<lparr>sc_limits = None, sc_kind = targetKindMCP, sc_id = name\<rparr>"

definition mcpFederatedToolsList :: "fedEnv \<Rightarrow> targetsConfig \<Rightarrow> mcpResponseFormat \<Rightarrow> jsonrpcRequest \<Rightarrow> string list \<Rightarrow> string \<Rightarrow> 's fedState \<Rightarrow> mcpReply \<times> 's fedState" where
  "mcpFederatedToolsList env cfg format req names caller g =
     (let dialed = filter (fe_slot env) (fe_dialOrder env names);
          g1 = g\<lparr>fs_sent := fs_sent g @ concat (map (\<lambda>name. map (Pair name) (snd (server_run env cfg name))) dialed),
                 fs_targets := fold (\<lambda>name. fed_record env name (server_url cfg name) (sr_transportErr (fst (server_run env cfg name))))
                    (filter (fe_slot env) (fe_doneOrder env names)) (fs_targets g),
                 fs_limiter := countTargetRequestsBy (fe_now env) (fe_now env) caller (map mcp_scope dialed) (fs_limiter g)\<rparr>
      in if names \<noteq> [] \<and> length (failed_servers env cfg names) = length names
         then (writeJSONRPCErrorResponse (fe_codec env) format (jq_ID req) jsonrpcInternalError ''no MCP server reachable'', g1)
         else (writeJSONRPCResult (fe_codec env) format (jq_ID req)
                 (mc_encodeList (fe_codec env) \<lparr>tl_NextCursor = [], tl_Tools = map mt_raw (listed_tools env cfg names)\<rparr>), g1))"

subsection \<open>Calling a tool\<close>

text \<open>The pattern of \<open>urlQueryPattern\<close>: a URL up to its query, and what follows the query.\<close>

definition url_char :: "char \<Rightarrow> bool" where
  "url_char c \<longleftrightarrow> c \<notin> {CHR 0x09, CHR 0x0A, CHR 0x0C, CHR 0x0D, CHR '' '', CHR ''#'', CHR 0x22, CHR 0x27}"

definition match_scheme :: "string \<Rightarrow> (string \<times> string) option" where
  "match_scheme s =
     (if strings_HasPrefix s ''http://'' then Some (''http://'', drop 7 s)
      else if strings_HasPrefix s ''https://'' then Some (''https://'', drop 8 s) else None)"

definition match_query :: "string \<Rightarrow> (string \<times> string) option" where
  "match_query s =
     (case match_scheme s of
        None \<Rightarrow> None
      | Some (scheme, t) \<Rightarrow>
          let host = takeWhile (\<lambda>c. url_char c \<and> c \<noteq> CHR ''?'') t; rest = dropWhile (\<lambda>c. url_char c \<and> c \<noteq> CHR ''?'') t in
          (case rest of
             c # u \<Rightarrow> if host \<noteq> [] \<and> c = CHR ''?'' then Some (scheme @ host, dropWhile url_char u) else None
           | [] \<Rightarrow> None))"

lemma match_scheme_shorter: "match_scheme s = Some (p, t) \<Longrightarrow> length t < length s"
  by (cases s) (auto simp: match_scheme_def strings_HasPrefix_def split: if_splits)

lemma match_query_shorter: "match_query s = Some (u, t) \<Longrightarrow> length t < length s"
proof -
  assume a: "match_query s = Some (u, t)"
  then obtain p r where p: "match_scheme s = Some (p, r)" by (auto simp: match_query_def split: option.splits)
  let ?P = "\<lambda>c. url_char c \<and> c \<noteq> CHR ''?''"
  obtain c v where v: "dropWhile ?P r = c # v" "t = dropWhile url_char v"
    using a p by (auto simp: match_query_def Let_def split: list.splits if_splits)
  have "length t \<le> length (dropWhile ?P r)" using v by (simp add: le_SucI length_dropWhile_le)
  then show ?thesis using match_scheme_shorter [OF p] length_dropWhile_le [of ?P r] by linarith
qed

function redact_queries :: "string \<Rightarrow> string" where
  "redact_queries s =
     (case match_query s of
        Some (u, rest) \<Rightarrow> u @ ''?[redacted]'' @ redact_queries rest
      | None \<Rightarrow> (case s of [] \<Rightarrow> [] | c # t \<Rightarrow> c # redact_queries t))"
  by pat_completeness auto
termination
  by (relation "measure length") (auto dest: match_query_shorter)

declare redact_queries.simps [simp del]

definition scrubRelayedBackendMessage :: "urlCodec \<Rightarrow> string \<Rightarrow> string \<Rightarrow> string" where
  "scrubRelayedBackendMessage uc msg targetURL = redact_queries (sanitizeProviderErr uc msg targetURL)"

definition relay_answer :: "fedEnv \<Rightarrow> string \<Rightarrow> mcpResponseFormat \<Rightarrow> jsonrpcRequest \<Rightarrow> mcpError + jsonrpcResponse \<Rightarrow> mcpReply" where
  "relay_answer env targetURL format req res =
     (case res of
        Inl e \<Rightarrow> writeJSONRPCErrorResponse (fe_codec env) format (jq_ID req) jsonrpcInternalError
            (case e of McpTooLarge n \<Rightarrow> ''response too large'' | McpError x \<Rightarrow> ''upstream error'')
      | Inr resp \<Rightarrow>
          if jr_Result resp = None \<and> jr_Error resp = None
          then writeJSONRPCErrorResponse (fe_codec env) format (jq_ID req) jsonrpcInternalError ''invalid upstream response''
          else writeJSONRPCEnvelope (fe_codec env) format \<lparr>jr_Error = map_option (\<lambda>je. je\<lparr>je_Message := scrubRelayedBackendMessage (fe_url env) (je_Message je) targetURL\<rparr>) (jr_Error resp),
                 jr_JSONRPC = [], jr_Result = jr_Result resp, jr_ID = jq_ID req\<rparr>)"

definition mcpFederatedToolsCall :: "fedEnv \<Rightarrow> targetsConfig \<Rightarrow> mcpResponseFormat \<Rightarrow> jsonrpcRequest \<Rightarrow> group \<Rightarrow> string \<Rightarrow> 's fedState \<Rightarrow> mcpReply \<times> 's fedState" where
  "mcpFederatedToolsCall env cfg format req grp caller g =
     (case mc_callParams (fe_codec env) (jq_Params req) of
        None \<Rightarrow> (writeJSONRPCErrorResponse (fe_codec env) format (jq_ID req) jsonrpcInvalidParams ''invalid params'', g)
      | Some params \<Rightarrow>
          (case resolveFederatedTool (cp_Name params) (allowedMCPServerNames (fe_path env) cfg grp) of
             None \<Rightarrow> (writeJSONRPCErrorResponse (fe_codec env) format (jq_ID req) jsonrpcInvalidParams (''unknown tool: '' @ cp_Name params), g)
           | Some (serverName, toolName) \<Rightarrow>
               let targetURL = server_url cfg serverName in
               (case mcpBackendCall (fe_backend env) targetURL ''tools/call'' (CallParams (params\<lparr>cp_Name := toolName\<rparr>)) mcpBackendCallResponseMaxBytes [] of
                  (res, h) \<Rightarrow>
                    (relay_answer env targetURL format req res,
                     g\<lparr>fs_sent := fs_sent g @ map (Pair serverName) h,
                       fs_targets := fed_record env serverName targetURL (case res of Inl e \<Rightarrow> Some e | Inr r \<Rightarrow> None) (fs_targets g),
                       fs_limiter := countTargetRequestBy (fe_now env) (fe_now env) caller targetKindMCP serverName (fs_limiter g)\<rparr>))))"

subsection \<open>The endpoint\<close>

definition dispatch_mcp :: "fedEnv \<Rightarrow> targetsConfig \<Rightarrow> user \<Rightarrow> group \<Rightarrow> mcpResponseFormat \<Rightarrow> jsonrpcRequest \<Rightarrow> 's fedState \<Rightarrow> mcpReply \<times> 's fedState" where
  "dispatch_mcp env cfg u grp format req g =
     (let method = jq_Method req in
      if method = ''initialize'' then (mcpFederatedInitialize (fe_codec env) (fe_version env) format req, g)
      else if method = ''ping'' then (writeJSONRPCResult (fe_codec env) format (jq_ID req) (Some ''{}''), g)
      else if method = ''tools/list'' then mcpFederatedToolsList env cfg format req (allowedMCPServerNames (fe_path env) cfg grp) (us_name u) g
      else if method = ''tools/call'' then mcpFederatedToolsCall env cfg format req grp (us_name u) g
      else if strings_HasPrefix method ''notifications/'' then (McpAccepted, g)
      else (writeJSONRPCErrorResponse (fe_codec env) format (jq_ID req) jsonrpcMethodNotFound (''method not found: '' @ method), g))"

text \<open>The body is what can be read of it, or \<open>None\<close>.\<close>

definition handleMCPFederated :: "fedEnv \<Rightarrow> targetsConfig \<Rightarrow> user \<Rightarrow> group \<Rightarrow> headers \<Rightarrow> string option \<Rightarrow> 's fedState \<Rightarrow> mcpReply \<times> 's fedState" where
  "handleMCPFederated env cfg u grp hdr body g =
     (if header_get hdr ''Upgrade'' \<noteq> [] then (McpRefused 501 ''websocket/upgrade passthrough not supported'', g)
      else let format = mcpNegotiateFormat hdr in
        (case body of
           None \<Rightarrow> (McpRefused 400 ''cannot read request body'', g)
         | Some b \<Rightarrow>
             (case mc_request (fe_codec env) (take (nat maxRequestBytes) b) of
                None \<Rightarrow> (writeJSONRPCErrorResponse (fe_codec env) format (Some ''null'') jsonrpcParseError ''parse error'', g)
              | Some req \<Rightarrow>
                  let scopes = withTotalScope (buildLimitScopes u grp); now = fe_now env in
                  (case checkAndCount now now now scopes (fs_limiter g) of
                     (Some v, l1) \<Rightarrow> (McpLimited v, g\<lparr>fs_limiter := l1, fs_events := recordLimitEvent now (storeLatched now l1) scopes ''mcp-federated'' v (fs_events g)\<rparr>)
                   | (None, l1) \<Rightarrow> dispatch_mcp env cfg u grp format req (g\<lparr>fs_limiter := recordLastSeen now scopes now l1\<rparr>)))))"

subsection \<open>Routing\<close>

lemma resolve_best_cases:
  "foldl (\<lambda>best name. if P name \<and> length best < length name then name else best) b xs = b \<or>
   (foldl (\<lambda>best name. if P name \<and> length best < length name then name else best) b xs \<in> set xs
    \<and> P (foldl (\<lambda>best name. if P name \<and> length best < length name then name else best) b xs))"
proof (induction xs arbitrary: b)
  case (Cons x xs)
  show ?case using Cons.IH [of "if P x \<and> length b < length x then x else b"] by (cases "P x \<and> length b < length x") auto
qed simp

lemma resolve_best_max:
  "length b \<le> length (foldl (\<lambda>best name. if P name \<and> length best < length name then name else best) b xs)
   \<and> (\<forall>n\<in>set xs. P n \<longrightarrow> length n \<le> length (foldl (\<lambda>best name. if P name \<and> length best < length name then name else best) b xs))"
proof (induction xs arbitrary: b)
  case (Cons x xs)
  show ?case using Cons.IH [of "if P x \<and> length b < length x then x else b"] by (auto split: if_splits)
qed simp

lemma has_prefix_iff: "strings_HasPrefix s p \<longleftrightarrow> (\<exists>t. s = p @ t)"
  by (metis append_eq_conv_conj append_take_drop_id strings_HasPrefix_def)

lemma resolve_iff:
  "resolveFederatedTool full names = Some (s, t) \<longleftrightarrow>
     s \<in> set names \<and> s \<noteq> [] \<and> full = s @ ''_'' @ t \<and> (\<forall>n\<in>set names. strings_HasPrefix full (n @ ''_'') \<longrightarrow> length n \<le> length s)"
proof -
  let ?P = "\<lambda>name. strings_HasPrefix full (name @ ''_'')" and ?b = "resolve_best full names"
  have c: "?b = [] \<or> (?b \<in> set names \<and> ?P ?b)" unfolding resolve_best_def using resolve_best_cases [of ?P "[]" names] .
  have m: "\<forall>n\<in>set names. ?P n \<longrightarrow> length n \<le> length ?b" unfolding resolve_best_def using resolve_best_max [of "[]" ?P names] by simp
  have trim: "?P s \<Longrightarrow> full = s @ ''_'' @ strings_TrimPrefix full (s @ ''_'')" for s
    by (auto simp: strings_TrimPrefix_def has_prefix_iff)
  show ?thesis
  proof
    assume "resolveFederatedTool full names = Some (s, t)"
    then have "?b = s" "s \<noteq> []" "t = strings_TrimPrefix full (s @ ''_'')" by (auto simp: resolveFederatedTool_def Let_def split: if_splits)
    then show "s \<in> set names \<and> s \<noteq> [] \<and> full = s @ ''_'' @ t \<and> (\<forall>n\<in>set names. ?P n \<longrightarrow> length n \<le> length s)"
      using c m trim [of s] by auto
  next
    assume a: "s \<in> set names \<and> s \<noteq> [] \<and> full = s @ ''_'' @ t \<and> (\<forall>n\<in>set names. ?P n \<longrightarrow> length n \<le> length s)"
    then have p: "?P s" by (simp add: has_prefix_iff)
    then have "length s \<le> length ?b" using m a by blast
    then have "?b \<noteq> []" "?P ?b" "length ?b = length s" using a c by (auto intro: antisym)
    then have "?b = s" using a by (auto simp: has_prefix_iff append_eq_append_conv)
    then show "resolveFederatedTool full names = Some (s, t)" using a by (simp add: resolveFederatedTool_def strings_TrimPrefix_def strings_HasPrefix_def)
  qed
qed

lemma resolve_defined:
  assumes "n \<in> set names" "n \<noteq> []" "full = n @ ''_'' @ t" shows "\<exists>s u. resolveFederatedTool full names = Some (s, u)"
proof -
  have "strings_HasPrefix full (n @ ''_'')" using assms(3) by (simp add: has_prefix_iff)
  then have "length n \<le> length (resolve_best full names)"
    using resolve_best_max [of "[]" "\<lambda>name. strings_HasPrefix full (name @ ''_'')" names] assms(1) by (simp add: resolve_best_def)
  then show ?thesis using assms(2) by (auto simp: resolveFederatedTool_def Let_def)
qed

lemma survivor_in: "grp \<noteq> [] \<Longrightarrow> survivor names grp \<in> set grp"
  by (auto simp: survivor_def find_Some_iff split: option.splits)

lemma dedup_subset: "m \<in> set (dedup_tools names ms) \<Longrightarrow> m \<in> set ms"
proof (induction names ms rule: dedup_tools.induct)
  case (2 names m' ms)
  let ?P = "\<lambda>x. mt_name x = mt_name m'"
  consider "m = survivor names (m' # takeWhile ?P ms)" | "m \<in> set (dedup_tools names (dropWhile ?P ms))" using "2.prems" by auto
  then show ?case
  proof cases
    case 1
    then have "m \<in> set (m' # takeWhile ?P ms)" using survivor_in by blast
    then show ?thesis using set_takeWhileD by (metis set_ConsD list.set_intros)
  next
    case 2
    then show ?thesis using "2.IH" set_dropWhileD by (metis list.set_intros(2))
  qed
qed simp

abbreviation tool_key :: "mcpMergedTool \<Rightarrow> string \<times> string" where
  "tool_key m \<equiv> (mt_name m, mt_server m)"

text \<open>In a list sorted by name and server, equal names are next to each other.\<close>

lemma group_name: "x \<in> set (m # takeWhile (\<lambda>x. mt_name x = mt_name m) ms) \<Longrightarrow> mt_name x = mt_name m"
  by (metis set_ConsD set_takeWhileD)

lemma sorted_names: "sorted (map tool_key ms) \<Longrightarrow> sorted (map mt_name ms)"
  by (auto simp: sorted_iff_nth_mono less_eq_prod_def intro: less_imp_le)

lemma names_after_group:
  "sorted (map mt_name (m # ms)) \<Longrightarrow> x \<in> set (dropWhile (\<lambda>x. mt_name x = mt_name m) ms) \<Longrightarrow> mt_name x \<noteq> mt_name m"
proof (induction ms)
  case (Cons y ms)
  show ?case
  proof (cases "mt_name y = mt_name m")
    case True
    then show ?thesis using Cons by simp
  next
    case False
    then have "mt_name m < mt_name y" using Cons.prems(1) by (simp add: order.strict_iff_order)
    moreover have "mt_name y \<le> mt_name x" using Cons.prems False by auto
    ultimately show ?thesis by auto
  qed
qed simp

lemma sorted_dropWhile_names: "sorted (map mt_name (m # ms)) \<Longrightarrow> sorted (map mt_name (dropWhile P ms))"
proof -
  assume "sorted (map mt_name (m # ms))"
  then have "sorted (map mt_name (takeWhile P ms @ dropWhile P ms))" by simp
  then show ?thesis unfolding map_append sorted_append by blast
qed

lemma dedup_distinct: "sorted (map mt_name ms) \<Longrightarrow> distinct (map mt_name (dedup_tools names ms))"
proof (induction names ms rule: dedup_tools.induct)
  case (2 names m ms)
  let ?grp = "m # takeWhile (\<lambda>x. mt_name x = mt_name m) ms" and ?rest = "dropWhile (\<lambda>x. mt_name x = mt_name m) ms"
  have "survivor names ?grp \<in> set ?grp" by (rule survivor_in) simp
  then have "mt_name (survivor names ?grp) = mt_name m" by (rule group_name)
  moreover have "mt_name m \<notin> mt_name ` set (dedup_tools names ?rest)"
  proof
    assume "mt_name m \<in> mt_name ` set (dedup_tools names ?rest)"
    then obtain x where x: "mt_name m = mt_name x" "x \<in> set (dedup_tools names ?rest)" by (rule imageE)
    show False using names_after_group [OF "2.prems" dedup_subset [OF x(2)]] x(1) by (rule notE [OF _ sym])
  qed
  ultimately show ?case using "2.IH" [OF sorted_dropWhile_names [OF "2.prems"]] by simp
qed simp

text \<open>A listed tool belongs to the server its name is routed to, unless that server did not offer the name.\<close>

lemma survivor_routed:
  assumes "grp \<noteq> []" and "\<forall>x\<in>set grp. mt_name x = n" and "resolveFederatedTool n names = Some (s, t)" and "\<exists>x\<in>set grp. mt_server x = s"
  shows "mt_server (survivor names grp) = s"
proof (cases "1 < length grp")
  case True
  have "mt_name (hd grp) = n" using assms(1,2) by simp
  moreover obtain x where "find (\<lambda>m. mt_server m = s) grp = Some x" "mt_server x = s"
    using assms(4) by (cases "find (\<lambda>m. mt_server m = s) grp") (auto simp: find_None_iff find_Some_iff)
  ultimately show ?thesis using True assms(3) by (simp add: survivor_def)
next
  case False
  then obtain x where "grp = [x]" using assms(1) by (cases grp) auto
  then show ?thesis using assms(4) by (simp add: survivor_def)
qed

lemma dedup_routed:
  "sorted (map mt_name ms) \<Longrightarrow> m \<in> set (dedup_tools names ms) \<Longrightarrow> resolveFederatedTool (mt_name m) names = Some (s, t) \<Longrightarrow>
     x \<in> set ms \<Longrightarrow> mt_name x = mt_name m \<Longrightarrow> mt_server x = s \<Longrightarrow> mt_server m = s"
proof (induction names ms rule: dedup_tools.induct)
  case (2 names m' ms)
  let ?P = "\<lambda>x. mt_name x = mt_name m'"
  let ?grp = "m' # takeWhile ?P ms" and ?rest = "dropWhile ?P ms"
  have grp: "y \<in> set ?grp \<Longrightarrow> mt_name y = mt_name m'" for y by (rule group_name)
  have in_parts: "y \<in> set (m' # ms) \<Longrightarrow> y \<in> set ?grp \<or> y \<in> set ?rest" for y
    by (metis Un_iff append_Cons set_append takeWhile_dropWhile_id)
  show ?case
  proof (cases "m = survivor names ?grp")
    case True
    have s: "survivor names ?grp \<in> set ?grp" by (rule survivor_in) simp
    have n: "mt_name m = mt_name m'" unfolding True by (rule grp [OF s])
    have "x \<notin> set ?rest" using names_after_group [OF "2.prems"(1), of x] "2.prems"(5) n by argo
    then have x: "x \<in> set ?grp" using in_parts [OF "2.prems"(4)] by blast
    show ?thesis unfolding True
    proof (rule survivor_routed)
      show "\<forall>x\<in>set ?grp. mt_name x = mt_name m'" using grp by blast
      show "resolveFederatedTool (mt_name m') names = Some (s, t)" using "2.prems"(3) unfolding n .
      show "\<exists>x\<in>set ?grp. mt_server x = s" using x "2.prems"(6) by blast
    qed simp
  next
    case False
    then have m: "m \<in> set (dedup_tools names ?rest)" using "2.prems"(2) by simp
    then have "mt_name m \<noteq> mt_name m'" using dedup_subset names_after_group [OF "2.prems"(1)] by blast
    then have "x \<notin> set ?grp" using grp [of x] "2.prems"(5) by auto
    then have "x \<in> set ?rest" using in_parts [OF "2.prems"(4)] by blast
    then show ?thesis using "2.IH" [OF sorted_dropWhile_names [OF "2.prems"(1)] m "2.prems"(3) _ "2.prems"(5,6)] by blast
  qed
qed simp

definition sorts_tools :: "(mcpMergedTool list \<Rightarrow> mcpMergedTool list) \<Rightarrow> bool" where
  "sorts_tools f \<longleftrightarrow> (\<forall>xs. mset (f xs) = mset xs \<and> sorted (map tool_key (f xs)))"

definition permutes :: "(string list \<Rightarrow> string list) \<Rightarrow> bool" where
  "permutes f \<longleftrightarrow> (\<forall>xs. mset (f xs) = mset xs)"

lemma permutes_set: "permutes f \<Longrightarrow> set (f xs) = set xs"
  by (metis mset_eq_setD permutes_def)

lemma sorts_tools_set: "sorts_tools f \<Longrightarrow> set (f xs) = set xs"
  by (metis mset_eq_setD sorts_tools_def)

lemma merged_tool_named:
  assumes "permutes (fe_doneOrder env)" and "m \<in> set (merged_tools env cfg names)"
  shows "mt_server m \<in> set names \<and> (\<exists>t. mt_name m = mt_server m @ ''_'' @ t)"
proof -
  obtain name where n: "name \<in> set names" "m \<in> set (server_tools (fe_codec env) name (fst (server_run env cfg name)))"
    using assms(2) permutes_set [OF assms(1)] by (auto simp: merged_tools_def)
  then obtain tool raw full where "prefixMCPTool (fe_codec env) name tool = Some (raw, full)" "m = \<lparr>mt_raw = raw, mt_name = full, mt_server = name\<rparr>"
    by (auto simp: server_tools_def List.map_filter_def split: if_splits)
  then show ?thesis using n(1) by (auto simp: prefixMCPTool_def Let_def split: option.splits if_splits)
qed

lemma listed_merged: "sorts_tools (fe_sort env) \<Longrightarrow> m \<in> set (listed_tools env cfg names) \<Longrightarrow> m \<in> set (merged_tools env cfg names)"
  by (metis dedup_subset listed_tools_def sorts_tools_set)

lemma listed_tool_route:
  assumes "sorts_tools (fe_sort env)" and "permutes (fe_doneOrder env)" and "[] \<notin> set names" and "m \<in> set (listed_tools env cfg names)"
  shows "\<exists>s t. resolveFederatedTool (mt_name m) names = Some (s, t) \<and> mt_name m = s @ ''_'' @ t
    \<and> (s = mt_server m \<or> (\<forall>x\<in>set (merged_tools env cfg names). mt_name x = mt_name m \<longrightarrow> mt_server x \<noteq> s))"
proof -
  have merged: "m \<in> set (merged_tools env cfg names)"
    using listed_merged assms(1,4) by blast
  obtain u where u: "mt_server m \<in> set names" "mt_name m = mt_server m @ ''_'' @ u" using merged_tool_named [OF assms(2) merged] by blast
  then obtain s t where st: "resolveFederatedTool (mt_name m) names = Some (s, t)" using resolve_defined [OF u(1) _ u(2)] assms(3) by metis
  have sorted: "sorted (map mt_name (fe_sort env (merged_tools env cfg names)))" using assms(1) sorted_names by (simp add: sorts_tools_def)
  have "s = mt_server m" if "x \<in> set (merged_tools env cfg names)" "mt_name x = mt_name m" "mt_server x = s" for x
    using dedup_routed [OF sorted assms(4) [unfolded listed_tools_def] st] that sorts_tools_set [OF assms(1)] by metis
  then show ?thesis using st resolve_iff [THEN iffD1, OF st] by blast
qed

text \<open>Names are listed once, and each is routed to the server whose tool is listed, unless a server with a
  longer matching name exists that does not offer a tool of this name.\<close>

text \<open>C19: Every tool name is listed once, and a call of a listed name is routed to the server
  whose tool is listed, with its own tool name, unless the name also fits a server with a
  longer name that does not offer it.\<close>

theorem listed_tools_are_routed:
  assumes "sorts_tools (fe_sort env)" and "permutes (fe_doneOrder env)" and "[] \<notin> set names" and "m \<in> set (listed_tools env cfg names)"
  shows "distinct (map mt_name (listed_tools env cfg names))
    \<and> (\<exists>s t. resolveFederatedTool (mt_name m) names = Some (s, t) \<and> mt_name m = s @ ''_'' @ t
      \<and> (s = mt_server m \<or> (\<forall>x\<in>set (merged_tools env cfg names). mt_name x = mt_name m \<longrightarrow> mt_server x \<noteq> s)))"
proof
  show "distinct (map mt_name (listed_tools env cfg names))"
    using assms(1) sorted_names dedup_distinct by (simp add: sorts_tools_def listed_tools_def)
qed (rule listed_tool_route [OF assms])

text \<open>When no server name continues another after an underscore, every listed tool can be called.\<close>

theorem listed_tools_are_callable:
  assumes "sorts_tools (fe_sort env)" and "permutes (fe_doneOrder env)" and "[] \<notin> set names" and "m \<in> set (listed_tools env cfg names)"
    and "\<forall>a\<in>set names. \<forall>b\<in>set names. strings_HasPrefix (b @ ''_'') (a @ ''_'') \<longrightarrow> a = b"
  shows "\<exists>t. resolveFederatedTool (mt_name m) names = Some (mt_server m, t) \<and> mt_name m = mt_server m @ ''_'' @ t"
proof -
  obtain s t where st: "resolveFederatedTool (mt_name m) names = Some (s, t)" "mt_name m = s @ ''_'' @ t" using listed_tool_route [OF assms(1-4)] by blast
  have "m \<in> set (merged_tools env cfg names)"
    using listed_merged assms(1,4) by blast
  then obtain u where u: "mt_server m \<in> set names" "mt_name m = mt_server m @ ''_'' @ u" using merged_tool_named [OF assms(2)] by blast
  have "s @ ''_'' @ t = mt_server m @ ''_'' @ u" using st(2) u(2) by simp
  then have "(\<exists>v. s @ ''_'' = (mt_server m @ ''_'') @ v) \<or> (\<exists>v. mt_server m @ ''_'' = (s @ ''_'') @ v)"
    by (metis append_assoc append_eq_append_conv2)
  then have "s = mt_server m" using assms(5) u(1) resolve_iff [THEN iffD1, OF st(1)] by (metis has_prefix_iff)
  then show ?thesis using st by blast
qed

subsection \<open>The listing does not depend on the schedule\<close>

lemma perm_concat:
  assumes "mset xs = mset ys" shows "mset (concat (map f (filter P xs))) = mset (concat (map f (filter P ys)))"
proof -
  have "sum_list (map mset (map f (filter P xs))) = sum_list (map mset (map f (filter P ys)))"
    using assms by (metis mset_filter mset_map sum_mset_sum_list)
  then show ?thesis by (simp add: mset_concat)
qed

lemma sorted_unique:
  assumes "mset xs = mset ys" "sorted (map tool_key xs)" "sorted (map tool_key ys)" "distinct (map tool_key xs)"
  shows "xs = ys"
proof (rule map_sorted_distinct_set_unique [of tool_key])
  show "distinct (map tool_key ys)" using assms(1,4) by (metis mset_eq_imp_distinct_iff mset_map)
  show "set xs = set ys" using assms(1) by (rule mset_eq_setD)
  then show "inj_on tool_key (set xs \<union> set ys)" using assms(4) by (simp add: distinct_map)
qed (use assms in auto)

text \<open>C26: The answer to a federated tools/list does not depend on the order in which the servers
  are dialed and finish, nor on the sorting algorithm, as long as no server lists one name
  twice.\<close>

theorem tools_list_schedule_irrelevant:
  assumes "permutes (fe_doneOrder env)" and "sorts_tools (fe_sort env)" and "permutes done'" and "sorts_tools sort'"
    and "distinct (map tool_key (merged_tools env cfg names))"
  shows "fst (mcpFederatedToolsList (env\<lparr>fe_dialOrder := dial', fe_doneOrder := done', fe_sort := sort'\<rparr>) cfg format req names caller g)
    = fst (mcpFederatedToolsList env cfg format req names caller g)"
proof -
  let ?env = "env\<lparr>fe_dialOrder := dial', fe_doneOrder := done', fe_sort := sort'\<rparr>"
  have run: "server_run ?env cfg = server_run env cfg" by (simp add: server_run_def fun_eq_iff)
  have m: "mset (done' names) = mset (fe_doneOrder env names)" using assms(1,3) by (simp add: permutes_def)
  have merged: "mset (merged_tools ?env cfg names) = mset (merged_tools env cfg names)"
    using perm_concat [OF m] by (simp add: merged_tools_def run)
  have "fe_sort env (merged_tools env cfg names) = sort' (merged_tools ?env cfg names)"
  proof (rule sorted_unique)
    show "distinct (map tool_key (fe_sort env (merged_tools env cfg names)))"
      using assms(2,5) by (metis mset_eq_imp_distinct_iff mset_map sorts_tools_def)
  qed (use assms(2,4) merged in \<open>auto simp: sorts_tools_def\<close>)
  then have "listed_tools ?env cfg names = listed_tools env cfg names" by (simp add: listed_tools_def)
  moreover have "length (failed_servers ?env cfg names) = length (failed_servers env cfg names)"
    using arg_cong [OF m, of "\<lambda>x. size (filter_mset (\<lambda>name. \<not> fe_slot env name \<or> server_failed (fst (server_run env cfg name))) x)"]
    by (simp add: failed_servers_def run flip: mset_filter)
  ultimately show ?thesis by (cases "names = []") (simp_all add: mcpFederatedToolsList_def Let_def)
qed

subsection \<open>Who is contacted\<close>

lemma pages_sends:
  "fetch_pages be url n page cursor tools h = (r, h') \<Longrightarrow> \<exists>qs. h' = h @ qs \<and> list_all (\<lambda>q. bq_url q = url) qs \<and> length qs \<le> 5 * n"
proof (induction be url n page cursor tools h arbitrary: r h' rule: fetch_pages.induct)
  case (2 be url left page cursor tools h)
  obtain res h1 where c: "mcpBackendCall be url ''tools/list'' (ListParams cursor) mcpBackendResponseMaxBytes h = (res, h1)" by fastforce
  obtain qs where qs: "h1 = h @ qs" "list_all (\<lambda>q. bq_url q = url) qs" "length qs \<le> 5"
    using mcp_call_exchange [OF c] exchange_url by blast
  show ?case
  proof (cases "h' = h1")
    case True
    then show ?thesis using qs by auto
  next
    case False
    then obtain resp result where res: "res = Inr resp" "jr_Error resp = None" "Option.bind (jr_Result resp) (mc_toolsList (be_codec be)) = Some result" "tl_NextCursor result \<noteq> []"
      "fetch_pages be url left (Suc page) (tl_NextCursor result) (tools @ tl_Tools result) h1 = (r, h')"
      using "2.prems" c by (auto split: sum.splits if_splits option.splits)
    then obtain qs' where "h' = h1 @ qs'" "list_all (\<lambda>q. bq_url q = url) qs'" "length qs' \<le> 5 * left"
      using "2.IH" [OF c [symmetric] res(1) _ res(3)] by auto
    then show ?thesis using qs by auto
  qed
qed simp

definition contacted_ok :: "fedEnv \<Rightarrow> targetsConfig \<Rightarrow> group \<Rightarrow> (string \<times> backendRequest) list \<Rightarrow> bool" where
  "contacted_ok env cfg grp sent \<longleftrightarrow> list_all (\<lambda>(name, q). name \<in> set (allowedMCPServerNames (fe_path env) cfg grp) \<and> bq_url q = server_url cfg name) sent"

lemma list_contacts:
  assumes "permutes (fe_dialOrder env)"
  shows "\<exists>new. fs_sent (snd (mcpFederatedToolsList env cfg format req (allowedMCPServerNames (fe_path env) cfg grp) caller g)) = fs_sent g @ new
    \<and> contacted_ok env cfg grp new"
proof -
  let ?names = "allowedMCPServerNames (fe_path env) cfg grp"
  have "bq_url q = server_url cfg name" if "q \<in> set (snd (server_run env cfg name))" for name q
    using that pages_sends [of "fe_backend env" "server_url cfg name" mcpToolsListMaxPagesPerServer 0 "[]" "[]" "[]"]
    by (cases "server_run env cfg name") (fastforce simp: server_run_def list_all_iff)
  then show ?thesis using permutes_set [OF assms, of ?names]
    by (simp add: mcpFederatedToolsList_def Let_def contacted_ok_def list_all_iff)
qed

lemma call_contacts:
  "\<exists>new. fs_sent (snd (mcpFederatedToolsCall env cfg format req grp caller g)) = fs_sent g @ new \<and> contacted_ok env cfg grp new"
proof (cases "mc_callParams (fe_codec env) (jq_Params req)")
  case (Some params)
  show ?thesis
  proof (cases "resolveFederatedTool (cp_Name params) (allowedMCPServerNames (fe_path env) cfg grp)")
    case (Some st)
    obtain s t where st: "st = (s, t)" by fastforce
    obtain res h where c: "mcpBackendCall (fe_backend env) (server_url cfg s) ''tools/call'' (CallParams (params\<lparr>cp_Name := t\<rparr>)) mcpBackendCallResponseMaxBytes [] = (res, h)"
      by fastforce
    have "list_all (\<lambda>q. bq_url q = server_url cfg s) h" using mcp_call_exchange [OF c] exchange_url by auto
    then show ?thesis using \<open>mc_callParams _ _ = _\<close> Some st c resolve_iff [THEN iffD1, OF Some [unfolded st]]
      by (simp add: mcpFederatedToolsCall_def Let_def contacted_ok_def list_all_iff)
  qed (use Some in \<open>simp add: mcpFederatedToolsCall_def contacted_ok_def\<close>)
qed (simp add: mcpFederatedToolsCall_def contacted_ok_def)

lemma dispatch_contacts:
  assumes "permutes (fe_dialOrder env)"
  shows "\<exists>new. fs_sent (snd (dispatch_mcp env cfg u grp format req g)) = fs_sent g @ new \<and> contacted_ok env cfg grp new"
  using list_contacts [OF assms, of cfg format req grp "us_name u" g] call_contacts [of env cfg format req grp "us_name u" g]
  by (simp add: dispatch_mcp_def Let_def) (auto simp: contacted_ok_def)

text \<open>A federated request contacts only servers its caller may use and that speak the federated transport,
  at their configured URLs, and only once it has been admitted.\<close>

text \<open>C5: A request to the federated MCP endpoint sends something only to MCP servers its caller
  may use and that are configured, at their configured URLs, and only if the limiter
  admitted it, whatever method, tool name or parameters it carries.\<close>

theorem federated_contacts_only_allowed:
  assumes "permutes (fe_dialOrder env)" and "handleMCPFederated env cfg u grp hdr body g = (r, g')"
  shows "\<exists>new. fs_sent g' = fs_sent g @ new
    \<and> list_all (\<lambda>(name, q). allowsMCP grp name \<and> name \<in> fst ` set (tg_MCPServers cfg) \<and> bq_url q = server_url cfg name) new
    \<and> (new = [] \<or> fst (checkAndCount (fe_now env) (fe_now env) (fe_now env) (withTotalScope (buildLimitScopes u grp)) (fs_limiter g)) = None)"
proof -
  let ?now = "fe_now env" and ?scopes = "withTotalScope (buildLimitScopes u grp)"
  obtain v l1 where c: "checkAndCount ?now ?now ?now ?scopes (fs_limiter g) = (v, l1)" by fastforce
  have "\<exists>new. fs_sent g' = fs_sent g @ new \<and> contacted_ok env cfg grp new \<and> (new = [] \<or> v = None)"
  proof (cases "fs_sent g' = fs_sent g")
    case False
    then obtain req where v: "v = None"
      and d: "dispatch_mcp env cfg u grp (mcpNegotiateFormat hdr) req (g\<lparr>fs_limiter := recordLastSeen ?now ?scopes ?now l1\<rparr>) = (r, g')"
      using assms(2) c by (auto simp: handleMCPFederated_def Let_def split: if_splits option.splits)
    from dispatch_contacts [OF assms(1), of cfg u grp "mcpNegotiateFormat hdr" req "g\<lparr>fs_limiter := recordLastSeen ?now ?scopes ?now l1\<rparr>"]
    obtain new where "fs_sent g' = fs_sent g @ new" "contacted_ok env cfg grp new" unfolding d by auto
    then show ?thesis using v by blast
  qed (simp add: contacted_ok_def)
  then show ?thesis using c by (fastforce simp: contacted_ok_def allowedMCPServerNames_def list_all_iff)
qed


subsection \<open>Relayed messages carry no URL query\<close>

definition plain_url :: "string \<Rightarrow> bool" where
  "plain_url u \<longleftrightarrow> (\<exists>scheme host. scheme \<in> {''http://'', ''https://''} \<and> u = scheme @ host \<and> host \<noteq> [] \<and> list_all (\<lambda>c. url_char c \<and> c \<noteq> CHR ''?'') host)"

lemma plain_url_no_query: "plain_url u \<Longrightarrow> CHR ''?'' \<notin> set u"
proof -
  assume "plain_url u"
  then obtain scheme host where u: "scheme \<in> {''http://'', ''https://''}" "u = scheme @ host" "list_all (\<lambda>c. url_char c \<and> c \<noteq> CHR ''?'') host"
    unfolding plain_url_def by blast
  have "CHR ''?'' \<notin> set scheme" using u(1) by auto
  then show ?thesis using u(2,3) by (auto simp: list_all_iff)
qed

lemma match_scheme_append: "scheme \<in> {''http://'', ''https://''} \<Longrightarrow> match_scheme (scheme @ t) = Some (scheme, t)"
  by (auto simp: match_scheme_def strings_HasPrefix_def)

lemma match_query_url:
  assumes "plain_url u" shows "\<exists>rest. match_query (u @ CHR ''?'' # t) = Some (u, rest)"
proof -
  let ?P = "\<lambda>c. url_char c \<and> c \<noteq> CHR ''?''"
  obtain scheme host where u: "scheme \<in> {''http://'', ''https://''}" "u = scheme @ host" "host \<noteq> []" "list_all ?P host"
    using assms unfolding plain_url_def by blast
  have "takeWhile ?P (host @ CHR ''?'' # t) = host" "dropWhile ?P (host @ CHR ''?'' # t) = CHR ''?'' # t"
    using u(4) by (simp_all add: list_all_iff takeWhile_append2 dropWhile_append2)
  then show ?thesis using match_scheme_append [OF u(1), of "host @ CHR ''?'' # t"] u(2,3) by (simp add: match_query_def Let_def)
qed

lemma match_query_Some:
  assumes "match_query s = Some (u, rest)" shows "plain_url u \<and> (\<exists>t. s = u @ CHR ''?'' # t)"
proof -
  let ?P = "\<lambda>c. url_char c \<and> c \<noteq> CHR ''?''"
  obtain scheme t where m: "match_scheme s = Some (scheme, t)" using assms by (auto simp: match_query_def split: option.splits)
  have s: "scheme \<in> {''http://'', ''https://''} \<and> s = scheme @ t"
  proof (cases "strings_HasPrefix s ''http://''")
    case True
    then show ?thesis using m by (auto simp: match_scheme_def has_prefix_iff)
  next
    case False
    then show ?thesis using m by (auto simp: match_scheme_def has_prefix_iff split: if_splits)
  qed
  obtain v where v: "dropWhile ?P t = CHR ''?'' # v" "takeWhile ?P t \<noteq> []" "u = scheme @ takeWhile ?P t"
    using assms m by (auto simp: match_query_def Let_def split: list.splits if_splits)
  have "list_all ?P (takeWhile ?P t)" unfolding list_all_iff using set_takeWhileD [of _ ?P t] by blast
  then have "plain_url u" unfolding plain_url_def using s v(2,3) by blast
  moreover have "s = u @ CHR ''?'' # v" using takeWhile_dropWhile_id [of ?P t] v(1,3) s by (metis append_assoc)
  ultimately show ?thesis by blast
qed

lemma first_query: "x @ CHR ''?'' # y = x' @ CHR ''?'' # y' \<Longrightarrow> CHR ''?'' \<notin> set x \<Longrightarrow> CHR ''?'' \<notin> set x' \<Longrightarrow> x = x' \<and> y = y'"
  by (rule split_at_char)

lemma redact_prefix: "redact_queries s = x @ CHR ''?'' # y \<Longrightarrow> CHR ''?'' \<notin> set x \<Longrightarrow> \<exists>y'. s = x @ CHR ''?'' # y'"
proof (induction s arbitrary: x y rule: redact_queries.induct)
  case (1 s)
  show ?case
  proof (cases "match_query s")
    case None
    then obtain c t where s: "s = c # t" using "1.prems"(1) by (cases s) (auto simp: redact_queries.simps [of "[]"])
    then have e: "c # redact_queries t = x @ CHR ''?'' # y" using "1.prems"(1) None by (simp add: redact_queries.simps [of "c # t"])
    show ?thesis
    proof (cases x)
      case Nil
      then show ?thesis using e s by simp
    next
      case (Cons d x')
      then show ?thesis using "1.IH"(1) [OF None s, of x' y] e s "1.prems"(2) by auto
    qed
  next
    case (Some m)
    obtain u rest where m: "m = (u, rest)" by fastforce
    then have "redact_queries s = u @ CHR ''?'' # ''[redacted]'' @ redact_queries rest" using Some by (simp add: redact_queries.simps [of s])
    moreover obtain t where "s = u @ CHR ''?'' # t" "CHR ''?'' \<notin> set u"
      using match_query_Some Some m plain_url_no_query by blast
    ultimately show ?thesis using "1.prems" first_query by metis
  qed
qed

lemma url_start: "plain_url u \<Longrightarrow> \<exists>t. u = CHR ''h'' # t"
  by (auto simp: plain_url_def)

lemma redacted_everywhere:
  "redact_queries s = a @ u @ CHR ''?'' # b \<Longrightarrow> plain_url u \<Longrightarrow> \<exists>c. b = ''[redacted]'' @ c"
proof (induction s arbitrary: a rule: redact_queries.induct)
  case (1 s)
  note nq = plain_url_no_query [OF "1.prems"(2)]
  show ?case
  proof (cases "match_query s")
    case None
    then obtain c t where s: "s = c # t" using "1.prems"(1) by (cases s) (auto simp: redact_queries.simps [of "[]"])
    then have e: "c # redact_queries t = a @ u @ CHR ''?'' # b" using "1.prems"(1) None by (simp add: redact_queries.simps [of "c # t"])
    show ?thesis
    proof (cases a)
      case Nil
      then have "redact_queries s = u @ CHR ''?'' # b" using "1.prems"(1) by simp
      then obtain y' where "s = u @ CHR ''?'' # y'" using redact_prefix nq by blast
      then show ?thesis using match_query_url [OF "1.prems"(2), of y'] None by simp
    next
      case (Cons d a')
      then show ?thesis using "1.IH"(1) [OF None s, of a'] e "1.prems"(2) by simp
    qed
  next
    case (Some m)
    obtain v rest where m: "m = (v, rest)" by fastforce
    have v: "CHR ''?'' \<notin> set v" using match_query_Some Some m plain_url_no_query by blast
    have e: "v @ CHR ''?'' # ''[redacted]'' @ redact_queries rest = a @ u @ CHR ''?'' # b"
      using "1.prems"(1) Some m by (simp add: redact_queries.simps [of s])
    show ?thesis
    proof (cases "CHR ''?'' \<in> set a")
      case False
      then have "v = a @ u \<and> ''[redacted]'' @ redact_queries rest = b"
        using first_query [of v "''[redacted]'' @ redact_queries rest" "a @ u" b] e v nq by auto
      then show ?thesis by blast
    next
      case True
      then obtain a1 a2 where a: "a = a1 @ CHR ''?'' # a2" "CHR ''?'' \<notin> set a1" using split_list_first by metis
      then have r: "''[redacted]'' @ redact_queries rest = a2 @ u @ CHR ''?'' # b"
        using first_query [of v "''[redacted]'' @ redact_queries rest" a1 "a2 @ u @ CHR ''?'' # b"] e v by auto
      obtain t where t: "u = CHR ''h'' # t" using url_start [OF "1.prems"(2)] by blast
      have "\<exists>a3. a2 = ''[redacted]'' @ a3"
      proof -
        have "length ''[redacted]'' \<le> length a2"
        proof (rule ccontr)
          assume "\<not> length ''[redacted]'' \<le> length a2"
          then have l: "length a2 < length ''[redacted]''" by simp
          then have "(a2 @ u @ CHR ''?'' # b) ! length a2 = ''[redacted]'' ! length a2" "length a2 < 10"
            unfolding r [symmetric] nth_append if_P [OF l] by simp_all
          moreover have "(a2 @ u @ CHR ''?'' # b) ! length a2 = CHR ''h''" using t by simp
          moreover have "\<forall>i<10. ''[redacted]'' ! i \<noteq> CHR ''h''" by (simp add: numeral_eq_Suc All_less_Suc2)
          ultimately show False by metis
        qed
        then show ?thesis using r by (metis append_eq_append_conv_if append_take_drop_id)
      qed
      then obtain a3 where "redact_queries rest = a3 @ u @ CHR ''?'' # b" using r by auto
      then show ?thesis using "1.IH"(2) [OF Some m [symmetric], of a3] "1.prems"(2) by simp
    qed
  qed
qed

text \<open>Whatever a backend puts into an error message, every URL in what the client sees ends at a redacted query.\<close>

theorem relayed_queries_are_redacted:
  assumes "scrubRelayedBackendMessage uc msg targetURL = a @ u @ ''?'' @ b" and "plain_url u"
  shows "\<exists>c. b = ''[redacted]'' @ c"
  using assms redacted_everywhere by (simp add: scrubRelayedBackendMessage_def)

definition silent_url_codec :: urlCodec where
  "silent_url_codec = \<lparr>uc_parse = (\<lambda>_. None), uc_string = (\<lambda>_. []), uc_userinfo = (\<lambda>_. [])\<rparr>"

theorem relayed_queries_are_redacted_witness:
  "scrubRelayedBackendMessage silent_url_codec ''no http://x?key=1 today'' ''http://y'' = ''no '' @ ''http://x'' @ ''?'' @ ''[redacted] today''
   \<and> plain_url ''http://x'' \<and> (\<exists>c. ''[redacted] today'' = ''[redacted]'' @ c)"
proof -
  have e: "scrubRelayedBackendMessage silent_url_codec ''no http://x?key=1 today'' ''http://y'' = ''no '' @ ''http://x'' @ ''?'' @ ''[redacted] today''"
    by code_simp
  have u: "plain_url ''http://x''" unfolding plain_url_def
    by (rule exI [of _ "''http://''"], rule exI [of _ "''x''"]) (simp add: url_char_def)
  show ?thesis using e u relayed_queries_are_redacted [OF e u] by simp
qed

subsection \<open>A tool that is listed and cannot be called\<close>

text \<open>Two servers, \<open>a\<close> with a tool \<open>b_c\<close> and \<open>a_b\<close> with the tools \<open>offered\<close>.\<close>

definition demo_codec :: "string list \<Rightarrow> mcpCodec" where
  "demo_codec offered = \<lparr>
     mc_request = (\<lambda>s. Some \<lparr>jq_Params = Some s, jq_JSONRPC = ''2.0'', jq_Method = s, jq_ID = Some ''1''\<rparr>),
     mc_response = (\<lambda>s. Some \<lparr>jr_Error = None, jr_JSONRPC = ''2.0'', jr_Result = Some s, jr_ID = None\<rparr>),
     mc_protocolVersion = (\<lambda>_. []),
     mc_toolsList = (\<lambda>s. Some \<lparr>tl_NextCursor = [], tl_Tools = (if s = ''http://a'' then [[(''name'', ''b_c'')]] else map (\<lambda>t. [(''name'', t)]) offered)\<rparr>),
     mc_callParams = (\<lambda>p. None), mc_string = Some, mc_encodeParams = (\<lambda>p. Some []), mc_encodeRequest = (\<lambda>q. Some (jq_Method q)),
     mc_encodeResponse = jr_Result, mc_encodeList = (\<lambda>l. Some (concat (map (\<lambda>t. case map_of t ''name'' of Some n \<Rightarrow> n @ ''|'' | None \<Rightarrow> []) (tl_Tools l))))\<rparr>"

text \<open>Each server answers with its own URL.\<close>

definition demo_env :: "string list \<Rightarrow> fedEnv" where
  "demo_env offered = \<lparr>
     fe_backend = \<lparr>be_codec = demo_codec offered, be_builds = (\<lambda>_. True),
       be_do = (\<lambda>h q. Inr \<lparr>bk_status = 200, bk_session = [], bk_contentType = [], bk_body = bq_url q, bk_readErr = None\<rparr>)\<rparr>,
     fe_now = 0, fe_latency = (\<lambda>_. 0), fe_errText = (\<lambda>_. []), fe_url = \<lparr>uc_parse = (\<lambda>_. None), uc_string = (\<lambda>_. []), uc_userinfo = (\<lambda>_. [])\<rparr>,
     fe_path = (\<lambda>_. None), fe_slot = (\<lambda>_. True), fe_dialOrder = id, fe_doneOrder = id, fe_sort = sort_key tool_key, fe_version = ''1''\<rparr>"

definition demo_servers :: targetsConfig where
  "demo_servers = \<lparr>tg_MCPServers = [(''a'', Some ''http://a''), (''a_b'', Some ''http://b'')], tg_Agents = []\<rparr>"

lemma demo_sorts: "sorts_tools (sort_key tool_key)"
  by (simp add: sorts_tools_def)

lemma demo_permutes: "permutes id" "permutes rev"
  by (simp_all add: permutes_def)

lemma demo_run: "server_run (demo_env offered) demo_servers name =
    (\<lparr>sr_tools = map (\<lambda>t. [(''name'', t)]) (if server_url demo_servers name = ''http://a'' then [''b_c''] else offered),
     sr_page = 0, sr_transportErr = None, sr_appFailed = False\<rparr>,
     [post_request (server_url demo_servers name) [] ''tools/list''])"
proof -
  have "server_url demo_servers name \<in> {''http://a'', ''http://b'', []}" by (auto simp: server_url_def demo_servers_def)
  then have l: "length (server_url demo_servers name) \<le> 8" by auto
  have n: "mcpToolsListMaxPagesPerServer = Suc 19" by (simp add: mcpToolsListMaxPagesPerServer_def)
  have "strings_Contains [] ''text/event-stream'' = False" by simp
  then show ?thesis using l unfolding server_run_def n fetch_pages.simps(2)
    by (simp add: mcpBackendCall_def doBackendJSONRPC_def encode_call_def
        demo_env_def demo_codec_def read_answer_def parseBackendJSONRPC_def post_request_def mcpBackendResponseMaxBytes_def Let_def)
qed

definition demo_tool :: "string \<Rightarrow> string \<Rightarrow> mcpMergedTool" where
  "demo_tool srv t = \<lparr>mt_raw = [(''name'', marshal_string (srv @ ''_'' @ t))], mt_name = srv @ ''_'' @ t, mt_server = srv\<rparr>"

lemma demo_server_tools:
  "server_tools (fe_codec (demo_env offered)) srv \<lparr>sr_tools = map (\<lambda>t. [(''name'', t)]) ts, sr_page = 0, sr_transportErr = None, sr_appFailed = False\<rparr>
     = map (demo_tool srv) (filter (\<lambda>t. t \<noteq> []) ts)"
proof -
  have "mc_string (fe_codec (demo_env offered)) = Some" by (simp add: demo_env_def demo_codec_def)
  then have "prefixMCPTool (fe_codec (demo_env offered)) srv [(''name'', t)] = (if t = [] then None else Some (mt_raw (demo_tool srv t), mt_name (demo_tool srv t)))" for t
    by (simp add: prefixMCPTool_def demo_tool_def Let_def)
  then show ?thesis by (induction ts) (simp_all add: server_tools_def server_failed_def List.map_filter_simps demo_tool_def)
qed

lemma demo_merged:
  "merged_tools (demo_env offered) demo_servers [''a''] = [demo_tool ''a'' ''b_c'']"
  "merged_tools (demo_env offered) demo_servers [''a'', ''a_b''] = demo_tool ''a'' ''b_c'' # map (demo_tool ''a_b'') (filter (\<lambda>t. t \<noteq> []) offered)"
proof -
  have u: "server_url demo_servers ''a'' = ''http://a''" "server_url demo_servers ''a_b'' = ''http://b''" by (simp_all add: server_url_def demo_servers_def)
  have e: "fe_slot (demo_env offered) = (\<lambda>_. True)" "fe_doneOrder (demo_env offered) = id" by (simp_all add: demo_env_def)
  show "merged_tools (demo_env offered) demo_servers [''a''] = [demo_tool ''a'' ''b_c'']"
    "merged_tools (demo_env offered) demo_servers [''a'', ''a_b''] = demo_tool ''a'' ''b_c'' # map (demo_tool ''a_b'') (filter (\<lambda>t. t \<noteq> []) offered)"
    unfolding merged_tools_def e by (simp_all add: demo_run u demo_server_tools del: list.map(2))  (simp_all add: demo_run u demo_server_tools)
qed

text \<open>The second server offers nothing, yet calls of the first server's tool go to it.\<close>

theorem shadowed_tool_is_listed:
  "\<exists>m. listed_tools (demo_env []) demo_servers [''a'', ''a_b''] = [m] \<and> mt_name m = ''a_b_c'' \<and> mt_server m = ''a''
     \<and> resolveFederatedTool (mt_name m) [''a'', ''a_b''] = Some (''a_b'', ''c'')"
proof -
  have "listed_tools (demo_env []) demo_servers [''a'', ''a_b''] = [demo_tool ''a'' ''b_c'']"
    unfolding listed_tools_def demo_merged by (simp add: demo_env_def survivor_def)
  moreover have "resolveFederatedTool ''a_b_c'' [''a'', ''a_b''] = Some (''a_b'', ''c'')" by code_simp
  ultimately show ?thesis by (simp add: demo_tool_def)
qed

text \<open>With both offering the name, the tool of the server that is called is listed.\<close>

lemma demo_listed: "listed_tools (demo_env [''c'']) demo_servers [''a'', ''a_b''] = [demo_tool ''a_b'' ''c'']"
proof -
  have r: "resolveFederatedTool ''a_b_c'' [''a'', ''a_b''] = Some (''a_b'', ''c'')" by code_simp
  have "sort_key tool_key [demo_tool ''a'' ''b_c'', demo_tool ''a_b'' ''c''] = [demo_tool ''a'' ''b_c'', demo_tool ''a_b'' ''c'']"
    by (simp add: demo_tool_def less_eq_prod_def)
  then show ?thesis using r unfolding listed_tools_def demo_merged by (simp add: demo_env_def survivor_def) (simp add: demo_tool_def)
qed

theorem listed_tools_are_routed_witness:
  "distinct (map mt_name (listed_tools (demo_env [''c'']) demo_servers [''a'', ''a_b'']))
   \<and> (\<exists>s t. resolveFederatedTool ''a_b_c'' [''a'', ''a_b''] = Some (s, t) \<and> s = ''a_b'')"
proof -
  have e: "fe_sort (demo_env [''c'']) = sort_key tool_key" "fe_doneOrder (demo_env [''c'']) = id" by (simp_all add: demo_env_def)
  show ?thesis
    using listed_tools_are_routed [of "demo_env [''c'']" "[''a'', ''a_b'']" "demo_tool ''a_b'' ''c''" demo_servers] demo_sorts demo_permutes(1)
      resolve_iff [of "''a_b_c''" "[''a'', ''a_b'']" "''a_b''" "''c''"]
    by (simp add: demo_listed e has_prefix_iff)
qed

theorem listed_tools_are_callable_witness:
  "\<exists>t. resolveFederatedTool ''a_b_c'' [''a''] = Some (''a'', t)"
proof -
  have e: "fe_sort (demo_env []) = sort_key tool_key" "fe_doneOrder (demo_env []) = id" by (simp_all add: demo_env_def)
  have "listed_tools (demo_env []) demo_servers [''a''] = [demo_tool ''a'' ''b_c'']"
    unfolding listed_tools_def demo_merged by (simp add: demo_env_def survivor_def)
  then show ?thesis
    using listed_tools_are_callable [of "demo_env []" "[''a'']" "demo_tool ''a'' ''b_c''" demo_servers] demo_sorts demo_permutes(1) e
    by (auto simp: demo_tool_def)
qed

definition demo_state :: "unit fedState" where
  "demo_state = \<lparr>fs_limiter = newLimiter None False, fs_events = None, fs_targets = None, fs_sent = []\<rparr>"

definition demo_list_request :: jsonrpcRequest where
  "demo_list_request = \<lparr>jq_Params = None, jq_JSONRPC = [], jq_Method = ''tools/list'', jq_ID = None\<rparr>"

theorem tools_list_schedule_irrelevant_witness:
  "fst (mcpFederatedToolsList ((demo_env [''c''])\<lparr>fe_dialOrder := rev, fe_doneOrder := rev, fe_sort := sort_key tool_key\<rparr>) demo_servers McpResponseJSON
      demo_list_request [''a'', ''a_b''] ''u'' demo_state)
   = fst (mcpFederatedToolsList (demo_env [''c'']) demo_servers McpResponseJSON demo_list_request [''a'', ''a_b''] ''u'' demo_state)"
proof (rule tools_list_schedule_irrelevant)
  show "permutes (fe_doneOrder (demo_env [''c'']))" "sorts_tools (fe_sort (demo_env [''c'']))"
    using demo_permutes demo_sorts by (simp_all add: demo_env_def)
  show "distinct (map tool_key (merged_tools (demo_env [''c'']) demo_servers [''a'', ''a_b'']))" by (simp add: demo_merged demo_tool_def)
qed (rule demo_permutes demo_sorts)+

theorem federated_contacts_only_allowed_witness:
  "map fst (fs_sent (snd (handleMCPFederated (demo_env []) demo_servers sample_user local_only Map.empty (Some ''tools/list'') demo_state))) = [''a'', ''a_b'']
   \<and> list_all (\<lambda>(name, q). allowsMCP local_only name \<and> bq_url q = server_url demo_servers name)
        (fs_sent (snd (handleMCPFederated (demo_env []) demo_servers sample_user local_only Map.empty (Some ''tools/list'') demo_state)))"
proof -
  let ?out = "handleMCPFederated (demo_env []) demo_servers sample_user local_only Map.empty (Some ''tools/list'') demo_state"
  obtain l1 where c: "checkAndCount 0 0 0 (withTotalScope (buildLimitScopes sample_user local_only)) (newLimiter None False :: unit limiter) = (None, l1)"
    using sample_admitted by (metis prod.collapse)
  have names: "allowedMCPServerNames (\<lambda>_. None) demo_servers local_only = [''a'', ''a_b'']"
    by (simp add: allowedMCPServerNames_def demo_servers_def isLegacySSETransportURL_def allowsMCP_def matchesGlob_def local_only_def sample_group_def)
  have e: "fe_dialOrder (demo_env []) = id" "fe_slot (demo_env []) = (\<lambda>_. True)" "fe_path (demo_env []) = (\<lambda>_. None)" "fe_now (demo_env []) = 0"
    "mc_request (fe_codec (demo_env [])) s = Some \<lparr>jq_Params = Some s, jq_JSONRPC = ''2.0'', jq_Method = s, jq_ID = Some ''1''\<rparr>" for s
    by (simp_all add: demo_env_def demo_codec_def)
  have "fs_sent (snd ?out) = concat (map (\<lambda>name. map (Pair name) (snd (server_run (demo_env []) demo_servers name))) [''a'', ''a_b''])"
    using c by (simp add: handleMCPFederated_def header_get_def e maxRequestBytes_def Let_def demo_state_def dispatch_mcp_def mcpFederatedToolsList_def names)
  moreover have "map fst (map (Pair name) (snd (server_run (demo_env []) demo_servers name))) = [name]" for name
    by (simp add: demo_run)
  ultimately have "map fst (fs_sent (snd ?out)) = [''a'', ''a_b'']" by (simp add: map_concat)
  then show ?thesis
    using federated_contacts_only_allowed [of "demo_env []" demo_servers sample_user local_only Map.empty "Some ''tools/list''" demo_state, OF _ prod.collapse [symmetric]] demo_permutes(1)
    by (auto simp: e demo_state_def list_all_iff)
qed


end
