(* ===== verification/Spec2Isabelle.thy ===== *)
theory Spec2Isabelle
  imports Prelude GoStrings Calendar Windows CounterStore Gates Floats Limiter GoDuration Retry Concurrency Accounting Pricing Breakers GroupAccess AuthStore Registry Failover Resp Cache Events Unified GoText Sse RedisStore ProxyParts Watchdog TargetHealth QueryStrings Passthrough TargetProxy Routing Json TranslateAnthropic TranslateGemini Metrics AdminStats Adapters MediaRoutes McpBackend Federation
begin

text \<open>
  A verification development of traefik-llmgateway, a Traefik plugin in Go that stands in front of
  language-model providers: it identifies callers by API key, decides what they may use, counts and
  bounds their use, routes requests to providers (with retries, failover and a response cache),
  translates between the APIs of the providers, proxies native provider routes, MCP servers and A2A
  agents, and accounts tokens and cost.

  \<^bold>\<open>The program and its model.\<close>  The model is a shallow embedding.  A struct is a record, an error is a
  value of a sum or option type, a method is a function from the state (and its arguments) to its result
  and the new state, a loop is a recursion, integers that may overflow are wrapped explicitly
  (\<open>wrap64\<close>), and floating-point numbers are rationals rounded by \<open>fl\<close> to IEEE doubles.  A Go map is an
  association list or a map; where the code ranges over one, the order is that of the list.  Methods that
  run under a lock are atomic steps.  What the sources do not contain is a parameter: the network (a
  function of the requests sent), the clock (readings passed in), the hash function, \<open>url.Parse\<close>, and
  \<open>json.Unmarshal\<close> into the structures of the source.  The rest of the standard library that the code
  uses is modelled (strings, path matching, calendar, duration parsing, \<open>json.Marshal\<close>, query strings,
  the scanner).

  \<^bold>\<open>Foundations.\<close>
  \<^item> Prelude: generic lemmas, 64-bit wrapping, Go maps, the error monad, the theorem collections.
  \<^item> GoStrings, GoText, GoDuration, Calendar, Floats, Json: the standard library as far as it is used.

  \<^bold>\<open>Counting and limits\<close> (limits.go, concurrency.go, redis_store.go, resp.go).
  \<^item> Windows: the calendar windows and the counter keys; buckets identify windows, keys identify counters.
  \<^item> CounterStore: the in-memory store (\<open>memoryStore\<close>); the locale \<open>counter_store\<close> is what the limiter
    relies on, interpreted on it as \<open>mem\<close>.
  \<^item> Gates: the bounded two-generation maps (rejections, last-seen, failed logins) and the log gate;
    the locale \<open>two_generations\<close> is interpreted for two of them.
  \<^item> Limiter: \<open>checkAndCount\<close> with its budgets, rollback, store latch and fail policy.
  \<^item> Accounting: what is recorded after a request and how the dashboards read it back.
  \<^item> Concurrency: the learned concurrency limit.
  \<^item> Resp, RedisStore: the RESP encoding and decoder, and the Redis-backed store, which refines the same
    specification; the locale \<open>counter_service\<close> carries the admission theorem over to both stores.

  \<^bold>\<open>Callers and models\<close> (auth.go, users_file.go, registry.go, pricing.go, modelmeta.go).
  \<^item> GroupAccess, AuthStore: groups, merged grants, the user store with reloads, identification.
  \<^item> Registry: model discovery state, aliases, resolution, the model listing.
  \<^item> Breakers: the discovery and the request circuit breaker; the locale \<open>circuit_breaker\<close> proves
    recovery once and is interpreted on both.
  \<^item> Pricing: price sources and the cost of a request.

  \<^bold>\<open>Requests\<close> (routes_unified.go, failover.go, retry.go, cache.go, events.go).
  \<^item> Retry, Failover, Cache, Events: their policies and state.
  \<^item> Unified: a request to a unified route from admission to accounting, over the components above.

  \<^bold>\<open>Proxies\<close> (routes_passthrough.go, mcp_a2a.go, target_health.go, timeout.go, sse.go, mcp_federation.go).
  \<^item> Sse: reader and writer of event streams.  Watchdog: inactivity timeouts.
  \<^item> ProxyParts, QueryStrings, Passthrough: header filtering, path checks, the model scan, the bounded
    accounting buffers, and the native passthrough route.
  \<^item> TargetHealth, TargetProxy: the health of MCP servers and agents and the proxy to them.
  \<^item> McpBackend, Federation: the federated MCP endpoint, its backend sessions, the concurrent listing and
    the routing of tool calls.
  \<^item> Routing: \<open>ServeHTTP\<close>, the dispatch from the request line to the handlers, with logging and errors.

  \<^bold>\<open>Translation\<close> (translate_anthropic.go, translate_gemini.go, translate_gemini_images.go).
  \<^item> TranslateAnthropic, TranslateGemini: requests, answers and streams; the locale \<open>stream_translator\<close> is
    the contract of a stream translator, interpreted on both.

  \<^bold>\<open>Adapters\<close> (providers.go, provider_openai.go, provider_anthropic.go, provider_gemini.go).
  \<^item> Adapters: construction, credentials, the upstream call with retries, and the operations of the three
    kinds of provider over a network, with what they write to the client.
  \<^item> MediaRoutes (routes_media.go, routes_messages.go): images, speech, transcription and the Anthropic messages
    route on top of them, with their bodies, headers and error envelopes.

  \<^bold>\<open>Observation\<close> (metrics.go, stats_read.go, admin.go).
  \<^item> Metrics: the text format with its escaping, histograms and counters, and the rendering of every family.
  \<^item> AdminStats: the statistics endpoints, their parameters, bounded reads and replies.

  \<^bold>\<open>What is shown.\<close>  Safety of access: no handler runs without a key, and an upstream, target or MCP
  server is contacted only if one grant of the caller covers it (Routing, Passthrough, TargetProxy,
  Federation, Registry, GroupAccess).  Enforcement: admission is exactly the comparison of counters with
  limits, rejection rolls back, an outage follows the configured policy, counters live as long as their
  window, and the spent budget of this theory is enforced (Limiter, CounterStore, RedisStore).
  Accounting: each call is charged once and at a known price (Unified, Accounting, Pricing,
  Passthrough).  Bounds and returned resources: retries, failover, caches, gates,
  buffers and the reads of the statistics.  Credentials stay with their provider (Adapters).  Liveness
  and termination: breakers close again, progressing bodies are not cut, retries end.  Equivalences,
  refinements and round trips: stores against a specification, breakers against a reference, streams
  against complete answers, encoders against decoders.

  \<^bold>\<open>Bounds and fuel.\<close>  No theorem is about a truncated computation: loops are structurally recursive or
  have a termination measure.  The page loop of the federated listing recurses on the pages left, at
  most the 20 of the source.  \<open>scan_lines\<close> and the decoders recurse on the length of the input.

  \<^bold>\<open>Not modelled.\<close>  The other views of the admin dashboard and its assets (admin.go beyond its dispatch and
  statistics, admin_catalog.go, admin_config.go, admin_assets_gen.go): read-only renderings of state
  modelled here.  The multipart reader and writer of the standard library are parameters of MediaRoutes.  In
  Unified the adapter call is a parameter (\<open>ge_call\<close>); Adapters models what stands behind it.
  Construction from configuration (llmgateway.go beyond \<open>ServeHTTP\<close> and validation), file watching,
  telemetry and the standalone server (cmd/gateway): input and output.  The price table
  (pricing_data_gen.go) is data.  Real interleavings inside a lock, panics other than the recovery in
  \<open>ServeHTTP\<close> and those of the statistics endpoints, and log lines other than those of the logger are not
  modelled either.
\<close>

subsection \<open>Accounting and admission\<close>

lemma accountWith_keeps_cover:
  assumes "lim_store l = None" and "covers_windows (lim_fallback l)" and "0 \<le> now" and "now \<le> ts"
  shows "covers_windows (lim_fallback (accountWith now ts scopes u costMicros x l))
    \<and> lim_store (accountWith now ts scopes u costMicros x l) = None"
proof -
  obtain n msgs where p: "plausible u costMicros = (n, msgs)" by fastforce
  show ?thesis
    using covers_incrMulti [OF assms(3,4,2) entries_at_windowed] assms(1,2) p
    by (simp add: accountWith_def Let_def storeIncrMulti_def store_call_fallback served_by_fallback_def)
qed


definition capped_scope :: limitScope where
  "capped_scope = \<lparr>sc_limits = Some (no_limits\<lparr>TokensPerDay := 10\<rparr>), sc_kind = ''user'', sc_id = ''ann''\<rparr>"


end
